(* ===== verification/Prelude.thy ===== *)
theory Prelude
  imports Main "HOL-Library.Word" "HOL-Library.Char_ord" "HOL-Library.List_Lexorder"
begin

text \<open>
  Shared vocabulary of the development: the collections of rewrite rules the components fill
  (\<open>wire_simps\<close>, \<open>route_simps\<close>), failures as values of a sum type, 32-bit signed arithmetic with its
  wrap-around written out, the C++ containers the sources use (\<open>std::map\<close> as an association list
  kept in key order, \<open>std::unordered_map\<close> as a partial function) behind one interface locale
  \<open>key_store\<close>, and two further interfaces several components share: \<open>seq_gate\<close> (accept a peer's
  announcement only when its sequence number grows) and \<open>holding_store\<close> (messages held per key until
  a consumer appears).

  A C++ \<open>char\<close> and a \<open>bcos::byte\<close> are the same 8-bit values, and the sources move them freely between
  \<open>std::string\<close> and \<open>bcos::bytes\<close>; both are \<open>char list\<close> here, HOL's \<open>char\<close> being an 8-bit value.
\<close>

named_theorems wire_simps \<open>unfolding rules of the wire format\<close>
named_theorems route_simps \<open>unfolding rules of the routing components\<close>

section \<open>Basic types\<close>

type_synonym bytes = "char list"
type_synonym u8 = "8 word"
type_synonym u16 = "16 word"
type_synonym u32 = "32 word"
type_synonym u64 = "64 word"

text \<open>
  The ways a call of the modelled code can fail. \<open>OutOfRange\<close> is the \<open>std::out_of_range\<close> that
  \<open>CHECK_OFFSET_WITH_THROW_EXCEPTION\<close> throws, \<open>WeDPRException\<close> the project's own exception with the
  comment it carries. \<open>OutOfBoundsRead\<close> marks a read past the end of a buffer that the C++ performs
  without any check (undefined behaviour there), so that its absence can be stated and proved.
\<close>

datatype exn = OutOfRange | OutOfBoundsRead | WeDPRException string

type_synonym 'a res = "exn + 'a"

definition rbind :: "'e + 'a \<Rightarrow> ('a \<Rightarrow> 'e + 'b) \<Rightarrow> 'e + 'b" where
  "rbind r f = (case r of Inl e \<Rightarrow> Inl e | Inr a \<Rightarrow> f a)"

lemma rbind_simps [simp]:
  "rbind (Inl e) f = Inl e"
  "rbind (Inr a) f = f a"
  by (simp_all add: rbind_def)

lemma rbind_eq_Inr [simp]: "rbind r f = Inr b \<longleftrightarrow> (\<exists>a. r = Inr a \<and> f a = Inr b)"
  by (cases r) simp_all

lemma rbind_eq_Inl: "rbind r f = Inl e \<longleftrightarrow> r = Inl e \<or> (\<exists>a. r = Inr a \<and> f a = Inl e)"
  by (cases r) auto

section \<open>Signed 32-bit arithmetic\<close>

text \<open>
  An \<open>int32_t\<close> is an \<open>int\<close> in \<open>[-2^31, 2^31)\<close>; \<open>i32\<close> writes out the two's complement wrap-around of
  a result. Signed overflow is undefined in C++; the two's complement value is what the compiled code
  produces, and the theorems state the bounds under which no wrap-around happens.
\<close>

definition i32 :: "int \<Rightarrow> int" where
  "i32 x = (x + 2 ^ 31) mod 2 ^ 32 - 2 ^ 31"

lemma i32_id [simp]: "- (2 ^ 31) \<le> x \<Longrightarrow> x < 2 ^ 31 \<Longrightarrow> i32 x = x"
  by (simp add: i32_def)

lemma i32_bounds: "- (2 ^ 31) \<le> i32 x \<and> i32 x < 2 ^ 31"
  using pos_mod_bound [of "2 ^ 32" "x + 2 ^ 31"] pos_mod_sign [of "2 ^ 32" "x + 2 ^ 31"]
  by (simp add: i32_def)

section \<open>Flag words\<close>

unbundle bit_operations_syntax

lemma flag_set [simp]: "(x OR f) AND f = (f :: 'a::len word)"
  by (rule bit_word_eqI) (auto simp: bit_simps)

lemma flag_keep:
  fixes x f g :: "'a::len word"
  assumes "f AND g = 0"
  shows "(x OR f) AND g = x AND g"
proof (rule bit_word_eqI)
  fix n
  have "bit (f AND g) n = bit (0 :: 'a word) n" using assms by simp
  then show "bit ((x OR f) AND g) n = bit (x AND g) n"
    by (auto simp: bit_simps)
qed

section \<open>The associative containers\<close>

text \<open>
  What the components rely on from a C++ associative container: \<open>find\<close>, overwriting insertion
  (\<open>operator[] =\<close>) and \<open>erase\<close>.
\<close>

locale key_store =
  fixes empty_st :: "'m"
    and put :: "'k \<Rightarrow> 'v \<Rightarrow> 'm \<Rightarrow> 'm"
    and erase :: "'k \<Rightarrow> 'm \<Rightarrow> 'm"
    and find_st :: "'m \<Rightarrow> 'k \<Rightarrow> 'v option"
    and ok :: "'m \<Rightarrow> bool"
  assumes find_empty: "find_st empty_st k = None"
    and find_put: "ok m \<Longrightarrow> find_st (put k v m) k' = (if k' = k then Some v else find_st m k')"
    and find_erase: "ok m \<Longrightarrow> find_st (erase k m) k' = (if k' = k then None else find_st m k')"
    and ok_empty: "ok empty_st"
    and ok_put: "ok m \<Longrightarrow> ok (put k v m)"
    and ok_erase: "ok m \<Longrightarrow> ok (erase k m)"
begin

lemmas store_laws = find_empty find_put find_erase ok_empty ok_put ok_erase

lemma find_put_same: "ok m \<Longrightarrow> find_st (put k v m) k = Some v"
  by (simp add: find_put)

lemma find_put_put: "ok m \<Longrightarrow> find_st (put k v (put k w m)) = find_st (put k v m)"
  by (simp add: fun_eq_iff find_put ok_put)

lemma find_erase_put: "ok m \<Longrightarrow> find_st (erase k (put k v m)) = find_st (erase k m)"
  by (simp add: fun_eq_iff find_put find_erase ok_put)

lemma dom_put: "ok m \<Longrightarrow> dom (find_st (put k v m)) = insert k (dom (find_st m))"
  by (auto simp: find_put dom_def)

lemma dom_erase: "ok m \<Longrightarrow> dom (find_st (erase k m)) = dom (find_st m) - {k}"
  by (auto simp: find_erase dom_def split: if_splits)

lemma ok_fold_put: "ok m \<Longrightarrow> ok (fold (\<lambda>(k, v). put k v) kvs m)"
  by (induction kvs arbitrary: m) (auto simp: ok_put)

lemma find_fold_put:
  "ok m \<Longrightarrow> distinct (map fst kvs) \<Longrightarrow>
   find_st (fold (\<lambda>(k, v). put k v) kvs m) k =
     (case map_of kvs k of None \<Rightarrow> find_st m k | Some v \<Rightarrow> Some v)"
proof (induction kvs arbitrary: m)
  case Nil
  then show ?case by simp
next
  case (Cons kv kvs)
  obtain a b where kv: "kv = (a, b)" by (cases kv)
  from Cons.prems(2) kv have na: "map_of kvs a = None"
    by (simp add: map_of_eq_None_iff)
  from Cons.prems kv show ?case
    by (auto simp: Cons.IH find_put ok_put na split: option.splits)
qed

end

subsection \<open>std::map\<close>

type_synonym ('k, 'v) smap = "('k \<times> 'v) list"

fun smap_put :: "'k::linorder \<Rightarrow> 'v \<Rightarrow> ('k, 'v) smap \<Rightarrow> ('k, 'v) smap" where
  "smap_put k v [] = [(k, v)]"
| "smap_put k v ((a, b) # m) =
     (if k = a then (a, v) # m
      else if a < k then (a, b) # smap_put k v m
      else (k, v) # (a, b) # m)"

definition smap_erase :: "'k::linorder \<Rightarrow> ('k, 'v) smap \<Rightarrow> ('k, 'v) smap" where
  "smap_erase k m = filter (\<lambda>kv. fst kv \<noteq> k) m"

definition smap_ok :: "('k::linorder, 'v) smap \<Rightarrow> bool" where
  "smap_ok m \<longleftrightarrow> sorted_wrt (<) (map fst m)"

lemma map_of_smap_put: "map_of (smap_put k v m) k' = (if k' = k then Some v else map_of m k')"
  by (induction k v m rule: smap_put.induct) auto

lemma map_of_smap_erase: "map_of (smap_erase k m) k' = (if k' = k then None else map_of m k')"
  by (induction m) (auto simp: smap_erase_def)

lemma keys_smap_put: "fst ` set (smap_put k v m) = insert k (fst ` set m)"
  by (induction k v m rule: smap_put.induct) auto

lemma smap_put_subset: "set (smap_put k v m) \<subseteq> insert (k, v) (set m)"
  by (induction m rule: smap_put.induct) auto

lemma smap_ok_put: "smap_ok m \<Longrightarrow> smap_ok (smap_put k v m)"
proof (induction k v m rule: smap_put.induct)
  case (2 k v a b m)
  then have "smap_ok m" and "\<forall>x \<in> fst ` set m. a < x"
    by (simp_all add: smap_ok_def)
  with 2 show ?case
    by (auto simp: smap_ok_def keys_smap_put)
qed (simp add: smap_ok_def)

lemma smap_ok_erase: "smap_ok m \<Longrightarrow> smap_ok (smap_erase k m)"
  by (auto simp: smap_ok_def smap_erase_def sorted_wrt_map intro: sorted_wrt_filter)

lemma smap_ok_filter: "smap_ok m \<Longrightarrow> smap_ok (filter P m)"
  by (auto simp: smap_ok_def sorted_wrt_map intro: sorted_wrt_filter)

lemma smap_ok_Nil [simp]: "smap_ok []"
  by (simp add: smap_ok_def)

lemma smap_ok_distinct: "smap_ok m \<Longrightarrow> distinct (map fst m)"
  by (simp add: smap_ok_def strict_sorted_iff)

interpretation smap: key_store "[]" smap_put smap_erase map_of smap_ok
  by unfold_locales (simp_all add: map_of_smap_put map_of_smap_erase smap_ok_put smap_ok_erase)

text \<open>Changing every value in place (a loop over the iterators that writes \<open>it->second\<close>).\<close>

definition smap_map :: "('k \<Rightarrow> 'v \<Rightarrow> 'w) \<Rightarrow> ('k, 'v) smap \<Rightarrow> ('k, 'w) smap" where
  "smap_map f m = map (\<lambda>(k, v). (k, f k v)) m"

lemma map_of_smap_map [simp]: "map_of (smap_map f m) k = map_option (f k) (map_of m k)"
  by (induction m) (auto simp: smap_map_def)

lemma fst_smap_map [simp]: "map fst (smap_map f m) = map fst m"
  by (simp add: smap_map_def comp_def case_prod_beta)

lemma smap_ok_map [simp]: "smap_ok (smap_map f m) = smap_ok m"
  by (simp add: smap_ok_def)

subsection \<open>std::unordered_map\<close>

abbreviation umap_put :: "'k \<Rightarrow> 'v \<Rightarrow> ('k \<rightharpoonup> 'v) \<Rightarrow> ('k \<rightharpoonup> 'v)" where
  "umap_put k v m \<equiv> m(k \<mapsto> v)"

abbreviation umap_erase :: "'k \<Rightarrow> ('k \<rightharpoonup> 'v) \<Rightarrow> ('k \<rightharpoonup> 'v)" where
  "umap_erase k m \<equiv> m(k := None)"

interpretation umap: key_store "Map.empty" umap_put umap_erase "\<lambda>m. m" "\<lambda>_. True"
  by unfold_locales simp_all

section \<open>Interfaces shared by the transport components\<close>

subsection \<open>Sequence numbers\<close>

text \<open>
  Both the peer-to-peer router and the gateway router keep the last status sequence number of every
  peer and react to an announcement only when the number grew.
\<close>

lemma Max_insert_max:
  "finite A \<Longrightarrow> Max (insert (max m n) A) = Max (insert m (insert (n::'a::linorder) A))"
  by (cases "A = {}") (simp_all add: max.assoc)

locale seq_gate =
  fixes offer :: "'k \<Rightarrow> u32 \<Rightarrow> 'st \<Rightarrow> bool \<times> 'st"
    and last_seq :: "'st \<Rightarrow> 'k \<Rightarrow> u32 option"
  assumes offer_accepts:
      "fst (offer k n s) \<longleftrightarrow> (case last_seq s k of None \<Rightarrow> True | Some m \<Rightarrow> m < n)"
    and offer_last:
      "last_seq (snd (offer k n s)) k' =
         (if k' = k \<and> fst (offer k n s) then Some n else last_seq s k')"
begin

lemma offer_again_rejected: "\<not> fst (offer k n (snd (offer k n s)))"
  by (auto simp: offer_accepts offer_last split: option.splits)

lemma offer_stale_rejected:
  "last_seq s k = Some m \<Longrightarrow> n \<le> m \<Longrightarrow> \<not> fst (offer k n s)"
  by (auto simp: offer_accepts)

lemma last_seq_mono_step:
  "last_seq s k = Some m \<Longrightarrow> \<exists>m'. last_seq (snd (offer k' n s)) k = Some m' \<and> m \<le> m'"
  by (cases "k = k'") (auto simp: offer_last offer_accepts)

lemma last_seq_offers:
  defines "run \<equiv> fold (\<lambda>(k, n) s. snd (offer k n s))"
  shows "last_seq (run xs s) k =
    (let ns = (case last_seq s k of None \<Rightarrow> [] | Some m \<Rightarrow> [m]) @ map snd (filter (\<lambda>x. fst x = k) xs)
     in if ns = [] then None else Some (Max (set ns)))"
proof (induction xs arbitrary: s)
  case Nil
  then show ?case by (simp add: run_def split: option.splits)
next
  case (Cons x xs)
  obtain k' n where x: "x = (k', n)" by (cases x)
  show ?case
  proof (cases "k' = k")
    case False
    then have "last_seq (snd (offer k' n s)) k = last_seq s k" by (simp add: offer_last)
    with Cons.IH [of "snd (offer k' n s)"] x False show ?thesis by (simp add: run_def)
  next
    case True
    let ?ks = "map snd (filter (\<lambda>x. fst x = k) xs)"
    show ?thesis
    proof (cases "last_seq s k")
      case None
      with True have "last_seq (snd (offer k' n s)) k = Some n"
        by (simp add: offer_last offer_accepts)
      with Cons.IH [of "snd (offer k' n s)"] x True None show ?thesis by (simp add: run_def)
    next
      case (Some m)
      have "last_seq (snd (offer k' n s)) k = Some (max m n)"
        using True Some by (auto simp: offer_last offer_accepts max_def)
      moreover have "Max (insert (max m n) (set ?ks)) = Max (insert m (insert n (set ?ks)))"
        by (rule Max_insert_max) simp
      ultimately show ?thesis
        using Cons.IH [of "snd (offer k' n s)"] x True Some by (simp add: run_def Let_def)
    qed
  qed
qed

end

subsection \<open>Held messages\<close>

text \<open>
  The gateway's message cache, the front's per-topic buffer and the channel manager's holding table
  keep messages whose consumer has not registered yet.
\<close>

locale holding_store =
  fixes hold :: "'k \<Rightarrow> 'v \<Rightarrow> 'st \<Rightarrow> 'st"
    and release :: "'k \<Rightarrow> 'st \<Rightarrow> 'v list \<times> 'st"
    and pending :: "'st \<Rightarrow> 'k \<Rightarrow> 'v list"
  assumes pending_hold:
      "pending (hold k v s) k' = (if k' = k then pending s k @ [v] else pending s k')"
    and release_all: "fst (release k s) = pending s k"
    and pending_release:
      "pending (snd (release k s)) k' = (if k' = k then [] else pending s k')"
begin

lemma pending_holds:
  "pending (fold (\<lambda>(k, v). hold k v) kvs s) k =
     pending s k @ map snd (filter (\<lambda>x. fst x = k) kvs)"
  by (induction kvs arbitrary: s) (auto simp: pending_hold)

lemma release_after_holds:
  "fst (release k (fold (\<lambda>(k, v). hold k v) kvs s)) =
     pending s k @ map snd (filter (\<lambda>x. fst x = k) kvs)"
  by (simp add: release_all pending_holds)

lemma release_once: "fst (release k (snd (release k s))) = []"
  by (simp add: release_all pending_release)

lemma release_other: "k' \<noteq> k \<Longrightarrow> fst (release k' (snd (release k s))) = fst (release k' s)"
  by (simp add: release_all pending_release)

end

subsection \<open>Runs and one-shot callbacks\<close>

text \<open>
  A component driven by events: the outputs of a run are those of its steps, in order. A one-shot
  callback is worth one call: \<open>pend\<close> says whether it is still registered, and every step but its own
  registration that calls it also unregisters it.
\<close>

fun run_steps :: "('e \<Rightarrow> 's \<Rightarrow> 's \<times> 'o list) \<Rightarrow> 'e list \<Rightarrow> 's \<Rightarrow> 's \<times> 'o list" where
  "run_steps step [] s = (s, [])"
| "run_steps step (e # es) s =
     (let (s', o1) = step e s; (s'', o2) = run_steps step es s' in (s'', o1 @ o2))"

lemma run_steps_Cons:
  "run_steps step (e # es) s =
     (fst (run_steps step es (fst (step e s))), snd (step e s) @ snd (run_steps step es (fst (step e s))))"
  by (simp add: split_beta)

lemma run_steps_append:
  "run_steps step (es @ es') s =
     (fst (run_steps step es' (fst (run_steps step es s))),
      snd (run_steps step es s) @ snd (run_steps step es' (fst (run_steps step es s))))"
  by (induction es arbitrary: s) (simp_all add: split_beta Let_def)

lemma run_steps_inv:
  assumes "\<And>e s. P s \<Longrightarrow> P (fst (step e s))" and "P s"
  shows "P (fst (run_steps step es s))"
  using assms(2) by (induction es arbitrary: s) (simp_all add: split_beta Let_def assms(1))

locale one_shot =
  fixes step :: "'e \<Rightarrow> 's \<Rightarrow> 's \<times> 'o list"
    and registers :: "'e \<Rightarrow> bool"
    and ok :: "'s \<Rightarrow> bool"
    and pend :: "'s \<Rightarrow> nat"
    and count :: "'o list \<Rightarrow> nat"
  assumes ok_step: "ok s \<Longrightarrow> \<not> registers e \<Longrightarrow> ok (fst (step e s))"
    and step_spends: "ok s \<Longrightarrow> \<not> registers e \<Longrightarrow> pend (fst (step e s)) + count (snd (step e s)) \<le> pend s"
    and register_once:
      "pend s = 0 \<Longrightarrow> registers e \<Longrightarrow> ok (fst (step e s)) \<and> pend (fst (step e s)) + count (snd (step e s)) \<le> 1"
    and count_Nil: "count [] = 0"
    and count_append: "count (xs @ ys) = count xs + count ys"
begin

lemma run_spends:
  "ok s \<Longrightarrow> \<forall>e \<in> set es. \<not> registers e \<Longrightarrow>
   pend (fst (run_steps step es s)) + count (snd (run_steps step es s)) \<le> pend s"
proof (induction es arbitrary: s)
  case (Cons e es)
  then have "ok (fst (step e s))" "pend (fst (step e s)) + count (snd (step e s)) \<le> pend s"
    by (simp_all add: ok_step step_spends)
  with Cons.IH [of "fst (step e s)"] Cons.prems(2) show ?case
    by (simp add: run_steps_Cons count_append del: run_steps.simps)
qed (simp add: count_Nil)

lemma at_most_once:
  assumes "ok s" and "pend s = 0" and "\<forall>e \<in> set es. \<not> registers e" and "registers e"
    and "\<forall>e \<in> set es'. \<not> registers e"
  shows "count (snd (run_steps step (es @ e # es') s)) \<le> 1"
proof -
  let ?s = "fst (run_steps step es s)"
  from run_spends [OF assms(1,3)] assms(2) have b: "count (snd (run_steps step es s)) = 0" "pend ?s = 0"
    by simp_all
  note r = register_once [OF b(2) assms(4)]
  with run_spends [OF _ assms(5), of "fst (step e ?s)"]
  show ?thesis
    by (simp add: run_steps_append run_steps_Cons count_append b(1) del: run_steps.simps)
qed

end

end
