(* ===== verification/NetBuffer.thy ===== *)
theory NetBuffer
  imports Prelude
begin

text \<open>
  The byte-buffer layer under every message format: integers in network byte order
  (\<open>boost::asio::detail::socket_ops::host_to_network_short/long\<close> followed by a copy of the 2 or 4
  bytes), unchecked reads, and the length-prefixed field reader \<open>decodeNetworkBuffer\<close> of
  wedpr-helper/ppc-utilities/Utilities.h. The interface \<open>field_codec\<close> says what a field format
  promises to the message formats built from it; it is interpreted on the 16-bit and on the 32-bit
  length-prefixed formats.
\<close>

section \<open>Integers in network byte order\<close>

definition net_u16 :: "nat \<Rightarrow> bytes" where
  "net_u16 n = [char_of (n div 256), char_of n]"

definition net_u32 :: "nat \<Rightarrow> bytes" where
  "net_u32 n = [char_of (n div 16777216), char_of (n div 65536), char_of (n div 256), char_of n]"

text \<open>A read through a cast pointer: it is not checked, so past the end it is out of bounds.\<close>

definition read_u16 :: "bytes \<Rightarrow> nat \<Rightarrow> nat res" where
  "read_u16 buf off =
     (if off + 2 \<le> length buf
      then Inr (256 * of_char (buf ! off) + of_char (buf ! (off + 1)))
      else Inl OutOfBoundsRead)"

definition read_u32 :: "bytes \<Rightarrow> nat \<Rightarrow> nat res" where
  "read_u32 buf off =
     (if off + 4 \<le> length buf
      then Inr (16777216 * of_char (buf ! off) + 65536 * of_char (buf ! (off + 1)) +
                256 * of_char (buf ! (off + 2)) + of_char (buf ! (off + 3)))
      else Inl OutOfBoundsRead)"

definition read_u8 :: "bytes \<Rightarrow> nat \<Rightarrow> nat res" where
  "read_u8 buf off = (if off < length buf then Inr (of_char (buf ! off)) else Inl OutOfBoundsRead)"

lemma length_net [simp]: "length (net_u16 n) = 2" "length (net_u32 n) = 4"
  by (simp_all add: net_u16_def net_u32_def)

lemma u16_split: "256 * (n div 256 mod 256) + n mod 256 = n mod (65536::nat)"
proof -
  have "n mod (256 * 256) = 256 * (n div 256 mod 256) + n mod 256"
    by (rule mod_mult2_eq)
  then show ?thesis by simp
qed

lemma u32_split:
  "16777216 * (n div 16777216 mod 256) + 65536 * (n div 65536 mod 256) +
   256 * (n div 256 mod 256) + n mod 256 = n mod (4294967296::nat)"
proof -
  have "n mod (65536 * 65536) = 65536 * (n div 65536 mod 65536) + n mod 65536"
    by (rule mod_mult2_eq)
  moreover have "n div 65536 mod 65536 = 256 * (n div 65536 div 256 mod 256) + n div 65536 mod 256"
    using u16_split [of "n div 65536"] by simp
  ultimately show ?thesis
    using u16_split [of n] by (simp add: div_mult2_eq [symmetric])
qed

lemma read_u16_at [simp]:
  "read_u16 (pre @ net_u16 n @ suf) (length pre) = Inr (n mod 65536)"
  using u16_split [of n] by (simp add: read_u16_def net_u16_def nth_append)

lemma read_u32_at [simp]:
  "read_u32 (pre @ net_u32 n @ suf) (length pre) = Inr (n mod 4294967296)"
  using u32_split [of n] by (simp add: read_u32_def net_u32_def nth_append)

lemma unat_mod_u16 [simp]: "unat (w :: u16) mod 65536 = unat w"
  using unsigned_less [of w, where 'a = nat] by simp

lemma unat_mod_u8 [simp]: "unat (w :: u8) mod 65536 = unat w"
  using unsigned_less [of w, where 'a = nat] by simp

lemma of_char_less [simp]: "(of_char c :: nat) < 256"
  by (metis of_char_mod_256 mod_less_divisor zero_less_numeral)

lemma read_u16_bound:
  assumes "read_u16 buf off = Inr n"
  shows "n < 65536 \<and> off + 2 \<le> length buf"
  using assms of_char_less [of "buf ! off"] of_char_less [of "buf ! (off + 1)"]
  by (auto simp: read_u16_def simp del: of_char_less split: if_splits)

section \<open>Length-prefixed fields\<close>

text \<open>
  \<open>decodeNetworkBuffer\<close>: the length (two bytes, or four when \<open>largeBuffer\<close>), then as many bytes.
  \<open>bufferLen\<close> is a 32-bit \<open>unsigned int\<close>, so a longer buffer's size is truncated on the way in. A
  zero length returns before \<open>_result\<close> is assigned: the caller's old value, an argument here, stays.
  Offsets are \<open>nat\<close>: they are bounded by a buffer size, far below the 64 bits they have in the code.
\<close>

definition decodeNetworkBuffer :: "bytes \<Rightarrow> bytes \<Rightarrow> nat \<Rightarrow> bool \<Rightarrow> (bytes \<times> nat) res" where
  "decodeNetworkBuffer result buf off largeBuffer =
     (let bufferLen = length buf mod 2 ^ 32;
          width = (if largeBuffer then 4 else 2)
      in if off + width > bufferLen then Inl OutOfRange
         else rbind (if largeBuffer then read_u32 buf off else read_u16 buf off)
           (\<lambda>dataLen. let cur = off + width in
              if dataLen = 0 then Inr (result, cur)
              else if cur + dataLen > bufferLen then Inl OutOfRange
              else Inr (take dataLen (drop cur buf), cur + dataLen)))"

text \<open>What the encoders append for a field: the truncated length, then the bytes.\<close>

definition encode_short :: "bytes \<Rightarrow> bytes" where
  "encode_short x = net_u16 (length x) @ x"

definition encode_long :: "bytes \<Rightarrow> bytes" where
  "encode_long x = net_u32 (length x) @ x"

lemma length_encode [simp]:
  "length (encode_short x) = 2 + length x"
  "length (encode_long x) = 4 + length x"
  by (simp_all add: encode_short_def encode_long_def)

lemma decodeNetworkBuffer_no_oob: "decodeNetworkBuffer r buf off large \<noteq> Inl OutOfBoundsRead"
proof -
  have le: "length buf mod 2 ^ 32 \<le> length buf" by (rule mod_less_eq_dividend)
  then show ?thesis
    by (auto simp: decodeNetworkBuffer_def Let_def read_u16_def read_u32_def rbind_eq_Inl
        split: if_splits)
qed

lemma decodeNetworkBuffer_bounds:
  "decodeNetworkBuffer r buf off large = Inr (x, off') \<Longrightarrow> off + 2 \<le> off' \<and> off' \<le> length buf"
proof -
  assume a: "decodeNetworkBuffer r buf off large = Inr (x, off')"
  have "length buf mod 2 ^ 32 \<le> length buf" by (rule mod_less_eq_dividend)
  with a show ?thesis
    by (auto simp: decodeNetworkBuffer_def Let_def split: if_splits)
qed

lemma decode_short_at:
  assumes "length x < 2 ^ 16" and "length pre + 2 + length x + length suf < 2 ^ 32"
  shows "decodeNetworkBuffer r (pre @ encode_short x @ suf) (length pre) False =
           Inr (if x = [] then r else x, length pre + length (encode_short x))"
  using assms by (simp add: decodeNetworkBuffer_def encode_short_def Let_def)

lemma decode_long_at:
  assumes "length pre + 4 + length x + length suf < 2 ^ 32"
  shows "decodeNetworkBuffer r (pre @ encode_long x @ suf) (length pre) True =
           Inr (if x = [] then r else x, length pre + length (encode_long x))"
  using assms by (simp add: decodeNetworkBuffer_def encode_long_def Let_def)

section \<open>The field interface\<close>

text \<open>
  A field format as the message formats use it: writing a value and reading it back from the offset
  where it starts, whatever bytes stand before and after it, gives the value (into a fresh target)
  and the offset behind it. Sequences of fields follow once and for all.
\<close>

locale field_codec =
  fixes enc :: "'a \<Rightarrow> bytes"
    and dec :: "bytes \<Rightarrow> nat \<Rightarrow> ('a \<times> nat) res"
    and fits :: "'a \<Rightarrow> bool"
  assumes dec_enc:
    "fits x \<Longrightarrow> length pre + length (enc x) + length suf < 2 ^ 32 \<Longrightarrow>
     dec (pre @ enc x @ suf) (length pre) = Inr (x, length pre + length (enc x))"
begin

lemma dec_enc_offset:
  assumes "fits x" and "buf = pre @ enc x @ suf" and "off = length pre" and "length buf < 2 ^ 32"
  shows "dec buf off = Inr (x, off + length (enc x))"
  using assms dec_enc [of x pre suf] by simp

lemma dec_enc_two:
  assumes "fits x" "fits y" and "buf = pre @ enc x @ enc y @ suf" and "length buf < 2 ^ 32"
  shows "rbind (dec buf (length pre)) (\<lambda>(a, o1). rbind (dec buf o1) (\<lambda>(b, o2). Inr (a, b, o2))) =
           Inr (x, y, length pre + length (enc x) + length (enc y))"
proof -
  have "dec buf (length pre) = Inr (x, length pre + length (enc x))"
    using assms by (intro dec_enc_offset [where suf = "enc y @ suf"]) auto
  moreover have "dec buf (length pre + length (enc x)) =
      Inr (y, length pre + length (enc x) + length (enc y))"
    using assms by (intro dec_enc_offset [where pre = "pre @ enc x" and suf = suf]) auto
  ultimately show ?thesis by simp
qed

end

interpretation short_field: field_codec encode_short
  "\<lambda>buf off. decodeNetworkBuffer [] buf off False" "\<lambda>x. length x < 2 ^ 16"
  by unfold_locales (use decode_short_at [where r = "[]"] in force)

interpretation long_field: field_codec encode_long
  "\<lambda>buf off. decodeNetworkBuffer [] buf off True" "\<lambda>x. True"
  by unfold_locales (use decode_long_at [where r = "[]"] in force)

end
