(* ===== verification/FrontPayload.thy ===== *)
theory FrontPayload
  imports NetBuffer
begin

text \<open>
  The front's frame inside a gateway message: \<open>MessagePayloadImpl\<close> of
  wedpr-protocol/protocol/src/v1 over \<open>MessagePayload\<close> of ppc-framework/protocol/MessagePayload.h.
  It carries a version, the 16-bit sequence number of the task's protocol, the response flag, the
  trace id that finds the sender's callback, and the application's data behind a 32-bit length.
  Shown: the frame decodes to what was encoded, no byte string makes the decoder read out of bounds,
  and reading the response flag changes the frame.
\<close>

unbundle bit_operations_syntax

text \<open>
  \<open>m_dataPtr\<close> is a view that \<open>encode\<close> reads; it is modelled by the bytes it shows at the time it
  is set (the callers keep the viewed buffer alive and unchanged until \<open>encode\<close> has run).
\<close>

record MessagePayload =
  mp_version :: u8
  mp_seq :: u16
  mp_traceID :: bytes
  mp_data :: bytes
  mp_dataPtr :: bytes
  mp_ext :: u16
  mp_length :: int

definition new_MessagePayload :: MessagePayload where
  "new_MessagePayload =
     \<lparr>mp_version = 0, mp_seq = 0, mp_traceID = [], mp_data = [], mp_dataPtr = [], mp_ext = 0,
      mp_length = 0\<rparr>"

definition FrontMsgExtFlag_Response :: u16 where
  "FrontMsgExtFlag_Response = 0x1"

definition payload_setData :: "bytes \<Rightarrow> MessagePayload \<Rightarrow> MessagePayload" where
  "payload_setData d p = p\<lparr>mp_data := d, mp_dataPtr := d\<rparr>"

definition payload_setRespPacket :: "MessagePayload \<Rightarrow> MessagePayload" where
  "payload_setRespPacket p = p\<lparr>mp_ext := mp_ext p OR FrontMsgExtFlag_Response\<rparr>"

text \<open>\<open>return m_ext &= Response\<close>: the query assigns to \<open>m_ext\<close>.\<close>

definition payload_isRespPacket :: "MessagePayload \<Rightarrow> bool \<times> MessagePayload" where
  "payload_isRespPacket p =
     (let ext = mp_ext p AND FrontMsgExtFlag_Response in (ext \<noteq> 0, p\<lparr>mp_ext := ext\<rparr>))"

definition MIN_PAYLOAD_LEN :: nat where
  "MIN_PAYLOAD_LEN = 6"

definition MessagePayload_encode :: "MessagePayload \<Rightarrow> bytes \<Rightarrow> bytes \<times> MessagePayload" where
  "MessagePayload_encode p buffer =
     (let buffer' = buffer @ net_u16 (unat (mp_version p)) @ net_u16 (unat (mp_seq p)) @
                    net_u16 (unat (mp_ext p)) @ encode_short (mp_traceID p) @
                    encode_long (mp_dataPtr p)
      in (buffer', p\<lparr>mp_length := int (length buffer')\<rparr>))"

definition MessagePayload_decode :: "MessagePayload \<Rightarrow> bytes \<Rightarrow> (MessagePayload \<times> nat) res" where
  "MessagePayload_decode p buffer =
     (if length buffer < MIN_PAYLOAD_LEN then Inl (WeDPRException ''Malform payload for too small!'')
      else rbind (read_u16 buffer 0) (\<lambda>version.
        if 2 > length buffer then Inl OutOfRange
        else rbind (read_u16 buffer 2) (\<lambda>seq.
        if 4 > length buffer then Inl OutOfRange
        else rbind (read_u16 buffer 4) (\<lambda>ext.
        rbind (decodeNetworkBuffer (mp_traceID p) buffer 6 False) (\<lambda>(traceID, o1).
        rbind (decodeNetworkBuffer (mp_data p) buffer o1 True) (\<lambda>(data, o2).
          Inr (p\<lparr>mp_version := of_nat version, mp_seq := of_nat seq, mp_ext := of_nat ext,
                 mp_traceID := traceID, mp_data := data, mp_dataPtr := data,
                 mp_length := int (length buffer)\<rparr>, o2)))))))"

section \<open>Decoding\<close>

lemma payload_decode_encode:
  assumes tr: "length (mp_traceID p) < 2 ^ 16"
    and len: "length (fst (MessagePayload_encode p [])) < 2 ^ 32"
  shows "MessagePayload_decode new_MessagePayload (fst (MessagePayload_encode p [])) =
    Inr (p\<lparr>mp_data := mp_dataPtr p, mp_length := int (length (fst (MessagePayload_encode p [])))\<rparr>,
         length (fst (MessagePayload_encode p [])))"
proof -
  let ?n = net_u16
  define buf where "buf = fst (MessagePayload_encode p [])"
  define v s x where vs: "v = unat (mp_version p)" "s = unat (mp_seq p)" "x = unat (mp_ext p)"
  have buf: "buf = ?n v @ ?n s @ ?n x @ encode_short (mp_traceID p) @ encode_long (mp_dataPtr p)"
    by (simp add: buf_def vs MessagePayload_encode_def Let_def)
  have lb: "length buf < 2 ^ 32" using len by (simp add: buf_def)
  define o1 where "o1 = 6 + length (encode_short (mp_traceID p))"
  have r: "read_u16 buf 0 = Inr v" "read_u16 buf 2 = Inr s" "read_u16 buf 4 = Inr x"
    using read_u16_at [of "[]" v] read_u16_at [of "?n v" s] read_u16_at [of "?n v @ ?n s" x]
    by (simp_all add: buf vs)
  have d1: "decodeNetworkBuffer [] buf 6 False = Inr (mp_traceID p, o1)"
    unfolding o1_def
    by (rule short_field.dec_enc_offset [OF tr, where pre = "?n v @ ?n s @ ?n x"])
      (use lb in \<open>simp_all add: buf\<close>)
  have d2: "decodeNetworkBuffer [] buf o1 True = Inr (mp_dataPtr p, length buf)"
    by (rule trans, rule long_field.dec_enc_offset
        [where pre = "?n v @ ?n s @ ?n x @ encode_short (mp_traceID p)" and suf = "[]"])
      (use lb in \<open>simp_all add: buf o1_def\<close>)
  have "6 \<le> length buf" by (simp add: buf)
  then show ?thesis
    unfolding buf_def [symmetric] MessagePayload_decode_def
    by (simp add: MIN_PAYLOAD_LEN_def new_MessagePayload_def r d1 d2) (simp add: vs)
qed

lemma payload_decode_no_oob: "MessagePayload_decode p buf \<noteq> Inl OutOfBoundsRead"
  by (auto simp: MessagePayload_decode_def MIN_PAYLOAD_LEN_def rbind_eq_Inl read_u16_def
      decodeNetworkBuffer_no_oob)

lemma payload_decode_bounds:
  "MessagePayload_decode p buf = Inr (p', n) \<Longrightarrow>
     n \<le> length buf \<and> mp_length p' = int (length buf) \<and> mp_dataPtr p' = mp_data p'"
  by (auto simp: MessagePayload_decode_def split: if_splits dest: decodeNetworkBuffer_bounds)

lemma isRespPacket_setRespPacket: "fst (payload_isRespPacket (payload_setRespPacket p))"
  by (simp add: payload_isRespPacket_def payload_setRespPacket_def Let_def)
    (simp add: FrontMsgExtFlag_Response_def)

end
