(* ===== verification/MessageCodec.thy ===== *)
theory MessageCodec
  imports FrontPayload
begin

text \<open>
  The gateway's message format: the routing header (\<open>MessageHeaderImpl\<close>, \<open>MessageOptionalHeaderImpl\<close>
  of wedpr-protocol/protocol/src/v1 over the classes of ppc-framework/protocol/Message.h) and the
  message around it (\<open>MessageImpl\<close>). Decoding a header with optional fields is proved to give back
  what was encoded, malformed input is proved to be rejected, and the places where a 16-bit length or
  a missing check changes the result are stated as they are.
\<close>

unbundle bit_operations_syntax

section \<open>Packet types, flags and route types\<close>

text \<open>ppc-framework/gateway/GatewayProtocol.h\<close>

datatype GatewayPacketType =
    P2PMessage | BroadcastMessage
  | RouterTableSyncSeq | RouterTableResponse | RouterTableRequest
  | SyncNodeSeq | RequestNodeStatus | ResponseNodeStatus

fun packetCode :: "GatewayPacketType \<Rightarrow> u16" where
  "packetCode P2PMessage = 0x00"
| "packetCode BroadcastMessage = 0x01"
| "packetCode RouterTableSyncSeq = 0x10"
| "packetCode RouterTableResponse = 0x11"
| "packetCode RouterTableRequest = 0x12"
| "packetCode SyncNodeSeq = 0x20"
| "packetCode RequestNodeStatus = 0x21"
| "packetCode ResponseNodeStatus = 0x22"

datatype GatewayMsgExtFlag = Response | RouteByNodeID | RouteByAgency | RouteByComponent | RouteByTopic

fun extFlag :: "GatewayMsgExtFlag \<Rightarrow> u16" where
  "extFlag Response = 0x1"
| "extFlag RouteByNodeID = 0x2"
| "extFlag RouteByAgency = 0x4"
| "extFlag RouteByComponent = 0x8"
| "extFlag RouteByTopic = 0x10"

text \<open>
  \<open>enum class RouteType : uint8_t\<close>. A cast from an integer can produce a value outside the four
  enumerators, which the sources answer with an exception: the last constructor.
\<close>

datatype RouteType =
    ROUTE_THROUGH_NODEID | ROUTE_THROUGH_COMPONENT | ROUTE_THROUGH_AGENCY | ROUTE_THROUGH_TOPIC
  | ROUTE_UNKNOWN u8

definition RouteType_cast :: "u16 \<Rightarrow> RouteType" where
  "RouteType_cast c =
     (let b = (ucast c :: u8) in
      if b = 0 then ROUTE_THROUGH_NODEID
      else if b = 1 then ROUTE_THROUGH_COMPONENT
      else if b = 2 then ROUTE_THROUGH_AGENCY
      else if b = 3 then ROUTE_THROUGH_TOPIC
      else ROUTE_UNKNOWN b)"

section \<open>The optional header\<close>

record MessageOptionalHeader =
  oh_topic :: bytes
  oh_componentType :: bytes
  oh_srcNode :: bytes
  oh_srcInst :: bytes
  oh_dstNode :: bytes
  oh_dstInst :: bytes

definition new_MessageOptionalHeader :: MessageOptionalHeader where
  "new_MessageOptionalHeader =
     \<lparr>oh_topic = [], oh_componentType = [], oh_srcNode = [], oh_srcInst = [], oh_dstNode = [],
      oh_dstInst = []\<rparr>"

text \<open>The copying constructor: the source agency is the one field it does not copy.\<close>

definition MessageOptionalHeader_copy :: "MessageOptionalHeader option \<Rightarrow> MessageOptionalHeader" where
  "MessageOptionalHeader_copy o' =
     (case o' of None \<Rightarrow> new_MessageOptionalHeader
      | Some oh \<Rightarrow> new_MessageOptionalHeader
          \<lparr>oh_topic := oh_topic oh, oh_componentType := oh_componentType oh,
           oh_srcNode := oh_srcNode oh, oh_dstNode := oh_dstNode oh, oh_dstInst := oh_dstInst oh\<rparr>)"

definition MessageOptionalHeader_encode :: "MessageOptionalHeader \<Rightarrow> bytes \<Rightarrow> bytes" where
  "MessageOptionalHeader_encode oh buffer =
     buffer @ encode_short (oh_componentType oh) @ encode_short (oh_srcNode oh) @
     encode_short (oh_srcInst oh) @ encode_short (oh_dstNode oh) @
     encode_short (oh_dstInst oh) @ encode_short (oh_topic oh)"

text \<open>
  The first two bytes are read through a cast pointer before any check beyond \<open>offset \<le> size\<close>; the
  value is overwritten at once, so only the read itself remains of that statement.
\<close>

definition MessageOptionalHeader_decode ::
  "MessageOptionalHeader \<Rightarrow> bytes \<Rightarrow> nat \<Rightarrow> (MessageOptionalHeader \<times> nat) res" where
  "MessageOptionalHeader_decode oh data off =
     (if off > length data then Inl OutOfRange
      else rbind (read_u16 data off) (\<lambda>_.
        rbind (decodeNetworkBuffer [] data off False) (\<lambda>(componentType, o1).
        rbind (decodeNetworkBuffer (oh_srcNode oh) data o1 False) (\<lambda>(srcNode, o2).
        rbind (decodeNetworkBuffer (oh_srcInst oh) data o2 False) (\<lambda>(srcInst, o3).
        rbind (decodeNetworkBuffer (oh_dstNode oh) data o3 False) (\<lambda>(dstNode, o4).
        rbind (decodeNetworkBuffer (oh_dstInst oh) data o4 False) (\<lambda>(dstInst, o5).
        rbind (decodeNetworkBuffer (oh_topic oh) data o5 False) (\<lambda>(topic, o6).
          Inr (\<lparr>oh_topic = topic, oh_componentType = componentType, oh_srcNode = srcNode,
                oh_srcInst = srcInst, oh_dstNode = dstNode, oh_dstInst = dstInst\<rparr>, o6)))))))))"

definition optional_fits :: "MessageOptionalHeader \<Rightarrow> bool" where
  "optional_fits oh \<longleftrightarrow>
     length (oh_topic oh) < 2 ^ 16 \<and> length (oh_componentType oh) < 2 ^ 16 \<and>
     length (oh_srcNode oh) < 2 ^ 16 \<and> length (oh_srcInst oh) < 2 ^ 16 \<and>
     length (oh_dstNode oh) < 2 ^ 16 \<and> length (oh_dstInst oh) < 2 ^ 16"

section \<open>The header\<close>

record MessageHeader =
  mh_version :: u8
  mh_traceID :: bytes
  mh_srcGwNode :: bytes
  mh_dstGwNode :: bytes
  mh_packetType :: u16
  mh_ttl :: u16
  mh_ext :: u16
  mh_optionalField :: MessageOptionalHeader
  mh_length :: u16

definition new_MessageHeader :: MessageHeader where
  "new_MessageHeader =
     \<lparr>mh_version = 0, mh_traceID = [], mh_srcGwNode = [], mh_dstGwNode = [], mh_packetType = 0,
      mh_ttl = 0, mh_ext = 0, mh_optionalField = new_MessageOptionalHeader, mh_length = 0\<rparr>"

definition hasOptionalField :: "MessageHeader \<Rightarrow> bool" where
  "hasOptionalField h \<longleftrightarrow> mh_packetType h = packetCode P2PMessage"

definition header_isRespPacket :: "MessageHeader \<Rightarrow> bool" where
  "header_isRespPacket h \<longleftrightarrow> mh_ext h AND extFlag Response \<noteq> 0"

definition header_setRespPacket :: "MessageHeader \<Rightarrow> MessageHeader" where
  "header_setRespPacket h = h\<lparr>mh_ext := mh_ext h OR extFlag Response\<rparr>"

text \<open>\<open>int16_t ttl()\<close>: the stored value read as signed.\<close>

definition header_ttl :: "MessageHeader \<Rightarrow> int" where
  "header_ttl h = sint (mh_ttl h)"

definition MESSAGE_MIN_LENGTH :: nat where
  "MESSAGE_MIN_LENGTH = 14"

definition MessageHeader_encode :: "MessageHeader \<Rightarrow> bytes \<times> MessageHeader" where
  "MessageHeader_encode h =
     (let buffer = net_u16 (unat (mh_version h)) @ net_u16 (unat (mh_packetType h)) @
                   net_u16 (unat (mh_ttl h)) @ net_u16 (unat (mh_ext h)) @
                   encode_short (mh_traceID h) @ encode_short (mh_srcGwNode h) @
                   encode_short (mh_dstGwNode h);
          buffer' = (if \<not> hasOptionalField h then buffer
                     else MessageOptionalHeader_encode (mh_optionalField h) buffer)
      in (buffer', h\<lparr>mh_length := of_nat (length buffer')\<rparr>))"

definition MessageHeader_decode :: "MessageHeader \<Rightarrow> bytes \<Rightarrow> (MessageHeader \<times> nat) res" where
  "MessageHeader_decode h data =
     (if length data < MESSAGE_MIN_LENGTH then Inl (WeDPRException ''Malform message for too small!'')
      else rbind (read_u16 data 0) (\<lambda>version.
        rbind (read_u16 data 2) (\<lambda>packetType.
        rbind (read_u16 data 4) (\<lambda>ttl.
        rbind (read_u16 data 6) (\<lambda>ext.
        rbind (decodeNetworkBuffer (mh_traceID h) data 8 False) (\<lambda>(traceID, o1).
        rbind (decodeNetworkBuffer (mh_srcGwNode h) data o1 False) (\<lambda>(srcGwNode, o2).
        rbind (decodeNetworkBuffer (mh_dstGwNode h) data o2 False) (\<lambda>(dstGwNode, o3).
        (let h' = h\<lparr>mh_version := of_nat version, mh_packetType := of_nat packetType,
                    mh_ttl := of_nat ttl, mh_ext := of_nat ext, mh_traceID := traceID,
                    mh_srcGwNode := srcGwNode, mh_dstGwNode := dstGwNode\<rparr>
         in rbind (if hasOptionalField h'
                   then MessageOptionalHeader_decode (mh_optionalField h') data o3
                   else Inr (mh_optionalField h', o3))
              (\<lambda>(oh, o4). Inr (h'\<lparr>mh_optionalField := oh, mh_length := of_nat o4\<rparr>, o4)))))))))))"

definition header_fits :: "MessageHeader \<Rightarrow> bool" where
  "header_fits h \<longleftrightarrow>
     length (mh_traceID h) < 2 ^ 16 \<and> length (mh_srcGwNode h) < 2 ^ 16 \<and>
     length (mh_dstGwNode h) < 2 ^ 16 \<and>
     (hasOptionalField h \<longrightarrow> optional_fits (mh_optionalField h))"

definition routeType :: "MessageHeader \<Rightarrow> RouteType" where
  "routeType h =
     (if mh_ext h AND extFlag RouteByNodeID \<noteq> 0 then ROUTE_THROUGH_NODEID
      else if mh_ext h AND extFlag RouteByComponent \<noteq> 0 then ROUTE_THROUGH_COMPONENT
      else if mh_ext h AND extFlag RouteByAgency \<noteq> 0 then ROUTE_THROUGH_AGENCY
      else if mh_ext h AND extFlag RouteByTopic \<noteq> 0 then ROUTE_THROUGH_TOPIC
      else ROUTE_THROUGH_NODEID)"

fun setRouteType :: "RouteType \<Rightarrow> MessageHeader \<Rightarrow> MessageHeader res" where
  "setRouteType ROUTE_THROUGH_NODEID h = Inr (h\<lparr>mh_ext := mh_ext h OR extFlag RouteByNodeID\<rparr>)"
| "setRouteType ROUTE_THROUGH_COMPONENT h = Inr (h\<lparr>mh_ext := mh_ext h OR extFlag RouteByComponent\<rparr>)"
| "setRouteType ROUTE_THROUGH_AGENCY h = Inr (h\<lparr>mh_ext := mh_ext h OR extFlag RouteByAgency\<rparr>)"
| "setRouteType ROUTE_THROUGH_TOPIC h = Inr (h\<lparr>mh_ext := mh_ext h OR extFlag RouteByTopic\<rparr>)"
| "setRouteType (ROUTE_UNKNOWN _) h = Inl (WeDPRException ''Invalid route type'')"

section \<open>Decoding gives back what was encoded\<close>

lemma optional_encode_append:
  "MessageOptionalHeader_encode oh pre = pre @ MessageOptionalHeader_encode oh []"
  by (simp add: MessageOptionalHeader_encode_def)

lemma optional_decode_at:
  assumes fits: "optional_fits oh"
    and len: "length pre + length (MessageOptionalHeader_encode oh []) + length suf < 2 ^ 32"
  shows "MessageOptionalHeader_decode new_MessageOptionalHeader
           (pre @ MessageOptionalHeader_encode oh [] @ suf) (length pre) =
         Inr (oh, length pre + length (MessageOptionalHeader_encode oh []))"
proof -
  let ?e = encode_short
  define f1 f2 f3 f4 f5 f6 where fs: "f1 = oh_componentType oh" "f2 = oh_srcNode oh"
    "f3 = oh_srcInst oh" "f4 = oh_dstNode oh" "f5 = oh_dstInst oh" "f6 = oh_topic oh"
  define buf where "buf = pre @ MessageOptionalHeader_encode oh [] @ suf"
  have buf: "buf = pre @ ?e f1 @ ?e f2 @ ?e f3 @ ?e f4 @ ?e f5 @ ?e f6 @ suf"
    by (simp add: buf_def fs MessageOptionalHeader_encode_def)
  have lb: "length buf < 2 ^ 32" using len by (simp add: buf_def)
  have ok: "length f1 < 2 ^ 16" "length f2 < 2 ^ 16" "length f3 < 2 ^ 16" "length f4 < 2 ^ 16"
    "length f5 < 2 ^ 16" "length f6 < 2 ^ 16"
    using fits by (simp_all add: optional_fits_def fs)
  note D = short_field.dec_enc_offset [OF _ _ _ lb]
  define o1 o2 o3 o4 o5 where os: "o1 = length pre + length (?e f1)" "o2 = o1 + length (?e f2)"
    "o3 = o2 + length (?e f3)" "o4 = o3 + length (?e f4)" "o5 = o4 + length (?e f5)"
  have r: "read_u16 buf (length pre) = Inr (length f1 mod 65536)"
    using read_u16_at [of pre "length f1"] by (simp add: buf encode_short_def)
  have d1: "decodeNetworkBuffer [] buf (length pre) False = Inr (f1, o1)"
    unfolding os by (rule D [OF ok(1)]) (simp_all add: buf)
  have d2: "decodeNetworkBuffer [] buf o1 False = Inr (f2, o2)"
    unfolding os by (rule D [OF ok(2), where pre = "pre @ ?e f1"]) (simp_all add: buf)
  have d3: "decodeNetworkBuffer [] buf o2 False = Inr (f3, o3)"
    unfolding os by (rule D [OF ok(3), where pre = "pre @ ?e f1 @ ?e f2"]) (simp_all add: buf)
  have d4: "decodeNetworkBuffer [] buf o3 False = Inr (f4, o4)"
    unfolding os by (rule D [OF ok(4), where pre = "pre @ ?e f1 @ ?e f2 @ ?e f3"]) (simp_all add: buf)
  have d5: "decodeNetworkBuffer [] buf o4 False = Inr (f5, o5)"
    unfolding os
    by (rule D [OF ok(5), where pre = "pre @ ?e f1 @ ?e f2 @ ?e f3 @ ?e f4"]) (simp_all add: buf)
  have d6: "decodeNetworkBuffer [] buf o5 False = Inr (f6, o5 + length (?e f6))"
    unfolding os
    by (rule D [OF ok(6), where pre = "pre @ ?e f1 @ ?e f2 @ ?e f3 @ ?e f4 @ ?e f5"])
      (simp_all add: buf)
  have "length pre \<le> length buf" by (simp add: buf)
  then show ?thesis
    unfolding buf_def [symmetric] MessageOptionalHeader_decode_def new_MessageOptionalHeader_def
    by (simp add: r d1 d2 d3 d4 d5 d6)
      (simp add: os fs MessageOptionalHeader_encode_def)
qed

interpretation optional_field: field_codec "\<lambda>oh. MessageOptionalHeader_encode oh []"
  "MessageOptionalHeader_decode new_MessageOptionalHeader" optional_fits
  by unfold_locales (rule optional_decode_at)

text \<open>The fixed part of the header: four 16-bit numbers and three fields.\<close>

lemma header_encode_parts:
  "fst (MessageHeader_encode h) =
     net_u16 (unat (mh_version h)) @ net_u16 (unat (mh_packetType h)) @ net_u16 (unat (mh_ttl h)) @
     net_u16 (unat (mh_ext h)) @ encode_short (mh_traceID h) @ encode_short (mh_srcGwNode h) @
     encode_short (mh_dstGwNode h) @
     (if hasOptionalField h then MessageOptionalHeader_encode (mh_optionalField h) [] else [])"
  by (simp add: MessageHeader_encode_def Let_def optional_encode_append
      [of "mh_optionalField h" "net_u16 (unat (mh_version h)) @ x" for x])

lemma header_encode_length:
  "MESSAGE_MIN_LENGTH \<le> length (fst (MessageHeader_encode h))"
  by (simp add: header_encode_parts MESSAGE_MIN_LENGTH_def)

lemma header_decode_encode:
  assumes fits: "header_fits h"
    and len: "length (fst (MessageHeader_encode h)) + length rest < 2 ^ 32"
  defines "n \<equiv> length (fst (MessageHeader_encode h))"
  shows "MessageHeader_decode new_MessageHeader (fst (MessageHeader_encode h) @ rest) =
    Inr (h\<lparr>mh_length := of_nat n,
           mh_optionalField := (if hasOptionalField h then mh_optionalField h
                                else new_MessageOptionalHeader)\<rparr>, n)"
proof -
  let ?e = encode_short and ?n = net_u16
  define buf where "buf = fst (MessageHeader_encode h) @ rest"
  define v p t x where vs: "v = unat (mh_version h)" "p = unat (mh_packetType h)"
    "t = unat (mh_ttl h)" "x = unat (mh_ext h)"
  define f1 f2 f3 where fs: "f1 = mh_traceID h" "f2 = mh_srcGwNode h" "f3 = mh_dstGwNode h"
  define opt where
    "opt = (if hasOptionalField h then MessageOptionalHeader_encode (mh_optionalField h) [] else [])"
  have buf: "buf = ?n v @ ?n p @ ?n t @ ?n x @ ?e f1 @ ?e f2 @ ?e f3 @ opt @ rest"
    by (simp add: buf_def vs fs opt_def header_encode_parts)
  have lb: "length buf < 2 ^ 32" using len by (simp add: buf_def)
  have ok: "length f1 < 2 ^ 16" "length f2 < 2 ^ 16" "length f3 < 2 ^ 16"
    using fits by (simp_all add: header_fits_def fs)
  note D = short_field.dec_enc_offset [OF _ _ _ lb]
  define o1 o2 o3 where os: "o1 = 8 + length (?e f1)" "o2 = o1 + length (?e f2)"
    "o3 = o2 + length (?e f3)"
  have small: "\<not> length buf < MESSAGE_MIN_LENGTH"
    using header_encode_length [of h] by (simp add: buf_def)
  have r: "read_u16 buf 0 = Inr v" "read_u16 buf 2 = Inr p" "read_u16 buf 4 = Inr t"
    "read_u16 buf 6 = Inr x"
    using read_u16_at [of "[]" v] read_u16_at [of "?n v" p] read_u16_at [of "?n v @ ?n p" t]
      read_u16_at [of "?n v @ ?n p @ ?n t" x]
    by (simp_all add: buf vs)
  have d1: "decodeNetworkBuffer [] buf 8 False = Inr (f1, o1)"
    unfolding os by (rule D [OF ok(1), where pre = "?n v @ ?n p @ ?n t @ ?n x"]) (simp_all add: buf)
  have d2: "decodeNetworkBuffer [] buf o1 False = Inr (f2, o2)"
    unfolding os
    by (rule D [OF ok(2), where pre = "?n v @ ?n p @ ?n t @ ?n x @ ?e f1"]) (simp_all add: buf)
  have d3: "decodeNetworkBuffer [] buf o2 False = Inr (f3, o3)"
    unfolding os
    by (rule D [OF ok(3), where pre = "?n v @ ?n p @ ?n t @ ?n x @ ?e f1 @ ?e f2"])
      (simp_all add: buf)
  have n: "n = o3 + length opt"
    by (simp add: n_def header_encode_parts os fs opt_def)
  have opt: "hasOptionalField h \<Longrightarrow>
      MessageOptionalHeader_decode new_MessageOptionalHeader buf o3 = Inr (mh_optionalField h, n)"
    unfolding n os opt_def
    by (rule trans, rule optional_field.dec_enc_offset
        [where pre = "?n v @ ?n p @ ?n t @ ?n x @ ?e f1 @ ?e f2 @ ?e f3", OF _ _ _ lb])
      (use fits in \<open>auto simp: buf opt_def header_fits_def\<close>)
  have hv: "hasOptionalField (k\<lparr>mh_packetType := mh_packetType h, mh_ttl := t', mh_ext := x',
      mh_traceID := a, mh_srcGwNode := b, mh_dstGwNode := c\<rparr>) = hasOptionalField h" for k t' x' a b c
    by (simp add: hasOptionalField_def)
  show ?thesis
    unfolding buf_def [symmetric] MessageHeader_decode_def
    using small opt n
    by (cases "hasOptionalField h")
      (simp_all add: new_MessageHeader_def r d1 d2 d3 Let_def vs fs hv hasOptionalField_def opt_def)
qed

section \<open>The message\<close>

text \<open>
  \<open>m_payload\<close> is a shared pointer that starts at an empty buffer; \<open>m_payloadLen\<close> is written by
  \<open>setPayload\<close> only.
\<close>

record Message =
  msg_header :: MessageHeader
  msg_payload :: "bytes option"
  msg_payloadLen :: u64
  msg_frontMessage :: "MessagePayload option"

definition new_Message :: Message where
  "new_Message =
     \<lparr>msg_header = new_MessageHeader, msg_payload = Some [], msg_payloadLen = 0,
      msg_frontMessage = None\<rparr>"

definition message_setPayload :: "bytes option \<Rightarrow> Message \<Rightarrow> Message" where
  "message_setPayload pl m =
     (let m' = m\<lparr>msg_payload := pl\<rparr>
      in case pl of None \<Rightarrow> m' | Some b \<Rightarrow> m'\<lparr>msg_payloadLen := of_nat (length b)\<rparr>)"

definition message_setFrontMessage :: "MessagePayload option \<Rightarrow> bool \<Rightarrow> Message \<Rightarrow> Message" where
  "message_setFrontMessage f releasePayload m =
     (let m' = m\<lparr>msg_frontMessage := f\<rparr>
      in if \<not> releasePayload then m'
         else m'\<lparr>msg_payload := map_option (\<lambda>_. []) (msg_payload m')\<rparr>)"

text \<open>\<open>uint32_t length()\<close>: the header's length and the recorded payload length.\<close>

definition message_length :: "Message \<Rightarrow> u32" where
  "message_length m = ucast (ucast (mh_length (msg_header m)) + msg_payloadLen m :: u64)"

definition Message_encode :: "Message \<Rightarrow> bytes \<times> Message" where
  "Message_encode m =
     (let (buffer, h) = MessageHeader_encode (msg_header m)
      in (buffer @ (case msg_payload m of None \<Rightarrow> [] | Some b \<Rightarrow> b), m\<lparr>msg_header := h\<rparr>))"

definition Message_decode :: "nat \<Rightarrow> Message \<Rightarrow> bytes \<Rightarrow> (Message \<times> nat) res" where
  "Message_decode maxMessageLen m buffer =
     (if length buffer > maxMessageLen
      then Inl (WeDPRException ''Malform message for over the size limit'')
      else rbind (MessageHeader_decode new_MessageHeader buffer) (\<lambda>(h, _).
        let m' = m\<lparr>msg_header := h\<rparr> in
        if length buffer \<le> unat (mh_length h) then Inr (m', length buffer)
        else Inr (m'\<lparr>msg_payload := Some (drop (unat (mh_length h)) buffer)\<rparr>, length buffer)))"

text \<open>\<open>MessageBuilderImpl::build(routeType, routeInfo, payload)\<close>\<close>

definition build_routed :: "RouteType \<Rightarrow> MessageOptionalHeader \<Rightarrow> bytes \<Rightarrow> Message res" where
  "build_routed rt routeInfo payload =
     rbind (setRouteType rt (msg_header new_Message)) (\<lambda>h.
       Inr (message_setPayload (Some payload)
              (new_Message\<lparr>msg_header := h\<lparr>mh_optionalField := routeInfo\<rparr>\<rparr>)))"

definition payload_bytes :: "Message \<Rightarrow> bytes" where
  "payload_bytes m = (case msg_payload m of None \<Rightarrow> [] | Some b \<Rightarrow> b)"

lemma message_encode_bytes:
  "fst (Message_encode m) = fst (MessageHeader_encode (msg_header m)) @ payload_bytes m"
  by (simp add: Message_encode_def payload_bytes_def split_beta)

lemma message_decode_payload:
  assumes fits: "header_fits (msg_header m)"
    and size: "length (fst (Message_encode m)) \<le> maxLen" and small: "maxLen < 2 ^ 32"
  defines "buf \<equiv> fst (Message_encode m)"
    and "n \<equiv> length (fst (MessageHeader_encode (msg_header m)))"
  shows "\<exists>m'. Message_decode maxLen new_Message buf = Inr (m', length buf) \<and>
    msg_header m' = (msg_header m)\<lparr>mh_length := of_nat n,
      mh_optionalField := (if hasOptionalField (msg_header m) then mh_optionalField (msg_header m)
                           else new_MessageOptionalHeader)\<rparr> \<and>
    payload_bytes m' = drop (n mod 2 ^ 16) buf"
proof -
  have len: "n + length (payload_bytes m) < 2 ^ 32"
    using size small by (simp add: message_encode_bytes n_def)
  have dec: "MessageHeader_decode new_MessageHeader buf =
      Inr ((msg_header m)\<lparr>mh_length := of_nat n,
        mh_optionalField := (if hasOptionalField (msg_header m) then mh_optionalField (msg_header m)
                             else new_MessageOptionalHeader)\<rparr>, n)"
    using header_decode_encode [OF fits len [unfolded n_def]]
    by (simp add: buf_def message_encode_bytes n_def)
  have n16: "unat (of_nat n :: u16) = n mod 2 ^ 16" by (simp add: unat_of_nat)
  show ?thesis
    using size dec n16
    by (cases "length buf \<le> n mod 2 ^ 16")
      (simp_all add: Message_decode_def buf_def Let_def payload_bytes_def new_Message_def)
qed

text \<open>
  What arrives of a message: its header with the length filled in and without the optional fields if
  the packet type does not carry them, and its payload. Everything else is as in a new message.
\<close>

definition received_header :: "MessageHeader \<Rightarrow> MessageHeader" where
  "received_header h =
     h\<lparr>mh_length := of_nat (length (fst (MessageHeader_encode h))),
       mh_optionalField := (if hasOptionalField h then mh_optionalField h else new_MessageOptionalHeader)\<rparr>"

definition received :: "Message \<Rightarrow> Message" where
  "received m = new_Message\<lparr>msg_header := received_header (msg_header m), msg_payload := Some (payload_bytes m)\<rparr>"

lemma message_decode_encode:
  assumes fits: "header_fits (msg_header m)"
    and n: "length (fst (MessageHeader_encode (msg_header m))) < 2 ^ 16"
    and size: "length (fst (Message_encode m)) \<le> maxLen" and small: "maxLen < 2 ^ 32"
  shows "Message_decode maxLen new_Message (fst (Message_encode m)) = Inr (received m, length (fst (Message_encode m)))"
proof -
  let ?n = "length (fst (MessageHeader_encode (msg_header m)))" and ?buf = "fst (Message_encode m)"
  have len: "?n + length (payload_bytes m) < 2 ^ 32" using size small by (simp add: message_encode_bytes)
  have dec: "MessageHeader_decode new_MessageHeader ?buf = Inr (received_header (msg_header m), ?n)"
    using header_decode_encode [OF fits len] by (simp add: message_encode_bytes received_header_def)
  have l: "unat (mh_length (received_header (msg_header m))) = ?n"
    using n by (simp add: received_header_def unat_of_nat)
  have d: "drop ?n ?buf = payload_bytes m" by (simp add: message_encode_bytes)
  have e: "length ?buf \<le> ?n \<longleftrightarrow> payload_bytes m = []" by (simp add: message_encode_bytes)
  show ?thesis using size
    by (cases "payload_bytes m = []") (simp_all add: Message_decode_def dec l d e received_def new_Message_def Let_def)
qed

section \<open>Properties of the message format\<close>

text \<open>
  Decoding an encoded routing header, with any bytes behind it, returns the header that was
  encoded and the number of bytes it took, whenever every variable-length field is shorter than
  65536 bytes. The optional fields come back exactly for the packet type that carries them.
\<close>

theorem message_header_roundtrip:
  assumes "header_fits h"
    and "length (fst (MessageHeader_encode h)) + length rest < 2 ^ 32"
  shows "MessageHeader_decode new_MessageHeader (fst (MessageHeader_encode h) @ rest) =
    Inr (h\<lparr>mh_length := of_nat (length (fst (MessageHeader_encode h))),
           mh_optionalField := (if hasOptionalField h then mh_optionalField h
                                else new_MessageOptionalHeader)\<rparr>,
         length (fst (MessageHeader_encode h)))"
  using assms by (rule header_decode_encode)

definition sample_header :: MessageHeader where
  "sample_header = new_MessageHeader
     \<lparr>mh_version := 1, mh_ttl := 3, mh_ext := 0x10, mh_traceID := ''t1'', mh_srcGwNode := ''gwA'',
      mh_dstGwNode := ''gwB'', mh_optionalField := new_MessageOptionalHeader
        \<lparr>oh_topic := ''task'', oh_srcInst := ''A'', oh_dstInst := ''B''\<rparr>\<rparr>"

lemma sample_header_fits: "header_fits sample_header"
  by (simp add: sample_header_def header_fits_def optional_fits_def new_MessageHeader_def
      new_MessageOptionalHeader_def)

lemma sample_header_size: "length (fst (MessageHeader_encode sample_header)) = 40"
  by (simp add: sample_header_def header_encode_parts hasOptionalField_def new_MessageHeader_def
      new_MessageOptionalHeader_def MessageOptionalHeader_encode_def)

theorem message_header_roundtrip_witness:
  "header_fits sample_header \<and>
   MessageHeader_decode new_MessageHeader (fst (MessageHeader_encode sample_header) @ ''data'') =
     Inr (sample_header\<lparr>mh_length := 40\<rparr>, 40)"
  using sample_header_fits message_header_roundtrip [OF sample_header_fits, of "''data''"]
  by (simp add: sample_header_size) (simp add: sample_header_def hasOptionalField_def new_MessageHeader_def)

text \<open>
  (C31) A whole message survives the wire: if its fields fit, its header is shorter than 65536 bytes
  and the message respects the size limit, the receiver gets the sender's payload and header fields,
  with the header's length filled in. The optional fields (topic, component, addresses) arrive for the
  packet type that carries them, \<open>P2PMessage\<close>; a packet of any other type arrives with them empty.
\<close>

theorem message_roundtrip:
  assumes "header_fits (msg_header m)"
    and "length (fst (MessageHeader_encode (msg_header m))) < 2 ^ 16"
    and "length (fst (Message_encode m)) \<le> maxLen" and "maxLen < 2 ^ 32"
  shows "\<exists>m'. Message_decode maxLen new_Message (fst (Message_encode m)) =
                Inr (m', length (fst (Message_encode m))) \<and>
    payload_bytes m' = payload_bytes m \<and>
    msg_header m' = (msg_header m)
      \<lparr>mh_length := of_nat (length (fst (MessageHeader_encode (msg_header m)))),
       mh_optionalField := (if hasOptionalField (msg_header m) then mh_optionalField (msg_header m)
                            else new_MessageOptionalHeader)\<rparr>"
  using message_decode_encode [OF assms] by (simp add: received_def received_header_def payload_bytes_def)

theorem message_roundtrip_witness:
  "\<exists>m'. Message_decode 1000 new_Message
          (fst (Message_encode (new_Message\<lparr>msg_header := sample_header, msg_payload := Some ''data''\<rparr>))) =
        Inr (m', 44) \<and> payload_bytes m' = ''data'' \<and> mh_optionalField (msg_header m') = mh_optionalField sample_header"
  using message_roundtrip [of "new_Message\<lparr>msg_header := sample_header, msg_payload := Some ''data''\<rparr>" 1000]
    sample_header_fits sample_header_size
  by (auto simp: message_encode_bytes payload_bytes_def hasOptionalField_def)
    (simp add: sample_header_def new_MessageHeader_def)

text \<open>
  The header's length is kept in 16 bits: for a header of 65536 bytes or more (two fields of
  32 KB each are enough), the receiver cuts the payload at the truncated length and hands out bytes
  of the header in front of it.
\<close>

theorem message_long_header_corrupts_payload:
  assumes "header_fits (msg_header m)"
    and "2 ^ 16 \<le> length (fst (MessageHeader_encode (msg_header m)))"
    and "length (fst (Message_encode m)) \<le> maxLen" and "maxLen < 2 ^ 32"
  shows "\<exists>m'. Message_decode maxLen new_Message (fst (Message_encode m)) =
                Inr (m', length (fst (Message_encode m))) \<and>
    length (payload_bytes m) < length (payload_bytes m')"
proof -
  define n where "n = length (fst (MessageHeader_encode (msg_header m)))"
  have "n mod 2 ^ 16 < 2 ^ 16" by simp
  then have lt: "n mod 2 ^ 16 < n" using assms(2) n_def by linarith
  then have "length (payload_bytes m) < length (drop (n mod 2 ^ 16) (fst (Message_encode m)))"
    by (simp add: message_encode_bytes n_def)
  then show ?thesis
    using message_decode_payload [OF assms(1,3,4)] by (auto simp: n_def)
qed

definition long_message :: Message where
  "long_message = new_Message\<lparr>msg_header := new_MessageHeader
     \<lparr>mh_packetType := 1, mh_traceID := replicate 32768 CHR ''t'',
      mh_srcGwNode := replicate 32768 CHR ''g''\<rparr>\<rparr>"

theorem message_long_header_corrupts_payload_witness:
  "\<exists>m'. Message_decode 100000 new_Message (fst (Message_encode long_message)) = Inr (m', 65550) \<and>
        payload_bytes long_message = [] \<and> payload_bytes m' \<noteq> []"
proof -
  have fits: "header_fits (msg_header long_message)"
    by (simp add: long_message_def header_fits_def new_MessageHeader_def hasOptionalField_def)
  have n: "length (fst (MessageHeader_encode (msg_header long_message))) = 65550"
    by (simp add: long_message_def header_encode_parts new_MessageHeader_def hasOptionalField_def)
  have p: "payload_bytes long_message = []"
    by (simp add: long_message_def payload_bytes_def new_Message_def)
  show ?thesis
    using message_long_header_corrupts_payload [OF fits, of 100000] n p
    by (auto simp: message_encode_bytes)
qed

lemma optional_decode_oob:
  "MessageOptionalHeader_decode oh data off = Inl OutOfBoundsRead \<Longrightarrow>
     off \<le> length data \<and> length data < off + 2"
  by (auto simp: MessageOptionalHeader_decode_def rbind_eq_Inl read_u16_def
      decodeNetworkBuffer_no_oob split: if_splits)

lemma optional_decode_bounds:
  "MessageOptionalHeader_decode oh data off = Inr (oh', off') \<Longrightarrow> off \<le> off' \<and> off' \<le> length data"
  by (auto simp: MessageOptionalHeader_decode_def split: if_splits
      dest!: decodeNetworkBuffer_bounds)

lemma fixed_part_bounds:
  assumes "decodeNetworkBuffer r1 data 8 False = Inr (a, o1)"
    and "decodeNetworkBuffer r2 data o1 False = Inr (b, o2)"
    and "decodeNetworkBuffer r3 data o2 False = Inr (c, o3)"
  shows "14 \<le> o3 \<and> o3 \<le> length data"
  using assms [THEN decodeNetworkBuffer_bounds] by linarith

lemma of_nat_u16_0:
  assumes "k < 65536" and "(of_nat k :: u16) = 0"
  shows "k = 0"
proof -
  have "unat (of_nat k :: u16) = k mod 2 ^ 16" by (simp add: unat_of_nat)
  with assms show ?thesis by simp
qed

lemma flag_part:
  fixes x f g :: "'a::len word"
  assumes "x AND f = 0" and "g AND f = g"
  shows "x AND g = 0"
proof -
  have "x AND g = (x AND f) AND g" using assms(2) by (metis and.assoc and.commute)
  with assms(1) show ?thesis by simp
qed

text \<open>
  The header decoder reads past the end of its input in one place only, the unchecked read at the
  start of the optional fields: a decode that does so saw packet type 0 (\<open>P2PMessage\<close>) and an end of
  buffer at most one byte behind the fixed part. A successful decode stays within the buffer.
\<close>

theorem header_decode_reads_in_bounds:
  "(MessageHeader_decode h data = Inl OutOfBoundsRead \<longrightarrow>
      read_u16 data 2 = Inr 0 \<and>
      (\<exists>off. MESSAGE_MIN_LENGTH \<le> off \<and> off \<le> length data \<and> length data < off + 2)) \<and>
   (\<forall>h' n. MessageHeader_decode h data = Inr (h', n) \<longrightarrow>
      MESSAGE_MIN_LENGTH \<le> n \<and> n \<le> length data \<and> mh_length h' = of_nat n)"
proof (intro conjI impI allI)
  assume a: "MessageHeader_decode h data = Inl OutOfBoundsRead"
  then obtain k o1 o2 o3 a b c oh where
    k: "read_u16 data 2 = Inr k" "(of_nat k :: u16) = 0" and
    d: "decodeNetworkBuffer (mh_traceID h) data 8 False = Inr (a, o1)"
    "decodeNetworkBuffer (mh_srcGwNode h) data o1 False = Inr (b, o2)"
    "decodeNetworkBuffer (mh_dstGwNode h) data o2 False = Inr (c, o3)" and
    opt: "MessageOptionalHeader_decode oh data o3 = Inl OutOfBoundsRead"
    by (auto simp: MessageHeader_decode_def rbind_eq_Inl decodeNetworkBuffer_no_oob Let_def
        hasOptionalField_def MESSAGE_MIN_LENGTH_def read_u16_def split: if_splits)
  from k show "read_u16 data 2 = Inr 0"
    using of_nat_u16_0 read_u16_bound by blast
  show "\<exists>off. MESSAGE_MIN_LENGTH \<le> off \<and> off \<le> length data \<and> length data < off + 2"
    using fixed_part_bounds [OF d] optional_decode_oob [OF opt]
    by (auto simp: MESSAGE_MIN_LENGTH_def)
next
  fix h' n
  assume "MessageHeader_decode h data = Inr (h', n)"
  then obtain o1 o2 o3 a b c oh where
    d: "decodeNetworkBuffer (mh_traceID h) data 8 False = Inr (a, o1)"
    "decodeNetworkBuffer (mh_srcGwNode h) data o1 False = Inr (b, o2)"
    "decodeNetworkBuffer (mh_dstGwNode h) data o2 False = Inr (c, o3)" and
    opt: "o3 = n \<or> MessageOptionalHeader_decode (mh_optionalField h) data o3 = Inr (oh, n)" and
    l: "mh_length h' = of_nat n"
    by (auto simp: MessageHeader_decode_def Let_def split: if_splits) blast+
  show "MESSAGE_MIN_LENGTH \<le> n" and "n \<le> length data" and "mh_length h' = of_nat n"
    using fixed_part_bounds [OF d] opt l by (auto simp: MESSAGE_MIN_LENGTH_def dest: optional_decode_bounds)
qed

theorem header_decode_reads_in_bounds_witness:
  "MESSAGE_MIN_LENGTH \<le> 40 \<and> (40::nat) \<le> length (fst (MessageHeader_encode sample_header) @ ''data'')"
  using header_decode_reads_in_bounds [of new_MessageHeader "fst (MessageHeader_encode sample_header) @ ''data''"]
    header_decode_encode [OF sample_header_fits, of "''data''"]
  by (simp add: sample_header_size)

text \<open>
  That unchecked read is reachable from the network: fourteen zero bytes pass the length check
  and make the decoder read the two bytes behind them.
\<close>

theorem header_decode_overread:
  "MessageHeader_decode new_MessageHeader (replicate 14 (char_of (0::nat))) = Inl OutOfBoundsRead"
  by (simp add: MessageHeader_decode_def MESSAGE_MIN_LENGTH_def read_u16_def decodeNetworkBuffer_def
      new_MessageHeader_def hasOptionalField_def MessageOptionalHeader_decode_def)

text \<open>
  Setting a route type on a header without a route flag makes \<open>routeType\<close> return it and leaves
  the response flag alone; an enumerator outside the four is refused.
\<close>

theorem setRouteType_routeType:
  assumes "mh_ext h AND 0x1E = 0"
  shows "case setRouteType t h of
           Inl e \<Rightarrow> (\<exists>b. t = ROUTE_UNKNOWN b) \<and> e = WeDPRException ''Invalid route type''
         | Inr h' \<Rightarrow> routeType h' = t \<and> header_isRespPacket h' = header_isRespPacket h"
proof -
  have z: "mh_ext h AND 2 = 0" "mh_ext h AND 4 = 0" "mh_ext h AND 8 = 0" "mh_ext h AND 16 = 0"
    using flag_part [OF assms, of 2] flag_part [OF assms, of 4] flag_part [OF assms, of 8]
      flag_part [OF assms, of 16] by simp_all
  show ?thesis
    by (cases t)
      (simp_all add: routeType_def header_isRespPacket_def flag_keep z)
qed

theorem setRouteType_routeType_witness:
  "mh_ext new_MessageHeader AND 0x1E = 0 \<and>
   (case setRouteType ROUTE_THROUGH_TOPIC new_MessageHeader of
      Inl e \<Rightarrow> False | Inr h' \<Rightarrow> routeType h' = ROUTE_THROUGH_TOPIC)"
proof -
  have z: "mh_ext new_MessageHeader AND 0x1E = 0" by (simp add: new_MessageHeader_def)
  show ?thesis
    using z setRouteType_routeType [OF z, of ROUTE_THROUGH_TOPIC] by simp
qed

end
