(* ===== verification/PPCMessage.thy ===== *)
theory PPCMessage
  imports MessageCodec
begin

text \<open>
  The application's message \<open>PPCMessage\<close> (wedpr-protocol/protocol/src/PPCMessage.cpp) and the
  factory that moves it into and out of the gateway's \<open>Message\<close>. Three layers nest on the wire: the
  routing header, the front's \<open>MessagePayload\<close>, the \<open>PPCMessage\<close>; the end-to-end theorem follows a
  message through all of them.

  The JSON form of the header map (jsoncpp) is not opened here: \<open>m_header\<close> is the string it produced.
\<close>

record PPCMessage =
  ppc_version :: u8
  ppc_taskType :: u8
  ppc_algorithmType :: u8
  ppc_messageType :: u8
  ppc_seq :: u32
  ppc_taskID :: bytes
  ppc_sender :: bytes
  ppc_senderNode :: bytes
  ppc_isResponse :: bool
  ppc_uuid :: bytes
  ppc_data :: bytes
  ppc_header :: bytes
  ppc_length :: u32

definition PPC_MIN_LENGTH :: nat where
  "PPC_MIN_LENGTH = 8"

text \<open>
  \<open>m_isResponse\<close> is the one member without an initialiser: its first value is whatever the memory
  held, an argument of the constructor here.
\<close>

definition new_PPCMessage :: "bool \<Rightarrow> PPCMessage" where
  "new_PPCMessage junk =
     \<lparr>ppc_version = 0, ppc_taskType = 0, ppc_algorithmType = 0, ppc_messageType = 0, ppc_seq = 0,
      ppc_taskID = [], ppc_sender = [], ppc_senderNode = [], ppc_isResponse = junk, ppc_uuid = [],
      ppc_data = [], ppc_header = [], ppc_length = of_nat PPC_MIN_LENGTH\<rparr>"

definition PPCMessage_encode :: "PPCMessage \<Rightarrow> bytes \<times> PPCMessage" where
  "PPCMessage_encode p =
     (let dataLength = length (ppc_data p) mod 2 ^ 32;
          buffer = map (\<lambda>b. char_of (unat b))
                     [ppc_version p, ppc_taskType p, ppc_algorithmType p, ppc_messageType p] @
                   net_u32 dataLength @ (if dataLength > 0 then ppc_data p else []) @ ppc_header p
      in (buffer, p\<lparr>ppc_length := of_nat (length buffer)\<rparr>))"

text \<open>
  \<open>decode\<close> answers -1 for a short buffer before anything changes, and -1 for a data length past the
  end after the first fields have been overwritten; \<open>_length\<close> is the buffer size cut to 32 bits. The
  rest of the buffer is inserted in front of the header string the object already has.
\<close>

definition PPCMessage_decode :: "PPCMessage \<Rightarrow> bytes \<Rightarrow> int \<times> PPCMessage" where
  "PPCMessage_decode p buf =
     (let len = length buf mod 2 ^ 32; u8_at = (\<lambda>i. (of_nat (of_char (buf ! i)) :: u8)) in
      if len < PPC_MIN_LENGTH then (-1, p)
      else
        let p1 = p\<lparr>ppc_data := [], ppc_version := u8_at 0, ppc_taskType := u8_at 1,
                   ppc_algorithmType := u8_at 2, ppc_messageType := u8_at 3\<rparr>
        in case read_u32 buf 4 of
             Inl _ \<Rightarrow> (-1, p1)
           | Inr dataLength \<Rightarrow>
               if len < PPC_MIN_LENGTH + dataLength then (-1, p1)
               else
                 let cur = PPC_MIN_LENGTH + dataLength;
                     p2 = p1\<lparr>ppc_data := take dataLength (drop PPC_MIN_LENGTH buf)\<rparr>;
                     p3 = (if cur < len
                           then p2\<lparr>ppc_header := take (len - cur) (drop cur buf) @ ppc_header p2\<rparr>
                           else p2)
                 in (int len, p3\<lparr>ppc_length := of_nat len\<rparr>))"

text \<open>The factory. \<open>buildPPCMessage\<close> of a buffer gives no message when decoding fails.\<close>

definition buildPPCMessage_task :: "bool \<Rightarrow> u8 \<Rightarrow> u8 \<Rightarrow> bytes \<Rightarrow> bytes \<Rightarrow> PPCMessage" where
  "buildPPCMessage_task junk taskType algorithmType taskID data =
     (new_PPCMessage junk)\<lparr>ppc_taskType := taskType, ppc_algorithmType := algorithmType,
       ppc_taskID := taskID, ppc_data := data\<rparr>"

definition buildPPCMessage_buffer :: "bool \<Rightarrow> bytes \<Rightarrow> PPCMessage option" where
  "buildPPCMessage_buffer junk buf =
     (let (len, p) = PPCMessage_decode (new_PPCMessage junk) buf
      in if len = -1 then None else Some p)"

definition ppc_releasePayload :: "PPCMessage \<Rightarrow> PPCMessage" where
  "ppc_releasePayload p = p\<lparr>ppc_data := []\<rparr>"

text \<open>
  \<open>decodePPCMessage\<close>: the result of \<open>decode\<close> is not looked at, and \<open>isRespPacket\<close> changes the
  front message, so the message comes back changed.
\<close>

definition decodePPCMessage :: "bool \<Rightarrow> Message \<Rightarrow> PPCMessage \<times> Message" where
  "decodePPCMessage junk m =
     (let (p, m') =
        (case msg_frontMessage m of
           None \<Rightarrow> (new_PPCMessage junk, m)
         | Some f \<Rightarrow>
             let p1 = snd (PPCMessage_decode (new_PPCMessage junk) (mp_data f));
                 (resp, f') = payload_isRespPacket f;
                 p2 = p1\<lparr>ppc_seq := ucast (mp_seq f), ppc_uuid := mp_traceID f\<rparr>
             in (if resp then p2\<lparr>ppc_isResponse := True\<rparr> else p2, m\<lparr>msg_frontMessage := Some f'\<rparr>));
          ri = mh_optionalField (msg_header m)
      in (p\<lparr>ppc_taskID := oh_topic ri, ppc_sender := oh_srcInst ri, ppc_senderNode := oh_srcNode ri\<rparr>,
          m'))"

definition buildMessage_payload :: "PPCMessage \<Rightarrow> MessagePayload" where
  "buildMessage_payload p =
     (let pl = new_MessagePayload\<lparr>mp_seq := ucast (ppc_seq p)\<rparr>;
          pl' = (if ppc_isResponse p then payload_setRespPacket pl else pl)
      in payload_setData (fst (PPCMessage_encode p)) (pl'\<lparr>mp_traceID := ppc_uuid p\<rparr>))"

definition buildMessage :: "PPCMessage \<Rightarrow> Message" where
  "buildMessage p =
     (let oh = (mh_optionalField (msg_header new_Message))
                 \<lparr>oh_topic := ppc_taskID p, oh_srcInst := ppc_sender p\<rparr>;
          m = new_Message\<lparr>msg_header := (msg_header new_Message)\<lparr>mh_optionalField := oh\<rparr>\<rparr>
      in message_setPayload (Some (fst (MessagePayload_encode (buildMessage_payload p) []))) m)"

section \<open>Decoding\<close>

lemma u8_mod_256 [simp]: "unat (b :: u8) mod 256 = unat b"
  using unsigned_less [of b, where 'a = nat] by simp

lemma ppc_encode_length:
  "length (ppc_data p) < 2 ^ 32 \<Longrightarrow>
   length (fst (PPCMessage_encode p)) = 8 + length (ppc_data p) + length (ppc_header p)"
  by (auto simp: PPCMessage_encode_def Let_def)

lemma ppc_decode_encode:
  assumes len: "length (fst (PPCMessage_encode p)) < 2 ^ 32"
    and dlen: "length (ppc_data p) < 2 ^ 32"
  shows "PPCMessage_decode q (fst (PPCMessage_encode p)) =
    (int (length (fst (PPCMessage_encode p))),
     q\<lparr>ppc_version := ppc_version p, ppc_taskType := ppc_taskType p,
       ppc_algorithmType := ppc_algorithmType p, ppc_messageType := ppc_messageType p,
       ppc_data := ppc_data p, ppc_header := ppc_header p @ ppc_header q,
       ppc_length := of_nat (length (fst (PPCMessage_encode p)))\<rparr>)"
proof -
  define buf where "buf = fst (PPCMessage_encode p)"
  define hd4 where "hd4 = map (\<lambda>b. char_of (unat b) :: char)
    [ppc_version p, ppc_taskType p, ppc_algorithmType p, ppc_messageType p]"
  have buf: "buf = hd4 @ net_u32 (length (ppc_data p)) @ ppc_data p @ ppc_header p"
    using dlen by (auto simp: buf_def PPCMessage_encode_def Let_def hd4_def)
  have h: "length hd4 = 4" by (simp add: hd4_def)
  have r: "read_u32 buf 4 = Inr (length (ppc_data p))"
    using read_u32_at [of hd4 "length (ppc_data p)" "ppc_data p @ ppc_header p"] dlen
    by (simp add: buf h)
  have l: "length buf mod 2 ^ 32 = length buf" using len by (simp add: buf_def)
  have lb: "length buf = 8 + length (ppc_data p) + length (ppc_header p)" by (simp add: buf h)
  have d8: "drop 8 buf = ppc_data p @ ppc_header p" by (simp add: buf h)
  have d: "drop (8 + length (ppc_data p)) buf = ppc_header p"
    using d8 by (simp flip: drop_drop add: add.commute)
  have at: "buf ! 0 = char_of (unat (ppc_version p))" "buf ! 1 = char_of (unat (ppc_taskType p))"
    "buf ! 2 = char_of (unat (ppc_algorithmType p))" "buf ! 3 = char_of (unat (ppc_messageType p))"
    by (simp_all add: buf hd4_def nth_append)
  show ?thesis
    unfolding buf_def [symmetric] PPCMessage_decode_def Let_def l
    by (simp add: r d8 d PPC_MIN_LENGTH_def lb at [unfolded One_nat_def])
qed

text \<open>
  Every \<open>PPCMessage\<close> whose encoding stays below 4 GB is decoded by \<open>buildPPCMessage\<close> into a
  message with the same version, types, data and header string.
\<close>

theorem ppc_message_roundtrip:
  assumes "length (ppc_data p) + length (ppc_header p) + 8 < 2 ^ 32"
  shows "\<exists>q. buildPPCMessage_buffer junk (fst (PPCMessage_encode p)) = Some q \<and>
    ppc_version q = ppc_version p \<and> ppc_taskType q = ppc_taskType p \<and>
    ppc_algorithmType q = ppc_algorithmType p \<and> ppc_messageType q = ppc_messageType p \<and>
    ppc_data q = ppc_data p \<and> ppc_header q = ppc_header p \<and>
    unat (ppc_length q) = length (fst (PPCMessage_encode p))"
proof -
  have d: "length (ppc_data p) < 2 ^ 32" using assms by simp
  have l: "length (fst (PPCMessage_encode p)) < 2 ^ 32"
    using assms by (simp add: ppc_encode_length [OF d])
  show ?thesis
    using l unfolding buildPPCMessage_buffer_def ppc_decode_encode [OF l d]
    by (simp add: new_PPCMessage_def unat_of_nat)
qed

theorem ppc_message_roundtrip_witness:
  "length ''abc'' + length ''{}'' + 8 < (2::nat) ^ 32 \<and>
   (\<exists>q. buildPPCMessage_buffer True
          (fst (PPCMessage_encode ((new_PPCMessage False)\<lparr>ppc_data := ''abc'', ppc_header := ''{}''\<rparr>))) = Some q \<and>
        ppc_data q = ''abc'' \<and> ppc_header q = ''{}'')"
  using ppc_message_roundtrip [of "(new_PPCMessage False)\<lparr>ppc_data := ''abc'', ppc_header := ''{}''\<rparr>" True]
  by auto

section \<open>Through all layers\<close>

lemma built_header:
  "hasOptionalField (msg_header (buildMessage p))"
  "mh_optionalField (msg_header (buildMessage p)) =
     new_MessageOptionalHeader\<lparr>oh_topic := ppc_taskID p, oh_srcInst := ppc_sender p\<rparr>"
  "length (fst (MessageHeader_encode (msg_header (buildMessage p)))) =
     26 + length (ppc_taskID p) + length (ppc_sender p)"
  "payload_bytes (buildMessage p) = fst (MessagePayload_encode (buildMessage_payload p) [])"
  by (simp_all add: buildMessage_def message_setPayload_def Let_def new_Message_def
      new_MessageHeader_def hasOptionalField_def header_encode_parts payload_bytes_def
      MessageOptionalHeader_encode_def new_MessageOptionalHeader_def)

lemma built_header_fits:
  assumes "length (ppc_taskID p) < 2 ^ 16" "length (ppc_sender p) < 2 ^ 16"
  shows "header_fits (msg_header (buildMessage p))"
  using assms by (simp add: header_fits_def built_header optional_fits_def)
    (simp add: buildMessage_def message_setPayload_def Let_def new_Message_def
      new_MessageHeader_def new_MessageOptionalHeader_def)

lemma built_payload_length:
  "length (fst (MessagePayload_encode (buildMessage_payload p) [])) =
     12 + length (ppc_uuid p) + length (fst (PPCMessage_encode p))"
  by (simp add: MessagePayload_encode_def Let_def buildMessage_payload_def payload_setData_def)

lemma built_payload_fields:
  "mp_seq (buildMessage_payload p) = ucast (ppc_seq p)"
  "mp_traceID (buildMessage_payload p) = ppc_uuid p"
  "mp_dataPtr (buildMessage_payload p) = fst (PPCMessage_encode p)"
  "mp_ext (buildMessage_payload p) = (if ppc_isResponse p then FrontMsgExtFlag_Response else 0)"
  by (simp_all add: buildMessage_payload_def payload_setData_def Let_def payload_setRespPacket_def
      new_MessagePayload_def)

text \<open>
  What the receiving side does with the bytes of a message: \<open>MessageImpl::decode\<close> in the transport,
  \<open>MessagePayloadImpl::decode\<close> and \<open>setFrontMessage\<close> in the front, \<open>decodePPCMessage\<close> in the
  task's handler.
\<close>

definition receive_ppc :: "bool \<Rightarrow> nat \<Rightarrow> bytes \<Rightarrow> PPCMessage res" where
  "receive_ppc junk maxLen buf =
     rbind (Message_decode maxLen new_Message buf) (\<lambda>(m, _).
       rbind (MessagePayload_decode new_MessagePayload (payload_bytes m)) (\<lambda>(f, _).
         Inr (fst (decodePPCMessage junk (message_setFrontMessage (Some f) True m)))))"

lemma receive_built:
  assumes ids: "26 + length (ppc_taskID p) + length (ppc_sender p) < 2 ^ 16"
    and uuid: "length (ppc_uuid p) < 2 ^ 16"
    and size: "length (fst (Message_encode (buildMessage p))) \<le> maxLen" and max: "maxLen < 2 ^ 32"
    and dlen: "length (ppc_data p) < 2 ^ 32"
  shows "\<exists>f m'. receive_ppc junk maxLen (fst (Message_encode (buildMessage p))) =
      Inr (fst (decodePPCMessage junk (message_setFrontMessage (Some f) True m'))) \<and>
    f = (buildMessage_payload p)\<lparr>mp_data := fst (PPCMessage_encode p), mp_length := mp_length f\<rparr> \<and>
    mh_optionalField (msg_header m') =
      new_MessageOptionalHeader\<lparr>oh_topic := ppc_taskID p, oh_srcInst := ppc_sender p\<rparr> \<and>
    length (fst (PPCMessage_encode p)) < 2 ^ 32"
proof -
  let ?m = "buildMessage p" and ?buf = "fst (Message_encode (buildMessage p))"
  let ?n = "length (fst (MessageHeader_encode (msg_header ?m)))"
  let ?pl = "fst (MessagePayload_encode (buildMessage_payload p) [])"
  have fits: "header_fits (msg_header ?m)" using ids by (intro built_header_fits) simp_all
  obtain m' where m': "Message_decode maxLen new_Message ?buf = Inr (m', length ?buf)"
    "msg_header m' = (msg_header ?m)\<lparr>mh_length := of_nat ?n,
       mh_optionalField := mh_optionalField (msg_header ?m)\<rparr>"
    "payload_bytes m' = drop (?n mod 2 ^ 16) ?buf"
    using message_decode_payload [OF fits size max] by (auto simp: built_header(1))
  have n: "?n mod 2 ^ 16 = ?n" using ids by (simp add: built_header(3))
  have pl: "payload_bytes m' = ?pl"
    using m'(3) unfolding n by (simp add: message_encode_bytes built_header(4))
  have lp: "length ?pl < 2 ^ 32"
    using size max by (simp add: message_encode_bytes built_header(4))
  have tr: "length (mp_traceID (buildMessage_payload p)) < 2 ^ 16"
    using uuid by (simp add: built_payload_fields)
  define f where "f = (buildMessage_payload p)
    \<lparr>mp_data := fst (PPCMessage_encode p), mp_length := int (length ?pl)\<rparr>"
  have f: "MessagePayload_decode new_MessagePayload ?pl = Inr (f, length ?pl)"
    using payload_decode_encode [OF tr lp] by (simp add: f_def built_payload_fields)
  have "receive_ppc junk maxLen ?buf =
      Inr (fst (decodePPCMessage junk (message_setFrontMessage (Some f) True m')))"
    by (simp add: receive_ppc_def m'(1) pl f)
  moreover have "f = (buildMessage_payload p)
      \<lparr>mp_data := fst (PPCMessage_encode p), mp_length := mp_length f\<rparr>"
    by (simp add: f_def)
  moreover have "length (fst (PPCMessage_encode p)) < 2 ^ 32"
    using lp by (simp add: built_payload_length)
  ultimately show ?thesis using m'(2) built_header(2) [of p] by fastforce
qed

text \<open>
  (C4) End to end: a message that \<open>PPCMessageFactory::buildMessage\<close> builds, sent through the encoders
  and decoders of all three layers, arrives at the receiving task with the same task id, sender,
  trace id, types, data and header string, provided the 16-bit lengths hold them: task id and sender
  together shorter than 2^16 - 26 bytes, the trace id shorter than 2^16, the data shorter than 2^32 and the
  whole message within the receiver's size limit. The sequence number arrives modulo 2^16, because the
  front's frame has 16 bits for it. A message marked as a response arrives marked; one that is not marked
  arrives marked exactly when the mark of the receiver's new message, which nothing initialises
  (\<open>junk\<close>), was already set.
\<close>

theorem ppc_end_to_end:
  assumes ids: "26 + length (ppc_taskID p) + length (ppc_sender p) < 2 ^ 16"
    and uuid: "length (ppc_uuid p) < 2 ^ 16"
    and size: "length (fst (Message_encode (buildMessage p))) \<le> maxLen" and max: "maxLen < 2 ^ 32"
    and dlen: "length (ppc_data p) < 2 ^ 32"
  shows "\<exists>q. receive_ppc junk maxLen (fst (Message_encode (buildMessage p))) = Inr q \<and>
    ppc_taskID q = ppc_taskID p \<and> ppc_sender q = ppc_sender p \<and> ppc_uuid q = ppc_uuid p \<and>
    ppc_version q = ppc_version p \<and> ppc_taskType q = ppc_taskType p \<and>
    ppc_algorithmType q = ppc_algorithmType p \<and> ppc_messageType q = ppc_messageType p \<and>
    ppc_data q = ppc_data p \<and> ppc_header q = ppc_header p \<and>
    unat (ppc_seq q) = unat (ppc_seq p) mod 2 ^ 16 \<and>
    ppc_isResponse q = (ppc_isResponse p \<or> junk)"
proof -
  obtain f m' where r: "receive_ppc junk maxLen (fst (Message_encode (buildMessage p))) =
      Inr (fst (decodePPCMessage junk (message_setFrontMessage (Some f) True m')))"
    and f: "f = (buildMessage_payload p)\<lparr>mp_data := fst (PPCMessage_encode p), mp_length := mp_length f\<rparr>"
    and oh: "mh_optionalField (msg_header m') =
      new_MessageOptionalHeader\<lparr>oh_topic := ppc_taskID p, oh_srcInst := ppc_sender p\<rparr>"
    and len: "length (fst (PPCMessage_encode p)) < 2 ^ 32"
    using receive_built [OF assms] by blast
  have fs: "mp_data f = fst (PPCMessage_encode p)" "mp_seq f = ucast (ppc_seq p)"
    "mp_traceID f = ppc_uuid p" "mp_ext f = (if ppc_isResponse p then FrontMsgExtFlag_Response else 0)"
    by (subst f, simp add: built_payload_fields)+
  have fm: "msg_frontMessage (message_setFrontMessage (Some f) True m') = Some f"
    "msg_header (message_setFrontMessage (Some f) True m') = msg_header m'"
    by (simp_all add: message_setFrontMessage_def)
  have u: "unat (ucast (ucast (ppc_seq p) :: u16) :: u32) = unat (ppc_seq p) mod 2 ^ 16"
    by (simp add: unsigned_ucast_eq unsigned_take_bit_eq)
      (simp add: take_bit_eq_mod)
  show ?thesis
    unfolding r using u
    by (simp add: decodePPCMessage_def fm fs ppc_decode_encode [OF len dlen] oh
        payload_isRespPacket_def new_PPCMessage_def Let_def)
      (simp add: FrontMsgExtFlag_Response_def)
qed

theorem ppc_end_to_end_witness:
  defines "p \<equiv> (new_PPCMessage True)\<lparr>ppc_taskID := ''job'', ppc_sender := ''bank'', ppc_uuid := ''u1'',
      ppc_seq := 65537, ppc_data := ''xyz''\<rparr>"
  shows "length (fst (Message_encode (buildMessage p))) \<le> 1000 \<and>
    (\<exists>q. receive_ppc False 1000 (fst (Message_encode (buildMessage p))) = Inr q \<and>
         ppc_data q = ''xyz'' \<and> unat (ppc_seq q) = 1 \<and> ppc_isResponse q)"
proof -
  have l: "length (fst (Message_encode (buildMessage p))) \<le> 1000"
    by (simp add: p_def message_encode_bytes built_header built_payload_length ppc_encode_length
        new_PPCMessage_def)
  show ?thesis
    using l ppc_end_to_end [of p 1000 False] by (auto simp: p_def new_PPCMessage_def)
qed

text \<open>
  \<open>buildPPCMessage\<close> of arbitrary bytes: no message for fewer than eight bytes or for a data
  length past the end, and otherwise a message whose data is the announced piece of the buffer and
  whose header is exactly the rest.
\<close>

theorem buildPPCMessage_total:
  assumes small: "length buf < 2 ^ 32"
  shows "(case buildPPCMessage_buffer junk buf of
            None \<Rightarrow> length buf < 8 \<or> (\<exists>n. read_u32 buf 4 = Inr n \<and> length buf < 8 + n)
          | Some q \<Rightarrow> (\<exists>n. read_u32 buf 4 = Inr n \<and> length (ppc_data q) = n \<and>
              8 + n \<le> length buf \<and> drop 8 buf = ppc_data q @ ppc_header q))"
proof (cases "length buf < 8")
  case True
  with small show ?thesis
    by (simp add: buildPPCMessage_buffer_def PPCMessage_decode_def PPC_MIN_LENGTH_def)
next
  case False
  then obtain n where n: "read_u32 buf 4 = Inr n" by (simp add: read_u32_def)
  show ?thesis
  proof (cases "length buf < 8 + n")
    case True
    with False small n show ?thesis
      by (simp add: buildPPCMessage_buffer_def PPCMessage_decode_def PPC_MIN_LENGTH_def Let_def)
  next
    case le: False
    have "drop 8 buf = take n (drop 8 buf) @ drop (8 + n) buf"
      by (metis add.commute append_take_drop_id drop_drop)
    with False small n le show ?thesis
      by (auto simp: buildPPCMessage_buffer_def PPCMessage_decode_def PPC_MIN_LENGTH_def Let_def
          new_PPCMessage_def)
  qed
qed

theorem buildPPCMessage_total_witness:
  defines "buf \<equiv> map char_of [0, 1, 2, 3, 0, 0, 0, 9, 65 :: nat]"
  shows "length buf < 2 ^ 32 \<and> buildPPCMessage_buffer False buf = None"
  using buildPPCMessage_total [of buf False]
  by (auto simp: buf_def read_u32_def split: option.splits)

end
