(* ===== verification/StandIn.thy ===== *)
theory StandIn
  imports Prelude
begin

text \<open>
  Concrete serialisers for witnesses. The generated tars and protobuf code is a parameter of the
  model, and the theorems about it assume that its reader inverts its writer. The functions here are
  such a pair, built from unary length prefixes, with which those hypotheses are discharged.
\<close>

definition put_nat :: "nat \<Rightarrow> bytes" where
  "put_nat n = replicate n CHR ''x'' @ ''|''"

definition get_nat :: "bytes \<Rightarrow> nat \<times> bytes" where
  "get_nat bs = (length (takeWhile (\<lambda>c. c = CHR ''x'') bs), drop 1 (dropWhile (\<lambda>c. c = CHR ''x'') bs))"

definition put_bytes :: "bytes \<Rightarrow> bytes" where
  "put_bytes b = put_nat (length b) @ b"

definition get_bytes :: "bytes \<Rightarrow> bytes \<times> bytes" where
  "get_bytes bs = (let (n, r) = get_nat bs in (take n r, drop n r))"

definition put_many :: "('a \<Rightarrow> bytes) \<Rightarrow> 'a list \<Rightarrow> bytes" where
  "put_many f xs = put_nat (length xs) @ concat (map f xs)"

fun get_n :: "(bytes \<Rightarrow> 'a \<times> bytes) \<Rightarrow> nat \<Rightarrow> bytes \<Rightarrow> 'a list \<times> bytes" where
  "get_n g 0 bs = ([], bs)"
| "get_n g (Suc n) bs = (let (x, r) = g bs; (xs, r') = get_n g n r in (x # xs, r'))"

definition get_many :: "(bytes \<Rightarrow> 'a \<times> bytes) \<Rightarrow> bytes \<Rightarrow> 'a list \<times> bytes" where
  "get_many g bs = (let (n, r) = get_nat bs in get_n g n r)"

lemma get_put_nat [simp]: "get_nat (put_nat n @ r) = (n, r)"
  by (induction n) (auto simp: get_nat_def put_nat_def)

lemma get_put_bytes [simp]: "get_bytes (put_bytes b @ r) = (b, r)"
  by (simp add: get_bytes_def put_bytes_def)

lemma get_put_n: "(\<And>x r. g (f x @ r) = (x, r)) \<Longrightarrow> get_n g (length xs) (concat (map f xs) @ r) = (xs, r)"
  by (induction xs) simp_all

lemma get_put_many: "(\<And>x r. g (f x @ r) = (x, r)) \<Longrightarrow> get_many g (put_many f xs @ r) = (xs, r)"
  by (simp add: get_many_def put_many_def get_put_n)

end
