(* ===== verification/GatewayNodeInfo.thy ===== *)
theory GatewayNodeInfo
  imports StandIn
begin

text \<open>
  What a gateway knows of the nodes behind one gateway: \<open>NodeInfoImpl\<close> of wedpr-protocol/protobuf and
  \<open>GatewayNodeInfoImpl\<close> of wedpr-transport/ppc-gateway/ppc-gateway/gateway/router. The object keeps a
  map from node ids to node descriptions, the topics each node registered (not sent to others), and a
  protobuf object that is serialised when other gateways ask. A description holds the fields of its own
  protobuf object beside a set of components that is copied into it by \<open>encodeFields\<close>; the gateway's
  protobuf object lists the descriptions' objects by pointer, so it is modelled by the ids it lists.

  Shown: the serialised form always lists exactly the known nodes with their current components; a
  receiving gateway rebuilds them; the three choices of receivers pick exactly the fronts they should.
\<close>

text \<open>A front client is known by the endpoint it was built for.\<close>

type_synonym front = bytes

record NodeInfo =
  ni_nodeID :: bytes
  ni_endPoint :: bytes
  ni_meta :: bytes
  ni_rawComponents :: "bytes list"
  ni_components :: "bytes set"
  ni_front :: "front option"

record raw_node =
  rn_nodeID :: bytes
  rn_endPoint :: bytes
  rn_meta :: bytes
  rn_components :: "bytes list"

definition new_NodeInfo :: "bytes \<Rightarrow> bytes \<Rightarrow> NodeInfo" where
  "new_NodeInfo nodeID endPoint =
     \<lparr>ni_nodeID = nodeID, ni_endPoint = endPoint, ni_meta = [], ni_rawComponents = [],
      ni_components = {}, ni_front = None\<rparr>"

definition setComponents :: "bytes set \<Rightarrow> NodeInfo \<Rightarrow> NodeInfo" where
  "setComponents c n = n\<lparr>ni_components := c\<rparr>"

definition componentExist :: "NodeInfo \<Rightarrow> bytes \<Rightarrow> bool" where
  "componentExist n c \<longleftrightarrow> c \<in> ni_components n"

definition copiedComponents :: "NodeInfo \<Rightarrow> bytes list" where
  "copiedComponents n = sorted_list_of_set (ni_components n)"

definition addComponent :: "bytes \<Rightarrow> NodeInfo \<Rightarrow> bool \<times> NodeInfo" where
  "addComponent c n =
     (if c \<in> ni_components n then (False, n)
      else (True, n\<lparr>ni_components := insert c (ni_components n)\<rparr>))"

definition eraseComponent :: "bytes \<Rightarrow> NodeInfo \<Rightarrow> bool \<times> NodeInfo" where
  "eraseComponent c n =
     (if c \<notin> ni_components n then (False, n)
      else (True, n\<lparr>ni_components := ni_components n - {c}\<rparr>))"

definition encodeFields :: "NodeInfo \<Rightarrow> NodeInfo" where
  "encodeFields n = n\<lparr>ni_rawComponents := sorted_list_of_set (ni_components n)\<rparr>"

definition decodeFields :: "NodeInfo \<Rightarrow> NodeInfo" where
  "decodeFields n = n\<lparr>ni_components := set (ni_rawComponents n)\<rparr>"

definition node_equal :: "NodeInfo \<Rightarrow> NodeInfo \<Rightarrow> bool" where
  "node_equal a b \<longleftrightarrow> ni_nodeID a = ni_nodeID b \<and> ni_endPoint a = ni_endPoint b"

definition raw_of :: "NodeInfo \<Rightarrow> raw_node" where
  "raw_of n = \<lparr>rn_nodeID = ni_nodeID n, rn_endPoint = ni_endPoint n, rn_meta = ni_meta n,
               rn_components = ni_rawComponents n\<rparr>"

definition NodeInfo_of_raw :: "raw_node \<Rightarrow> NodeInfo" where
  "NodeInfo_of_raw r = decodeFields
     \<lparr>ni_nodeID = rn_nodeID r, ni_endPoint = rn_endPoint r, ni_meta = rn_meta r,
      ni_rawComponents = rn_components r, ni_components = {}, ni_front = None\<rparr>"

text \<open>\<open>NodeInfoImpl::encode\<close> and \<open>decode\<close> with the generated protobuf code as parameters.\<close>

definition NodeInfo_encode :: "(raw_node \<Rightarrow> bytes) \<Rightarrow> NodeInfo \<Rightarrow> bytes \<times> NodeInfo" where
  "NodeInfo_encode pb n = (let n' = encodeFields n in (pb (raw_of n'), n'))"

definition NodeInfo_decode :: "(bytes \<Rightarrow> raw_node option) \<Rightarrow> bytes \<Rightarrow> NodeInfo option" where
  "NodeInfo_decode pb data = map_option NodeInfo_of_raw (pb data)"

section \<open>The gateway's description\<close>

record GatewayNodeInfo =
  gi_p2pNodeID :: bytes
  gi_agency :: bytes
  gi_statusSeq :: u32
  gi_rawNodeList :: "bytes list"
  gi_nodeList :: "(bytes, NodeInfo) smap"
  gi_topicInfo :: "(bytes, bytes set) smap"

definition new_GatewayNodeInfo :: "bytes \<Rightarrow> bytes \<Rightarrow> GatewayNodeInfo" where
  "new_GatewayNodeInfo p2pNodeID agency =
     \<lparr>gi_p2pNodeID = p2pNodeID, gi_agency = agency, gi_statusSeq = 0, gi_rawNodeList = [],
      gi_nodeList = [], gi_topicInfo = []\<rparr>"

definition nodeInfo :: "GatewayNodeInfo \<Rightarrow> bytes \<Rightarrow> NodeInfo option" where
  "nodeInfo g nodeID = map_of (gi_nodeList g) nodeID"

definition existComponent :: "GatewayNodeInfo \<Rightarrow> bytes \<Rightarrow> bool" where
  "existComponent g component \<longleftrightarrow> list_ex (\<lambda>(k, n). componentExist n component) (gi_nodeList g)"

definition updateNodeList :: "GatewayNodeInfo \<Rightarrow> GatewayNodeInfo" where
  "updateNodeList g = g\<lparr>gi_nodeList := smap_map (\<lambda>k n. encodeFields n) (gi_nodeList g),
                        gi_rawNodeList := map fst (gi_nodeList g)\<rparr>"

text \<open>
  \<open>tryAddNodeInfo\<close> gives whether the node was entered, and sets \<open>updated\<close> when a known node's meta
  data or components changed.
\<close>

definition tryAddNodeInfo :: "NodeInfo \<Rightarrow> GatewayNodeInfo \<Rightarrow> bool \<times> bool \<times> GatewayNodeInfo" where
  "tryAddNodeInfo info g =
     (let nodeID = ni_nodeID info;
          enter = (True, False, updateNodeList (g\<lparr>gi_nodeList := smap_put nodeID info (gi_nodeList g)\<rparr>))
      in case nodeInfo g nodeID of
           None \<Rightarrow> enter
         | Some old \<Rightarrow>
             if \<not> node_equal old info then enter
             else let metaChanged = ni_meta info \<noteq> ni_meta old;
                      n1 = (if metaChanged then old\<lparr>ni_meta := ni_meta info\<rparr> else old);
                      compChanged = copiedComponents info \<noteq> copiedComponents n1;
                      n2 = (if compChanged then setComponents (set (copiedComponents info)) n1 else n1);
                      updated = metaChanged \<or> compChanged;
                      n3 = (if updated then encodeFields n2 else n2)
                  in (False, updated, g\<lparr>gi_nodeList := smap_put nodeID n3 (gi_nodeList g)\<rparr>))"

definition removeNodeInfo :: "bytes \<Rightarrow> GatewayNodeInfo \<Rightarrow> GatewayNodeInfo" where
  "removeNodeInfo nodeID g =
     (case nodeInfo g nodeID of
        None \<Rightarrow> g
      | Some _ \<Rightarrow>
          let g' = updateNodeList (g\<lparr>gi_nodeList := smap_erase nodeID (gi_nodeList g)\<rparr>)
          in if map_of (gi_topicInfo g') nodeID \<noteq> None
             then g'\<lparr>gi_topicInfo := smap_erase nodeID (gi_topicInfo g')\<rparr> else g')"

text \<open>
  The loop the three choices share: collect the fronts that the test yields, and stop after the first
  one unless all are wanted.
\<close>

fun choose_loop :: "bool \<Rightarrow> ('a \<Rightarrow> front option) \<Rightarrow> 'a list \<Rightarrow> front list \<Rightarrow> front list" where
  "choose_loop selectAll pick [] result = result"
| "choose_loop selectAll pick (x # xs) result =
     (let result' = (case pick x of None \<Rightarrow> result | Some f \<Rightarrow> result @ [f])
      in if result' \<noteq> [] \<and> \<not> selectAll then result' else choose_loop selectAll pick xs result')"

definition chooseRouteByComponent :: "bool \<Rightarrow> bytes \<Rightarrow> GatewayNodeInfo \<Rightarrow> front list" where
  "chooseRouteByComponent selectAll component g =
     choose_loop selectAll
       (\<lambda>(k, n). if component \<in> ni_components n then ni_front n else None) (gi_nodeList g) []"

definition chooseRouterByAgency :: "bool \<Rightarrow> GatewayNodeInfo \<Rightarrow> front list" where
  "chooseRouterByAgency selectAll g = choose_loop selectAll (\<lambda>(k, n). ni_front n) (gi_nodeList g) []"

definition chooseRouterByTopic :: "bool \<Rightarrow> bytes \<Rightarrow> bytes \<Rightarrow> GatewayNodeInfo \<Rightarrow> front list" where
  "chooseRouterByTopic selectAll fromNode topic g =
     (if topic = [] then choose_loop True (\<lambda>(k, n). ni_front n) (gi_nodeList g) []
      else choose_loop selectAll
        (\<lambda>(k, ts). case (if topic \<in> ts then nodeInfo g k else None) of
            None \<Rightarrow> None
          | Some n \<Rightarrow> if ni_nodeID n \<noteq> fromNode then ni_front n else None) (gi_topicInfo g) [])"

definition gi_registerTopic :: "bytes \<Rightarrow> bytes \<Rightarrow> GatewayNodeInfo \<Rightarrow> GatewayNodeInfo" where
  "gi_registerTopic nodeID topic g =
     (case map_of (gi_topicInfo g) nodeID of
        Some ts \<Rightarrow> if topic \<in> ts then g
                   else g\<lparr>gi_topicInfo := smap_put nodeID (insert topic ts) (gi_topicInfo g)\<rparr>
      | None \<Rightarrow> g\<lparr>gi_topicInfo := smap_put nodeID {topic} (gi_topicInfo g)\<rparr>)"

definition gi_unRegisterTopic :: "bytes \<Rightarrow> bytes \<Rightarrow> GatewayNodeInfo \<Rightarrow> GatewayNodeInfo" where
  "gi_unRegisterTopic nodeID topic g =
     (case map_of (gi_topicInfo g) nodeID of
        Some ts \<Rightarrow> if topic \<notin> ts then g
                   else g\<lparr>gi_topicInfo := smap_put nodeID (ts - {topic}) (gi_topicInfo g)\<rparr>
      | None \<Rightarrow> g)"

text \<open>The serialised object: the gateway's fields and the listed nodes' objects.\<close>

record raw_gateway =
  rg_p2pNodeID :: bytes
  rg_agency :: bytes
  rg_statusSeq :: u32
  rg_nodeList :: "raw_node list"

definition raw_gateway_of :: "GatewayNodeInfo \<Rightarrow> raw_gateway" where
  "raw_gateway_of g = \<lparr>rg_p2pNodeID = gi_p2pNodeID g, rg_agency = gi_agency g, rg_statusSeq = gi_statusSeq g,
     rg_nodeList = concat (map (\<lambda>k. case map_of (gi_nodeList g) k of None \<Rightarrow> [] | Some n \<Rightarrow> [raw_of n])
                             (gi_rawNodeList g))\<rparr>"

definition GatewayNodeInfo_encode :: "(raw_gateway \<Rightarrow> bytes) \<Rightarrow> GatewayNodeInfo \<Rightarrow> bytes" where
  "GatewayNodeInfo_encode pb g = pb (raw_gateway_of g)"

definition GatewayNodeInfo_decode ::
  "(bytes \<Rightarrow> raw_gateway option) \<Rightarrow> bytes \<Rightarrow> GatewayNodeInfo \<Rightarrow> GatewayNodeInfo option" where
  "GatewayNodeInfo_decode pb data g =
     map_option (\<lambda>r. g\<lparr>gi_p2pNodeID := rg_p2pNodeID r, gi_agency := rg_agency r,
       gi_statusSeq := rg_statusSeq r, gi_rawNodeList := map rn_nodeID (rg_nodeList r),
       gi_nodeList := fold (\<lambda>rn m. if map_of m (rn_nodeID rn) = None
                                    then smap_put (rn_nodeID rn) (NodeInfo_of_raw rn) m else m)
                        (rg_nodeList r) []\<rparr>) (pb data)"

section \<open>Choosing receivers\<close>

lemma choose_loop_all: "choose_loop True pick xs acc = acc @ List.map_filter pick xs"
  by (induction xs arbitrary: acc) (auto simp: List.map_filter_def split: option.splits)

lemma choose_loop_one: "choose_loop False pick xs [] = take 1 (List.map_filter pick xs)"
  by (induction xs) (auto simp: List.map_filter_def split: option.splits)

lemma choose_loop_nil:
  "choose_loop selectAll pick xs [] =
     (if selectAll then List.map_filter pick xs else take 1 (List.map_filter pick xs))"
  by (cases selectAll) (simp_all add: choose_loop_all choose_loop_one)

lemma set_map_filter: "set (List.map_filter f xs) = {y. \<exists>x \<in> set xs. f x = Some y}"
  by (induction xs) (auto simp: List.map_filter_def split: option.splits)

section \<open>The published list\<close>

definition node_ok :: "bytes \<Rightarrow> NodeInfo \<Rightarrow> bool" where
  "node_ok k n \<longleftrightarrow> ni_nodeID n = k \<and> finite (ni_components n) \<and>
     ni_rawComponents n = sorted_list_of_set (ni_components n)"

definition gi_inv :: "GatewayNodeInfo \<Rightarrow> bool" where
  "gi_inv g \<longleftrightarrow> smap_ok (gi_nodeList g) \<and> smap_ok (gi_topicInfo g) \<and>
     gi_rawNodeList g = map fst (gi_nodeList g) \<and>
     (\<forall>k n. map_of (gi_nodeList g) k = Some n \<longrightarrow> node_ok k n)"

lemma keys_put_existing: "map_of m k \<noteq> None \<Longrightarrow> smap_ok m \<Longrightarrow> map fst (smap_put k v m) = map fst m"
proof (induction k v m rule: smap_put.induct)
  case (2 k v a b m)
  then have m: "smap_ok m" and lt: "\<forall>x \<in> fst ` set m. a < x" by (simp_all add: smap_ok_def)
  show ?case
  proof (cases "k = a")
    case False
    with 2(2) have "map_of m k \<noteq> None" by simp
    then have "a < k" using lt by (force dest: map_of_SomeD)
    with 2 False m show ?thesis by simp
  qed simp
qed simp

lemma updateNodeList_inv:
  assumes "smap_ok (gi_nodeList g)" "smap_ok (gi_topicInfo g)"
    and "\<forall>k n. map_of (gi_nodeList g) k = Some n \<longrightarrow> ni_nodeID n = k \<and> finite (ni_components n)"
  shows "gi_inv (updateNodeList g)"
  using assms by (auto simp: gi_inv_def updateNodeList_def node_ok_def encodeFields_def)

lemma tryAdd_inv:
  assumes inv: "gi_inv g" and fin: "finite (ni_components info)"
  shows "gi_inv (snd (snd (tryAddNodeInfo info g)))"
proof -
  let ?k = "ni_nodeID info"
  have ok: "smap_ok (gi_nodeList g)" "smap_ok (gi_topicInfo g)"
    "\<forall>k n. map_of (gi_nodeList g) k = Some n \<longrightarrow> node_ok k n"
    using inv by (simp_all add: gi_inv_def)
  have enter: "gi_inv (updateNodeList (g\<lparr>gi_nodeList := smap_put ?k info (gi_nodeList g)\<rparr>))"
    using ok fin by (intro updateNodeList_inv) (auto simp: smap.ok_put map_of_smap_put node_ok_def)
  have keep: "gi_inv (g\<lparr>gi_nodeList := smap_put ?k n (gi_nodeList g)\<rparr>)"
    if "map_of (gi_nodeList g) ?k = Some old" "node_ok ?k n" for old n
    using inv that ok
    by (auto simp: gi_inv_def smap.ok_put map_of_smap_put keys_put_existing)
  show ?thesis
  proof (cases "map_of (gi_nodeList g) ?k")
    case None
    with enter show ?thesis by (simp add: tryAddNodeInfo_def nodeInfo_def Let_def)
  next
    case (Some old)
    then have "node_ok ?k old" using ok by blast
    then have upd: "node_ok ?k (encodeFields (old\<lparr>ni_meta := x, ni_components := c\<rparr>))" if "finite c" for x c
      using that by (simp add: node_ok_def encodeFields_def)
    show ?thesis
      using enter keep [OF Some] Some upd fin \<open>node_ok ?k old\<close>
      by (auto simp: tryAddNodeInfo_def nodeInfo_def Let_def setComponents_def copiedComponents_def
          node_ok_def encodeFields_def)
  qed
qed

lemma remove_inv: "gi_inv g \<Longrightarrow> gi_inv (removeNodeInfo k g)"
proof -
  assume inv: "gi_inv g"
  let ?g = "updateNodeList (g\<lparr>gi_nodeList := smap_erase k (gi_nodeList g)\<rparr>)"
  have "gi_inv ?g"
    using inv by (intro updateNodeList_inv)
      (auto simp: gi_inv_def smap.ok_erase map_of_smap_erase node_ok_def split: if_splits)
  with inv show ?thesis
    by (auto simp: removeNodeInfo_def Let_def gi_inv_def smap.ok_erase split: option.splits)
qed

lemma published_nodes:
  "gi_inv g \<Longrightarrow> rg_nodeList (raw_gateway_of g) = map (raw_of \<circ> snd) (gi_nodeList g)"
proof -
  assume inv: "gi_inv g"
  have "(case map_of (gi_nodeList g) k of None \<Rightarrow> [] | Some n \<Rightarrow> [raw_of n]) = [raw_of v]"
    if "(k, v) \<in> set (gi_nodeList g)" for k v
    using that inv by (simp add: gi_inv_def smap_ok_distinct)
  then have "concat (map (\<lambda>kn. case map_of (gi_nodeList g) (fst kn) of None \<Rightarrow> [] | Some n \<Rightarrow> [raw_of n])
      (gi_nodeList g)) = concat (map (\<lambda>kn. [raw_of (snd kn)]) (gi_nodeList g))"
    by (intro arg_cong [of _ _ concat] map_cong refl) (metis prod.collapse)
  then show ?thesis using inv by (simp add: raw_gateway_of_def gi_inv_def comp_def)
qed

text \<open>
  (C34) What a gateway publishes is what it knows. Entering, updating and removing nodes keep the
  protobuf list equal to the node map, with every node's current meta data and components; entering a
  node makes it known under its id, and removing it forgets the node and its topics.
\<close>

theorem published_list_current:
  assumes inv: "gi_inv g" and fin: "finite (ni_components info)"
  defines "g' \<equiv> snd (snd (tryAddNodeInfo info g))" and "g'' \<equiv> removeNodeInfo (ni_nodeID info) g"
  shows "gi_inv g' \<and> gi_inv g'' \<and>
    (\<exists>n. nodeInfo g' (ni_nodeID info) = Some n \<and> ni_endPoint n = ni_endPoint info \<and>
       ni_meta n = ni_meta info \<and> ni_components n = ni_components info \<and>
       raw_of n \<in> set (rg_nodeList (raw_gateway_of g')) \<and>
       rn_components (raw_of n) = sorted_list_of_set (ni_components info)) \<and>
    nodeInfo g'' (ni_nodeID info) = None \<and>
    (nodeInfo g (ni_nodeID info) \<noteq> None \<longrightarrow> map_of (gi_topicInfo g'') (ni_nodeID info) = None) \<and>
    ni_nodeID info \<notin> rn_nodeID ` set (rg_nodeList (raw_gateway_of g''))"
proof -
  let ?k = "ni_nodeID info"
  have i: "gi_inv g'" "gi_inv g''" using tryAdd_inv [OF inv fin] remove_inv [OF inv] by (simp_all add: g'_def g''_def)
  have fin_old: "finite (ni_components old)" if "map_of (gi_nodeList g) ?k = Some old" for old
    using inv that by (auto simp: gi_inv_def node_ok_def)
  have same: "sorted_list_of_set A = sorted_list_of_set B \<Longrightarrow> finite A \<Longrightarrow> finite B \<Longrightarrow> A = B" for A B :: "bytes set"
    by (metis set_sorted_list_of_set)
  have "\<exists>n. nodeInfo g' ?k = Some n \<and> ni_endPoint n = ni_endPoint info \<and>
       ni_meta n = ni_meta info \<and> ni_components n = ni_components info"
    using fin fin_old
    by (auto simp: g'_def tryAddNodeInfo_def nodeInfo_def Let_def updateNodeList_def map_of_smap_put
        encodeFields_def setComponents_def copiedComponents_def node_equal_def dest!: same
        split: option.splits)
  then obtain n where n: "nodeInfo g' ?k = Some n" "ni_endPoint n = ni_endPoint info"
    "ni_meta n = ni_meta info" "ni_components n = ni_components info" by blast
  have "node_ok ?k n" using i(1) n(1) by (auto simp: gi_inv_def nodeInfo_def)
  then have "rn_components (raw_of n) = sorted_list_of_set (ni_components info)"
    using n(4) by (simp add: raw_of_def node_ok_def)
  moreover have "raw_of n \<in> set (rg_nodeList (raw_gateway_of g'))"
    using n(1) unfolding published_nodes [OF i(1)] nodeInfo_def by (force dest: map_of_SomeD)
  moreover have "nodeInfo g'' ?k = None"
    by (auto simp: g''_def removeNodeInfo_def nodeInfo_def Let_def updateNodeList_def map_of_smap_erase
        split: option.splits)
  moreover have "?k \<notin> rn_nodeID ` set (rg_nodeList (raw_gateway_of g''))"
  proof -
    have "ni_nodeID v \<noteq> ?k" if "(k, v) \<in> set (gi_nodeList g'')" for k v
      using that i(2) \<open>nodeInfo g'' ?k = None\<close>
      by (auto simp: gi_inv_def nodeInfo_def node_ok_def smap_ok_distinct dest!: map_of_is_SomeI [rotated])
    then show ?thesis unfolding published_nodes [OF i(2)] by (fastforce simp: raw_of_def)
  qed
  moreover have "nodeInfo g ?k \<noteq> None \<longrightarrow> map_of (gi_topicInfo g'') ?k = None"
    by (auto simp: g''_def removeNodeInfo_def Let_def map_of_smap_erase updateNodeList_def)
  ultimately show ?thesis using i n by blast
qed

definition sample_node :: "bytes \<Rightarrow> bytes set \<Rightarrow> NodeInfo" where
  "sample_node k cs = encodeFields ((new_NodeInfo k (k @ '':80''))\<lparr>ni_components := cs, ni_front := Some (k @ '':80'')\<rparr>)"

definition sample_gateway :: GatewayNodeInfo where
  "sample_gateway = (new_GatewayNodeInfo ''gw'' ''bank'')
     \<lparr>gi_rawNodeList := [''n1'', ''n2''],
      gi_nodeList := [(''n1'', sample_node ''n1'' {''psi''}), (''n2'', sample_node ''n2'' {''pir'', ''psi''})],
      gi_topicInfo := [(''n2'', {''job''})]\<rparr>"

lemma sample_gateway_inv: "gi_inv sample_gateway"
  by (auto simp: gi_inv_def sample_gateway_def new_GatewayNodeInfo_def sample_node_def new_NodeInfo_def
      encodeFields_def node_ok_def smap_ok_def split: if_splits)

theorem published_list_current_witness:
  "gi_inv sample_gateway \<and> finite (ni_components (sample_node ''n1'' {''pir''})) \<and>
   (\<exists>n. nodeInfo (snd (snd (tryAddNodeInfo (sample_node ''n1'' {''pir''}) sample_gateway))) ''n1'' = Some n \<and>
      ni_components n = {''pir''} \<and> rn_components (raw_of n) = [''pir'']) \<and>
   nodeInfo (removeNodeInfo ''n1'' sample_gateway) ''n1'' = None"
proof -
  have s: "ni_nodeID (sample_node ''n1'' {''pir''}) = ''n1''" "ni_components (sample_node ''n1'' {''pir''}) = {''pir''}"
    by (simp_all add: sample_node_def new_NodeInfo_def encodeFields_def)
  show ?thesis
    using published_list_current [OF sample_gateway_inv, of "sample_node ''n1'' {''pir''}"] sample_gateway_inv s
    by auto
qed

lemma rebuild_nodes:
  assumes "sorted_wrt (<) (map fst m @ map rn_nodeID rs)"
  shows "fold (\<lambda>rn m. if map_of m (rn_nodeID rn) = None
            then smap_put (rn_nodeID rn) (NodeInfo_of_raw rn) m else m) rs m =
         m @ map (\<lambda>rn. (rn_nodeID rn, NodeInfo_of_raw rn)) rs"
  using assms
proof (induction rs arbitrary: m)
  case (Cons r rs)
  have lt: "\<forall>x \<in> fst ` set m. x < rn_nodeID r" using Cons.prems by (auto simp: sorted_wrt_append)
  then have "map_of m (rn_nodeID r) = None" by (auto simp: map_of_eq_None_iff)
  moreover have "smap_put (rn_nodeID r) v m = m @ [(rn_nodeID r, v)]" for v :: NodeInfo
    using lt by (induction "rn_nodeID r" v m rule: smap_put.induct) auto
  ultimately show ?case using Cons.IH [of "m @ [(rn_nodeID r, NodeInfo_of_raw r)]"] Cons.prems by simp
qed simp

lemma gateway_decode_encode:
  assumes pb: "\<And>r. pb_read (pb_write r) = Some r" and inv: "gi_inv g"
  shows "\<exists>h. GatewayNodeInfo_decode pb_read (GatewayNodeInfo_encode pb_write g) g0 = Some h \<and>
    gi_p2pNodeID h = gi_p2pNodeID g \<and> gi_agency h = gi_agency g \<and> gi_statusSeq h = gi_statusSeq g \<and>
    gi_nodeList h = map (\<lambda>(k, n). (k, n\<lparr>ni_front := None\<rparr>)) (gi_nodeList g) \<and>
    gi_topicInfo h = gi_topicInfo g0"
proof -
  let ?rs = "map (raw_of \<circ> snd) (gi_nodeList g)"
  have ok: "node_ok k n" if "(k, n) \<in> set (gi_nodeList g)" for k n
    using that inv by (auto simp: gi_inv_def smap_ok_distinct)
  have keys: "map rn_nodeID ?rs = map fst (gi_nodeList g)"
    using ok by (auto simp: raw_of_def node_ok_def)
  have same: "NodeInfo_of_raw (raw_of n) = n\<lparr>ni_front := None\<rparr>" if "(k, n) \<in> set (gi_nodeList g)" for k n
    using ok [OF that] by (simp add: NodeInfo_of_raw_def raw_of_def decodeFields_def node_ok_def)
  have "fold (\<lambda>rn m. if map_of m (rn_nodeID rn) = None
            then smap_put (rn_nodeID rn) (NodeInfo_of_raw rn) m else m) ?rs [] =
      map (\<lambda>rn. (rn_nodeID rn, NodeInfo_of_raw rn)) ?rs"
    using rebuild_nodes [of "[]" ?rs] inv unfolding keys by (simp add: gi_inv_def smap_ok_def)
  also have "\<dots> = map (\<lambda>(k, n). (k, n\<lparr>ni_front := None\<rparr>)) (gi_nodeList g)"
    using ok same by (auto simp: raw_of_def node_ok_def)
  finally show ?thesis
    using published_nodes [OF inv]
    by (simp add: GatewayNodeInfo_decode_def GatewayNodeInfo_encode_def pb) (simp add: raw_gateway_of_def)
qed

text \<open>
  A gateway that receives the serialised description rebuilds it: same gateway id, agency and
  sequence number, and the same nodes in the same order with their endpoints, meta data and
  components, without a front. The protobuf reader is any function that inverts the writer.
\<close>

theorem gateway_info_roundtrip:
  assumes pb: "\<And>r. pb_read (pb_write r) = Some r" and inv: "gi_inv g"
  shows "\<exists>h. GatewayNodeInfo_decode pb_read (GatewayNodeInfo_encode pb_write g) g0 = Some h \<and>
    gi_p2pNodeID h = gi_p2pNodeID g \<and> gi_agency h = gi_agency g \<and> gi_statusSeq h = gi_statusSeq g \<and>
    gi_nodeList h = map (\<lambda>(k, n). (k, n\<lparr>ni_front := None\<rparr>)) (gi_nodeList g) \<and>
    gi_topicInfo h = gi_topicInfo g0"
  by (rule gateway_decode_encode [OF pb inv])

definition put_node :: "raw_node \<Rightarrow> bytes" where
  "put_node n = put_bytes (rn_nodeID n) @ put_bytes (rn_endPoint n) @ put_bytes (rn_meta n) @
     put_many put_bytes (rn_components n)"

definition get_node :: "bytes \<Rightarrow> raw_node \<times> bytes" where
  "get_node bs =
     (let (i, b1) = get_bytes bs; (e, b2) = get_bytes b1; (m, b3) = get_bytes b2; (cs, b4) = get_many get_bytes b3
      in (\<lparr>rn_nodeID = i, rn_endPoint = e, rn_meta = m, rn_components = cs\<rparr>, b4))"

definition pb_write_gateway :: "raw_gateway \<Rightarrow> bytes" where
  "pb_write_gateway g = put_bytes (rg_p2pNodeID g) @ put_bytes (rg_agency g) @
     put_nat (unat (rg_statusSeq g)) @ put_many put_node (rg_nodeList g)"

definition pb_read_gateway :: "bytes \<Rightarrow> raw_gateway option" where
  "pb_read_gateway bs =
     (let (i, b1) = get_bytes bs; (a, b2) = get_bytes b1; (q, b3) = get_nat b2; (ns, b4) = get_many get_node b3
      in Some \<lparr>rg_p2pNodeID = i, rg_agency = a, rg_statusSeq = of_nat q, rg_nodeList = ns\<rparr>)"

lemma get_put_node: "get_node (put_node n @ r) = (n, r)"
  by (simp add: get_node_def put_node_def get_put_many)

lemma pb_read_write: "pb_read_gateway (pb_write_gateway g) = Some g"
  using get_put_many [of get_node put_node "rg_nodeList g" "[]"]
  by (simp add: pb_read_gateway_def pb_write_gateway_def get_put_node)

theorem gateway_info_roundtrip_witness:
  "(\<forall>r. pb_read_gateway (pb_write_gateway r) = Some r) \<and> gi_inv sample_gateway \<and>
   (\<exists>h. GatewayNodeInfo_decode pb_read_gateway (GatewayNodeInfo_encode pb_write_gateway sample_gateway)
           (new_GatewayNodeInfo [] []) = Some h \<and> gi_agency h = ''bank'' \<and> map fst (gi_nodeList h) = [''n1'', ''n2''])"
proof -
  have "gi_agency sample_gateway = ''bank''" "map fst (gi_nodeList sample_gateway) = [''n1'', ''n2'']"
    by (simp_all add: sample_gateway_def new_GatewayNodeInfo_def)
  then show ?thesis
    using gateway_info_roundtrip [OF pb_read_write sample_gateway_inv, of "new_GatewayNodeInfo [] []"]
      pb_read_write sample_gateway_inv
    by (auto simp: comp_def case_prod_beta)
qed

section \<open>Who receives\<close>

definition picks :: "bool \<Rightarrow> front list \<Rightarrow> front set \<Rightarrow> bool" where
  "picks all xs A \<longleftrightarrow> (if all then set xs = A else length xs \<le> 1 \<and> set xs \<subseteq> A \<and> (A \<noteq> {} \<longrightarrow> xs \<noteq> []))"

lemma pick: "set (List.map_filter p xs) = A \<Longrightarrow> picks all (choose_loop all p xs []) A"
  by (cases "List.map_filter p xs") (auto simp: picks_def choose_loop_nil)

text \<open>
  The choices of receivers. With \<open>selectAll\<close> exactly the fronts of the matching nodes are chosen;
  without it at most one of them, and one whenever there is any. Matching is: having the component;
  any node, for an agency; having registered the topic and not being the sender, for a topic; and any
  node for the empty topic, in which case all are chosen either way.
\<close>

theorem choose_receivers:
  fixes component topic fromNode :: bytes and all :: bool
  assumes inv: "gi_inv g"
  defines "cands \<equiv> \<lambda>P. {f. \<exists>k n. nodeInfo g k = Some n \<and> P k n \<and> ni_front n = Some f}"
  defines "byComponent \<equiv> cands (\<lambda>k n. component \<in> ni_components n)" and "byAgency \<equiv> cands (\<lambda>k n. True)"
    and "byTopic \<equiv> cands (\<lambda>k n. k \<noteq> fromNode \<and> (\<exists>ts. map_of (gi_topicInfo g) k = Some ts \<and> topic \<in> ts))"
  shows "picks all (chooseRouteByComponent all component g) byComponent \<and>
    picks all (chooseRouterByAgency all g) byAgency \<and>
    (topic \<noteq> [] \<longrightarrow> picks all (chooseRouterByTopic all fromNode topic g) byTopic) \<and>
    picks True (chooseRouterByTopic all fromNode [] g) byAgency"
proof -
  have look: "(k, n) \<in> set (gi_nodeList g) \<longleftrightarrow> nodeInfo g k = Some n" for k n
    using inv by (auto simp: gi_inv_def nodeInfo_def smap_ok_distinct dest: map_of_SomeD)
  have top: "(k, ts) \<in> set (gi_topicInfo g) \<longleftrightarrow> map_of (gi_topicInfo g) k = Some ts" for k ts
    using inv by (auto simp: gi_inv_def smap_ok_distinct dest: map_of_SomeD)
  have id: "ni_nodeID n = k" if "nodeInfo g k = Some n" for k n
    using that inv by (auto simp: gi_inv_def nodeInfo_def node_ok_def)
  have "picks all (chooseRouteByComponent all component g) byComponent"
    unfolding chooseRouteByComponent_def
    by (rule pick) (force simp: set_map_filter byComponent_def cands_def look [symmetric] split: if_splits)
  moreover have ag: "picks all' (choose_loop all' (\<lambda>(k, n). ni_front n) (gi_nodeList g) []) byAgency" for all'
    by (rule pick) (force simp: set_map_filter byAgency_def cands_def look [symmetric])
  moreover have "picks all (chooseRouterByTopic all fromNode topic g) byTopic" if "topic \<noteq> []"
  proof -
    define p where "p = (\<lambda>(k, ts). case (if topic \<in> ts then nodeInfo g k else None) of None \<Rightarrow> None
        | Some n \<Rightarrow> if ni_nodeID n \<noteq> fromNode then ni_front n else None)"
    have p: "p (k, ts) = Some f \<longleftrightarrow>
        topic \<in> ts \<and> k \<noteq> fromNode \<and> (\<exists>n. nodeInfo g k = Some n \<and> ni_front n = Some f)" for k ts f
      using id by (auto simp: p_def split: option.splits)
    have "set (List.map_filter p (gi_topicInfo g)) =
        {f. \<exists>k ts. (k, ts) \<in> set (gi_topicInfo g) \<and> p (k, ts) = Some f}"
      unfolding set_map_filter by auto
    also have "\<dots> = byTopic" unfolding p top byTopic_def cands_def by blast
    finally show ?thesis using that by (simp add: chooseRouterByTopic_def pick flip: p_def)
  qed
  ultimately show ?thesis
    by (simp add: chooseRouterByAgency_def chooseRouterByTopic_def)
qed

lemma two_entries:
  "a \<noteq> b \<Longrightarrow> (\<exists>k n. [a \<mapsto> A, b \<mapsto> B] k = Some n \<and> P k n) \<longleftrightarrow> P a A \<or> P b B"
  by (auto split: if_splits)

lemma sample_nodes:
  "nodeInfo sample_gateway = [''n1'' \<mapsto> sample_node ''n1'' {''psi''}, ''n2'' \<mapsto> sample_node ''n2'' {''pir'', ''psi''}]"
  by (simp add: nodeInfo_def sample_gateway_def fun_eq_iff)

theorem choose_receivers_witness:
  "gi_inv sample_gateway \<and>
   set (chooseRouteByComponent True ''psi'' sample_gateway) = {''n1:80'', ''n2:80''} \<and>
   chooseRouterByTopic False ''n1'' ''job'' sample_gateway \<noteq> [] \<and>
   set (chooseRouterByTopic True ''n2'' ''job'' sample_gateway) = {}"
proof -
  have look: "(\<exists>k n. nodeInfo sample_gateway k = Some n \<and> P k n) \<longleftrightarrow>
      P ''n1'' (sample_node ''n1'' {''psi''}) \<or> P ''n2'' (sample_node ''n2'' {''pir'', ''psi''})" for P
    unfolding sample_nodes by (rule two_entries) simp
  have n: "ni_front (sample_node k c) = Some (k @ '':80'')" "ni_components (sample_node k c) = c" for k c
    by (simp_all add: sample_node_def encodeFields_def)
  have t: "map_of (gi_topicInfo sample_gateway) k = Some ts \<longleftrightarrow> k = ''n2'' \<and> ts = {''job''}" for k ts
    by (auto simp: sample_gateway_def)
  have "set (chooseRouteByComponent True ''psi'' sample_gateway) = {''n1:80'', ''n2:80''}"
    using choose_receivers [OF sample_gateway_inv, of True "''psi''" "''job''" "''n2''"]
    unfolding picks_def look by (simp add: n) (simp add: set_eq_iff eq_commute)
  moreover have "chooseRouterByTopic False ''n1'' ''job'' sample_gateway \<noteq> []"
    using choose_receivers [OF sample_gateway_inv, of False "''psi''" "''job''" "''n1''"]
    unfolding picks_def look by (simp add: t n)
  moreover have "set (chooseRouterByTopic True ''n2'' ''job'' sample_gateway) = {}"
    using choose_receivers [OF sample_gateway_inv, of True "''psi''" "''job''" "''n2''"]
    unfolding picks_def look by (simp add: t)
  ultimately show ?thesis using sample_gateway_inv by blast
qed

end
