(* ===== verification/LocalRouter.thy ===== *)
theory LocalRouter
  imports GatewayNodeInfo MessageCodec
begin

text \<open>
  Delivery inside one agency: \<open>LocalRouter\<close> and \<open>MessageCache\<close> of
  wedpr-transport/ppc-gateway/ppc-gateway/gateway. A message goes to the fronts of the registered
  nodes that its route type selects; a message for a topic that nobody registered yet is held and
  delivered when a node registers the topic.

  Callbacks are numbered by the caller; \<open>CommonCallback\<close> is the logging callback that
  \<open>dispatcherMessage\<close> builds itself, \<open>NoCallback\<close> an empty \<open>std::function\<close>. The calls of a front's
  \<open>onReceiveMessage\<close> and of a callback are outputs. The timer of a held queue is the event
  \<open>cache_onTimer\<close>.

  Shown: the message cache is a \<open>holding_store\<close>; what dispatching does on every branch; that the
  caller's callback is used at most once; that held messages are delivered once, in order, when a
  receiver registers; and that a sender registering its own topic loses them.
\<close>

datatype receive_cb = NoCallback | Callback nat | CommonCallback

datatype lr_out =
    FrontReceive front Message receive_cb
  | InvokeCallback receive_cb "string option"

section \<open>The message cache\<close>

record MessageInfo =
  mi_msg :: Message
  mi_callback :: receive_cb

type_synonym msg_cache = "bytes \<rightharpoonup> MessageInfo list"

definition insertCache :: "bytes \<Rightarrow> MessageInfo \<Rightarrow> msg_cache \<Rightarrow> msg_cache" where
  "insertCache topic info c =
     (case c topic of
        Some queue \<Rightarrow> c(topic \<mapsto> queue @ [info])
      | None \<Rightarrow> c(topic \<mapsto> [info]))"

definition cache_pop :: "bytes \<Rightarrow> msg_cache \<Rightarrow> MessageInfo list option \<times> msg_cache" where
  "cache_pop topic c =
     (case c topic of
        None \<Rightarrow> (None, c)
      | Some queue \<Rightarrow> (Some queue, c(topic := None)))"

definition cache_onTimeout :: "MessageInfo list option \<Rightarrow> lr_out list" where
  "cache_onTimeout queue =
     (case queue of
        None \<Rightarrow> []
      | Some q \<Rightarrow> concat (map (\<lambda>i. if mi_callback i \<noteq> NoCallback
                                then [InvokeCallback (mi_callback i) (Some ''timeout'')] else []) q))"

text \<open>The timer handler that \<open>insertCache\<close> installs with a new queue.\<close>

definition cache_onTimer :: "bytes \<Rightarrow> msg_cache \<Rightarrow> msg_cache \<times> lr_out list" where
  "cache_onTimer topic c =
     (let (q, c') = cache_pop topic c
      in case q of None \<Rightarrow> (c', []) | Some _ \<Rightarrow> (c', cache_onTimeout q))"

definition cache_pending :: "msg_cache \<Rightarrow> bytes \<Rightarrow> MessageInfo list" where
  "cache_pending c topic = (case c topic of None \<Rightarrow> [] | Some q \<Rightarrow> q)"

interpretation cache: holding_store insertCache
  "\<lambda>k c. (case cache_pop k c of (q, c') \<Rightarrow> (case q of None \<Rightarrow> [] | Some ms \<Rightarrow> ms, c'))" cache_pending
  by unfold_locales
    (auto simp: insertCache_def cache_pop_def cache_pending_def split: option.splits if_splits)

section \<open>The local router\<close>

record LocalRouter =
  lr_routerInfo :: GatewayNodeInfo
  lr_statusSeq :: u32
  lr_cache :: "msg_cache option"

definition new_LocalRouter :: "bytes \<Rightarrow> bytes \<Rightarrow> bool \<Rightarrow> LocalRouter" where
  "new_LocalRouter p2pNodeID agency withCache =
     \<lparr>lr_routerInfo = new_GatewayNodeInfo p2pNodeID agency, lr_statusSeq = 1,
      lr_cache = (if withCache then Some Map.empty else None)\<rparr>"

definition increaseSeq :: "LocalRouter \<Rightarrow> LocalRouter" where
  "increaseSeq s = s\<lparr>lr_statusSeq := lr_statusSeq s + 1\<rparr>"

text \<open>
  A newly entered node gets the client that the front builder makes for its endpoint; the node
  object in the map is the one passed in, so setting its front afterwards sets it in the map.
\<close>

definition lr_registerNodeInfo ::
  "(bytes \<Rightarrow> front option) \<Rightarrow> NodeInfo \<Rightarrow> LocalRouter \<Rightarrow> bool \<times> LocalRouter" where
  "lr_registerNodeInfo buildClient info s =
     (let (ret, updated, g) = tryAddNodeInfo info (lr_routerInfo s);
          g' = (if ret then g\<lparr>gi_nodeList := smap_map (\<lambda>k n. if k = ni_nodeID info
                          then n\<lparr>ni_front := buildClient (ni_endPoint info)\<rparr> else n) (gi_nodeList g)\<rparr>
                else g);
          s' = s\<lparr>lr_routerInfo := g'\<rparr>
      in (ret, if ret \<or> updated then increaseSeq s' else s'))"

definition unRegisterNode :: "bytes \<Rightarrow> LocalRouter \<Rightarrow> LocalRouter" where
  "unRegisterNode nodeID s = increaseSeq (s\<lparr>lr_routerInfo := removeNodeInfo nodeID (lr_routerInfo s)\<rparr>)"

definition lr_unRegisterTopic :: "bytes \<Rightarrow> bytes \<Rightarrow> LocalRouter \<Rightarrow> LocalRouter" where
  "lr_unRegisterTopic nodeID topic s =
     s\<lparr>lr_routerInfo := gi_unRegisterTopic nodeID topic (lr_routerInfo s)\<rparr>"

definition generateNodeStatus :: "(raw_gateway \<Rightarrow> bytes) \<Rightarrow> LocalRouter \<Rightarrow> bytes \<times> LocalRouter" where
  "generateNodeStatus pb s =
     (let g = (lr_routerInfo s)\<lparr>gi_statusSeq := lr_statusSeq s\<rparr>
      in (GatewayNodeInfo_encode pb g, s\<lparr>lr_routerInfo := g\<rparr>))"

definition chooseReceiver :: "Message \<Rightarrow> LocalRouter \<Rightarrow> front list res" where
  "chooseReceiver m s =
     (let h = msg_header m; oh = mh_optionalField h; g = lr_routerInfo s;
          selectAll = (mh_packetType h = packetCode BroadcastMessage)
      in if oh_dstInst oh \<noteq> [] \<and> oh_dstInst oh \<noteq> gi_agency g then Inr []
         else case routeType h of
           ROUTE_THROUGH_NODEID \<Rightarrow>
             Inr (case nodeInfo g (oh_dstNode oh) of
                    None \<Rightarrow> []
                  | Some n \<Rightarrow> (case ni_front n of None \<Rightarrow> [] | Some f \<Rightarrow> [f]))
         | ROUTE_THROUGH_COMPONENT \<Rightarrow> Inr (chooseRouteByComponent selectAll (oh_componentType oh) g)
         | ROUTE_THROUGH_AGENCY \<Rightarrow> Inr (chooseRouterByAgency selectAll g)
         | ROUTE_THROUGH_TOPIC \<Rightarrow> Inr (chooseRouterByTopic selectAll (oh_srcNode oh) (oh_topic oh) g)
         | ROUTE_UNKNOWN _ \<Rightarrow> Inl (WeDPRException ''chooseReceiver failed for unknown routeType''))"

text \<open>The loop over the fronts: the first one gets the caller's callback, the others a logging one.\<close>

fun send_fronts :: "Message \<Rightarrow> receive_cb \<Rightarrow> front list \<Rightarrow> lr_out list" where
  "send_fronts m cb [] = []"
| "send_fronts m cb (f # fs) = FrontReceive f m cb # map (\<lambda>g. FrontReceive g m CommonCallback) fs"

definition dispatcherMessage ::
  "Message \<Rightarrow> receive_cb \<Rightarrow> bool \<Rightarrow> LocalRouter \<Rightarrow> (bool \<times> LocalRouter \<times> lr_out list) res" where
  "dispatcherMessage m callback holding s =
     rbind (chooseReceiver m s) (\<lambda>frontList.
       let oh = mh_optionalField (msg_header m) in
       if frontList \<noteq> [] then Inr (True, s, send_fronts m callback frontList)
       else if oh_topic oh = [] then Inr (False, s, [])
       else if \<not> holding then Inr (False, s, [])
       else case lr_cache s of
              Some c \<Rightarrow>
                if routeType (msg_header m) = ROUTE_THROUGH_TOPIC
                then Inr (True, s\<lparr>lr_cache := Some (insertCache (oh_topic oh)
                                    \<lparr>mi_msg = m, mi_callback = CommonCallback\<rparr> c)\<rparr>,
                          if callback \<noteq> NoCallback then [InvokeCallback callback None] else [])
                else Inr (False, s, [])
            | None \<Rightarrow> Inr (False, s, []))"

fun dispatch_all :: "MessageInfo list \<Rightarrow> LocalRouter \<Rightarrow> (LocalRouter \<times> lr_out list) res" where
  "dispatch_all [] s = Inr (s, [])"
| "dispatch_all (i # is) s =
     rbind (dispatcherMessage (mi_msg i) (mi_callback i) False s) (\<lambda>(_, s', o1).
       rbind (dispatch_all is s') (\<lambda>(s'', o2). Inr (s'', o1 @ o2)))"

definition lr_registerTopic :: "bytes \<Rightarrow> bytes \<Rightarrow> LocalRouter \<Rightarrow> (LocalRouter \<times> lr_out list) res" where
  "lr_registerTopic nodeID topic s =
     (let s1 = s\<lparr>lr_routerInfo := gi_registerTopic nodeID topic (lr_routerInfo s)\<rparr>
      in case lr_cache s1 of
           None \<Rightarrow> Inr (s1, [])
         | Some c \<Rightarrow>
             (case cache_pop topic c of
                (None, c') \<Rightarrow> Inr (s1\<lparr>lr_cache := Some c'\<rparr>, [])
              | (Some queue, c') \<Rightarrow> dispatch_all queue (s1\<lparr>lr_cache := Some c'\<rparr>)))"

section \<open>Dispatching\<close>

lemma chooseReceiver_total: "\<exists>fs. chooseReceiver m s = Inr fs"
  by (auto simp: chooseReceiver_def Let_def routeType_def)

definition cb_uses :: "receive_cb \<Rightarrow> lr_out list \<Rightarrow> nat" where
  "cb_uses cb outs = length (filter (\<lambda>out. case out of FrontReceive f m c \<Rightarrow> c = cb | InvokeCallback c e \<Rightarrow> c = cb) outs)"

lemma cb_uses_send: "cb \<noteq> CommonCallback \<Longrightarrow> cb_uses cb (send_fronts m cb fs) = (if fs = [] then 0 else 1)"
  by (cases fs) (auto simp: cb_uses_def filter_empty_conv)

text \<open>
  Dispatching a message. It never throws. If receivers are found, each of them gets the message
  once, the first with the caller's callback, and nothing is held. If none is found, a message for a
  non-empty topic routed by topic is held (when holding is asked for and there is a cache), answering
  the caller at once; any other message is refused without an effect. The caller's callback is used
  exactly once when the result is true and not at all when it is false.
\<close>

theorem dispatch_spec:
  "\<exists>fs ok s' outs. chooseReceiver m s = Inr fs \<and> dispatcherMessage m (Callback n) holding s = Inr (ok, s', outs) \<and>
     cb_uses (Callback n) outs = (if ok then 1 else 0) \<and>
     (if fs \<noteq> [] then ok \<and> s' = s \<and> outs = FrontReceive (hd fs) m (Callback n) #
                          map (\<lambda>f. FrontReceive f m CommonCallback) (tl fs)
      else let topic = oh_topic (mh_optionalField (msg_header m)) in
        if holding \<and> topic \<noteq> [] \<and> routeType (msg_header m) = ROUTE_THROUGH_TOPIC \<and> lr_cache s \<noteq> None
        then ok \<and> outs = [InvokeCallback (Callback n) None] \<and> lr_routerInfo s' = lr_routerInfo s \<and>
             map_option (\<lambda>c. cache_pending c t) (lr_cache s') =
               map_option (\<lambda>c. cache_pending c t @
                 (if t = topic then [\<lparr>mi_msg = m, mi_callback = CommonCallback\<rparr>] else [])) (lr_cache s)
        else \<not> ok \<and> s' = s \<and> outs = [])"
proof -
  obtain fs where fs: "chooseReceiver m s = Inr fs" using chooseReceiver_total by blast
  show ?thesis
  proof (cases fs)
    case (Cons f gs)
    then show ?thesis
      using fs cb_uses_send [of "Callback n" m fs] by (auto simp: dispatcherMessage_def Let_def)
  next
    case Nil
    then show ?thesis
      using fs by (cases "lr_cache s")
        (auto simp: dispatcherMessage_def Let_def cache.pending_hold cb_uses_def)
  qed
qed

section \<open>Held messages\<close>

text \<open>A message that is routed by the topic \<open>t\<close> and meant for this agency.\<close>

definition topic_message :: "bytes \<Rightarrow> bytes \<Rightarrow> Message \<Rightarrow> bool" where
  "topic_message agency t m \<longleftrightarrow> routeType (msg_header m) = ROUTE_THROUGH_TOPIC \<and>
     oh_topic (mh_optionalField (msg_header m)) = t \<and>
     oh_dstInst (mh_optionalField (msg_header m)) \<in> {[], agency}"

lemma choose_topic:
  "topic_message (gi_agency (lr_routerInfo s)) t m \<Longrightarrow>
   chooseReceiver m s = Inr (chooseRouterByTopic (mh_packetType (msg_header m) = packetCode BroadcastMessage)
     (oh_srcNode (mh_optionalField (msg_header m))) t (lr_routerInfo s))"
  by (auto simp: topic_message_def chooseReceiver_def Let_def)

lemma map_filter_none: "\<forall>x \<in> set xs. p x = None \<Longrightarrow> List.map_filter p xs = []"
  by (induction xs) (simp_all add: List.map_filter_def)

lemma choose_unregistered:
  assumes "t \<noteq> []" and "\<forall>k ts. (k, ts) \<in> set (gi_topicInfo g) \<longrightarrow> t \<notin> ts"
  shows "chooseRouterByTopic all src t g = []"
proof -
  have "List.map_filter (\<lambda>(k, ts). case (if t \<in> ts then nodeInfo g k else None) of None \<Rightarrow> None
      | Some n \<Rightarrow> if ni_nodeID n \<noteq> src then ni_front n else None) (gi_topicInfo g) = []"
    by (rule map_filter_none) (use assms(2) in auto)
  with assms(1) show ?thesis by (simp add: chooseRouterByTopic_def choose_loop_nil)
qed

lemma dispatch_none: "chooseReceiver m s = Inr [] \<Longrightarrow> dispatcherMessage m cb False s = Inr (False, s, [])"
  by (simp add: dispatcherMessage_def Let_def)

lemma dispatch_one:
  "chooseReceiver m s = Inr [f] \<Longrightarrow> dispatcherMessage m cb h s = Inr (True, s, [FrontReceive f m cb])"
  by (simp add: dispatcherMessage_def)

text \<open>
  A run of messages for an unregistered topic: all are held in order.
\<close>

fun dispatch_run :: "(Message \<times> nat) list \<Rightarrow> LocalRouter \<Rightarrow> (LocalRouter \<times> lr_out list) res" where
  "dispatch_run [] s = Inr (s, [])"
| "dispatch_run ((m, n) # ms) s =
     rbind (dispatcherMessage m (Callback n) True s) (\<lambda>(_, s', o1).
       rbind (dispatch_run ms s') (\<lambda>(s'', o2). Inr (s'', o1 @ o2)))"

lemma held_run:
  assumes "t \<noteq> []" and "\<forall>k ts. (k, ts) \<in> set (gi_topicInfo (lr_routerInfo s)) \<longrightarrow> t \<notin> ts"
    and "lr_cache s = Some c"
    and "\<forall>(m, n) \<in> set ms. topic_message (gi_agency (lr_routerInfo s)) t m"
  shows "\<exists>c'. dispatch_run ms s = Inr (s\<lparr>lr_cache := Some c'\<rparr>, map (\<lambda>(m, n). InvokeCallback (Callback n) None) ms) \<and>
    c' = fold (\<lambda>(k, v). insertCache k v)
           (map (\<lambda>(m, n). (t, \<lparr>mi_msg = m, mi_callback = CommonCallback\<rparr>)) ms) c"
  using assms
proof (induction ms arbitrary: s c)
  case (Cons mn ms)
  obtain m n where mn: "mn = (m, n)" by (cases mn)
  have tm: "topic_message (gi_agency (lr_routerInfo s)) t m" using Cons.prems(4) mn by simp
  let ?c = "insertCache t \<lparr>mi_msg = m, mi_callback = CommonCallback\<rparr> c"
  have d: "dispatcherMessage m (Callback n) True s = Inr (True, s\<lparr>lr_cache := Some ?c\<rparr>, [InvokeCallback (Callback n) None])"
    using tm Cons.prems(1-3) choose_topic [OF tm] choose_unregistered [OF Cons.prems(1,2)]
    by (simp add: dispatcherMessage_def topic_message_def)
  show ?case
    using Cons.IH [of "s\<lparr>lr_cache := Some ?c\<rparr>" ?c] Cons.prems d by (auto simp: mn)
qed simp

lemma map_filter_single:
  assumes "distinct (map fst xs)" and "(k, v) \<in> set xs" and "p (k, v) = Some f"
    and "\<forall>k' v'. (k', v') \<in> set xs \<and> k' \<noteq> k \<longrightarrow> p (k', v') = None"
  shows "List.map_filter p xs = [f]"
proof -
  obtain ys zs where xs: "xs = ys @ (k, v) # zs" using assms(2) by (meson split_list)
  have "\<forall>x \<in> set ys. p x = None" "\<forall>x \<in> set zs. p x = None"
    using assms(1,4) unfolding xs by force+
  then show ?thesis
    using assms(3) map_filter_none [of ys p] map_filter_none [of zs p]
    by (simp add: xs List.map_filter_def)
qed

lemma registered_topics:
  assumes "gi_inv g"
  shows "gi_inv (gi_registerTopic k t g)"
    and "\<exists>ts. map_of (gi_topicInfo (gi_registerTopic k t g)) k = Some ts \<and> t \<in> ts"
    and "k' \<noteq> k \<Longrightarrow> map_of (gi_topicInfo (gi_registerTopic k t g)) k' = map_of (gi_topicInfo g) k'"
    and "nodeInfo (gi_registerTopic k t g) = nodeInfo g"
    and "gi_agency (gi_registerTopic k t g) = gi_agency g"
  using assms by (auto simp: gi_registerTopic_def gi_inv_def nodeInfo_def smap.ok_put map_of_smap_put
      split: option.splits)

lemma registered_only:
  assumes t: "t \<noteq> []" and un: "\<forall>k ts. (k, ts) \<in> set (gi_topicInfo g) \<longrightarrow> t \<notin> ts" and inv: "gi_inv g"
    and n: "nodeInfo g k = Some n" "ni_front n = Some f"
  shows "chooseRouterByTopic all src t (gi_registerTopic k t g) = (if src = k then [] else [f])"
proof -
  let ?g = "gi_registerTopic k t g"
  note reg = registered_topics [OF inv, where k = k and t = t]
  define p where "p = (\<lambda>(k, ts). case (if t \<in> ts then nodeInfo ?g k else None) of None \<Rightarrow> None
     | Some n \<Rightarrow> if ni_nodeID n \<noteq> src then ni_front n else None)"
  have id: "ni_nodeID n = k" using inv n(1) by (auto simp: gi_inv_def nodeInfo_def node_ok_def)
  have ok: "smap_ok (gi_topicInfo ?g)" using reg(1) by (simp add: gi_inv_def)
  obtain ts where ts: "map_of (gi_topicInfo ?g) k = Some ts" "t \<in> ts" using reg(2) by blast
  have other: "p (k', v) = None" if "(k', v) \<in> set (gi_topicInfo ?g)" "k' \<noteq> k" for k' v
  proof -
    have "map_of (gi_topicInfo ?g) k' = Some v" using that(1) ok by (simp add: smap_ok_distinct)
    then have "(k', v) \<in> set (gi_topicInfo g)" using reg(3) that(2) by (auto dest: map_of_SomeD)
    with un show ?thesis by (auto simp: p_def)
  qed
  have mf: "List.map_filter p (gi_topicInfo ?g) = (if src = k then [] else [f])"
  proof (cases "src = k")
    case True
    have "p (k, v) = None" for v using n id True by (simp add: p_def reg(4))
    with other have "\<forall>x \<in> set (gi_topicInfo ?g). p x = None" by (metis surj_pair)
    with True show ?thesis by (simp add: map_filter_none)
  next
    case False
    have "p (k, ts) = Some f" using n id False ts(2) by (simp add: p_def reg(4))
    then have "List.map_filter p (gi_topicInfo ?g) = [f]"
      by (rule map_filter_single [OF smap_ok_distinct [OF ok] map_of_SomeD [OF ts(1)]])
        (use other in blast)
    with False show ?thesis by simp
  qed
  then show ?thesis
    using t by (simp add: chooseRouterByTopic_def choose_loop_nil flip: p_def)
qed

text \<open>
  (C17) Early messages are not lost. Messages for a topic that nobody registered are acknowledged and
  held; when a node with a front registers the topic, it receives all of them, each once and in the
  order they arrived, and the queue is gone. Messages that the registering node itself had sent are
  not among them: they leave the queue without being delivered to anyone.
\<close>

theorem held_messages_delivered:
  assumes t: "t \<noteq> []" and un: "\<forall>k ts. (k, ts) \<in> set (gi_topicInfo (lr_routerInfo s)) \<longrightarrow> t \<notin> ts"
    and inv: "gi_inv (lr_routerInfo s)" and c: "lr_cache s = Some c" "c t = None"
    and ms: "\<forall>(m, j) \<in> set ms. topic_message (gi_agency (lr_routerInfo s)) t m"
    and n: "nodeInfo (lr_routerInfo s) k = Some n" "ni_front n = Some f"
  shows "\<exists>s1 s2. dispatch_run ms s = Inr (s1, map (\<lambda>(m, j). InvokeCallback (Callback j) None) ms) \<and>
    lr_registerTopic k t s1 = Inr (s2, map (\<lambda>m. FrontReceive f m CommonCallback)
      (filter (\<lambda>m. oh_srcNode (mh_optionalField (msg_header m)) \<noteq> k) (map fst ms))) \<and>
    map_option (\<lambda>c. cache_pending c t) (lr_cache s2) = Some []"
proof -
  let ?q = "map (\<lambda>(m, j). \<lparr>mi_msg = m, mi_callback = CommonCallback\<rparr>) ms"
  define c' where "c' = fold (\<lambda>(k, v). insertCache k v)
           (map (\<lambda>(m, n). (t, \<lparr>mi_msg = m, mi_callback = CommonCallback\<rparr>)) ms) c"
  define s1 where "s1 = s\<lparr>lr_cache := Some c'\<rparr>"
  have run: "dispatch_run ms s = Inr (s1, map (\<lambda>(m, j). InvokeCallback (Callback j) None) ms)"
    using held_run [OF t un c(1) ms] by (simp add: s1_def c'_def)
  have pend: "cache_pending c' t = ?q"
    using cache.pending_holds [where kvs = "map (\<lambda>(m, n). (t, \<lparr>mi_msg = m, mi_callback = CommonCallback\<rparr>)) ms" and s = c and k = t] c(2)
    by (simp add: c'_def cache_pending_def filter_map comp_def case_prod_beta)
  let ?s = "s1\<lparr>lr_routerInfo := gi_registerTopic k t (lr_routerInfo s)\<rparr>"
  have ag: "gi_agency (lr_routerInfo ?s) = gi_agency (lr_routerInfo s)"
    using registered_topics(5) [OF inv] by simp
  have choose: "chooseReceiver m (?s\<lparr>lr_cache := d\<rparr>) =
      Inr (if oh_srcNode (mh_optionalField (msg_header m)) = k then [] else [f])"
    if "m \<in> set (map fst ms)" for m d
    using choose_topic [of "?s\<lparr>lr_cache := d\<rparr>" t m] that ms registered_only [OF t un inv n]
    by (auto simp: ag registered_topics(5) [OF inv])
  have all: "dispatch_all (map (\<lambda>(m, j). \<lparr>mi_msg = m, mi_callback = CommonCallback\<rparr>) xs) (?s\<lparr>lr_cache := d\<rparr>) =
      Inr (?s\<lparr>lr_cache := d\<rparr>, map (\<lambda>m. FrontReceive f m CommonCallback)
        (filter (\<lambda>m. oh_srcNode (mh_optionalField (msg_header m)) \<noteq> k) (map fst xs)))"
    if "set xs \<subseteq> set ms" for xs d
    using that
  proof (induction xs)
    case (Cons x xs)
    then have "fst x \<in> set (map fst ms)" by auto
    from choose [OF this, of d] Cons show ?case
      by (cases x, cases "oh_srcNode (mh_optionalField (msg_header (fst x))) = k")
        (simp_all add: dispatch_none dispatch_one)
  qed simp
  have reg: "lr_registerTopic k t s1 =
      (case cache_pop t c' of (None, c'') \<Rightarrow> Inr (?s\<lparr>lr_cache := Some c''\<rparr>, [])
       | (Some queue, c'') \<Rightarrow> dispatch_all queue (?s\<lparr>lr_cache := Some c''\<rparr>))"
    by (simp add: lr_registerTopic_def s1_def split: option.splits prod.splits)
  show ?thesis
  proof (cases "c' t")
    case None
    then have "ms = []" using pend by (simp add: cache_pending_def)
    with None run reg show ?thesis by (auto simp: cache_pop_def cache_pending_def s1_def)
  next
    case (Some q)
    then have "q = ?q" using pend by (simp add: cache_pending_def)
    with Some reg all [of ms "Some (c'(t := None))"] run show ?thesis
      by (auto simp: cache_pop_def cache_pending_def)
  qed
qed

definition topic_msg :: "bytes \<Rightarrow> bytes \<Rightarrow> Message" where
  "topic_msg t src = new_Message\<lparr>msg_header := new_MessageHeader\<lparr>mh_ext := extFlag RouteByTopic,
     mh_optionalField := new_MessageOptionalHeader\<lparr>oh_topic := t, oh_srcNode := src\<rparr>\<rparr>\<rparr>"

theorem held_messages_delivered_witness:
  defines "s \<equiv> \<lparr>lr_routerInfo = sample_gateway, lr_statusSeq = 1, lr_cache = Some Map.empty\<rparr>"
    and "a \<equiv> topic_msg ''new'' ''other''" and "b \<equiv> topic_msg ''new'' ''n1''"
  shows "\<exists>s1 s2. dispatch_run [(a, 0), (b, 1), (a, 2)] s = Inr (s1, map (\<lambda>j. InvokeCallback (Callback j) None) [0, 1, 2]) \<and>
    lr_registerTopic ''n1'' ''new'' s1 = Inr (s2, [FrontReceive ''n1:80'' a CommonCallback, FrontReceive ''n1:80'' a CommonCallback])"
proof -
  have tm: "topic_message x ''new'' (topic_msg ''new'' y)" for x y
    by (simp add: topic_message_def topic_msg_def routeType_def new_MessageHeader_def new_MessageOptionalHeader_def)
  have src: "oh_srcNode (mh_optionalField (msg_header (topic_msg x y))) = y" for x y
    by (simp add: topic_msg_def)
  have n: "nodeInfo sample_gateway ''n1'' = Some (sample_node ''n1'' {''psi''})"
    "ni_front (sample_node ''n1'' {''psi''}) = Some ''n1:80''"
    by (simp_all add: sample_nodes sample_node_def encodeFields_def)
  have un: "\<forall>k ts. (k, ts) \<in> set (gi_topicInfo (lr_routerInfo s)) \<longrightarrow> ''new'' \<notin> ts"
    by (simp add: s_def sample_gateway_def)
  show ?thesis
    using held_messages_delivered [where s = s and t = "''new''" and c = Map.empty and k = "''n1''"
        and n = "sample_node ''n1'' {''psi''}" and f = "''n1:80''" and ms = "[(a, 0), (b, 1), (a, 2)]", OF _ un]
      sample_gateway_inv n tm
    by (auto simp: s_def src a_def b_def)
qed

section \<open>Registering nodes\<close>

lemma smap_put_same: "smap_ok m \<Longrightarrow> map_of m k = Some v \<Longrightarrow> smap_put k v m = m"
proof (induction k v m rule: smap_put.induct)
  case (2 k v a b m)
  have lt: "\<forall>x \<in> fst ` set m. a < x" and ok: "smap_ok m" using 2(2) by (simp_all add: smap_ok_def)
  show ?case
  proof (cases "k = a")
    case False
    then have "map_of m k = Some v" using 2(3) by simp
    moreover from this have "a < k" using lt by (force dest: map_of_SomeD)
    ultimately show ?thesis using 2(1) False ok by simp
  qed (use 2(3) in simp)
qed simp

definition same_node :: "NodeInfo \<Rightarrow> NodeInfo \<Rightarrow> bool" where
  "same_node old info \<longleftrightarrow> ni_endPoint old = ni_endPoint info \<and> ni_meta old = ni_meta info \<and>
     ni_components old = ni_components info"

lemma components_inj:
  "finite A \<Longrightarrow> finite B \<Longrightarrow> sorted_list_of_set A = sorted_list_of_set B \<longleftrightarrow> A = (B :: bytes set)"
  by (metis set_sorted_list_of_set)

lemma tryAdd_known:
  assumes inv: "gi_inv g" and fin: "finite (ni_components info)"
    and old: "nodeInfo g (ni_nodeID info) = Some old" "ni_endPoint old = ni_endPoint info"
  shows "tryAddNodeInfo info g =
    (if same_node old info then (False, False, g)
     else (False, True, g\<lparr>gi_nodeList := smap_put (ni_nodeID info)
       (encodeFields (old\<lparr>ni_meta := ni_meta info, ni_components := ni_components info\<rparr>)) (gi_nodeList g)\<rparr>))"
proof -
  have ok: "node_ok (ni_nodeID info) old" "smap_ok (gi_nodeList g)" "map_of (gi_nodeList g) (ni_nodeID info) = Some old"
    using inv old by (auto simp: gi_inv_def nodeInfo_def)
  have meta: "old\<lparr>ni_meta := ni_meta info\<rparr> = old" if "ni_meta info = ni_meta old" using that by simp
  have comp: "x\<lparr>ni_components := ni_components info\<rparr> = x" if "ni_components info = ni_components x" for x :: NodeInfo
    using that by simp
  have fo: "finite (ni_components old)" using ok(1) by (simp add: node_ok_def)
  show ?thesis
    using ok(1) old smap_put_same [OF ok(2,3)] meta comp
    by (auto simp: tryAddNodeInfo_def Let_def node_equal_def node_ok_def same_node_def copiedComponents_def
        setComponents_def components_inj [OF fin fo] fin)
qed

lemma tryAdd_unknown:
  "(case nodeInfo g (ni_nodeID info) of None \<Rightarrow> True | Some old \<Rightarrow> ni_nodeID old = ni_nodeID info \<and> ni_endPoint old \<noteq> ni_endPoint info) \<Longrightarrow>
   tryAddNodeInfo info g = (True, False, updateNodeList (g\<lparr>gi_nodeList := smap_put (ni_nodeID info) info (gi_nodeList g)\<rparr>))"
  by (auto simp: tryAddNodeInfo_def Let_def node_equal_def split: option.splits)

lemma front_set_inv:
  "gi_inv g \<Longrightarrow> gi_inv (g\<lparr>gi_nodeList := smap_map (\<lambda>k n. if k = i then n\<lparr>ni_front := f\<rparr> else n) (gi_nodeList g)\<rparr>)"
  by (auto simp: gi_inv_def node_ok_def)

text \<open>
  A registration decides what the gateway publishes and whom messages reach. An unknown node, or
  one with a new endpoint, is entered with the client that the front builder made for its endpoint. A
  registration that enters a node or changes a node's meta data or components raises the status
  number; a repeated registration changes nothing, so its sender can repeat it as a heartbeat.
\<close>

theorem register_node_spec:
  fixes mk :: "bytes \<Rightarrow> front option"
  assumes inv: "gi_inv (lr_routerInfo s)" and fin: "finite (ni_components info)"
  defines "r \<equiv> lr_registerNodeInfo mk info s"
    and "old \<equiv> nodeInfo (lr_routerInfo s) (ni_nodeID info)"
  shows "gi_inv (lr_routerInfo (snd r)) \<and>
    (fst r \<longleftrightarrow> (\<forall>n. old = Some n \<longrightarrow> ni_endPoint n \<noteq> ni_endPoint info)) \<and>
    (\<exists>n. nodeInfo (lr_routerInfo (snd r)) (ni_nodeID info) = Some n \<and> same_node n info \<and>
       ni_front n = (if fst r then mk (ni_endPoint info) else Option.bind old ni_front)) \<and>
    lr_statusSeq (snd r) = lr_statusSeq s + (if \<exists>n. old = Some n \<and> same_node n info then 0 else 1) \<and>
    lr_registerNodeInfo mk info (snd r) = (False, snd r)"
proof (cases "\<exists>n. old = Some n \<and> ni_endPoint n = ni_endPoint info")
  case True
  then obtain n where n: "nodeInfo (lr_routerInfo s) (ni_nodeID info) = Some n" "ni_endPoint n = ni_endPoint info"
    by (auto simp: old_def)
  show ?thesis
  proof (cases "same_node n info")
    case True
    then have r: "r = (False, s)" by (simp add: r_def lr_registerNodeInfo_def tryAdd_known [OF inv fin n])
    show ?thesis using r True n inv by (auto simp: old_def r_def)
  next
    case False
    let ?n = "encodeFields (n\<lparr>ni_meta := ni_meta info, ni_components := ni_components info\<rparr>)"
    have r: "r = (False, increaseSeq (s\<lparr>lr_routerInfo := (lr_routerInfo s)
        \<lparr>gi_nodeList := smap_put (ni_nodeID info) ?n (gi_nodeList (lr_routerInfo s))\<rparr>\<rparr>))"
      using False by (simp add: r_def lr_registerNodeInfo_def tryAdd_known [OF inv fin n])
    have i: "gi_inv (lr_routerInfo (snd r))"
      using tryAdd_inv [OF inv fin] False by (simp add: r increaseSeq_def tryAdd_known [OF inv fin n])
    have k: "nodeInfo (lr_routerInfo (snd r)) (ni_nodeID info) = Some ?n" "ni_endPoint ?n = ni_endPoint info" "same_node ?n info"
      using n by (simp_all add: r increaseSeq_def nodeInfo_def map_of_smap_put encodeFields_def same_node_def)
    have "lr_registerNodeInfo mk info (snd r) = (False, snd r)"
      using tryAdd_known [OF i fin k(1,2)] k(3) by (simp add: lr_registerNodeInfo_def)
    with i k n False show ?thesis
      by (simp add: r old_def) (simp add: encodeFields_def increaseSeq_def)
  qed
next
  case False
  have un: "case nodeInfo (lr_routerInfo s) (ni_nodeID info) of None \<Rightarrow> True
      | Some old \<Rightarrow> ni_nodeID old = ni_nodeID info \<and> ni_endPoint old \<noteq> ni_endPoint info"
    using False inv by (auto simp: old_def gi_inv_def nodeInfo_def node_ok_def split: option.splits)
  let ?g = "updateNodeList ((lr_routerInfo s)\<lparr>gi_nodeList := smap_put (ni_nodeID info) info (gi_nodeList (lr_routerInfo s))\<rparr>)"
  let ?n = "(encodeFields info)\<lparr>ni_front := mk (ni_endPoint info)\<rparr>"
  note add = tryAdd_unknown [OF un]
  have r: "r = (True, increaseSeq (s\<lparr>lr_routerInfo := ?g\<lparr>gi_nodeList := smap_map (\<lambda>k n. if k = ni_nodeID info
      then n\<lparr>ni_front := mk (ni_endPoint info)\<rparr> else n) (gi_nodeList ?g)\<rparr>\<rparr>))"
    by (simp add: r_def lr_registerNodeInfo_def add)
  have i: "gi_inv (lr_routerInfo (snd r))"
    using front_set_inv tryAdd_inv [OF inv fin] by (simp add: r increaseSeq_def add)
  have k: "nodeInfo (lr_routerInfo (snd r)) (ni_nodeID info) = Some ?n" "ni_endPoint ?n = ni_endPoint info" "same_node ?n info"
    by (simp_all add: r increaseSeq_def nodeInfo_def map_of_smap_put encodeFields_def same_node_def updateNodeList_def)
  have "lr_registerNodeInfo mk info (snd r) = (False, snd r)"
    using tryAdd_known [OF i fin k(1,2)] k(3) by (simp add: lr_registerNodeInfo_def)
  moreover have "fst r" "lr_statusSeq (snd r) = lr_statusSeq s + 1" by (simp_all add: r increaseSeq_def)
  ultimately show ?thesis using i k False by (auto simp: same_node_def)
qed

theorem register_node_spec_witness:
  defines "s \<equiv> \<lparr>lr_routerInfo = sample_gateway, lr_statusSeq = 1, lr_cache = None\<rparr>"
  shows "gi_inv (lr_routerInfo s) \<and> fst (lr_registerNodeInfo Some (new_NodeInfo ''n3'' ''e3'') s) \<and>
    lr_statusSeq (snd (lr_registerNodeInfo Some (new_NodeInfo ''n3'' ''e3'') s)) = 2"
proof -
  have i: "gi_inv (lr_routerInfo s)" by (simp add: s_def sample_gateway_inv)
  have n: "nodeInfo (lr_routerInfo s) ''n3'' = None" by (simp add: s_def sample_nodes)
  have "ni_nodeID (new_NodeInfo ''n3'' ''e3'') = ''n3''" "finite (ni_components (new_NodeInfo ''n3'' ''e3''))"
    by (simp_all add: new_NodeInfo_def)
  then show ?thesis
    using register_node_spec [OF i, of "new_NodeInfo ''n3'' ''e3''" Some] n i by (simp add: s_def)
qed

end
