(* ===== verification/PeerRouter.thy ===== *)
theory PeerRouter
  imports GatewayNodeInfo MessageCodec
begin

text \<open>
  What a gateway knows of the other gateways: \<open>PeerRouterTable\<close> of
  wedpr-transport/ppc-gateway/ppc-gateway/gateway/router. Two indexes are kept, from node ids and from
  agencies to the gateways behind which they are. A set of gateways is a \<open>std::set\<close> ordered by the
  gateway's node id with \<open>>\<close>: it is kept here as a map from that id, read from the largest id down.

  Shown: the two indexes together implement one abstract table that has the last announced description
  of every gateway; \<open>updateGatewayInfo\<close> and \<open>removeP2PID\<close> are its update and its removal, and the
  selections are what one would compute from it.
\<close>

type_synonym GatewayNodeInfos = "(bytes, GatewayNodeInfo) smap"

definition gws_list :: "GatewayNodeInfos \<Rightarrow> GatewayNodeInfo list" where
  "gws_list s = map snd (rev s)"

text \<open>\<open>std::set::insert\<close> keeps an element that is already there.\<close>

definition gws_insert :: "GatewayNodeInfo \<Rightarrow> GatewayNodeInfos \<Rightarrow> GatewayNodeInfos" where
  "gws_insert g s = (if map_of s (gi_p2pNodeID g) = None then smap_put (gi_p2pNodeID g) g s else s)"

record PeerRouterTable =
  pr_nodeID2GatewayInfos :: "(bytes, GatewayNodeInfos) smap"
  pr_agency2GatewayInfos :: "(bytes, GatewayNodeInfos) smap"

definition new_PeerRouterTable :: PeerRouterTable where
  "new_PeerRouterTable = \<lparr>pr_nodeID2GatewayInfos = [], pr_agency2GatewayInfos = []\<rparr>"

definition index_insert ::
  "bytes \<Rightarrow> GatewayNodeInfo \<Rightarrow> (bytes, GatewayNodeInfos) smap \<Rightarrow> (bytes, GatewayNodeInfos) smap" where
  "index_insert k g m =
     (case map_of m k of
        None \<Rightarrow> smap_put k (gws_insert g []) m
      | Some s \<Rightarrow> smap_put k (gws_insert g s) m)"

definition insertGatewayInfo :: "GatewayNodeInfo \<Rightarrow> PeerRouterTable \<Rightarrow> PeerRouterTable" where
  "insertGatewayInfo g t = t\<lparr>pr_nodeID2GatewayInfos :=
       fold (\<lambda>(k, n). index_insert k g) (gi_nodeList g) (pr_nodeID2GatewayInfos t),
     pr_agency2GatewayInfos := index_insert (gi_agency g) g (pr_agency2GatewayInfos t)\<rparr>"

text \<open>Both removals take the gateway out of every set and drop the sets that became empty.\<close>

definition index_remove :: "bytes \<Rightarrow> (bytes, GatewayNodeInfos) smap \<Rightarrow> (bytes, GatewayNodeInfos) smap" where
  "index_remove p m = filter (\<lambda>(k, s). s \<noteq> []) (smap_map (\<lambda>k s. smap_erase p s) m)"

definition removeP2PNodeIDFromNodeIDInfos :: "GatewayNodeInfo \<Rightarrow> PeerRouterTable \<Rightarrow> PeerRouterTable" where
  "removeP2PNodeIDFromNodeIDInfos g t =
     t\<lparr>pr_nodeID2GatewayInfos := index_remove (gi_p2pNodeID g) (pr_nodeID2GatewayInfos t)\<rparr>"

definition removeP2PNodeIDFromAgencyInfos :: "bytes \<Rightarrow> PeerRouterTable \<Rightarrow> PeerRouterTable" where
  "removeP2PNodeIDFromAgencyInfos p t =
     t\<lparr>pr_agency2GatewayInfos := index_remove p (pr_agency2GatewayInfos t)\<rparr>"

definition updateGatewayInfo :: "GatewayNodeInfo \<Rightarrow> PeerRouterTable \<Rightarrow> PeerRouterTable" where
  "updateGatewayInfo g t =
     insertGatewayInfo g (removeP2PNodeIDFromAgencyInfos (gi_p2pNodeID g) (removeP2PNodeIDFromNodeIDInfos g t))"

definition removeP2PID :: "bytes \<Rightarrow> PeerRouterTable \<Rightarrow> PeerRouterTable" where
  "removeP2PID p t =
     removeP2PNodeIDFromAgencyInfos p (removeP2PNodeIDFromNodeIDInfos (new_GatewayNodeInfo p []) t)"

definition pr_agencies :: "bytes list \<Rightarrow> PeerRouterTable \<Rightarrow> bytes set" where
  "pr_agencies components t =
     set (map fst (filter (\<lambda>(a, s). components = [] \<or>
       list_ex (\<lambda>g. list_ex (existComponent g) components) (gws_list s)) (pr_agency2GatewayInfos t)))"

definition selectRouterByNodeID :: "MessageOptionalHeader \<Rightarrow> PeerRouterTable \<Rightarrow> GatewayNodeInfos" where
  "selectRouterByNodeID r t =
     (case map_of (pr_nodeID2GatewayInfos t) (oh_dstNode r) of None \<Rightarrow> [] | Some s \<Rightarrow> s)"

definition selectRouterByAgency :: "MessageOptionalHeader \<Rightarrow> PeerRouterTable \<Rightarrow> GatewayNodeInfos" where
  "selectRouterByAgency r t =
     (case map_of (pr_agency2GatewayInfos t) (oh_dstInst r) of None \<Rightarrow> [] | Some s \<Rightarrow> s)"

definition selectComponentIn :: "bytes \<Rightarrow> GatewayNodeInfos \<Rightarrow> GatewayNodeInfos \<Rightarrow> GatewayNodeInfos" where
  "selectComponentIn component single chosen =
     fold (\<lambda>g c. if list_ex (\<lambda>(k, n). componentExist n component) (gi_nodeList g) then gws_insert g c else c)
       (gws_list single) chosen"

definition selectRouterByComponent :: "MessageOptionalHeader \<Rightarrow> PeerRouterTable \<Rightarrow> GatewayNodeInfos" where
  "selectRouterByComponent r t =
     (if oh_dstInst r \<noteq> []
      then (case map_of (pr_agency2GatewayInfos t) (oh_dstInst r) of
              None \<Rightarrow> []
            | Some s \<Rightarrow> selectComponentIn (oh_componentType r) s [])
      else fold (\<lambda>(a, s). selectComponentIn (oh_componentType r) s) (pr_agency2GatewayInfos t) [])"

definition selectRouter :: "RouteType \<Rightarrow> MessageOptionalHeader \<Rightarrow> PeerRouterTable \<Rightarrow> GatewayNodeInfos res" where
  "selectRouter rt r t =
     (case rt of
        ROUTE_THROUGH_NODEID \<Rightarrow> Inr (selectRouterByNodeID r t)
      | ROUTE_THROUGH_COMPONENT \<Rightarrow> Inr (selectRouterByComponent r t)
      | ROUTE_THROUGH_AGENCY \<Rightarrow> Inr (selectRouterByAgency r t)
      | ROUTE_THROUGH_TOPIC \<Rightarrow> Inr (selectRouterByAgency r t)
      | ROUTE_UNKNOWN _ \<Rightarrow>
          Inl (WeDPRException ''selectRouter failed for encounter unsupported routeType''))"

definition selectTargetNodes :: "RouteType \<Rightarrow> MessageOptionalHeader \<Rightarrow> PeerRouterTable \<Rightarrow> bytes list res" where
  "selectTargetNodes rt r t =
     rbind (selectRouter rt r t) (\<lambda>gs. Inr (sorted_list_of_set (set (concat (map (\<lambda>g.
       map fst (filter (\<lambda>(k, n). rt = ROUTE_THROUGH_COMPONENT \<longrightarrow> componentExist n (oh_componentType r))
                 (gi_nodeList g))) (gws_list gs))))))"

text \<open>
  \<open>asyncBroadcastMessage\<close> picks one gateway per agency with \<open>rand() % size\<close>; the random numbers are
  an argument, one per agency. A set of size 0 would be a division by zero.
\<close>

fun broadcast_targets :: "bytes \<Rightarrow> (bytes, GatewayNodeInfos) smap \<Rightarrow> (bytes \<Rightarrow> nat) \<Rightarrow> bytes list option" where
  "broadcast_targets self [] rnd = Some []"
| "broadcast_targets self ((a, s) # m) rnd =
     (if s = [] then None
      else let p = gi_p2pNodeID (gws_list s ! (rnd a mod length s))
           in map_option (\<lambda>ps. if p = self then ps else p # ps) (broadcast_targets self m rnd))"

section \<open>The abstract table\<close>

text \<open>
  The specification: the last description of every gateway, by its id. \<open>refines t A\<close> says that the
  indexes are well formed and hold exactly the entries of \<open>A\<close>.
\<close>

definition look2 :: "(bytes, GatewayNodeInfos) smap \<Rightarrow> bytes \<Rightarrow> bytes \<Rightarrow> GatewayNodeInfo option" where
  "look2 m k p = (case map_of m k of None \<Rightarrow> None | Some s \<Rightarrow> map_of s p)"

definition index_ok :: "(bytes, GatewayNodeInfos) smap \<Rightarrow> bool" where
  "index_ok m \<longleftrightarrow> smap_ok m \<and> (\<forall>k s. map_of m k = Some s \<longrightarrow> smap_ok s \<and> s \<noteq> [])"

definition refines :: "PeerRouterTable \<Rightarrow> (bytes \<rightharpoonup> GatewayNodeInfo) \<Rightarrow> bool" where
  "refines t A \<longleftrightarrow> index_ok (pr_nodeID2GatewayInfos t) \<and> index_ok (pr_agency2GatewayInfos t) \<and>
     (\<forall>p g. A p = Some g \<longrightarrow> gi_p2pNodeID g = p) \<and>
     (\<forall>k p g. look2 (pr_nodeID2GatewayInfos t) k p = Some g \<longleftrightarrow> A p = Some g \<and> nodeInfo g k \<noteq> None) \<and>
     (\<forall>a p g. look2 (pr_agency2GatewayInfos t) a p = Some g \<longleftrightarrow> A p = Some g \<and> gi_agency g = a)"

lemma put_not_nil: "smap_put k v m \<noteq> []"
  by (induction k v m rule: smap_put.induct) auto

lemma smap_ok_single: "smap_ok [(k, v)]"
  by (simp add: smap_ok_def)

lemma index_insert_ok: "index_ok m \<Longrightarrow> index_ok (index_insert k g m)"
  by (auto simp: index_ok_def index_insert_def gws_insert_def smap.ok_put map_of_smap_put put_not_nil smap_ok_single
      split: option.splits if_splits)

lemma look2_insert:
  "look2 (index_insert k g m) k' p =
     (if k' = k \<and> p = gi_p2pNodeID g \<and> look2 m k p = None then Some g else look2 m k' p)"
  by (auto simp: look2_def index_insert_def gws_insert_def map_of_smap_put split: option.splits)

lemma smap_filter_ok: "smap_ok m \<Longrightarrow> smap_ok (filter P m)"
  by (auto simp: smap_ok_def sorted_wrt_map intro: sorted_wrt_filter)

lemma map_of_filter_distinct:
  "distinct (map fst m) \<Longrightarrow>
   map_of (filter (\<lambda>(k, v). P v) m) k = (case map_of m k of None \<Rightarrow> None | Some v \<Rightarrow> if P v then Some v else None)"
  by (induction m) (auto simp: map_of_eq_None_iff image_iff split: option.splits)

lemma index_remove_ok: "index_ok m \<Longrightarrow> index_ok (index_remove p m)"
proof -
  assume ok: "index_ok m"
  then have sm: "smap_ok (smap_map (\<lambda>k s. smap_erase p s) m)" by (simp add: index_ok_def)
  show ?thesis
    using ok smap_ok_distinct [OF sm] smap_filter_ok [OF sm]
    by (auto simp: index_ok_def index_remove_def map_of_filter_distinct smap.ok_erase
        split: option.splits if_splits)
qed

lemma look2_remove:
  assumes "index_ok m"
  shows "look2 (index_remove p m) k q = (if q = p then None else look2 m k q)"
proof -
  have sm: "smap_ok (smap_map (\<lambda>k s. smap_erase p s) m)" using assms by (simp add: index_ok_def)
  have nil: "map_of s q = None" if "smap_erase p s = []" "q \<noteq> p" for s :: GatewayNodeInfos
    using map_of_smap_erase [of p s q] that by simp
  show ?thesis
    using nil by (auto simp: look2_def index_remove_def map_of_filter_distinct [OF smap_ok_distinct [OF sm]]
        map_of_smap_erase split: option.splits)
qed

lemma fold_index_ok: "index_ok m \<Longrightarrow> index_ok (fold (\<lambda>(k, n). index_insert k g) ns m)"
  by (induction ns arbitrary: m) (auto simp: index_insert_ok)

lemma look2_fold:
  "look2 (fold (\<lambda>(k, n). index_insert k g) ns m) k p =
     (if k \<in> fst ` set ns \<and> p = gi_p2pNodeID g \<and> look2 m k p = None then Some g else look2 m k p)"
proof (induction ns arbitrary: m)
  case (Cons kn ns)
  then show ?case by (cases kn) (auto simp: look2_insert split: if_splits)
qed simp

lemma refines_new: "refines new_PeerRouterTable Map.empty"
  by (simp add: refines_def new_PeerRouterTable_def index_ok_def look2_def)

lemma refines_remove:
  "refines t A \<Longrightarrow> refines (removeP2PID p t) (A(p := None))"
  by (auto simp: refines_def removeP2PID_def removeP2PNodeIDFromAgencyInfos_def
      removeP2PNodeIDFromNodeIDInfos_def new_GatewayNodeInfo_def index_remove_ok look2_remove)

lemma refines_update:
  assumes ref: "refines t A"
  shows "refines (updateGatewayInfo g t) (A(gi_p2pNodeID g \<mapsto> g))"
proof -
  let ?p = "gi_p2pNodeID g"
  let ?n = "index_remove ?p (pr_nodeID2GatewayInfos t)" and ?a = "index_remove ?p (pr_agency2GatewayInfos t)"
  have ok: "index_ok ?n" "index_ok ?a" using ref by (simp_all add: refines_def index_remove_ok)
  have ln: "look2 ?n k q = (if q = ?p then None else look2 (pr_nodeID2GatewayInfos t) k q)"
    and la: "look2 ?a k q = (if q = ?p then None else look2 (pr_agency2GatewayInfos t) k q)" for k q
    using ref by (simp_all add: refines_def look2_remove)
  have keys: "k \<in> fst ` set (gi_nodeList g) \<longleftrightarrow> nodeInfo g k \<noteq> None" for k
    by (simp add: nodeInfo_def map_of_eq_None_iff)
  have u: "updateGatewayInfo g t = \<lparr>pr_nodeID2GatewayInfos = fold (\<lambda>(k, n). index_insert k g) (gi_nodeList g) ?n,
      pr_agency2GatewayInfos = index_insert (gi_agency g) g ?a\<rparr>"
    by (simp add: updateGatewayInfo_def insertGatewayInfo_def removeP2PNodeIDFromAgencyInfos_def
        removeP2PNodeIDFromNodeIDInfos_def)
  show ?thesis
    using ref unfolding refines_def u PeerRouterTable.select_convs look2_fold look2_insert ln la keys
    using fold_index_ok [OF ok(1)] index_insert_ok [OF ok(2)] by auto
qed

text \<open>The table's history: descriptions announced by gateways, and gateways lost.\<close>

datatype pr_event = Announced GatewayNodeInfo | Lost bytes

fun pr_step :: "pr_event \<Rightarrow> PeerRouterTable \<Rightarrow> PeerRouterTable" where
  "pr_step (Announced g) t = updateGatewayInfo g t"
| "pr_step (Lost p) t = removeP2PID p t"

fun abs_step :: "pr_event \<Rightarrow> (bytes \<rightharpoonup> GatewayNodeInfo) \<Rightarrow> (bytes \<rightharpoonup> GatewayNodeInfo)" where
  "abs_step (Announced g) A = A(gi_p2pNodeID g \<mapsto> g)"
| "abs_step (Lost p) A = A(p := None)"

lemma refines_run: "refines t A \<Longrightarrow> refines (fold pr_step es t) (fold abs_step es A)"
proof (induction es arbitrary: t A)
  case (Cons e es)
  then show ?case by (cases e) (auto intro!: Cons.IH refines_update refines_remove)
qed simp

text \<open>
  (C18) The two indexes are one table: after any history of announcements and losses, the index by node
  id and the index by agency hold exactly what the abstract table holds, which has for every gateway
  its last announced description since it was last lost. In particular an agency or a node that a
  gateway no longer announces is no longer found through it.
\<close>

theorem peer_router_refines:
  defines "t \<equiv> \<lambda>es. fold pr_step es new_PeerRouterTable" and "A \<equiv> \<lambda>es. fold abs_step es Map.empty"
  shows "refines (t es) (A es) \<and>
    (look2 (pr_nodeID2GatewayInfos (t es)) k p = Some g \<longleftrightarrow> A es p = Some g \<and> nodeInfo g k \<noteq> None) \<and>
    (look2 (pr_agency2GatewayInfos (t es)) a p = Some g \<longleftrightarrow> A es p = Some g \<and> gi_agency g = a)"
  using refines_run [OF refines_new, of es] by (simp add: t_def A_def refines_def)

section \<open>Selecting gateways\<close>

lemma set_gws_list: "smap_ok s \<Longrightarrow> g \<in> set (gws_list s) \<longleftrightarrow> (\<exists>p. map_of s p = Some g)"
  by (force simp: gws_list_def smap_ok_distinct dest: map_of_SomeD)

lemma index_gws:
  assumes "index_ok m"
  shows "g \<in> set (gws_list (case map_of m k of None \<Rightarrow> [] | Some s \<Rightarrow> s)) \<longleftrightarrow> (\<exists>p. look2 m k p = Some g)"
proof (cases "map_of m k")
  case None
  then show ?thesis by (simp add: look2_def gws_list_def)
next
  case (Some s)
  then have "smap_ok s" using assms by (auto simp: index_ok_def)
  with Some show ?thesis by (simp add: look2_def set_gws_list)
qed

lemma look2_ex: "(\<exists>s. map_of m k = Some s \<and> map_of s p = Some g) \<longleftrightarrow> look2 m k p = Some g"
  by (simp add: look2_def split: option.splits)

lemma index_mem: "index_ok m \<Longrightarrow> (a, s) \<in> set m \<longleftrightarrow> map_of m a = Some s"
  by (auto simp: index_ok_def smap_ok_distinct dest: map_of_SomeD)

lemma fst_filter_mem: "a \<in> set (map fst (filter (\<lambda>(a, s). Q s) m)) \<longleftrightarrow> (\<exists>s. (a, s) \<in> set m \<and> Q s)"
  by force

lemma existComponent_alt:
  "list_ex (\<lambda>(k, n). componentExist n c) (gi_nodeList g) = existComponent g c"
  by (simp add: existComponent_def)

lemma fold_select:
  fixes P :: "GatewayNodeInfo \<Rightarrow> bool"
  assumes "\<forall>g \<in> set gs. A (gi_p2pNodeID g) = Some g" and "\<forall>p g. map_of ch p = Some g \<longrightarrow> A p = Some g"
    and "smap_ok ch"
  defines "r \<equiv> fold (\<lambda>g c. if P g then gws_insert g c else c) gs ch"
  shows "smap_ok r \<and> (\<forall>p g. map_of r p = Some g \<longleftrightarrow>
    map_of ch p = Some g \<or> (g \<in> set gs \<and> P g \<and> gi_p2pNodeID g = p))"
  using assms(1-3) unfolding r_def
proof (induction gs arbitrary: ch)
  case (Cons g gs)
  let ?ch = "if P g then gws_insert g ch else ch"
  have ok: "smap_ok ?ch" using Cons.prems(3) by (simp add: gws_insert_def smap.ok_put)
  have look: "map_of ?ch p = Some g' \<longleftrightarrow> map_of ch p = Some g' \<or> (g' = g \<and> P g \<and> gi_p2pNodeID g = p)" for p g'
    using Cons.prems(1,2) by (auto simp: gws_insert_def map_of_smap_put)
  have sub: "\<forall>p g'. map_of ?ch p = Some g' \<longrightarrow> A p = Some g'"
    unfolding look using Cons.prems(1,2) by auto
  have a: "\<forall>g \<in> set gs. A (gi_p2pNodeID g) = Some g" using Cons.prems(1) by simp
  show ?case using Cons.IH [OF a sub ok] look by auto
qed simp

lemma selectComponentIn_spec:
  assumes "\<forall>p g. map_of s p = Some g \<longrightarrow> A p = Some g" and "smap_ok s"
    and "\<forall>p g. map_of ch p = Some g \<longrightarrow> A p = Some g" and "smap_ok ch"
    and ids: "\<forall>p g. A p = Some g \<longrightarrow> gi_p2pNodeID g = p"
  shows "smap_ok (selectComponentIn c s ch) \<and> (\<forall>p g. map_of (selectComponentIn c s ch) p = Some g \<longleftrightarrow>
    map_of ch p = Some g \<or> (map_of s p = Some g \<and> existComponent g c))"
proof -
  have "\<forall>g \<in> set (gws_list s). A (gi_p2pNodeID g) = Some g"
    using assms(1,2) ids by (metis set_gws_list)
  from fold_select [OF this assms(3,4), of "\<lambda>g. existComponent g c"]
  show ?thesis
    using assms(1,2) ids unfolding selectComponentIn_def existComponent_alt by (auto simp: set_gws_list)
qed

lemma fold_agencies:
  assumes "\<forall>(a, s) \<in> set m. smap_ok s \<and> (\<forall>p g. map_of s p = Some g \<longrightarrow> A p = Some g)"
    and "\<forall>p g. map_of ch p = Some g \<longrightarrow> A p = Some g" and "smap_ok ch"
    and ids: "\<forall>p g. A p = Some g \<longrightarrow> gi_p2pNodeID g = p"
  shows "smap_ok (fold (\<lambda>(a, s). selectComponentIn c s) m ch) \<and>
    (\<forall>p g. map_of (fold (\<lambda>(a, s). selectComponentIn c s) m ch) p = Some g \<longleftrightarrow>
      map_of ch p = Some g \<or> (\<exists>(a, s) \<in> set m. map_of s p = Some g \<and> existComponent g c))"
  using assms(1-3)
proof (induction m arbitrary: ch)
  case (Cons as m)
  obtain a s where as: "as = (a, s)" by (cases as)
  have s: "smap_ok s" "\<forall>p g. map_of s p = Some g \<longrightarrow> A p = Some g" using Cons.prems(1) as by auto
  note step = selectComponentIn_spec [OF s(2,1) Cons.prems(2,3) ids, of c]
  have sub: "\<forall>p g. map_of (selectComponentIn c s ch) p = Some g \<longrightarrow> A p = Some g"
    using step s(2) Cons.prems(2) by auto
  have m: "\<forall>(a, s) \<in> set m. smap_ok s \<and> (\<forall>p g. map_of s p = Some g \<longrightarrow> A p = Some g)"
    using Cons.prems(1) by auto
  show ?case using Cons.IH [OF m sub] step by (auto simp: as)
qed simp

lemma select_component:
  assumes ref: "refines t A"
  shows "smap_ok (selectRouterByComponent r t) \<and>
    (\<forall>p g. map_of (selectRouterByComponent r t) p = Some g \<longleftrightarrow>
       A p = Some g \<and> existComponent g (oh_componentType r) \<and> (oh_dstInst r = [] \<or> gi_agency g = oh_dstInst r))"
proof -
  have ids: "\<forall>p g. A p = Some g \<longrightarrow> gi_p2pNodeID g = p" and ok: "index_ok (pr_agency2GatewayInfos t)"
    and look: "look2 (pr_agency2GatewayInfos t) a p = Some g \<longleftrightarrow> A p = Some g \<and> gi_agency g = a" for a p g
    using ref by (simp_all add: refines_def)
  have single: "smap_ok s \<and> (\<forall>p g. map_of s p = Some g \<longleftrightarrow> A p = Some g \<and> gi_agency g = a)"
    if "map_of (pr_agency2GatewayInfos t) a = Some s" for a s
    using look [of a] that ok by (auto simp: look2_def index_ok_def)
  show ?thesis
  proof (cases "oh_dstInst r = []")
    case False
    show ?thesis
    proof (cases "map_of (pr_agency2GatewayInfos t) (oh_dstInst r)")
      case None
      then show ?thesis using look [of "oh_dstInst r"] False
        by (auto simp: selectRouterByComponent_def look2_def)
    next
      case (Some s)
      have s: "\<forall>p g. map_of s p = Some g \<longrightarrow> A p = Some g" "smap_ok s" using single [OF Some] by auto
      have "smap_ok ([] :: GatewayNodeInfos)" by simp
      then show ?thesis
        using selectComponentIn_spec [OF s _ _ ids, of "[]" "oh_componentType r"] single [OF Some] False Some
        by (auto simp: selectRouterByComponent_def)
    qed
  next
    case True
    note mem = index_mem [OF ok]
    have all: "\<forall>(a, s) \<in> set (pr_agency2GatewayInfos t). smap_ok s \<and> (\<forall>p g. map_of s p = Some g \<longrightarrow> A p = Some g)"
      using single mem by auto
    have ex: "(\<exists>(a, s) \<in> set (pr_agency2GatewayInfos t). map_of s p = Some g \<and> Q) \<longleftrightarrow> A p = Some g \<and> Q" for p g Q
    proof -
      have "(\<exists>(a, s) \<in> set (pr_agency2GatewayInfos t). map_of s p = Some g \<and> Q) \<longleftrightarrow>
          (\<exists>a. \<exists>s. map_of (pr_agency2GatewayInfos t) a = Some s \<and> map_of s p = Some g) \<and> Q"
        using mem by auto
      then show ?thesis by (simp add: look2_ex look)
    qed
    show ?thesis
      using fold_agencies [OF all _ _ ids, of "[]" "oh_componentType r"] True
      by (simp add: selectRouterByComponent_def ex)
  qed
qed

text \<open>
  Selection computes what the abstract table says: by node id the gateways that announced the
  node, by agency or topic the gateways of that agency, by component the gateways with a node that has
  the component, restricted to the destination agency when one is given; an unknown route type is
  refused. The nodes selected for a component are exactly those that have it behind such gateways, and
  the agencies reported are those of the gateways with one of the components, or all.
\<close>

theorem select_router_spec:
  fixes r :: MessageOptionalHeader
  assumes ref: "refines t A"
  defines "gws \<equiv> \<lambda>rt. (case selectRouter rt r t of Inl e \<Rightarrow> None | Inr s \<Rightarrow> Some (set (gws_list s)))"
  shows "gws ROUTE_THROUGH_NODEID = Some {g. \<exists>p. A p = Some g \<and> nodeInfo g (oh_dstNode r) \<noteq> None} \<and>
    gws ROUTE_THROUGH_AGENCY = Some {g. \<exists>p. A p = Some g \<and> gi_agency g = oh_dstInst r} \<and>
    gws ROUTE_THROUGH_TOPIC = Some {g. \<exists>p. A p = Some g \<and> gi_agency g = oh_dstInst r} \<and>
    gws ROUTE_THROUGH_COMPONENT = Some {g. \<exists>p. A p = Some g \<and> existComponent g (oh_componentType r) \<and>
      (oh_dstInst r = [] \<or> gi_agency g = oh_dstInst r)} \<and>
    gws (ROUTE_UNKNOWN x) = None \<and>
    pr_agencies cs t = {gi_agency g | g. \<exists>p. A p = Some g \<and> (cs = [] \<or> (\<exists>c \<in> set cs. existComponent g c))}"
proof -
  have okn: "index_ok (pr_nodeID2GatewayInfos t)" and oka: "index_ok (pr_agency2GatewayInfos t)"
    and look: "look2 (pr_nodeID2GatewayInfos t) k p = Some g \<longleftrightarrow> A p = Some g \<and> nodeInfo g k \<noteq> None"
    and looka: "look2 (pr_agency2GatewayInfos t) a p = Some g \<longleftrightarrow> A p = Some g \<and> gi_agency g = a" for k a p g
    using ref by (simp_all add: refines_def)
  have "gws ROUTE_THROUGH_NODEID = Some {g. \<exists>p. A p = Some g \<and> nodeInfo g (oh_dstNode r) \<noteq> None}"
    using index_gws [OF okn, of _ "oh_dstNode r"]
    by (auto simp: gws_def selectRouter_def selectRouterByNodeID_def look)
  moreover have ag: "set (gws_list (selectRouterByAgency r t)) = {g. \<exists>p. A p = Some g \<and> gi_agency g = oh_dstInst r}"
    using index_gws [OF oka, of _ "oh_dstInst r"] by (auto simp: selectRouterByAgency_def looka)
  moreover have "gws ROUTE_THROUGH_COMPONENT = Some {g. \<exists>p. A p = Some g \<and> existComponent g (oh_componentType r) \<and>
      (oh_dstInst r = [] \<or> gi_agency g = oh_dstInst r)}"
    using select_component [OF ref, of r] by (auto simp: gws_def selectRouter_def set_gws_list)
  moreover have "pr_agencies cs t = {gi_agency g | g. \<exists>p. A p = Some g \<and> (cs = [] \<or> (\<exists>c \<in> set cs. existComponent g c))}"
  proof -
    note mem = index_mem [OF oka]
    have single: "smap_ok s \<and> s \<noteq> [] \<and> (\<forall>g. g \<in> set (gws_list s) \<longleftrightarrow> (\<exists>p. A p = Some g \<and> gi_agency g = a))"
      if "map_of (pr_agency2GatewayInfos t) a = Some s" for a s
      using looka [of a] that oka by (auto simp: look2_def index_ok_def set_gws_list)
    have ne: "gws_list s \<noteq> [] \<longleftrightarrow> s \<noteq> []" for s by (simp add: gws_list_def)
    let ?P = "\<lambda>g. cs = [] \<or> (\<exists>c \<in> set cs. existComponent g c)"
    have in_s: "(cs = [] \<or> list_ex (\<lambda>g. list_ex (existComponent g) cs) (gws_list s)) \<longleftrightarrow>
        (\<exists>g p. A p = Some g \<and> gi_agency g = a \<and> ?P g)"
      if "map_of (pr_agency2GatewayInfos t) a = Some s" for a s
    proof -
      have "gws_list s \<noteq> []" using single [OF that] ne by blast
      then have "(cs = [] \<or> list_ex (\<lambda>g. list_ex (existComponent g) cs) (gws_list s)) \<longleftrightarrow>
          (\<exists>g \<in> set (gws_list s). ?P g)"
        by (cases "gws_list s") (auto simp: list_ex_iff)
      also have "\<dots> \<longleftrightarrow> (\<exists>g p. A p = Some g \<and> gi_agency g = a \<and> ?P g)"
        using single [OF that] by blast
      finally show ?thesis .
    qed
    have key: "\<exists>s. map_of (pr_agency2GatewayInfos t) (gi_agency g) = Some s" if "A p = Some g" for g p
      using looka [of "gi_agency g" p g] that by (auto simp: look2_def split: option.splits)
    have "a \<in> pr_agencies cs t \<longleftrightarrow> (\<exists>s. map_of (pr_agency2GatewayInfos t) a = Some s \<and>
        (cs = [] \<or> list_ex (\<lambda>g. list_ex (existComponent g) cs) (gws_list s)))" for a
      unfolding pr_agencies_def fst_filter_mem mem ..
    then have "a \<in> pr_agencies cs t \<longleftrightarrow> (\<exists>g p. A p = Some g \<and> gi_agency g = a \<and> ?P g)" for a
      using in_s [of a] key by blast
    then show ?thesis by (intro set_eqI) (simp only: mem_Collect_eq, metis)
  qed
  ultimately show ?thesis
    by (simp add: gws_def selectRouter_def)
qed

theorem select_router_spec_witness:
  "refines (updateGatewayInfo sample_gateway new_PeerRouterTable) [''gw'' \<mapsto> sample_gateway] \<and>
   (\<exists>s. selectRouter ROUTE_THROUGH_COMPONENT (new_MessageOptionalHeader\<lparr>oh_componentType := ''pir''\<rparr>)
          (updateGatewayInfo sample_gateway new_PeerRouterTable) = Inr s \<and> set (gws_list s) = {sample_gateway}) \<and>
   pr_agencies [''nothing''] (updateGatewayInfo sample_gateway new_PeerRouterTable) = {}"
proof -
  have id: "gi_p2pNodeID sample_gateway = ''gw''" by (simp add: sample_gateway_def new_GatewayNodeInfo_def)
  have ref: "refines (updateGatewayInfo sample_gateway new_PeerRouterTable) [''gw'' \<mapsto> sample_gateway]"
    using refines_update [OF refines_new, of sample_gateway] by (simp add: id)
  have c: "existComponent sample_gateway ''pir''" "\<not> existComponent sample_gateway ''nothing''"
    by (simp_all add: existComponent_def sample_gateway_def componentExist_def sample_node_def encodeFields_def)
  have A: "(\<exists>p. [''gw'' \<mapsto> sample_gateway] p = Some g \<and> Q g) \<longleftrightarrow> g = sample_gateway \<and> Q g" for g Q
    by auto
  have "set (gws_list s) = {sample_gateway}"
    if "selectRouter ROUTE_THROUGH_COMPONENT (new_MessageOptionalHeader\<lparr>oh_componentType := ''pir''\<rparr>)
          (updateGatewayInfo sample_gateway new_PeerRouterTable) = Inr s" for s
    using select_router_spec [OF ref, of "new_MessageOptionalHeader\<lparr>oh_componentType := ''pir''\<rparr>" 0 "[]"] that c
    unfolding A by (auto simp: new_MessageOptionalHeader_def)
  moreover have "pr_agencies [''nothing''] (updateGatewayInfo sample_gateway new_PeerRouterTable) = {}"
    using select_router_spec [OF ref, of new_MessageOptionalHeader 0 "[''nothing'']"] c
    unfolding A by auto
  ultimately show ?thesis using ref by (simp add: selectRouter_def)
qed

text \<open>
  A broadcast reaches every other agency once: with the table in step with its specification no
  set is empty, so the random choice is defined; the targets are, agency by agency, one gateway of
  that agency (whichever the random numbers pick), without the node itself.
\<close>

theorem broadcast_one_per_agency:
  assumes ref: "refines t A"
  shows "\<exists>ps gs. broadcast_targets self (pr_agency2GatewayInfos t) rnd = Some ps \<and>
    map gi_agency gs = map fst (pr_agency2GatewayInfos t) \<and> distinct (map gi_agency gs) \<and>
    (\<forall>g \<in> set gs. A (gi_p2pNodeID g) = Some g) \<and>
    ps = filter (\<lambda>p. p \<noteq> self) (map gi_p2pNodeID gs)"
proof -
  let ?m = "pr_agency2GatewayInfos t"
  have ok: "index_ok ?m" and ids: "\<forall>p g. A p = Some g \<longrightarrow> gi_p2pNodeID g = p"
    and look: "look2 ?m a p = Some g \<longleftrightarrow> A p = Some g \<and> gi_agency g = a" for a p g
    using ref by (simp_all add: refines_def)
  have el: "s \<noteq> [] \<and> (\<forall>g \<in> set (gws_list s). A (gi_p2pNodeID g) = Some g \<and> gi_agency g = a)"
    if "(a, s) \<in> set ?m" for a s
  proof -
    have s: "map_of ?m a = Some s" using that index_mem [OF ok] by blast
    then have "smap_ok s" "s \<noteq> []" using ok by (auto simp: index_ok_def)
    moreover have "A p = Some g \<and> gi_agency g = a" if "map_of s p = Some g" for p g
      using look [of a p g] s that by (simp add: look2_def)
    ultimately show ?thesis using ids by (metis set_gws_list)
  qed
  have "\<exists>ps gs. broadcast_targets self m rnd = Some ps \<and> map gi_agency gs = map fst m \<and>
      (\<forall>g \<in> set gs. A (gi_p2pNodeID g) = Some g) \<and> ps = filter (\<lambda>p. p \<noteq> self) (map gi_p2pNodeID gs)"
    if "set m \<subseteq> set ?m" for m
    using that
  proof (induction m)
    case (Cons as m)
    obtain a s where as: "as = (a, s)" by (cases as)
    let ?g = "gws_list s ! (rnd a mod length s)"
    have s: "s \<noteq> []" "\<forall>g \<in> set (gws_list s). A (gi_p2pNodeID g) = Some g \<and> gi_agency g = a"
      using el [of a s] Cons.prems as by auto
    have "rnd a mod length s < length (gws_list s)" using s(1) by (simp add: gws_list_def)
    then have g: "A (gi_p2pNodeID ?g) = Some ?g" "gi_agency ?g = a" using s(2) nth_mem by blast+
    obtain ps gs where ih: "broadcast_targets self m rnd = Some ps" "map gi_agency gs = map fst m"
      "\<forall>g \<in> set gs. A (gi_p2pNodeID g) = Some g" "ps = filter (\<lambda>p. p \<noteq> self) (map gi_p2pNodeID gs)"
      using Cons by auto
    show ?case
      using ih g s(1) by (intro exI [of _ "if gi_p2pNodeID ?g = self then ps else gi_p2pNodeID ?g # ps"] exI [of _ "?g # gs"])
        (simp add: as Let_def)
  qed simp
  from this [of ?m] show ?thesis
    using ok by (metis index_ok_def smap_ok_distinct subset_refl)
qed

theorem broadcast_one_per_agency_witness:
  "refines (updateGatewayInfo sample_gateway new_PeerRouterTable) [''gw'' \<mapsto> sample_gateway] \<and>
   (\<exists>ps. broadcast_targets ''me'' (pr_agency2GatewayInfos (updateGatewayInfo sample_gateway new_PeerRouterTable)) (\<lambda>_. 7) = Some ps \<and>
      set ps \<subseteq> {''gw''})"
proof -
  have id: "gi_p2pNodeID sample_gateway = ''gw''" by (simp add: sample_gateway_def new_GatewayNodeInfo_def)
  have ref: "refines (updateGatewayInfo sample_gateway new_PeerRouterTable) [''gw'' \<mapsto> sample_gateway]"
    using refines_update [OF refines_new, of sample_gateway] by (simp add: id)
  show ?thesis
    using broadcast_one_per_agency [OF ref, of "''me''" "\<lambda>_. 7"] ref by (fastforce split: if_splits)
qed

end
