(* ===== verification/RouterTable.thy ===== *)
theory RouterTable
  imports StandIn
begin

text \<open>
  The distance-vector table of the peer-to-peer router:
  wedpr-transport/ppc-gateway/ppc-gateway/p2p/router/RouterTableImpl.cpp. Entries are kept in a
  \<open>std::map\<close> by destination; a distance of \<open>m_unreachableDistance\<close> (10) or more means unreachable.

  Shown: the table's invariant (keys are the entries' destinations, the node itself is never listed,
  the next hop is empty exactly for direct neighbours and for unreachable nodes) is kept by every
  operation as long as the distances that peers announce stay in a range; what \<open>update\<close> does to the
  announced destination and to the routes through it; that \<open>erase\<close> leaves no route through the lost
  neighbour and reports exactly the nodes that became unreachable; the round trip through the wire
  format; and what an announced distance of \<open>INT32_MAX\<close> does.
\<close>

section \<open>The table\<close>

record RouterTableEntry =
  re_dstNode :: bytes
  re_nextHop :: bytes
  re_distance :: int

record RouterTable =
  rt_nodeID :: bytes
  rt_routerEntries :: "(bytes, RouterTableEntry) smap"
  rt_unreachableDistance :: int

definition new_RouterTableEntry :: RouterTableEntry where
  "new_RouterTableEntry = \<lparr>re_dstNode = [], re_nextHop = [], re_distance = 0\<rparr>"

definition new_RouterTable :: RouterTable where
  "new_RouterTable = \<lparr>rt_nodeID = [], rt_routerEntries = [], rt_unreachableDistance = 10\<rparr>"

definition clearNextHop :: "RouterTableEntry \<Rightarrow> RouterTableEntry" where
  "clearNextHop e = e\<lparr>re_nextHop := []\<rparr>"

definition incDistance :: "int \<Rightarrow> RouterTableEntry \<Rightarrow> RouterTableEntry" where
  "incDistance d e = e\<lparr>re_distance := i32 (re_distance e + d)\<rparr>"

text \<open>
  The body of the loop of \<open>updateDistanceForAllRouterEntries\<close> for one entry, and the loop: every
  entry changes in place, and the destinations that end beyond the limit are added to
  \<open>_unreachableNodes\<close>.
\<close>

definition shiftDistance :: "int \<Rightarrow> bytes \<Rightarrow> int \<Rightarrow> RouterTableEntry \<Rightarrow> RouterTableEntry" where
  "shiftDistance unreachableDistance nextHop newDistance e =
     (if re_nextHop e = nextHop
      then let e' = e\<lparr>re_distance := i32 (newDistance + i32 (re_distance e - 1))\<rparr>
           in if re_distance e' \<ge> unreachableDistance then clearNextHop e' else e'
      else e)"

definition updateDistanceForAllRouterEntries ::
  "bytes set \<Rightarrow> bytes \<Rightarrow> int \<Rightarrow> RouterTable \<Rightarrow> bytes set \<times> RouterTable" where
  "updateDistanceForAllRouterEntries unreachableNodes nextHop newDistance t =
     (let shift = shiftDistance (rt_unreachableDistance t) nextHop newDistance;
          lost = filter (\<lambda>(k, e). re_nextHop e = nextHop \<and>
                           re_distance (shift e) \<ge> rt_unreachableDistance t) (rt_routerEntries t)
      in (unreachableNodes \<union> set (map (\<lambda>(k, e). re_dstNode e) lost),
          t\<lparr>rt_routerEntries := smap_map (\<lambda>k e. shift e) (rt_routerEntries t)\<rparr>))"

definition RouterTable_erase :: "bytes set \<Rightarrow> bytes \<Rightarrow> RouterTable \<Rightarrow> bool \<times> bytes set \<times> RouterTable" where
  "RouterTable_erase unreachableNodes p2pNodeID t =
     (let (updated, un, t') =
        (case map_of (rt_routerEntries t) p2pNodeID of
           None \<Rightarrow> (False, unreachableNodes, t)
         | Some e \<Rightarrow>
             let e' = clearNextHop (e\<lparr>re_distance := rt_unreachableDistance t\<rparr>)
             in (True, insert (re_dstNode e') unreachableNodes,
                 t\<lparr>rt_routerEntries := smap_put p2pNodeID e' (rt_routerEntries t)\<rparr>))
      in (updated, updateDistanceForAllRouterEntries un p2pNodeID (rt_unreachableDistance t) t'))"

text \<open>
  \<open>updateDstNodeEntry\<close>. The entry received is stored itself when the destination is new, with the
  next hop it came with when the update was generated by this node.
\<close>

definition updateDstNodeEntry :: "bytes \<Rightarrow> RouterTableEntry \<Rightarrow> RouterTable \<Rightarrow> bool \<times> RouterTable" where
  "updateDstNodeEntry generatedFrom entry t =
     (let dst = re_dstNode entry; ud = rt_unreachableDistance t;
          store = (\<lambda>e. t\<lparr>rt_routerEntries := smap_put dst e (rt_routerEntries t)\<rparr>);
          setHop = (\<lambda>e. if generatedFrom \<noteq> rt_nodeID t then e\<lparr>re_nextHop := generatedFrom\<rparr> else e)
      in if dst = rt_nodeID t then (False, t)
         else case map_of (rt_routerEntries t) dst of
           None \<Rightarrow> (True, store (setHop (incDistance 1 entry)))
         | Some cur \<Rightarrow>
             let distance = i32 (re_distance entry + 1) in
             if re_distance cur > distance
             then (True, store ((setHop cur)\<lparr>re_distance := distance\<rparr>))
             else if re_nextHop cur = generatedFrom
             then if re_distance cur = distance then (False, t)
                  else if re_distance cur \<ge> ud \<and> distance \<ge> ud then (False, t)
                  else let cur' = cur\<lparr>re_distance := distance\<rparr>
                       in (True, store (if re_distance cur' \<ge> ud then clearNextHop cur' else cur'))
             else (False, t))"

definition RouterTable_update ::
  "bytes set \<Rightarrow> bytes \<Rightarrow> RouterTableEntry \<Rightarrow> RouterTable \<Rightarrow> bool \<times> bytes set \<times> RouterTable" where
  "RouterTable_update unreachableNodes generatedFrom entry t =
     (let dst = re_dstNode entry; (ret, t1) = updateDstNodeEntry generatedFrom entry t
      in if \<not> ret then (False, unreachableNodes, t1)
         else case map_of (rt_routerEntries t1) dst of
           None \<Rightarrow> (False, unreachableNodes, t1)
         | Some cur \<Rightarrow>
             let newDistance = re_distance cur;
                 lost = newDistance \<ge> rt_unreachableDistance t1;
                 un = (if lost then insert dst unreachableNodes else unreachableNodes);
                 cur' = (if lost \<or> newDistance = 1 then clearNextHop cur else cur);
                 t2 = t1\<lparr>rt_routerEntries := smap_put dst cur' (rt_routerEntries t1)\<rparr>
             in (True, updateDistanceForAllRouterEntries un dst newDistance t2))"

definition getNextHop :: "RouterTable \<Rightarrow> bytes \<Rightarrow> bytes" where
  "getNextHop t nodeID =
     (case map_of (rt_routerEntries t) nodeID of
        None \<Rightarrow> []
      | Some e \<Rightarrow> if re_distance e \<ge> rt_unreachableDistance t then [] else re_nextHop e)"

definition getAllReachableNode :: "RouterTable \<Rightarrow> bytes set" where
  "getAllReachableNode t =
     set (map (\<lambda>(k, e). re_dstNode e)
       (filter (\<lambda>(k, e). re_distance e < rt_unreachableDistance t) (rt_routerEntries t)))"

text \<open>
  The wire format is generated from a tars definition: \<open>write\<close> and \<open>read\<close> are parameters, \<open>read\<close>
  gives no list when the tars stream throws. \<open>decode\<close> inserts without overwriting, so of two entries
  for one destination the first stays.
\<close>

definition RouterTable_encode :: "(RouterTableEntry list \<Rightarrow> bytes) \<Rightarrow> RouterTable \<Rightarrow> bytes" where
  "RouterTable_encode write t = write (map snd (rt_routerEntries t))"

definition RouterTable_decode ::
  "(bytes \<Rightarrow> RouterTableEntry list option) \<Rightarrow> bytes \<Rightarrow> RouterTable \<Rightarrow> RouterTable option" where
  "RouterTable_decode read data t =
     map_option (\<lambda>es. t\<lparr>rt_routerEntries :=
       fold (\<lambda>e m. if map_of m (re_dstNode e) = None then smap_put (re_dstNode e) e m else m) es []\<rparr>)
       (read data)"

definition createRouterTable :: "(bytes \<Rightarrow> RouterTableEntry list option) \<Rightarrow> bytes \<Rightarrow> RouterTable option" where
  "createRouterTable read data = RouterTable_decode read data new_RouterTable"

section \<open>The invariant\<close>

text \<open>
  \<open>entry_ok\<close> reads one entry of the table of node \<open>me\<close>: it has a next hop exactly when it is
  reachable and not a direct neighbour, and the next hop is neither the destination nor the node.
\<close>

definition entry_ok :: "bytes \<Rightarrow> int \<Rightarrow> bytes \<Rightarrow> RouterTableEntry \<Rightarrow> bool" where
  "entry_ok me ud k e \<longleftrightarrow>
     re_dstNode e = k \<and> k \<noteq> me \<and> k \<noteq> [] \<and> 1 \<le> re_distance e \<and> re_distance e < 2 ^ 31 \<and>
     (re_nextHop e = [] \<longleftrightarrow> re_distance e = 1 \<or> ud \<le> re_distance e) \<and>
     re_nextHop e \<noteq> k \<and> re_nextHop e \<noteq> me"

definition rt_inv :: "RouterTable \<Rightarrow> bool" where
  "rt_inv t \<longleftrightarrow> smap_ok (rt_routerEntries t) \<and> rt_nodeID t \<noteq> [] \<and> rt_unreachableDistance t = 10 \<and>
     list_all (\<lambda>(k, e). entry_ok (rt_nodeID t) (rt_unreachableDistance t) k e) (rt_routerEntries t)"

text \<open>
  What a node may receive: an entry of a peer's table for a destination other than the peer, with a
  distance that cannot overflow, or this node's own announcement of a session (distance 0).
\<close>

definition offer_ok :: "bytes \<Rightarrow> bytes \<Rightarrow> RouterTableEntry \<Rightarrow> bool" where
  "offer_ok me src e \<longleftrightarrow>
     re_dstNode e \<noteq> [] \<and> src \<noteq> [] \<and> re_dstNode e \<noteq> src \<and>
     (if src = me then re_distance e = 0 \<and> re_nextHop e = []
      else 1 \<le> re_distance e \<and> re_distance e < 2 ^ 31 - 10)"

lemma smap_get: "smap_ok m \<Longrightarrow> (k, v) \<in> set m \<longleftrightarrow> map_of m k = Some v"
  by (auto simp: smap_ok_distinct dest: map_of_SomeD)

lemma rt_inv_alt:
  "rt_inv t \<longleftrightarrow> smap_ok (rt_routerEntries t) \<and> rt_nodeID t \<noteq> [] \<and> rt_unreachableDistance t = 10 \<and>
     (\<forall>k e. map_of (rt_routerEntries t) k = Some e \<longrightarrow> entry_ok (rt_nodeID t) 10 k e)"
  unfolding rt_inv_def list_all_iff using smap_get [of "rt_routerEntries t"] by fastforce

text \<open>Reading the table after the loop and after the operations.\<close>

lemma updateDistance_simps [simp]:
  "rt_nodeID (snd (updateDistanceForAllRouterEntries U h d t)) = rt_nodeID t"
  "rt_unreachableDistance (snd (updateDistanceForAllRouterEntries U h d t)) = rt_unreachableDistance t"
  "smap_ok (rt_routerEntries (snd (updateDistanceForAllRouterEntries U h d t))) =
     smap_ok (rt_routerEntries t)"
  "map_of (rt_routerEntries (snd (updateDistanceForAllRouterEntries U h d t))) k =
     map_option (shiftDistance (rt_unreachableDistance t) h d) (map_of (rt_routerEntries t) k)"
  by (simp_all add: updateDistanceForAllRouterEntries_def Let_def)

lemma updateDistance_lost:
  assumes "smap_ok (rt_routerEntries t)"
    and "\<forall>k e. map_of (rt_routerEntries t) k = Some e \<longrightarrow> re_dstNode e = k"
  shows "fst (updateDistanceForAllRouterEntries U h d t) = U \<union>
    {k. \<exists>e. map_of (rt_routerEntries t) k = Some e \<and> re_nextHop e = h \<and>
        rt_unreachableDistance t \<le> re_distance (shiftDistance (rt_unreachableDistance t) h d e)}"
  using smap_get [OF assms(1)] assms(2)
  by (fastforce simp: updateDistanceForAllRouterEntries_def Let_def image_iff)

lemma shift_ok:
  assumes "entry_ok me 10 k e" and "me \<noteq> []" and "h \<noteq> []" and "1 \<le> d" and "d < 2 ^ 31 - 9"
  shows "entry_ok me 10 k (shiftDistance 10 h d e)"
proof (cases "re_nextHop e = h")
  case True
  with assms have "2 \<le> re_distance e" "re_distance e \<le> 9" by (auto simp: entry_ok_def)
  with True assms show ?thesis
    by (auto simp: shiftDistance_def entry_ok_def Let_def clearNextHop_def)
next
  case False
  with assms show ?thesis by (simp add: shiftDistance_def)
qed

lemma rt_inv_update_all:
  assumes "rt_inv t" and "h \<noteq> []" and "1 \<le> d" and "d < 2 ^ 31 - 9"
  shows "rt_inv (snd (updateDistanceForAllRouterEntries U h d t))"
  using assms by (auto simp: rt_inv_alt shift_ok)

lemma rt_inv_put:
  "rt_inv t \<Longrightarrow> entry_ok (rt_nodeID t) 10 k e \<Longrightarrow>
   rt_inv (t\<lparr>rt_routerEntries := smap_put k e (rt_routerEntries t)\<rparr>)"
  by (auto simp: rt_inv_alt smap.find_put smap.ok_put split: if_splits)

section \<open>What an announcement does\<close>

text \<open>
  The distance-vector rule as a specification: an announced distance is taken when the destination is
  unknown, when it is shorter than the known one, or when the known route already goes through the
  announcing neighbour.
\<close>

definition takes :: "RouterTable \<Rightarrow> bytes \<Rightarrow> RouterTableEntry \<Rightarrow> bool" where
  "takes t src e \<longleftrightarrow> re_dstNode e \<noteq> rt_nodeID t \<and>
     (case map_of (rt_routerEntries t) (re_dstNode e) of
        None \<Rightarrow> True
      | Some cur \<Rightarrow> re_distance e + 1 < re_distance cur \<or>
          re_nextHop cur = src \<and> re_distance e + 1 \<noteq> re_distance cur)"

definition taken_entry :: "bytes \<Rightarrow> RouterTableEntry \<Rightarrow> RouterTableEntry" where
  "taken_entry src e =
     (let d = re_distance e + 1 in
      \<lparr>re_dstNode = re_dstNode e, re_nextHop = (if d = 1 \<or> 10 \<le> d then [] else src), re_distance = d\<rparr>)"

lemma entry_eqI:
  "re_dstNode e = re_dstNode e' \<Longrightarrow> re_nextHop e = re_nextHop e' \<Longrightarrow> re_distance e = re_distance e' \<Longrightarrow>
   e = (e' :: RouterTableEntry)"
  by simp

lemma offer_bounds:
  "offer_ok me src e \<Longrightarrow> i32 (re_distance e + 1) = re_distance e + 1 \<and> 1 \<le> re_distance e + 1 \<and>
     re_distance e + 1 < 2 ^ 31 - 9"
  by (auto simp: offer_ok_def split: if_splits)

text \<open>After \<open>updateDstNodeEntry\<close> only the next hop of the destination may still have to be cleared.\<close>

lemma updateDstNodeEntry_spec:
  assumes inv: "rt_inv t" and offer: "offer_ok (rt_nodeID t) src e"
  shows "fst (updateDstNodeEntry src e t) = takes t src e"
    and "\<not> takes t src e \<Longrightarrow> snd (updateDstNodeEntry src e t) = t"
    and "takes t src e \<Longrightarrow> \<exists>c. snd (updateDstNodeEntry src e t) =
        t\<lparr>rt_routerEntries := smap_put (re_dstNode e) c (rt_routerEntries t)\<rparr> \<and>
        re_dstNode c = re_dstNode e \<and> re_distance c = re_distance e + 1 \<and>
        (re_distance c \<noteq> 1 \<and> re_distance c < 10 \<longrightarrow> re_nextHop c = src)"
proof -
  let ?dst = "re_dstNode e"
  have cur: "entry_ok (rt_nodeID t) 10 ?dst c" if "map_of (rt_routerEntries t) ?dst = Some c" for c
    using inv that by (auto simp: rt_inv_alt)
  have hop: "re_distance c < 10" if "map_of (rt_routerEntries t) ?dst = Some c" "re_nextHop c = src" for c
    using cur [OF that(1)] that(2) offer by (auto simp: entry_ok_def offer_ok_def)
  note [simp] = offer_bounds [OF offer]
  have ud: "rt_unreachableDistance t = 10" using inv by (simp add: rt_inv_alt)
  show "fst (updateDstNodeEntry src e t) = takes t src e"
    using hop by (auto simp: updateDstNodeEntry_def takes_def Let_def ud split: option.splits)
  show "\<not> takes t src e \<Longrightarrow> snd (updateDstNodeEntry src e t) = t"
    using hop by (auto simp: updateDstNodeEntry_def takes_def Let_def ud split: option.splits)
  show "takes t src e \<Longrightarrow> \<exists>c. snd (updateDstNodeEntry src e t) =
        t\<lparr>rt_routerEntries := smap_put (re_dstNode e) c (rt_routerEntries t)\<rparr> \<and>
        re_dstNode c = re_dstNode e \<and> re_distance c = re_distance e + 1 \<and>
        (re_distance c \<noteq> 1 \<and> re_distance c < 10 \<longrightarrow> re_nextHop c = src)"
  proof (cases "map_of (rt_routerEntries t) ?dst")
    case None
    assume "takes t src e"
    with None offer show ?thesis
      by (auto simp: updateDstNodeEntry_def takes_def Let_def incDistance_def offer_ok_def)
  next
    case (Some c)
    assume "takes t src e"
    with Some offer hop [OF Some] cur [OF Some] show ?thesis
      by (auto simp: updateDstNodeEntry_def takes_def Let_def ud offer_ok_def entry_ok_def
          clearNextHop_def)
  qed
qed

lemma update_rejected:
  "rt_inv t \<Longrightarrow> offer_ok (rt_nodeID t) src e \<Longrightarrow> \<not> takes t src e \<Longrightarrow>
   RouterTable_update U src e t = (False, U, t)"
  using updateDstNodeEntry_spec [of t src e]
  by (simp add: RouterTable_update_def Let_def split_beta)

lemma update_accepted:
  assumes inv: "rt_inv t" and offer: "offer_ok (rt_nodeID t) src e" and tk: "takes t src e"
  shows "RouterTable_update U src e t =
    (True, updateDistanceForAllRouterEntries
             (if 10 \<le> re_distance e + 1 then insert (re_dstNode e) U else U)
             (re_dstNode e) (re_distance e + 1)
             (t\<lparr>rt_routerEntries := smap_put (re_dstNode e) (taken_entry src e) (rt_routerEntries t)\<rparr>))"
proof -
  obtain c where c: "snd (updateDstNodeEntry src e t) =
      t\<lparr>rt_routerEntries := smap_put (re_dstNode e) c (rt_routerEntries t)\<rparr>"
    "re_dstNode c = re_dstNode e" "re_distance c = re_distance e + 1"
    "re_distance c \<noteq> 1 \<and> re_distance c < 10 \<longrightarrow> re_nextHop c = src"
    using updateDstNodeEntry_spec(3) [OF inv offer tk] by blast
  have ud: "rt_unreachableDistance t = 10" and ok: "smap_ok (rt_routerEntries t)"
    using inv by (simp_all add: rt_inv_alt)
  have ce: "(if 10 \<le> re_distance c \<or> re_distance c = 1 then clearNextHop c else c) = taken_entry src e"
    using c(2-4) by (intro entry_eqI) (auto simp: taken_entry_def Let_def clearNextHop_def)
  have pp: "smap_put k w (smap_put k v m) = smap_put k w m" for k and v w :: RouterTableEntry and m
    by (induction k v m rule: smap_put.induct) auto
  show ?thesis
    using ce updateDstNodeEntry_spec(1) [OF inv offer] tk c(3)
    by (simp add: RouterTable_update_def Let_def split_beta c(1) map_of_smap_put ud pp)
qed

lemma taken_entry_ok:
  assumes "rt_inv t" and "offer_ok (rt_nodeID t) src e" and "takes t src e"
  shows "entry_ok (rt_nodeID t) 10 (re_dstNode e) (taken_entry src e)"
proof -
  have "rt_nodeID t \<noteq> []" "re_dstNode e \<noteq> rt_nodeID t"
    using assms(1,3) by (simp_all add: rt_inv_def takes_def)
  with assms(2) show ?thesis
    by (auto simp: taken_entry_def entry_ok_def offer_ok_def Let_def split: if_splits)
qed

text \<open>
  The state after an accepted announcement, entry by entry.
\<close>

lemma update_lookup:
  assumes inv: "rt_inv t" and offer: "offer_ok (rt_nodeID t) src e" and tk: "takes t src e"
  shows "map_of (rt_routerEntries (snd (snd (RouterTable_update U src e t)))) k =
    (if k = re_dstNode e then Some (taken_entry src e)
     else map_option (shiftDistance 10 (re_dstNode e) (re_distance e + 1)) (map_of (rt_routerEntries t) k))"
proof -
  have "shiftDistance 10 (re_dstNode e) d (taken_entry src e) = taken_entry src e" for d
    using taken_entry_ok [OF assms] by (auto simp: shiftDistance_def entry_ok_def)
  with inv show ?thesis
    by (simp add: update_accepted [OF assms] map_of_smap_put rt_inv_alt)
qed

lemma rt_inv_update:
  assumes inv: "rt_inv t" and offer: "offer_ok (rt_nodeID t) src e"
  shows "rt_inv (snd (snd (RouterTable_update U src e t)))"
proof (cases "takes t src e")
  case True
  have "rt_inv (t\<lparr>rt_routerEntries := smap_put (re_dstNode e) (taken_entry src e) (rt_routerEntries t)\<rparr>)"
    by (rule rt_inv_put [OF inv taken_entry_ok [OF inv offer True]])
  then show ?thesis
    using offer offer_bounds [OF offer]
    by (simp add: update_accepted [OF inv offer True] rt_inv_update_all offer_ok_def)
next
  case False
  with assms show ?thesis by (simp add: update_rejected)
qed

lemma update_keeps [simp]:
  "rt_nodeID (snd (snd (RouterTable_update U src e t))) = rt_nodeID t"
  "rt_unreachableDistance (snd (snd (RouterTable_update U src e t))) = rt_unreachableDistance t"
proof -
  have "rt_nodeID (snd (updateDstNodeEntry src e t)) = rt_nodeID t \<and>
      rt_unreachableDistance (snd (updateDstNodeEntry src e t)) = rt_unreachableDistance t"
    by (auto simp: updateDstNodeEntry_def Let_def split: option.splits)
  then show "rt_nodeID (snd (snd (RouterTable_update U src e t))) = rt_nodeID t"
    "rt_unreachableDistance (snd (snd (RouterTable_update U src e t))) = rt_unreachableDistance t"
    by (simp_all add: RouterTable_update_def Let_def split_beta split: option.splits)
qed

lemma update_lost:
  assumes inv: "rt_inv t" and offer: "offer_ok (rt_nodeID t) src e" and tk: "takes t src e"
  shows "fst (snd (RouterTable_update U src e t)) = U \<union>
    {k. map_of (rt_routerEntries (snd (snd (RouterTable_update U src e t)))) k \<noteq>
          map_of (rt_routerEntries t) k \<and>
        (\<exists>c. map_of (rt_routerEntries (snd (snd (RouterTable_update U src e t)))) k = Some c \<and>
             10 \<le> re_distance c)} \<union>
    (if 10 \<le> re_distance e + 1 then {re_dstNode e} else {})" (is "?lhs = U \<union> ?changed \<union> ?dst")
proof -
  let ?t = "t\<lparr>rt_routerEntries := smap_put (re_dstNode e) (taken_entry src e) (rt_routerEntries t)\<rparr>"
  let ?sh = "shiftDistance 10 (re_dstNode e) (re_distance e + 1)"
  have inv': "rt_inv ?t" by (rule rt_inv_put [OF inv taken_entry_ok [OF assms]])
  have te: "re_nextHop (taken_entry src e) \<noteq> re_dstNode e"
    using taken_entry_ok [OF assms] by (simp add: entry_ok_def)
  have dist: "re_distance c < 10" if "map_of (rt_routerEntries t) k = Some c"
    "re_nextHop c = re_dstNode e" for k c
    using inv that offer by (fastforce simp: rt_inv_alt entry_ok_def offer_ok_def)
  have sh: "re_nextHop c = re_dstNode e \<and> 10 \<le> re_distance (?sh c) \<longleftrightarrow> ?sh c \<noteq> c \<and> 10 \<le> re_distance (?sh c)"
    if "map_of (rt_routerEntries t) k = Some c" for k c
    using dist [OF that] by (auto simp: shiftDistance_def)
  have "?lhs = (if 10 \<le> re_distance e + 1 then insert (re_dstNode e) U else U) \<union>
      {k. k \<noteq> re_dstNode e \<and> (\<exists>c. map_of (rt_routerEntries t) k = Some c \<and>
          re_nextHop c = re_dstNode e \<and> 10 \<le> re_distance (?sh c))}"
  proof -
    have ud: "rt_unreachableDistance ?t = 10" and ok: "smap_ok (rt_routerEntries ?t)"
      using inv' by (simp_all only: rt_inv_alt)
    have key: "\<forall>k c. map_of (rt_routerEntries ?t) k = Some c \<longrightarrow> re_dstNode c = k"
      using inv' unfolding rt_inv_alt entry_ok_def by blast
    show ?thesis
      unfolding update_accepted [OF assms] snd_conv fst_conv updateDistance_lost [OF ok key] ud
      using te by (intro arg_cong2 [where f = "(\<union>)"] refl Collect_cong) (auto simp: map_of_smap_put)
  qed
  moreover have "k \<in> ?changed \<longleftrightarrow> (\<exists>c. map_of (rt_routerEntries t) k = Some c \<and>
      re_nextHop c = re_dstNode e \<and> 10 \<le> re_distance (?sh c))" if "k \<noteq> re_dstNode e" for k
    using that sh [of k] unfolding mem_Collect_eq update_lookup [OF assms]
    by (cases "map_of (rt_routerEntries t) k") auto
  moreover have "re_dstNode e \<in> ?changed \<Longrightarrow> 10 \<le> re_distance e + 1"
    unfolding mem_Collect_eq update_lookup [OF assms] by (auto simp: taken_entry_def Let_def)
  ultimately have eq: "x \<in> ?lhs \<longleftrightarrow> x \<in> U \<union> ?changed \<union> ?dst" for x
    by (cases "x = re_dstNode e") (simp_all del: mem_Collect_eq, auto)
  then show ?thesis by (rule set_eqI)
qed

lemma shift_unwrapped:
  assumes "rt_inv t" and "map_of (rt_routerEntries t) k = Some c" and "dst \<noteq> []"
    and "1 \<le> d" and "d < 2 ^ 31 - 9"
  shows "shiftDistance 10 dst d c =
      (if re_nextHop c = dst
       then c\<lparr>re_distance := d + re_distance c - 1,
              re_nextHop := (if 10 \<le> d + re_distance c - 1 then [] else re_nextHop c)\<rparr>
       else c)"
proof (cases "re_nextHop c = dst")
  case True
  with assms have "2 \<le> re_distance c" "re_distance c \<le> 9"
    by (fastforce simp: rt_inv_alt entry_ok_def)+
  with True assms show ?thesis
    by (intro entry_eqI) (simp_all add: shiftDistance_def clearNextHop_def Let_def)
qed (simp add: shiftDistance_def)

text \<open>
  (C12) The distance-vector step. An announcement that the rule does not take leaves the table as it
  is; one that it takes sets the destination's entry to the announced distance plus one through the
  announcing neighbour (no next hop for a neighbour or an unreachable node) and moves every route
  through that destination by the same amount; nothing else changes. The nodes reported unreachable
  are those already reported, the destination if it lies beyond the limit, and the nodes whose entry
  changed to a distance beyond it.
\<close>

theorem router_update_spec:
  fixes U :: "bytes set"
  assumes "rt_inv t" and "offer_ok (rt_nodeID t) src e"
  defines "r \<equiv> RouterTable_update U src e t" and "d \<equiv> re_distance e + 1"
  shows "fst r = takes t src e \<and>
    (\<not> takes t src e \<longrightarrow> r = (False, U, t)) \<and>
    (takes t src e \<longrightarrow>
       map_of (rt_routerEntries (snd (snd r))) k =
           (if k = re_dstNode e
            then Some \<lparr>re_dstNode = k, re_nextHop = (if d = 1 \<or> 10 \<le> d then [] else src), re_distance = d\<rparr>
            else map_option (\<lambda>c. if re_nextHop c = re_dstNode e
                                 then c\<lparr>re_distance := d + re_distance c - 1,
                                        re_nextHop := (if 10 \<le> d + re_distance c - 1 then [] else re_nextHop c)\<rparr>
                                 else c) (map_of (rt_routerEntries t) k)) \<and>
       fst (snd r) = U \<union> (if 10 \<le> d then {re_dstNode e} else {}) \<union>
           {k. map_of (rt_routerEntries (snd (snd r))) k \<noteq> map_of (rt_routerEntries t) k \<and>
               (\<exists>c. map_of (rt_routerEntries (snd (snd r))) k = Some c \<and> 10 \<le> re_distance c)})"
proof (cases "takes t src e")
  case False
  then show ?thesis using assms(1,2) by (simp add: r_def update_rejected)
next
  case True
  have b: "re_dstNode e \<noteq> []" "1 \<le> d" "d < 2 ^ 31 - 9"
    using offer_bounds [OF assms(2)] assms(2) by (simp_all add: d_def offer_ok_def)
  have "fst r" using assms(1,2) True by (simp add: r_def update_accepted)
  moreover have "fst (snd r) = U \<union> (if 10 \<le> d then {re_dstNode e} else {}) \<union>
           {k. map_of (rt_routerEntries (snd (snd r))) k \<noteq> map_of (rt_routerEntries t) k \<and>
               (\<exists>c. map_of (rt_routerEntries (snd (snd r))) k = Some c \<and> 10 \<le> re_distance c)}"
    unfolding r_def d_def using update_lost [OF assms(1,2) True] by blast
  moreover have "map_option (shiftDistance 10 (re_dstNode e) d) (map_of (rt_routerEntries t) k) =
      map_option (\<lambda>c. if re_nextHop c = re_dstNode e
                      then c\<lparr>re_distance := d + re_distance c - 1,
                             re_nextHop := (if 10 \<le> d + re_distance c - 1 then [] else re_nextHop c)\<rparr>
                      else c) (map_of (rt_routerEntries t) k)"
    by (cases "map_of (rt_routerEntries t) k") (simp_all add: shift_unwrapped [OF assms(1) _ b])
  ultimately show ?thesis
    using True unfolding r_def update_lookup [OF assms(1,2) True] d_def
    by (simp add: taken_entry_def Let_def)
qed

definition sample_table :: RouterTable where
  "sample_table = new_RouterTable\<lparr>rt_nodeID := ''me'', rt_routerEntries :=
     [(''a'', \<lparr>re_dstNode = ''a'', re_nextHop = [], re_distance = 1\<rparr>),
      (''b'', \<lparr>re_dstNode = ''b'', re_nextHop = ''a'', re_distance = 2\<rparr>),
      (''c'', \<lparr>re_dstNode = ''c'', re_nextHop = ''a'', re_distance = 5\<rparr>)]\<rparr>"

lemma sample_table_inv: "rt_inv sample_table"
  by (simp add: rt_inv_def sample_table_def new_RouterTable_def entry_ok_def smap_ok_def)

theorem router_update_spec_witness:
  defines "e \<equiv> \<lparr>re_dstNode = ''c'', re_nextHop = ''q'', re_distance = 1\<rparr>"
  shows "rt_inv sample_table \<and> offer_ok ''me'' ''z'' e \<and>
    map_of (rt_routerEntries (snd (snd (RouterTable_update {} ''z'' e sample_table)))) ''c'' =
      Some \<lparr>re_dstNode = ''c'', re_nextHop = ''z'', re_distance = 2\<rparr>"
proof -
  have n: "rt_nodeID sample_table = ''me''" by (simp add: sample_table_def)
  have o: "offer_ok ''me'' ''z'' e" by (simp add: offer_ok_def e_def)
  have t: "takes sample_table ''z'' e"
    by (simp add: takes_def sample_table_def new_RouterTable_def e_def)
  show ?thesis
    using router_update_spec [OF sample_table_inv, unfolded n, OF o, of "{}" "''c''"] o t sample_table_inv
    by (simp add: e_def)
qed

text \<open>
  (C32) The table's invariant: a fresh table has it, and \<open>update\<close> with an admissible announcement and
  \<open>erase\<close> of a node keep it. So at every moment the node itself is not listed, keys and destinations
  agree, and an entry has an empty next hop exactly when it is a direct neighbour or unreachable.
\<close>

theorem router_invariant:
  assumes "rt_inv t" and "offer_ok (rt_nodeID t) src e" and "p \<noteq> []"
  shows "rt_inv (snd (snd (RouterTable_update U src e t))) \<and>
    rt_inv (snd (snd (RouterTable_erase U p t))) \<and>
    (rt_nodeID t \<noteq> [] \<longrightarrow> rt_inv (new_RouterTable\<lparr>rt_nodeID := rt_nodeID t\<rparr>))"
proof -
  have un: "rt_unreachableDistance t = 10" using assms(1) by (simp add: rt_inv_def)
  have put: "rt_inv (t\<lparr>rt_routerEntries := smap_put p (clearNextHop (c\<lparr>re_distance := 10\<rparr>)) (rt_routerEntries t)\<rparr>)"
    if "map_of (rt_routerEntries t) p = Some c" for c
  proof (rule rt_inv_put [OF assms(1)])
    have "entry_ok (rt_nodeID t) 10 p c" "rt_nodeID t \<noteq> []"
      using assms(1) that by (auto simp: rt_inv_alt)
    then show "entry_ok (rt_nodeID t) 10 p (clearNextHop (c\<lparr>re_distance := 10\<rparr>))"
      by (auto simp: entry_ok_def clearNextHop_def)
  qed
  have "rt_inv (snd (snd (RouterTable_erase U p t)))"
    using put assms(1,3)
    by (auto simp: RouterTable_erase_def Let_def un rt_inv_update_all split: option.splits)
  moreover have "rt_inv (new_RouterTable\<lparr>rt_nodeID := rt_nodeID t\<rparr>)" if "rt_nodeID t \<noteq> []"
    using that by (simp add: rt_inv_def new_RouterTable_def)
  ultimately show ?thesis using rt_inv_update [OF assms(1,2)] by simp
qed

theorem router_invariant_witness:
  defines "e \<equiv> \<lparr>re_dstNode = ''c'', re_nextHop = ''q'', re_distance = 1\<rparr>"
  shows "rt_inv sample_table \<and> offer_ok ''me'' ''z'' e \<and>
    rt_inv (snd (snd (RouterTable_update {} ''z'' e sample_table))) \<and>
    rt_inv (snd (snd (RouterTable_erase {} ''a'' sample_table)))"
proof -
  have n: "rt_nodeID sample_table = ''me''" by (simp add: sample_table_def)
  have o: "offer_ok ''me'' ''z'' e" by (simp add: offer_ok_def e_def)
  show ?thesis
    using router_invariant [OF sample_table_inv, unfolded n, OF o, of "''a''" "{}"] o sample_table_inv
    by simp
qed

section \<open>Losing a neighbour\<close>

lemma erase_lookup:
  assumes inv: "rt_inv t" and p: "p \<noteq> []"
  shows "map_of (rt_routerEntries (snd (snd (RouterTable_erase U p t)))) k =
    (if k = p then map_option (\<lambda>e. e\<lparr>re_distance := 10, re_nextHop := []\<rparr>) (map_of (rt_routerEntries t) k)
     else map_option (\<lambda>e. if re_nextHop e = p
            then e\<lparr>re_distance := 10 + re_distance e - 1, re_nextHop := []\<rparr> else e)
          (map_of (rt_routerEntries t) k))"
proof (cases "map_of (rt_routerEntries t) k")
  case None
  with inv show ?thesis
    by (auto simp: RouterTable_erase_def Let_def map_of_smap_put split: option.splits)
next
  case (Some e)
  have ud: "rt_unreachableDistance t = 10" and e: "entry_ok (rt_nodeID t) 10 k e"
    using inv Some by (simp_all add: rt_inv_alt)
  have sh: "shiftDistance 10 p 10 e =
      (if re_nextHop e = p then e\<lparr>re_distance := 10 + re_distance e - 1, re_nextHop := []\<rparr> else e)"
    using shift_unwrapped [OF inv Some p, of 10] e by (auto simp: entry_ok_def)
  have sp: "shiftDistance 10 p 10 (clearNextHop c) = clearNextHop c" for c
    using p by (simp add: shiftDistance_def clearNextHop_def)
  show ?thesis
    using Some sh sp e unfolding RouterTable_erase_def Let_def
    by (auto simp: ud map_of_smap_put clearNextHop_def entry_ok_def split: option.splits)
qed

lemma erase_lost:
  assumes inv: "rt_inv t" and p: "p \<noteq> []"
  shows "fst (snd (RouterTable_erase U p t)) = U \<union>
    {k. \<exists>e. map_of (rt_routerEntries t) k = Some e \<and> (k = p \<or> re_nextHop e = p)}"
proof -
  have ud: "rt_unreachableDistance t = 10" and ok: "smap_ok (rt_routerEntries t)"
    using inv by (simp_all add: rt_inv_alt)
  have key: "\<forall>k c. map_of (rt_routerEntries t) k = Some c \<longrightarrow> re_dstNode c = k"
    using inv unfolding rt_inv_alt entry_ok_def by blast
  have far: "10 \<le> re_distance (shiftDistance 10 p 10 e)"
    if "map_of (rt_routerEntries t) k = Some e" "re_nextHop e = p" for k e
    using shift_unwrapped [OF inv that(1) p, of 10] inv that by (auto simp: rt_inv_alt entry_ok_def)
  show ?thesis
  proof (cases "map_of (rt_routerEntries t) p")
    case None
    then show ?thesis
      unfolding RouterTable_erase_def Let_def
      using far by (auto simp: updateDistance_lost [OF ok key] ud)
  next
    case (Some c)
    let ?c = "clearNextHop (c\<lparr>re_distance := 10\<rparr>)"
    let ?t = "t\<lparr>rt_routerEntries := smap_put p ?c (rt_routerEntries t)\<rparr>"
    have c: "re_dstNode c = p" using key Some by blast
    have ok': "smap_ok (rt_routerEntries ?t)" using ok by (simp add: smap.ok_put)
    have key': "\<forall>k e. map_of (rt_routerEntries ?t) k = Some e \<longrightarrow> re_dstNode e = k"
      using key c by (simp add: map_of_smap_put clearNextHop_def)
    have "fst (snd (RouterTable_erase U p t)) =
        fst (updateDistanceForAllRouterEntries (insert p U) p 10 ?t)"
      by (simp add: RouterTable_erase_def Some c ud Let_def clearNextHop_def)
    also have "\<dots> = insert p U \<union> {k. \<exists>e. map_of (rt_routerEntries ?t) k = Some e \<and> re_nextHop e = p \<and>
        10 \<le> re_distance (shiftDistance 10 p 10 e)}"
      unfolding updateDistance_lost [OF ok' key'] by (simp add: ud)
    also have "\<dots> = U \<union> {k. \<exists>e. map_of (rt_routerEntries t) k = Some e \<and> (k = p \<or> re_nextHop e = p)}"
      using far p Some by (auto simp: map_of_smap_put clearNextHop_def split: if_splits)
    finally show ?thesis .
  qed
qed

text \<open>
  (C33) Losing a neighbour. After \<open>erase\<close> no node is routed through the lost one, every node whose
  route went through it is unreachable, all other routes are as before, and the set
  \<open>_unreachableNodes\<close> grew by exactly the lost node and those it carried.
\<close>

theorem router_erase_spec:
  fixes U :: "bytes set"
  assumes "rt_inv t" and "p \<noteq> []"
  defines "r \<equiv> RouterTable_erase U p t"
  shows "fst r = (p \<in> dom (map_of (rt_routerEntries t))) \<and>
    getNextHop (snd (snd r)) dst \<noteq> p \<and>
    getAllReachableNode (snd (snd r)) =
      getAllReachableNode t - {p} - {k. \<exists>e. map_of (rt_routerEntries t) k = Some e \<and> re_nextHop e = p} \<and>
    (getNextHop t dst \<noteq> p \<and> dst \<noteq> p \<longrightarrow> getNextHop (snd (snd r)) dst = getNextHop t dst) \<and>
    fst (snd r) = U \<union> {k. \<exists>e. map_of (rt_routerEntries t) k = Some e \<and> (k = p \<or> re_nextHop e = p)}"
proof -
  let ?t = "snd (snd r)"
  have reach: "getAllReachableNode s = {k. \<exists>e. map_of (rt_routerEntries s) k = Some e \<and> re_distance e < 10}"
    if "smap_ok (rt_routerEntries s)" "rt_unreachableDistance s = 10"
      "\<forall>k e. map_of (rt_routerEntries s) k = Some e \<longrightarrow> re_dstNode e = k" for s
    using smap_get [OF that(1)] that(2,3) by (fastforce simp: getAllReachableNode_def)
  have ud: "rt_unreachableDistance t = 10" and ok: "smap_ok (rt_routerEntries t)"
    using assms(1) by (simp_all add: rt_inv_alt)
  have key: "\<forall>k c. map_of (rt_routerEntries t) k = Some c \<longrightarrow> re_dstNode c = k"
    using assms(1) unfolding rt_inv_alt entry_ok_def by blast
  have ud': "rt_unreachableDistance ?t = 10" "smap_ok (rt_routerEntries ?t)"
    using ud ok by (auto simp: r_def RouterTable_erase_def Let_def smap.ok_put split: option.splits)
  note look = erase_lookup [OF assms(1,2), of U, folded r_def]
  have key': "\<forall>k c. map_of (rt_routerEntries ?t) k = Some c \<longrightarrow> re_dstNode c = k"
    using key by (auto simp: look split: if_splits)
  have pos: "1 \<le> re_distance e \<and> (re_nextHop e = [] \<longleftrightarrow> re_distance e = 1 \<or> 10 \<le> re_distance e)"
    if "map_of (rt_routerEntries t) k = Some e" for k e
    using assms(1) that by (auto simp: rt_inv_alt entry_ok_def)
  have "fst r = (p \<in> dom (map_of (rt_routerEntries t)))"
    by (auto simp: r_def RouterTable_erase_def Let_def split: option.splits)
  moreover have "getNextHop ?t dst \<noteq> p"
    using assms(2) by (cases "map_of (rt_routerEntries t) dst") (auto simp: getNextHop_def look ud')
  moreover have "getAllReachableNode ?t =
      getAllReachableNode t - {p} - {k. \<exists>e. map_of (rt_routerEntries t) k = Some e \<and> re_nextHop e = p}"
    unfolding reach [OF ud'(2,1) key'] reach [OF ok ud key] look
    using pos by (fastforce split: if_splits)
  moreover have "getNextHop ?t dst = getNextHop t dst" if "getNextHop t dst \<noteq> p" "dst \<noteq> p"
    using that pos [of dst] by (cases "map_of (rt_routerEntries t) dst")
      (auto simp: getNextHop_def look ud ud' split: if_splits)
  ultimately show ?thesis using erase_lost [OF assms(1,2)] by (simp add: r_def)
qed

theorem router_erase_spec_witness:
  "rt_inv sample_table \<and> ''a'' \<noteq> [] \<and>
   fst (snd (RouterTable_erase {} ''a'' sample_table)) = {''a'', ''b'', ''c''}"
  using router_erase_spec [OF sample_table_inv, of "''a''" "{}"] sample_table_inv
  by (auto simp: sample_table_def new_RouterTable_def split: if_splits)

section \<open>The wire format\<close>

lemma fold_insert_rebuild:
  assumes "sorted_wrt (<) (map fst m @ map fst m')" and "\<forall>(k, e) \<in> set m'. re_dstNode e = k"
  shows "fold (\<lambda>e m. if map_of m (re_dstNode e) = None then smap_put (re_dstNode e) e m else m)
           (map snd m') m = m @ m'"
  using assms
proof (induction m' arbitrary: m)
  case (Cons ke m')
  obtain k e where ke: "ke = (k, e)" by (cases ke)
  have lt: "\<forall>x \<in> fst ` set m. x < k" using Cons.prems(1) by (auto simp: ke sorted_wrt_append)
  then have "map_of m k = None" by (auto simp: map_of_eq_None_iff)
  moreover have "smap_put k e m = m @ [(k, e)]"
    using lt by (induction k e m rule: smap_put.induct) auto
  ultimately show ?case
    using Cons.IH [of "m @ [(k, e)]"] Cons.prems by (simp add: ke)
qed simp

text \<open>
  The table that a peer rebuilds from the bytes it receives has the entries of the sender's
  table, for every tars reader that inverts the tars writer.
\<close>

theorem router_table_roundtrip:
  assumes tars: "\<And>es. read (write es) = Some es" and inv: "rt_inv t"
  shows "map_option rt_routerEntries (createRouterTable read (RouterTable_encode write t)) =
           Some (rt_routerEntries t)"
proof -
  have "re_dstNode e = k" if "(k, e) \<in> set (rt_routerEntries t)" for k e
    using inv that smap_get [of "rt_routerEntries t" k e] unfolding rt_inv_alt entry_ok_def by blast
  then have "\<forall>(k, e) \<in> set (rt_routerEntries t). re_dstNode e = k" by auto
  moreover have "sorted_wrt (<) (map fst (rt_routerEntries t))"
    using inv unfolding rt_inv_def smap_ok_def by blast
  ultimately have "fold (\<lambda>e m. if map_of m (re_dstNode e) = None then smap_put (re_dstNode e) e m else m)
           (map snd (rt_routerEntries t)) [] = rt_routerEntries t"
    using fold_insert_rebuild [of "[]" "rt_routerEntries t"] by simp
  then show ?thesis
    by (simp add: createRouterTable_def RouterTable_decode_def RouterTable_encode_def tars)
qed

definition put_entry :: "RouterTableEntry \<Rightarrow> bytes" where
  "put_entry e = put_bytes (re_dstNode e) @ put_bytes (re_nextHop e) @
     put_nat (nat (re_distance e)) @ put_nat (nat (- re_distance e))"

definition get_entry :: "bytes \<Rightarrow> RouterTableEntry \<times> bytes" where
  "get_entry bs =
     (let (d, b1) = get_bytes bs; (h, b2) = get_bytes b1; (p, b3) = get_nat b2; (n, b4) = get_nat b3
      in (\<lparr>re_dstNode = d, re_nextHop = h, re_distance = int p - int n\<rparr>, b4))"

definition demo_write :: "RouterTableEntry list \<Rightarrow> bytes" where
  "demo_write es = put_many put_entry es"

definition demo_read :: "bytes \<Rightarrow> RouterTableEntry list option" where
  "demo_read bs = Some (fst (get_many get_entry bs))"

lemma get_put_entry: "get_entry (put_entry e @ r) = (e, r)"
  by (simp add: get_entry_def put_entry_def)

lemma demo_read_write: "demo_read (demo_write es) = Some es"
  using get_put_many [of get_entry put_entry es "[]"]
  by (simp add: demo_read_def demo_write_def get_put_entry)

theorem router_table_roundtrip_witness:
  "(\<forall>es. demo_read (demo_write es) = Some es) \<and> rt_inv sample_table \<and>
   map_option rt_routerEntries (createRouterTable demo_read (RouterTable_encode demo_write sample_table)) =
     Some (rt_routerEntries sample_table)"
  using router_table_roundtrip [OF demo_read_write sample_table_inv] demo_read_write sample_table_inv
  by simp

text \<open>
  Announced distances are not checked: a peer that announces \<open>INT32_MAX\<close> for an unknown node
  makes the receiver store the wrapped distance -2^31 and treat the node as reachable through that
  peer, whereas every announced distance from 9 up to \<open>INT32_MAX - 1\<close> makes it unreachable.
\<close>

theorem router_announced_int_max:
  "let announce = (\<lambda>d. snd (snd (RouterTable_update {} ''z''
         \<lparr>re_dstNode = ''far'', re_nextHop = [], re_distance = d\<rparr> sample_table)))
   in getNextHop (announce (2 ^ 31 - 1)) ''far'' = ''z'' \<and>
      (\<forall>d \<in> {9 .. 2 ^ 31 - 2}. getNextHop (announce d) ''far'' = [])"
proof -
  have "getNextHop (snd (snd (RouterTable_update {} ''z''
         \<lparr>re_dstNode = ''far'', re_nextHop = [], re_distance = d\<rparr> sample_table))) ''far'' =
      (if 10 \<le> i32 (d + 1) then [] else if i32 (d + 1) = 1 then [] else ''z'')" for d
    by (simp add: RouterTable_update_def updateDstNodeEntry_def sample_table_def new_RouterTable_def
        updateDistanceForAllRouterEntries_def getNextHop_def incDistance_def clearNextHop_def
        shiftDistance_def smap_map_def Let_def)
  then show ?thesis by (simp add: Let_def) (simp add: i32_def)
qed

theorem router_announced_int_max_witness:
  "getNextHop (snd (snd (RouterTable_update {} ''z''
     \<lparr>re_dstNode = ''far'', re_nextHop = [], re_distance = 100\<rparr> sample_table))) ''far'' = []"
proof -
  have "(100 :: int) \<in> {9 .. 2 ^ 31 - 2}" by simp
  with router_announced_int_max show ?thesis unfolding Let_def by blast
qed

end
