(* ===== verification/RouterManager.thy ===== *)
theory RouterManager
  imports RouterTable MessageCodec
begin

text \<open>
  The router manager of the peer-to-peer layer:
  wedpr-transport/ppc-gateway/ppc-gateway/p2p/router/RouterManager.cpp. Neighbours announce the
  sequence number of their routing table; a node asks for the table when the number grew, joins the
  answer into its own table, and announces a new number when that changed something.

  The state is the service's routing table, the last number of every neighbour and the node's own
  number. What a handler does besides changing the state (messages, broadcasts, handlers queued on
  the thread pool, the timer) is returned as a list of outputs in the order of the calls.

  Shown: the interface \<open>seq_gate\<close> for the sequence numbers; joining a neighbour's table and losing a
  session keep the table's invariant and the property that every next hop is a direct neighbour;
  announcements are made exactly when the table changed.
\<close>

datatype rm_out =
    SendByP2PNodeID GatewayPacketType bytes bytes
  | BroadcastToNeighbours GatewayPacketType bytes
  | QueueUnreachableHandlers "bytes set"
  | RestartRouterTimer

record RouterManager =
  rm_routerTable :: RouterTable
  rm_node2Seq :: "(bytes, u32) smap"
  rm_statusSeq :: u32

definition new_RouterManager :: "bytes \<Rightarrow> RouterManager" where
  "new_RouterManager nodeID =
     \<lparr>rm_routerTable = new_RouterTable\<lparr>rt_nodeID := nodeID\<rparr>, rm_node2Seq = [], rm_statusSeq = 1\<rparr>"

definition tryToUpdateSeq :: "bytes \<Rightarrow> u32 \<Rightarrow> RouterManager \<Rightarrow> bool \<times> RouterManager" where
  "tryToUpdateSeq p2pNodeID seq s =
     (case map_of (rm_node2Seq s) p2pNodeID of
        Some old \<Rightarrow> if old \<ge> seq then (False, s)
                    else (True, s\<lparr>rm_node2Seq := smap_put p2pNodeID seq (rm_node2Seq s)\<rparr>)
      | None \<Rightarrow> (True, s\<lparr>rm_node2Seq := smap_put p2pNodeID seq (rm_node2Seq s)\<rparr>))"

definition eraseSeq :: "bytes \<Rightarrow> RouterManager \<Rightarrow> bool \<times> RouterManager" where
  "eraseSeq p2pNodeID s =
     (if map_of (rm_node2Seq s) p2pNodeID = None then (False, s)
      else (True, s\<lparr>rm_node2Seq := smap_erase p2pNodeID (rm_node2Seq s)\<rparr>))"

definition broadcastRouterSeq :: "RouterManager \<Rightarrow> rm_out list" where
  "broadcastRouterSeq s =
     [RestartRouterTimer,
      BroadcastToNeighbours RouterTableSyncSeq (net_u32 (unat (rm_statusSeq s)))]"

text \<open>\<open>onP2PNodesUnreachable\<close> queues one job that calls every handler for every node of the set.\<close>

definition onP2PNodesUnreachable :: "bytes set \<Rightarrow> rm_out list" where
  "onP2PNodesUnreachable ns = [QueueUnreachableHandlers ns]"

text \<open>
  The announcement's four bytes are read through a cast pointer whatever the payload's size is. The
  answer goes to the gateway named in the header or, without one, to the session's node.
\<close>

definition onReceiveRouterSeq ::
  "bytes \<Rightarrow> bytes \<Rightarrow> bytes \<Rightarrow> RouterManager \<Rightarrow> (RouterManager \<times> rm_out list) res" where
  "onReceiveRouterSeq srcGwNode payload sessionNode s =
     rbind (read_u32 payload 0) (\<lambda>statusSeq.
       let (fresh, s') = tryToUpdateSeq sessionNode (of_nat statusSeq) s
       in if \<not> fresh then Inr (s', [])
          else Inr (s', [SendByP2PNodeID RouterTableRequest
                           (if srcGwNode \<noteq> [] then srcGwNode else sessionNode) []]))"

definition onReceiveRouterTableRequest ::
  "(RouterTableEntry list \<Rightarrow> bytes) \<Rightarrow> bytes \<Rightarrow> bytes \<Rightarrow> RouterManager \<Rightarrow> rm_out list" where
  "onReceiveRouterTableRequest write srcGwNode sessionNode s =
     [SendByP2PNodeID RouterTableResponse (if srcGwNode \<noteq> [] then srcGwNode else sessionNode)
        (RouterTable_encode write (rm_routerTable s))]"

definition session_entry :: "bytes \<Rightarrow> RouterTableEntry" where
  "session_entry n = new_RouterTableEntry\<lparr>re_dstNode := n, re_distance := 0\<rparr>"

fun join_entries ::
  "bytes \<Rightarrow> RouterTableEntry list \<Rightarrow> bool \<Rightarrow> bytes set \<Rightarrow> RouterTable \<Rightarrow> bool \<times> bytes set \<times> RouterTable" where
  "join_entries generatedFrom [] updated un t = (updated, un, t)"
| "join_entries generatedFrom (e # es) updated un t =
     (let (ret, un', t') = RouterTable_update un generatedFrom e t
      in join_entries generatedFrom es (updated \<or> ret) un' t')"

definition joinRouterTable :: "bytes \<Rightarrow> RouterTable \<Rightarrow> RouterManager \<Rightarrow> RouterManager \<times> rm_out list" where
  "joinRouterTable generatedFrom peerTable s =
     (let (updated, un, t) =
            join_entries generatedFrom (map snd (rt_routerEntries peerTable)) False {} (rm_routerTable s);
          (ret, un', t') = RouterTable_update un (rt_nodeID t) (session_entry generatedFrom) t;
          s' = s\<lparr>rm_routerTable := t'\<rparr>
      in if \<not> (updated \<or> ret) then (s', [])
         else let s'' = s'\<lparr>rm_statusSeq := rm_statusSeq s' + 1\<rparr>
              in (s'', onP2PNodesUnreachable un' @ broadcastRouterSeq s''))"

text \<open>The tars reader throws on malformed bytes; the exception leaves the handler.\<close>

definition onReceivePeersRouterTable ::
  "(bytes \<Rightarrow> RouterTableEntry list option) \<Rightarrow> bytes \<Rightarrow> bytes \<Rightarrow> RouterManager \<Rightarrow>
   (RouterManager \<times> rm_out list) option" where
  "onReceivePeersRouterTable read payload sessionNode s =
     map_option (\<lambda>t. joinRouterTable sessionNode t s) (createRouterTable read payload)"

definition onEraseSession :: "bytes \<Rightarrow> RouterManager \<Rightarrow> bytes set \<times> RouterManager \<times> rm_out list" where
  "onEraseSession sessionNode s =
     (let s1 = snd (eraseSeq sessionNode s);
          (erased, un, t) = RouterTable_erase {} sessionNode (rm_routerTable s1);
          s2 = s1\<lparr>rm_routerTable := t\<rparr>;
          s3 = (if erased then s2\<lparr>rm_statusSeq := rm_statusSeq s2 + 1\<rparr> else s2)
      in (un, s3, (if erased then broadcastRouterSeq s3 else []) @ onP2PNodesUnreachable un))"

definition onNewSession :: "bytes \<Rightarrow> RouterManager \<Rightarrow> bytes set \<times> RouterManager \<times> rm_out list" where
  "onNewSession sessionNode s =
     (let (ret, un, t) =
            RouterTable_update {} (rt_nodeID (rm_routerTable s)) (session_entry sessionNode) (rm_routerTable s);
          s1 = s\<lparr>rm_routerTable := t\<rparr>
      in if \<not> ret then (un, s1, [])
         else let s2 = s1\<lparr>rm_statusSeq := rm_statusSeq s1 + 1\<rparr>
              in (un, s2, broadcastRouterSeq s2 @ onP2PNodesUnreachable un))"

section \<open>Sequence numbers\<close>

interpretation router_seq: seq_gate tryToUpdateSeq "\<lambda>s. map_of (rm_node2Seq s)"
  by unfold_locales (auto simp: tryToUpdateSeq_def map_of_smap_put not_le split: option.splits)

lemma tryToUpdateSeq_keeps [simp]:
  "rm_routerTable (snd (tryToUpdateSeq p n s)) = rm_routerTable s"
  "rm_statusSeq (snd (tryToUpdateSeq p n s)) = rm_statusSeq s"
  by (auto simp: tryToUpdateSeq_def split: option.splits)

lemma read_own_seq: "read_u32 (net_u32 (unat (n :: u32))) 0 = Inr (unat n)"
  using read_u32_at [of "[]" "unat n" "[]"] unsigned_less [of n, where 'a = nat] by simp

text \<open>
  A neighbour's table is requested exactly when its announced number is larger than every number
  it announced before: after any run of announcements from any neighbours, receiving the bytes that
  \<open>broadcastRouterSeq\<close> sends for the number \<open>n\<close> leads to a request iff \<open>n\<close> exceeds all earlier
  numbers of that neighbour, and receiving the same bytes once more never does.
\<close>

theorem router_seq_request:
  fixes s :: RouterManager and earlier :: "(bytes \<times> u32) list"
  assumes "map_of (rm_node2Seq s) p = None"
  defines "run \<equiv> fold (\<lambda>(k, m) s. snd (tryToUpdateSeq k m s)) earlier s"
  shows "\<exists>s' outs. onReceiveRouterSeq gw (net_u32 (unat (n :: u32))) p run = Inr (s', outs) \<and>
    (outs = [SendByP2PNodeID RouterTableRequest (if gw \<noteq> [] then gw else p) []] \<longleftrightarrow>
       (\<forall>m. (p, m) \<in> set earlier \<longrightarrow> m < n)) \<and>
    (outs \<noteq> [] \<longrightarrow> map_of (rm_node2Seq s') p = Some n) \<and>
    onReceiveRouterSeq gw (net_u32 (unat n)) p s' = Inr (s', [])"
proof -
  let ?ns = "map snd (filter (\<lambda>x. fst x = p) earlier)"
  have last: "map_of (rm_node2Seq run) p = (if ?ns = [] then None else Some (Max (set ?ns)))"
    using router_seq.last_seq_offers [of earlier s p] assms(1) by (simp add: run_def)
  have mem: "m \<in> set ?ns \<longleftrightarrow> (p, m) \<in> set earlier" for m by force
  have fresh: "fst (tryToUpdateSeq p n run) \<longleftrightarrow> (\<forall>m. (p, m) \<in> set earlier \<longrightarrow> m < n)"
  proof (cases "?ns = []")
    case True
    then have "\<not> (p, m) \<in> set earlier" for m using mem [of m] by simp
    with True last show ?thesis by (auto simp: router_seq.offer_accepts)
  next
    case False
    with last have "fst (tryToUpdateSeq p n run) \<longleftrightarrow> Max (set ?ns) < n"
      by (simp add: router_seq.offer_accepts)
    also have "\<dots> \<longleftrightarrow> (\<forall>m \<in> set ?ns. m < n)" by (rule Max_less_iff) (use False in \<open>simp_all del: set_map set_filter\<close>)
    finally show ?thesis using mem by blast
  qed
  have again: "tryToUpdateSeq p n (snd (tryToUpdateSeq p n run)) = (False, snd (tryToUpdateSeq p n run))"
    by (auto simp: tryToUpdateSeq_def map_of_smap_put split: option.splits)
  show ?thesis
    using fresh again router_seq.offer_last [of p n run p]
    by (simp add: onReceiveRouterSeq_def read_own_seq split_beta Let_def)
qed

theorem router_seq_request_witness:
  "map_of (rm_node2Seq (new_RouterManager ''me'')) ''a'' = None \<and>
   (\<exists>s'. onReceiveRouterSeq [] (net_u32 7) ''a''
      (fold (\<lambda>(k, m) s. snd (tryToUpdateSeq k m s)) [(''a'', 3), (''b'', 9)] (new_RouterManager ''me'')) =
      Inr (s', [SendByP2PNodeID RouterTableRequest ''a'' []]))"
proof -
  have n: "map_of (rm_node2Seq (new_RouterManager ''me'')) ''a'' = None"
    by (simp add: new_RouterManager_def)
  have lt: "(3 :: u32) < 7" by simp
  show ?thesis
    using router_seq_request [OF n, of "[]" 7 "[(''a'', 3), (''b'', 9)]"] n lt by auto
qed

section \<open>Next hops are direct neighbours\<close>

definition hops_direct :: "bytes set \<Rightarrow> RouterTable \<Rightarrow> bool" where
  "hops_direct G t \<longleftrightarrow> (\<forall>k e. map_of (rt_routerEntries t) k = Some e \<and> re_nextHop e \<noteq> [] \<longrightarrow>
     re_nextHop e \<in> G \<or>
     (\<exists>n. map_of (rt_routerEntries t) (re_nextHop e) = Some n \<and> re_distance n = 1))"

text \<open>An entry of a neighbour (distance 1) is not touched by announcements of other nodes.\<close>

lemma neighbour_kept:
  assumes inv: "rt_inv t" and offer: "offer_ok (rt_nodeID t) g e"
    and n: "map_of (rt_routerEntries t) h = Some n" "re_distance n = 1"
  shows "map_of (rt_routerEntries (snd (snd (RouterTable_update U g e t)))) h = Some n"
proof (cases "takes t g e")
  case False
  with inv offer n show ?thesis by (simp add: update_rejected)
next
  case True
  have e: "entry_ok (rt_nodeID t) 10 h n" using inv n by (auto simp: rt_inv_alt)
  with n(2) have hop: "re_nextHop n = []" by (simp add: entry_ok_def)
  have "h \<noteq> re_dstNode e"
    using True n hop offer e by (auto simp: takes_def offer_ok_def split: if_splits)
  moreover have "re_dstNode e \<noteq> []" using offer by (simp add: offer_ok_def)
  ultimately show ?thesis
    using hop by (simp add: update_lookup [OF inv offer True] n shiftDistance_def)
qed

lemma hops_direct_update:
  assumes inv: "rt_inv t" and offer: "offer_ok (rt_nodeID t) g e" and hops: "hops_direct G t"
    and dst: "re_dstNode e \<notin> G" and g: "g \<in> G"
  shows "hops_direct G (snd (snd (RouterTable_update U g e t)))"
proof (cases "takes t g e")
  case False
  with inv offer hops show ?thesis by (simp add: update_rejected)
next
  case True
  show ?thesis
    unfolding hops_direct_def
  proof (intro allI impI, elim conjE)
    let ?t = "snd (snd (RouterTable_update U g e t))"
    fix k c assume c: "map_of (rt_routerEntries ?t) k = Some c" "re_nextHop c \<noteq> []"
    show "re_nextHop c \<in> G \<or>
        (\<exists>n. map_of (rt_routerEntries ?t) (re_nextHop c) = Some n \<and> re_distance n = 1)"
    proof (cases "k = re_dstNode e")
      case True
      with c g show ?thesis
        by (auto simp: update_lookup [OF inv offer \<open>takes t g e\<close>] taken_entry_def Let_def split: if_splits)
    next
      case False
      then obtain b where b: "map_of (rt_routerEntries t) k = Some b" "re_nextHop b = re_nextHop c"
        using c by (auto simp: update_lookup [OF inv offer \<open>takes t g e\<close>] shiftDistance_def
            clearNextHop_def Let_def split: if_splits)
      with hops c(2) consider "re_nextHop c \<in> G"
        | n where "map_of (rt_routerEntries t) (re_nextHop c) = Some n" "re_distance n = 1"
        unfolding hops_direct_def by fastforce
      then show ?thesis
        by cases (auto simp: neighbour_kept [OF inv offer])
    qed
  qed
qed

text \<open>The node's own announcement of a session makes the peer a direct neighbour and moves no route.\<close>

lemma session_offer: "rt_inv t \<Longrightarrow> g \<noteq> [] \<Longrightarrow> g \<noteq> rt_nodeID t \<Longrightarrow>
    offer_ok (rt_nodeID t) (rt_nodeID t) (session_entry g)"
  by (simp add: offer_ok_def session_entry_def new_RouterTableEntry_def rt_inv_def)

lemma session_update:
  assumes inv: "rt_inv t" and g: "g \<noteq> []" "g \<noteq> rt_nodeID t"
  shows "map_of (rt_routerEntries (snd (snd (RouterTable_update U (rt_nodeID t) (session_entry g) t)))) =
    (map_of (rt_routerEntries t))(g \<mapsto> \<lparr>re_dstNode = g, re_nextHop = [], re_distance = 1\<rparr>)"
proof (cases "takes t (rt_nodeID t) (session_entry g)")
  case True
  have s: "re_dstNode (session_entry g) = g" "re_distance (session_entry g) = 0"
    by (simp_all add: session_entry_def)
  have "shiftDistance 10 g 1 c = c" if "map_of (rt_routerEntries t) k = Some c" for k c
    using shift_unwrapped [OF inv that g(1), of 1] inv that g(1)
    by (intro entry_eqI) (auto simp: rt_inv_alt entry_ok_def)
  then show ?thesis
    by (intro ext) (auto simp: update_lookup [OF inv session_offer [OF inv g] True] s taken_entry_def
        intro: option.map_ident_strong)
next
  case False
  then obtain c where c: "map_of (rt_routerEntries t) g = Some c" "re_distance c \<le> 1"
    using g by (auto simp: takes_def session_entry_def split: option.splits)
  have "entry_ok (rt_nodeID t) 10 g c" using inv c by (auto simp: rt_inv_alt)
  with c(2) have "c = \<lparr>re_dstNode = g, re_nextHop = [], re_distance = 1\<rparr>"
    by (intro entry_eqI) (auto simp: entry_ok_def)
  with c(1) False show ?thesis
    by (auto simp: update_rejected [OF inv session_offer [OF inv g]] fun_upd_idem)
qed

lemma hops_direct_session:
  assumes inv: "rt_inv t" and g: "g \<noteq> []" "g \<noteq> rt_nodeID t" and hops: "hops_direct {g} t"
  shows "hops_direct {} (snd (snd (RouterTable_update U (rt_nodeID t) (session_entry g) t)))"
  using hops unfolding hops_direct_def session_update [OF inv g]
  by (auto split: if_splits)

lemma join_entries_keeps:
  "rt_inv t \<Longrightarrow> hops_direct {g} t \<Longrightarrow> \<forall>e \<in> set es. offer_ok (rt_nodeID t) g e \<Longrightarrow>
   join_entries g es b U t = (b', U', t') \<Longrightarrow>
   rt_inv t' \<and> hops_direct {g} t' \<and> rt_nodeID t' = rt_nodeID t \<and> (b \<longrightarrow> b') \<and> (\<not> b' \<longrightarrow> t' = t \<and> U' = U)"
proof (induction es arbitrary: b U t)
  case (Cons e es)
  obtain r U1 t1 where u: "RouterTable_update U g e t = (r, U1, t1)" by (metis prod_cases3)
  have offer: "offer_ok (rt_nodeID t) g e" using Cons.prems(3) by simp
  then have dst: "re_dstNode e \<notin> {g}" by (simp add: offer_ok_def)
  have 1: "rt_inv t1" "rt_nodeID t1 = rt_nodeID t" "hops_direct {g} t1"
    using rt_inv_update [OF Cons.prems(1) offer, of U] update_keeps(1) [of U g e t]
      hops_direct_update [OF Cons.prems(1) offer Cons.prems(2) dst, of U] u by simp_all
  have r: "\<not> r \<longrightarrow> t1 = t \<and> U1 = U"
    using u update_accepted [OF Cons.prems(1) offer, of U] update_rejected [OF Cons.prems(1) offer, of U]
    by (cases "takes t g e"; simp)
  have j: "join_entries g es (b \<or> r) U1 t1 = (b', U', t')" using Cons.prems(4) u by simp
  have os: "\<forall>e \<in> set es. offer_ok (rt_nodeID t1) g e" using Cons.prems(3) 1(2) by simp
  show ?case using Cons.IH [OF 1(1,3) os j] 1(2) r by auto
qed simp

text \<open>
  Joining a neighbour's table. For a neighbour \<open>g\<close> other than the node itself that sends
  admissible entries, the routing table afterwards satisfies the invariant, lists \<open>g\<close> as a direct
  neighbour, and routes only through direct neighbours. The node announces a new sequence number when
  it reports an update; otherwise table, number and outputs are as before.
\<close>

theorem join_keeps_routes_direct:
  assumes inv: "rt_inv (rm_routerTable s)" and hops: "hops_direct {} (rm_routerTable s)"
    and g: "g \<noteq> []" "g \<noteq> rt_nodeID (rm_routerTable s)"
    and peer: "\<forall>e \<in> set (map snd (rt_routerEntries pt)). offer_ok (rt_nodeID (rm_routerTable s)) g e"
  shows "case joinRouterTable g pt s of (s', outs) \<Rightarrow>
    rt_inv (rm_routerTable s') \<and> hops_direct {} (rm_routerTable s') \<and>
    map_of (rt_routerEntries (rm_routerTable s')) g = Some \<lparr>re_dstNode = g, re_nextHop = [], re_distance = 1\<rparr> \<and>
    rm_node2Seq s' = rm_node2Seq s \<and>
    (if outs = [] then s' = s
     else rm_statusSeq s' = rm_statusSeq s + 1 \<and>
          last outs = BroadcastToNeighbours RouterTableSyncSeq (net_u32 (unat (rm_statusSeq s + 1))))"
proof -
  obtain b U t where j: "join_entries g (map snd (rt_routerEntries pt)) False {} (rm_routerTable s) = (b, U, t)"
    by (metis prod_cases3)
  have hg: "hops_direct {g} (rm_routerTable s)" using hops by (auto simp: hops_direct_def)
  note t = join_entries_keeps [OF inv hg peer j]
  let ?r = "RouterTable_update U (rt_nodeID t) (session_entry g) t"
  have gt: "rt_inv t" "g \<noteq> rt_nodeID t" using t g by simp_all
  have inv': "rt_inv (snd (snd ?r))" by (rule rt_inv_update [OF gt(1) session_offer [OF gt(1) g(1) gt(2)]])
  have hops': "hops_direct {} (snd (snd ?r))" using hops_direct_session [OF gt(1) g(1) gt(2)] t by blast
  have look: "map_of (rt_routerEntries (snd (snd ?r))) g = Some \<lparr>re_dstNode = g, re_nextHop = [], re_distance = 1\<rparr>"
    by (simp add: session_update [OF gt(1) g(1) gt(2)])
  have quiet: "\<not> fst ?r \<Longrightarrow> snd (snd ?r) = t"
    using update_accepted [OF gt(1) session_offer [OF gt(1) g(1) gt(2)], of U]
      update_rejected [OF gt(1) session_offer [OF gt(1) g(1) gt(2)], of U]
    by (cases "takes t (rt_nodeID t) (session_entry g)") simp_all
  show ?thesis
    using inv' hops' look quiet t j
    by (auto simp: joinRouterTable_def split_beta Let_def onP2PNodesUnreachable_def broadcastRouterSeq_def)
qed

theorem join_keeps_routes_direct_witness:
  defines "s \<equiv> (new_RouterManager ''me'')\<lparr>rm_routerTable := sample_table\<rparr>"
    and "pt \<equiv> new_RouterTable\<lparr>rt_routerEntries := [(''c'', \<lparr>re_dstNode = ''c'', re_nextHop = [], re_distance = 1\<rparr>)]\<rparr>"
  shows "rt_inv (rm_routerTable s) \<and> hops_direct {} (rm_routerTable s) \<and>
    hops_direct {} (rm_routerTable (fst (joinRouterTable ''z'' pt s))) \<and>
    map_of (rt_routerEntries (rm_routerTable (fst (joinRouterTable ''z'' pt s)))) ''z'' =
      Some \<lparr>re_dstNode = ''z'', re_nextHop = [], re_distance = 1\<rparr>"
proof -
  have t: "rm_routerTable s = sample_table" by (simp add: s_def)
  have i: "rt_inv (rm_routerTable s)" by (simp add: t sample_table_inv)
  have h: "hops_direct {} (rm_routerTable s)"
    unfolding t by (auto simp: hops_direct_def sample_table_def new_RouterTable_def split: if_splits)
  have n: "rt_nodeID (rm_routerTable s) = ''me''" by (simp add: t sample_table_def)
  have p: "\<forall>e \<in> set (map snd (rt_routerEntries pt)). offer_ok (rt_nodeID (rm_routerTable s)) ''z'' e"
    by (simp add: n pt_def offer_ok_def)
  show ?thesis
    using join_keeps_routes_direct [OF i h _ _ p] i h n by (simp add: split_beta)
qed

section \<open>Sessions come and go\<close>

lemma hops_direct_erase:
  assumes inv: "rt_inv t" and p: "p \<noteq> []" and hops: "hops_direct {} t"
  shows "hops_direct {} (snd (snd (RouterTable_erase U p t)))"
  unfolding hops_direct_def
proof (intro allI impI, elim conjE)
  let ?t = "snd (snd (RouterTable_erase U p t))"
  fix k c assume c: "map_of (rt_routerEntries ?t) k = Some c" "re_nextHop c \<noteq> []"
  then obtain b where k: "map_of (rt_routerEntries t) k = Some b"
    by (auto simp: erase_lookup [OF inv p] split: if_splits)
  with c have "k \<noteq> p \<and> re_nextHop b \<noteq> p" by (auto simp: erase_lookup [OF inv p] split: if_splits)
  with c k have b: "map_of (rt_routerEntries t) k = Some c" "re_nextHop c \<noteq> p"
    by (simp_all add: erase_lookup [OF inv p])
  with hops c(2) obtain n where n: "map_of (rt_routerEntries t) (re_nextHop c) = Some n" "re_distance n = 1"
    by (auto simp: hops_direct_def)
  then have "re_nextHop n = []" using inv by (auto simp: rt_inv_alt entry_ok_def)
  with n b p have "map_of (rt_routerEntries ?t) (re_nextHop c) = Some n"
    by (simp add: erase_lookup [OF inv p])
  with n(2) show "re_nextHop c \<in> {} \<or>
      (\<exists>n. map_of (rt_routerEntries ?t) (re_nextHop c) = Some n \<and> re_distance n = 1)" by simp
qed

lemma rt_inv_erase:
  assumes inv: "rt_inv t" and p: "p \<noteq> []"
  shows "rt_inv (snd (snd (RouterTable_erase U p t)))"
  unfolding rt_inv_alt
proof (intro conjI allI impI)
  let ?t = "snd (snd (RouterTable_erase U p t))"
  show "smap_ok (rt_routerEntries ?t)" "rt_nodeID ?t \<noteq> []" "rt_unreachableDistance ?t = 10"
    using inv by (auto simp: RouterTable_erase_def rt_inv_alt Let_def smap.ok_put split: option.splits)
  have n: "rt_nodeID ?t = rt_nodeID t"
    by (auto simp: RouterTable_erase_def Let_def split: option.splits)
  fix k e assume e: "map_of (rt_routerEntries ?t) k = Some e"
  then obtain c where c: "map_of (rt_routerEntries t) k = Some c"
    by (auto simp: erase_lookup [OF inv p] split: if_splits)
  then have "entry_ok (rt_nodeID t) 10 k c" "rt_nodeID t \<noteq> []" using inv by (auto simp: rt_inv_alt)
  with e c p show "entry_ok (rt_nodeID ?t) 10 k e"
    unfolding n erase_lookup [OF inv p] by (auto simp: entry_ok_def split: if_splits)
qed

text \<open>
  The manager's life as a step relation: an announcement or a table arrives from a neighbour, a
  session opens, a session is lost.
\<close>

inductive rm_step :: "RouterManager \<Rightarrow> RouterManager \<Rightarrow> bool" where
  recv_seq: "onReceiveRouterSeq gw payload p s = Inr (s', outs) \<Longrightarrow> rm_step s s'"
| recv_table: "onReceivePeersRouterTable read data g s = Some (s', outs) \<Longrightarrow>
     createRouterTable read data = Some pt \<Longrightarrow> g \<noteq> [] \<Longrightarrow> g \<noteq> rt_nodeID (rm_routerTable s) \<Longrightarrow>
     \<forall>e \<in> set (map snd (rt_routerEntries pt)). offer_ok (rt_nodeID (rm_routerTable s)) g e \<Longrightarrow>
     rm_step s s'"
| new_session: "onNewSession g s = (un, s', outs) \<Longrightarrow> g \<noteq> [] \<Longrightarrow>
     g \<noteq> rt_nodeID (rm_routerTable s) \<Longrightarrow> rm_step s s'"
| erase_session: "onEraseSession p s = (un, s', outs) \<Longrightarrow> p \<noteq> [] \<Longrightarrow> rm_step s s'"

definition rm_inv :: "RouterManager \<Rightarrow> bool" where
  "rm_inv s \<longleftrightarrow> rt_inv (rm_routerTable s) \<and> hops_direct {} (rm_routerTable s)"

lemma join_keeps:
  assumes inv: "rt_inv (rm_routerTable s)" and hops: "hops_direct {} (rm_routerTable s)"
    and g: "g \<noteq> []" "g \<noteq> rt_nodeID (rm_routerTable s)"
    and peer: "\<forall>e \<in> set (map snd (rt_routerEntries pt)). offer_ok (rt_nodeID (rm_routerTable s)) g e"
  shows "rm_inv (fst (joinRouterTable g pt s)) \<and>
    rt_nodeID (rm_routerTable (fst (joinRouterTable g pt s))) = rt_nodeID (rm_routerTable s)"
proof -
  obtain b U t where j: "join_entries g (map snd (rt_routerEntries pt)) False {} (rm_routerTable s) = (b, U, t)"
    by (metis prod_cases3)
  have hg: "hops_direct {g} (rm_routerTable s)" using hops by (auto simp: hops_direct_def)
  note t = join_entries_keeps [OF inv hg peer j]
  have gt: "rt_inv t" "g \<noteq> rt_nodeID t" using t g by simp_all
  show ?thesis
    using rt_inv_update [OF gt(1) session_offer [OF gt(1) g(1) gt(2)], of U]
      hops_direct_session [OF gt(1) g(1) gt(2)] t j
    by (auto simp: joinRouterTable_def split_beta Let_def rm_inv_def)
qed

lemma rm_step_inv:
  "rm_step s s' \<Longrightarrow> rm_inv s \<Longrightarrow> rm_inv s' \<and> rt_nodeID (rm_routerTable s') = rt_nodeID (rm_routerTable s)"
proof (induction rule: rm_step.induct)
  case (recv_seq gw payload p s s' outs)
  then have "rm_routerTable s' = rm_routerTable s"
    by (auto simp: onReceiveRouterSeq_def split_beta Let_def split: if_splits)
  with recv_seq show ?case by (simp add: rm_inv_def)
next
  case (recv_table read data g s s' outs pt)
  then show ?case
    using join_keeps [of s g pt] by (auto simp: onReceivePeersRouterTable_def rm_inv_def)
next
  case (new_session g s un s' outs)
  let ?t = "rm_routerTable s"
  have inv: "rt_inv ?t" and h: "hops_direct {g} ?t"
    using new_session(4) by (auto simp: rm_inv_def hops_direct_def)
  show ?case
    using new_session(1) rt_inv_update [OF inv session_offer [OF inv new_session(2,3)], of "{}"]
      hops_direct_session [OF inv new_session(2,3) h, of "{}"]
    by (auto simp: onNewSession_def split_beta Let_def rm_inv_def split: if_splits)
next
  case (erase_session p s un s' outs)
  have "rt_nodeID (snd (snd (RouterTable_erase U p t))) = rt_nodeID t" for U t
    by (auto simp: RouterTable_erase_def Let_def split: option.splits)
  moreover have "rm_routerTable (snd (eraseSeq p s)) = rm_routerTable s" by (simp add: eraseSeq_def)
  ultimately show ?case
    using erase_session rt_inv_erase [of "rm_routerTable s" p "{}"] hops_direct_erase [of "rm_routerTable s" p "{}"]
    by (auto simp: onEraseSession_def split_beta Let_def rm_inv_def)
qed

lemma rm_reachable_inv:
  "rm_step\<^sup>*\<^sup>* s s' \<Longrightarrow> rm_inv s \<Longrightarrow> rm_inv s' \<and> rt_nodeID (rm_routerTable s') = rt_nodeID (rm_routerTable s)"
  by (induction rule: rtranclp_induct) (auto dest: rm_step_inv)

lemma new_rm_inv: "me \<noteq> [] \<Longrightarrow> rm_inv (new_RouterManager me)"
  by (simp add: rm_inv_def rt_inv_def new_RouterManager_def new_RouterTable_def hops_direct_def)

text \<open>
  (C7) In every state a router manager can reach from its start by announcements, tables of
  neighbours, new sessions and lost sessions, a destination's next hop is empty or the id of another
  node that the table lists at distance 1, and it is never the destination or the node itself: a
  packet handed to the next hop goes to a direct neighbour.
\<close>

theorem routes_go_through_neighbours:
  assumes me: "me \<noteq> []" and reach: "rm_step\<^sup>*\<^sup>* (new_RouterManager me) s"
    and hop: "getNextHop (rm_routerTable s) dst = h" "h \<noteq> []"
  shows "h \<noteq> dst \<and> h \<noteq> me \<and> dst \<noteq> me \<and>
    (\<exists>n. map_of (rt_routerEntries (rm_routerTable s)) h = Some n \<and> re_distance n = 1 \<and> re_nextHop n = []) \<and>
    getNextHop (rm_routerTable s) h = []"
proof -
  let ?t = "rm_routerTable s"
  have i: "rt_inv ?t" "hops_direct {} ?t" "rt_nodeID ?t = me"
    using rm_reachable_inv [OF reach new_rm_inv [OF me]]
    by (simp_all add: rm_inv_def new_RouterManager_def)
  obtain e where e: "map_of (rt_routerEntries ?t) dst = Some e" "re_nextHop e = h"
    using hop by (auto simp: getNextHop_def split: option.splits if_splits)
  obtain n where n: "map_of (rt_routerEntries ?t) h = Some n" "re_distance n = 1"
    using i(2) e hop(2) by (auto simp: hops_direct_def)
  have "entry_ok me 10 dst e" "entry_ok me 10 h n"
    using i(1,3) e(1) n(1) by (auto simp: rt_inv_alt)
  with e n i show ?thesis by (auto simp: entry_ok_def getNextHop_def rt_inv_def)
qed

theorem routes_go_through_neighbours_witness:
  defines "s \<equiv> fst (joinRouterTable ''a'' (new_RouterTable\<lparr>rt_routerEntries :=
      [(''b'', \<lparr>re_dstNode = ''b'', re_nextHop = [], re_distance = 1\<rparr>)]\<rparr>) (new_RouterManager ''me''))"
  shows "rm_step\<^sup>*\<^sup>* (new_RouterManager ''me'') s \<and> getNextHop (rm_routerTable s) ''b'' = ''a'' \<and>
    getNextHop (rm_routerTable s) ''a'' = []"
proof -
  let ?es = "[\<lparr>re_dstNode = ''b'', re_nextHop = [], re_distance = 1\<rparr>]"
  let ?pt = "new_RouterTable\<lparr>rt_routerEntries := [(''b'', hd ?es)]\<rparr>"
  have pt: "createRouterTable demo_read (demo_write ?es) = Some ?pt"
    by (simp add: createRouterTable_def RouterTable_decode_def demo_read_write)
  have st: "rm_step (new_RouterManager ''me'') s"
  proof (rule recv_table [OF _ pt])
    show "onReceivePeersRouterTable demo_read (demo_write ?es) ''a'' (new_RouterManager ''me'') =
        Some (s, snd (joinRouterTable ''a'' ?pt (new_RouterManager ''me'')))"
      by (simp add: onReceivePeersRouterTable_def pt s_def)
  qed (simp_all add: new_RouterManager_def new_RouterTable_def offer_ok_def)
  then have r: "rm_step\<^sup>*\<^sup>* (new_RouterManager ''me'') s" by (rule r_into_rtranclp)
  have hop: "getNextHop (rm_routerTable s) ''b'' = ''a''"
    by (simp add: s_def joinRouterTable_def new_RouterManager_def new_RouterTable_def split_beta Let_def
        RouterTable_update_def updateDstNodeEntry_def updateDistanceForAllRouterEntries_def smap_map_def
        shiftDistance_def incDistance_def clearNextHop_def session_entry_def new_RouterTableEntry_def
        getNextHop_def)
  show ?thesis using routes_go_through_neighbours [OF _ r hop] r hop by simp
qed

end
