(* ===== verification/P2PService.thy ===== *)
theory P2PService
  imports RouterManager
begin

text \<open>
  The peer-to-peer service: wedpr-transport/ppc-gateway/ppc-gateway/p2p/Service.cpp. It keeps one
  session per node id, remembers which configured endpoint turned out to be which node, and sends,
  forwards, broadcasts and answers messages over the routing table.

  The websocket layer below it (\<open>WsService\<close>, \<open>WsSession\<close> of bcos-boostssl) is outside the sources:
  sending over a session and dispatching to a registered handler are outputs, whether a session is
  still connected is an argument, a fresh message id is an argument. An endpoint is a byte string
  here, ordered like the keys of the \<open>std::map\<close>.

  Shown: the session map's invariant; that closing a duplicate connection does not lose the live
  session; that a message is forwarded at most ten times and so cannot circulate; and that it arrives,
  over hops that encode and decode it, when the routing tables along the way agree.
\<close>

record WsSession =
  ws_nodeId :: bytes
  ws_endPoint :: bytes

record P2PService =
  svc_nodeID :: bytes
  svc_nodeID2Session :: "bytes \<rightharpoonup> WsSession"
  svc_routerTable :: RouterTable
  svc_configuredNode2ID :: "(bytes, bytes) smap"

datatype svc_out =
    DropSession WsSession
  | CallNewSessionHandlers WsSession
  | CallDeleteSessionHandlers WsSession
  | WsSend WsSession Message
  | RespError bytes
  | WsDispatch Message
  | SetReconnectedPeers "bytes list"

definition new_P2PService :: "bytes \<Rightarrow> int \<Rightarrow> P2PService" where
  "new_P2PService nodeID unreachableDistance =
     \<lparr>svc_nodeID = nodeID, svc_nodeID2Session = Map.empty,
      svc_routerTable = new_RouterTable
        \<lparr>rt_nodeID := nodeID, rt_unreachableDistance := unreachableDistance\<rparr>,
      svc_configuredNode2ID = []\<rparr>"

definition setNodeEndpoints :: "bytes list \<Rightarrow> P2PService \<Rightarrow> P2PService" where
  "setNodeEndpoints endPointList s = s\<lparr>svc_configuredNode2ID :=
     fold (\<lambda>ep m. if map_of m ep \<noteq> None then m else smap_put ep [] m) endPointList (svc_configuredNode2ID s)\<rparr>"

section \<open>Sessions\<close>

definition updateNodeIDInfo :: "WsSession \<Rightarrow> P2PService \<Rightarrow> bool \<times> P2PService" where
  "updateNodeIDInfo session s =
     (case map_of (svc_configuredNode2ID s) (ws_endPoint session) of
        Some _ \<Rightarrow> (True, s\<lparr>svc_configuredNode2ID :=
          smap_put (ws_endPoint session) (ws_nodeId session) (svc_configuredNode2ID s)\<rparr>)
      | None \<Rightarrow> (False, s))"

definition onP2PConnect :: "(WsSession \<Rightarrow> bool) \<Rightarrow> WsSession \<Rightarrow> P2PService \<Rightarrow> P2PService \<times> svc_out list" where
  "onP2PConnect isConnected session s =
     (let it = svc_nodeID2Session s (ws_nodeId session);
          s' = snd (updateNodeIDInfo session s);
          s'' = s'\<lparr>svc_nodeID2Session := (svc_nodeID2Session s')(ws_nodeId session \<mapsto> session)\<rparr>
      in if (case it of Some old \<Rightarrow> isConnected old | None \<Rightarrow> False) then (s', [DropSession session])
         else if ws_nodeId session = svc_nodeID s then (s', [DropSession session])
         else if it \<noteq> None then (s'', [])
         else (s'', [CallNewSessionHandlers session]))"

definition removeSessionInfo :: "WsSession \<Rightarrow> P2PService \<Rightarrow> bool \<times> P2PService \<times> svc_out list" where
  "removeSessionInfo session s =
     (case svc_nodeID2Session s (ws_nodeId session) of
        Some cur \<Rightarrow>
          if ws_endPoint cur = ws_endPoint session
          then (True, s\<lparr>svc_nodeID2Session := (svc_nodeID2Session s)(ws_nodeId session := None)\<rparr>,
                [CallDeleteSessionHandlers session])
          else (False, s, [])
      | None \<Rightarrow> (False, s, []))"

text \<open>The loop of \<open>onP2PDisconnect\<close>: the first endpoint, in key order, that was this node.\<close>

fun clearNodeID :: "bytes \<Rightarrow> bytes \<Rightarrow> (bytes, bytes) smap \<Rightarrow> (bytes, bytes) smap" where
  "clearNodeID me n [] = []"
| "clearNodeID me n ((ep, v) # m) =
     (if me = n then (ep, v) # clearNodeID me n m
      else if v \<noteq> n then (ep, v) # clearNodeID me n m
      else (ep, []) # m)"

definition onP2PDisconnect :: "WsSession \<Rightarrow> P2PService \<Rightarrow> P2PService \<times> svc_out list" where
  "onP2PDisconnect session s =
     (let (removed, s', outs) = removeSessionInfo session s
      in if \<not> removed then (s', outs)
         else (s'\<lparr>svc_configuredNode2ID :=
                 clearNodeID (svc_nodeID s') (ws_nodeId session) (svc_configuredNode2ID s')\<rparr>, outs))"

definition nodeConnected :: "P2PService \<Rightarrow> bytes \<Rightarrow> bool" where
  "nodeConnected s nodeID \<longleftrightarrow> svc_nodeID2Session s nodeID \<noteq> None"

definition reconnect :: "P2PService \<Rightarrow> svc_out list" where
  "reconnect s = [SetReconnectedPeers (map fst
     (filter (\<lambda>(ep, n). n \<noteq> svc_nodeID s \<and> \<not> (n \<noteq> [] \<and> nodeConnected s n)) (svc_configuredNode2ID s)))]"

section \<open>Sending and forwarding\<close>

text \<open>
  \<open>asyncSendMessage\<close>: nothing for the node itself; a message without an id gets a fresh one; without
  a session the caller's callback, if there is one, is told.
\<close>

definition message_setSeq :: "bytes \<Rightarrow> Message \<Rightarrow> Message" where
  "message_setSeq q m = m\<lparr>msg_header := (msg_header m)\<lparr>mh_traceID := q\<rparr>\<rparr>"

definition svc_asyncSendMessage :: "bytes \<Rightarrow> bool \<Rightarrow> bytes \<Rightarrow> Message \<Rightarrow> P2PService \<Rightarrow> svc_out list" where
  "svc_asyncSendMessage newSeq hasResp dstNodeID m s =
     (if dstNodeID = svc_nodeID s then []
      else let m' = (if mh_traceID (msg_header m) = [] then message_setSeq newSeq m else m)
           in case svc_nodeID2Session s dstNodeID of
                Some session \<Rightarrow> [WsSend session m']
              | None \<Rightarrow> if hasResp then [RespError dstNodeID] else [])"

definition asyncSendMessageWithForward ::
  "bytes \<Rightarrow> bool \<Rightarrow> bytes \<Rightarrow> Message \<Rightarrow> P2PService \<Rightarrow> svc_out list" where
  "asyncSendMessageWithForward newSeq hasResp dstNodeID m s =
     (let nextHop = getNextHop (svc_routerTable s) dstNodeID
      in if nextHop = [] then svc_asyncSendMessage newSeq hasResp dstNodeID m s
         else svc_asyncSendMessage newSeq hasResp nextHop m s)"

definition stamp :: "bytes \<Rightarrow> bytes \<Rightarrow> Message \<Rightarrow> Message" where
  "stamp dst src m = m\<lparr>msg_header := (msg_header m)\<lparr>mh_dstGwNode := dst, mh_srcGwNode := src\<rparr>\<rparr>"

definition asyncSendMessageByNodeID ::
  "bytes \<Rightarrow> bool \<Rightarrow> bytes \<Rightarrow> Message \<Rightarrow> P2PService \<Rightarrow> svc_out list" where
  "asyncSendMessageByNodeID newSeq hasResp dstNodeID m s =
     asyncSendMessageWithForward newSeq hasResp dstNodeID (stamp dstNodeID (svc_nodeID s) m) s"

definition asyncSendMessageByP2PNodeID ::
  "bytes \<Rightarrow> bool \<Rightarrow> u16 \<Rightarrow> bytes \<Rightarrow> bytes \<Rightarrow> P2PService \<Rightarrow> svc_out list" where
  "asyncSendMessageByP2PNodeID newSeq hasResp packetType dstNodeID payload s =
     asyncSendMessageByNodeID newSeq hasResp dstNodeID
       (message_setPayload (Some payload)
          (new_Message\<lparr>msg_header := (msg_header new_Message)\<lparr>mh_packetType := packetType\<rparr>\<rparr>)) s"

definition message_incTTL :: "Message \<Rightarrow> Message" where
  "message_incTTL m =
     m\<lparr>msg_header := (msg_header m)\<lparr>mh_ttl := word_of_int (header_ttl (msg_header m) + 1)\<rparr>\<rparr>"

definition svc_onRecvMessage :: "bytes \<Rightarrow> Message \<Rightarrow> P2PService \<Rightarrow> svc_out list" where
  "svc_onRecvMessage newSeq m s =
     (let dst = mh_dstGwNode (msg_header m) in
      if dst = [] \<or> dst = svc_nodeID s then [WsDispatch m]
      else if header_ttl (msg_header m) \<ge> rt_unreachableDistance (svc_routerTable s) then []
      else asyncSendMessageWithForward newSeq False dst (message_incTTL m) s)"

text \<open>
  \<open>asyncBroadcastMessage\<close> sends the one message object to every reachable node in the set's order,
  setting its destination anew each time. A fresh id is set before the loop.
\<close>

definition svc_asyncBroadcastMessage :: "bytes \<Rightarrow> Message \<Rightarrow> P2PService \<Rightarrow> svc_out list" where
  "svc_asyncBroadcastMessage newSeq m s =
     (let m' = (if mh_traceID (msg_header m) = [] then message_setSeq newSeq m else m)
      in concat (map (\<lambda>node. asyncSendMessageByNodeID newSeq False node m' s)
           (sorted_list_of_set (getAllReachableNode (svc_routerTable s)))))"

definition response_header :: "MessageHeader \<Rightarrow> MessageHeader res" where
  "response_header req =
     (let oh = mh_optionalField req;
          h = new_MessageHeader\<lparr>mh_optionalField := new_MessageOptionalHeader
                \<lparr>oh_dstNode := oh_srcNode oh, oh_srcNode := oh_dstNode oh,
                 oh_dstInst := oh_srcInst oh, oh_srcInst := oh_dstInst oh\<rparr>,
                mh_srcGwNode := mh_dstGwNode req, mh_dstGwNode := mh_srcGwNode req,
                mh_traceID := mh_traceID req\<rparr>
      in setRouteType ROUTE_THROUGH_NODEID (header_setRespPacket h))"

definition sendRespMessageBySession :: "WsSession \<Rightarrow> Message \<Rightarrow> bytes \<Rightarrow> svc_out list res" where
  "sendRespMessageBySession session request payload =
     rbind (response_header (msg_header request)) (\<lambda>h.
       Inr [WsSend session (message_setPayload (Some payload) (new_Message\<lparr>msg_header := h\<rparr>))])"

section \<open>The session map\<close>

definition svc_inv :: "P2PService \<Rightarrow> bool" where
  "svc_inv s \<longleftrightarrow> smap_ok (svc_configuredNode2ID s) \<and>
     (\<forall>n ses. svc_nodeID2Session s n = Some ses \<longrightarrow> ws_nodeId ses = n \<and> n \<noteq> svc_nodeID s)"

lemma clearNodeID_keys: "map fst (clearNodeID me n m) = map fst m"
  by (induction me n m rule: clearNodeID.induct) auto

lemma updateNodeIDInfo_keeps:
  "svc_nodeID2Session (snd (updateNodeIDInfo ses s)) = svc_nodeID2Session s"
  "svc_nodeID (snd (updateNodeIDInfo ses s)) = svc_nodeID s"
  "svc_routerTable (snd (updateNodeIDInfo ses s)) = svc_routerTable s"
  "smap_ok (svc_configuredNode2ID s) \<Longrightarrow> smap_ok (svc_configuredNode2ID (snd (updateNodeIDInfo ses s)))"
  by (auto simp: updateNodeIDInfo_def smap.ok_put split: option.splits)

text \<open>
  The session map: connecting and disconnecting keep one session per node id, filed under its own
  id and never under the node's own. A connection to a node that already has a live session is dropped
  and the live session stays; when the dropped connection closes, the live session, which has another
  endpoint, stays as well. A new node's session is entered and announced, and its closing removes it.
\<close>

theorem session_map:
  assumes inv: "svc_inv s"
  shows "svc_inv (fst (onP2PConnect live ses s)) \<and> svc_inv (fst (onP2PDisconnect ses s)) \<and>
    (\<forall>old. svc_nodeID2Session s (ws_nodeId ses) = Some old \<and> live old \<and> ws_endPoint old \<noteq> ws_endPoint ses \<longrightarrow>
       (case onP2PConnect live ses s of (s', outs) \<Rightarrow> outs = [DropSession ses] \<and>
          (case onP2PDisconnect ses s' of (s'', outs') \<Rightarrow>
             outs' = [] \<and> svc_nodeID2Session s'' = svc_nodeID2Session s))) \<and>
    (svc_nodeID2Session s (ws_nodeId ses) = None \<and> ws_nodeId ses \<noteq> svc_nodeID s \<longrightarrow>
       (case onP2PConnect live ses s of (s', outs) \<Rightarrow> outs = [CallNewSessionHandlers ses] \<and>
          svc_nodeID2Session s' = (svc_nodeID2Session s)(ws_nodeId ses \<mapsto> ses) \<and>
          (case onP2PDisconnect ses s' of (s'', outs') \<Rightarrow>
             outs' = [CallDeleteSessionHandlers ses] \<and> svc_nodeID2Session s'' = svc_nodeID2Session s)))"
proof (intro conjI)
  note up = updateNodeIDInfo_keeps [where ses = ses and s = s]
  have ok: "smap_ok (svc_configuredNode2ID s)" using inv by (simp add: svc_inv_def)
  have ok': "smap_ok (clearNodeID me n m)" if "smap_ok m" for me n m
    using that by (simp add: smap_ok_def clearNodeID_keys)
  show "svc_inv (fst (onP2PConnect live ses s))"
    using inv up ok by (simp add: svc_inv_def onP2PConnect_def Let_def)
  show "svc_inv (fst (onP2PDisconnect ses s))"
    using inv ok ok' by (auto simp: svc_inv_def onP2PDisconnect_def removeSessionInfo_def split: option.splits)
  show "\<forall>old. svc_nodeID2Session s (ws_nodeId ses) = Some old \<and> live old \<and> ws_endPoint old \<noteq> ws_endPoint ses \<longrightarrow>
       (case onP2PConnect live ses s of (s', outs) \<Rightarrow> outs = [DropSession ses] \<and>
          (case onP2PDisconnect ses s' of (s'', outs') \<Rightarrow>
             outs' = [] \<and> svc_nodeID2Session s'' = svc_nodeID2Session s))"
    using up by (auto simp: onP2PConnect_def onP2PDisconnect_def removeSessionInfo_def Let_def)
  show "svc_nodeID2Session s (ws_nodeId ses) = None \<and> ws_nodeId ses \<noteq> svc_nodeID s \<longrightarrow>
       (case onP2PConnect live ses s of (s', outs) \<Rightarrow> outs = [CallNewSessionHandlers ses] \<and>
          svc_nodeID2Session s' = (svc_nodeID2Session s)(ws_nodeId ses \<mapsto> ses) \<and>
          (case onP2PDisconnect ses s' of (s'', outs') \<Rightarrow>
             outs' = [CallDeleteSessionHandlers ses] \<and> svc_nodeID2Session s'' = svc_nodeID2Session s))"
    using up by (auto simp: onP2PConnect_def onP2PDisconnect_def removeSessionInfo_def Let_def fun_upd_idem)
qed

theorem session_map_witness:
  defines "a \<equiv> \<lparr>ws_nodeId = ''a'', ws_endPoint = ''10.0.0.1''\<rparr>"
    and "a2 \<equiv> \<lparr>ws_nodeId = ''a'', ws_endPoint = ''10.0.0.2''\<rparr>"
  defines "s \<equiv> fst (onP2PConnect (\<lambda>_. True) a (new_P2PService ''me'' 10))"
  shows "svc_inv (new_P2PService ''me'' 10) \<and> svc_inv s \<and>
    snd (onP2PConnect (\<lambda>_. True) a2 s) = [DropSession a2] \<and>
    svc_nodeID2Session (fst (onP2PDisconnect a2 (fst (onP2PConnect (\<lambda>_. True) a2 s)))) ''a'' = Some a"
proof -
  have i: "svc_inv (new_P2PService ''me'' 10)" by (simp add: svc_inv_def new_P2PService_def)
  have s: "svc_inv s" unfolding s_def using session_map [OF i] by blast
  have l: "svc_nodeID2Session s ''a'' = Some a"
    by (simp add: s_def onP2PConnect_def new_P2PService_def Let_def updateNodeIDInfo_def a_def)
  show ?thesis
    using session_map [OF s, of "\<lambda>_. True" a2] l i s by (simp add: a2_def a_def split_beta)
qed

section \<open>Forwarding across the network\<close>

text \<open>
  A network is the services of its nodes. One forwarding step takes a message at a node to the node
  at the other end of the session over which the node's \<open>onRecvMessage\<close> sends it on. \<open>net_fwd\<close> is the step
  of the nodes alone, up to the message given to the session; \<open>wire_fwd\<close> is the whole hop, in which the
  session's end encodes that message and the other end decodes the bytes into a new one (\<open>maxLen\<close> is the
  size limit of the message builder). A message that does not decode arrives nowhere.
\<close>

inductive net_fwd :: "bytes \<Rightarrow> (bytes \<rightharpoonup> P2PService) \<Rightarrow> bytes \<times> Message \<Rightarrow> bytes \<times> Message \<Rightarrow> bool"
  for q net where
  "net n = Some svc \<Longrightarrow> svc_onRecvMessage q m svc = [WsSend ses m'] \<Longrightarrow>
     net_fwd q net (n, m) (ws_nodeId ses, m')"

inductive_cases net_fwdE: "net_fwd q net (n, m) (n', m')"

definition wire :: "nat \<Rightarrow> Message \<Rightarrow> Message option" where
  "wire maxLen m = (case Message_decode maxLen new_Message (fst (Message_encode m)) of
     Inl _ \<Rightarrow> None | Inr (m', _) \<Rightarrow> Some m')"

inductive wire_fwd :: "nat \<Rightarrow> bytes \<Rightarrow> (bytes \<rightharpoonup> P2PService) \<Rightarrow> bytes \<times> Message \<Rightarrow> bytes \<times> Message \<Rightarrow> bool"
  for maxLen q net where
  "net_fwd q net (n, m) (n', m1) \<Longrightarrow> wire maxLen m1 = Some m' \<Longrightarrow> wire_fwd maxLen q net (n, m) (n', m')"

inductive_cases wire_fwdE: "wire_fwd maxLen q net (n, m) (n', m')"

lemma sint_ttl_inc:
  assumes "sint (x :: u16) < 10"
  shows "sint (x + 1) = sint x + 1"
proof -
  have "- 32768 \<le> sint x" using sint_ge [of x] by simp
  with assms show ?thesis by (simp add: sint_word_ariths signed_take_bit_int_eq_self)
qed

lemma forward_ttl:
  assumes "svc_onRecvMessage q m svc = [WsSend ses m']" and "rt_unreachableDistance (svc_routerTable svc) = 10"
  shows "header_ttl (msg_header m) < 10 \<and> header_ttl (msg_header m') = header_ttl (msg_header m) + 1 \<and>
    mh_dstGwNode (msg_header m') = mh_dstGwNode (msg_header m) \<and> msg_payload m' = msg_payload m"
proof -
  have lt: "header_ttl (msg_header m) < 10"
    using assms by (auto simp: svc_onRecvMessage_def Let_def split: if_splits)
  moreover have "header_ttl (msg_header (message_incTTL m)) = header_ttl (msg_header m) + 1"
    using lt by (simp add: message_incTTL_def header_ttl_def sint_ttl_inc)
  ultimately show ?thesis
    using assms by (auto simp: svc_onRecvMessage_def Let_def asyncSendMessageWithForward_def
        svc_asyncSendMessage_def message_setSeq_def header_ttl_def message_incTTL_def
        split: if_splits option.splits)
qed

lemma forwards_ttl:
  assumes ud: "\<forall>n svc. net n = Some svc \<longrightarrow> rt_unreachableDistance (svc_routerTable svc) = 10"
  shows "(net_fwd q net ^^ k) (n, m) (n', m') \<Longrightarrow>
    header_ttl (msg_header m') = header_ttl (msg_header m) + int k \<and>
    (0 < k \<longrightarrow> header_ttl (msg_header m') \<le> 10) \<and> msg_payload m' = msg_payload m"
proof (induction k arbitrary: n' m')
  case (Suc k)
  then obtain n1 m1 where 1: "(net_fwd q net ^^ k) (n, m) (n1, m1)" "net_fwd q net (n1, m1) (n', m')"
    by (metis relpowp_Suc_E surj_pair)
  then show ?case
    using Suc.IH [OF 1(1)] by (auto elim!: net_fwdE dest!: forward_ttl simp: ud)
qed simp

text \<open>
  The hop count survives the wire whatever else the message holds, so the bound holds for whole hops too.
\<close>

lemma header_decode_ttl:
  assumes "MessageHeader_decode h0 (net_u16 v @ net_u16 p @ net_u16 (unat (t :: u16)) @ rest) = Inr (h', k)"
  shows "mh_ttl h' = t"
proof -
  have "unat t < 2 ^ 16" using unsigned_less [of t, where 'a = nat] by simp
  then have "read_u16 (net_u16 v @ net_u16 p @ net_u16 (unat t) @ rest) 4 = Inr (unat t)"
    using read_u16_at [of "net_u16 v @ net_u16 p" "unat t" rest] by simp
  with assms show ?thesis by (auto simp: MessageHeader_decode_def Let_def split: if_splits prod.splits)
qed

lemma wire_ttl: "wire maxLen m = Some m' \<Longrightarrow> header_ttl (msg_header m') = header_ttl (msg_header m)"
  by (auto simp: wire_def Message_decode_def message_encode_bytes header_encode_parts header_ttl_def Let_def
      split: sum.splits prod.splits if_splits dest!: header_decode_ttl)

lemma wire_forwards_ttl:
  assumes ud: "\<forall>n svc. net n = Some svc \<longrightarrow> rt_unreachableDistance (svc_routerTable svc) = 10"
  shows "(wire_fwd maxLen q net ^^ k) (n, m) (n', m') \<Longrightarrow>
    header_ttl (msg_header m') = header_ttl (msg_header m) + int k \<and> (0 < k \<longrightarrow> header_ttl (msg_header m') \<le> 10)"
proof (induction k arbitrary: n' m')
  case (Suc k)
  then obtain n1 m1 where 1: "(wire_fwd maxLen q net ^^ k) (n, m) (n1, m1)" "wire_fwd maxLen q net (n1, m1) (n', m')"
    by (metis relpowp_Suc_E surj_pair)
  then obtain m2 where f: "net_fwd q net (n1, m1) (n', m2)" and w: "wire maxLen m2 = Some m'"
    by (auto elim: wire_fwdE)
  have "header_ttl (msg_header m1) < 10 \<and> header_ttl (msg_header m2) = header_ttl (msg_header m1) + 1"
    using f by (auto elim!: net_fwdE dest!: forward_ttl simp: ud)
  then show ?case using Suc.IH [OF 1(1)] wire_ttl [OF w] by simp
qed simp

text \<open>
  (C16) No message circulates: whatever the routing tables say, loops included, a message is forwarded
  from node to node at most ten times minus the hops it already has, with its payload unchanged.
\<close>

theorem forwarding_bounded:
  assumes "\<forall>n svc. net n = Some svc \<longrightarrow> rt_unreachableDistance (svc_routerTable svc) = 10"
    and "0 \<le> header_ttl (msg_header m)"
    and "(net_fwd q net ^^ k) (n, m) (n', m')"
  shows "(k = 0 \<or> int k \<le> 10 - header_ttl (msg_header m)) \<and> msg_payload m' = msg_payload m"
  using forwards_ttl [OF assms(1,3)] by auto



text \<open>Two nodes that point at each other for an unknown third: the loop ends.\<close>

definition loop_node :: "bytes \<Rightarrow> bytes \<Rightarrow> P2PService" where
  "loop_node me other = (new_P2PService me 10)
     \<lparr>svc_nodeID2Session := [other \<mapsto> \<lparr>ws_nodeId = other, ws_endPoint = []\<rparr>],
      svc_routerTable := new_RouterTable\<lparr>rt_nodeID := me, rt_routerEntries :=
        [(''dst'', \<lparr>re_dstNode = ''dst'', re_nextHop = other, re_distance = 2\<rparr>)]\<rparr>\<rparr>"

definition loop_message :: "nat \<Rightarrow> Message" where
  "loop_message k = new_Message\<lparr>msg_header := new_MessageHeader
     \<lparr>mh_dstGwNode := ''dst'', mh_traceID := ''t'', mh_ttl := of_nat k\<rparr>\<rparr>"

lemma loop_forward:
  "k < 10 \<Longrightarrow> other \<noteq> me \<Longrightarrow> other \<noteq> [] \<Longrightarrow> me \<noteq> ''dst'' \<Longrightarrow>
   svc_onRecvMessage q (loop_message k) (loop_node me other) =
     [WsSend \<lparr>ws_nodeId = other, ws_endPoint = []\<rparr> (loop_message (Suc k))]"
proof -
  assume a: "k < 10" "other \<noteq> me" "other \<noteq> []" "me \<noteq> ''dst''"
  have t: "sint (of_nat k :: u16) = int k"
    using a(1) by (simp add: signed_of_nat signed_take_bit_int_eq_self)
  show ?thesis
    using a t by (simp add: svc_onRecvMessage_def loop_message_def loop_node_def new_P2PService_def
        new_RouterTable_def header_ttl_def asyncSendMessageWithForward_def getNextHop_def
        svc_asyncSendMessage_def message_incTTL_def Let_def)
qed

lemma loop_forwards:
  fixes q :: bytes
  defines "net \<equiv> [''a'' \<mapsto> loop_node ''a'' ''b'', ''b'' \<mapsto> loop_node ''b'' ''a'']"
  shows "k \<le> 10 \<Longrightarrow> (net_fwd q net ^^ k) (''a'', loop_message 0)
           (if even k then ''a'' else ''b'', loop_message k)"
proof (induction k)
  case (Suc k)
  let ?n = "if even k then ''a'' else ''b''" and ?o = "if even k then ''b'' else ''a''"
  have "net ?n = Some (loop_node ?n ?o)" by (simp add: net_def)
  moreover have "svc_onRecvMessage q (loop_message k) (loop_node ?n ?o) =
      [WsSend \<lparr>ws_nodeId = ?o, ws_endPoint = []\<rparr> (loop_message (Suc k))]"
    using Suc.prems by (intro loop_forward) auto
  ultimately have "net_fwd q net (?n, loop_message k) (?o, loop_message (Suc k))"
    using net_fwd.intros by fastforce
  with Suc show ?case by (auto intro!: relpowp_Suc_I)
qed simp

theorem forwarding_bounded_witness:
  defines "net \<equiv> [''a'' \<mapsto> loop_node ''a'' ''b'', ''b'' \<mapsto> loop_node ''b'' ''a'']"
  shows "(net_fwd [] net ^^ 10) (''a'', loop_message 0) (''a'', loop_message 10) \<and>
    int 10 \<le> 10 - header_ttl (msg_header (loop_message 0))"
proof -
  have u: "\<forall>n svc. net n = Some svc \<longrightarrow> rt_unreachableDistance (svc_routerTable svc) = 10"
    by (auto simp: net_def loop_node_def new_RouterTable_def split: if_splits)
  have f: "(net_fwd [] net ^^ 10) (''a'', loop_message 0) (''a'', loop_message 10)"
    using loop_forwards [of 10 "[]"] by (simp add: net_def)
  have t: "0 \<le> header_ttl (msg_header (loop_message 0))"
    by (simp add: header_ttl_def loop_message_def)
  from forwarding_bounded [OF u t f] f show ?thesis by simp
qed

text \<open>
  A route of \<open>k\<close> hops from a node to \<open>dst\<close>: each node's table names the next one (or nothing at the
  last hop) and each node has a session to it.
\<close>

fun good_route :: "(bytes \<rightharpoonup> P2PService) \<Rightarrow> bytes \<Rightarrow> bytes list \<Rightarrow> bytes \<Rightarrow> bool" where
  "good_route net dst [] n \<longleftrightarrow> n = dst \<and> (\<exists>svc. net n = Some svc \<and> svc_nodeID svc = n)"
| "good_route net dst (h # hs) n \<longleftrightarrow> n \<noteq> dst \<and> n \<noteq> h \<and> h \<noteq> [] \<and>
     (\<exists>svc ses. net n = Some svc \<and> svc_nodeID svc = n \<and>
        rt_unreachableDistance (svc_routerTable svc) = 10 \<and>
        getNextHop (svc_routerTable svc) dst = (if hs = [] then [] else h) \<and> (hs = [] \<longrightarrow> h = dst) \<and>
        svc_nodeID2Session svc h = Some ses \<and> ws_nodeId ses = h) \<and>
     good_route net dst hs h"

text \<open>
  \<open>asyncSendMessage\<close> gives a message without a trace id a new one. A message fits the wire when the lengths
  of its fields fit their 16 bits, its header is below 64 KB and the whole is within the size limit.
\<close>

definition with_seq :: "bytes \<Rightarrow> Message \<Rightarrow> Message" where
  "with_seq newSeq m = (if mh_traceID (msg_header m) = [] then message_setSeq newSeq m else m)"

definition wire_ok :: "nat \<Rightarrow> Message \<Rightarrow> bool" where
  "wire_ok maxLen m \<longleftrightarrow> header_fits (msg_header m) \<and>
     length (fst (MessageHeader_encode (msg_header m))) < 2 ^ 16 \<and> length (fst (Message_encode m)) \<le> maxLen"

lemma wire_received: "wire_ok maxLen m \<Longrightarrow> maxLen < 2 ^ 32 \<Longrightarrow> wire maxLen m = Some (received m)"
  by (simp add: wire_def wire_ok_def message_decode_encode)

lemma header_size:
  "length (fst (MessageHeader_encode (h\<lparr>mh_ttl := t\<rparr>))) = length (fst (MessageHeader_encode h))"
  "length (fst (MessageHeader_encode (received_header h))) = length (fst (MessageHeader_encode h))"
  by (simp_all add: header_encode_parts received_header_def hasOptionalField_def)

lemma received_fields:
  "mh_ttl (received_header h) = mh_ttl h" "mh_dstGwNode (received_header h) = mh_dstGwNode h"
  "mh_traceID (received_header h) = mh_traceID h" "hasOptionalField (received_header h) = hasOptionalField h"
  "hasOptionalField (h\<lparr>mh_ttl := t\<rparr>) = hasOptionalField h"
  "payload_bytes (received m) = payload_bytes m" "msg_header (received m) = received_header (msg_header m)"
  by (simp_all add: received_header_def hasOptionalField_def received_def payload_bytes_def)

lemma received_fits: "header_fits h \<Longrightarrow> header_fits (received_header h)"
  by (simp add: header_fits_def received_fields) (simp add: received_header_def)

lemma received_idem: "received (received m) = received m"
proof -
  have "received_header (received_header h) = received_header h" for h
    unfolding received_header_def [of "received_header h"] header_size received_fields
    by (simp add: received_header_def)
  then show ?thesis by (simp add: received_def [of "received m"] received_fields) (simp add: received_def)
qed

lemma received_incTTL: "received m = m \<Longrightarrow> received (message_incTTL m) = message_incTTL m"
proof -
  assume m: "received m = m"
  have "received_header (h\<lparr>mh_ttl := t\<rparr>) = (received_header h)\<lparr>mh_ttl := t\<rparr>" for h t
    unfolding received_header_def header_size received_fields by simp
  then have "received (message_incTTL m) = message_incTTL (received m)"
    by (simp add: received_def message_incTTL_def payload_bytes_def header_ttl_def received_fields)
  with m show ?thesis by simp
qed

lemma wire_ok_received: "wire_ok maxLen m \<Longrightarrow> wire_ok maxLen (received m)"
  by (simp add: wire_ok_def received_fields header_size message_encode_bytes received_fits)

lemma wire_ok_incTTL: "wire_ok maxLen m \<Longrightarrow> wire_ok maxLen (message_incTTL m)"
  by (simp add: wire_ok_def message_incTTL_def header_size message_encode_bytes payload_bytes_def header_fits_def
      received_fields)

lemma good_route_send:
  assumes "good_route net dst (h # hs) n" and "net n = Some svc"
  shows "\<exists>ses. asyncSendMessageWithForward q b dst m svc = [WsSend ses (with_seq q m)] \<and> ws_nodeId ses = h"
  using assms by (auto simp: asyncSendMessageWithForward_def svc_asyncSendMessage_def with_seq_def Let_def)

lemma good_route_forward:
  assumes "good_route net dst hs n" and "dst \<noteq> []" and "wire_ok maxLen m" "maxLen < 2 ^ 32" "received m = m"
    and "mh_dstGwNode (msg_header m) = dst" "mh_traceID (msg_header m) \<noteq> []"
    and "0 \<le> header_ttl (msg_header m)" "header_ttl (msg_header m) + int (length hs) \<le> 10"
  shows "(wire_fwd maxLen q net ^^ length hs) (n, m)
    (dst, m\<lparr>msg_header := (msg_header m)\<lparr>mh_ttl := mh_ttl (msg_header m) + of_nat (length hs)\<rparr>\<rparr>)"
  using assms
proof (induction hs arbitrary: n m)
  case (Cons h hs)
  obtain svc where svc: "net n = Some svc" "svc_nodeID svc = n" "rt_unreachableDistance (svc_routerTable svc) = 10"
    and n: "n \<noteq> dst" and next_route: "good_route net dst hs h"
    using Cons.prems(1) by auto
  let ?m = "message_incTTL m"
  have inc: "?m = m\<lparr>msg_header := (msg_header m)\<lparr>mh_ttl := mh_ttl (msg_header m) + 1\<rparr>\<rparr>"
    by (simp add: message_incTTL_def header_ttl_def)
  have ttl: "header_ttl (msg_header ?m) = header_ttl (msg_header m) + 1"
    using Cons.prems(9) by (simp add: message_incTTL_def header_ttl_def sint_ttl_inc)
  have recv: "svc_onRecvMessage q m svc = asyncSendMessageWithForward q False dst ?m svc"
    using Cons.prems(2,6,9) n svc by (simp add: svc_onRecvMessage_def)
  moreover have "with_seq q ?m = ?m" using Cons.prems(7) by (simp add: with_seq_def inc)
  ultimately obtain ses where "svc_onRecvMessage q m svc = [WsSend ses ?m]" "ws_nodeId ses = h"
    using good_route_send [OF Cons.prems(1) svc(1), of q False ?m] by auto
  then have "net_fwd q net (n, m) (h, ?m)" using net_fwd.intros [where net = net and n = n, OF svc(1)] by metis
  moreover have "wire maxLen ?m = Some ?m"
    using wire_received [OF wire_ok_incTTL [OF Cons.prems(3)] Cons.prems(4)] received_incTTL [OF Cons.prems(5)] by simp
  ultimately have step: "wire_fwd maxLen q net (n, m) (h, ?m)" by (rule wire_fwd.intros)
  have "(wire_fwd maxLen q net ^^ length hs) (h, ?m)
    (dst, ?m\<lparr>msg_header := (msg_header ?m)\<lparr>mh_ttl := mh_ttl (msg_header ?m) + of_nat (length hs)\<rparr>\<rparr>)"
    using Cons.prems ttl
    by (intro Cons.IH next_route wire_ok_incTTL received_incTTL) (simp_all add: inc)
  from relpowp_Suc_I2 [where P = "wire_fwd maxLen q net", OF step this] show ?case by (simp add: inc add.assoc)
qed simp

text \<open>
  (C15) Delivery: when the tables along a route name each other and the sessions are there, a message that
  \<open>asyncSendMessageByNodeID\<close> sends is handed, by the forwarding of the nodes in between, to the handlers of
  the destination. Each hop encodes and decodes the message. It arrives with the payload and the header it
  was sent with (the addresses of destination and sender, a new trace id if it had none), the hops added to
  its hop count and the header's length filled in; the optional fields arrive if it is a \<open>P2PMessage\<close>, a
  packet of another type, such as a broadcast, arrives with them empty. The conditions: the hop count is
  not negative and stays within the ten hops at which messages are dropped, the ids are not empty, and the
  message fits the wire (its field lengths fit 16 bits, the header is below 64 KB, the whole is within the
  size limit).
\<close>

theorem message_delivered:
  assumes route: "good_route net dst (h # hs) n" and dst: "dst \<noteq> []" and svc: "net n = Some svc"
    and id: "mh_traceID (msg_header m) \<noteq> [] \<or> q \<noteq> []"
    and ttl: "0 \<le> header_ttl (msg_header m)" "header_ttl (msg_header m) + int (length hs) \<le> 10"
    and fits: "wire_ok maxLen (with_seq q (stamp dst n m))" "maxLen < 2 ^ 32"
  shows "\<exists>ses m1 m'. asyncSendMessageByNodeID q b dst m svc = [WsSend ses (with_seq q (stamp dst n m))] \<and>
    ws_nodeId ses = h \<and> wire maxLen (with_seq q (stamp dst n m)) = Some m1 \<and>
    (wire_fwd maxLen q net ^^ length hs) (h, m1) (dst, m') \<and>
    (\<forall>d. net dst = Some d \<longrightarrow> svc_onRecvMessage q m' d = [WsDispatch m']) \<and>
    payload_bytes m' = payload_bytes m \<and>
    msg_header m' = (received_header (msg_header (with_seq q (stamp dst n m))))
      \<lparr>mh_ttl := mh_ttl (msg_header m) + of_nat (length hs)\<rparr>"
proof -
  let ?m = "with_seq q (stamp dst n m)"
  let ?r = "(received ?m)\<lparr>msg_header := (msg_header (received ?m))\<lparr>mh_ttl := mh_ttl (msg_header (received ?m)) + of_nat (length hs)\<rparr>\<rparr>"
  have n: "svc_nodeID svc = n" and r: "good_route net dst hs h" using route svc by auto
  obtain ses where ses: "asyncSendMessageByNodeID q b dst m svc = [WsSend ses ?m]" "ws_nodeId ses = h"
    using good_route_send [OF route svc, of q b "stamp dst n m"] by (auto simp: asyncSendMessageByNodeID_def n)
  have f: "mh_traceID (msg_header ?m) \<noteq> []" "mh_dstGwNode (msg_header ?m) = dst"
    "mh_ttl (msg_header ?m) = mh_ttl (msg_header m)" "msg_payload ?m = msg_payload m"
    using id by (auto simp: with_seq_def message_setSeq_def stamp_def)
  have w: "wire maxLen ?m = Some (received ?m)" by (rule wire_received [OF fits])
  have run: "(wire_fwd maxLen q net ^^ length hs) (h, received ?m) (dst, ?r)"
    using ttl f by (intro good_route_forward [OF r dst wire_ok_received [OF fits(1)] fits(2) received_idem])
      (simp_all add: received_fields header_ttl_def)
  have "good_route net dst [] dst"
    using r by (induction hs arbitrary: h) auto
  then have "svc_onRecvMessage q ?r d = [WsDispatch ?r]" if "net dst = Some d" for d
    using that f(2) by (simp add: svc_onRecvMessage_def received_fields)
  moreover have "payload_bytes ?r = payload_bytes m" by (simp add: payload_bytes_def received_def f(4))
  moreover have "msg_header ?r = (received_header (msg_header ?m))\<lparr>mh_ttl := mh_ttl (msg_header m) + of_nat (length hs)\<rparr>"
    by (simp add: received_fields f(3))
  ultimately show ?thesis using ses w run by blast
qed

theorem message_delivered_witness:
  defines "ses \<equiv> (\<lambda>n. \<lparr>ws_nodeId = n, ws_endPoint = []\<rparr>)"
  defines "node \<equiv> (\<lambda>me hop d. (new_P2PService me 10)\<lparr>svc_nodeID2Session := [hop \<mapsto> ses hop],
      svc_routerTable := new_RouterTable\<lparr>rt_nodeID := me, rt_routerEntries :=
        [(''c'', \<lparr>re_dstNode = ''c'', re_nextHop = (if d = 1 then [] else hop), re_distance = d\<rparr>)]\<rparr>\<rparr>)"
  defines "net \<equiv> [''a'' \<mapsto> node ''a'' ''b'' 2, ''b'' \<mapsto> node ''b'' ''c'' 1, ''c'' \<mapsto> new_P2PService ''c'' 10]"
    and "m \<equiv> new_Message\<lparr>msg_header := new_MessageHeader\<lparr>mh_traceID := ''t''\<rparr>, msg_payload := Some ''data''\<rparr>"
  shows "good_route net ''c'' [''b'', ''c''] ''a'' \<and>
    (\<exists>m1 m'. wire 1000 (stamp ''c'' ''a'' m) = Some m1 \<and> (wire_fwd 1000 [] net ^^ 1) (''b'', m1) (''c'', m') \<and>
       svc_onRecvMessage [] m' (new_P2PService ''c'' 10) = [WsDispatch m'] \<and> payload_bytes m' = ''data'')"
proof -
  have r: "good_route net ''c'' [''b'', ''c''] ''a''"
    by (simp add: net_def node_def ses_def new_P2PService_def new_RouterTable_def getNextHop_def)
  have a: "net ''a'' = Some (node ''a'' ''b'' 2)" "net ''c'' = Some (new_P2PService ''c'' 10)"
    by (simp_all add: net_def)
  have s: "with_seq [] (stamp ''c'' ''a'' m) = stamp ''c'' ''a'' m" by (simp add: with_seq_def stamp_def m_def)
  have w: "wire_ok 1000 (with_seq [] (stamp ''c'' ''a'' m))"
    unfolding s by (simp add: wire_ok_def stamp_def m_def header_fits_def optional_fits_def new_MessageHeader_def
        new_MessageOptionalHeader_def header_encode_parts hasOptionalField_def MessageOptionalHeader_encode_def
        message_encode_bytes payload_bytes_def)
  have t: "mh_traceID (msg_header m) \<noteq> []" "header_ttl (msg_header m) = 0" "payload_bytes m = ''data''"
    by (simp_all add: m_def header_ttl_def new_MessageHeader_def payload_bytes_def)
  show ?thesis
    using message_delivered [OF r _ a(1) _ _ _ w, of False] r a(2) t by (auto simp: s)
qed

text \<open>
  An answer goes back the way the request came: \<open>sendRespMessageBySession\<close> sends over the given
  session one message that is marked as a response, carries the request's trace id and the payload,
  is routed by node id, and has the request's addresses exchanged.
\<close>

theorem response_mirrors_request:
  "\<exists>resp. sendRespMessageBySession session req payload = Inr [WsSend session resp] \<and>
    header_isRespPacket (msg_header resp) \<and> routeType (msg_header resp) = ROUTE_THROUGH_NODEID \<and>
    mh_traceID (msg_header resp) = mh_traceID (msg_header req) \<and> msg_payload resp = Some payload \<and>
    mh_srcGwNode (msg_header resp) = mh_dstGwNode (msg_header req) \<and>
    mh_dstGwNode (msg_header resp) = mh_srcGwNode (msg_header req) \<and>
    oh_srcNode (mh_optionalField (msg_header resp)) = oh_dstNode (mh_optionalField (msg_header req)) \<and>
    oh_dstNode (mh_optionalField (msg_header resp)) = oh_srcNode (mh_optionalField (msg_header req)) \<and>
    oh_srcInst (mh_optionalField (msg_header resp)) = oh_dstInst (mh_optionalField (msg_header req)) \<and>
    oh_dstInst (mh_optionalField (msg_header resp)) = oh_srcInst (mh_optionalField (msg_header req))"
  by (simp add: sendRespMessageBySession_def response_header_def Let_def message_setPayload_def
      header_setRespPacket_def header_isRespPacket_def routeType_def new_MessageHeader_def)

end
