(* ===== verification/Gateway.thy ===== *)
theory Gateway
  imports LocalRouter PeerRouter P2PService
begin

text \<open>
  The gateway: \<open>GatewayImpl\<close>, \<open>GatewayRouterManager\<close> and \<open>SendMessageWithRetry\<close> of
  wedpr-transport/ppc-gateway/ppc-gateway/gateway. It joins the local router, the table of other
  gateways, the peer-to-peer service and its router manager. The routing table of the service and of
  the router manager is one shared object; the state keeps it in the router manager and \<open>gw_svc\<close>
  shows the service with it.

  Shown: a node registered behind one gateway becomes routable at another by the exchange of sequence
  number and status; a message is sent locally, to other gateways or refused, with the caller told
  exactly once; the retry over several gateways stops at the first that accepts; what a gateway answers
  to a message from another one; and two places where the code does not do what it means to.
\<close>

record Gateway =
  gw_agency :: bytes
  gw_service :: P2PService
  gw_routerMgr :: RouterManager
  gw_local :: LocalRouter
  gw_peer :: PeerRouterTable
  gw_p2pID2Seq :: "(bytes, u32) smap"
  gw_running :: bool

definition new_Gateway :: "bytes \<Rightarrow> bytes \<Rightarrow> Gateway" where
  "new_Gateway nodeID agency =
     \<lparr>gw_agency = agency, gw_service = new_P2PService nodeID 10, gw_routerMgr = new_RouterManager nodeID,
      gw_local = new_LocalRouter nodeID agency True, gw_peer = new_PeerRouterTable, gw_p2pID2Seq = [],
      gw_running = False\<rparr>"

definition gw_svc :: "Gateway \<Rightarrow> P2PService" where
  "gw_svc g = (gw_service g)\<lparr>svc_routerTable := rm_routerTable (gw_routerMgr g)\<rparr>"

datatype gw_out =
    Svc svc_out
  | Rm rm_out
  | Lr lr_out
  | Tell receive_cb "string option"
  | StartRetry "bytes list" Message receive_cb
  | StartService | StopService | StartTimer | StopTimer

section \<open>The gateway router manager\<close>

definition removeUnreachableP2pNode :: "bytes \<Rightarrow> Gateway \<Rightarrow> Gateway" where
  "removeUnreachableP2pNode p g =
     g\<lparr>gw_p2pID2Seq := smap_erase p (gw_p2pID2Seq g), gw_peer := removeP2PID p (gw_peer g)\<rparr>"

definition statusChanged :: "bytes \<Rightarrow> u32 \<Rightarrow> Gateway \<Rightarrow> bool" where
  "statusChanged p2pNodeID seq g =
     (case map_of (gw_p2pID2Seq g) p2pNodeID of Some old \<Rightarrow> seq > old | None \<Rightarrow> True)"

definition msg_from :: "Message \<Rightarrow> WsSession \<Rightarrow> bytes" where
  "msg_from m session =
     (if mh_srcGwNode (msg_header m) \<noteq> [] then mh_srcGwNode (msg_header m) else ws_nodeId session)"

definition onReceiveNodeSeqMessage :: "bytes \<Rightarrow> Message \<Rightarrow> WsSession \<Rightarrow> Gateway \<Rightarrow> gw_out list res" where
  "onReceiveNodeSeqMessage newSeq m session g =
     rbind (read_u32 (payload_bytes m) 0) (\<lambda>statusSeq.
       Inr (if statusChanged (msg_from m session) (of_nat statusSeq) g
            then map Svc (asyncSendMessageByP2PNodeID newSeq False (packetCode RequestNodeStatus)
                            (msg_from m session) [] (gw_svc g))
            else []))"

definition broadcastStatusSeq :: "bytes \<Rightarrow> Gateway \<Rightarrow> gw_out list" where
  "broadcastStatusSeq newSeq g =
     map Svc (svc_asyncBroadcastMessage newSeq
       (message_setPayload (Some (net_u32 (unat (lr_statusSeq (gw_local g)))))
          (new_Message\<lparr>msg_header := (msg_header new_Message)\<lparr>mh_packetType := packetCode SyncNodeSeq\<rparr>\<rparr>))
       (gw_svc g))"

definition onReceiveRequestNodeStatusMsg ::
  "(raw_gateway \<Rightarrow> bytes) \<Rightarrow> bytes \<Rightarrow> Message \<Rightarrow> WsSession \<Rightarrow> Gateway \<Rightarrow> Gateway \<times> gw_out list" where
  "onReceiveRequestNodeStatusMsg pb newSeq m session g =
     (let (data, l) = generateNodeStatus pb (gw_local g); g' = g\<lparr>gw_local := l\<rparr>
      in (g', map Svc (asyncSendMessageByP2PNodeID newSeq False (packetCode ResponseNodeStatus)
                         (msg_from m session) data (gw_svc g'))))"

definition updatePeerNodeStatus :: "bytes \<Rightarrow> GatewayNodeInfo \<Rightarrow> Gateway \<Rightarrow> bool \<times> Gateway" where
  "updatePeerNodeStatus p2pID status g =
     (let seq = gi_statusSeq status;
          accept = (True, g\<lparr>gw_p2pID2Seq := smap_put p2pID seq (gw_p2pID2Seq g),
                            gw_peer := updateGatewayInfo status (gw_peer g)\<rparr>)
      in case map_of (gw_p2pID2Seq g) p2pID of
           Some old \<Rightarrow> if old \<ge> seq then (False, g) else accept
         | None \<Rightarrow> accept)"

text \<open>The protobuf reader throws on malformed bytes, which leaves the handler.\<close>

definition onRecvResponseNodeStatusMsg ::
  "(bytes \<Rightarrow> raw_gateway option) \<Rightarrow> Message \<Rightarrow> WsSession \<Rightarrow> Gateway \<Rightarrow> Gateway option" where
  "onRecvResponseNodeStatusMsg pb m session g =
     map_option (\<lambda>status. snd (updatePeerNodeStatus (msg_from m session) status g))
       (GatewayNodeInfo_decode pb (payload_bytes m)
          (new_GatewayNodeInfo (svc_nodeID (gw_service g)) (gw_agency g)))"

interpretation gateway_seq: seq_gate "\<lambda>p n. updatePeerNodeStatus p (status\<lparr>gi_statusSeq := n\<rparr>)"
  "\<lambda>g. map_of (gw_p2pID2Seq g)" for status
  by unfold_locales (auto simp: updatePeerNodeStatus_def Let_def map_of_smap_put not_le split: option.splits)

section \<open>Sending with retry\<close>

text \<open>
  What comes back for one attempt: an error of the transport with a non-zero code, or an answer with
  its payload. \<open>lexical\<close> is \<open>boost::lexical_cast<int>\<close>, which may throw. The timeout of one attempt is
  the transport's (an error of the first kind).
\<close>

datatype gw_reply = SendFailed int | Answer bytes

datatype retry_out = SendTo bytes | Respond "string option"

definition chooseP2pNode :: "bytes list \<Rightarrow> bytes option \<times> bytes list" where
  "chooseP2pNode dstNodeList = (case dstNodeList of [] \<Rightarrow> (None, []) | p # ps \<Rightarrow> (Some p, ps))"

definition reply_ok :: "(bytes \<Rightarrow> int option) \<Rightarrow> gw_reply \<Rightarrow> bool" where
  "reply_ok lexical r = (case r of SendFailed _ \<Rightarrow> False | Answer payload \<Rightarrow> lexical payload = Some 0)"

fun trySendMessage :: "(bytes \<Rightarrow> int option) \<Rightarrow> (bytes \<Rightarrow> gw_reply) \<Rightarrow> bytes list \<Rightarrow> retry_out list" where
  "trySendMessage lexical reply [] = [Respond (Some ''can't find the gateway to send the message'')]"
| "trySendMessage lexical reply (p # ps) =
     (case chooseP2pNode (p # ps) of
        (Some chosen, rest) \<Rightarrow>
          SendTo chosen # (case reply chosen of
             SendFailed _ \<Rightarrow> trySendMessage lexical reply ps
           | Answer payload \<Rightarrow>
               (case lexical payload of
                  None \<Rightarrow> trySendMessage lexical reply ps
                | Some respCode \<Rightarrow>
                    if respCode \<noteq> 0 then trySendMessage lexical reply ps else [Respond None]))
      | (None, rest) \<Rightarrow> [])"

section \<open>The gateway\<close>

definition gw_start :: "Gateway \<Rightarrow> Gateway \<times> gw_out list" where
  "gw_start g = (if gw_running g then (g, [])
     else (g\<lparr>gw_running := True\<rparr>, [StartService, StartTimer, StartTimer]))"

definition gw_stop :: "Gateway \<Rightarrow> Gateway \<times> gw_out list" where
  "gw_stop g = (if \<not> gw_running g then (g, [])
     else (g\<lparr>gw_running := False\<rparr>, [StopService, StopTimer, StopTimer]))"

text \<open>The handlers that the constructor registers with the service.\<close>

definition gw_onNewSession :: "WsSession \<Rightarrow> Gateway \<Rightarrow> Gateway \<times> gw_out list" where
  "gw_onNewSession session g =
     (let (un, rm, outs) = onNewSession (ws_nodeId session) (gw_routerMgr g)
      in (g\<lparr>gw_routerMgr := rm\<rparr>, map Rm outs))"

definition gw_onDeleteSession :: "WsSession \<Rightarrow> Gateway \<Rightarrow> Gateway \<times> gw_out list" where
  "gw_onDeleteSession session g =
     (let (un, rm, outs) = onEraseSession (ws_nodeId session) (gw_routerMgr g)
      in (g\<lparr>gw_routerMgr := rm\<rparr>, map Rm outs))"

text \<open>
  A new connection, and a closed one: the service's own handler runs first, calling the session
  handlers above; on closing, the gateway's own disconnect handler then forgets the session's node,
  whatever the service's handler found.
\<close>

definition gw_connect :: "(WsSession \<Rightarrow> bool) \<Rightarrow> WsSession \<Rightarrow> Gateway \<Rightarrow> Gateway \<times> gw_out list" where
  "gw_connect live session g =
     (let (svc, outs) = onP2PConnect live session (gw_svc g); g1 = g\<lparr>gw_service := svc\<rparr>
      in if CallNewSessionHandlers session \<in> set outs
         then let (g2, outs') = gw_onNewSession session g1 in (g2, map Svc outs @ outs')
         else (g1, map Svc outs))"

definition gw_disconnect :: "WsSession \<Rightarrow> Gateway \<Rightarrow> Gateway \<times> gw_out list" where
  "gw_disconnect session g =
     (let (svc, outs) = onP2PDisconnect session (gw_svc g); g1 = g\<lparr>gw_service := svc\<rparr>;
          (g2, outs') = (if CallDeleteSessionHandlers session \<in> set outs
                         then gw_onDeleteSession session g1 else (g1, []))
      in (removeUnreachableP2pNode (ws_nodeId session) g2, map Svc outs @ outs'))"

definition gw_build :: "RouteType \<Rightarrow> MessageOptionalHeader \<Rightarrow> bytes \<Rightarrow> u16 \<Rightarrow> bytes \<Rightarrow> Message res" where
  "gw_build rt routeInfo traceID packetType payload =
     rbind (build_routed rt routeInfo payload) (\<lambda>m.
       Inr (m\<lparr>msg_header := (msg_header m)\<lparr>mh_traceID := traceID, mh_packetType := packetType\<rparr>\<rparr>))"

definition gw_asyncSendMessage ::
  "RouteType \<Rightarrow> MessageOptionalHeader \<Rightarrow> bytes \<Rightarrow> bytes \<Rightarrow> receive_cb \<Rightarrow> Gateway \<Rightarrow> (Gateway \<times> gw_out list) res" where
  "gw_asyncSendMessage rt routeInfo traceID payload callback g =
     rbind (gw_build rt (routeInfo\<lparr>oh_srcInst := gw_agency g\<rparr>) traceID (packetCode P2PMessage) payload) (\<lambda>m.
     rbind (chooseReceiver m (gw_local g)) (\<lambda>nodeList.
       if nodeList \<noteq> []
       then rbind (dispatcherMessage m callback True (gw_local g)) (\<lambda>(_, l, outs).
              Inr (g\<lparr>gw_local := l\<rparr>, map Lr outs))
       else rbind (selectRouter rt (mh_optionalField (msg_header m)) (gw_peer g)) (\<lambda>selected.
              if selected = []
              then Inr (g, if callback \<noteq> NoCallback
                           then [Tell callback (Some ''can't find the gateway to send the message'')] else [])
              else Inr (g, [StartRetry (map gi_p2pNodeID (gws_list selected)) m callback]))))"

definition gw_asyncSendbroadcastMessage ::
  "bytes \<Rightarrow> (bytes \<Rightarrow> nat) \<Rightarrow> RouteType \<Rightarrow> MessageOptionalHeader \<Rightarrow> bytes \<Rightarrow> bytes \<Rightarrow> Gateway \<Rightarrow>
   (Gateway \<times> gw_out list) res" where
  "gw_asyncSendbroadcastMessage newSeq rnd rt routeInfo traceID payload g =
     rbind (gw_build rt (routeInfo\<lparr>oh_dstNode := [], oh_srcInst := gw_agency g\<rparr>) traceID
              (packetCode BroadcastMessage) payload) (\<lambda>m.
     rbind (dispatcherMessage m NoCallback True (gw_local g)) (\<lambda>(_, l, outs).
       let g' = g\<lparr>gw_local := l\<rparr> in
       case broadcast_targets (svc_nodeID (gw_service g)) (pr_agency2GatewayInfos (gw_peer g')) rnd of
         None \<Rightarrow> Inl OutOfRange
       | Some ps \<Rightarrow> Inr (g', map Lr outs @
           concat (map (\<lambda>p. map Svc (asyncSendMessageByNodeID newSeq False p m (gw_svc g'))) ps))))"

text \<open>
  The callback of \<open>onReceiveP2PMessage\<close> as a function of the error code it is called with; a response
  packet is not answered. \<open>gw_answering\<close> replaces the calls of that callback (number 0) in what the
  local router did by what the callback does.
\<close>

definition gw_answer :: "WsSession \<Rightarrow> Message \<Rightarrow> bytes \<Rightarrow> gw_out list" where
  "gw_answer session m code =
     (if header_isRespPacket (msg_header m) then []
      else case sendRespMessageBySession session m code of Inl _ \<Rightarrow> [] | Inr outs \<Rightarrow> map Svc outs)"

definition gw_answering :: "WsSession \<Rightarrow> Message \<Rightarrow> lr_out \<Rightarrow> gw_out list" where
  "gw_answering session m out =
     (case out of
        InvokeCallback (Callback n) None \<Rightarrow> gw_answer session m ''0''
      | _ \<Rightarrow> [Lr out])"

definition onReceiveP2PMessage :: "Message \<Rightarrow> WsSession \<Rightarrow> Gateway \<Rightarrow> (Gateway \<times> gw_out list) res" where
  "onReceiveP2PMessage m session g =
     rbind (dispatcherMessage m (Callback 0) True (gw_local g)) (\<lambda>(ret, l, outs).
       Inr (g\<lparr>gw_local := l\<rparr>, concat (map (gw_answering session m) outs) @
              (if \<not> ret then gw_answer session m ''1001'' else [])))"

definition onReceiveBroadcastMessage :: "Message \<Rightarrow> Gateway \<Rightarrow> (Gateway \<times> gw_out list) res" where
  "onReceiveBroadcastMessage m g =
     rbind (dispatcherMessage m NoCallback True (gw_local g)) (\<lambda>(_, l, outs).
       Inr (g\<lparr>gw_local := l\<rparr>, map Lr outs))"

definition gw_registerNodeInfo :: "(bytes \<Rightarrow> front option) \<Rightarrow> NodeInfo \<Rightarrow> Gateway \<Rightarrow> Gateway" where
  "gw_registerNodeInfo buildClient info g = g\<lparr>gw_local := snd (lr_registerNodeInfo buildClient info (gw_local g))\<rparr>"

text \<open>The handler a front client calls when it is unhealthy: the status number is raised twice.\<close>

definition gw_onUnHealth :: "NodeInfo \<Rightarrow> Gateway \<Rightarrow> Gateway" where
  "gw_onUnHealth info g = g\<lparr>gw_local := increaseSeq (unRegisterNode (ni_nodeID info) (gw_local g))\<rparr>"

definition gw_unRegisterNodeInfo :: "bytes \<Rightarrow> Gateway \<Rightarrow> Gateway" where
  "gw_unRegisterNodeInfo nodeID g = g\<lparr>gw_local := unRegisterNode nodeID (gw_local g)\<rparr>"

definition gw_registerTopic :: "bytes \<Rightarrow> bytes \<Rightarrow> Gateway \<Rightarrow> (Gateway \<times> gw_out list) res" where
  "gw_registerTopic nodeID topic g =
     rbind (lr_registerTopic nodeID topic (gw_local g)) (\<lambda>(l, outs). Inr (g\<lparr>gw_local := l\<rparr>, map Lr outs))"

definition gw_unRegisterTopic :: "bytes \<Rightarrow> bytes \<Rightarrow> Gateway \<Rightarrow> Gateway" where
  "gw_unRegisterTopic nodeID topic g = g\<lparr>gw_local := lr_unRegisterTopic nodeID topic (gw_local g)\<rparr>"

definition asyncGetAgencies :: "bytes list \<Rightarrow> Gateway \<Rightarrow> bytes set" where
  "asyncGetAgencies components g = insert (gw_agency g) (pr_agencies components (gw_peer g))"

definition getAliveNodeList :: "Gateway \<Rightarrow> NodeInfo list" where
  "getAliveNodeList g = map snd (gi_nodeList (lr_routerInfo (gw_local g)))"

section \<open>Node status travels between gateways\<close>

lemma generated_status:
  assumes pb: "\<And>r. pb_read (pb_write r) = Some r" and inv: "gi_inv (lr_routerInfo l)"
  shows "\<exists>h. GatewayNodeInfo_decode pb_read (fst (generateNodeStatus pb_write l)) g0 = Some h \<and>
    gi_p2pNodeID h = gi_p2pNodeID (lr_routerInfo l) \<and> gi_agency h = gi_agency (lr_routerInfo l) \<and>
    gi_statusSeq h = lr_statusSeq l \<and>
    gi_nodeList h = map (\<lambda>(k, n). (k, n\<lparr>ni_front := None\<rparr>)) (gi_nodeList (lr_routerInfo l))"
proof -
  let ?g = "(lr_routerInfo l)\<lparr>gi_statusSeq := lr_statusSeq l\<rparr>"
  have "gi_inv ?g" using inv by (simp add: gi_inv_def)
  from gateway_decode_encode [where pb_read = pb_read and pb_write = pb_write, OF pb this, of g0]
  show ?thesis by (auto simp: generateNodeStatus_def Let_def)
qed

lemma map_of_map_front: "map_of (map (\<lambda>(k, n). (k, n\<lparr>ni_front := None\<rparr>)) m) k = map_option (\<lambda>n. n\<lparr>ni_front := None\<rparr>) (map_of m k)"
  by (induction m) auto

text \<open>
  (C19) Status exchange. Gateway \<open>b\<close> announces its number; gateway \<open>a\<close>, having seen no number or a
  smaller one from it, asks; the status that \<open>b\<close> generates and \<open>a\<close> decodes is entered at \<open>a\<close> in place
  of what it knew of \<open>b\<close>. Then every node registered at \<open>b\<close> is routed by \<open>a\<close> to \<open>b\<close>, the tables of
  \<open>a\<close> stay in step with their specification, and the same announcement no longer leads to a request.
\<close>

theorem status_exchange:
  fixes pb_read :: "bytes \<Rightarrow> raw_gateway option" and pb_write :: "raw_gateway \<Rightarrow> bytes"
  assumes pb: "\<And>r. pb_read (pb_write r) = Some r"
    and inv: "gi_inv (lr_routerInfo (gw_local b))" and ref: "refines (gw_peer a) A"
    and id: "gi_p2pNodeID (lr_routerInfo (gw_local b)) = p" and m: "msg_from m ses = p"
    and new: "statusChanged p (lr_statusSeq (gw_local b)) a"
  defines "status \<equiv> fst (generateNodeStatus pb_write (gw_local b))"
  shows "\<exists>a' h. onRecvResponseNodeStatusMsg pb_read (message_setPayload (Some status) m) ses a = Some a' \<and>
    refines (gw_peer a') (A(p \<mapsto> h)) \<and> gi_agency h = gi_agency (lr_routerInfo (gw_local b)) \<and>
    (\<forall>k. nodeInfo (lr_routerInfo (gw_local b)) k \<noteq> None \<longrightarrow>
       h \<in> set (gws_list (selectRouterByNodeID (new_MessageOptionalHeader\<lparr>oh_dstNode := k\<rparr>) (gw_peer a')))) \<and>
    \<not> statusChanged p (lr_statusSeq (gw_local b)) a'"
proof -
  let ?m = "message_setPayload (Some status) m"
  have pl: "payload_bytes ?m = status" "msg_from ?m ses = p"
    using m by (auto simp: payload_bytes_def message_setPayload_def msg_from_def)
  obtain h where h: "GatewayNodeInfo_decode pb_read status (new_GatewayNodeInfo (svc_nodeID (gw_service a)) (gw_agency a)) = Some h"
    "gi_p2pNodeID h = p" "gi_agency h = gi_agency (lr_routerInfo (gw_local b))" "gi_statusSeq h = lr_statusSeq (gw_local b)"
    "gi_nodeList h = map (\<lambda>(k, n). (k, n\<lparr>ni_front := None\<rparr>)) (gi_nodeList (lr_routerInfo (gw_local b)))"
    using generated_status [where pb_read = pb_read and pb_write = pb_write, OF pb inv] id
    unfolding status_def by metis
  define a' where "a' = a\<lparr>gw_p2pID2Seq := smap_put p (gi_statusSeq h) (gw_p2pID2Seq a), gw_peer := updateGatewayInfo h (gw_peer a)\<rparr>"
  have up: "updatePeerNodeStatus p h a = (True, a')"
    using new h(4) by (auto simp: updatePeerNodeStatus_def statusChanged_def a'_def Let_def split: option.splits)
  have r: "refines (gw_peer a') (A(p \<mapsto> h))"
    using refines_update [OF ref, of h] h(2) by (simp add: a'_def)
  then have okn: "index_ok (pr_nodeID2GatewayInfos (gw_peer a'))"
    and look: "look2 (pr_nodeID2GatewayInfos (gw_peer a')) k p = Some h \<longleftrightarrow> nodeInfo h k \<noteq> None" for k
    by (simp_all add: refines_def)
  have "nodeInfo h k \<noteq> None" if "nodeInfo (lr_routerInfo (gw_local b)) k \<noteq> None" for k
    using that by (simp add: nodeInfo_def h(5) map_of_map_front)
  then have "h \<in> set (gws_list (selectRouterByNodeID (new_MessageOptionalHeader\<lparr>oh_dstNode := k\<rparr>) (gw_peer a')))"
    if "nodeInfo (lr_routerInfo (gw_local b)) k \<noteq> None" for k
    using that look [of k] index_gws [OF okn, of h k] by (auto simp: selectRouterByNodeID_def)
  moreover have "\<not> statusChanged p (lr_statusSeq (gw_local b)) a'"
    by (simp add: statusChanged_def a'_def map_of_smap_put h(4))
  ultimately show ?thesis
    using r h(3)
    by (intro exI [of _ a'] exI [of _ h]) (simp add: onRecvResponseNodeStatusMsg_def pl h(1) up)
qed

theorem status_exchange_witness:
  defines "b \<equiv> (new_Gateway ''gw'' ''bank'')\<lparr>gw_local := \<lparr>lr_routerInfo = sample_gateway, lr_statusSeq = 5, lr_cache = None\<rparr>\<rparr>"
    and "a \<equiv> new_Gateway ''me'' ''lab''" and "ses \<equiv> \<lparr>ws_nodeId = ''gw'', ws_endPoint = []\<rparr>"
  shows "\<exists>a' h. onRecvResponseNodeStatusMsg pb_read_gateway
      (message_setPayload (Some (fst (generateNodeStatus pb_write_gateway (gw_local b)))) new_Message) ses a = Some a' \<and>
    h \<in> set (gws_list (selectRouterByNodeID (new_MessageOptionalHeader\<lparr>oh_dstNode := ''n1''\<rparr>) (gw_peer a'))) \<and> gi_agency h = ''bank''"
proof -
  have l: "lr_routerInfo (gw_local b) = sample_gateway" by (simp add: b_def)
  have g: "gi_p2pNodeID sample_gateway = ''gw''" "gi_agency sample_gateway = ''bank''"
    by (simp_all add: sample_gateway_def new_GatewayNodeInfo_def)
  have p: "gw_peer a = new_PeerRouterTable" "gw_p2pID2Seq a = []" by (simp_all add: a_def new_Gateway_def)
  have "\<exists>a' h. onRecvResponseNodeStatusMsg pb_read_gateway
      (message_setPayload (Some (fst (generateNodeStatus pb_write_gateway (gw_local b)))) new_Message) ses a = Some a' \<and>
    refines (gw_peer a') (Map.empty(''gw'' \<mapsto> h)) \<and> gi_agency h = gi_agency (lr_routerInfo (gw_local b)) \<and>
    (\<forall>k. nodeInfo (lr_routerInfo (gw_local b)) k \<noteq> None \<longrightarrow>
       h \<in> set (gws_list (selectRouterByNodeID (new_MessageOptionalHeader\<lparr>oh_dstNode := k\<rparr>) (gw_peer a')))) \<and>
    \<not> statusChanged ''gw'' (lr_statusSeq (gw_local b)) a'"
    by (rule status_exchange [OF pb_read_write])
      (use sample_gateway_inv g p refines_new in \<open>simp_all add: l msg_from_def ses_def new_Message_def new_MessageHeader_def statusChanged_def\<close>)
  moreover have "nodeInfo sample_gateway ''n1'' \<noteq> None" by (simp add: sample_nodes)
  ultimately show ?thesis using g by (auto simp: l)
qed

section \<open>Retrying\<close>

text \<open>
  Sending with retry. The gateways are tried in order, each at most once, up to the first one that
  answers 0; then the caller is told success. If none does (a transport error, another code, or an
  answer that is not a number), all are tried and the caller is told the failure. The caller is told
  exactly once, after the last attempt.
\<close>

theorem retry_spec:
  "(\<exists>pre p post. ps = pre @ p # post \<and> list_all (\<lambda>q. \<not> reply_ok lexical (reply q)) pre \<and>
      reply_ok lexical (reply p) \<and>
      trySendMessage lexical reply ps = map SendTo (pre @ [p]) @ [Respond None]) \<or>
   (list_all (\<lambda>q. \<not> reply_ok lexical (reply q)) ps \<and>
      (\<exists>err. trySendMessage lexical reply ps = map SendTo ps @ [Respond (Some err)]))"
proof (induction ps)
  case (Cons p ps)
  show ?case
  proof (cases "reply_ok lexical (reply p)")
    case True
    then have "trySendMessage lexical reply (p # ps) = [SendTo p, Respond None]"
      by (auto simp: reply_ok_def chooseP2pNode_def split: gw_reply.splits)
    with True show ?thesis
      by (intro disjI1 exI [of _ "[]"] exI [of _ p] exI [of _ ps]) (simp del: trySendMessage.simps)
  next
    case False
    then have step: "trySendMessage lexical reply (p # ps) = SendTo p # trySendMessage lexical reply ps"
      by (auto simp: reply_ok_def chooseP2pNode_def split: gw_reply.splits option.splits)
    from Cons show ?thesis
    proof (elim disjE exE conjE)
      fix pre q post
      assume "ps = pre @ q # post" "list_all (\<lambda>q. \<not> reply_ok lexical (reply q)) pre" "reply_ok lexical (reply q)"
        "trySendMessage lexical reply ps = map SendTo (pre @ [q]) @ [Respond None]"
      with step False show ?thesis
        by (intro disjI1 exI [of _ "p # pre"] exI [of _ q] exI [of _ post]) (simp del: trySendMessage.simps)
    qed (use step False in \<open>simp del: trySendMessage.simps\<close>)
  qed
qed auto

theorem retry_spec_witness:
  "trySendMessage (\<lambda>b. if b = ''0'' then Some 0 else None)
     (\<lambda>p. if p = ''g2'' then Answer ''0'' else SendFailed 1) [''g1'', ''g2'', ''g3''] =
   map SendTo [''g1'', ''g2''] @ [Respond None]"
  using retry_spec [of "[''g1'', ''g2'', ''g3'']" "\<lambda>b. if b = ''0'' then Some 0 else None"
      "\<lambda>p. if p = ''g2'' then Answer ''0'' else SendFailed 1"]
  by (simp add: chooseP2pNode_def)

section \<open>Sending a message\<close>

text \<open>
  (C28) Where a message goes. For a known route type the gateway gives it to its own fronts when they
  match, otherwise starts the retry over the gateways that its table selects, otherwise tells the
  caller that there is none; exactly one of the three happens. The caller's callback is used by the
  first local front, by the retry, or at once, and never more than once. The tables do not change.
\<close>

theorem send_message_spec:
  fixes g :: Gateway
  assumes rt: "rt \<notin> range ROUTE_UNKNOWN"
  shows "\<exists>m fs sel outs. gw_build rt (ri\<lparr>oh_srcInst := gw_agency g\<rparr>) tr (packetCode P2PMessage) pl = Inr m \<and>
    routeType (msg_header m) = rt \<and> msg_payload m = Some pl \<and> mh_optionalField (msg_header m) = ri\<lparr>oh_srcInst := gw_agency g\<rparr> \<and>
    chooseReceiver m (gw_local g) = Inr fs \<and> selectRouter rt (ri\<lparr>oh_srcInst := gw_agency g\<rparr>) (gw_peer g) = Inr sel \<and>
    gw_asyncSendMessage rt ri tr pl (Callback n) g = Inr (g, outs) \<and>
    outs = (if fs \<noteq> [] then map Lr (FrontReceive (hd fs) m (Callback n) # map (\<lambda>f. FrontReceive f m CommonCallback) (tl fs))
            else if sel \<noteq> [] then [StartRetry (map gi_p2pNodeID (gws_list sel)) m (Callback n)]
            else [Tell (Callback n) (Some ''can't find the gateway to send the message'')])"
proof -
  let ?ri = "ri\<lparr>oh_srcInst := gw_agency g\<rparr>"
  obtain m where m: "gw_build rt ?ri tr (packetCode P2PMessage) pl = Inr m" "routeType (msg_header m) = rt"
    "msg_payload m = Some pl" "mh_optionalField (msg_header m) = ?ri"
    using rt by (cases rt) (auto simp: gw_build_def build_routed_def message_setPayload_def Let_def
        new_Message_def new_MessageHeader_def routeType_def)
  obtain fs where fs: "chooseReceiver m (gw_local g) = Inr fs" using chooseReceiver_total by blast
  obtain sel where sel: "selectRouter rt ?ri (gw_peer g) = Inr sel"
    using rt by (cases rt) (auto simp: selectRouter_def)
  have "dispatcherMessage m (Callback n) True (gw_local g) = Inr (True, gw_local g, send_fronts m (Callback n) fs)"
    if "fs \<noteq> []" using fs that by (simp add: dispatcherMessage_def Let_def)
  then show ?thesis
    using m fs sel by (cases fs) (auto simp: gw_asyncSendMessage_def)
qed

theorem send_message_spec_witness:
  "ROUTE_THROUGH_NODEID \<notin> range ROUTE_UNKNOWN \<and>
   (\<exists>outs. gw_asyncSendMessage ROUTE_THROUGH_NODEID (new_MessageOptionalHeader\<lparr>oh_dstNode := ''x''\<rparr>) ''t'' ''pl'' (Callback 1)
     (new_Gateway ''me'' ''lab'') = Inr (new_Gateway ''me'' ''lab'', outs))"
  using send_message_spec [of ROUTE_THROUGH_NODEID "new_Gateway ''me'' ''lab''" "new_MessageOptionalHeader\<lparr>oh_dstNode := ''x''\<rparr>" "''t''" "''pl''" 1]
  by blast

section \<open>Answering another gateway\<close>

text \<open>
  A message from another gateway is answered once. A request gets, over the session it came by,
  either no answer now, because the first matching front has the callback that will answer, or exactly
  one answer: 0 when the message is held for its topic, 1001 when nobody takes it. A response packet
  is never answered. The answer is a response to the request.
\<close>

theorem p2p_message_answered_once:
  fixes g :: Gateway
  defines "answers \<equiv> \<lambda>outs. filter (\<lambda>out. case out of Svc _ \<Rightarrow> True | _ \<Rightarrow> False) outs"
    and "waiting \<equiv> \<lambda>outs. filter (\<lambda>out. case out of Lr (FrontReceive f m' c) \<Rightarrow> c = Callback 0 | _ \<Rightarrow> False) outs"
  shows "\<exists>g' outs fs. onReceiveP2PMessage m ses g = Inr (g', outs) \<and> chooseReceiver m (gw_local g) = Inr fs \<and>
    length (waiting outs) = (if fs = [] then 0 else 1) \<and>
    (if header_isRespPacket (msg_header m) then answers outs = []
     else if fs \<noteq> [] then answers outs = []
     else \<exists>h resp. response_header (msg_header m) = Inr h \<and>
       resp = message_setPayload (Some (if gw_local g' = gw_local g then ''1001'' else ''0'')) (new_Message\<lparr>msg_header := h\<rparr>) \<and>
       answers outs = [Svc (WsSend ses resp)])"
proof -
  obtain fs where fs: "chooseReceiver m (gw_local g) = Inr fs" using chooseReceiver_total by blast
  obtain h where h: "response_header (msg_header m) = Inr h" by (simp add: response_header_def Let_def)
  have ans: "gw_answer ses m c = (if header_isRespPacket (msg_header m) then []
      else [Svc (WsSend ses (message_setPayload (Some c) (new_Message\<lparr>msg_header := h\<rparr>)))])" for c
    by (simp add: gw_answer_def sendRespMessageBySession_def h)
  show ?thesis
  proof (cases fs)
    case (Cons f rest)
    then have d: "dispatcherMessage m (Callback 0) True (gw_local g) = Inr (True, gw_local g, send_fronts m (Callback 0) fs)"
      using fs by (simp add: dispatcherMessage_def Let_def)
    have "concat (map (gw_answering ses m) (send_fronts m (Callback 0) fs)) = map Lr (send_fronts m (Callback 0) fs)"
      by (simp add: Cons gw_answering_def comp_def)
    then show ?thesis
      using d fs Cons by (simp add: onReceiveP2PMessage_def answers_def waiting_def filter_empty_conv)
  next
    case Nil
    have neq: "c \<noteq> insertCache t i c" for c :: msg_cache and t i
    proof
      assume "c = insertCache t i c"
      then have "length (cache_pending c t) = Suc (length (cache_pending c t))"
        using cache.pending_hold [of t i c t] by simp
      then show False by simp
    qed
    have lneq: "gw_local g\<lparr>lr_cache := Some (insertCache t i c)\<rparr> \<noteq> gw_local g" if "lr_cache (gw_local g) = Some c" for t i c
      using neq [of c t i] that by (metis LocalRouter.select_convs(3) LocalRouter.surjective LocalRouter.update_convs(3) option.inject)
    have fin: ?thesis if "onReceiveP2PMessage m ses g = Inr (g', gw_answer ses m (if gw_local g' = gw_local g then ''1001'' else ''0''))" for g'
      using that fs Nil h by (intro exI [of _ g'] exI conjI) (assumption, assumption, auto simp: ans answers_def waiting_def)
    show ?thesis
    proof (cases "oh_topic (mh_optionalField (msg_header m)) \<noteq> [] \<and> routeType (msg_header m) = ROUTE_THROUGH_TOPIC \<and> lr_cache (gw_local g) \<noteq> None")
      case True
      then obtain c where c: "lr_cache (gw_local g) = Some c" by blast
      let ?l = "gw_local g\<lparr>lr_cache := Some (insertCache (oh_topic (mh_optionalField (msg_header m)))
          \<lparr>mi_msg = m, mi_callback = CommonCallback\<rparr> c)\<rparr>"
      have "dispatcherMessage m (Callback 0) True (gw_local g) = Inr (True, ?l, [InvokeCallback (Callback 0) None])"
        using fs Nil True c by (simp add: dispatcherMessage_def Let_def)
      then show ?thesis
        using lneq [OF c] by (intro fin [of "g\<lparr>gw_local := ?l\<rparr>"]) (simp add: onReceiveP2PMessage_def gw_answering_def)
    next
      case False
      then have "dispatcherMessage m (Callback 0) True (gw_local g) = Inr (False, gw_local g, [])"
        using fs Nil by (auto simp: dispatcherMessage_def Let_def split: option.splits)
      then show ?thesis by (intro fin [of g]) (simp add: onReceiveP2PMessage_def)
    qed
  qed
qed

section \<open>Two divergences\<close>

text \<open>
  A broadcast loses its optional header on the way: only packets of type \<open>P2PMessage\<close> carry it,
  so the gateway that receives a broadcast routed by topic gives it to every front it has, whatever the
  topic was, although the sending gateway gives it only to the fronts registered for the topic.
\<close>

theorem broadcast_loses_topic:
  assumes build: "gw_build ROUTE_THROUGH_TOPIC ri tr (packetCode BroadcastMessage) pl = Inr m"
    and tr: "length tr < 2 ^ 16 - 14"
    and size: "length (fst (Message_encode m)) \<le> maxLen" and small: "maxLen < 2 ^ 32"
  shows "\<exists>m'. Message_decode maxLen new_Message (fst (Message_encode m)) = Inr (m', length (fst (Message_encode m))) \<and>
    payload_bytes m' = pl \<and> mh_optionalField (msg_header m') = new_MessageOptionalHeader \<and>
    chooseReceiver m' l = Inr (List.map_filter (\<lambda>(k, n). ni_front n) (gi_nodeList (lr_routerInfo l))) \<and>
    (oh_dstInst ri \<in> {[], gi_agency (lr_routerInfo l)} \<and> oh_topic ri \<noteq> [] \<longrightarrow>
       chooseReceiver m l = Inr (chooseRouterByTopic True (oh_srcNode ri) (oh_topic ri) (lr_routerInfo l)))"
proof -
  let ?h = "msg_header m"
  have m: "?h = new_MessageHeader\<lparr>mh_ext := extFlag RouteByTopic, mh_optionalField := ri,
      mh_traceID := tr, mh_packetType := packetCode BroadcastMessage\<rparr>" "msg_payload m = Some pl"
    using build by (auto simp: gw_build_def build_routed_def message_setPayload_def Let_def new_Message_def
        new_MessageHeader_def)
  have opt: "\<not> hasOptionalField ?h" by (simp add: m hasOptionalField_def)
  have fits: "header_fits ?h" using tr opt by (simp add: header_fits_def m new_MessageHeader_def)
  have n: "length (fst (MessageHeader_encode ?h)) = 14 + length tr"
    using opt by (simp add: header_encode_parts) (simp add: m new_MessageHeader_def)
  obtain m' where m': "Message_decode maxLen new_Message (fst (Message_encode m)) = Inr (m', length (fst (Message_encode m)))"
    "msg_header m' = ?h\<lparr>mh_length := of_nat (14 + length tr), mh_optionalField := new_MessageOptionalHeader\<rparr>"
    "payload_bytes m' = drop ((14 + length tr) mod 2 ^ 16) (fst (Message_encode m))"
    using message_decode_payload [OF fits size small] opt n by auto
  have "payload_bytes m' = pl"
  proof -
    have "(14 + length tr) mod 2 ^ 16 = length (fst (MessageHeader_encode ?h))" using tr by (simp add: n)
    then show ?thesis unfolding m'(3) by (simp add: message_encode_bytes payload_bytes_def m(2))
  qed
  moreover have "chooseReceiver m' l = Inr (List.map_filter (\<lambda>(k, n). ni_front n) (gi_nodeList (lr_routerInfo l)))"
    by (simp add: chooseReceiver_def m'(2) m(1) Let_def routeType_def new_MessageOptionalHeader_def
        chooseRouterByTopic_def choose_loop_all)
  moreover have "oh_dstInst ri \<in> {[], gi_agency (lr_routerInfo l)} \<and> oh_topic ri \<noteq> [] \<longrightarrow>
       chooseReceiver m l = Inr (chooseRouterByTopic True (oh_srcNode ri) (oh_topic ri) (lr_routerInfo l))"
    by (auto simp: chooseReceiver_def m(1) Let_def routeType_def)
  ultimately show ?thesis using m'(1,2) by auto
qed

theorem broadcast_loses_topic_witness:
  defines "ri \<equiv> new_MessageOptionalHeader\<lparr>oh_topic := ''job'', oh_srcNode := ''z''\<rparr>"
    and "l \<equiv> \<lparr>lr_routerInfo = sample_gateway, lr_statusSeq = 1, lr_cache = None\<rparr>"
  shows "\<exists>m m'. gw_build ROUTE_THROUGH_TOPIC ri ''t'' (packetCode BroadcastMessage) ''p'' = Inr m \<and>
    Message_decode 1000 new_Message (fst (Message_encode m)) = Inr (m', length (fst (Message_encode m))) \<and>
    chooseReceiver m' l = Inr [''n1:80'', ''n2:80''] \<and> chooseReceiver m l = Inr [''n2:80'']"
proof -
  obtain m where m: "gw_build ROUTE_THROUGH_TOPIC ri ''t'' (packetCode BroadcastMessage) ''p'' = Inr m"
    by (simp add: gw_build_def build_routed_def)
  have len: "length (fst (Message_encode m)) \<le> 1000"
    using m by (auto simp: gw_build_def build_routed_def message_setPayload_def Let_def message_encode_bytes
        header_encode_parts hasOptionalField_def payload_bytes_def new_Message_def new_MessageHeader_def)
  have fronts: "List.map_filter (\<lambda>(k, n). ni_front n) (gi_nodeList sample_gateway) = [''n1:80'', ''n2:80'']"
    by (simp add: sample_gateway_def List.map_filter_def sample_node_def encodeFields_def)
  have "chooseRouterByTopic True ''z'' ''job'' sample_gateway = [''n2:80'']"
  proof -
    have "gi_topicInfo sample_gateway = [(''n2'', {''job''})]" by (simp add: sample_gateway_def)
    then show ?thesis
      by (simp add: chooseRouterByTopic_def choose_loop_all List.map_filter_def sample_nodes)
        (simp add: sample_node_def encodeFields_def new_NodeInfo_def)
  qed
  with broadcast_loses_topic [OF m _ len, of l] fronts m show ?thesis
    by (auto simp: l_def ri_def new_MessageOptionalHeader_def)
qed

text \<open>
  Closing a duplicate connection forgets a live peer. When a node with a live session connects a
  second time from another endpoint, the second connection is dropped and the session stays; but its
  closing runs the gateway's disconnect handler, which removes the peer's description and its sequence
  number although the peer is still connected and routed. Its nodes are unroutable until the next
  announcement, which is then taken as new.
\<close>

theorem duplicate_close_forgets_peer:
  assumes live: "svc_nodeID2Session (gw_service g) p = Some old" "up old" "ws_endPoint old \<noteq> ws_endPoint dup"
    and dup: "ws_nodeId dup = p" and ref: "refines (gw_peer g) A"
  defines "g1 \<equiv> fst (gw_connect up dup g)"
  defines "g2 \<equiv> fst (gw_disconnect dup g1)"
  shows "snd (gw_connect up dup g) = [Svc (DropSession dup)] \<and>
    svc_nodeID2Session (gw_service g2) p = Some old \<and> gw_routerMgr g2 = gw_routerMgr g \<and>
    refines (gw_peer g2) (A(p := None)) \<and> statusChanged p n g2"
proof -
  have up: "svc_nodeID2Session (snd (updateNodeIDInfo dup s)) = svc_nodeID2Session s" for s
    by (simp add: updateNodeIDInfo_keeps)
  have c: "gw_connect up dup g = (g\<lparr>gw_service := snd (updateNodeIDInfo dup (gw_svc g))\<rparr>, [Svc (DropSession dup)])"
    using live dup by (simp add: gw_connect_def onP2PConnect_def gw_svc_def Let_def)
  have d: "onP2PDisconnect dup (gw_svc g1) = (gw_svc g1, [])"
    using live dup up by (simp add: g1_def c onP2PDisconnect_def removeSessionInfo_def gw_svc_def)
  have g2: "g2 = removeUnreachableP2pNode p (g1\<lparr>gw_service := gw_svc g1\<rparr>)"
    using d dup by (simp add: g2_def gw_disconnect_def)
  show ?thesis
    using c refines_remove [OF ref, of p] live(1) up
    by (simp add: g2 g1_def removeUnreachableP2pNode_def gw_svc_def statusChanged_def map_of_smap_erase)
qed

theorem duplicate_close_forgets_peer_witness:
  defines "old \<equiv> \<lparr>ws_nodeId = ''gw'', ws_endPoint = ''e1''\<rparr>" and "dup \<equiv> \<lparr>ws_nodeId = ''gw'', ws_endPoint = ''e2''\<rparr>"
  defines "g \<equiv> (new_Gateway ''me'' ''lab'')\<lparr>gw_service := (new_P2PService ''me'' 10)\<lparr>svc_nodeID2Session := [''gw'' \<mapsto> old]\<rparr>,
      gw_peer := updateGatewayInfo sample_gateway new_PeerRouterTable\<rparr>"
  shows "svc_nodeID2Session (gw_service (fst (gw_disconnect dup (fst (gw_connect (\<lambda>_. True) dup g))))) ''gw'' = Some old \<and>
    refines (gw_peer (fst (gw_disconnect dup (fst (gw_connect (\<lambda>_. True) dup g))))) Map.empty"
proof -
  have id: "gi_p2pNodeID sample_gateway = ''gw''" by (simp add: sample_gateway_def new_GatewayNodeInfo_def)
  have ref: "refines (gw_peer g) [''gw'' \<mapsto> sample_gateway]"
    using refines_update [OF refines_new, of sample_gateway] by (simp add: id g_def)
  show ?thesis
    using duplicate_close_forgets_peer [OF _ _ _ _ ref, of "''gw''" old "\<lambda>_. True" dup]
    by (simp add: g_def old_def dup_def)
qed

end
