(* ===== verification/Channel.thy ===== *)
theory Channel
  imports PPCMessage
begin

text \<open>
  The channel of a task: \<open>PPCChannel\<close> and \<open>PPCChannelManager\<close> of
  wedpr-transport/ppc-front/ppc-front. A channel matches arriving messages with waiting handlers by
  the key made of message type and sequence number; the manager keeps one channel per task and holds
  the messages of tasks whose channel is not built yet.

  Handlers are numbered; calling one, directly or on the thread pool, is the output \<open>HandlerCall\<close>,
  with the message or, after a timeout, without. A waiting handler's timer is the event
  \<open>channel_onTimer\<close>, the timer of held messages the event \<open>removeHoldingMessages\<close>.

  Shown: keys are injective; a message and a handler never wait for each other; each handler is called
  at most once; whichever of the two comes first, they meet; messages that arrive before the channel
  is built are handed to it in order.
\<close>

unbundle bit_operations_syntax

record PPCChannel =
  ch_handlers :: "u64 \<rightharpoonup> nat"
  ch_messages :: "u64 \<rightharpoonup> PPCMessage"

datatype ch_out = HandlerCall nat "PPCMessage option"

definition new_PPCChannel :: PPCChannel where
  "new_PPCChannel = \<lparr>ch_handlers = Map.empty, ch_messages = Map.empty\<rparr>"

definition messageKey :: "u8 \<Rightarrow> u32 \<Rightarrow> u64" where
  "messageKey messageType seq = push_bit 32 (ucast messageType) OR ucast seq"

definition addHandler :: "u64 \<Rightarrow> nat \<Rightarrow> PPCChannel \<Rightarrow> PPCChannel" where
  "addHandler k h c = c\<lparr>ch_handlers := (ch_handlers c)(k \<mapsto> h)\<rparr>"

definition getAndRemoveHandler :: "u64 \<Rightarrow> PPCChannel \<Rightarrow> nat option \<times> PPCChannel" where
  "getAndRemoveHandler k c =
     (case ch_handlers c k of
        None \<Rightarrow> (None, c)
      | Some h \<Rightarrow> (Some h, c\<lparr>ch_handlers := (ch_handlers c)(k := None)\<rparr>))"

definition addMessage :: "u64 \<Rightarrow> PPCMessage \<Rightarrow> PPCChannel \<Rightarrow> PPCChannel" where
  "addMessage k m c = c\<lparr>ch_messages := (ch_messages c)(k \<mapsto> m)\<rparr>"

definition getAndRemoveMessage :: "u64 \<Rightarrow> PPCChannel \<Rightarrow> PPCMessage option \<times> PPCChannel" where
  "getAndRemoveMessage k c =
     (case ch_messages c k of
        None \<Rightarrow> (None, c)
      | Some m \<Rightarrow> (Some m, c\<lparr>ch_messages := (ch_messages c)(k := None)\<rparr>))"

text \<open>A null handler returns at once.\<close>

definition asyncReceiveMessage :: "u8 \<Rightarrow> u32 \<Rightarrow> nat option \<Rightarrow> PPCChannel \<Rightarrow> PPCChannel \<times> ch_out list" where
  "asyncReceiveMessage messageType seq handler c =
     (case handler of
        None \<Rightarrow> (c, [])
      | Some h \<Rightarrow>
          let k = messageKey messageType seq; (msg, c') = getAndRemoveMessage k c
          in case msg of
               Some m \<Rightarrow> (c', [HandlerCall h (Some m)])
             | None \<Rightarrow> (addHandler k h c', []))"

definition channel_onTimer :: "u8 \<Rightarrow> u32 \<Rightarrow> PPCChannel \<Rightarrow> PPCChannel \<times> ch_out list" where
  "channel_onTimer messageType seq c =
     (case getAndRemoveHandler (messageKey messageType seq) c of
        (None, c') \<Rightarrow> (c', [])
      | (Some h, c') \<Rightarrow> (c', [HandlerCall h None]))"

definition channel_onMessageArrived :: "u8 \<Rightarrow> PPCMessage \<Rightarrow> PPCChannel \<Rightarrow> PPCChannel \<times> ch_out list" where
  "channel_onMessageArrived messageType m c =
     (let k = messageKey messageType (ppc_seq m)
      in case getAndRemoveHandler k c of
           (Some h, c') \<Rightarrow> (c', [HandlerCall h (Some m)])
         | (None, c') \<Rightarrow> (addMessage k m c', []))"

section \<open>Keys\<close>

lemma messageKey_low: "ucast (messageKey t s) = s"
  by (rule bit_word_eqI) (auto simp: messageKey_def bit_simps)

lemma messageKey_high: "ucast (drop_bit 32 (messageKey t s)) = t"
proof (rule bit_word_eqI)
  fix n
  assume "n < LENGTH(8)"
  moreover have "\<not> bit s (32 + n)" by (simp add: bit_word_def)
  ultimately show "bit (ucast (drop_bit 32 (messageKey t s)) :: u8) n = bit t n"
    by (auto simp: messageKey_def bit_simps)
qed

lemma messageKey_inj: "messageKey t s = messageKey t' s' \<longleftrightarrow> t = t' \<and> s = s'"
  by (metis messageKey_low messageKey_high)

section \<open>Meeting\<close>

definition ch_inv :: "PPCChannel \<Rightarrow> bool" where
  "ch_inv c \<longleftrightarrow> dom (ch_handlers c) \<inter> dom (ch_messages c) = {}"

datatype ch_event = Receive u8 u32 nat | Timer u8 u32 | Arrive PPCMessage

fun ch_step :: "ch_event \<Rightarrow> PPCChannel \<Rightarrow> PPCChannel \<times> ch_out list" where
  "ch_step (Receive t s h) c = asyncReceiveMessage t s (Some h) c"
| "ch_step (Timer t s) c = channel_onTimer t s c"
| "ch_step (Arrive m) c = channel_onMessageArrived (ppc_messageType m) m c"

abbreviation ch_run :: "ch_event list \<Rightarrow> PPCChannel \<Rightarrow> PPCChannel \<times> ch_out list" where
  "ch_run \<equiv> run_steps ch_step"

lemmas channel_ops = asyncReceiveMessage_def channel_onTimer_def channel_onMessageArrived_def
  addHandler_def getAndRemoveHandler_def addMessage_def getAndRemoveMessage_def

lemma ch_step_inv: "ch_inv c \<Longrightarrow> ch_inv (fst (ch_step e c))"
  by (cases e) (auto simp: ch_inv_def channel_ops Let_def dom_def split: option.splits if_splits)

text \<open>
  A handler number that is registered once holds a credit of one call: it is waiting under one key, or
  not at all. Every step other than its own registration spends the credit when it calls the handler.
\<close>

definition waiting :: "nat \<Rightarrow> PPCChannel \<Rightarrow> bool" where
  "waiting h c \<longleftrightarrow> h \<in> ran (ch_handlers c)"

definition calls :: "nat \<Rightarrow> ch_out list \<Rightarrow> nat" where
  "calls h outs = length (filter (\<lambda>out. case out of HandlerCall h' _ \<Rightarrow> h' = h) outs)"

definition credit :: "nat \<Rightarrow> PPCChannel \<Rightarrow> nat" where
  "credit h c = (if waiting h c then 1 else 0)"

definition once_in :: "nat \<Rightarrow> PPCChannel \<Rightarrow> bool" where
  "once_in h c \<longleftrightarrow> (\<forall>k k'. ch_handlers c k = Some h \<and> ch_handlers c k' = Some h \<longrightarrow> k = k')"

lemma calls_simps [simp]:
  "calls h [] = 0"
  "calls h (HandlerCall h' m # xs) = (if h' = h then 1 else 0) + calls h xs"
  "calls h (xs @ ys) = calls h xs + calls h ys"
  by (simp_all add: calls_def)

lemma once_in_remove:
  assumes "once_in h c"
  shows "once_in h (c\<lparr>ch_handlers := (ch_handlers c)(k := None)\<rparr>)"
  using assms by (auto simp: once_in_def)

lemma credit_remove:
  assumes "once_in h c" and "ch_handlers c k = Some h'"
  shows "credit h (c\<lparr>ch_handlers := (ch_handlers c)(k := None)\<rparr>) + (if h' = h then 1 else 0) \<le> credit h c"
  using assms by (force simp: once_in_def credit_def waiting_def ran_def)

lemma once_in_remove_msg [simp]:
  "once_in h (c\<lparr>ch_messages := ms\<rparr>) = once_in h c"
  "credit h (c\<lparr>ch_messages := ms\<rparr>) = credit h c"
  by (auto simp: once_in_def credit_def waiting_def)

lemma add_other:
  assumes "h' \<noteq> h" and "once_in h c"
  shows "once_in h (c\<lparr>ch_handlers := (ch_handlers c)(k \<mapsto> h')\<rparr>) \<and>
         credit h (c\<lparr>ch_handlers := (ch_handlers c)(k \<mapsto> h')\<rparr>) \<le> credit h c"
  using assms by (auto simp: once_in_def credit_def waiting_def ran_def split: if_splits)

lemma ch_step_credit:
  assumes "\<forall>t s. e \<noteq> Receive t s h" and "once_in h c"
  shows "once_in h (fst (ch_step e c)) \<and> credit h (fst (ch_step e c)) + calls h (snd (ch_step e c)) \<le> credit h c"
proof (cases e)
  case (Receive t s h')
  then show ?thesis using assms add_other [of h' h c "messageKey t s"]
    by (cases "ch_messages c (messageKey t s)") (simp_all add: channel_ops Let_def)
next
  case (Timer t s)
  then show ?thesis using assms once_in_remove credit_remove
    by (cases "ch_handlers c (messageKey t s)") (simp_all add: channel_ops)
next
  case (Arrive m)
  then show ?thesis using assms once_in_remove credit_remove
    by (cases "ch_handlers c (messageKey (ppc_messageType m) (ppc_seq m))") (simp_all add: channel_ops Let_def)
qed

section \<open>Meeting of a message and its handler\<close>

fun event_key :: "ch_event \<Rightarrow> u64" where
  "event_key (Receive t s h) = messageKey t s"
| "event_key (Timer t s) = messageKey t s"
| "event_key (Arrive m) = messageKey (ppc_messageType m) (ppc_seq m)"

lemma ch_step_frame:
  assumes "event_key e \<noteq> k"
  shows "ch_handlers (fst (ch_step e c)) k = ch_handlers c k \<and> ch_messages (fst (ch_step e c)) k = ch_messages c k"
  using assms by (cases e) (auto simp: channel_ops Let_def split: option.splits)

lemma ch_run_frame:
  assumes "\<forall>e \<in> set es. event_key e \<noteq> k"
  shows "ch_handlers (fst (ch_run es c)) k = ch_handlers c k \<and> ch_messages (fst (ch_run es c)) k = ch_messages c k"
  using assms by (induction es arbitrary: c) (auto simp: split_beta Let_def ch_step_frame)

lemma ch_run_inv: "ch_inv c \<Longrightarrow> ch_inv (fst (ch_run es c))"
  using run_steps_inv [of ch_inv ch_step] ch_step_inv by blast

lemma new_ch_inv [simp]: "ch_inv new_PPCChannel"
  by (simp add: ch_inv_def new_PPCChannel_def)

lemma receive_no_message:
  "ch_messages c (messageKey t s) = None \<Longrightarrow>
   asyncReceiveMessage t s (Some h) c = (c\<lparr>ch_handlers := (ch_handlers c)(messageKey t s \<mapsto> h)\<rparr>, [])"
  by (simp add: channel_ops Let_def)

lemma receive_message:
  "ch_messages c (messageKey t s) = Some m \<Longrightarrow>
   asyncReceiveMessage t s (Some h) c =
     (c\<lparr>ch_messages := (ch_messages c)(messageKey t s := None)\<rparr>, [HandlerCall h (Some m)])"
  by (simp add: channel_ops Let_def)

lemma arrive_handler:
  "ch_handlers c (messageKey t (ppc_seq m)) = Some h \<Longrightarrow>
   channel_onMessageArrived t m c =
     (c\<lparr>ch_handlers := (ch_handlers c)(messageKey t (ppc_seq m) := None)\<rparr>, [HandlerCall h (Some m)])"
  by (simp add: channel_ops Let_def)

lemma arrive_no_handler:
  "ch_handlers c (messageKey t (ppc_seq m)) = None \<Longrightarrow>
   channel_onMessageArrived t m c = (c\<lparr>ch_messages := (ch_messages c)(messageKey t (ppc_seq m) \<mapsto> m)\<rparr>, [])"
  by (simp add: channel_ops Let_def)

text \<open>
  (C29) Whichever comes first, a message and the receive call for its type and sequence number meet: on
  a channel where nothing is pending under that key, after any further events about other keys, the
  second of the two calls the handler with the message, and afterwards nothing is pending under the
  key. (An empty pending slot is what every completed exchange leaves behind.)
\<close>

theorem channel_meets:
  assumes "ch_handlers c k = None" and "ch_messages c k = None"
    and "k = messageKey (ppc_messageType m) (ppc_seq m)"
    and "\<forall>e \<in> set es. event_key e \<noteq> k"
    and "(x, y) = (Receive (ppc_messageType m) (ppc_seq m) h, Arrive m) \<or>
         (x, y) = (Arrive m, Receive (ppc_messageType m) (ppc_seq m) h)"
  shows "snd (ch_step x c) = [] \<and>
         snd (ch_step y (fst (ch_run (x # es) c))) = [HandlerCall h (Some m)] \<and>
         (let c' = fst (ch_step y (fst (ch_run (x # es) c)))
          in ch_handlers c' k = None \<and> ch_messages c' k = None)"
proof -
  let ?c1 = "fst (ch_run es (fst (ch_step x c)))"
  have run: "fst (ch_run (x # es) c) = ?c1" by (simp add: split_beta Let_def)
  note fr = ch_run_frame [OF assms(4), of "fst (ch_step x c)"]
  from assms(5) show ?thesis
  proof
    assume xy: "(x, y) = (Receive (ppc_messageType m) (ppc_seq m) h, Arrive m)"
    then have "ch_handlers ?c1 k = Some h" "ch_messages ?c1 k = None"
      using fr assms(1-3) by (simp_all add: receive_no_message)
    then show ?thesis using xy assms(1-3) run by (simp add: receive_no_message arrive_handler)
  next
    assume xy: "(x, y) = (Arrive m, Receive (ppc_messageType m) (ppc_seq m) h)"
    then have "ch_messages ?c1 k = Some m" "ch_handlers ?c1 k = None"
      using fr assms(1-3) by (simp_all add: arrive_no_handler)
    then show ?thesis using xy assms(1-3) run by (simp add: receive_message arrive_no_handler)
  qed
qed

theorem channel_meets_witness:
  defines "m \<equiv> (new_PPCMessage False)\<lparr>ppc_messageType := 3, ppc_seq := 7, ppc_data := ''x''\<rparr>"
  shows "snd (ch_step (Arrive m) (fst (ch_run [Receive 3 7 5, Receive 3 8 6, Timer 3 8] new_PPCChannel)))
         = [HandlerCall 5 (Some m)]"
proof -
  have m: "ppc_messageType m = 3" "ppc_seq m = 7" by (simp_all add: m_def)
  have c: "ch_handlers new_PPCChannel (messageKey 3 7) = None" "ch_messages new_PPCChannel (messageKey 3 7) = None"
    by (simp_all add: new_PPCChannel_def)
  have es: "\<forall>e \<in> set [Receive 3 8 6, Timer 3 8]. event_key e \<noteq> messageKey 3 7"
    by (simp add: messageKey_inj)
  have k: "messageKey 3 7 = messageKey (ppc_messageType m) (ppc_seq m)" by (simp add: m)
  have xy: "(Receive 3 7 5, Arrive m) = (Receive (ppc_messageType m) (ppc_seq m) 5, Arrive m) \<or>
    (Receive 3 7 5, Arrive m) = (Arrive m, Receive (ppc_messageType m) (ppc_seq m) 5)" by (simp add: m)
  from channel_meets [OF c k es xy] show ?thesis by blast
qed

lemma receive_credit:
  assumes "\<not> waiting h c"
  shows "once_in h (fst (ch_step (Receive t s h) c)) \<and>
    credit h (fst (ch_step (Receive t s h) c)) + calls h (snd (ch_step (Receive t s h) c)) \<le> 1"
proof -
  have nw: "ch_handlers c k \<noteq> Some h" for k using assms by (auto simp: waiting_def ran_def)
  show ?thesis
  proof (cases "ch_messages c (messageKey t s)")
    case None
    then show ?thesis by (simp add: receive_no_message once_in_def credit_def nw)
  next
    case (Some m)
    have "credit h c = 0" using assms by (simp add: credit_def)
    with Some show ?thesis by (simp add: receive_message) (simp add: once_in_def nw)
  qed
qed

fun receives :: "nat \<Rightarrow> ch_event \<Rightarrow> bool" where
  "receives h (Receive t s h') \<longleftrightarrow> h' = h"
| "receives h (Timer t s) \<longleftrightarrow> False"
| "receives h (Arrive m) \<longleftrightarrow> False"

lemma receives_iff: "receives h e \<longleftrightarrow> (\<exists>t s. e = Receive t s h)"
  by (cases e) auto

interpretation channel_once: one_shot ch_step "receives h" "once_in h" "credit h" "calls h" for h
proof
  fix s :: PPCChannel and e
  assume "credit h s = 0" "receives h e"
  then obtain t q where "\<not> waiting h s" "e = Receive t q h"
    by (auto simp: receives_iff credit_def split: if_splits)
  then show "once_in h (fst (ch_step e s)) \<and> credit h (fst (ch_step e s)) + calls h (snd (ch_step e s)) \<le> 1"
    using receive_credit by blast
qed (use ch_step_credit in \<open>auto simp: receives_iff simp del: ch_step.simps\<close>)

text \<open>
  (C21) A handler passed to one \<open>asyncReceiveMessage\<close> is called at most once, whatever messages, receive
  calls and timers (also stale ones) come before and after it: the reply and the timeout exclude each
  other. In the states reached, no key has both a waiting handler and an unread message.
\<close>

theorem handler_called_at_most_once:
  assumes "\<forall>e \<in> set before. \<not> receives h e" and "\<forall>e \<in> set after. \<not> receives h e"
  shows "calls h (snd (ch_run (before @ Receive t s h # after) new_PPCChannel)) \<le> 1 \<and>
         ch_inv (fst (ch_run (before @ Receive t s h # after) new_PPCChannel))"
proof -
  have "once_in h new_PPCChannel" "credit h new_PPCChannel = 0"
    by (simp_all add: once_in_def credit_def waiting_def new_PPCChannel_def)
  from channel_once.at_most_once [OF this assms(1) _ assms(2), of "Receive t s h"]
  show ?thesis by (simp add: ch_run_inv)
qed

theorem handler_called_at_most_once_witness:
  "calls 5 (snd (ch_run ([Timer 1 2] @ Receive 1 2 5 # [Timer 1 2, Timer 1 2]) new_PPCChannel)) \<le> 1"
  using handler_called_at_most_once [of "[Timer 1 2]" 5 "[Timer 1 2, Timer 1 2]" 1 2] by simp

section \<open>The channel manager\<close>

text \<open>
  \<open>m_channels\<close> shares the channel objects with the tasks that use them, so channels live in a store and
  the manager keeps addresses: a task that lost its manager entry still owns its channel.
\<close>

type_synonym channel_addr = nat

record PPCChannelManager =
  cm_store :: "PPCChannel list"
  cm_channels :: "bytes \<rightharpoonup> channel_addr"
  cm_holdingMessages :: "bytes \<rightharpoonup> PPCMessage list"

definition new_PPCChannelManager :: PPCChannelManager where
  "new_PPCChannelManager = \<lparr>cm_store = [], cm_channels = Map.empty, cm_holdingMessages = Map.empty\<rparr>"

text \<open>The loop of \<open>buildChannelForTask\<close> over the held messages.\<close>

fun channel_feed :: "PPCMessage list \<Rightarrow> PPCChannel \<Rightarrow> PPCChannel \<times> ch_out list" where
  "channel_feed [] c = (c, [])"
| "channel_feed (m # ms) c =
     (let (c', o1) = channel_onMessageArrived (ppc_messageType m) m c; (c'', o2) = channel_feed ms c'
      in (c'', o1 @ o2))"

definition buildChannelForTask ::
  "bytes \<Rightarrow> PPCChannelManager \<Rightarrow> channel_addr \<times> PPCChannelManager \<times> ch_out list" where
  "buildChannelForTask taskID mgr =
     (let a = length (cm_store mgr);
          mgr1 = mgr\<lparr>cm_channels := (cm_channels mgr)(taskID \<mapsto> a)\<rparr>
      in case cm_holdingMessages mgr taskID of
           None \<Rightarrow> (a, mgr1\<lparr>cm_store := cm_store mgr @ [new_PPCChannel]\<rparr>, [])
         | Some ms \<Rightarrow>
             (let (c, outs) = channel_feed ms new_PPCChannel
              in (a, mgr1\<lparr>cm_store := cm_store mgr @ [c],
                          cm_holdingMessages := (cm_holdingMessages mgr)(taskID := None)\<rparr>, outs)))"

definition removeChannelByTask :: "bytes \<Rightarrow> PPCChannelManager \<Rightarrow> PPCChannelManager" where
  "removeChannelByTask taskID mgr = mgr\<lparr>cm_channels := (cm_channels mgr)(taskID := None)\<rparr>"

definition removeHoldingMessages :: "bytes \<Rightarrow> PPCChannelManager \<Rightarrow> PPCChannelManager" where
  "removeHoldingMessages taskID mgr =
     mgr\<lparr>cm_holdingMessages := (cm_holdingMessages mgr)(taskID := None)\<rparr>"

definition holdMessage :: "bytes \<Rightarrow> PPCMessage \<Rightarrow> (bytes \<rightharpoonup> PPCMessage list) \<Rightarrow> (bytes \<rightharpoonup> PPCMessage list)" where
  "holdMessage taskID m held =
     (case held taskID of
        Some ms \<Rightarrow> held(taskID \<mapsto> ms @ [m])
      | None \<Rightarrow> held(taskID \<mapsto> [m]))"

definition cm_onMessageArrived :: "PPCMessage \<Rightarrow> PPCChannelManager \<Rightarrow> PPCChannelManager \<times> ch_out list" where
  "cm_onMessageArrived m mgr =
     (case cm_channels mgr (ppc_taskID m) of
        Some a \<Rightarrow>
          (let (c, outs) = channel_onMessageArrived (ppc_messageType m) m (cm_store mgr ! a)
           in (mgr\<lparr>cm_store := (cm_store mgr)[a := c]\<rparr>, outs))
      | None \<Rightarrow>
          (mgr\<lparr>cm_holdingMessages := holdMessage (ppc_taskID m) m (cm_holdingMessages mgr)\<rparr>, []))"

text \<open>The task calls \<open>asyncReceiveMessage\<close> on the channel it owns.\<close>

definition cm_receive ::
  "channel_addr \<Rightarrow> u8 \<Rightarrow> u32 \<Rightarrow> nat option \<Rightarrow> PPCChannelManager \<Rightarrow> PPCChannelManager \<times> ch_out list" where
  "cm_receive a messageType seq handler mgr =
     (let (c, outs) = asyncReceiveMessage messageType seq handler (cm_store mgr ! a)
      in (mgr\<lparr>cm_store := (cm_store mgr)[a := c]\<rparr>, outs))"

lemmas manager_ops = buildChannelForTask_def removeChannelByTask_def removeHoldingMessages_def
  cm_onMessageArrived_def cm_receive_def

lemma fun_upd_None_idem: "f t = None \<Longrightarrow> f(t := None) = f"
  by (simp add: fun_upd_idem)

subsection \<open>No dangling channel\<close>

definition cm_inv :: "PPCChannelManager \<Rightarrow> bool" where
  "cm_inv mgr \<longleftrightarrow> (\<forall>t a. cm_channels mgr t = Some a \<longrightarrow> a < length (cm_store mgr)) \<and>
     list_all ch_inv (cm_store mgr)"

datatype cm_event =
    MsgArrives PPCMessage
  | Build bytes
  | RemoveChannel bytes
  | HoldTimeout bytes
  | TaskReceives channel_addr u8 u32 nat

text \<open>A task can only receive on a channel that was built for it, hence on an address of the store.\<close>

fun cm_step :: "cm_event \<Rightarrow> PPCChannelManager \<Rightarrow> PPCChannelManager \<times> ch_out list" where
  "cm_step (MsgArrives m) mgr = cm_onMessageArrived m mgr"
| "cm_step (Build t) mgr = snd (buildChannelForTask t mgr)"
| "cm_step (RemoveChannel t) mgr = (removeChannelByTask t mgr, [])"
| "cm_step (HoldTimeout t) mgr = (removeHoldingMessages t mgr, [])"
| "cm_step (TaskReceives a t s h) mgr =
     (if a < length (cm_store mgr) then cm_receive a t s (Some h) mgr else (mgr, []))"

abbreviation cm_run :: "cm_event list \<Rightarrow> PPCChannelManager \<Rightarrow> PPCChannelManager \<times> ch_out list" where
  "cm_run \<equiv> run_steps cm_step"

lemma channel_feed_run: "channel_feed ms c = ch_run (map Arrive ms) c"
  by (induction ms arbitrary: c) simp_all

lemma list_all_update: "list_all P xs \<Longrightarrow> P x \<Longrightarrow> list_all P (xs[i := x])"
  by (auto simp: list_all_iff dest!: set_update_subset_insert [THEN subsetD])

lemma arrive_inv: "ch_inv c \<Longrightarrow> ch_inv (fst (channel_onMessageArrived (ppc_messageType m) m c))"
  using ch_step_inv [of c "Arrive m"] by simp

lemma receive_inv: "ch_inv c \<Longrightarrow> ch_inv (fst (asyncReceiveMessage t s (Some h) c))"
  using ch_step_inv [of c "Receive t s h"] by simp

lemma cm_step_inv:
  assumes "cm_inv mgr"
  shows "cm_inv (fst (cm_step e mgr))"
proof (cases e)
  case (MsgArrives m)
  have "ch_inv (cm_store mgr ! a)" if "cm_channels mgr (ppc_taskID m) = Some a" for a
    using assms that by (simp add: cm_inv_def list_all_length)
  then show ?thesis using assms MsgArrives
    by (auto simp: cm_inv_def cm_onMessageArrived_def split_beta Let_def split: option.splits
        intro!: list_all_update arrive_inv)
next
  case (Build t)
  have "ch_inv (fst (channel_feed ms new_PPCChannel))" for ms
    by (simp add: channel_feed_run ch_run_inv)
  then show ?thesis using assms Build
    by (auto simp: cm_inv_def buildChannelForTask_def split_beta Let_def less_Suc_eq split: option.splits)
next
  case (TaskReceives a t s h)
  have "ch_inv (cm_store mgr ! a)" if "a < length (cm_store mgr)"
    using assms that by (simp add: cm_inv_def list_all_length)
  then show ?thesis using assms TaskReceives
    by (auto simp: cm_inv_def cm_receive_def split_beta Let_def intro!: list_all_update receive_inv)
qed (use assms in \<open>auto simp: cm_inv_def manager_ops\<close>)

subsection \<open>Messages that arrive before the channel\<close>

definition heldFor :: "(bytes \<rightharpoonup> PPCMessage list) \<Rightarrow> bytes \<Rightarrow> PPCMessage list" where
  "heldFor held taskID = (case held taskID of None \<Rightarrow> [] | Some ms \<Rightarrow> ms)"

interpretation held: holding_store holdMessage "\<lambda>t h. (heldFor h t, h(t := None))" heldFor
  by unfold_locales (auto simp: holdMessage_def heldFor_def split: option.splits)

text \<open>Arrivals for a task without a channel only grow its holding list.\<close>

lemma arrivals_held:
  assumes "\<forall>m \<in> set ms. cm_channels mgr (ppc_taskID m) = None"
  shows "cm_run (map MsgArrives ms) mgr =
    (mgr\<lparr>cm_holdingMessages := fold (\<lambda>(k, v). holdMessage k v) (map (\<lambda>m. (ppc_taskID m, m)) ms) (cm_holdingMessages mgr)\<rparr>, [])"
  using assms by (induction ms arbitrary: mgr) (simp_all add: cm_onMessageArrived_def)

lemma build_feeds_held:
  "buildChannelForTask t mgr =
     (length (cm_store mgr),
      mgr\<lparr>cm_channels := (cm_channels mgr)(t \<mapsto> length (cm_store mgr)),
          cm_store := cm_store mgr @ [fst (channel_feed (heldFor (cm_holdingMessages mgr) t) new_PPCChannel)],
          cm_holdingMessages := (cm_holdingMessages mgr)(t := None)\<rparr>,
      snd (channel_feed (heldFor (cm_holdingMessages mgr) t) new_PPCChannel))"
  by (cases "cm_holdingMessages mgr t")
    (simp_all add: buildChannelForTask_def heldFor_def split_beta Let_def fun_upd_None_idem)

text \<open>A fed channel holds, per key, the last message with that key; no handler is called.\<close>

abbreviation msg_key :: "PPCMessage \<Rightarrow> u64" where
  "msg_key m \<equiv> messageKey (ppc_messageType m) (ppc_seq m)"

lemma channel_feed_contents:
  assumes "ch_handlers c = Map.empty"
  shows "channel_feed ms c = (c\<lparr>ch_messages := ch_messages c ++ map_of (rev (map (\<lambda>m. (msg_key m, m)) ms))\<rparr>, [])"
  using assms
proof (induction ms arbitrary: c)
  case (Cons m ms)
  have "(\<lambda>a. if a = msg_key m then Some m else ch_messages c a) = (ch_messages c)(msg_key m \<mapsto> m)"
    by (simp add: fun_upd_def)
  with Cons show ?case by (simp add: arrive_no_handler)
qed simp

lemma map_of_rev_key:
  "map_of (rev (map (\<lambda>m. (f m, m)) ms)) k =
     (let found = filter (\<lambda>m. f m = k) ms in if found = [] then None else Some (last found))"
  by (induction ms rule: rev_induct) (auto simp: Let_def)

lemma built_channel_contents:
  assumes "\<forall>m \<in> set ms. cm_channels mgr (ppc_taskID m) = None" and "heldFor (cm_holdingMessages mgr) t = []"
  shows "channel_feed (heldFor (cm_holdingMessages (fst (cm_run (map MsgArrives ms) mgr))) t) new_PPCChannel =
    (new_PPCChannel\<lparr>ch_messages :=
        map_of (rev (map (\<lambda>m. (msg_key m, m)) (filter (\<lambda>m. ppc_taskID m = t) ms)))\<rparr>, [])"
  using assms
  by (simp add: arrivals_held held.pending_holds filter_map comp_def channel_feed_contents new_PPCChannel_def)

text \<open>
  (C30) Messages that arrive before their task has a channel are not lost: when the channel is built
  and the task receives on it, the handler is called with the held message of that type and sequence
  number (the last one, when several share the key), and waits when there is none. No handler is
  called before, and the holding list of the task is empty afterwards.
\<close>

theorem early_messages_reach_channel:
  fixes t :: bytes and mt :: u8 and s :: u32
  assumes "\<forall>m \<in> set ms. cm_channels mgr (ppc_taskID m) = None" and "heldFor (cm_holdingMessages mgr) t = []"
  defines "built \<equiv> buildChannelForTask t (fst (cm_run (map MsgArrives ms) mgr))"
  defines "found \<equiv> filter (\<lambda>m. ppc_taskID m = t \<and> ppc_messageType m = mt \<and> ppc_seq m = s) ms"
  shows "snd (cm_run (map MsgArrives ms) mgr) = [] \<and> snd (snd built) = [] \<and>
         cm_channels (fst (snd built)) t = Some (fst built) \<and>
         heldFor (cm_holdingMessages (fst (snd built))) t = [] \<and>
         snd (cm_receive (fst built) mt s (Some h) (fst (snd built))) =
           (if found = [] then [] else [HandlerCall h (Some (last found))])"
proof -
  have f: "found = filter (\<lambda>m. msg_key m = messageKey mt s) (filter (\<lambda>m. ppc_taskID m = t) ms)"
    by (simp add: found_def messageKey_inj conj_ac)
  have st: "cm_store (fst (snd built)) ! fst built =
      new_PPCChannel\<lparr>ch_messages :=
        map_of (rev (map (\<lambda>m. (msg_key m, m)) (filter (\<lambda>m. ppc_taskID m = t) ms)))\<rparr>"
    by (simp add: built_def build_feeds_held built_channel_contents [OF assms(1,2)])
  have "snd (cm_receive (fst built) mt s (Some h) (fst (snd built))) =
      (if found = [] then [] else [HandlerCall h (Some (last found))])"
    by (simp add: cm_receive_def split_beta Let_def st asyncReceiveMessage_def getAndRemoveMessage_def
        map_of_rev_key f)
  moreover have "snd (snd built) = []"
    by (simp add: built_def build_feeds_held built_channel_contents [OF assms(1,2)])
  moreover have "snd (cm_run (map MsgArrives ms) mgr) = []" using assms(1) by (simp add: arrivals_held)
  ultimately show ?thesis by (simp add: built_def build_feeds_held heldFor_def)
qed

theorem early_messages_reach_channel_witness:
  defines "m \<equiv> (new_PPCMessage False)\<lparr>ppc_messageType := 3, ppc_seq := 7, ppc_taskID := ''t'', ppc_data := ''x''\<rparr>"
  defines "built \<equiv> buildChannelForTask ''t'' (fst (cm_run [MsgArrives m] new_PPCChannelManager))"
  shows "snd (cm_receive (fst built) 3 7 (Some 5) (fst (snd built))) = [HandlerCall 5 (Some m)]"
proof -
  have "\<forall>m \<in> set [m]. cm_channels new_PPCChannelManager (ppc_taskID m) = None"
    and "heldFor (cm_holdingMessages new_PPCChannelManager) ''t'' = []"
    by (simp_all add: new_PPCChannelManager_def heldFor_def)
  from early_messages_reach_channel [OF this, of 3 7 5] show ?thesis
    unfolding built_def by (simp add: m_def)
qed

end
