(* ===== verification/CallbackManager.thy ===== *)
theory CallbackManager
  imports MessageCodec
begin

text \<open>
  The front's callback manager (wedpr-transport/ppc-front/ppc-front/CallbackManager.cpp): callbacks of
  requests by trace id, with their timers; handlers of incoming messages by topic and by component;
  and, per topic, the queue of messages nobody handles.

  Functions are values of a datatype that names them. \<open>UserCb n\<close> and \<open>UserHandler n\<close> are functions of
  the application; \<open>PpcRespCb\<close> and \<open>PpcHandler\<close> are the closures \<open>Front.cpp\<close> builds around them, run in
  theory \<open>Front\<close>. Work enqueued on the thread pool is an output. An error is its code.

  Shown: every callback is invoked at most once, whatever replies, failures and timeouts arrive; the
  topic's handler has precedence over the component's; the first registration stays; unhandled
  messages of a topic are popped in the order of arrival.
\<close>

datatype msg_callback = UserCb nat | PpcRespCb bytes nat

datatype ppc_handler = AlgoHandler nat | ChannelHandler

datatype dispatcher = UserHandler nat | PpcHandler u16 ppc_handler

text \<open>The response function: the closure of \<open>FrontImpl::handleCallback\<close> with the message pointer it captured.\<close>

datatype respond_fn = RespondFn "Message option"

datatype cb_out =
    CallMsgCallback msg_callback "int option" "Message option" "respond_fn option"
  | CallDispatcher dispatcher Message

record Callback_entry =
  ce_msgCallback :: msg_callback
  ce_timeoutHandler :: bool

record CallbackManager =
  cb_traceID2Callback :: "bytes \<rightharpoonup> Callback_entry"
  cb_topicHandlers :: "(bytes, dispatcher option) smap"
  cb_msgHandlers :: "(bytes, dispatcher option) smap"
  cb_msgCache :: "bytes \<rightharpoonup> Message list"

definition new_CallbackManager :: CallbackManager where
  "new_CallbackManager =
     \<lparr>cb_traceID2Callback = Map.empty, cb_topicHandlers = [], cb_msgHandlers = [], cb_msgCache = Map.empty\<rparr>"

definition PPCRetCode_TIMEOUT :: int where
  "PPCRetCode_TIMEOUT = - 101"

text \<open>\<open>std::map::insert\<close> and \<open>std::unordered_map::insert\<close>: an existing entry stays.\<close>

definition smap_insert :: "'k::linorder \<Rightarrow> 'v \<Rightarrow> ('k, 'v) smap \<Rightarrow> ('k, 'v) smap" where
  "smap_insert k v m = (case map_of m k of Some _ \<Rightarrow> m | None \<Rightarrow> smap_put k v m)"

definition umap_insert :: "'k \<Rightarrow> 'v \<Rightarrow> ('k \<rightharpoonup> 'v) \<Rightarrow> ('k \<rightharpoonup> 'v)" where
  "umap_insert k v m = (case m k of Some _ \<Rightarrow> m | None \<Rightarrow> m(k \<mapsto> v))"

definition addCallback :: "bytes \<Rightarrow> int \<Rightarrow> msg_callback option \<Rightarrow> CallbackManager \<Rightarrow> CallbackManager" where
  "addCallback traceID timeout msgCallback cb =
     (case msgCallback of
        None \<Rightarrow> cb
      | Some f \<Rightarrow> cb\<lparr>cb_traceID2Callback :=
          umap_insert traceID \<lparr>ce_msgCallback = f, ce_timeoutHandler = timeout > 0\<rparr> (cb_traceID2Callback cb)\<rparr>)"

definition callback_pop :: "bytes \<Rightarrow> CallbackManager \<Rightarrow> Callback_entry option \<times> CallbackManager" where
  "callback_pop traceID cb =
     (case cb_traceID2Callback cb traceID of
        None \<Rightarrow> (None, cb)
      | Some e \<Rightarrow> (Some e, cb\<lparr>cb_traceID2Callback := (cb_traceID2Callback cb)(traceID := None)\<rparr>))"

definition onMessageTimeout :: "bool \<Rightarrow> bytes \<Rightarrow> CallbackManager \<Rightarrow> CallbackManager \<times> cb_out list" where
  "onMessageTimeout cancelled traceID cb =
     (if cancelled then (cb, [])
      else case callback_pop traceID cb of
             (None, cb') \<Rightarrow> (cb', [])
           | (Some e, cb') \<Rightarrow> (cb', [CallMsgCallback (ce_msgCallback e) (Some PPCRetCode_TIMEOUT) None None]))"

definition cb_handleCallback ::
  "int option \<Rightarrow> bytes \<Rightarrow> Message option \<Rightarrow> respond_fn \<Rightarrow> CallbackManager \<Rightarrow> CallbackManager \<times> cb_out list" where
  "cb_handleCallback error traceID message resFunc cb =
     (case callback_pop traceID cb of
        (None, cb') \<Rightarrow> (cb', [])
      | (Some e, cb') \<Rightarrow>
          (case message of
             None \<Rightarrow> (cb', [])
           | Some m \<Rightarrow> (cb', [CallMsgCallback (ce_msgCallback e) error (Some m) (Some resFunc)])))"

definition cb_registerTopicHandler :: "bytes \<Rightarrow> dispatcher option \<Rightarrow> CallbackManager \<Rightarrow> CallbackManager" where
  "cb_registerTopicHandler topic callback cb = cb\<lparr>cb_topicHandlers := smap_insert topic callback (cb_topicHandlers cb)\<rparr>"

definition cb_registerMessageHandler :: "bytes \<Rightarrow> dispatcher option \<Rightarrow> CallbackManager \<Rightarrow> CallbackManager" where
  "cb_registerMessageHandler componentType callback cb =
     cb\<lparr>cb_msgHandlers := smap_insert componentType callback (cb_msgHandlers cb)\<rparr>"

definition getHandlerByTopic :: "bytes \<Rightarrow> CallbackManager \<Rightarrow> dispatcher option" where
  "getHandlerByTopic topic cb = (case map_of (cb_topicHandlers cb) topic of Some h \<Rightarrow> h | None \<Rightarrow> None)"

definition getHandlerByComponentType :: "bytes \<Rightarrow> CallbackManager \<Rightarrow> dispatcher option" where
  "getHandlerByComponentType componentType cb =
     (case map_of (cb_msgHandlers cb) componentType of Some h \<Rightarrow> h | None \<Rightarrow> None)"

definition addMsgCache :: "bytes \<Rightarrow> Message \<Rightarrow> (bytes \<rightharpoonup> Message list) \<Rightarrow> (bytes \<rightharpoonup> Message list)" where
  "addMsgCache topic msg cache =
     (let cache' = (case cache topic of None \<Rightarrow> cache(topic \<mapsto> []) | Some _ \<Rightarrow> cache)
      in cache'(topic \<mapsto> the (cache' topic) @ [msg]))"

definition cb_onReceiveMessage :: "bytes \<Rightarrow> Message \<Rightarrow> CallbackManager \<Rightarrow> CallbackManager \<times> cb_out list" where
  "cb_onReceiveMessage topic msg cb =
     (let callback = getHandlerByTopic topic cb;
          callback' = (case callback of
             None \<Rightarrow> getHandlerByComponentType (oh_componentType (mh_optionalField (msg_header msg))) cb
           | Some h \<Rightarrow> Some h)
      in case callback' of
           None \<Rightarrow> if topic = [] then (cb, [])
                    else (cb\<lparr>cb_msgCache := addMsgCache topic msg (cb_msgCache cb)\<rparr>, [])
         | Some h \<Rightarrow> (cb, [CallDispatcher h msg]))"

text \<open>
  \<open>pop(topic, timeoutMs)\<close>: \<open>tryPop\<close> of the queue (bcos-utilities) is a parameter; the queue is tested
  for emptiness first.
\<close>

definition popMessage ::
  "(Message list \<Rightarrow> Message option \<times> Message list) \<Rightarrow> bytes \<Rightarrow> CallbackManager \<Rightarrow> Message option \<times> CallbackManager" where
  "popMessage tryPop topic cb =
     (case cb_msgCache cb topic of
        None \<Rightarrow> (None, cb)
      | Some queue \<Rightarrow>
          if queue = [] then (None, cb)
          else let (m, rest) = tryPop queue in (m, cb\<lparr>cb_msgCache := (cb_msgCache cb)(topic \<mapsto> rest)\<rparr>))"

section \<open>One call per callback\<close>

datatype cb_event =
    Add bytes int "msg_callback option"
  | TimeoutFires bool bytes
  | Reply "int option" bytes "Message option" respond_fn
  | Incoming bytes Message
  | RegTopic bytes "dispatcher option"
  | RegComponent bytes "dispatcher option"

fun cb_step :: "cb_event \<Rightarrow> CallbackManager \<Rightarrow> CallbackManager \<times> cb_out list" where
  "cb_step (Add tr timeout f) cb = (addCallback tr timeout f cb, [])"
| "cb_step (TimeoutFires cancelled tr) cb = onMessageTimeout cancelled tr cb"
| "cb_step (Reply err tr m resp) cb = cb_handleCallback err tr m resp cb"
| "cb_step (Incoming topic m) cb = cb_onReceiveMessage topic m cb"
| "cb_step (RegTopic topic h) cb = (cb_registerTopicHandler topic h cb, [])"
| "cb_step (RegComponent c h) cb = (cb_registerMessageHandler c h cb, [])"

text \<open>Calls of one callback, and whether it is registered; \<open>cb_single\<close> says under one trace id only.\<close>

fun calls_of :: "msg_callback \<Rightarrow> cb_out list \<Rightarrow> nat" where
  "calls_of f [] = 0"
| "calls_of f (CallMsgCallback g e m r # outs) = (if g = f then 1 else 0) + calls_of f outs"
| "calls_of f (CallDispatcher d m # outs) = calls_of f outs"

lemma calls_of_append: "calls_of f (xs @ ys) = calls_of f xs + calls_of f ys"
  by (induction f xs rule: calls_of.induct) simp_all

definition registered :: "msg_callback \<Rightarrow> CallbackManager \<Rightarrow> bool" where
  "registered f cb \<longleftrightarrow> (\<exists>tr e. cb_traceID2Callback cb tr = Some e \<and> ce_msgCallback e = f)"

definition cb_pend :: "msg_callback \<Rightarrow> CallbackManager \<Rightarrow> nat" where
  "cb_pend f cb = (if registered f cb then 1 else 0)"

definition cb_single :: "msg_callback \<Rightarrow> CallbackManager \<Rightarrow> bool" where
  "cb_single f cb \<longleftrightarrow> (\<forall>tr tr' e e'. cb_traceID2Callback cb tr = Some e \<and> cb_traceID2Callback cb tr' = Some e' \<and>
     ce_msgCallback e = f \<and> ce_msgCallback e' = f \<longrightarrow> tr = tr')"

fun registers_cb :: "msg_callback \<Rightarrow> cb_event \<Rightarrow> bool" where
  "registers_cb f (Add tr timeout g) \<longleftrightarrow> g = Some f"
| "registers_cb f _ \<longleftrightarrow> False"

lemma pend_pop:
  assumes "cb_single f cb" and "callback_pop tr cb = (r, cb')"
  shows "cb_single f cb' \<and>
    cb_pend f cb' + (case r of Some e \<Rightarrow> if ce_msgCallback e = f then 1 else 0 | None \<Rightarrow> 0) \<le> cb_pend f cb"
proof (cases "cb_traceID2Callback cb tr")
  case None
  with assms show ?thesis by (auto simp: callback_pop_def)
next
  case (Some e)
  then have r: "r = Some e" "cb' = cb\<lparr>cb_traceID2Callback := (cb_traceID2Callback cb)(tr := None)\<rparr>"
    using assms(2) by (simp_all add: callback_pop_def)
  have "cb_single f cb'" using assms(1) by (auto simp: r(2) cb_single_def)
  moreover have "registered f cb' \<longrightarrow> registered f cb \<and> ce_msgCallback e \<noteq> f"
    using assms(1) Some by (auto simp: r(2) cb_single_def registered_def split: if_splits)
  moreover have "ce_msgCallback e = f \<longrightarrow> registered f cb" using Some by (auto simp: registered_def)
  ultimately show ?thesis by (simp add: r(1) cb_pend_def)
qed

lemma frame_cb:
  assumes "cb_traceID2Callback cb' = cb_traceID2Callback cb"
  shows "cb_single f cb' = cb_single f cb \<and> cb_pend f cb' = cb_pend f cb"
  using assms by (simp add: cb_single_def cb_pend_def registered_def)

lemma frame_handlers [simp]:
  "cb_single f (cb\<lparr>cb_topicHandlers := ts\<rparr>) = cb_single f cb" "cb_pend f (cb\<lparr>cb_topicHandlers := ts\<rparr>) = cb_pend f cb"
  "cb_single f (cb\<lparr>cb_msgHandlers := ts\<rparr>) = cb_single f cb" "cb_pend f (cb\<lparr>cb_msgHandlers := ts\<rparr>) = cb_pend f cb"
  by (simp_all add: cb_single_def cb_pend_def registered_def)

lemma fewer_cb:
  assumes "\<And>tr e. cb_traceID2Callback cb' tr = Some e \<Longrightarrow> ce_msgCallback e = f \<Longrightarrow> cb_traceID2Callback cb tr = Some e"
    and "cb_single f cb"
  shows "cb_single f cb' \<and> cb_pend f cb' \<le> cb_pend f cb"
proof -
  have "cb_single f cb'" using assms(1) assms(2) unfolding cb_single_def by blast
  moreover have "registered f cb' \<Longrightarrow> registered f cb" using assms(1) unfolding registered_def by blast
  ultimately show ?thesis by (simp add: cb_pend_def)
qed

lemma add_other_cb:
  assumes "cb_single f cb" and "g \<noteq> f"
  shows "cb_single f (addCallback tr timeout (Some g) cb) \<and>
         cb_pend f (addCallback tr timeout (Some g) cb) \<le> cb_pend f cb"
  using assms(2)
  by (intro fewer_cb assms(1)) (auto simp: addCallback_def umap_insert_def split: option.splits if_splits)

lemma add_own_cb:
  assumes "cb_pend f cb = 0"
  shows "cb_single f (addCallback tr timeout (Some f) cb) \<and> cb_pend f (addCallback tr timeout (Some f) cb) \<le> 1"
proof -
  have "cb_traceID2Callback cb tr' = Some e \<Longrightarrow> ce_msgCallback e \<noteq> f" for tr' e
    using assms by (auto simp: cb_pend_def registered_def split: if_splits)
  then show ?thesis
    by (auto simp: addCallback_def umap_insert_def cb_single_def cb_pend_def split: option.splits if_splits)
qed

lemma timeout_spends:
  assumes "cb_single f cb"
  shows "cb_single f (fst (onMessageTimeout cancelled tr cb)) \<and>
    cb_pend f (fst (onMessageTimeout cancelled tr cb)) + calls_of f (snd (onMessageTimeout cancelled tr cb)) \<le> cb_pend f cb"
proof -
  obtain r cb' where pop: "callback_pop tr cb = (r, cb')" by fastforce
  from pend_pop [OF assms this] show ?thesis using assms
    by (cases r) (simp_all add: onMessageTimeout_def pop)
qed

lemma reply_spends:
  assumes "cb_single f cb"
  shows "cb_single f (fst (cb_handleCallback err tr m resp cb)) \<and>
    cb_pend f (fst (cb_handleCallback err tr m resp cb)) + calls_of f (snd (cb_handleCallback err tr m resp cb)) \<le> cb_pend f cb"
proof -
  obtain r cb' where pop: "callback_pop tr cb = (r, cb')" by fastforce
  from pend_pop [OF assms this] show ?thesis
    by (cases r; cases m) (simp_all add: cb_handleCallback_def pop)
qed

lemma incoming_frame:
  "cb_traceID2Callback (fst (cb_onReceiveMessage topic m cb)) = cb_traceID2Callback cb"
  "calls_of f (snd (cb_onReceiveMessage topic m cb)) = 0"
  by (simp_all add: cb_onReceiveMessage_def Let_def split: option.splits)

lemma cb_step_spends:
  assumes "cb_single f cb" and "\<not> registers_cb f e"
  shows "cb_single f (fst (cb_step e cb)) \<and>
         cb_pend f (fst (cb_step e cb)) + calls_of f (snd (cb_step e cb)) \<le> cb_pend f cb"
proof (cases e)
  case (Add tr timeout g)
  then show ?thesis using assms add_other_cb [of f cb]
    by (cases g) (simp_all add: addCallback_def)
next
  case (RegTopic t h)
  then show ?thesis using assms by (simp add: cb_registerTopicHandler_def)
next
  case (RegComponent t h)
  then show ?thesis using assms by (simp add: cb_registerMessageHandler_def)
next
  case (Incoming t m)
  then show ?thesis using assms frame_cb [OF incoming_frame(1)] by (simp add: incoming_frame(2))
qed (use assms timeout_spends reply_spends in simp_all)

interpretation callback_once: one_shot cb_step "registers_cb f" "cb_single f" "cb_pend f" "calls_of f" for f
proof
  fix cb e
  assume "cb_pend f cb = 0" "registers_cb f e"
  then show "cb_single f (fst (cb_step e cb)) \<and> cb_pend f (fst (cb_step e cb)) + calls_of f (snd (cb_step e cb)) \<le> 1"
    using add_own_cb [of f cb] by (cases e) simp_all
qed (use cb_step_spends in \<open>auto simp: calls_of_append\<close>)

text \<open>
  (C20) The callback of a request is invoked at most once: whatever replies, send failures, timers
  (fired or cancelled), other requests, incoming messages and registrations come before and after it
  is added, and even if a peer repeats its reply or invents trace ids, all invocations together are at
  most one.
\<close>

theorem request_callback_at_most_once:
  assumes "\<forall>e \<in> set before. \<not> registers_cb f e" and "\<forall>e \<in> set after. \<not> registers_cb f e"
  shows "calls_of f (snd (run_steps cb_step (before @ Add tr timeout (Some f) # after) new_CallbackManager)) \<le> 1"
  using callback_once.at_most_once [of f new_CallbackManager before "Add tr timeout (Some f)" after] assms
  by (simp add: cb_single_def cb_pend_def registered_def new_CallbackManager_def)

theorem request_callback_at_most_once_witness:
  "calls_of (UserCb 1) (snd (run_steps cb_step ([] @ Add ''t'' 5 (Some (UserCb 1)) #
      [TimeoutFires False ''t'', Reply None ''t'' (Some new_Message) (RespondFn None)]) new_CallbackManager)) \<le> 1"
  using request_callback_at_most_once [of "[]" "UserCb 1"
      "[TimeoutFires False ''t'', Reply None ''t'' (Some new_Message) (RespondFn None)]" "''t''" 5]
  by simp

section \<open>Dispatching\<close>

lemma map_of_smap_insert:
  "map_of (smap_insert k v m) k' = (if k' = k \<and> map_of m k = None then Some v else map_of m k')"
  by (auto simp: smap_insert_def map_of_smap_put split: option.splits)

definition cachedFor :: "(bytes \<rightharpoonup> Message list) \<Rightarrow> bytes \<Rightarrow> Message list" where
  "cachedFor cache topic = (case cache topic of None \<Rightarrow> [] | Some q \<Rightarrow> q)"

interpretation front_cache: holding_store addMsgCache "\<lambda>t c. (cachedFor c t, c(t := None))" cachedFor
  by unfold_locales (auto simp: addMsgCache_def cachedFor_def Let_def split: option.splits)

text \<open>
  Where an incoming message goes: to the handler of its topic if there is one, otherwise to the
  handler of its component, otherwise, unless the topic is empty, to the end of the topic's queue. It
  goes to one place only. A second registration of a topic or component does not replace the first.
\<close>

theorem dispatch_incoming:
  "cb_onReceiveMessage topic m cb =
     (case (getHandlerByTopic topic cb, getHandlerByComponentType (oh_componentType (mh_optionalField (msg_header m))) cb) of
        (Some h, _) \<Rightarrow> (cb, [CallDispatcher h m])
      | (None, Some h) \<Rightarrow> (cb, [CallDispatcher h m])
      | (None, None) \<Rightarrow>
          if topic = [] then (cb, [])
          else (cb\<lparr>cb_msgCache := (cb_msgCache cb)(topic \<mapsto> cachedFor (cb_msgCache cb) topic @ [m])\<rparr>, [])) \<and>
   getHandlerByTopic t (cb_registerTopicHandler topic h cb) =
     (if t = topic \<and> map_of (cb_topicHandlers cb) topic = None then h else getHandlerByTopic t cb) \<and>
   getHandlerByComponentType t (cb_registerMessageHandler topic h cb) =
     (if t = topic \<and> map_of (cb_msgHandlers cb) topic = None then h else getHandlerByComponentType t cb)"
  by (intro conjI, cases "getHandlerByTopic topic cb";
      cases "getHandlerByComponentType (oh_componentType (mh_optionalField (msg_header m))) cb";
      cases "cb_msgCache cb topic")
    (simp_all add: cb_onReceiveMessage_def addMsgCache_def cachedFor_def getHandlerByTopic_def
      getHandlerByComponentType_def cb_registerTopicHandler_def cb_registerMessageHandler_def map_of_smap_insert)

end
