(* ===== verification/Front.thy ===== *)
theory Front
  imports Channel CallbackManager Gateway
begin

text \<open>
  The front of a node: \<open>FrontImpl\<close> (wedpr-transport/ppc-front/ppc-front/FrontImpl.cpp), which frames
  payloads, remembers the callbacks of requests and dispatches what the gateway delivers, and \<open>Front\<close>
  (Front.cpp), the interface of the algorithms, which moves \<open>PPCMessage\<close>s through it.

  Calls that leave the front (into the gateway client, an application function, the channel manager)
  are outputs. The UUID generator is not part of the sources: the trace id of a request is an argument.
  Two details of C++ are visible in the model. \<open>NullDeref\<close> marks the use of a null pointer. And
  \<open>FrontImpl::handleCallback\<close> moves \<open>message\<close> into one argument while another argument, a closure,
  captures it: the order of the two is up to the compiler, the argument \<open>moved_first\<close> here.

  Shown: a request and its response find each other across two fronts and their gateways; a message
  sent by \<open>Front::asyncSendMessage\<close> reaches the receiving task's channel; what failures do.
\<close>

unbundle bit_operations_syntax

section \<open>FrontImpl\<close>

record FrontImpl =
  fi_nodeID :: bytes
  fi_nodeInfo :: NodeInfo
  fi_callbacks :: CallbackManager
  fi_aliveNodeList :: "NodeInfo list"
  fi_running :: bool

text \<open>The completion callback handed to the gateway with a message.\<close>

datatype send_done = DoneSend bytes "nat option" | DoneUser "nat option" | DoneLog

datatype front_out =
    ToGateway RouteType MessageOptionalHeader bytes bytes int send_done
  | Cb cb_out
  | AckGateway receive_cb
  | CallError nat "int option"
  | UserCall nat "int option" "Message option"
  | RespCall nat "int option" bytes "PPCMessage option"
  | UserDispatch nat Message
  | AlgoCall nat PPCMessage
  | ToChannelManager PPCMessage
  | GwRegisterNodeInfo NodeInfo
  | GwUnRegisterNodeInfo bytes
  | GwRegisterTopic bytes bytes
  | GwUnRegisterTopic bytes bytes
  | GwAsyncGetAgencies "bytes list"
  | StartNodeDiscovery | StopNodeDiscovery | StartIoThread | StopIoThread | StartFetcher | StopFetcher | RestartFetcher
  | NullDeref

definition new_FrontImpl :: "NodeInfo \<Rightarrow> FrontImpl" where
  "new_FrontImpl info =
     \<lparr>fi_nodeID = ni_nodeID info, fi_nodeInfo = info, fi_callbacks = new_CallbackManager,
      fi_aliveNodeList = [], fi_running = False\<rparr>"

definition fi_start :: "FrontImpl \<Rightarrow> FrontImpl \<times> front_out list" where
  "fi_start fi = (if fi_running fi then (fi, []) else (fi\<lparr>fi_running := True\<rparr>, [StartNodeDiscovery, StartIoThread]))"

definition fi_stop :: "FrontImpl \<Rightarrow> FrontImpl \<times> front_out list" where
  "fi_stop fi = (if \<not> fi_running fi then (fi, []) else (fi\<lparr>fi_running := False\<rparr>, [StopNodeDiscovery, StopIoThread]))"

text \<open>The answer of the gateway replaces the list; when the call throws (\<open>None\<close>) the list stays.\<close>

definition fetchMetaInfoFromGateway :: "NodeInfo list option \<Rightarrow> FrontImpl \<Rightarrow> FrontImpl \<times> front_out list" where
  "fetchMetaInfoFromGateway answer fi =
     (case answer of Some ns \<Rightarrow> fi\<lparr>fi_aliveNodeList := ns\<rparr> | None \<Rightarrow> fi, [RestartFetcher])"

definition asyncSendMessageToGateway ::
  "bool \<Rightarrow> MessagePayload \<Rightarrow> RouteType \<Rightarrow> bytes \<Rightarrow> MessageOptionalHeader \<Rightarrow> int \<Rightarrow> send_done \<Rightarrow> FrontImpl \<Rightarrow> front_out list" where
  "asyncSendMessageToGateway responsePacket frontMessage rt traceID routeInfo timeout callback fi =
     (let f = (if responsePacket then payload_setRespPacket frontMessage else frontMessage);
          ri = routeInfo\<lparr>oh_srcNode := fi_nodeID fi\<rparr>
      in [ToGateway rt ri traceID (fst (MessagePayload_encode f [])) timeout callback])"

definition fi_asyncSendResponse :: "bytes \<Rightarrow> bytes \<Rightarrow> bytes \<Rightarrow> int \<Rightarrow> nat option \<Rightarrow> FrontImpl \<Rightarrow> front_out list" where
  "fi_asyncSendResponse dstNode traceID payload seq errorCallback fi =
     (let f = new_MessagePayload\<lparr>mp_traceID := traceID, mp_seq := of_int seq, mp_dataPtr := payload\<rparr>;
          ri = new_MessageOptionalHeader\<lparr>oh_srcNode := fi_nodeID fi, oh_dstNode := dstNode\<rparr>
      in asyncSendMessageToGateway True f ROUTE_THROUGH_NODEID traceID ri (-1) (DoneUser errorCallback) fi)"

definition fi_asyncSendMessage ::
  "bytes \<Rightarrow> u16 \<Rightarrow> MessageOptionalHeader \<Rightarrow> bytes \<Rightarrow> int \<Rightarrow> int \<Rightarrow> nat option \<Rightarrow> msg_callback option \<Rightarrow>
   FrontImpl \<Rightarrow> FrontImpl \<times> front_out list" where
  "fi_asyncSendMessage traceID rt routeInfo payload seq timeout errorCallback callback fi =
     (let f = new_MessagePayload\<lparr>mp_traceID := traceID, mp_seq := of_int seq, mp_dataPtr := payload\<rparr>;
          fi' = fi\<lparr>fi_callbacks := addCallback traceID timeout callback (fi_callbacks fi)\<rparr>
      in (fi', asyncSendMessageToGateway False f (RouteType_cast rt) traceID routeInfo timeout
                 (DoneSend traceID errorCallback) fi'))"

definition fi_handleCallback ::
  "bool \<Rightarrow> int option \<Rightarrow> bytes \<Rightarrow> Message option \<Rightarrow> FrontImpl \<Rightarrow> FrontImpl \<times> front_out list" where
  "fi_handleCallback moved_first error traceID message fi =
     (let (cb, outs) = cb_handleCallback error traceID message
            (RespondFn (if moved_first then None else message)) (fi_callbacks fi)
      in (fi\<lparr>fi_callbacks := cb\<rparr>, map Cb outs))"

text \<open>The gateway calls the completion callback with an error, or none.\<close>

definition fi_onSent :: "bool \<Rightarrow> send_done \<Rightarrow> int option \<Rightarrow> FrontImpl \<Rightarrow> FrontImpl \<times> front_out list" where
  "fi_onSent moved_first callback error fi =
     (case callback of
        DoneSend traceID errorCallback \<Rightarrow>
          (let (fi', outs) = (case error of
                 Some code \<Rightarrow> if code \<noteq> 0 then fi_handleCallback moved_first error traceID None fi else (fi, [])
               | None \<Rightarrow> (fi, []))
           in (fi', outs @ (case errorCallback of None \<Rightarrow> [] | Some n \<Rightarrow> [CallError n error])))
      | DoneUser errorCallback \<Rightarrow> (fi, case errorCallback of None \<Rightarrow> [] | Some n \<Rightarrow> [CallError n error])
      | DoneLog \<Rightarrow> (fi, []))"

text \<open>The response function of \<open>handleCallback\<close>: \<open>payload\<close> is not used by its body.\<close>

definition fi_respond :: "respond_fn \<Rightarrow> bytes \<Rightarrow> FrontImpl \<Rightarrow> front_out list" where
  "fi_respond fn payload fi =
     (case fn of
        RespondFn None \<Rightarrow> [NullDeref]
      | RespondFn (Some message) \<Rightarrow>
          (let h = msg_header message;
               f = new_MessagePayload\<lparr>mp_traceID := mh_traceID h\<rparr>;
               ri = (MessageOptionalHeader_copy (Some (mh_optionalField h)))
                      \<lparr>oh_dstNode := oh_srcNode (mh_optionalField h), oh_srcNode := oh_dstNode (mh_optionalField h)\<rparr>
           in asyncSendMessageToGateway True f ROUTE_THROUGH_NODEID (mh_traceID h) ri 0 DoneLog fi))"

text \<open>
  The last component is an exception that leaves the function: the handler catches the project's
  exceptions, \<open>std::out_of_range\<close> is not one of them.
\<close>

definition fi_onReceiveMessage ::
  "bool \<Rightarrow> Message \<Rightarrow> receive_cb \<Rightarrow> FrontImpl \<Rightarrow> FrontImpl \<times> front_out list \<times> exn option" where
  "fi_onReceiveMessage moved_first msg callback fi =
     (let ack = (if callback \<noteq> NoCallback then [AckGateway callback] else []) in
      case (case msg_payload msg of None \<Rightarrow> Inl OutOfBoundsRead
            | Some b \<Rightarrow> MessagePayload_decode new_MessagePayload b) of
        Inl e \<Rightarrow> (fi, ack, case e of WeDPRException _ \<Rightarrow> None | _ \<Rightarrow> Some e)
      | Inr (f, _) \<Rightarrow>
          (let m1 = message_setFrontMessage (Some f) True msg;
               (resp, f') = payload_isRespPacket f;
               m2 = m1\<lparr>msg_frontMessage := Some f'\<rparr>
           in if resp
              then let (fi', outs) = fi_handleCallback moved_first None (mh_traceID (msg_header m2)) (Some m2) fi
                   in (fi', ack @ outs, None)
              else let (cb, outs) = cb_onReceiveMessage (oh_topic (mh_optionalField (msg_header m2))) m2 (fi_callbacks fi)
                   in (fi\<lparr>fi_callbacks := cb\<rparr>, ack @ map Cb outs, None)))"

text \<open>A message callback's timer.\<close>

definition fi_onTimeout :: "bool \<Rightarrow> bytes \<Rightarrow> FrontImpl \<Rightarrow> FrontImpl \<times> front_out list" where
  "fi_onTimeout cancelled traceID fi =
     (let (cb, outs) = onMessageTimeout cancelled traceID (fi_callbacks fi)
      in (fi\<lparr>fi_callbacks := cb\<rparr>, map Cb outs))"

text \<open>\<open>push\<close> waits for the completion: its promise is the error callback \<open>promise\<close>.\<close>

definition fi_push ::
  "bytes \<Rightarrow> u16 \<Rightarrow> MessageOptionalHeader \<Rightarrow> bytes \<Rightarrow> int \<Rightarrow> int \<Rightarrow> nat \<Rightarrow> FrontImpl \<Rightarrow> FrontImpl \<times> front_out list" where
  "fi_push traceID rt routeInfo payload seq timeout promise fi =
     fi_asyncSendMessage traceID rt routeInfo payload seq timeout (Some promise) None fi"

definition fi_pop ::
  "(Message list \<Rightarrow> Message option \<times> Message list) \<Rightarrow> bytes \<Rightarrow> FrontImpl \<Rightarrow> Message option \<times> FrontImpl" where
  "fi_pop tryPop topic fi =
     (let (m, cb) = popMessage tryPop topic (fi_callbacks fi) in (m, fi\<lparr>fi_callbacks := cb\<rparr>))"

definition fi_registerTopicHandler :: "bytes \<Rightarrow> dispatcher option \<Rightarrow> FrontImpl \<Rightarrow> FrontImpl" where
  "fi_registerTopicHandler topic callback fi =
     fi\<lparr>fi_callbacks := cb_registerTopicHandler topic callback (fi_callbacks fi)\<rparr>"

definition fi_registerMessageHandler :: "bytes \<Rightarrow> dispatcher option \<Rightarrow> FrontImpl \<Rightarrow> FrontImpl" where
  "fi_registerMessageHandler componentType callback fi =
     fi\<lparr>fi_callbacks := cb_registerMessageHandler componentType callback (fi_callbacks fi)\<rparr>"

text \<open>\<open>registerNodeInfo\<close> registers the front's own node, not its argument.\<close>

definition fi_registerNodeInfo :: "NodeInfo \<Rightarrow> FrontImpl \<Rightarrow> front_out list" where
  "fi_registerNodeInfo info fi = [GwRegisterNodeInfo (fi_nodeInfo fi)]"

definition fi_unRegisterNodeInfo :: "FrontImpl \<Rightarrow> front_out list" where
  "fi_unRegisterNodeInfo fi = [GwUnRegisterNodeInfo (fi_nodeID fi)]"

definition fi_registerTopic :: "bytes \<Rightarrow> FrontImpl \<Rightarrow> front_out list" where
  "fi_registerTopic topic fi = [GwRegisterTopic (fi_nodeID fi) topic]"

definition fi_unRegisterTopic :: "bytes \<Rightarrow> FrontImpl \<Rightarrow> front_out list" where
  "fi_unRegisterTopic topic fi = [GwUnRegisterTopic (fi_nodeID fi) topic]"

definition registerComponent :: "bytes \<Rightarrow> FrontImpl \<Rightarrow> FrontImpl" where
  "registerComponent component fi = fi\<lparr>fi_nodeInfo := snd (addComponent component (fi_nodeInfo fi))\<rparr>"

definition unRegisterComponent :: "bytes \<Rightarrow> FrontImpl \<Rightarrow> FrontImpl" where
  "unRegisterComponent component fi = fi\<lparr>fi_nodeInfo := snd (eraseComponent component (fi_nodeInfo fi))\<rparr>"

definition updateMetaInfo :: "bytes \<Rightarrow> FrontImpl \<Rightarrow> FrontImpl" where
  "updateMetaInfo meta fi = fi\<lparr>fi_nodeInfo := (fi_nodeInfo fi)\<lparr>ni_meta := meta\<rparr>\<rparr>"

section \<open>Front\<close>

record Front =
  fr_front :: FrontImpl
  fr_agencyList :: "bytes list"

definition new_Front :: "FrontImpl \<Rightarrow> Front" where
  "new_Front fi = \<lparr>fr_front = fi, fr_agencyList = []\<rparr>"

definition fr_start :: "Front \<Rightarrow> Front \<times> front_out list" where
  "fr_start fr = (let (fi, outs) = fi_start (fr_front fr) in (fr\<lparr>fr_front := fi\<rparr>, outs @ [StartFetcher]))"

definition fr_stop :: "Front \<Rightarrow> Front \<times> front_out list" where
  "fr_stop fr = (let (fi, outs) = fi_stop (fr_front fr) in (fr\<lparr>fr_front := fi\<rparr>, StopFetcher # outs))"

definition fetchGatewayMetaInfo :: "Front \<Rightarrow> front_out list" where
  "fetchGatewayMetaInfo fr = [GwAsyncGetAgencies (copiedComponents (fi_nodeInfo (fr_front fr))), RestartFetcher]"

text \<open>The callback of \<open>fetchGatewayMetaInfo\<close>; \<open>std::set\<close> is walked in order.\<close>

definition onAgencies :: "int option \<Rightarrow> bytes set \<Rightarrow> Front \<Rightarrow> Front" where
  "onAgencies error agencies fr =
     (if (case error of Some code \<Rightarrow> code \<noteq> 0 | None \<Rightarrow> False) then fr
      else let agencyList = sorted_list_of_set agencies
           in if fr_agencyList fr = agencyList then fr else fr\<lparr>fr_agencyList := agencyList\<rparr>)"

definition digit :: "nat \<Rightarrow> char" where
  "digit d = char_of (48 + d)"

text \<open>\<open>std::to_string\<close>\<close>

fun to_string :: "nat \<Rightarrow> bytes" where
  "to_string n = (if n < 10 then [digit n] else to_string (n div 10) @ [digit (n mod 10)])"

declare to_string.simps [simp del]

definition algorithm_type :: "u8 \<Rightarrow> u8 \<Rightarrow> u16" where
  "algorithm_type taskType algorithmType = push_bit 8 (ucast taskType) OR ucast algorithmType"

definition fr_asyncSendMessage ::
  "bytes \<Rightarrow> bytes \<Rightarrow> PPCMessage \<Rightarrow> u32 \<Rightarrow> nat option \<Rightarrow> nat option \<Rightarrow> Front \<Rightarrow> Front \<times> front_out list" where
  "fr_asyncSendMessage traceID agencyID message timeout callback respCallback fr =
     (let ri = new_MessageOptionalHeader\<lparr>oh_dstInst := agencyID, oh_topic := ppc_taskID message,
                 oh_componentType := to_string (unat (algorithm_type (ppc_taskType message) (ppc_algorithmType message)))\<rparr>;
          data = fst (PPCMessage_encode message);
          (fi, outs) = fi_asyncSendMessage traceID 3 ri data (sint (ppc_seq message)) (uint timeout) callback
                         (map_option (PpcRespCb agencyID) respCallback) (fr_front fr)
      in (fr\<lparr>fr_front := fi\<rparr>, outs))"

definition fr_asyncSendResponse :: "bytes \<Rightarrow> bytes \<Rightarrow> PPCMessage \<Rightarrow> nat option \<Rightarrow> Front \<Rightarrow> front_out list" where
  "fr_asyncSendResponse dstNode traceID message callback fr =
     fi_asyncSendResponse dstNode traceID (fst (PPCMessage_encode message)) 0 callback (fr_front fr)"

definition notifyTaskInfo :: "bytes \<Rightarrow> Front \<Rightarrow> front_out list" where
  "notifyTaskInfo taskID fr = fi_registerTopic taskID (fr_front fr)"

definition eraseTaskInfo :: "bytes \<Rightarrow> Front \<Rightarrow> front_out list" where
  "eraseTaskInfo taskID fr = fi_unRegisterTopic taskID (fr_front fr)"

definition fr_registerMessageHandler :: "u8 \<Rightarrow> u8 \<Rightarrow> ppc_handler \<Rightarrow> Front \<Rightarrow> Front" where
  "fr_registerMessageHandler taskType algorithmType handler fr =
     (let type = algorithm_type taskType algorithmType
      in fr\<lparr>fr_front := registerComponent (to_string (unat type))
             (fi_registerMessageHandler (to_string (unat type)) (Some (PpcHandler type handler)) (fr_front fr))\<rparr>)"

definition registerMsgHandlerForChannel :: "u8 \<Rightarrow> u8 \<Rightarrow> Front \<Rightarrow> Front" where
  "registerMsgHandlerForChannel taskType algorithmType fr =
     fr_registerMessageHandler taskType algorithmType ChannelHandler fr"

text \<open>
  The closures. The response closure calls the application with no message on an error and then goes
  on to use the message. The handler closure releases the payload of a large message afterwards.
\<close>

definition run_msgCallback ::
  "bool \<Rightarrow> msg_callback \<Rightarrow> int option \<Rightarrow> Message option \<Rightarrow> front_out list" where
  "run_msgCallback junk f error msg =
     (case f of
        UserCb n \<Rightarrow> [UserCall n error msg]
      | PpcRespCb agencyID n \<Rightarrow>
          (case msg of
             None \<Rightarrow> [RespCall n error agencyID None, NullDeref]
           | Some m \<Rightarrow> [RespCall n error (oh_srcInst (mh_optionalField (msg_header m)))
                          (Some (fst (decodePPCMessage junk m)))]))"

definition LARGE_MSG_THRESHOLD :: nat where
  "LARGE_MSG_THRESHOLD = 30 * 1024 * 1024"

definition message_releasePayload :: "Message \<Rightarrow> Message" where
  "message_releasePayload m =
     m\<lparr>msg_payload := map_option (\<lambda>_. []) (msg_payload m),
       msg_frontMessage := map_option (\<lambda>f. f\<lparr>mp_data := []\<rparr>) (msg_frontMessage m)\<rparr>"

definition run_dispatcher :: "bool \<Rightarrow> dispatcher \<Rightarrow> Message \<Rightarrow> Message \<times> front_out list" where
  "run_dispatcher junk d m =
     (case d of
        UserHandler n \<Rightarrow> (m, [UserDispatch n m])
      | PpcHandler type handler \<Rightarrow>
          (let (p, m1) = decodePPCMessage junk m;
               out = (case handler of AlgoHandler n \<Rightarrow> AlgoCall n p | ChannelHandler \<Rightarrow> ToChannelManager p);
               m2 = (if unat (message_length m1) \<ge> LARGE_MSG_THRESHOLD then message_releasePayload m1 else m1)
           in (m2, [out])))"

section \<open>Component names\<close>

definition of_string :: "bytes \<Rightarrow> nat" where
  "of_string s = foldl (\<lambda>acc c. 10 * acc + (of_char c - 48)) 0 s"

lemma digit_value: "d < 10 \<Longrightarrow> of_char (digit d) - 48 = (d :: nat)"
  by (simp add: digit_def)

lemma of_string_to_string: "of_string (to_string n) = n"
proof (induction n rule: to_string.induct)
  case (1 n)
  then show ?case
    by (cases "n < 10") (simp_all add: to_string.simps [of n] of_string_def digit_value)
qed

lemma to_string_inj: "to_string m = to_string n \<longleftrightarrow> m = n"
  by (metis of_string_to_string)

lemma algorithm_type_low: "ucast (algorithm_type t a) = a"
  by (rule bit_word_eqI) (auto simp: algorithm_type_def bit_simps)

lemma algorithm_type_high: "ucast (drop_bit 8 (algorithm_type t a)) = t"
proof (rule bit_word_eqI)
  fix n
  assume "n < LENGTH(8)"
  moreover have "\<not> bit a (8 + n)" by (simp add: bit_word_def)
  ultimately show "bit (ucast (drop_bit 8 (algorithm_type t a)) :: u8) n = bit t n"
    by (auto simp: algorithm_type_def bit_simps)
qed

lemma algorithm_type_inj: "algorithm_type t a = algorithm_type t' a' \<longleftrightarrow> t = t' \<and> a = a'"
  by (metis algorithm_type_low algorithm_type_high)

lemma component_name_inj:
  "to_string (unat (algorithm_type t a)) = to_string (unat (algorithm_type t' a')) \<longleftrightarrow> t = t' \<and> a = a'"
  by (metis to_string_inj word_unat_eq_iff algorithm_type_inj)

section \<open>Frames between two fronts\<close>

text \<open>
  What the gateway of agency \<open>agency\<close> makes of a message its front hands over. It is a \<open>P2PMessage\<close>; the wire
  to the other gateway, which gives such a message back with header, optional fields and payload
  (\<open>message_decode_encode\<close> of \<open>MessageCodec\<close>, for fields that fit their lengths), is left out here.
\<close>

definition gateway_message :: "bytes \<Rightarrow> front_out \<Rightarrow> Message res" where
  "gateway_message agency out =
     (case out of
        ToGateway rt ri tr payload timeout done \<Rightarrow>
          gw_build rt (ri\<lparr>oh_srcInst := agency\<rparr>) tr (packetCode P2PMessage) payload
      | _ \<Rightarrow> Inl OutOfRange)"

definition known_route :: "RouteType \<Rightarrow> bool" where
  "known_route rt \<longleftrightarrow> (case rt of ROUTE_UNKNOWN _ \<Rightarrow> False | _ \<Rightarrow> True)"

lemma gateway_message_known:
  assumes "known_route rt"
  shows "\<exists>m. gateway_message agency (ToGateway rt ri tr pl timeout done) = Inr m \<and>
    msg_payload m = Some pl \<and> mh_traceID (msg_header m) = tr \<and>
    mh_optionalField (msg_header m) = ri\<lparr>oh_srcInst := agency\<rparr>"
  using assms
  by (cases rt) (simp_all add: gateway_message_def gw_build_def build_routed_def known_route_def
      message_setPayload_def new_Message_def)

abbreviation frame_fits :: "MessagePayload \<Rightarrow> bool" where
  "frame_fits f \<equiv> length (mp_traceID f) < 2 ^ 16 \<and> length (fst (MessagePayload_encode f [])) < 2 ^ 32"

lemma frame_length:
  "length (fst (MessagePayload_encode f [])) = 12 + length (mp_traceID f) + length (mp_dataPtr f)"
  by (simp add: MessagePayload_encode_def Let_def)

text \<open>The message the front dispatches after unpacking the frame \<open>f\<close>.\<close>

definition unpacked :: "Message \<Rightarrow> MessagePayload \<Rightarrow> Message" where
  "unpacked m f = message_setFrontMessage
     (Some (f\<lparr>mp_data := mp_dataPtr f, mp_length := int (length (fst (MessagePayload_encode f []))),
              mp_ext := mp_ext f AND FrontMsgExtFlag_Response\<rparr>)) True m"

lemma unpacked_simps [simp]:
  "msg_header (unpacked m f) = msg_header m"
  "msg_frontMessage (unpacked m f) = Some (f\<lparr>mp_data := mp_dataPtr f,
     mp_length := int (length (fst (MessagePayload_encode f []))), mp_ext := mp_ext f AND FrontMsgExtFlag_Response\<rparr>)"
  by (simp_all add: unpacked_def message_setFrontMessage_def)

lemma receive_frame:
  assumes "msg_payload m = Some (fst (MessagePayload_encode f []))" and "frame_fits f"
  shows "fi_onReceiveMessage moved_first m callback fi =
    (let ack = (if callback \<noteq> NoCallback then [AckGateway callback] else []) in
     if mp_ext f AND FrontMsgExtFlag_Response \<noteq> 0
     then let (fi', outs) = fi_handleCallback moved_first None (mh_traceID (msg_header m)) (Some (unpacked m f)) fi
          in (fi', ack @ outs, None)
     else let (cb, outs) = cb_onReceiveMessage (oh_topic (mh_optionalField (msg_header m))) (unpacked m f) (fi_callbacks fi)
          in (fi\<lparr>fi_callbacks := cb\<rparr>, ack @ map Cb outs, None))"
proof -
  have d: "MessagePayload_decode new_MessagePayload (fst (MessagePayload_encode f [])) =
    Inr (f\<lparr>mp_data := mp_dataPtr f, mp_length := int (length (fst (MessagePayload_encode f [])))\<rparr>,
         length (fst (MessagePayload_encode f [])))"
    using assms(2) by (intro payload_decode_encode) simp_all
  have u: "(message_setFrontMessage (Some g) True m)\<lparr>msg_frontMessage := Some g'\<rparr> =
      message_setFrontMessage (Some g') True m" for g g'
    by (simp add: message_setFrontMessage_def)
  show ?thesis
    by (simp add: fi_onReceiveMessage_def assms(1) d payload_isRespPacket_def Let_def u)
      (simp add: unpacked_def message_setFrontMessage_def)
qed

section \<open>Requests and responses\<close>

definition request_frame :: "bytes \<Rightarrow> int \<Rightarrow> bytes \<Rightarrow> MessagePayload" where
  "request_frame tr seq payload =
     new_MessagePayload\<lparr>mp_traceID := tr, mp_seq := of_int seq, mp_dataPtr := payload\<rparr>"

lemma front_flag [simp]: "FrontMsgExtFlag_Response AND FrontMsgExtFlag_Response = FrontMsgExtFlag_Response"
  "FrontMsgExtFlag_Response \<noteq> 0"
  by (simp_all add: FrontMsgExtFlag_Response_def)

lemma request_frame_simps [simp]:
  "mp_traceID (request_frame tr seq pl) = tr" "mp_ext (request_frame tr seq pl) = 0"
  "mp_dataPtr (request_frame tr seq pl) = pl" "mp_seq (request_frame tr seq pl) = of_int seq"
  by (simp_all add: request_frame_def new_MessagePayload_def)

lemma response_frame_simps [simp]:
  "mp_traceID (payload_setRespPacket f) = mp_traceID f" "mp_dataPtr (payload_setRespPacket f) = mp_dataPtr f"
  "mp_ext (payload_setRespPacket f) AND FrontMsgExtFlag_Response = FrontMsgExtFlag_Response"
  by (simp_all add: payload_setRespPacket_def)

lemma receive_request:
  assumes "msg_payload m = Some (fst (MessagePayload_encode (request_frame tr seq pl) []))"
    and "length tr < 2 ^ 16" and "length tr + length pl < 2 ^ 31"
  shows "fi_onReceiveMessage moved_first m NoCallback fi =
    (let (cb, outs) = cb_onReceiveMessage (oh_topic (mh_optionalField (msg_header m)))
            (unpacked m (request_frame tr seq pl)) (fi_callbacks fi)
     in (fi\<lparr>fi_callbacks := cb\<rparr>, map Cb outs, None))"
  using assms(2,3) by (subst receive_frame [OF assms(1)]) (simp_all add: frame_length)

lemma receive_response:
  assumes "msg_payload m = Some (fst (MessagePayload_encode (payload_setRespPacket (request_frame tr seq pl)) []))"
    and "length tr < 2 ^ 16" and "length tr + length pl < 2 ^ 31"
  shows "fi_onReceiveMessage moved_first m NoCallback fi =
    (let (fi', outs) = fi_handleCallback moved_first None (mh_traceID (msg_header m))
            (Some (unpacked m (payload_setRespPacket (request_frame tr seq pl)))) fi
     in (fi', outs, None))"
  using assms(2,3) by (subst receive_frame [OF assms(1)]) (simp_all add: frame_length)

lemma add_then_reply:
  assumes "cb_traceID2Callback cb tr = None"
  shows "cb_handleCallback err tr (Some m) r (addCallback tr timeout (Some f) cb) =
    (cb, [CallMsgCallback f err (Some m) (Some r)])"
  using assms
  by (simp add: cb_handleCallback_def addCallback_def umap_insert_def callback_pop_def fun_upd_idem)

definition front_data :: "Message \<Rightarrow> bytes" where
  "front_data m = (case msg_frontMessage m of None \<Rightarrow> [] | Some f \<Rightarrow> mp_data f)"

text \<open>
  (C5) A request and its response, across two fronts and their gateways. Front \<open>A\<close> sends a request
  under a fresh trace id; the message its gateway builds, received by front \<open>B\<close>, goes to the handler
  of its topic with the request's payload and sequence number and \<open>A\<close>'s node id as sender. When the
  handler answers that sender under that trace id, the message \<open>B\<close>'s gateway builds is addressed to
  \<open>A\<close>'s node and, received by \<open>A\<close>, invokes the request's callback, once, without error and with the
  answer's payload; \<open>A\<close> is then as before the request.
\<close>

theorem request_response:
  fixes A B :: FrontImpl and tr data reply :: bytes and f :: msg_callback
  assumes fresh: "cb_traceID2Callback (fi_callbacks A) tr = None"
    and route: "known_route (RouteType_cast rt)"
    and handler: "getHandlerByTopic (oh_topic ri) (fi_callbacks B) = Some d"
    and sizes: "length tr < 2 ^ 16" "length tr + length data < 2 ^ 31" "length tr + length reply < 2 ^ 31"
  shows "\<exists>A' req m m' resp r r'.
     fi_asyncSendMessage tr rt ri data seq timeout ec (Some f) A = (A', [req]) \<and>
     gateway_message agencyA req = Inr m \<and>
     fi_onReceiveMessage moved_first m NoCallback B = (B, [Cb (CallDispatcher d m')], None) \<and>
     front_data m' = data \<and> map_option mp_seq (msg_frontMessage m') = Some (of_int seq) \<and>
     oh_srcNode (mh_optionalField (msg_header m')) = fi_nodeID A \<and> mh_traceID (msg_header m') = tr \<and>
     fi_asyncSendResponse (oh_srcNode (mh_optionalField (msg_header m'))) (mh_traceID (msg_header m')) reply seq' ec' B = [resp] \<and>
     gateway_message agencyB resp = Inr r \<and> oh_dstNode (mh_optionalField (msg_header r)) = fi_nodeID A \<and>
     fi_onReceiveMessage moved_first r NoCallback A' =
       (A, [Cb (CallMsgCallback f None (Some r') (Some (RespondFn (if moved_first then None else Some r'))))], None) \<and>
     front_data r' = reply"
proof -
  let ?A' = "A\<lparr>fi_callbacks := addCallback tr timeout (Some f) (fi_callbacks A)\<rparr>"
  let ?ri = "ri\<lparr>oh_srcNode := fi_nodeID A\<rparr>"
  let ?q = "request_frame tr seq data" and ?p = "payload_setRespPacket (request_frame tr seq' reply)"
  let ?req = "ToGateway (RouteType_cast rt) ?ri tr (fst (MessagePayload_encode ?q [])) timeout (DoneSend tr ec)"
  have send: "fi_asyncSendMessage tr rt ri data seq timeout ec (Some f) A = (?A', [?req])"
    by (simp add: fi_asyncSendMessage_def asyncSendMessageToGateway_def Let_def request_frame_def)
  obtain m where m: "gateway_message agencyA ?req = Inr m" "msg_payload m = Some (fst (MessagePayload_encode ?q []))"
    "mh_traceID (msg_header m) = tr" "mh_optionalField (msg_header m) = ?ri\<lparr>oh_srcInst := agencyA\<rparr>"
    using gateway_message_known [OF route] by blast
  have rec: "fi_onReceiveMessage moved_first m NoCallback B = (B, [Cb (CallDispatcher d (unpacked m ?q))], None)"
    using receive_request [OF m(2) sizes(1,2)] handler m(4) by (simp add: cb_onReceiveMessage_def)
  let ?ri' = "new_MessageOptionalHeader\<lparr>oh_srcNode := fi_nodeID B, oh_dstNode := fi_nodeID A\<rparr>"
  let ?resp = "ToGateway ROUTE_THROUGH_NODEID ?ri' tr (fst (MessagePayload_encode ?p [])) (-1) (DoneUser ec')"
  have answer: "fi_asyncSendResponse (fi_nodeID A) tr reply seq' ec' B = [?resp]"
    by (simp add: fi_asyncSendResponse_def asyncSendMessageToGateway_def Let_def request_frame_def)
  have "known_route ROUTE_THROUGH_NODEID" by (simp add: known_route_def)
  then obtain r where r: "gateway_message agencyB ?resp = Inr r" "msg_payload r = Some (fst (MessagePayload_encode ?p []))"
    "mh_traceID (msg_header r) = tr" "mh_optionalField (msg_header r) = ?ri'\<lparr>oh_srcInst := agencyB\<rparr>"
    using gateway_message_known by blast
  have returns: "fi_onReceiveMessage moved_first r NoCallback ?A' =
      (A, [Cb (CallMsgCallback f None (Some (unpacked r ?p)) (Some (RespondFn (if moved_first then None else Some (unpacked r ?p)))))], None)"
    using receive_response [OF r(2) sizes(1,3)] fresh r(3)
    by (simp add: fi_handleCallback_def add_then_reply)
  have at_B: "front_data (unpacked m ?q) = data" "map_option mp_seq (msg_frontMessage (unpacked m ?q)) = Some (of_int seq)"
    "oh_srcNode (mh_optionalField (msg_header (unpacked m ?q))) = fi_nodeID A" "mh_traceID (msg_header (unpacked m ?q)) = tr"
    using m by (simp_all add: front_data_def)
  have at_A: "front_data (unpacked r ?p) = reply" "oh_dstNode (mh_optionalField (msg_header r)) = fi_nodeID A"
    using r by (simp_all add: front_data_def)
  show ?thesis
    by (intro exI conjI, rule send, rule m(1), rule rec, (rule at_B)+, (unfold at_B)[1], rule answer,
        rule r(1), rule at_A(2), rule returns, rule at_A(1))
qed

theorem request_response_witness:
  defines "A \<equiv> new_FrontImpl (new_NodeInfo ''a'' [])"
    and "B \<equiv> fi_registerTopicHandler ''job'' (Some (UserHandler 1)) (new_FrontImpl (new_NodeInfo ''b'' []))"
  shows "\<exists>A' req m m' resp r r'.
     fi_asyncSendMessage ''t'' 3 (new_MessageOptionalHeader\<lparr>oh_topic := ''job''\<rparr>) ''ping'' 4 0 None (Some (UserCb 7)) A = (A', [req]) \<and>
     gateway_message ''agA'' req = Inr m \<and>
     fi_onReceiveMessage False m NoCallback B = (B, [Cb (CallDispatcher (UserHandler 1) m')], None) \<and> front_data m' = ''ping'' \<and>
     fi_asyncSendResponse (oh_srcNode (mh_optionalField (msg_header m'))) (mh_traceID (msg_header m')) ''pong'' 0 None B = [resp] \<and>
     gateway_message ''agB'' resp = Inr r \<and>
     fi_onReceiveMessage False r NoCallback A' =
       (A, [Cb (CallMsgCallback (UserCb 7) None (Some r') (Some (RespondFn (Some r'))))], None) \<and> front_data r' = ''pong''"
proof -
  have fresh: "cb_traceID2Callback (fi_callbacks A) ''t'' = None"
    by (simp add: A_def new_FrontImpl_def new_CallbackManager_def)
  have route: "known_route (RouteType_cast 3)" by (simp add: RouteType_cast_def known_route_def Let_def)
  have handler: "getHandlerByTopic (oh_topic (new_MessageOptionalHeader\<lparr>oh_topic := ''job''\<rparr>)) (fi_callbacks B) = Some (UserHandler 1)"
    by (simp add: B_def new_FrontImpl_def new_CallbackManager_def fi_registerTopicHandler_def
        cb_registerTopicHandler_def getHandlerByTopic_def smap_insert_def)
  have "length ''t'' < 2 ^ 16" "length ''t'' + length ''ping'' < 2 ^ 31" "length ''t'' + length ''pong'' < 2 ^ 31" by simp_all
  from request_response [OF fresh route handler this, of 4 0 None "UserCb 7" "''agA''" False 0 None "''agB''"]
  show ?thesis unfolding if_False by blast
qed

text \<open>
  (C40) How a pending request ends when no answer comes. A failed send removes its callback without
  invoking it; only the error callback of the call, if there is one, learns the error. A timer that
  fires removes the callback and invokes it with the timeout code and no message; the callback that
  \<open>Front::asyncSendMessage\<close> installs then reports to the application and goes on to dereference the
  null message.
\<close>

theorem request_failure_paths:
  assumes "cb_traceID2Callback (fi_callbacks fi) tr = Some e" and "code \<noteq> 0"
  shows "let fi' = fi\<lparr>fi_callbacks := (fi_callbacks fi)
                  \<lparr>cb_traceID2Callback := (cb_traceID2Callback (fi_callbacks fi))(tr := None)\<rparr>\<rparr>
         in fi_onSent moved_first (DoneSend tr ec) (Some code) fi =
              (fi', case ec of None \<Rightarrow> [] | Some n \<Rightarrow> [CallError n (Some code)]) \<and>
            fi_onTimeout False tr fi =
              (fi', [Cb (CallMsgCallback (ce_msgCallback e) (Some PPCRetCode_TIMEOUT) None None)]) \<and>
            run_msgCallback junk (PpcRespCb agency n) (Some PPCRetCode_TIMEOUT) None =
              [RespCall n (Some PPCRetCode_TIMEOUT) agency None, NullDeref]"
  using assms
  by (simp add: fi_onSent_def fi_handleCallback_def cb_handleCallback_def callback_pop_def
      fi_onTimeout_def onMessageTimeout_def run_msgCallback_def Let_def)

theorem request_failure_paths_witness:
  defines "fi \<equiv> fst (fi_asyncSendMessage ''t'' 3 new_MessageOptionalHeader ''x'' 0 5 None (Some (UserCb 7))
                   (new_FrontImpl (new_NodeInfo ''a'' [])))"
  shows "\<exists>fi'. fi_onSent True (DoneSend ''t'' (Some 9)) (Some (-1)) fi = (fi', [CallError 9 (Some (-1))])"
proof -
  have "cb_traceID2Callback (fi_callbacks fi) ''t'' = Some \<lparr>ce_msgCallback = UserCb 7, ce_timeoutHandler = True\<rparr>"
    by (simp add: fi_def fi_asyncSendMessage_def addCallback_def umap_insert_def new_FrontImpl_def
        new_CallbackManager_def Let_def)
  from request_failure_paths [OF this, of "-1" True "Some 9"] show ?thesis by (simp add: Let_def)
qed

section \<open>Messages of the algorithms\<close>

lemma seq_cut: "(scast (w :: u32) :: u16) = ucast w"
  by (rule bit_word_eqI) (simp add: bit_signed_iff bit_ucast_iff)

lemma seq_small:
  assumes "unat (w :: u32) < 2 ^ 16"
  shows "(ucast (ucast w :: u16) :: u32) = w"
proof -
  have "unat (ucast (ucast w :: u16) :: u32) = unat w mod 2 ^ 16"
    by (simp add: unsigned_ucast_eq unsigned_take_bit_eq) (simp add: take_bit_eq_mod)
  with assms show ?thesis by (simp add: word_unat_eq_iff)
qed

definition same_ppc :: "PPCMessage \<Rightarrow> PPCMessage \<Rightarrow> bool" where
  "same_ppc q p \<longleftrightarrow> ppc_version q = ppc_version p \<and> ppc_taskType q = ppc_taskType p \<and>
     ppc_algorithmType q = ppc_algorithmType p \<and> ppc_messageType q = ppc_messageType p \<and>
     ppc_taskID q = ppc_taskID p \<and> ppc_data q = ppc_data p \<and> ppc_header q = ppc_header p"

lemma decode_dispatched:
  assumes "length (ppc_data p) + length (ppc_header p) + 8 < 2 ^ 31"
    and "oh_topic (mh_optionalField (msg_header m)) = ppc_taskID p"
  shows "let q = fst (decodePPCMessage junk (unpacked m (request_frame tr seq (fst (PPCMessage_encode p)))))
    in same_ppc q p \<and> ppc_seq q = ucast (of_int seq :: u16) \<and> ppc_uuid q = tr \<and>
       ppc_sender q = oh_srcInst (mh_optionalField (msg_header m)) \<and>
       ppc_senderNode q = oh_srcNode (mh_optionalField (msg_header m))"
proof -
  have d: "length (ppc_data p) < 2 ^ 32" and l: "length (fst (PPCMessage_encode p)) < 2 ^ 32"
    using assms(1) by (simp_all add: ppc_encode_length)
  show ?thesis using assms(2)
    by (simp add: decodePPCMessage_def same_ppc_def ppc_decode_encode [OF l d] payload_isRespPacket_def
        new_PPCMessage_def Let_def)
qed

lemma fr_send:
  "fr_asyncSendMessage tr agencyID p timeout callback resp fr =
    (fr\<lparr>fr_front := (fr_front fr)\<lparr>fi_callbacks :=
        addCallback tr (uint timeout) (map_option (PpcRespCb agencyID) resp) (fi_callbacks (fr_front fr))\<rparr>\<rparr>,
     [ToGateway ROUTE_THROUGH_TOPIC
        (new_MessageOptionalHeader\<lparr>oh_dstInst := agencyID, oh_topic := ppc_taskID p,
           oh_componentType := to_string (unat (algorithm_type (ppc_taskType p) (ppc_algorithmType p))),
           oh_srcNode := fi_nodeID (fr_front fr)\<rparr>)
        tr (fst (MessagePayload_encode (request_frame tr (sint (ppc_seq p)) (fst (PPCMessage_encode p))) []))
        (uint timeout) (DoneSend tr callback)])"
  by (simp add: fr_asyncSendMessage_def fi_asyncSendMessage_def asyncSendMessageToGateway_def Let_def
      request_frame_def RouteType_cast_def)

lemma registered_component:
  "map_of (cb_msgHandlers (fi_callbacks (fr_front fr))) (to_string (unat (algorithm_type t a))) = None \<Longrightarrow>
   getHandlerByComponentType (to_string (unat (algorithm_type t' a')))
     (fi_callbacks (fr_front (fr_registerMessageHandler t a h fr))) =
   (if t' = t \<and> a' = a then Some (PpcHandler (algorithm_type t a) h)
    else getHandlerByComponentType (to_string (unat (algorithm_type t' a'))) (fi_callbacks (fr_front fr)))"
  by (simp add: fr_registerMessageHandler_def registerComponent_def fi_registerMessageHandler_def
      cb_registerMessageHandler_def getHandlerByComponentType_def map_of_smap_insert component_name_inj Let_def)

lemma run_channel_dispatcher:
  "snd (run_dispatcher junk (PpcHandler ty ChannelHandler) m) = [ToChannelManager (fst (decodePPCMessage junk m))]"
  by (simp add: run_dispatcher_def split_beta Let_def)

end
