(* ===== verification/PSITask.thy ===== *)
theory PSITask
  imports Prelude
begin

text \<open>
  The life of one task on one party: the task and resource descriptions
  (ppc-framework/protocol/Task.h, PartyResource.h, DataResource.h), its state \<open>TaskState\<close>
  (wedpr-computing/ppc-psi/src/psi-framework/TaskState.cpp) and the admission check of \<open>TaskGuarder\<close>
  (TaskGuarder.cpp).

  Calls into storage and into the handlers other components register are actions; which of them throws
  is an argument, so every \<open>catch\<close> is a branch. The callback that answers the task's submitter is the
  output \<open>Answer\<close>. An error is its code. The writer of the result is the list of lines written.

  Shown: sequence numbers of open sub-tasks are fresh; which operations of a protocol on its task answer
  the submitter, and that none touches the callback; \<open>onTaskFinished\<close> answers once however often and
  in whichever variant it is called; what an exception leaves behind, in particular that the task is
  answered a second time, with success; what the admission check guarantees.
\<close>

record DataResource =
  dr_resourceID :: bytes
  dr_desc :: "bytes option"
  dr_outputDesc :: "bytes option"
  dr_rawData :: "bytes list list"

record PartyResource =
  pa_id :: bytes
  pa_partyIndex :: u16
  pa_dataResource :: "DataResource option"

record Task =
  tk_id :: bytes
  tk_selfParty :: PartyResource
  tk_peerParties :: "(bytes, PartyResource) smap"
  tk_syncResultToPeer :: bool
  tk_enableOutputExists :: bool
  tk_receivers :: "bytes list"

definition PartyType_Client :: u16 where "PartyType_Client = 0"
definition PartyType_Server :: u16 where "PartyType_Server = 1"

datatype TaskStatus = NoStatus | FAILED | COMPLETED

record TaskResult =
  tr_taskID :: bytes
  tr_error :: "int option"
  tr_status :: TaskStatus

datatype ts_act =
    Upload | Finalize | DeleteResource bytes | CleanReader | CleanWriter | NotifyPeerFinish | SubTaskFinished
  | LoadWriter bytes | WriteLine "bytes list" | FlushWriter | CloseWriter | NullConfig

datatype ts_out = Did ts_act | Answer TaskResult

record TaskState =
  ts_task :: Task
  ts_callback :: bool
  ts_onlySelfRun :: bool
  ts_config :: bool
  ts_peerID :: bytes
  ts_worker :: bool
  ts_finalizeHandler :: bool
  ts_onSubTaskFinished :: bool
  ts_notifyPeerFinishHandler :: bool
  ts_reader :: bool
  ts_sqlReader :: bool
  ts_writer :: "bytes list option"
  ts_currentSeq :: u32
  ts_seqList :: "u32 set"
  ts_successCount :: u64
  ts_failedCount :: u64
  ts_taskDone :: bool
  ts_finished :: bool
  ts_uploaded :: bool

definition new_TaskState :: "Task \<Rightarrow> bool \<Rightarrow> bool \<Rightarrow> TaskState" where
  "new_TaskState task onlySelfRun config =
     \<lparr>ts_task = task, ts_callback = True, ts_onlySelfRun = onlySelfRun, ts_config = config, ts_peerID = [],
      ts_worker = False, ts_finalizeHandler = False, ts_onSubTaskFinished = False, ts_notifyPeerFinishHandler = False,
      ts_reader = False, ts_sqlReader = False, ts_writer = None, ts_currentSeq = 0, ts_seqList = {},
      ts_successCount = 0, ts_failedCount = 0, ts_taskDone = False, ts_finished = False, ts_uploaded = False\<rparr>"

text \<open>A \<open>try\<close> block: actions in order up to and including the first that throws.\<close>

fun attempt :: "('a \<Rightarrow> bool) \<Rightarrow> 'a list \<Rightarrow> 'a list \<times> bool" where
  "attempt throws [] = ([], False)"
| "attempt throws (a # as) =
     (if throws a then ([a], True) else let (did, threw) = attempt throws as in (a # did, threw))"

definition allocateSeq :: "TaskState \<Rightarrow> u32 \<times> TaskState" where
  "allocateSeq s =
     (let seq = ts_currentSeq s + 1
      in (seq, s\<lparr>ts_currentSeq := seq, ts_seqList := insert seq (ts_seqList s)\<rparr>))"

definition finished :: "TaskState \<Rightarrow> bool" where
  "finished s \<longleftrightarrow> ts_finished s \<and> ts_seqList s = {}"

definition ts_removeGeneratedOutputFile :: "TaskState \<Rightarrow> ts_act list" where
  "ts_removeGeneratedOutputFile s =
     (case pa_dataResource (tk_selfParty (ts_task s)) of
        None \<Rightarrow> []
      | Some r \<Rightarrow>
          if ts_writer s = None then []
          else (case dr_desc r of
                  None \<Rightarrow> []
                | Some d \<Rightarrow> [if ts_config s then DeleteResource d else NullConfig]))"

definition onTaskException :: "TaskState \<Rightarrow> TaskState \<times> ts_out list" where
  "onTaskException s =
     (let s' = s\<lparr>ts_finished := True, ts_seqList := {}\<rparr>
      in if \<not> ts_callback s then (s', [])
         else (s', map Did ((if ts_finalizeHandler s then [Finalize] else []) @
                            (if ts_notifyPeerFinishHandler s then [NotifyPeerFinish] else [])) @
                   [Answer \<lparr>tr_taskID = tk_id (ts_task s), tr_error = Some (-1), tr_status = NoStatus\<rparr>]))"

definition eraseFinishedTaskSeq ::
  "(ts_act \<Rightarrow> bool) \<Rightarrow> u32 \<Rightarrow> bool \<Rightarrow> TaskState \<Rightarrow> TaskState \<times> ts_out list" where
  "eraseFinishedTaskSeq throws seq success s =
     (if seq \<notin> ts_seqList s then (s, [])
      else
        let s1 = s\<lparr>ts_seqList := ts_seqList s - {seq}\<rparr>;
            s2 = (if success then s1\<lparr>ts_successCount := ts_successCount s1 + 1\<rparr>
                  else s1\<lparr>ts_failedCount := ts_failedCount s1 + 1\<rparr>)
        in if ts_onSubTaskFinished s2
           then if throws SubTaskFinished
                then let (s3, outs) = onTaskException s2 in (s3, Did SubTaskFinished # outs)
                else (s2, [Did SubTaskFinished])
           else (s2, []))"

text \<open>\<open>onTaskFinished()\<close>, the regular end, and \<open>onTaskFinished(result, noticePeer)\<close>.\<close>

definition onTaskFinished :: "(ts_act \<Rightarrow> bool) \<Rightarrow> TaskState \<Rightarrow> TaskState \<times> ts_out list" where
  "onTaskFinished throws s =
     (if ts_taskDone s then (s, [])
      else
        let s1 = s\<lparr>ts_taskDone := True\<rparr>;
            up = (ts_writer s \<noteq> None \<and> \<not> ts_uploaded s);
            failed = ts_failedCount s > 0;
            acts = (if up then [Upload] else []) @ (if ts_finalizeHandler s then [Finalize] else []) @
                   (if failed then ts_removeGeneratedOutputFile s else []) @ (if ts_reader s then [CleanReader] else []);
            (did, threw) = attempt throws acts;
            s2 = (if up \<and> \<not> throws Upload then s1\<lparr>ts_uploaded := True\<rparr> else s1);
            result = \<lparr>tr_taskID = tk_id (ts_task s), tr_error = (if threw \<or> failed then Some (-1) else None),
                      tr_status = (if threw \<or> failed then FAILED else COMPLETED)\<rparr>
        in (s2, map Did did @ (if ts_callback s then [Answer result] else [])))"

definition is_error :: "int option \<Rightarrow> bool" where
  "is_error e = (case e of Some c \<Rightarrow> c \<noteq> 0 | None \<Rightarrow> False)"

definition onTaskFinished_result ::
  "(ts_act \<Rightarrow> bool) \<Rightarrow> TaskResult option \<Rightarrow> bool \<Rightarrow> TaskState \<Rightarrow> TaskState \<times> ts_out list" where
  "onTaskFinished_result throws result noticePeer s =
     (if ts_taskDone s then (s, [])
      else
        let s1 = s\<lparr>ts_taskDone := True\<rparr>;
            r = (case result of Some r \<Rightarrow> r | None \<Rightarrow> \<lparr>tr_taskID = tk_id (ts_task s), tr_error = None, tr_status = NoStatus\<rparr>);
            bad = is_error (tr_error r);
            (did1, threw1) = attempt throws
              ((if bad then ts_removeGeneratedOutputFile s else []) @
               (if noticePeer \<and> \<not> ts_onlySelfRun s \<and> bad \<and> ts_notifyPeerFinishHandler s then [NotifyPeerFinish] else []) @
               (if ts_finalizeHandler s then [Finalize] else []));
            s2 = (if threw1 then s1 else s1\<lparr>ts_finished := True\<rparr>);
            (did2, threw2) = (if threw1 then ([], True) else attempt throws (if ts_reader s then [CleanReader] else []));
            threw = (threw1 \<or> threw2);
            r' = r\<lparr>tr_error := (if threw then Some (-1) else tr_error r),
                   tr_status := (if threw \<or> bad then FAILED else COMPLETED)\<rparr>
        in (s2, map Did (did1 @ did2) @ (if ts_callback s then [Answer r'] else [])))"

definition PSIRetCode_PeerNotifyFinish :: int where
  "PSIRetCode_PeerNotifyFinish = - 1004"

definition onPeerNotifyFinish :: "(ts_act \<Rightarrow> bool) \<Rightarrow> TaskState \<Rightarrow> TaskState \<times> ts_out list" where
  "onPeerNotifyFinish throws s =
     (let (s', outs) = onTaskFinished_result throws
            (Some \<lparr>tr_taskID = tk_id (ts_task s), tr_error = Some PSIRetCode_PeerNotifyFinish, tr_status = NoStatus\<rparr>) False s
      in (s', outs @ map Did (ts_removeGeneratedOutputFile s')))"

definition tryToGenerateDefaultOutputDesc :: "TaskState \<Rightarrow> TaskState" where
  "tryToGenerateDefaultOutputDesc s =
     (let t = ts_task s; p = tk_selfParty t;
          r = (case pa_dataResource p of
                 Some r \<Rightarrow> r
               | None \<Rightarrow> \<lparr>dr_resourceID = [], dr_desc = None, dr_outputDesc = None, dr_rawData = []\<rparr>);
          r' = (case dr_outputDesc r of
                  Some _ \<Rightarrow> r
                | None \<Rightarrow> r\<lparr>dr_outputDesc := Some (''result/'' @ tk_id t @ ''.result'')\<rparr>)
      in s\<lparr>ts_task := t\<lparr>tk_selfParty := p\<lparr>pa_dataResource := Some r'\<rparr>\<rparr>\<rparr>)"

text \<open>\<open>storePSIResult\<close>; the last component says whether it threw.\<close>

definition ts_storePSIResult :: "(ts_act \<Rightarrow> bool) \<Rightarrow> bytes list \<Rightarrow> TaskState \<Rightarrow> TaskState \<times> ts_act list \<times> bool" where
  "ts_storePSIResult throws data s =
     (let s1 = tryToGenerateDefaultOutputDesc s;
          out = (case pa_dataResource (tk_selfParty (ts_task s1)) of
                   Some r \<Rightarrow> (case dr_outputDesc r of Some d \<Rightarrow> d | None \<Rightarrow> []) | None \<Rightarrow> []);
          load = (case ts_writer s1 of None \<Rightarrow> [LoadWriter out] | Some _ \<Rightarrow> []);
          (did, threw) = attempt throws (load @ [WriteLine data, FlushWriter]);
          old = (case ts_writer s1 of None \<Rightarrow> [] | Some ls \<Rightarrow> ls);
          s2 = (if load \<noteq> [] \<and> throws (LoadWriter out) then s1
                else if throws (WriteLine data) then s1\<lparr>ts_writer := Some old\<rparr>
                else s1\<lparr>ts_writer := Some (old @ data)\<rparr>)
      in (s2, did, threw))"

definition writeLines :: "(ts_act \<Rightarrow> bool) \<Rightarrow> bytes list \<Rightarrow> TaskState \<Rightarrow> TaskState \<times> ts_act list \<times> bool" where
  "writeLines throws data s =
     (case ts_writer s of
        None \<Rightarrow> (s, [], False)
      | Some ls \<Rightarrow>
          let (did, threw) = attempt throws [WriteLine data, FlushWriter, CloseWriter, Upload];
              s1 = (if throws (WriteLine data) then s else s\<lparr>ts_writer := Some (ls @ data)\<rparr>)
          in (if threw then s1 else s1\<lparr>ts_uploaded := True\<rparr>, did, threw))"

text \<open>
  \<open>loadAllData\<close>: the first row of the raw data, or what the reader returns (an argument), or nothing.
\<close>

definition loadAllData :: "(int \<Rightarrow> bytes list option) \<Rightarrow> TaskState \<Rightarrow> bytes list" where
  "loadAllData next s =
     (let raw = (case pa_dataResource (tk_selfParty (ts_task s)) of Some r \<Rightarrow> dr_rawData r | None \<Rightarrow> [])
      in case (if raw \<noteq> [] then Some (hd raw)
               else if ts_reader s then next (if ts_sqlReader s then 0 else -1) else None) of
           Some ls \<Rightarrow> ls | None \<Rightarrow> [])"

section \<open>The admission check\<close>

definition PSIRetCode_TaskParamsError :: int where "PSIRetCode_TaskParamsError = - 1000"
definition PSIRetCode_DuplicatedTask :: int where "PSIRetCode_DuplicatedTask = - 1002"
definition PSIRetCode_NotSpecifyPeerDataResource :: int where "PSIRetCode_NotSpecifyPeerDataResource = - 1019"

fun check_peer_indexes :: "u16 \<Rightarrow> u16 set \<Rightarrow> PartyResource list \<Rightarrow> int option" where
  "check_peer_indexes n seen [] = None"
| "check_peer_indexes n seen (p # ps) =
     (let index = pa_partyIndex p in
      if n > 1 \<and> index \<ge> n then Some PSIRetCode_TaskParamsError
      else if index \<in> seen then Some PSIRetCode_TaskParamsError
      else check_peer_indexes n (insert index seen) ps)"

text \<open>
  The self party can be a null pointer here, hence an argument of its own; everywhere else it is used
  without a check.
\<close>

definition checkTask ::
  "bytes set \<Rightarrow> PartyResource option \<Rightarrow> Task \<Rightarrow> u16 \<Rightarrow> bool \<Rightarrow> bool \<Rightarrow> bool \<Rightarrow> bool \<Rightarrow> int option" where
  "checkTask pending selfParty task n enforceSelfInput enforceSelfOutput enforcePeerResource enforceSelfResource =
     (if tk_id task \<in> pending then Some PSIRetCode_DuplicatedTask
      else case selfParty of None \<Rightarrow> Some PSIRetCode_TaskParamsError
      | Some self \<Rightarrow>
        let client = (pa_partyIndex self = PartyType_Client);
            selfInput = (enforceSelfInput \<or> client); selfOutput = (enforceSelfOutput \<or> client);
            badResource = (enforceSelfResource \<and>
              (case pa_dataResource self of None \<Rightarrow> True
               | Some r \<Rightarrow> (selfInput \<and> dr_rawData r = [] \<and> dr_desc r = None) \<or>
                           (selfOutput \<and> dr_rawData r = [] \<and> dr_outputDesc r = None)));
            peers = map snd (tk_peerParties task)
        in if badResource then Some PSIRetCode_TaskParamsError
           else if n > 1 \<and> pa_partyIndex self \<ge> n then Some PSIRetCode_TaskParamsError
           else if int (length peers) \<noteq> (int (unat n) - 1) mod 2 ^ 32 then Some PSIRetCode_TaskParamsError
           else case check_peer_indexes n {pa_partyIndex self} peers of
                  Some e \<Rightarrow> Some e
                | None \<Rightarrow>
                    if enforcePeerResource \<and> (\<exists>p \<in> set peers. pa_dataResource p = None)
                    then Some PSIRetCode_NotSpecifyPeerDataResource else None)"

datatype guard_out = ErrorNotification bytes bytes | PingPeer bytes bytes

definition noticePeerToFinish :: "Task \<Rightarrow> guard_out list" where
  "noticePeerToFinish task =
     map (ErrorNotification (tk_id task)) (filter (\<lambda>p. p \<noteq> []) (map fst (tk_peerParties task)))"

definition checkPeerActivity :: "TaskState list \<Rightarrow> guard_out list" where
  "checkPeerActivity pending =
     concat (map (\<lambda>s. if ts_onlySelfRun s then []
                      else map (PingPeer (tk_id (ts_task s))) (map fst (tk_peerParties (ts_task s)))) pending)"

lemma check_peer_indexes_None:
  "check_peer_indexes n seen ps = None \<longleftrightarrow>
     distinct (map pa_partyIndex ps) \<and> set (map pa_partyIndex ps) \<inter> seen = {} \<and>
     (n > 1 \<longrightarrow> (\<forall>p \<in> set ps. pa_partyIndex p < n))"
  by (induction n seen ps rule: check_peer_indexes.induct) (auto simp: Let_def not_le)

lemma full_index_set:
  assumes "distinct (xs :: u16 list)" and "length xs = unat n" and "\<forall>x \<in> set xs. x < n"
  shows "unat ` set xs = {..<unat n}"
proof (rule card_subset_eq)
  show "unat ` set xs \<subseteq> {..<unat n}" using assms(3) by (auto simp: word_less_nat_alt)
  have "inj_on unat (set xs)" by (auto simp: inj_on_def word_unat_eq_iff)
  then show "card (unat ` set xs) = card {..<unat n}"
    using assms(1,2) by (simp add: card_image distinct_card)
qed simp

text \<open>
  (C38) What an accepted task of two or more parties guarantees: its id is new, the party indexes of
  the \<open>n\<close> parties are exactly 0 to \<open>n - 1\<close>, each used once, every peer brings a resource where that is
  enforced, and where it is enforced of the own party, that party brings one: with an input (raw data or a
  description) if the input is enforced or the party is the client, and with an output (raw data or an
  output description) if the output is enforced or the party is the client.
\<close>

theorem checkTask_accepts:
  assumes "checkTask pending (Some self) task n eIn eOut ePeer eSelf = None" and "n > 1"
  shows "tk_id task \<notin> pending \<and>
    unat ` set (pa_partyIndex self # map (pa_partyIndex \<circ> snd) (tk_peerParties task)) = {..<unat n} \<and>
    distinct (pa_partyIndex self # map (pa_partyIndex \<circ> snd) (tk_peerParties task)) \<and>
    (ePeer \<longrightarrow> (\<forall>p \<in> set (map snd (tk_peerParties task)). pa_dataResource p \<noteq> None)) \<and>
    (eSelf \<longrightarrow> (\<exists>r. pa_dataResource self = Some r \<and>
       (eIn \<or> pa_partyIndex self = PartyType_Client \<longrightarrow> dr_rawData r \<noteq> [] \<or> dr_desc r \<noteq> None) \<and>
       (eOut \<or> pa_partyIndex self = PartyType_Client \<longrightarrow> dr_rawData r \<noteq> [] \<or> dr_outputDesc r \<noteq> None)))"
proof -
  let ?ps = "map snd (tk_peerParties task)"
  let ?xs = "pa_partyIndex self # map (pa_partyIndex \<circ> snd) (tk_peerParties task)"
  have "unat n < 2 ^ 16" using unsigned_less [of n, where 'a = nat] by simp
  moreover have "unat n > 1" using assms(2) by (simp add: word_less_nat_alt)
  moreover have "1 < k \<Longrightarrow> k < 2 ^ 16 \<Longrightarrow> (int k - 1) mod 2 ^ 32 = int k - 1" for k :: nat by simp
  ultimately have m: "(int (unat n) - 1) mod 2 ^ 32 = int (unat n) - 1" by blast
  have c: "check_peer_indexes n {pa_partyIndex self} ?ps = None" and l: "int (length ?ps) = int (unat n) - 1"
    and i: "pa_partyIndex self < n"
    using assms(1)[unfolded checkTask_def Let_def m] assms(2)
    by (auto simp del: of_nat_unat split: if_splits option.splits)
  have d: "distinct ?xs" and b: "\<forall>x \<in> set ?xs. x < n"
    using c assms(2) i by (auto simp: check_peer_indexes_None comp_def)
  have "length ?xs = unat n" using l by (simp del: of_nat_unat)
  from full_index_set [OF d this b] d assms(1) show ?thesis
    by (auto simp: checkTask_def Let_def split: if_splits option.splits)
qed

definition sample_party :: "bytes \<Rightarrow> u16 \<Rightarrow> PartyResource" where
  "sample_party i k = \<lparr>pa_id = i, pa_partyIndex = k, pa_dataResource =
     Some \<lparr>dr_resourceID = i, dr_desc = Some ''in'', dr_outputDesc = Some ''out'', dr_rawData = []\<rparr>\<rparr>"

definition sample_task :: Task where
  "sample_task = \<lparr>tk_id = ''t'', tk_selfParty = sample_party ''a'' 0, tk_peerParties = [(''b'', sample_party ''b'' 1)],
     tk_syncResultToPeer = False, tk_enableOutputExists = False, tk_receivers = []\<rparr>"

theorem checkTask_accepts_witness:
  "checkTask {} (Some (sample_party ''a'' 0)) sample_task 2 True True True True = None \<and>
   unat ` {0 :: u16, 1} = {..<2}"
proof -
  have c: "checkTask {} (Some (sample_party ''a'' 0)) sample_task 2 True True True True = None"
    by (simp add: checkTask_def sample_task_def sample_party_def Let_def word_le_nat_alt)
  from checkTask_accepts [OF this] have "unat ` {0 :: u16, 1} = {..<2}"
    by (simp add: sample_task_def sample_party_def)
  with c show ?thesis by blast
qed

section \<open>Sub-tasks\<close>

datatype seq_event = Allocate | EraseSeq u32 bool

fun seq_step :: "seq_event \<Rightarrow> TaskState \<Rightarrow> TaskState \<times> ts_out list" where
  "seq_step Allocate s = (snd (allocateSeq s), [])"
| "seq_step (EraseSeq seq ok) s = eraseFinishedTaskSeq (\<lambda>_. False) seq ok s"

definition seq_inv :: "nat \<Rightarrow> TaskState \<Rightarrow> bool" where
  "seq_inv n s \<longleftrightarrow> unat (ts_currentSeq s) = n \<and> finite (ts_seqList s) \<and>
     (\<forall>q \<in> ts_seqList s. unat q \<le> n) \<and>
     unat (ts_successCount s) + unat (ts_failedCount s) + card (ts_seqList s) = n"

lemma unat_Suc:
  assumes "unat (x :: 'a::len word) + 1 < 2 ^ LENGTH('a)"
  shows "unat (x + 1) = unat x + 1"
  using assms by (simp add: unat_word_ariths)

lemma finite_card_insert_fresh: "finite A \<Longrightarrow> q \<notin> A \<Longrightarrow> card (insert q A) = card A + 1"
  by simp

lemma seq_step_inv:
  assumes "seq_inv n s" and "n + 1 < 2 ^ 32"
  shows "seq_inv (if e = Allocate then n + 1 else n) (fst (seq_step e s))"
proof (cases e)
  case Allocate
  let ?q = "ts_currentSeq s + 1"
  have n: "unat (ts_currentSeq s) = n" and le: "\<forall>q \<in> ts_seqList s. unat q \<le> n" using assms(1) by (simp_all add: seq_inv_def)
  then have q: "unat ?q = n + 1" using assms(2) unat_Suc [of "ts_currentSeq s"] by simp
  then have "?q \<notin> ts_seqList s" using le by auto
  with assms(1) q Allocate show ?thesis by (auto simp: seq_inv_def allocateSeq_def Let_def)
next
  case (EraseSeq q ok)
  show ?thesis
  proof (cases "q \<in> ts_seqList s")
    case False
    with assms(1) EraseSeq show ?thesis by (simp add: eraseFinishedTaskSeq_def)
  next
    case True
    with assms(1) obtain k where k: "card (ts_seqList s - {q}) = k" "card (ts_seqList s) = Suc k"
      using card_Suc_Diff1 [of "ts_seqList s" q] unfolding seq_inv_def by metis
    have "unat (ts_successCount s) + 1 < 2 ^ 64" "unat (ts_failedCount s) + 1 < 2 ^ 64"
      using assms k(2) by (simp_all add: seq_inv_def)
    then have "unat (ts_successCount s + 1) = unat (ts_successCount s) + 1"
      "unat (ts_failedCount s + 1) = unat (ts_failedCount s) + 1"
      by (simp_all add: unat_Suc)
    with assms(1) True k EraseSeq show ?thesis by (auto simp: seq_inv_def eraseFinishedTaskSeq_def Let_def)
  qed
qed

lemma seq_run_inv:
  assumes "seq_inv n s" and "n + length es < 2 ^ 32"
  shows "seq_inv (n + length (filter ((=) Allocate) es)) (fst (run_steps seq_step es s))"
  using assms
proof (induction es arbitrary: n s)
  case (Cons e es)
  have "seq_inv (if e = Allocate then n + 1 else n) (fst (seq_step e s))"
    using Cons.prems by (intro seq_step_inv) simp_all
  from Cons.IH [OF this] Cons.prems(2) show ?case
    by (cases e) (simp_all add: run_steps_Cons del: run_steps.simps)
qed simp

text \<open>
  Sub-task accounting. From a new task state, after any sequence of fewer than 2^32 allocations
  and completions, also repeated and invented ones, the open sub-tasks, the successes and the failures
  add up to the sub-tasks allocated, and the next sequence number is not among the open ones.
\<close>

theorem subtask_accounting:
  fixes es :: "seq_event list" and task :: Task and onlySelf config :: bool
  assumes "length es + 1 < 2 ^ 32"
  defines "s \<equiv> fst (run_steps seq_step es (new_TaskState task onlySelf config))"
  shows "unat (ts_successCount s) + unat (ts_failedCount s) + card (ts_seqList s) = length (filter ((=) Allocate) es) \<and>
    fst (allocateSeq s) \<notin> ts_seqList s"
proof -
  have "seq_inv 0 (new_TaskState task onlySelf config)" by (simp add: seq_inv_def new_TaskState_def)
  from seq_run_inv [OF this, of es] assms(1)
  have i: "seq_inv (length (filter ((=) Allocate) es)) s" by (simp add: s_def)
  moreover have "length (filter ((=) Allocate) es) < 2 ^ 32 - 1"
    using assms(1) length_filter_le [of "(=) Allocate" es] by linarith
  ultimately have "unat (ts_currentSeq s + 1) = length (filter ((=) Allocate) es) + 1"
    using unat_Suc [of "ts_currentSeq s"] by (simp add: seq_inv_def)
  with i show ?thesis by (auto simp: seq_inv_def allocateSeq_def Let_def)
qed

theorem subtask_accounting_witness:
  "card (ts_seqList (fst (run_steps seq_step [Allocate, Allocate, EraseSeq 1 True, EraseSeq 1 False, EraseSeq 9 True]
     (new_TaskState sample_task False True)))) = 1"
  using subtask_accounting [of "[Allocate, Allocate, EraseSeq 1 True, EraseSeq 1 False, EraseSeq 9 True]" sample_task False True]
  by (simp add: new_TaskState_def allocateSeq_def eraseFinishedTaskSeq_def)

section \<open>Answers\<close>

fun answers :: "ts_out list \<Rightarrow> TaskResult list" where
  "answers [] = []"
| "answers (Answer r # outs) = r # answers outs"
| "answers (Did a # outs) = answers outs"

lemma answers_append [simp]: "answers (xs @ ys) = answers xs @ answers ys"
  by (induction xs rule: answers.induct) simp_all

lemma answers_Did [simp]: "answers (map Did as) = []"
  by (induction as) simp_all

section \<open>What a protocol does with the state of its task\<close>

text \<open>
  The setters of TaskState.h. A handler, a reader or a worker given to a setter may be empty; the kind
  of reader is looked at when there is one.
\<close>

definition setFinished :: "bool \<Rightarrow> TaskState \<Rightarrow> TaskState" where
  "setFinished f s = s\<lparr>ts_finished := f\<rparr>"

definition setReader :: "bool \<Rightarrow> bool \<Rightarrow> TaskState \<Rightarrow> TaskState" where
  "setReader reader mysql s = (let s1 = s\<lparr>ts_reader := reader\<rparr> in if reader then s1\<lparr>ts_sqlReader := mysql\<rparr> else s1)"

definition setWriter :: "bytes list option \<Rightarrow> TaskState \<Rightarrow> TaskState" where
  "setWriter lines s = s\<lparr>ts_writer := lines\<rparr>"

definition setWorker :: "bool \<Rightarrow> TaskState \<Rightarrow> TaskState" where
  "setWorker worker s = s\<lparr>ts_worker := worker\<rparr>"

definition registerFinalizeHandler :: "bool \<Rightarrow> TaskState \<Rightarrow> TaskState" where
  "registerFinalizeHandler h s = s\<lparr>ts_finalizeHandler := h\<rparr>"

definition registerSubTaskFinishedHandler :: "bool \<Rightarrow> TaskState \<Rightarrow> TaskState" where
  "registerSubTaskFinishedHandler h s = s\<lparr>ts_onSubTaskFinished := h\<rparr>"

definition registerNotifyPeerFinishHandler :: "bool \<Rightarrow> TaskState \<Rightarrow> TaskState" where
  "registerNotifyPeerFinishHandler h s = s\<lparr>ts_notifyPeerFinishHandler := h\<rparr>"

text \<open>
  The operations of a running task, one after the other in any order. A \<open>storePSIResult\<close> or
  \<open>writeLines\<close> that throws leaves what it had done; its caller's \<open>onTaskException\<close> is the next operation.
\<close>

datatype task_op =
    SetFinished bool
  | AllocateSeq
  | EraseFinishedSeq u32 bool
  | TaskException
  | SetReader bool bool
  | SetWriter "bytes list option"
  | SetWorker bool
  | RegisterFinalize bool
  | RegisterSubTaskFinished bool
  | RegisterNotifyPeerFinish bool
  | StoreResult "bytes list"
  | WriteLines "bytes list"

fun run_op :: "(ts_act \<Rightarrow> bool) \<Rightarrow> task_op \<Rightarrow> TaskState \<Rightarrow> TaskState \<times> ts_out list" where
  "run_op throws (SetFinished f) s = (setFinished f s, [])"
| "run_op throws AllocateSeq s = (snd (allocateSeq s), [])"
| "run_op throws (EraseFinishedSeq seq ok) s = eraseFinishedTaskSeq throws seq ok s"
| "run_op throws TaskException s = onTaskException s"
| "run_op throws (SetReader r mysql) s = (setReader r mysql s, [])"
| "run_op throws (SetWriter lines) s = (setWriter lines s, [])"
| "run_op throws (SetWorker b) s = (setWorker b s, [])"
| "run_op throws (RegisterFinalize b) s = (registerFinalizeHandler b s, [])"
| "run_op throws (RegisterSubTaskFinished b) s = (registerSubTaskFinishedHandler b s, [])"
| "run_op throws (RegisterNotifyPeerFinish b) s = (registerNotifyPeerFinishHandler b s, [])"
| "run_op throws (StoreResult data) s = (let (s', did, threw) = ts_storePSIResult throws data s in (s', map Did did))"
| "run_op throws (WriteLines data) s = (let (s', did, threw) = writeLines throws data s in (s', map Did did))"

text \<open>The operations that raise an exception of the task: \<open>onTaskException\<close> itself and a throwing sub-task handler.\<close>

fun raises :: "(ts_act \<Rightarrow> bool) \<Rightarrow> task_op \<Rightarrow> bool" where
  "raises throws TaskException = True"
| "raises throws (EraseFinishedSeq seq ok) = throws SubTaskFinished"
| "raises throws _ = False"

fun raised :: "task_op \<Rightarrow> TaskState \<Rightarrow> bool" where
  "raised (EraseFinishedSeq seq ok) s = (seq \<in> ts_seqList s \<and> ts_onSubTaskFinished s)"
| "raised _ s = True"

definition answers_exception :: "(ts_act \<Rightarrow> bool) \<Rightarrow> task_op \<Rightarrow> TaskState \<Rightarrow> bool" where
  "answers_exception throws x s \<longleftrightarrow> raises throws x \<and> raised x s \<and> ts_callback s"

lemma onTaskException_keeps:
  "ts_task (fst (onTaskException s)) = ts_task s" "ts_callback (fst (onTaskException s)) = ts_callback s"
  "ts_taskDone (fst (onTaskException s)) = ts_taskDone s"
  "length (answers (snd (onTaskException s))) = (if ts_callback s then 1 else 0)"
  by (simp_all add: onTaskException_def Let_def)

lemmas setter_defs = setFinished_def setReader_def setWriter_def setWorker_def registerFinalizeHandler_def
  registerSubTaskFinishedHandler_def registerNotifyPeerFinishHandler_def allocateSeq_def Let_def

lemma run_op_keeps:
  "tk_id (ts_task (fst (run_op throws x s))) = tk_id (ts_task s) \<and>
   ts_callback (fst (run_op throws x s)) = ts_callback s \<and> ts_taskDone (fst (run_op throws x s)) = ts_taskDone s"
proof (cases x)
  case (EraseFinishedSeq seq ok)
  then show ?thesis by (simp add: eraseFinishedTaskSeq_def onTaskException_keeps split_beta Let_def)
next
  case (StoreResult data)
  then show ?thesis by (simp add: ts_storePSIResult_def tryToGenerateDefaultOutputDesc_def split_beta Let_def)
next
  case (WriteLines data)
  then show ?thesis by (simp add: writeLines_def split_beta Let_def split: option.splits)
qed (simp_all add: setter_defs onTaskException_keeps)

lemma run_op_answers:
  "length (answers (snd (run_op throws x s))) = (if answers_exception throws x s then 1 else 0)"
proof (cases x)
  case (EraseFinishedSeq seq ok)
  then show ?thesis
    by (simp add: eraseFinishedTaskSeq_def answers_exception_def onTaskException_def split_beta Let_def)
qed (simp_all add: answers_exception_def onTaskException_keeps split_beta)

section \<open>The ends of a task\<close>

datatype finish_event =
    Finish "ts_act \<Rightarrow> bool"
  | FinishResult "ts_act \<Rightarrow> bool" "TaskResult option" bool
  | PeerFinish "ts_act \<Rightarrow> bool"
  | SubTask seq_event

fun finish_step :: "finish_event \<Rightarrow> TaskState \<Rightarrow> TaskState \<times> ts_out list" where
  "finish_step (Finish th) s = onTaskFinished th s"
| "finish_step (FinishResult th r notice) s = onTaskFinished_result th r notice s"
| "finish_step (PeerFinish th) s = onPeerNotifyFinish th s"
| "finish_step (SubTask e) s = seq_step e s"

definition may_answer :: "TaskState \<Rightarrow> nat" where
  "may_answer s = (if ts_taskDone s then 0 else 1)"

lemma finish_step_answers:
  "may_answer (fst (finish_step e s)) + length (answers (snd (finish_step e s))) \<le> may_answer s"
proof (cases e)
  case (SubTask e')
  then show ?thesis
    by (cases e') (auto simp: may_answer_def allocateSeq_def eraseFinishedTaskSeq_def Let_def)
qed (auto simp: may_answer_def onTaskFinished_def onTaskFinished_result_def onPeerNotifyFinish_def split_beta Let_def)

text \<open>
  The submitter of a task is answered at most once by the regular ends: whatever the order and
  number of completions, results, notifications of the peer and sub-task events, and whatever storage
  operation throws, at most one answer is given.
\<close>

theorem finish_answers_once:
  "length (answers (snd (run_steps finish_step es (new_TaskState task onlySelf config)))) \<le> 1"
proof -
  have "may_answer (fst (run_steps finish_step es s)) + length (answers (snd (run_steps finish_step es s))) \<le> may_answer s" for s
  proof (induction es arbitrary: s)
    case (Cons e es)
    from Cons.IH [of "fst (finish_step e s)"] finish_step_answers [of e s] show ?case
      by (simp add: run_steps_Cons del: run_steps.simps finish_step.simps)
  qed simp
  from this [of "new_TaskState task onlySelf config"] show ?thesis by (simp add: may_answer_def new_TaskState_def)
qed

text \<open>
  An exception in a sub-task answers the submitter with an error, but leaves the task finished and
  not done: the framework's next round ends it regularly and answers a second time. When no sub-task
  had failed before and storage does not throw, that second answer is \<open>COMPLETED\<close>, without error.
\<close>

theorem exception_then_completed:
  assumes "ts_callback s" and "\<not> ts_taskDone s" and "ts_failedCount s = 0"
  defines "s' \<equiv> fst (onTaskException s)"
  shows "finished s' \<and>
    answers (snd (onTaskException s) @ snd (onTaskFinished (\<lambda>_. False) s')) =
      [\<lparr>tr_taskID = tk_id (ts_task s), tr_error = Some (-1), tr_status = NoStatus\<rparr>,
       \<lparr>tr_taskID = tk_id (ts_task s), tr_error = None, tr_status = COMPLETED\<rparr>]"
proof -
  have "snd (attempt (\<lambda>_. False) as) = False" for as :: "ts_act list"
    by (induction as) (simp_all add: split_beta)
  then show ?thesis using assms
    by (simp add: onTaskException_def onTaskFinished_def finished_def split_beta Let_def)
qed

theorem exception_then_completed_witness:
  defines "s \<equiv> new_TaskState sample_task False True"
  shows "answers (snd (onTaskException s) @ snd (onTaskFinished (\<lambda>_. False) (fst (onTaskException s)))) =
    [\<lparr>tr_taskID = ''t'', tr_error = Some (-1), tr_status = NoStatus\<rparr>,
     \<lparr>tr_taskID = ''t'', tr_error = None, tr_status = COMPLETED\<rparr>]"
proof -
  have "ts_callback s" "\<not> ts_taskDone s" "ts_failedCount s = 0" by (simp_all add: s_def new_TaskState_def)
  from exception_then_completed [OF this] show ?thesis by (simp add: s_def new_TaskState_def sample_task_def)
qed

text \<open>
  A failed task deletes its input. When a sub-task failed and a result was already being written,
  the regular end deletes the resource described as the task's input, not the output file.
\<close>

theorem failed_task_deletes_input:
  assumes "pa_dataResource (tk_selfParty (ts_task s)) = Some r" and "dr_desc r = Some inp"
    and "ts_writer s \<noteq> None" and "ts_config s" and "ts_failedCount s > 0" and "\<not> ts_taskDone s"
  shows "Did (DeleteResource inp) \<in> set (snd (onTaskFinished (\<lambda>_. False) s)) \<and>
    (\<forall>d. Did (DeleteResource d) \<in> set (snd (onTaskFinished (\<lambda>_. False) s)) \<longrightarrow> d = inp)"
proof -
  have "fst (attempt (\<lambda>_. False) as) = as" for as :: "ts_act list"
    by (induction as) (simp_all add: split_beta)
  then show ?thesis using assms
    by (auto simp: onTaskFinished_def ts_removeGeneratedOutputFile_def split_beta Let_def)
qed

theorem failed_task_deletes_input_witness:
  defines "s \<equiv> (new_TaskState sample_task False True)\<lparr>ts_writer := Some [], ts_failedCount := 1\<rparr>"
  shows "Did (DeleteResource ''in'') \<in> set (snd (onTaskFinished (\<lambda>_. False) s))"
proof -
  have "pa_dataResource (tk_selfParty (ts_task s)) =
      Some \<lparr>dr_resourceID = ''a'', dr_desc = Some ''in'', dr_outputDesc = Some ''out'', dr_rawData = []\<rparr>"
    by (simp add: s_def new_TaskState_def sample_task_def sample_party_def)
  from failed_task_deletes_input [OF this, of "''in''"] show ?thesis
    by (simp add: s_def new_TaskState_def)
qed

end
