(* ===== verification/PSIFramework.thy ===== *)
theory PSIFramework
  imports PSITask PPCMessage
begin

text \<open>
  The two-party PSI framework (wedpr-computing/ppc-psi/src/psi-framework/PSIFramework.cpp and .h,
  PSIConfig.h): the table of pending tasks, the locked data resources, the tasks the peers announce,
  the worker loop and the messages every PSI protocol shares.

  Task states are shared objects, so they live in a heap \<open>psi_heap\<close> and the pending table holds their
  addresses. \<open>m_pendingTasks\<close> is a \<open>std::unordered_map\<close> that is iterated: it is an association list, and
  nothing below depends on its order. The messages are one record for the class and its subclasses; the
  three that are never serialised (task, sender, sequence number) are set on arrival as in the code. A
  message sent is an output, the callback for a failed send an operation of its own. Time is an argument
  (\<open>taskPendingTime\<close> of each task state).

  Shown: the table stays consistent, a task that leaves it is answered exactly once, apart from the answers
  its exceptions give, a finished task leaves it in the next round of the worker, the periodic
  exchange of task lists cancels exactly the expired tasks no node of the peer knows, how a refused
  task releases a lock that is not its own.
\<close>

record PSIMessage =
  pm_packetType :: u32
  pm_taskID :: bytes
  pm_from :: bytes
  pm_fromNode :: bytes
  pm_uuid :: bytes
  pm_seq :: u32
  pm_partyID :: bytes
  pm_resourceID :: bytes
  pm_version :: int
  pm_data :: "bytes list"
  pm_dataIndex :: "int list"
  pm_dataBatchCount :: u32
  pm_errorCode :: int
  pm_taskList :: "bytes list"
  pm_curves :: "int list"
  pm_hashList :: "int list"
  pm_curve :: int
  pm_hashType :: int

definition createPSIMessage :: "u32 \<Rightarrow> PSIMessage" where
  "createPSIMessage packetType =
     \<lparr>pm_packetType = packetType, pm_taskID = [], pm_from = [], pm_fromNode = [], pm_uuid = [], pm_seq = 0,
      pm_partyID = [], pm_resourceID = [], pm_version = 0, pm_data = [], pm_dataIndex = [], pm_dataBatchCount = 0, pm_errorCode = 0,
      pm_taskList = [], pm_curves = [], pm_hashList = [], pm_curve = -1, pm_hashType = -1\<rparr>"

definition CancelTaskNotification :: u32 where "CancelTaskNotification = 1"
definition TaskSyncMsg :: u32 where "TaskSyncMsg = 2"
definition HandshakeRequest :: u32 where "HandshakeRequest = 3"
definition HandshakeResponse :: u32 where "HandshakeResponse = 4"
definition PSIResultSyncMsg :: u32 where "PSIResultSyncMsg = 5"
definition PSIResultSyncResponse :: u32 where "PSIResultSyncResponse = 6"
definition HandshakeSuccess :: u32 where "HandshakeSuccess = 7"

lemmas packet_types = CancelTaskNotification_def TaskSyncMsg_def HandshakeRequest_def HandshakeResponse_def
  PSIResultSyncMsg_def PSIResultSyncResponse_def HandshakeSuccess_def

definition PSIRetCode_DataResourceOccupied :: int where "PSIRetCode_DataResourceOccupied = - 1006"
definition PSIRetCode_TaskNotFound :: int where "PSIRetCode_TaskNotFound = - 1010"
definition PSIRetCode_TaskInProcessing :: int where "PSIRetCode_TaskInProcessing = - 1011"
definition PSIRetCode_OnlySupportOnePeer :: int where "PSIRetCode_OnlySupportOnePeer = - 1012"
definition PSIRetCode_NotSpecifyInputDataResource :: int where "PSIRetCode_NotSpecifyInputDataResource = - 1014"
definition PSIRetCode_NotSpecifyOutputDataResource :: int where "PSIRetCode_NotSpecifyOutputDataResource = - 1015"
definition PSIRetCode_SyncPSIResultFailed :: int where "PSIRetCode_SyncPSIResultFailed = - 1021"

type_synonym taddr = nat

record psi =
  psi_selfParty :: bytes
  psi_selfEndPoint :: bytes
  psi_agencies :: "bytes list"
  psi_taskExpireTime :: u64
  psi_started :: bool
  psi_heap :: "taddr \<Rightarrow> TaskState"
  psi_next :: taddr
  psi_pendingTasks :: "(bytes \<times> taddr) list"
  psi_processingDataResource :: "bytes set"
  psi_peerTasks :: "(bytes, (bytes, bytes set) smap) smap"
  psi_msgQueue :: "PSIMessage list"

datatype psi_out =
    SendPSI bytes bytes PSIMessage u32
  | RespondPSI bytes bytes bytes PSIMessage u32
  | TaskOut taddr ts_out
  | RestartSyncTimer
  | RunWorker taddr
  | Dispatch PSIMessage
  | WaitSignal
  | NullDereference
  | NotifyTaskInfo bytes

section \<open>Sending\<close>

definition generatePPCMsg :: "bytes \<Rightarrow> PSIMessage \<Rightarrow> PSIMessage" where
  "generatePPCMsg selfParty m = (if pm_partyID m = [] then m\<lparr>pm_partyID := selfParty\<rparr> else m)"

definition generateAndSendPPCMessage :: "bytes \<Rightarrow> bytes \<Rightarrow> PSIMessage \<Rightarrow> u32 \<Rightarrow> 'a psi_scheme \<Rightarrow> psi_out" where
  "generateAndSendPPCMessage peer task m seq w = SendPSI peer task (generatePPCMsg (psi_selfParty w) m) seq"

definition psi_asyncSendResponse :: "bytes \<Rightarrow> bytes \<Rightarrow> bytes \<Rightarrow> PSIMessage \<Rightarrow> u32 \<Rightarrow> 'a psi_scheme \<Rightarrow> psi_out" where
  "psi_asyncSendResponse node task uuid m seq w = RespondPSI node task uuid (generatePPCMsg (psi_selfParty w) m) seq"

section \<open>The tables\<close>

definition psi_getTaskByID :: "bytes \<Rightarrow> 'a psi_scheme \<Rightarrow> taddr option" where
  "psi_getTaskByID task w = map_of (psi_pendingTasks w) task"

definition erase_pending :: "bytes \<Rightarrow> (bytes \<times> taddr) list \<Rightarrow> (bytes \<times> taddr) list" where
  "erase_pending task = filter (\<lambda>p. fst p \<noteq> task)"

definition removePendingTask :: "bytes \<Rightarrow> 'a psi_scheme \<Rightarrow> 'a psi_scheme" where
  "removePendingTask task w = w\<lparr>psi_pendingTasks := erase_pending task (psi_pendingTasks w)\<rparr>"

definition removeLockingResource :: "bytes \<Rightarrow> 'a psi_scheme \<Rightarrow> 'a psi_scheme" where
  "removeLockingResource r w = w\<lparr>psi_processingDataResource := psi_processingDataResource w - {r}\<rparr>"

definition batchRemoveDataResource :: "bytes set \<Rightarrow> 'a psi_scheme \<Rightarrow> 'a psi_scheme" where
  "batchRemoveDataResource rs w = w\<lparr>psi_processingDataResource := psi_processingDataResource w - rs\<rparr>"

definition updatePeerTasks :: "bytes \<Rightarrow> bytes \<Rightarrow> bytes set \<Rightarrow> 'a psi_scheme \<Rightarrow> 'a psi_scheme" where
  "updatePeerTasks agency party tasks w =
     (let nodes = (case map_of (psi_peerTasks w) agency of Some n \<Rightarrow> n | None \<Rightarrow> [])
      in w\<lparr>psi_peerTasks := smap_put agency (smap_put party tasks nodes) (psi_peerTasks w)\<rparr>)"

definition getPeerTasks :: "bytes \<Rightarrow> 'a psi_scheme \<Rightarrow> (bytes, bytes set) smap" where
  "getPeerTasks agency w = (case map_of (psi_peerTasks w) agency of Some n \<Rightarrow> n | None \<Rightarrow> [])"

definition task_at :: "'a psi_scheme \<Rightarrow> taddr \<Rightarrow> Task" where
  "task_at w a = ts_task (psi_heap w a)"

definition set_task :: "taddr \<Rightarrow> TaskState \<Rightarrow> 'a psi_scheme \<Rightarrow> 'a psi_scheme" where
  "set_task a s w = w\<lparr>psi_heap := (psi_heap w)(a := s)\<rparr>"

definition self_resource :: "Task \<Rightarrow> DataResource option" where
  "self_resource task = pa_dataResource (tk_selfParty task)"

section \<open>Ending tasks\<close>

definition notifyTaskResult :: "int option \<Rightarrow> bytes \<Rightarrow> bytes \<Rightarrow> bytes \<Rightarrow> 'a psi_scheme \<Rightarrow> psi_out list" where
  "notifyTaskResult e peer task resource w =
     (if peer = [] \<or> task = [] then []
      else [generateAndSendPPCMessage peer task
              ((createPSIMessage CancelTaskNotification)\<lparr>pm_taskID := task, pm_from := psi_selfParty w,
                 pm_resourceID := resource, pm_errorCode := (case e of Some c \<Rightarrow> c | None \<Rightarrow> 0)\<rparr>) 0 w])"

text \<open>
  \<open>cancelTask\<close>: the callback and the finalize handler are taken out of the task state, so a later
  cancellation finds neither.
\<close>

definition cancelTask ::
  "(ts_act \<Rightarrow> bool) \<Rightarrow> int \<Rightarrow> bytes \<Rightarrow> 'a psi_scheme \<Rightarrow> 'a psi_scheme \<times> psi_out list" where
  "cancelTask throws e task w =
     (case psi_getTaskByID task w of
        None \<Rightarrow> (w, [])
      | Some a \<Rightarrow>
          let s = psi_heap w a;
              w1 = removePendingTask task (set_task a (s\<lparr>ts_callback := False, ts_finalizeHandler := False\<rparr>) w);
              w2 = (case self_resource (ts_task s) of Some r \<Rightarrow> removeLockingResource (dr_resourceID r) w1 | None \<Rightarrow> w1);
              (did, threw) = attempt throws
                ((if ts_finalizeHandler s then [Finalize] else []) @ (if ts_reader s then [CleanReader] else []) @
                 (if ts_writer s \<noteq> None then [CleanWriter] @ (if e = 0 then [Upload] else []) else []));
              result = \<lparr>tr_taskID = task, tr_error = Some (if threw then -1 else e), tr_status = NoStatus\<rparr>
          in (w2, map (TaskOut a \<circ> Did) did @ (if ts_callback s then [TaskOut a (Answer result)] else [])))"

definition onTaskError ::
  "(ts_act \<Rightarrow> bool) \<Rightarrow> int option \<Rightarrow> bytes \<Rightarrow> bytes \<Rightarrow> bytes \<Rightarrow> 'a psi_scheme \<Rightarrow> 'a psi_scheme \<times> psi_out list" where
  "onTaskError throws e peer task resource w =
     (case e of
        None \<Rightarrow> (w, [])
      | Some c \<Rightarrow> let (w', outs) = cancelTask throws c task w in (w', notifyTaskResult e peer task resource w @ outs))"

text \<open>
  \<open>checkAndNotifyTaskResult\<close>: the loop over the pending tasks, which drops the finished ones from the
  table and ends them, collecting their resources, which are unlocked after the loop.
\<close>

fun notify_loop ::
  "(ts_act \<Rightarrow> bool) \<Rightarrow> (bytes \<times> taddr) list \<Rightarrow> bytes set \<Rightarrow> 'a psi_scheme \<Rightarrow> bytes set \<times> 'a psi_scheme \<times> psi_out list" where
  "notify_loop throws [] ids w = (ids, w, [])"
| "notify_loop throws ((task, a) # ps) ids w =
     (if \<not> finished (psi_heap w a) then notify_loop throws ps ids w
      else
        let s = psi_heap w a;
            resource = self_resource (ts_task s);
            ids' = (case resource of Some r \<Rightarrow> insert (dr_resourceID r) ids | None \<Rightarrow> ids);
            w1 = removePendingTask task w;
            outs1 = notifyTaskResult None (ts_peerID s) (tk_id (ts_task s))
                      (case resource of Some r \<Rightarrow> dr_resourceID r | None \<Rightarrow> []) w1;
            (s', outs2) = onTaskFinished throws s;
            (ids'', w2, outs3) = notify_loop throws ps ids' (set_task a s' w1)
        in (ids'', w2, outs1 @ map (TaskOut a) outs2 @ outs3))"

definition checkAndNotifyTaskResult :: "(ts_act \<Rightarrow> bool) \<Rightarrow> 'a psi_scheme \<Rightarrow> 'a psi_scheme \<times> psi_out list" where
  "checkAndNotifyTaskResult throws w =
     (let (ids, w', outs) = notify_loop throws (psi_pendingTasks w) {} w
      in (batchRemoveDataResource ids w', outs))"

definition handleLocalTask :: "'a psi_scheme \<Rightarrow> psi_out list" where
  "handleLocalTask w =
     map (RunWorker \<circ> snd) (filter (\<lambda>(task, a). \<not> finished (psi_heap w a) \<and> ts_worker (psi_heap w a)) (psi_pendingTasks w))"

definition psi_executeWorker :: "(ts_act \<Rightarrow> bool) \<Rightarrow> 'a psi_scheme \<Rightarrow> 'a psi_scheme \<times> psi_out list" where
  "psi_executeWorker throws w =
     (let work = handleLocalTask w;
          (w1, outs) = checkAndNotifyTaskResult throws w
      in case psi_msgQueue w1 of
           m # ms \<Rightarrow> (w1\<lparr>psi_msgQueue := ms\<rparr>, work @ outs @ [Dispatch m])
         | [] \<Rightarrow> (w1, work @ outs @ [WaitSignal]))"

definition psi_start :: "'a psi_scheme \<Rightarrow> 'a psi_scheme \<times> psi_out list" where
  "psi_start w = (if psi_started w then (w, []) else (w\<lparr>psi_started := True\<rparr>, [RestartSyncTimer]))"

definition psi_stop :: "'a psi_scheme \<Rightarrow> 'a psi_scheme" where
  "psi_stop w = (if psi_started w then w\<lparr>psi_started := False\<rparr> else w)"

section \<open>Admission\<close>

definition createTaskState :: "Task \<Rightarrow> bool \<Rightarrow> bool \<Rightarrow> 'a psi_scheme \<Rightarrow> taddr \<times> 'a psi_scheme" where
  "createTaskState task onlySelfRun config w =
     (psi_next w, set_task (psi_next w) (new_TaskState task onlySelfRun config) (w\<lparr>psi_next := psi_next w + 1\<rparr>))"

definition checkDataResourceForSelf ::
  "(ts_act \<Rightarrow> bool) \<Rightarrow> taddr \<Rightarrow> bytes \<Rightarrow> bool \<Rightarrow> 'a psi_scheme \<Rightarrow> bool \<times> 'a psi_scheme \<times> psi_out list" where
  "checkDataResourceForSelf throws a peer requireOutput w =
     (let task = task_at w a; id = tk_id task in
      case self_resource task of
        None \<Rightarrow> (False, onTaskError throws (Some PSIRetCode_NotSpecifyInputDataResource) peer id ''empty'' w)
      | Some r \<Rightarrow>
          if dr_desc r = None
          then (False, onTaskError throws (Some PSIRetCode_NotSpecifyInputDataResource) peer id (dr_resourceID r) w)
          else if requireOutput \<and> dr_outputDesc r = None
          then (False, onTaskError throws (Some PSIRetCode_NotSpecifyOutputDataResource) peer id (dr_resourceID r) w)
          else (True, w, []))"

text \<open>
  \<open>lockResourceAndRecordTaskState\<close>; \<open>lock\<close> is \<open>needLockResource\<close> of the protocol for this task. The
  callback of a task refused as a duplicate is called without a check, it is taken out of the state.
\<close>

definition lockResourceAndRecordTaskState ::
  "(ts_act \<Rightarrow> bool) \<Rightarrow> bool \<Rightarrow> taddr \<Rightarrow> 'a psi_scheme \<Rightarrow> int option \<times> 'a psi_scheme \<times> psi_out list" where
  "lockResourceAndRecordTaskState throws lock a w0 =
     (let s = (psi_heap w0 a)\<lparr>ts_onSubTaskFinished := True\<rparr>; w = set_task a s w0; task = ts_task s; id = tk_id task in
      if psi_getTaskByID id w \<noteq> None
      then (Some PSIRetCode_TaskInProcessing, set_task a (s\<lparr>ts_callback := False\<rparr>) w,
            [TaskOut a (Answer \<lparr>tr_taskID = id, tr_error = Some PSIRetCode_TaskInProcessing, tr_status = NoStatus\<rparr>)])
      else
        let w1 = w\<lparr>psi_pendingTasks := (id, a) # psi_pendingTasks w\<rparr> in
        case self_resource task of
          None \<Rightarrow> (None, w1, [])
        | Some r \<Rightarrow>
            if \<not> lock then (None, w1, [])
            else if dr_resourceID r \<in> psi_processingDataResource w1
            then (Some PSIRetCode_DataResourceOccupied, cancelTask throws PSIRetCode_DataResourceOccupied id w1)
            else (None, w1\<lparr>psi_processingDataResource := insert (dr_resourceID r) (psi_processingDataResource w1)\<rparr>, []))"

definition checkAndSetPeerInfo ::
  "(ts_act \<Rightarrow> bool) \<Rightarrow> bool \<Rightarrow> taddr \<Rightarrow> 'a psi_scheme \<Rightarrow> PartyResource option \<times> 'a psi_scheme \<times> psi_out list" where
  "checkAndSetPeerInfo throws enforcePeerResource a w =
     (let task = task_at w a in
      case tk_peerParties task of
        [(_, peer)] \<Rightarrow>
          let w1 = set_task a ((psi_heap w a)\<lparr>ts_peerID := pa_id peer\<rparr>) w in
          if enforcePeerResource \<and> pa_dataResource peer = None
          then (None, onTaskError throws (Some PSIRetCode_NotSpecifyPeerDataResource) (pa_id peer) (tk_id task)
                        (case self_resource task of Some r \<Rightarrow> dr_resourceID r | None \<Rightarrow> []) w1)
          else (Some peer, w1, [])
      | _ \<Rightarrow> (None, cancelTask throws PSIRetCode_OnlySupportOnePeer (tk_id task) w))"

section \<open>Messages\<close>

text \<open>
  \<open>onReceiveMessage\<close>: \<open>decode\<close> stands for the message factory's decoder, which throws on malformed
  data; the exception is caught and the message dropped.
\<close>

definition psi_onReceiveMessage ::
  "(bytes \<Rightarrow> PSIMessage option) \<Rightarrow> PPCMessage \<Rightarrow> 'a psi_scheme \<Rightarrow> 'a psi_scheme" where
  "psi_onReceiveMessage decode p w =
     (case decode (ppc_data p) of
        None \<Rightarrow> w
      | Some m \<Rightarrow>
          w\<lparr>psi_msgQueue := psi_msgQueue w @
             [m\<lparr>pm_taskID := ppc_taskID p, pm_from := ppc_sender p, pm_fromNode := ppc_senderNode p,
                pm_uuid := ppc_uuid p, pm_seq := ppc_seq p\<rparr>]\<rparr>)"

definition checkPSIMsg :: "PSIMessage \<Rightarrow> 'a psi_scheme \<Rightarrow> bool \<times> psi_out list" where
  "checkPSIMsg m w =
     (if pm_packetType m \<noteq> CancelTaskNotification \<and> pm_packetType m \<noteq> TaskSyncMsg \<and> psi_getTaskByID (pm_taskID m) w = None
      then (False, notifyTaskResult (Some PSIRetCode_TaskNotFound) (pm_from m) (pm_taskID m) (pm_resourceID m) w)
      else (True, []))"

definition broadcastSyncTaskInfo :: "bytes \<Rightarrow> bytes list \<Rightarrow> 'a psi_scheme \<Rightarrow> psi_out" where
  "broadcastSyncTaskInfo peer taskList w =
     generateAndSendPPCMessage peer []
       ((createPSIMessage TaskSyncMsg)\<lparr>pm_partyID := psi_selfEndPoint w, pm_taskList := taskList\<rparr>) 0 w"

text \<open>The loop of the callbacks that cancel several tasks.\<close>

fun cancel_all :: "(ts_act \<Rightarrow> bool) \<Rightarrow> int \<Rightarrow> bytes list \<Rightarrow> 'a psi_scheme \<Rightarrow> 'a psi_scheme \<times> psi_out list" where
  "cancel_all throws e [] w = (w, [])"
| "cancel_all throws e (t # ts) w =
     (let (w1, o1) = cancelTask throws e t w; (w2, o2) = cancel_all throws e ts w1 in (w2, o1 @ o2))"

definition broadcastSyncTaskInfo_failed ::
  "(ts_act \<Rightarrow> bool) \<Rightarrow> bytes list \<Rightarrow> 'a psi_scheme \<Rightarrow> 'a psi_scheme \<times> psi_out list" where
  "broadcastSyncTaskInfo_failed throws taskList w = cancel_all throws PSIRetCode_TaskNotFound taskList w"

definition tasks_by_peer :: "'a psi_scheme \<Rightarrow> (bytes, bytes list) smap" where
  "tasks_by_peer w =
     fold (\<lambda>(task, a) m. let peer = ts_peerID (psi_heap w a) in
             if peer = [] then m
             else smap_put peer ((case map_of m peer of Some ts \<Rightarrow> ts | None \<Rightarrow> []) @ [task]) m)
       (psi_pendingTasks w) []"

definition syncTaskInfo :: "'a psi_scheme \<Rightarrow> psi_out list" where
  "syncTaskInfo w =
     (let pending = tasks_by_peer w in
      map (\<lambda>p. broadcastSyncTaskInfo p [] w)
        (filter (\<lambda>p. p \<notin> fst ` set pending \<and> p \<noteq> psi_selfParty w) (psi_agencies w)) @
      map (\<lambda>(p, ts). broadcastSyncTaskInfo p ts w) pending @ [RestartSyncTimer])"

definition expired_tasks :: "(taddr \<Rightarrow> u64) \<Rightarrow> bytes \<Rightarrow> 'a psi_scheme \<Rightarrow> bytes list" where
  "expired_tasks pendingTime peer w =
     map fst (filter (\<lambda>(task, a). ts_peerID (psi_heap w a) = peer \<and> \<not> pendingTime a \<le> psi_taskExpireTime w)
       (psi_pendingTasks w))"

definition handleTaskSyncInfo ::
  "(ts_act \<Rightarrow> bool) \<Rightarrow> (taddr \<Rightarrow> u64) \<Rightarrow> PSIMessage \<Rightarrow> 'a psi_scheme \<Rightarrow> 'a psi_scheme \<times> psi_out list" where
  "handleTaskSyncInfo throws pendingTime m w =
     (let w1 = updatePeerTasks (pm_from m) (pm_partyID m) (set (pm_taskList m)) w;
          peerTasks = getPeerTasks (pm_from m) w1;
          tasksToCancel = filter (\<lambda>t. \<not> (\<exists>ts \<in> snd ` set peerTasks. t \<in> ts)) (expired_tasks pendingTime (pm_from m) w1)
      in cancel_all throws PSIRetCode_TaskNotFound tasksToCancel w1)"

definition handleTaskNotificationMsg ::
  "(ts_act \<Rightarrow> bool) \<Rightarrow> PSIMessage \<Rightarrow> 'a psi_scheme \<Rightarrow> 'a psi_scheme \<times> psi_out list" where
  "handleTaskNotificationMsg throws m w = cancelTask throws (pm_errorCode m) (pm_taskID m) w"

definition sendHandshakeRequest :: "int list \<Rightarrow> int list \<Rightarrow> taddr \<Rightarrow> 'a psi_scheme \<Rightarrow> psi_out list" where
  "sendHandshakeRequest curves hashes a w =
     (let s = psi_heap w a; task = tk_id (ts_task s) in
      if ts_peerID s = [] then []
      else [generateAndSendPPCMessage (ts_peerID s) task
              ((createPSIMessage HandshakeRequest)\<lparr>pm_taskID := task, pm_from := psi_selfParty w,
                 pm_curves := curves, pm_hashList := hashes\<rparr>) 0 w])"

definition sendHandshakeRequest_failed ::
  "(ts_act \<Rightarrow> bool) \<Rightarrow> int \<Rightarrow> taddr \<Rightarrow> 'a psi_scheme \<Rightarrow> 'a psi_scheme \<times> psi_out list" where
  "sendHandshakeRequest_failed throws e a w =
     (if e = 0 then (w, [])
      else let s = psi_heap w a
           in onTaskError throws (Some e) (ts_peerID s) (tk_id (ts_task s))
                (case self_resource (ts_task s) of Some r \<Rightarrow> dr_resourceID r | None \<Rightarrow> ''emptyResource'') w)"

definition responsePSIResultSyncStatus :: "int \<Rightarrow> PSIMessage \<Rightarrow> 'a psi_scheme \<Rightarrow> psi_out" where
  "responsePSIResultSyncStatus code m w =
     psi_asyncSendResponse (pm_fromNode m) (pm_taskID m) (pm_uuid m)
       ((createPSIMessage PSIResultSyncResponse)\<lparr>pm_errorCode := code\<rparr>) (pm_seq m) w"

definition handlePSIResultSyncMsg ::
  "(ts_act \<Rightarrow> bool) \<Rightarrow> PSIMessage \<Rightarrow> 'a psi_scheme \<Rightarrow> 'a psi_scheme \<times> psi_out list" where
  "handlePSIResultSyncMsg throws m w =
     (case psi_getTaskByID (pm_taskID m) w of
        None \<Rightarrow> (w, [responsePSIResultSyncStatus PSIRetCode_TaskNotFound m w])
      | Some a \<Rightarrow>
          let (s, did, threw) = ts_storePSIResult throws (pm_data m) (psi_heap w a);
              w1 = set_task a s w;
              acts = map (TaskOut a \<circ> Did) did
          in if \<not> threw then (w1, acts @ [responsePSIResultSyncStatus 0 m w1])
             else let (w2, outs) = cancelTask throws PSIRetCode_SyncPSIResultFailed (pm_taskID m) w1
                  in (w2, acts @ [responsePSIResultSyncStatus PSIRetCode_SyncPSIResultFailed m w1] @ outs))"

text \<open>The handshake handlers belong to the protocol; \<open>None\<close> is the \<open>default\<close> branch.\<close>

definition handlePSIFrameworkMsg ::
  "(PSIMessage \<Rightarrow> 'a psi_scheme \<Rightarrow> 'a psi_scheme \<times> psi_out list) \<Rightarrow> (PSIMessage \<Rightarrow> 'a psi_scheme \<Rightarrow> 'a psi_scheme \<times> psi_out list) \<Rightarrow>
   (ts_act \<Rightarrow> bool) \<Rightarrow> (taddr \<Rightarrow> u64) \<Rightarrow> PSIMessage \<Rightarrow> 'a psi_scheme \<Rightarrow> ('a psi_scheme \<times> psi_out list) option" where
  "handlePSIFrameworkMsg onHandshakeResponse onHandshakeRequest throws pendingTime m w =
     (if pm_packetType m = CancelTaskNotification then Some (handleTaskNotificationMsg throws m w)
      else if pm_packetType m = TaskSyncMsg then Some (handleTaskSyncInfo throws pendingTime m w)
      else if pm_packetType m = HandshakeResponse then Some (onHandshakeResponse m w)
      else if pm_packetType m = HandshakeRequest then Some (onHandshakeRequest m w)
      else if pm_packetType m = PSIResultSyncMsg then Some (handlePSIResultSyncMsg throws m w)
      else None)"

section \<open>The pending table\<close>

text \<open>
  What holds of the table at every moment: ids and task states appear once, every entry is filed under
  its task's id and still has its callback, which the regular end has not called.
\<close>

definition psi_wf :: "'a psi_scheme \<Rightarrow> bool" where
  "psi_wf w \<longleftrightarrow> distinct (map fst (psi_pendingTasks w)) \<and> distinct (map snd (psi_pendingTasks w)) \<and>
     (\<forall>(t, a) \<in> set (psi_pendingTasks w). a < psi_next w \<and> tk_id (task_at w a) = t \<and>
        ts_callback (psi_heap w a) \<and> \<not> ts_taskDone (psi_heap w a))"

definition is_answer :: "taddr \<Rightarrow> psi_out \<Rightarrow> bool" where
  "is_answer a o1 = (case o1 of TaskOut b (Answer _) \<Rightarrow> b = a | _ \<Rightarrow> False)"

definition answered :: "taddr \<Rightarrow> psi_out list \<Rightarrow> nat" where
  "answered a outs = length (filter (is_answer a) outs)"

definition is_pending :: "'a psi_scheme \<Rightarrow> taddr \<Rightarrow> nat" where
  "is_pending w a = (if a \<in> snd ` set (psi_pendingTasks w) then 1 else 0)"

lemma is_answer_simps [simp]:
  "is_answer a (TaskOut b (Answer r)) = (b = a)"
  "\<not> is_answer a (TaskOut b (Did d))"
  "\<not> is_answer a (SendPSI p t m n)" "\<not> is_answer a (RespondPSI p t u m n)"
  "\<not> is_answer a RestartSyncTimer" "\<not> is_answer a (RunWorker b)" "\<not> is_answer a (Dispatch m)" "\<not> is_answer a WaitSignal"
  "\<not> is_answer a NullDereference" "\<not> is_answer a (NotifyTaskInfo t)"
  by (simp_all add: is_answer_def)

lemma answered_simps [simp]:
  "answered a [] = 0" "answered a (x # xs) = (if is_answer a x then 1 else 0) + answered a xs"
  "answered a (xs @ ys) = answered a xs + answered a ys"
  by (simp_all add: answered_def)

lemma answered_Did [simp]: "answered a (map (TaskOut b \<circ> Did) ds) = 0"
  by (induction ds) simp_all

lemma answered_map_TaskOut: "answered a (map (TaskOut b) os) = (if a = b then length (answers os) else 0)"
  by (induction os rule: answers.induct) simp_all

lemma is_answer_sends [simp]:
  "\<not> is_answer a (generateAndSendPPCMessage p t m n w)" "\<not> is_answer a (psi_asyncSendResponse p t u m n w)"
  "\<not> is_answer a (responsePSIResultSyncStatus c m w)" "\<not> is_answer a (broadcastSyncTaskInfo p ts w)"
  by (simp_all add: generateAndSendPPCMessage_def psi_asyncSendResponse_def responsePSIResultSyncStatus_def
      broadcastSyncTaskInfo_def)

lemma answered_notify [simp]: "answered a (notifyTaskResult e p t r w) = 0"
  by (simp add: notifyTaskResult_def)

lemma psi_simps [simp]:
  "psi_pendingTasks (set_task a s w) = psi_pendingTasks w"
  "psi_next (set_task a s w) = psi_next w"
  "psi_heap (set_task a s w) = (psi_heap w)(a := s)"
  "psi_heap (removePendingTask t w) = psi_heap w" "psi_next (removePendingTask t w) = psi_next w"
  "psi_pendingTasks (removePendingTask t w) = erase_pending t (psi_pendingTasks w)"
  "psi_heap (removeLockingResource r w) = psi_heap w" "psi_next (removeLockingResource r w) = psi_next w"
  "psi_pendingTasks (removeLockingResource r w) = psi_pendingTasks w"
  "psi_heap (batchRemoveDataResource rs w) = psi_heap w" "psi_next (batchRemoveDataResource rs w) = psi_next w"
  "psi_pendingTasks (batchRemoveDataResource rs w) = psi_pendingTasks w"
  "psi_heap (updatePeerTasks g p ts w) = psi_heap w" "psi_next (updatePeerTasks g p ts w) = psi_next w"
  "psi_pendingTasks (updatePeerTasks g p ts w) = psi_pendingTasks w"
  by (simp_all add: set_task_def removePendingTask_def removeLockingResource_def batchRemoveDataResource_def
      updatePeerTasks_def Let_def)

lemma set_erase_pending [simp]: "set (erase_pending t ps) = {p \<in> set ps. fst p \<noteq> t}"
  by (simp add: erase_pending_def)

lemma distinct_erase_pending:
  "distinct (map fst ps) \<Longrightarrow> distinct (map fst (erase_pending t ps))"
  "distinct (map snd ps) \<Longrightarrow> distinct (map snd (erase_pending t ps))"
  by (simp_all add: erase_pending_def distinct_map_filter)

lemma erase_pending_absent: "map_of ps t = None \<Longrightarrow> erase_pending t ps = ps"
  by (induction ps) (auto simp: erase_pending_def split: if_splits)

lemma cancelTask_pending: "psi_pendingTasks (fst (cancelTask throws e t w)) = erase_pending t (psi_pendingTasks w)"
  by (simp add: cancelTask_def psi_getTaskByID_def split_beta Let_def erase_pending_absent split: option.splits)

lemma cancelTask_heap:
  "psi_heap (fst (cancelTask throws e t w)) =
     (case psi_getTaskByID t w of None \<Rightarrow> psi_heap w
      | Some a \<Rightarrow> (psi_heap w)(a := (psi_heap w a)\<lparr>ts_callback := False, ts_finalizeHandler := False\<rparr>))"
  "psi_next (fst (cancelTask throws e t w)) = psi_next w"
  by (simp_all add: cancelTask_def split_beta Let_def split: option.splits)

lemma cancelTask_task_at: "task_at (fst (cancelTask throws e t w)) b = task_at w b"
  by (simp add: task_at_def cancelTask_heap split: option.splits)

lemmas cancelTask_frame = cancelTask_pending cancelTask_heap(2) cancelTask_task_at

lemma getTaskByID_Some:
  assumes "psi_wf w"
  shows "psi_getTaskByID t w = Some a \<longleftrightarrow> (t, a) \<in> set (psi_pendingTasks w)"
  using assms by (simp add: psi_wf_def psi_getTaskByID_def)

lemma pending_entry:
  assumes "psi_wf w" and "(t, a) \<in> set (psi_pendingTasks w)"
  shows "a < psi_next w \<and> tk_id (task_at w a) = t \<and> ts_callback (psi_heap w a) \<and> \<not> ts_taskDone (psi_heap w a)"
  using assms unfolding psi_wf_def by blast

lemma pending_addr_unique:
  "psi_wf w \<Longrightarrow> (t, a) \<in> set (psi_pendingTasks w) \<Longrightarrow> (t', a) \<in> set (psi_pendingTasks w) \<Longrightarrow> t = t'"
  using pending_entry [of w t a] pending_entry [of w t' a] by simp

lemma psi_wfI:
  assumes "distinct (map fst (psi_pendingTasks w))" and "distinct (map snd (psi_pendingTasks w))"
    and "\<And>t a. (t, a) \<in> set (psi_pendingTasks w) \<Longrightarrow> a < psi_next w \<and> tk_id (task_at w a) = t \<and>
      ts_callback (psi_heap w a) \<and> \<not> ts_taskDone (psi_heap w a)"
  shows "psi_wf w"
  using assms unfolding psi_wf_def by blast

lemma drop_pending:
  assumes wf: "psi_wf w" and tb: "(t, b) \<in> set (psi_pendingTasks w)"
  shows "psi_wf (removePendingTask t (set_task b s w))"
    and "is_pending (removePendingTask t (set_task b s w)) a = (if a = b then 0 else is_pending w a)"
    and "is_pending w b = 1"
proof -
  have keep: "x \<noteq> b" if "(t', x) \<in> set (psi_pendingTasks w)" "t' \<noteq> t" for t' x
    using pending_addr_unique [OF wf tb] that by blast
  show "psi_wf (removePendingTask t (set_task b s w))"
  proof (rule psi_wfI)
    fix t' x assume "(t', x) \<in> set (psi_pendingTasks (removePendingTask t (set_task b s w)))"
    then have m: "(t', x) \<in> set (psi_pendingTasks w)" "t' \<noteq> t" by simp_all
    with keep have "x \<noteq> b" by blast
    with pending_entry [OF wf m(1)] show "x < psi_next (removePendingTask t (set_task b s w)) \<and>
        tk_id (task_at (removePendingTask t (set_task b s w)) x) = t' \<and>
        ts_callback (psi_heap (removePendingTask t (set_task b s w)) x) \<and>
        \<not> ts_taskDone (psi_heap (removePendingTask t (set_task b s w)) x)"
      by (simp add: task_at_def)
  qed (use wf in \<open>simp_all add: psi_wf_def distinct_erase_pending\<close>)
  have other: "t' \<noteq> t" if "(t', x) \<in> set (psi_pendingTasks w)" "x \<noteq> b" for t' x
    using that tb eq_key_imp_eq_value [of "psi_pendingTasks w" t x b] wf unfolding psi_wf_def by blast
  have "x \<in> snd ` {p \<in> set (psi_pendingTasks w). fst p \<noteq> t} \<longleftrightarrow> x \<in> snd ` set (psi_pendingTasks w) - {b}" for x
  proof
    assume "x \<in> snd ` set (psi_pendingTasks w) - {b}"
    then obtain t' where "(t', x) \<in> set (psi_pendingTasks w)" "x \<noteq> b" by auto
    with other [OF this] show "x \<in> snd ` {p \<in> set (psi_pendingTasks w). fst p \<noteq> t}"
      by (intro image_eqI [of _ _ "(t', x)"]) simp_all
  qed (auto dest: keep)
  then show "is_pending (removePendingTask t (set_task b s w)) a = (if a = b then 0 else is_pending w a)"
    by (simp add: is_pending_def)
  show "is_pending w b = 1" using tb by (force simp: is_pending_def)
qed

lemma psi_wf_locks [simp]:
  "psi_wf (removeLockingResource r w) = psi_wf w" "is_pending (removeLockingResource r w) = is_pending w"
  "psi_wf (batchRemoveDataResource rs w) = psi_wf w" "is_pending (batchRemoveDataResource rs w) = is_pending w"
  "psi_wf (updatePeerTasks g p ts w) = psi_wf w" "is_pending (updatePeerTasks g p ts w) = is_pending w"
  "psi_wf (w\<lparr>psi_msgQueue := q\<rparr>) = psi_wf w" "is_pending (w\<lparr>psi_msgQueue := q\<rparr>) = is_pending w"
  by (auto simp: psi_wf_def is_pending_def task_at_def fun_eq_iff)

lemma psi_wf_set_task:
  assumes "psi_wf w" and "tk_id (ts_task s) = tk_id (task_at w a)"
    and "ts_callback s = ts_callback (psi_heap w a)" and "ts_taskDone s = ts_taskDone (psi_heap w a)"
  shows "psi_wf (set_task a s w)"
  using assms by (auto simp: psi_wf_def task_at_def)

lemma is_pending_set_task [simp]: "is_pending (set_task a s w) = is_pending w"
  by (simp add: is_pending_def fun_eq_iff)

text \<open>
  An operation \<open>settles\<close> what it takes out of the table: it keeps the table consistent, and every task
  state it removes is answered once, every other not at all.
\<close>

definition settles :: "'a psi_scheme \<Rightarrow> 'a psi_scheme \<times> psi_out list \<Rightarrow> bool" where
  "settles w r \<longleftrightarrow> psi_next (fst r) = psi_next w \<and> psi_wf (fst r) \<and>
     (\<forall>a. is_pending (fst r) a + answered a (snd r) = is_pending w a)"

lemma settles_refl: "psi_wf w \<Longrightarrow> (\<And>a. answered a outs = 0) \<Longrightarrow> settles w (w, outs)"
  by (simp add: settles_def)

lemma settles_trans: "settles w r1 \<Longrightarrow> settles (fst r1) r2 \<Longrightarrow> settles w (fst r2, snd r1 @ snd r2)"
  unfolding settles_def by (auto simp flip: add.assoc) (metis add.assoc add.commute)

lemma settles_quiet: "settles w (w1, outs) \<Longrightarrow> (\<And>a. answered a pre = 0) \<Longrightarrow> settles w (w1, pre @ outs)"
  by (simp add: settles_def)

lemma settles_cancelTask:
  assumes "psi_wf w"
  shows "settles w (cancelTask throws e t w)"
proof (cases "psi_getTaskByID t w")
  case None
  then show ?thesis using assms by (simp add: cancelTask_def settles_refl)
next
  case (Some b)
  note tb = Some [unfolded getTaskByID_Some [OF assms]]
  with assms have "ts_callback (psi_heap w b)" by (auto simp: psi_wf_def)
  with Some drop_pending [OF assms tb] show ?thesis
    by (auto simp: cancelTask_def settles_def split_beta Let_def split: option.splits)
qed

lemma settles_onTaskError: "psi_wf w \<Longrightarrow> settles w (onTaskError throws e p t r w)"
  using settles_cancelTask [of w throws "the e" t]
  by (cases e) (auto simp: onTaskError_def split_beta settles_refl intro: settles_quiet)

lemma settles_cancel_all: "psi_wf w \<Longrightarrow> settles w (cancel_all throws e ts w)"
proof (induction ts arbitrary: w)
  case (Cons t ts)
  have "settles w (cancelTask throws e t w)" by (rule settles_cancelTask [OF Cons.prems])
  moreover from this have "settles (fst (cancelTask throws e t w)) (cancel_all throws e ts (fst (cancelTask throws e t w)))"
    by (intro Cons.IH) (simp add: settles_def)
  ultimately show ?case using settles_trans by (simp add: split_beta)
qed (simp add: settles_refl)

lemma onTaskFinished_answers:
  "length (answers (snd (onTaskFinished throws s))) = (if ts_taskDone s \<or> \<not> ts_callback s then 0 else 1)"
  by (simp add: onTaskFinished_def split_beta Let_def)

lemma settles_notify_loop:
  assumes "psi_wf w" and "set ps \<subseteq> set (psi_pendingTasks w)" and "distinct (map fst ps)" and "distinct (map snd ps)"
  shows "settles w (snd (notify_loop throws ps ids w))"
  using assms
proof (induction ps arbitrary: ids w)
  case (Cons p ps)
  obtain t a where p: "p = (t, a)" by (cases p)
  show ?case
  proof (cases "finished (psi_heap w a)")
    case False
    with Cons p show ?thesis by simp
  next
    case True
    let ?s = "psi_heap w a" and ?w = "set_task a (fst (onTaskFinished throws (psi_heap w a))) (removePendingTask t w)"
    have ta: "(t, a) \<in> set (psi_pendingTasks w)" using Cons.prems p by simp
    then have live: "ts_callback ?s" "\<not> ts_taskDone ?s" using Cons.prems(1) by (auto simp: psi_wf_def)
    have swap: "?w = removePendingTask t (set_task a (fst (onTaskFinished throws ?s)) w)"
      by (simp add: set_task_def removePendingTask_def)
    note d = drop_pending(1,2) [OF Cons.prems(1) ta, where s = "fst (onTaskFinished throws ?s)", folded swap]
      drop_pending(3) [OF Cons.prems(1) ta]
    define ids' where "ids' = (case self_resource (ts_task ?s) of Some r \<Rightarrow> insert (dr_resourceID r) ids | None \<Rightarrow> ids)"
    have "set ps \<subseteq> set (psi_pendingTasks ?w)" using Cons.prems(2,3) p by auto
    with d(1) Cons.prems(3,4) have "settles ?w (snd (notify_loop throws ps ids' ?w))"
      by (intro Cons.IH) simp_all
    with True live d p show ?thesis
      by (simp add: split_beta Let_def ids'_def [symmetric] settles_def answered_map_TaskOut onTaskFinished_answers)
  qed
qed (simp add: settles_refl)

lemma settles_check: "psi_wf w \<Longrightarrow> settles w (checkAndNotifyTaskResult throws w)"
  using settles_notify_loop [of w "psi_pendingTasks w" throws "{}"]
  by (simp add: checkAndNotifyTaskResult_def psi_wf_def [of w] split_beta settles_def)

lemma settles_queue: "settles w (w', outs) \<Longrightarrow> settles w (w'\<lparr>psi_msgQueue := q\<rparr>, outs)"
  by (simp add: settles_def)

lemma answered_handleLocalTask [simp]: "answered a (handleLocalTask w) = 0"
  by (auto simp: handleLocalTask_def answered_def filter_empty_conv)

lemma settles_executeWorker: "psi_wf w \<Longrightarrow> settles w (psi_executeWorker throws w)"
  using settles_check [of w throws] settles_queue [of w "fst (checkAndNotifyTaskResult throws w)" "snd (checkAndNotifyTaskResult throws w)"]
  by (auto simp: psi_executeWorker_def split_beta Let_def settles_def split: list.splits)

lemma storePSIResult_keeps:
  "tk_id (ts_task (fst (ts_storePSIResult throws data s))) = tk_id (ts_task s)"
  "ts_callback (fst (ts_storePSIResult throws data s)) = ts_callback s"
  "ts_taskDone (fst (ts_storePSIResult throws data s)) = ts_taskDone s"
  by (simp_all add: ts_storePSIResult_def tryToGenerateDefaultOutputDesc_def split_beta Let_def)

lemma settles_resultSync:
  assumes "psi_wf w"
  shows "settles w (handlePSIResultSyncMsg throws m w)"
proof (cases "psi_getTaskByID (pm_taskID m) w")
  case None
  then show ?thesis using assms by (simp add: handlePSIResultSyncMsg_def settles_refl)
next
  case (Some a)
  let ?w = "set_task a (fst (ts_storePSIResult throws (pm_data m) (psi_heap w a))) w"
  have wf: "psi_wf ?w" using assms by (intro psi_wf_set_task) (simp_all add: storePSIResult_keeps task_at_def)
  from settles_cancelTask [OF wf, of throws PSIRetCode_SyncPSIResultFailed "pm_taskID m"] wf Some show ?thesis
    by (auto simp: handlePSIResultSyncMsg_def split_beta Let_def settles_def)
qed

lemma settles_checkSelf: "psi_wf w \<Longrightarrow> settles w (snd (checkDataResourceForSelf throws a p o1 w))"
  by (auto simp: checkDataResourceForSelf_def Let_def settles_refl settles_onTaskError split: option.splits)

lemma settles_setPeer:
  assumes "psi_wf w"
  shows "settles w (snd (checkAndSetPeerInfo throws f a w))"
proof -
  have "psi_wf (set_task a ((psi_heap w a)\<lparr>ts_peerID := q\<rparr>) w)" for q
    using assms by (intro psi_wf_set_task) (simp_all add: task_at_def)
  then have "settles w (set_task a ((psi_heap w a)\<lparr>ts_peerID := q\<rparr>) w, [])"
    and "settles w (onTaskError throws e p t r (set_task a ((psi_heap w a)\<lparr>ts_peerID := q\<rparr>) w))" for q e p t r
    using settles_onTaskError [of "set_task a ((psi_heap w a)\<lparr>ts_peerID := q\<rparr>) w" throws e p t r]
    by (simp_all add: settles_def)
  with assms show ?thesis
    by (auto simp: checkAndSetPeerInfo_def Let_def settles_cancelTask split: list.splits)
qed

lemma settles_syncInfo: "psi_wf w \<Longrightarrow> settles w (handleTaskSyncInfo throws time m w)"
  using settles_cancel_all [of "updatePeerTasks (pm_from m) (pm_partyID m) (set (pm_taskList m)) w" throws]
  by (simp add: handleTaskSyncInfo_def Let_def settles_def)

section \<open>Every task is answered\<close>

text \<open>
  The events of the framework. \<open>Submit\<close> creates a task state and files it; the two checks of a
  submission are events of their own, for any task state and any peer. \<open>TaskOp\<close> is any operation a
  protocol does on the state of a task, pending or not: reading data and finishing, opening and closing
  sub-tasks, raising an exception, storing results. A finished pending task is ended by the next \<open>Worker\<close>.
\<close>

datatype psi_event =
    Submit Task bool bool bool
  | CheckPeer taddr bool
  | CheckSelf taddr bytes bool
  | Worker
  | PeerNotification PSIMessage
  | PeerTaskList PSIMessage "taddr \<Rightarrow> u64"
  | PeerResult PSIMessage
  | SyncSendFailed "bytes list"
  | HandshakeSendFailed taddr int
  | Cancel int bytes
  | Receive PPCMessage "bytes \<Rightarrow> PSIMessage option"
  | TaskOp taddr task_op

definition task_op_step :: "(ts_act \<Rightarrow> bool) \<Rightarrow> taddr \<Rightarrow> task_op \<Rightarrow> 'a psi_scheme \<Rightarrow> 'a psi_scheme \<times> psi_out list" where
  "task_op_step throws a x w =
     (if a < psi_next w
      then let (s, outs) = run_op throws x (psi_heap w a) in (set_task a s w, map (TaskOut a) outs)
      else (w, []))"

definition submit ::
  "(ts_act \<Rightarrow> bool) \<Rightarrow> Task \<Rightarrow> bool \<Rightarrow> bool \<Rightarrow> bool \<Rightarrow> 'a psi_scheme \<Rightarrow> 'a psi_scheme \<times> psi_out list" where
  "submit throws task onlySelf config lock w =
     (let (a, w1) = createTaskState task onlySelf config w
      in snd (lockResourceAndRecordTaskState throws lock a w1))"

fun psi_step :: "(ts_act \<Rightarrow> bool) \<times> psi_event \<Rightarrow> 'a psi_scheme \<Rightarrow> 'a psi_scheme \<times> psi_out list" where
  "psi_step (th, Submit task onlySelf config lock) w = submit th task onlySelf config lock w"
| "psi_step (th, CheckPeer a f) w = snd (checkAndSetPeerInfo th f a w)"
| "psi_step (th, CheckSelf a p f) w = snd (checkDataResourceForSelf th a p f w)"
| "psi_step (th, Worker) w = psi_executeWorker th w"
| "psi_step (th, PeerNotification m) w = handleTaskNotificationMsg th m w"
| "psi_step (th, PeerTaskList m time) w = handleTaskSyncInfo th time m w"
| "psi_step (th, PeerResult m) w = handlePSIResultSyncMsg th m w"
| "psi_step (th, SyncSendFailed ts) w = broadcastSyncTaskInfo_failed th ts w"
| "psi_step (th, HandshakeSendFailed a e) w = sendHandshakeRequest_failed th e a w"
| "psi_step (th, Cancel e t) w = cancelTask th e t w"
| "psi_step (th, Receive p dec) w = (psi_onReceiveMessage dec p w, [])"
| "psi_step (th, TaskOp a x) w = task_op_step th a x w"

text \<open>The answers that exceptions give during a run: one for each that finds the callback in the task state.\<close>

fun exception_answer :: "taddr \<Rightarrow> (ts_act \<Rightarrow> bool) \<times> psi_event \<Rightarrow> 'a psi_scheme \<Rightarrow> nat" where
  "exception_answer a (th, TaskOp b x) w = (if b = a \<and> a < psi_next w \<and> answers_exception th x (psi_heap w a) then 1 else 0)"
| "exception_answer a _ w = 0"

fun exception_answers :: "taddr \<Rightarrow> ((ts_act \<Rightarrow> bool) \<times> psi_event) list \<Rightarrow> 'a psi_scheme \<Rightarrow> nat" where
  "exception_answers a [] w = 0"
| "exception_answers a (e # es) w = exception_answer a e w + exception_answers a es (fst (psi_step e w))"

fun raises_for :: "taddr \<Rightarrow> (ts_act \<Rightarrow> bool) \<times> psi_event \<Rightarrow> bool" where
  "raises_for a (th, TaskOp b x) = (b = a \<and> raises th x)"
| "raises_for a _ = False"

lemma exception_answers_bound: "exception_answers a es w \<le> length (filter (raises_for a) es)"
proof (induction es arbitrary: w)
  case (Cons e es)
  have "exception_answer a e w \<le> (if raises_for a e then 1 else 0)"
    by (cases "(a, e)" rule: raises_for.cases) (simp_all add: answers_exception_def)
  with Cons.IH [of "fst (psi_step e w)"] show ?case by (simp del: psi_step.simps split: if_splits)
qed simp

lemma task_op_settles:
  fixes th :: "ts_act \<Rightarrow> bool" and b :: taddr and x :: task_op and w :: "'a psi_scheme"
  assumes "psi_wf w"
  defines "r \<equiv> psi_step (th, TaskOp b x) w"
  shows "psi_wf (fst r) \<and> psi_next (fst r) = psi_next w \<and>
    is_pending (fst r) a + answered a (snd r) = is_pending w a + exception_answer a (th, TaskOp b x) w"
proof -
  have "psi_wf (set_task b (fst (run_op th x (psi_heap w b))) w)"
    using assms(1) by (intro psi_wf_set_task) (simp_all add: run_op_keeps task_at_def)
  with assms show ?thesis
    by (simp add: task_op_step_def split_beta answered_map_TaskOut run_op_answers)
qed

lemma settles_step:
  assumes "psi_wf w" and "\<And>task os c l. e \<noteq> Submit task os c l" and "\<And>a x. e \<noteq> TaskOp a x"
  shows "settles w (psi_step (th, e) w)"
proof (cases e)
  case (Receive p dec)
  then show ?thesis using settles_queue [OF settles_refl [OF assms(1)], of "[]"] settles_refl [OF assms(1), of "[]"]
    by (simp add: psi_onReceiveMessage_def split: option.splits)
qed (use assms in \<open>simp_all add: settles_executeWorker settles_resultSync settles_checkSelf settles_setPeer
  settles_syncInfo settles_cancelTask settles_cancel_all settles_onTaskError handleTaskNotificationMsg_def
  broadcastSyncTaskInfo_failed_def sendHandshakeRequest_failed_def settles_refl Let_def\<close>)

definition new_psi :: "bytes \<Rightarrow> bytes \<Rightarrow> bytes list \<Rightarrow> u64 \<Rightarrow> (taddr \<Rightarrow> TaskState) \<Rightarrow> psi" where
  "new_psi selfParty endPoint agencies expire junk =
     \<lparr>psi_selfParty = selfParty, psi_selfEndPoint = endPoint, psi_agencies = agencies, psi_taskExpireTime = expire,
      psi_started = False, psi_heap = junk, psi_next = 0, psi_pendingTasks = [], psi_processingDataResource = {},
      psi_peerTasks = [], psi_msgQueue = []\<rparr>"

lemma pending_below: "psi_wf w \<Longrightarrow> is_pending w (psi_next w) = 0"
  using pending_entry [of w] by (fastforce simp: is_pending_def)

lemma file_task:
  assumes wf: "psi_wf w" and new: "map_of (psi_pendingTasks w) t = None"
    and s: "tk_id (ts_task s) = t" "ts_callback s" "\<not> ts_taskDone s"
    and w1: "psi_pendingTasks w1 = (t, psi_next w) # psi_pendingTasks w" "psi_next w1 = psi_next w + 1"
      "psi_heap w1 = (psi_heap w)(psi_next w := s)"
  shows "psi_wf w1" and "is_pending w1 a = is_pending w a + (if a = psi_next w then 1 else 0)"
proof -
  have below: "a < psi_next w" if "(t', a) \<in> set (psi_pendingTasks w)" for t' a
    using pending_entry [OF wf that] by simp
  then have fresh: "psi_next w \<notin> snd ` set (psi_pendingTasks w)" by fastforce
  have "t \<notin> fst ` set (psi_pendingTasks w)" using new by (simp add: map_of_eq_None_iff)
  then have d: "distinct (map fst (psi_pendingTasks w1))" "distinct (map snd (psi_pendingTasks w1))"
    using wf w1(1) fresh by (simp_all add: psi_wf_def)
  show "psi_wf w1"
  proof (rule psi_wfI [OF d])
    fix t' a assume "(t', a) \<in> set (psi_pendingTasks w1)"
    then consider "t' = t" "a = psi_next w" | "(t', a) \<in> set (psi_pendingTasks w)" using w1(1) by auto
    then show "a < psi_next w1 \<and> tk_id (task_at w1 a) = t' \<and> ts_callback (psi_heap w1 a) \<and> \<not> ts_taskDone (psi_heap w1 a)"
    proof cases
      case 1
      then show ?thesis using s w1 by (simp add: task_at_def)
    next
      case 2
      from pending_entry [OF wf this] below [OF this] w1 show ?thesis by (simp add: task_at_def)
    qed
  qed
  show "is_pending w1 a = is_pending w a + (if a = psi_next w then 1 else 0)"
    using fresh w1(1) by (auto simp: is_pending_def)
qed

lemma psi_wf_same_table:
  assumes wf: "psi_wf w" and "psi_pendingTasks w1 = psi_pendingTasks w" and "psi_next w \<le> psi_next w1"
    and "\<And>a. a < psi_next w \<Longrightarrow> psi_heap w1 a = psi_heap w a"
  shows "psi_wf w1"
proof (rule psi_wfI)
  fix t a assume "(t, a) \<in> set (psi_pendingTasks w1)"
  with assms(2) have "(t, a) \<in> set (psi_pendingTasks w)" by simp
  from pending_entry [OF wf this] assms(3,4)
  show "a < psi_next w1 \<and> tk_id (task_at w1 a) = t \<and> ts_callback (psi_heap w1 a) \<and> \<not> ts_taskDone (psi_heap w1 a)"
    by (simp add: task_at_def)
qed (use wf assms(2) in \<open>simp_all add: psi_wf_def\<close>)

lemma submit_settles:
  fixes th :: "ts_act \<Rightarrow> bool" and task :: Task and onlySelf config lock :: bool and w :: "'a psi_scheme"
  assumes wf: "psi_wf w"
  defines "r \<equiv> submit th task onlySelf config lock w"
  shows "psi_wf (fst r) \<and> psi_next (fst r) = psi_next w + 1 \<and>
    is_pending (fst r) a + answered a (snd r) = is_pending w a + (if a = psi_next w then 1 else 0)"
proof -
  define s where "s = (new_TaskState task onlySelf config)\<lparr>ts_onSubTaskFinished := True\<rparr>"
  have s: "tk_id (ts_task s) = tk_id task" "ts_callback s" "\<not> ts_taskDone s" by (simp_all add: s_def new_TaskState_def)
  define w2 where "w2 = set_task (psi_next w) s (w\<lparr>psi_next := psi_next w + 1\<rparr>)"
  have w2: "psi_pendingTasks w2 = psi_pendingTasks w" "psi_next w2 = psi_next w + 1"
    "psi_heap w2 = (psi_heap w)(psi_next w := s)" by (simp_all add: w2_def)
  define w1 where "w1 = snd (createTaskState task onlySelf config w)"
  have r: "r = snd (lockResourceAndRecordTaskState th lock (psi_next w) w1)"
    by (simp add: r_def submit_def createTaskState_def w1_def)
  have sa: "(psi_heap w1 (psi_next w))\<lparr>ts_onSubTaskFinished := True\<rparr> = s" "set_task (psi_next w) s w1 = w2"
    "psi_pendingTasks w1 = psi_pendingTasks w"
    by (simp_all add: w1_def createTaskState_def s_def w2_def set_task_def)
  show ?thesis
  proof (cases "map_of (psi_pendingTasks w) (tk_id task)")
    case (Some b)
    have "psi_wf w2" "psi_wf (set_task (psi_next w) (s\<lparr>ts_callback := False\<rparr>) w2)"
      by (rule psi_wf_same_table [OF wf]; simp add: w2)+
    moreover have "is_pending w2 = is_pending w" by (simp add: is_pending_def w2 fun_eq_iff)
    ultimately show ?thesis using Some
      by (simp add: r lockResourceAndRecordTaskState_def sa s psi_getTaskByID_def w2 Let_def)
  next
    case None
    let ?w = "w2\<lparr>psi_pendingTasks := (tk_id task, psi_next w) # psi_pendingTasks w2\<rparr>"
    let ?lock = "\<lambda>r. ?w\<lparr>psi_processingDataResource := insert r (psi_processingDataResource ?w)\<rparr>"
    note f = file_task [OF wf None s, of ?w] file_task [OF wf None s, of "?lock x" for x]
    have c: "settles ?w (cancelTask th e t ?w)" for e t by (rule settles_cancelTask) (rule f(1), simp_all add: w2)
    have sr: "self_resource (ts_task s) = self_resource task" by (simp add: s_def new_TaskState_def)
    show ?thesis
    proof (cases "self_resource task")
      case None
      with f \<open>map_of _ _ = None\<close> show ?thesis
        by (simp add: r lockResourceAndRecordTaskState_def sa s sr psi_getTaskByID_def w2 Let_def)
    next
      case (Some x)
      with f c [of PSIRetCode_DataResourceOccupied "tk_id task"] \<open>map_of _ _ = None\<close> show ?thesis
        by (simp add: r lockResourceAndRecordTaskState_def sa s sr psi_getTaskByID_def w2 Let_def settles_def)
    qed
  qed
qed

lemma step_settles:
  fixes e :: "(ts_act \<Rightarrow> bool) \<times> psi_event" and w :: "'a psi_scheme"
  assumes wf: "psi_wf w"
  defines "r \<equiv> psi_step e w"
  shows "psi_wf (fst r) \<and> psi_next w \<le> psi_next (fst r) \<and>
    is_pending (fst r) a + answered a (snd r) =
      is_pending w a + (if psi_next w \<le> a \<and> a < psi_next (fst r) then 1 else 0) + exception_answer a e w"
proof -
  obtain th ev where e: "e = (th, ev)" by (cases e)
  consider (submit) task os c l where "ev = Submit task os c l" | (op) b x where "ev = TaskOp b x"
    | (other) "\<And>task os c l. ev \<noteq> Submit task os c l" "\<And>b x. ev \<noteq> TaskOp b x"
    by blast
  then show ?thesis
  proof cases
    case submit
    then show ?thesis using submit_settles [OF wf, of th _ _ _ _ a] e by (auto simp: r_def)
  next
    case op
    then show ?thesis using task_op_settles [OF wf, of th b x a] e by (simp add: r_def)
  next
    case other
    have "exception_answer a e w = 0" using other(2) e by (cases ev) auto
    with settles_step [OF wf other, of th] e show ?thesis by (simp add: r_def settles_def)
  qed
qed

lemma run_settles:
  "psi_wf (w :: 'a psi_scheme) \<Longrightarrow>
   psi_wf (fst (run_steps psi_step es w)) \<and> psi_next w \<le> psi_next (fst (run_steps psi_step es w)) \<and>
   is_pending (fst (run_steps psi_step es w)) a + answered a (snd (run_steps psi_step es w)) =
     is_pending w a + (if psi_next w \<le> a \<and> a < psi_next (fst (run_steps psi_step es w)) then 1 else 0) +
     exception_answers a es w"
proof (induction es arbitrary: w)
  case (Cons e es)
  from Cons.IH [of "fst (psi_step e w)"] step_settles [OF Cons.prems, of e a] show ?case
    by (auto simp: run_steps_Cons simp del: run_steps.simps psi_step.simps split: if_splits)
qed simp

text \<open>
  (C6) Every task the framework accepted for filing is answered exactly once or is still pending, and
  never both, but for what exceptions add. Over any sequence of submissions, checks, worker rounds, peer
  notifications, peer task lists, synchronised results, failed sends, cancellations, arriving messages and
  operations on the states of the tasks, whatever storage throws: counting 1 for a task state in the
  pending table, its answers add up to 1 plus the answers its exceptions gave. An exception of a task
  that still has its callback answers by itself, in addition to the regular end or the cancellation that
  follows, and there are at most as many of these answers as such events; without them a task is answered
  exactly once. No address that was not created is ever answered, and the table stays consistent.
\<close>

theorem every_task_answered:
  fixes es :: "((ts_act \<Rightarrow> bool) \<times> psi_event) list" and self endPoint :: bytes and agencies :: "bytes list"
    and expire :: u64 and junk :: "taddr \<Rightarrow> TaskState"
  defines "w0 \<equiv> new_psi self endPoint agencies expire junk"
  defines "r \<equiv> run_steps psi_step es w0"
  shows "psi_wf (fst r) \<and>
    (if a \<in> snd ` set (psi_pendingTasks (fst r)) then 1 else 0) + answered a (snd r) =
      (if a < psi_next (fst r) then 1 else 0) + exception_answers a es w0 \<and>
    exception_answers a es w0 \<le> length (filter (raises_for a) es)"
proof -
  have "psi_wf w0" "is_pending w0 a = 0" "psi_next w0 = 0"
    by (simp_all add: w0_def psi_wf_def new_psi_def is_pending_def)
  with run_settles [OF this(1), of es a] exception_answers_bound [of a es w0] show ?thesis
    unfolding r_def is_pending_def by simp
qed

text \<open>
  The regular end, seen from one task: once a pending task has finished reading and its sub-tasks are
  done, one round of the worker takes it out of the table and answers it.
\<close>

lemma notify_loop_shrinks: "set (psi_pendingTasks (fst (snd (notify_loop throws ps ids w)))) \<subseteq> set (psi_pendingTasks w)"
proof (induction ps arbitrary: ids w)
  case (Cons p ps)
  obtain t a where p: "p = (t, a)" by (cases p)
  let ?w = "set_task a (fst (onTaskFinished throws (psi_heap w a))) (removePendingTask t w)"
  have "set (psi_pendingTasks (fst (snd (notify_loop throws ps ids' ?w)))) \<subseteq> set (psi_pendingTasks w)" for ids'
    using Cons.IH [of ids' ?w] by auto
  with Cons.IH p show ?case by (simp add: split_beta Let_def)
qed simp

lemma notify_loop_erases:
  assumes "(t, a) \<in> set ps" and "distinct (map snd ps)" and "finished (psi_heap w a)"
  shows "(t, a) \<notin> set (psi_pendingTasks (fst (snd (notify_loop throws ps ids w))))"
  using assms
proof (induction ps arbitrary: ids w)
  case (Cons p ps)
  obtain t' b where p: "p = (t', b)" by (cases p)
  show ?case
  proof (cases "b = a")
    case True
    have "t' = t" using Cons.prems(1,2) p True by force
    let ?w = "set_task a (fst (onTaskFinished throws (psi_heap w a))) (removePendingTask t w)"
    have "(t, a) \<notin> set (psi_pendingTasks ?w)" by simp
    then have "(t, a) \<notin> set (psi_pendingTasks (fst (snd (notify_loop throws ps ids' ?w))))" for ids'
      using notify_loop_shrinks [of throws ps ids' ?w] by blast
    then show ?thesis using p True \<open>t' = t\<close> Cons.prems(3) by (simp add: split_beta Let_def)
  next
    case False
    then have "(t, a) \<in> set ps" "distinct (map snd ps)" using Cons.prems p by simp_all
    note IH = Cons.IH [OF this]
    from False IH Cons.prems(3) p show ?thesis by (simp add: split_beta Let_def)
  qed
qed simp

lemma worker_ends_finished:
  assumes wf: "psi_wf w" and ta: "(t, a) \<in> set (psi_pendingTasks w)" and f: "finished (psi_heap w a)"
  shows "a \<notin> snd ` set (psi_pendingTasks (fst (psi_step (th, Worker) w))) \<and> answered a (snd (psi_step (th, Worker) w)) = 1"
proof -
  let ?l = "notify_loop th (psi_pendingTasks w) {} w"
  have table: "psi_pendingTasks (fst (psi_executeWorker th w)) = psi_pendingTasks (fst (snd ?l))"
    by (simp add: psi_executeWorker_def checkAndNotifyTaskResult_def split_beta Let_def split: list.splits)
  have d: "distinct (map snd (psi_pendingTasks w))" using wf by (simp add: psi_wf_def)
  have "t' = t" if "(t', a) \<in> set (psi_pendingTasks (fst (snd ?l)))" for t'
    using pending_addr_unique [OF wf _ ta] notify_loop_shrinks [of th "psi_pendingTasks w" "{}" w] that by blast
  with notify_loop_erases [OF ta d f, of th "{}"]
  have out: "a \<notin> snd ` set (psi_pendingTasks (fst (psi_executeWorker th w)))" unfolding table by fastforce
  have "a \<in> snd ` set (psi_pendingTasks w)" using ta by force
  moreover have "is_pending (fst (psi_executeWorker th w)) a + answered a (snd (psi_executeWorker th w)) = is_pending w a"
    using settles_executeWorker [OF wf, of th] by (simp add: settles_def)
  ultimately show ?thesis using out by (simp add: is_pending_def)
qed

section \<open>The exchange of task lists\<close>

lemma cancel_all_pending:
  "psi_pendingTasks (fst (cancel_all throws e ts w)) = filter (\<lambda>p. fst p \<notin> set ts) (psi_pendingTasks w)"
  by (induction ts arbitrary: w) (auto simp: split_beta cancelTask_pending erase_pending_def intro: filter_cong)

lemma set_smap_put: "smap_ok m \<Longrightarrow> set (smap_put k v m) = insert (k, v) {p \<in> set m. fst p \<noteq> k}"
proof (induction k v m rule: smap_put.induct)
  case (2 k v a b m)
  then have "smap_ok m" "\<forall>p \<in> set m. a < fst p" by (auto simp: smap_ok_def)
  with 2 show ?case by (auto 0 3)
qed simp

text \<open>
  The periodic exchange of task lists cancels exactly the tasks it should. When a node of a peer
  announces its task list, the tasks that leave the table are those with this peer that are older than
  the expiry time and that neither this list nor the last list of any other node of the peer names; every
  other task stays, in its place.
\<close>

theorem task_list_cancels:
  assumes "psi_wf w" and "smap_ok (getPeerTasks (pm_from m) w)"
  shows "psi_pendingTasks (fst (handleTaskSyncInfo throws pendingTime m w)) =
    filter (\<lambda>(t, a). \<not> (ts_peerID (psi_heap w a) = pm_from m \<and> psi_taskExpireTime w < pendingTime a \<and>
        t \<notin> set (pm_taskList m) \<and>
        (\<forall>(node, tasks) \<in> set (getPeerTasks (pm_from m) w). node \<noteq> pm_partyID m \<longrightarrow> t \<notin> tasks)))
      (psi_pendingTasks w)"
proof -
  let ?w = "updatePeerTasks (pm_from m) (pm_partyID m) (set (pm_taskList m)) w"
  have known: "(\<exists>ts \<in> snd ` set (getPeerTasks (pm_from m) ?w). t \<in> ts) \<longleftrightarrow>
      t \<in> set (pm_taskList m) \<or> (\<exists>(node, tasks) \<in> set (getPeerTasks (pm_from m) w). node \<noteq> pm_partyID m \<and> t \<in> tasks)" for t
    using set_smap_put [OF assms(2), of "pm_partyID m" "set (pm_taskList m)"]
    by (auto simp: updatePeerTasks_def getPeerTasks_def map_of_smap_put Let_def split: option.splits)
  have exp: "t \<in> set (expired_tasks pendingTime (pm_from m) ?w) \<longleftrightarrow>
      ts_peerID (psi_heap w a) = pm_from m \<and> psi_taskExpireTime w < pendingTime a"
    if "(t, a) \<in> set (psi_pendingTasks w)" for t a
  proof -
    have one: "b = a" if "(t, b) \<in> set (psi_pendingTasks w)" for b
      using that \<open>(t, a) \<in> _\<close> assms(1) eq_key_imp_eq_value unfolding psi_wf_def by fast
    have e: "psi_taskExpireTime ?w = psi_taskExpireTime w" by (simp add: updatePeerTasks_def Let_def)
    have "t \<in> set (expired_tasks pendingTime (pm_from m) ?w) \<longleftrightarrow>
        (\<exists>b. (t, b) \<in> set (psi_pendingTasks w) \<and> ts_peerID (psi_heap w b) = pm_from m \<and> \<not> pendingTime b \<le> psi_taskExpireTime w)"
      unfolding expired_tasks_def psi_simps e by force
    also have "\<dots> \<longleftrightarrow> ts_peerID (psi_heap w a) = pm_from m \<and> \<not> pendingTime a \<le> psi_taskExpireTime w"
      using one that by blast
    finally show ?thesis by (simp only: not_le)
  qed
  show ?thesis
    unfolding handleTaskSyncInfo_def Let_def cancel_all_pending psi_simps
  proof (rule filter_cong [OF refl], clarify)
    fix t a assume m: "(t, a) \<in> set (psi_pendingTasks w)"
    let ?other = "\<exists>(node, tasks) \<in> set (getPeerTasks (pm_from m) w). node \<noteq> pm_partyID m \<and> t \<in> tasks"
    have "(\<forall>(node, tasks) \<in> set (getPeerTasks (pm_from m) w). node \<noteq> pm_partyID m \<longrightarrow> t \<notin> tasks) \<longleftrightarrow> \<not> ?other" by blast
    with exp [OF m] known [of t]
    show "(fst (t, a) \<notin> set (filter (\<lambda>t. \<not> (\<exists>ts \<in> snd ` set (getPeerTasks (pm_from m) ?w). t \<in> ts))
        (expired_tasks pendingTime (pm_from m) ?w))) =
      (\<not> (ts_peerID (psi_heap w a) = pm_from m \<and> psi_taskExpireTime w < pendingTime a \<and> t \<notin> set (pm_taskList m) \<and>
        (\<forall>(node, tasks) \<in> set (getPeerTasks (pm_from m) w). node \<noteq> pm_partyID m \<longrightarrow> t \<notin> tasks)))"
      by (simp only: set_filter mem_Collect_eq fst_conv) blast
  qed
qed

definition sample_psi :: psi where
  "sample_psi = (new_psi ''A'' ''n'' [] 5 (\<lambda>_. (new_TaskState sample_task False True)\<lparr>ts_peerID := ''b''\<rparr>))
     \<lparr>psi_next := 1, psi_pendingTasks := [(''t'', 0)], psi_processingDataResource := {''a''}\<rparr>"

lemma sample_psi_wf: "psi_wf sample_psi"
  by (simp add: sample_psi_def psi_wf_def new_psi_def task_at_def new_TaskState_def sample_task_def)

theorem task_list_cancels_witness:
  "psi_pendingTasks (fst (handleTaskSyncInfo (\<lambda>_. False) (\<lambda>_. 6)
     ((createPSIMessage TaskSyncMsg)\<lparr>pm_from := ''b'', pm_taskList := [''u'']\<rparr>) sample_psi)) = []"
proof -
  have "smap_ok (getPeerTasks (pm_from ((createPSIMessage TaskSyncMsg)\<lparr>pm_from := ''b'', pm_taskList := [''u'']\<rparr>)) sample_psi)"
    by (simp add: getPeerTasks_def sample_psi_def new_psi_def)
  from task_list_cancels [OF sample_psi_wf this] show ?thesis
    by (simp add: createPSIMessage_def sample_psi_def new_psi_def getPeerTasks_def new_TaskState_def)
qed

section \<open>Locked resources\<close>

text \<open>
  A task refused because its data resource is in use takes the lock away from the task that uses
  it. The refusal cancels the new task, and cancelling a task unlocks its resource, which here another
  task holds: afterwards that task is still pending and its resource is unlocked, so the next task for
  the same resource is let in beside it.
\<close>

theorem refused_task_unlocks:
  fixes throws :: "ts_act \<Rightarrow> bool" and task :: Task and onlySelf config :: bool and w :: "'a psi_scheme"
  assumes "psi_getTaskByID (tk_id task) w = None" and "self_resource task = Some r"
    and "dr_resourceID r \<in> psi_processingDataResource w"
  defines "r' \<equiv> submit throws task onlySelf config True w"
  shows "TaskOut (psi_next w) (Answer \<lparr>tr_taskID = tk_id task, tr_error = Some PSIRetCode_DataResourceOccupied,
      tr_status = NoStatus\<rparr>) \<in> set (snd r') \<and>
    psi_pendingTasks (fst r') = psi_pendingTasks w \<and> dr_resourceID r \<notin> psi_processingDataResource (fst r')"
  using assms(1-3)
  by (simp add: r'_def submit_def createTaskState_def lockResourceAndRecordTaskState_def new_TaskState_def
      cancelTask_def psi_getTaskByID_def set_task_def removePendingTask_def removeLockingResource_def
      erase_pending_def erase_pending_absent [unfolded erase_pending_def] self_resource_def split_beta Let_def)

theorem refused_task_unlocks_witness:
  "psi_processingDataResource sample_psi = {''a''} \<and>
   ''a'' \<notin> psi_processingDataResource (fst (submit (\<lambda>_. False) (sample_task\<lparr>tk_id := ''v''\<rparr>) False False True sample_psi))"
proof -
  have "psi_getTaskByID (tk_id (sample_task\<lparr>tk_id := ''v''\<rparr>)) sample_psi = None"
    by (simp add: psi_getTaskByID_def sample_psi_def)
  moreover have "self_resource (sample_task\<lparr>tk_id := ''v''\<rparr>) =
      Some \<lparr>dr_resourceID = ''a'', dr_desc = Some ''in'', dr_outputDesc = Some ''out'', dr_rawData = []\<rparr>"
    by (simp add: self_resource_def sample_task_def sample_party_def)
  moreover have "psi_processingDataResource sample_psi = {''a''}" by (simp add: sample_psi_def)
  ultimately show ?thesis using refused_task_unlocks [of "sample_task\<lparr>tk_id := ''v''\<rparr>" sample_psi] by simp
qed

end
