(* ===== verification/EcdhCache.thy ===== *)
theory EcdhCache
  imports PSIFramework
begin

text \<open>
  The caches of the ECDH-PSI client (wedpr-computing/ppc-psi/src/ecdh-psi/EcdhCache.h and .cpp): the
  server's doubly encrypted data of a task (\<open>ServerCipherDataCache\<close>), one batch of the client's own data
  (\<open>DataCache\<close>) and the table of both (\<open>EcdhCache\<close>).

  The objects are shared between the table, the task state and jobs waiting in the thread pool, so they
  live in two heaps of the state \<open>ecdh\<close>, which extends the framework's. A job that the table enqueues is
  the address of its \<open>DataCache\<close>. Handlers and jobs run one at a time and in any order.

  Shown: the capacity counter is the sum of the capacities of the cached batches; every operation on the
  table keeps this.
\<close>

datatype CacheState = Evaluating | Finalizing | Finalized | IntersectionProgressing | Intersectioned
  | StoreProgressing | Stored | Syncing | Synced

type_synonym daddr = nat
type_synonym saddr = nat

record ServerCipherDataCache =
  sc_loadFinished :: bool
  sc_cipherData :: "bytes set"
  sc_seqList :: "u32 set"
  sc_batchCount :: int

record DataCache =
  dc_taskID :: bytes
  dc_seq :: u32
  dc_taskState :: taddr
  dc_state :: CacheState
  dc_capacity :: u64
  dc_server :: "saddr option"
  dc_plainData :: "bytes list"
  dc_clientCipherData :: "bytes list"
  dc_intersectionData :: "bytes list"

record CryptoBox =
  cb_hash :: "bytes \<Rightarrow> bytes"
  cb_hashToCurve :: "bytes \<Rightarrow> bytes"
  cb_ecMultiply :: "bytes \<Rightarrow> bytes \<Rightarrow> bytes"

record ECDHCrypto =
  ek_privateKey :: bytes
  ek_cryptoBox :: CryptoBox

record ecdh = psi +
  ec_server :: "saddr \<Rightarrow> ServerCipherDataCache"
  ec_nextServer :: saddr
  ec_data :: "daddr \<Rightarrow> DataCache"
  ec_nextData :: daddr
  ec_maxTaskCacheSize :: u64
  ec_capacity :: u64
  ec_taskCache :: "(bytes, (u32, daddr) smap) smap"
  ec_serverDataStore :: "(bytes, saddr) smap"
  ec_jobs :: "daddr list"
  ec_crypto :: "taddr \<Rightarrow> ECDHCrypto option"
  ec_reader :: "taddr \<Rightarrow> bytes list list"

section \<open>The server's data\<close>

definition new_ServerCipherDataCache :: ServerCipherDataCache where
  "new_ServerCipherDataCache = \<lparr>sc_loadFinished = False, sc_cipherData = {}, sc_seqList = {}, sc_batchCount = -1\<rparr>"

definition setServerDataBatchCount :: "int \<Rightarrow> ServerCipherDataCache \<Rightarrow> ServerCipherDataCache" where
  "setServerDataBatchCount n c =
     (let c1 = c\<lparr>sc_batchCount := n\<rparr>
      in if int (card (sc_seqList c1)) = sc_batchCount c1 then c1\<lparr>sc_loadFinished := True\<rparr> else c1)"

definition appendServerCipherData :: "u32 \<Rightarrow> bytes list \<Rightarrow> ServerCipherDataCache \<Rightarrow> ServerCipherDataCache" where
  "appendServerCipherData seq cipherData c =
     (if seq \<in> sc_seqList c then c
      else
        let c1 = c\<lparr>sc_cipherData := sc_cipherData c \<union> set cipherData, sc_seqList := insert seq (sc_seqList c)\<rparr>
        in if int (card (sc_seqList c1)) = sc_batchCount c1 then c1\<lparr>sc_loadFinished := True\<rparr> else c1)"

section \<open>One batch of the client\<close>

definition batch_bytes :: "bytes list \<Rightarrow> u64" where
  "batch_bytes batch = of_nat (sum_list (map length batch))"

definition new_DataCache :: "bytes \<Rightarrow> u32 \<Rightarrow> taddr \<Rightarrow> saddr option \<Rightarrow> bytes list \<Rightarrow> DataCache" where
  "new_DataCache taskID seq a server plain =
     \<lparr>dc_taskID = taskID, dc_seq = seq, dc_taskState = a, dc_state = Evaluating,
      dc_capacity = batch_bytes plain + of_nat (length plain) * 32, dc_server = server, dc_plainData = plain,
      dc_clientCipherData = [], dc_intersectionData = []\<rparr>"

definition setClientCipherData :: "bytes list \<Rightarrow> DataCache \<Rightarrow> DataCache" where
  "setClientCipherData cipherData d =
     (if dc_state d \<noteq> Evaluating then d else d\<lparr>dc_state := Finalized, dc_clientCipherData := cipherData\<rparr>)"

text \<open>
  The loop of \<open>tryToIntersectionAndStoreResult\<close>; \<open>getBytes\<close> throws at an offset past the client's own
  data, after the entries before it were appended.
\<close>

fun intersect_loop :: "bytes set \<Rightarrow> bytes list \<Rightarrow> bytes list \<Rightarrow> nat \<Rightarrow> bytes list \<Rightarrow> bytes list \<times> bool" where
  "intersect_loop server [] plain offset acc = (acc, False)"
| "intersect_loop server (c # cs) plain offset acc =
     (if c \<in> server
      then if offset < length plain then intersect_loop server cs plain (offset + 1) (acc @ [plain ! offset]) else (acc, True)
      else intersect_loop server cs plain (offset + 1) acc)"

section \<open>The table\<close>

definition set_data :: "daddr \<Rightarrow> DataCache \<Rightarrow> 'a ecdh_scheme \<Rightarrow> 'a ecdh_scheme" where
  "set_data d c w = w\<lparr>ec_data := (ec_data w)(d := c)\<rparr>"

definition set_server :: "saddr \<Rightarrow> ServerCipherDataCache \<Rightarrow> 'a ecdh_scheme \<Rightarrow> 'a ecdh_scheme" where
  "set_server s c w = w\<lparr>ec_server := (ec_server w)(s := c)\<rparr>"

definition getServerCipherDataCache :: "bytes \<Rightarrow> 'a ecdh_scheme \<Rightarrow> saddr option" where
  "getServerCipherDataCache task w = map_of (ec_serverDataStore w) task"

definition insertServerCipherCache :: "bytes \<Rightarrow> 'a ecdh_scheme \<Rightarrow> saddr \<times> 'a ecdh_scheme" where
  "insertServerCipherCache task w =
     (case map_of (ec_serverDataStore w) task of
        Some s \<Rightarrow> (s, w)
      | None \<Rightarrow>
          let s = ec_nextServer w
          in (s, set_server s new_ServerCipherDataCache
                   (w\<lparr>ec_nextServer := s + 1, ec_serverDataStore := smap_put task s (ec_serverDataStore w)\<rparr>)))"

definition sub_tasks :: "bytes \<Rightarrow> 'a ecdh_scheme \<Rightarrow> (u32, daddr) smap" where
  "sub_tasks task w = (case map_of (ec_taskCache w) task of Some m \<Rightarrow> m | None \<Rightarrow> [])"

definition getSubTaskCache :: "bytes \<Rightarrow> u32 \<Rightarrow> 'a ecdh_scheme \<Rightarrow> daddr option" where
  "getSubTaskCache task seq w = map_of (sub_tasks task w) seq"

definition insertSubTaskCache ::
  "bytes \<Rightarrow> u32 \<Rightarrow> taddr \<Rightarrow> saddr option \<Rightarrow> bytes list \<Rightarrow> 'a ecdh_scheme \<Rightarrow> daddr \<times> 'a ecdh_scheme" where
  "insertSubTaskCache task seq a server plain w =
     (let subs = sub_tasks task w in
      case map_of subs seq of
        Some d \<Rightarrow> (d, w\<lparr>ec_taskCache := smap_put task subs (ec_taskCache w)\<rparr>)
      | None \<Rightarrow>
          let d = ec_nextData w; c = new_DataCache task seq a server plain
          in (d, set_data d c (w\<lparr>ec_nextData := d + 1, ec_capacity := ec_capacity w + dc_capacity c,
                                 ec_taskCache := smap_put task (smap_put seq d subs) (ec_taskCache w)\<rparr>)))"

definition ec_isFull :: "'a ecdh_scheme \<Rightarrow> bool" where
  "ec_isFull w \<longleftrightarrow> ec_capacity w \<ge> ec_maxTaskCacheSize w"

definition release_capacity :: "u64 \<Rightarrow> u64 \<Rightarrow> u64" where
  "release_capacity cap c = (if cap \<ge> c then cap - c else 0)"

text \<open>
  The scan \<open>EcdhCache::tryToIntersectionAndStoreResult\<close>: a synced batch is dropped and its capacity
  released, a finalized one is enqueued, a task without batches is dropped.
\<close>

fun scan_task :: "(daddr \<Rightarrow> DataCache) \<Rightarrow> (u32, daddr) smap \<Rightarrow> u64 \<Rightarrow> (u32, daddr) smap \<times> u64 \<times> daddr list" where
  "scan_task h [] cap = ([], cap, [])"
| "scan_task h ((seq, d) # m) cap =
     (if dc_state (h d) = Synced then scan_task h m (release_capacity cap (dc_capacity (h d)))
      else let (m', cap', jobs) = scan_task h m cap
           in ((seq, d) # m', cap', (if dc_state (h d) = Finalized then d # jobs else jobs)))"

fun scan_tasks ::
  "(daddr \<Rightarrow> DataCache) \<Rightarrow> (bytes, (u32, daddr) smap) smap \<Rightarrow> u64 \<Rightarrow> (bytes, (u32, daddr) smap) smap \<times> u64 \<times> daddr list" where
  "scan_tasks h [] cap = ([], cap, [])"
| "scan_tasks h ((task, m) # ts) cap =
     (let (m', cap1, jobs1) = scan_task h m cap; (ts', cap2, jobs2) = scan_tasks h ts cap1
      in (if m' = [] then ts' else (task, m') # ts', cap2, jobs1 @ jobs2))"

definition ec_scan :: "'a ecdh_scheme \<Rightarrow> 'a ecdh_scheme" where
  "ec_scan w =
     (let (ts, cap, jobs) = scan_tasks (ec_data w) (ec_taskCache w) (ec_capacity w)
      in w\<lparr>ec_capacity := cap, ec_taskCache := ts, ec_jobs := ec_jobs w @ jobs\<rparr>)"

definition eraseTaskCache :: "bytes \<Rightarrow> 'a ecdh_scheme \<Rightarrow> 'a ecdh_scheme" where
  "eraseTaskCache task w =
     (case map_of (ec_taskCache w) task of
        None \<Rightarrow> w
      | Some subs \<Rightarrow>
          w\<lparr>ec_capacity := fold (\<lambda>(seq, d) cap. release_capacity cap (dc_capacity (ec_data w d))) subs (ec_capacity w),
            ec_taskCache := smap_erase task (ec_taskCache w)\<rparr>)"

definition eraseCache :: "bytes \<Rightarrow> 'a ecdh_scheme \<Rightarrow> 'a ecdh_scheme" where
  "eraseCache task w =
     (let w1 = eraseTaskCache task w
      in w1\<lparr>ec_serverDataStore := smap_erase task (ec_serverDataStore w1)\<rparr>)"

text \<open>
  The finalize handler \<open>asyncRunTask\<close> registers erases the caches of the task; it runs wherever the
  framework's outputs say so. (It also withdraws the task at the front, which is not a state of this
  component.)
\<close>

fun finalize_caches :: "psi_out list \<Rightarrow> 'a ecdh_scheme \<Rightarrow> 'a ecdh_scheme" where
  "finalize_caches [] w = w"
| "finalize_caches (TaskOut a (Did Finalize) # outs) w = finalize_caches outs (eraseCache (tk_id (task_at w a)) w)"
| "finalize_caches (x # outs) w = finalize_caches outs w"

definition finalizing :: "'a ecdh_scheme \<times> psi_out list \<Rightarrow> 'a ecdh_scheme \<times> psi_out list" where
  "finalizing r = (finalize_caches (snd r) (fst r), snd r)"

section \<open>Intersecting and storing a batch\<close>

text \<open>
  \<open>eraseFinishedTaskSeq\<close> on the client: when the task state calls its sub-task handler, the handler
  scans the table.
\<close>

definition finish_sub_task :: "u32 \<Rightarrow> bool \<Rightarrow> taddr \<Rightarrow> 'a ecdh_scheme \<Rightarrow> 'a ecdh_scheme \<times> psi_out list" where
  "finish_sub_task seq success a w =
     (let (s, outs) = eraseFinishedTaskSeq (\<lambda>_. False) seq success (psi_heap w a);
          w1 = set_task a s w
      in (if Did SubTaskFinished \<in> set outs then ec_scan w1 else w1, map (TaskOut a) outs))"

definition dc_exception :: "taddr \<Rightarrow> 'a ecdh_scheme \<Rightarrow> 'a ecdh_scheme \<times> psi_out list" where
  "dc_exception a w =
     (let (s, outs) = onTaskException (psi_heap w a) in finalizing (set_task a s w, map (TaskOut a) outs))"

definition dc_syncPSIResult :: "daddr \<Rightarrow> 'a ecdh_scheme \<Rightarrow> 'a ecdh_scheme \<times> psi_out list" where
  "dc_syncPSIResult d w =
     (let c = ec_data w d; s = psi_heap w (dc_taskState c)
      in (set_data d (c\<lparr>dc_intersectionData := []\<rparr>) w,
          [generateAndSendPPCMessage (ts_peerID s) (tk_id (ts_task s))
             ((createPSIMessage PSIResultSyncMsg)\<lparr>pm_data := dc_intersectionData c\<rparr>) (dc_seq c) w]))"

text \<open>
  The response to the synchronised result, when the batch still exists; with an error there is no
  message, and the handler reads its sequence number for the log before anything else.
\<close>

definition dc_syncPSIResult_response :: "bool \<Rightarrow> daddr \<Rightarrow> 'a ecdh_scheme \<Rightarrow> 'a ecdh_scheme \<times> psi_out list" where
  "dc_syncPSIResult_response failed d w =
     (if failed then (w, [NullDereference])
      else let c = ec_data w d
           in finish_sub_task (dc_seq c) True (dc_taskState c) (set_data d (c\<lparr>dc_state := Synced\<rparr>) w))"

definition dc_storePSIResult :: "(ts_act \<Rightarrow> bool) \<Rightarrow> daddr \<Rightarrow> 'a ecdh_scheme \<Rightarrow> 'a ecdh_scheme \<times> psi_out list" where
  "dc_storePSIResult throws d w =
     (let c = ec_data w d; a = dc_taskState c in
      if dc_state c \<noteq> Intersectioned then (w, [])
      else
        let w1 = set_data d (c\<lparr>dc_state := Stored\<rparr>) w;
            (s, did, threw) = ts_storePSIResult throws (dc_intersectionData c) (psi_heap w1 a);
            w2 = set_task a s w1;
            outs = map (TaskOut a \<circ> Did) did
        in if threw then let (w3, outs') = dc_exception a w2 in (w3, outs @ outs')
           else if tk_syncResultToPeer (ts_task s)
           then let (w3, outs') = dc_syncPSIResult d w2 in (w3, outs @ outs')
           else let (w3, outs') = finish_sub_task (dc_seq c) True a w2
                in (set_data d ((ec_data w3 d)\<lparr>dc_state := Synced\<rparr>) w3, outs @ outs'))"

definition dc_tryToIntersectionAndStoreResult ::
  "(ts_act \<Rightarrow> bool) \<Rightarrow> daddr \<Rightarrow> 'a ecdh_scheme \<Rightarrow> 'a ecdh_scheme \<times> psi_out list" where
  "dc_tryToIntersectionAndStoreResult throws d w =
     (let c = ec_data w d in
      if dc_state c \<noteq> Finalized then (w, [])
      else case dc_server c of
        None \<Rightarrow> (w, [NullDereference])
      | Some sv \<Rightarrow>
          if \<not> sc_loadFinished (ec_server w sv) then (w, [])
          else
            let (inter, threw) = intersect_loop (sc_cipherData (ec_server w sv)) (dc_clientCipherData c) (dc_plainData c)
                                   0 (dc_intersectionData c)
            in if threw
               then dc_exception (dc_taskState c)
                      (set_data d (c\<lparr>dc_state := IntersectionProgressing, dc_intersectionData := inter\<rparr>) w)
               else dc_storePSIResult throws d
                      (set_data d (c\<lparr>dc_state := Intersectioned, dc_intersectionData := inter\<rparr>) w))"

text \<open>The pool runs the \<open>i\<close>-th waiting job; the order of the pool is not fixed.\<close>

definition run_job :: "(ts_act \<Rightarrow> bool) \<Rightarrow> nat \<Rightarrow> 'a ecdh_scheme \<Rightarrow> 'a ecdh_scheme \<times> psi_out list" where
  "run_job throws i w =
     (if i < length (ec_jobs w)
      then dc_tryToIntersectionAndStoreResult throws (ec_jobs w ! i)
             (w\<lparr>ec_jobs := take i (ec_jobs w) @ drop (i + 1) (ec_jobs w)\<rparr>)
      else (w, []))"

lemma ecdh_frame [simp]:
  "ec_server (set_task a s w) = ec_server w" "ec_nextServer (set_task a s w) = ec_nextServer w"
  "ec_data (set_task a s w) = ec_data w" "ec_nextData (set_task a s w) = ec_nextData w"
  "ec_maxTaskCacheSize (set_task a s w) = ec_maxTaskCacheSize w" "ec_capacity (set_task a s w) = ec_capacity w"
  "ec_taskCache (set_task a s w) = ec_taskCache w" "ec_serverDataStore (set_task a s w) = ec_serverDataStore w"
  "ec_jobs (set_task a s w) = ec_jobs w" "ec_crypto (set_task a s w) = ec_crypto w" "ec_reader (set_task a s w) = ec_reader w"
  "psi_started (set_task a s w) = psi_started w"
  by (simp_all add: set_task_def)

section \<open>The capacity counter\<close>

definition total :: "('v \<Rightarrow> nat) \<Rightarrow> ('k \<times> 'v) list \<Rightarrow> nat" where
  "total g m = sum_list (map (g \<circ> snd) m)"

lemma total_simps [simp]: "total g [] = 0" "total g (x # m) = g (snd x) + total g m"
  by (simp_all add: total_def)

lemma total_put_new: "map_of m k = None \<Longrightarrow> total g (smap_put k v m) = g v + total g m"
  by (induction k v m rule: smap_put.induct) (auto split: if_splits)

lemma total_put_old: "smap_ok m \<Longrightarrow> map_of m k = Some u \<Longrightarrow> total g (smap_put k v m) + g u = g v + total g m"
proof (induction k v m rule: smap_put.induct)
  case (2 k v a b m)
  have "smap_ok m" and "\<forall>x \<in> fst ` set m. a < x" using 2(2) by (simp_all add: smap_ok_def)
  moreover from this have "\<not> a < k \<Longrightarrow> k \<noteq> a \<Longrightarrow> map_of m k = None" by (auto simp: map_of_eq_None_iff)
  ultimately show ?case using 2 by (auto split: if_splits)
qed simp

lemma total_erase: "smap_ok m \<Longrightarrow> map_of m k = Some u \<Longrightarrow> total g (smap_erase k m) + g u = total g m"
proof (induction m)
  case (Cons x m)
  have ok: "smap_ok m" and less: "\<forall>y \<in> set m. fst x < fst y" using Cons.prems(1) by (auto simp: smap_ok_def)
  show ?case
  proof (cases "fst x = k")
    case True
    then have "smap_erase k m = m" using less by (auto simp: smap_erase_def filter_id_conv)
    then show ?thesis using True Cons.prems(2) by (cases x) (simp add: smap_erase_def)
  next
    case False
    then show ?thesis using Cons.IH [OF ok] Cons.prems(2) by (cases x) (simp add: smap_erase_def)
  qed
qed simp

text \<open>The bytes a table of batches stands for, and that the counter is their sum, without wrap-around.\<close>

definition cache_bytes :: "(daddr \<Rightarrow> DataCache) \<Rightarrow> (u32, daddr) smap \<Rightarrow> nat" where
  "cache_bytes h m = total (\<lambda>d. unat (dc_capacity (h d))) m"

lemma cache_bytes_Nil [simp]: "cache_bytes h [] = 0"
  by (simp add: cache_bytes_def)

lemma set_smap_put_subset: "set (smap_put k v m) \<subseteq> insert (k, v) (set m)"
  by (induction k v m rule: smap_put.induct) auto

definition cap_inv :: "'a ecdh_scheme \<Rightarrow> bool" where
  "cap_inv w \<longleftrightarrow> smap_ok (ec_taskCache w) \<and> unat (ec_capacity w) = total (cache_bytes (ec_data w)) (ec_taskCache w) \<and>
     (\<forall>(t, m) \<in> set (ec_taskCache w). \<forall>(q, d) \<in> set m. d < ec_nextData w)"

lemma release_bytes: "unat c \<le> n \<Longrightarrow> unat cap = n \<Longrightarrow> unat (release_capacity cap c) + unat c = n"
  by (simp add: release_capacity_def word_le_nat_alt unat_sub)

lemma scan_task_bytes:
  "unat cap = cache_bytes h m + n \<Longrightarrow>
   unat (fst (snd (scan_task h m cap))) = cache_bytes h (fst (scan_task h m cap)) + n"
proof (induction h m cap arbitrary: n rule: scan_task.induct)
  case (2 h q d m cap)
  show ?case
  proof (cases "dc_state (h d) = Synced")
    case True
    have "unat (release_capacity cap (dc_capacity (h d))) = cache_bytes h m + n"
      using release_bytes [of "dc_capacity (h d)" _ cap] "2.prems" by (simp add: cache_bytes_def)
    then show ?thesis using 2(1) True by simp
  next
    case False
    then show ?thesis using 2(2) [of "unat (dc_capacity (h d)) + n"] "2.prems"
      by (simp add: cache_bytes_def split_beta)
  qed
qed simp

lemma scan_tasks_bytes:
  "unat cap = total (cache_bytes h) ts + n \<Longrightarrow>
   unat (fst (snd (scan_tasks h ts cap))) = total (cache_bytes h) (fst (scan_tasks h ts cap)) + n"
proof (induction ts arbitrary: cap n)
  case (Cons x ts)
  let ?r = "scan_task h (snd x) cap"
  have "unat (fst (snd ?r)) = cache_bytes h (fst ?r) + (total (cache_bytes h) ts + n)"
    using Cons.prems by (intro scan_task_bytes) simp
  then have "unat (fst (snd (scan_tasks h ts (fst (snd ?r))))) =
      total (cache_bytes h) (fst (scan_tasks h ts (fst (snd ?r)))) + (cache_bytes h (fst ?r) + n)"
    by (intro Cons.IH) simp
  then show ?case by (cases x) (simp add: split_beta Let_def)
qed simp

lemma erase_bytes:
  "unat cap = cache_bytes h m + n \<Longrightarrow>
   unat (fold (\<lambda>(q, d) cap. release_capacity cap (dc_capacity (h d))) m cap) = n"
proof (induction m arbitrary: cap)
  case (Cons x m)
  have "unat (release_capacity cap (dc_capacity (h (snd x)))) = cache_bytes h m + n"
    using release_bytes [of "dc_capacity (h (snd x))" _ cap] Cons.prems by (simp add: cache_bytes_def)
  then show ?case using Cons.IH by (cases x) simp
qed (simp add: cache_bytes_def)

lemma scan_tasks_keys:
  "(t, m') \<in> set (fst (scan_tasks h ts cap)) \<Longrightarrow> \<exists>m. (t, m) \<in> set ts \<and> set m' \<subseteq> set m"
proof (induction ts arbitrary: cap)
  case (Cons x ts)
  have "set (fst (scan_task h m c)) \<subseteq> set m" for m c by (induction h m c rule: scan_task.induct) (auto simp: split_beta)
  then show ?case using Cons.IH [of "fst (snd (scan_task h (snd x) cap))"] Cons.prems
    by (cases x) (auto simp: split_beta Let_def split: if_splits)
qed simp

lemma smap_ok_scan_tasks: "smap_ok ts \<Longrightarrow> smap_ok (fst (scan_tasks h ts cap))"
proof (induction ts arbitrary: cap)
  case (Cons x ts)
  then have ok: "smap_ok ts" and less: "\<forall>y \<in> set ts. fst x < fst y" by (auto simp: smap_ok_def)
  have "\<forall>y \<in> set (fst (scan_tasks h ts c)). fst x < fst y" for c
  proof
    fix y assume "y \<in> set (fst (scan_tasks h ts c))"
    then obtain m where "(fst y, m) \<in> set ts" using scan_tasks_keys [of "fst y" "snd y" h ts c] by auto
    with less show "fst x < fst y" by auto
  qed
  with Cons.IH [OF ok] show ?case by (cases x) (simp add: split_beta Let_def smap_ok_def)
qed simp

lemma cap_inv_scan:
  assumes "cap_inv w"
  shows "cap_inv (ec_scan w)"
proof -
  let ?r = "scan_tasks (ec_data w) (ec_taskCache w) (ec_capacity w)"
  have "smap_ok (fst ?r)" using assms by (simp add: cap_inv_def smap_ok_scan_tasks)
  moreover have "unat (fst (snd ?r)) = total (cache_bytes (ec_data w)) (fst ?r)"
    using scan_tasks_bytes [of "ec_capacity w" "ec_data w" "ec_taskCache w" 0] assms by (simp add: cap_inv_def)
  moreover have "d < ec_nextData w" if "(t, m') \<in> set (fst ?r)" "(q, d) \<in> set m'" for t m' q d
    using scan_tasks_keys [OF that(1)] that(2) assms unfolding cap_inv_def by blast
  ultimately show ?thesis by (auto simp: cap_inv_def ec_scan_def split_beta Let_def)
qed

lemma cap_inv_erase:
  assumes "cap_inv w"
  shows "cap_inv (eraseCache t w)"
proof (cases "map_of (ec_taskCache w) t")
  case None
  with assms show ?thesis by (simp add: eraseCache_def eraseTaskCache_def cap_inv_def Let_def)
next
  case (Some m)
  have "unat (ec_capacity w) = cache_bytes (ec_data w) m + total (cache_bytes (ec_data w)) (smap_erase t (ec_taskCache w))"
    using total_erase [OF _ Some, of "cache_bytes (ec_data w)"] assms by (simp add: cap_inv_def)
  from erase_bytes [OF this] assms Some show ?thesis
    by (simp add: eraseCache_def eraseTaskCache_def cap_inv_def smap_ok_erase Let_def)
       (auto simp: smap_erase_def)
qed

lemma cap_inv_insert:
  assumes "cap_inv w" and "unat (ec_capacity w) + unat (dc_capacity (new_DataCache t q a sv p)) < 2 ^ 64"
  shows "cap_inv (snd (insertSubTaskCache t q a sv p w))"
proof -
  let ?c = "new_DataCache t q a sv p" and ?d = "ec_nextData w" and ?m = "sub_tasks t w"
  let ?h = "(ec_data w)(?d := ?c)"
  have sum: "unat (ec_capacity w + dc_capacity ?c) = unat (ec_capacity w) + unat (dc_capacity ?c)"
    using assms(2) by (simp add: unat_word_ariths)
  have low: "\<forall>(q, d) \<in> set ?m. d < ?d"
  proof (cases "map_of (ec_taskCache w) t")
    case (Some m)
    from map_of_SomeD [OF this] assms(1) have "\<forall>(q, d) \<in> set m. d < ?d" by (auto simp: cap_inv_def)
    with Some show ?thesis by (simp add: sub_tasks_def)
  qed (simp add: sub_tasks_def)
  have same: "cache_bytes ?h m = cache_bytes (ec_data w) m" if "\<forall>(q, d) \<in> set m. d < ?d" for m
    using that by (induction m) (auto simp: cache_bytes_def)
  have tot: "total (cache_bytes ?h) (ec_taskCache w) = total (cache_bytes (ec_data w)) (ec_taskCache w)"
    using assms(1) same unfolding cap_inv_def total_def by (intro arg_cong [where f = sum_list]) auto
  have put: "total g (smap_put t m' (ec_taskCache w)) + g ?m = g m' + total g (ec_taskCache w)" if "g [] = 0" for g m'
    using assms(1) that total_put_new [of "ec_taskCache w" t g m'] total_put_old [of "ec_taskCache w" t _ g m']
    by (auto simp: cap_inv_def sub_tasks_def split: option.splits)
  show ?thesis
  proof (cases "map_of ?m q")
    case (Some d)
    have "total (cache_bytes (ec_data w)) (smap_put t ?m (ec_taskCache w)) = total (cache_bytes (ec_data w)) (ec_taskCache w)"
      using put [of "cache_bytes (ec_data w)" ?m] by (simp add: cache_bytes_def)
    then show ?thesis using assms(1) low Some
      by (auto simp: cap_inv_def insertSubTaskCache_def smap_ok_put Let_def keys_smap_put set_smap_put)
  next
    case None
    have "cache_bytes ?h (smap_put q ?d ?m) = unat (dc_capacity ?c) + cache_bytes ?h ?m"
      using total_put_new [OF None] by (simp add: cache_bytes_def)
    then have "total (cache_bytes ?h) (smap_put t (smap_put q ?d ?m) (ec_taskCache w)) =
        unat (dc_capacity ?c) + total (cache_bytes (ec_data w)) (ec_taskCache w)"
      using put [of "cache_bytes ?h" "smap_put q ?d ?m"] tot by (simp add: cache_bytes_def)
    moreover have "\<forall>(q', d) \<in> set (smap_put q ?d ?m). d < ?d + 1"
      using low set_smap_put_subset [of q ?d ?m] by fastforce
    ultimately show ?thesis using assms(1) low None sum
      by (auto simp: cap_inv_def insertSubTaskCache_def smap_ok_put set_data_def Let_def set_smap_put) (fastforce)+
  qed
qed

end
