(* ===== verification/EcdhPSI.thy ===== *)
theory EcdhPSI
  imports EcdhCache
begin

text \<open>
  The two-party ECDH-PSI protocol (wedpr-computing/ppc-psi/src/ecdh-psi/EcdhPSIImpl.cpp) on the
  framework and its caches, with the batch operations of \<open>ECDHCryptoImpl\<close>
  (wedpr-crypto/ppc-crypto/src/ecc/ECDHCryptoImpl.h).

  Hash function, hash-to-curve and scalar multiplication are library code: they are the fields of
  \<open>CryptoBox\<close>, and the result theorem names what it needs of them. The reader of a task is the list of
  the batches it will still return. A submitted job (\<open>triggerDataBlind\<close>, the message handlers) is the call
  itself.
\<close>

definition EvaluateRequest :: u32 where "EvaluateRequest = 100"
definition EvaluateResponse :: u32 where "EvaluateResponse = 101"
definition ServerBlindedData :: u32 where "ServerBlindedData = 102"
definition SyncDataBatchInfo :: u32 where "SyncDataBatchInfo = 103"

definition PSIRetCode_HandshakeFailed :: int where "PSIRetCode_HandshakeFailed = - 1020"
definition PSIRetCode_HandleTaskError :: int where "PSIRetCode_HandleTaskError = - 1023"
definition PSIRetCode_TaskNotReady :: int where "PSIRetCode_TaskNotReady = - 1024"

definition batchGetPublicKey :: "ECDHCrypto \<Rightarrow> bytes list \<Rightarrow> bytes list" where
  "batchGetPublicKey k input =
     map (\<lambda>x. cb_ecMultiply (ek_cryptoBox k) (cb_hashToCurve (ek_cryptoBox k) (cb_hash (ek_cryptoBox k) x)) (ek_privateKey k)) input"

definition batchGetSharedPublicKey :: "ECDHCrypto \<Rightarrow> bytes list \<Rightarrow> bytes list" where
  "batchGetSharedPublicKey k publicKeys = map (\<lambda>p. cb_ecMultiply (ek_cryptoBox k) p (ek_privateKey k)) publicKeys"

definition ecdh_onTaskError ::
  "(ts_act \<Rightarrow> bool) \<Rightarrow> int \<Rightarrow> bytes \<Rightarrow> bytes \<Rightarrow> bytes \<Rightarrow> 'a ecdh_scheme \<Rightarrow> 'a ecdh_scheme \<times> psi_out list" where
  "ecdh_onTaskError throws e peer task resource w = finalizing (onTaskError throws (Some e) peer task resource w)"

definition is_server :: "Task \<Rightarrow> bool" where
  "is_server task \<longleftrightarrow> pa_partyIndex (tk_selfParty task) = PartyType_Server"

definition needLockResource :: "u16 \<Rightarrow> bool" where
  "needLockResource partyIndex \<longleftrightarrow> partyIndex = PartyType_Client"

section \<open>Blinding\<close>

definition blind_message :: "bool \<Rightarrow> bytes \<Rightarrow> ECDHCrypto \<Rightarrow> bytes list \<Rightarrow> PSIMessage" where
  "blind_message server resource k batch =
     (createPSIMessage (if server then ServerBlindedData else EvaluateRequest))
       \<lparr>pm_resourceID := resource, pm_data := batchGetPublicKey k batch\<rparr>"

definition batch_count_message :: "bytes \<Rightarrow> nat \<Rightarrow> PSIMessage" where
  "batch_count_message resource n =
     (createPSIMessage SyncDataBatchInfo)\<lparr>pm_resourceID := resource, pm_dataBatchCount := of_nat n\<rparr>"

text \<open>
  The loop of \<open>blindData\<close> over the batches still to be read. Its result: the state, the messages, the
  number of batches sent and whether it left because the task is gone.
\<close>

fun blind_loop ::
  "taddr \<Rightarrow> bool \<Rightarrow> bytes \<Rightarrow> saddr option \<Rightarrow> bytes list list \<Rightarrow> nat \<Rightarrow> 'a ecdh_scheme \<Rightarrow>
   'a ecdh_scheme \<times> psi_out list \<times> nat \<times> bool" where
  "blind_loop a server resource sv batches n w =
     (let s = psi_heap w a; task = tk_id (ts_task s) in
      if psi_getTaskByID task w = None then (eraseCache task w, [], n, True)
      else if (\<not> server \<and> ec_isFull w) \<or> ts_finished s then (w, [], n, False)
      else case batches of
        [] \<Rightarrow> (set_task a (s\<lparr>ts_finished := True\<rparr>) w, [], n, False)
      | batch # rest \<Rightarrow>
          let (seq, s1) = allocateSeq s;
              s2 = (if ts_sqlReader s then s1\<lparr>ts_finished := True\<rparr> else s1);
              w1 = (set_task a s2 w)\<lparr>ec_reader := (ec_reader w)(a := rest)\<rparr>
          in case ec_crypto w a of
               None \<Rightarrow> (w1, [NullDereference], n, True)
             | Some k \<Rightarrow>
                 let m = blind_message server resource k batch;
                     w2 = (if server then w1 else snd (insertSubTaskCache task seq a sv batch w1));
                     out = generateAndSendPPCMessage (ts_peerID s) task m seq w
                 in if psi_started w \<and> \<not> ts_sqlReader s
                    then let (w3, outs, n', gone) = blind_loop a server resource sv rest (n + 1) w2
                         in (w3, out # outs, n', gone)
                    else (w2, [out], n + 1, False))"

declare blind_loop.simps [simp del]

definition blindData :: "taddr \<Rightarrow> 'a ecdh_scheme \<Rightarrow> 'a ecdh_scheme \<times> psi_out list" where
  "blindData a w =
     (let s = psi_heap w a; task = ts_task s; server = is_server task;
          resource = (case self_resource task of Some r \<Rightarrow> dr_resourceID r | None \<Rightarrow> []) in
      if \<not> server \<and> ec_isFull w then (w, [])
      else
        let (w1, outs, n, gone) = blind_loop a server resource (getServerCipherDataCache (tk_id task) w) (ec_reader w a) 0 w
        in if gone \<or> \<not> server then (w1, outs)
           else (w1, outs @ [generateAndSendPPCMessage (ts_peerID s) (tk_id task) (batch_count_message resource n) 0 w1]))"

section \<open>Messages\<close>

definition checkAndObtainTaskState ::
  "(ts_act \<Rightarrow> bool) \<Rightarrow> PSIMessage \<Rightarrow> 'a ecdh_scheme \<Rightarrow> (taddr \<times> ECDHCrypto) option \<times> 'a ecdh_scheme \<times> psi_out list" where
  "checkAndObtainTaskState throws m w =
     (case psi_getTaskByID (pm_taskID m) w of
        None \<Rightarrow> (None, ecdh_onTaskError throws PSIRetCode_TaskNotFound (pm_from m) (pm_taskID m) ''emptyDataResource'' w)
      | Some a \<Rightarrow>
          (case ec_crypto w a of
             None \<Rightarrow> (None, ecdh_onTaskError throws PSIRetCode_TaskNotReady (pm_from m) (pm_taskID m) ''emptyDataResource'' w)
           | Some k \<Rightarrow> (Some (a, k), w, [])))"

definition handleEvaluateRequest ::
  "(ts_act \<Rightarrow> bool) \<Rightarrow> PSIMessage \<Rightarrow> 'a ecdh_scheme \<Rightarrow> 'a ecdh_scheme \<times> psi_out list" where
  "handleEvaluateRequest throws m w =
     (case checkAndObtainTaskState throws m w of
        (None, r) \<Rightarrow> r
      | (Some (a, k), _) \<Rightarrow>
          (w, [generateAndSendPPCMessage (pm_from m) (pm_taskID m)
                 ((createPSIMessage EvaluateResponse)\<lparr>pm_data := batchGetSharedPublicKey k (pm_data m)\<rparr>) (pm_seq m) w]))"

definition handleServerBlindData ::
  "(ts_act \<Rightarrow> bool) \<Rightarrow> PSIMessage \<Rightarrow> 'a ecdh_scheme \<Rightarrow> 'a ecdh_scheme \<times> psi_out list" where
  "handleServerBlindData throws m w =
     (case checkAndObtainTaskState throws m w of
        (None, r) \<Rightarrow> r
      | (Some (a, k), _) \<Rightarrow>
          let sharedPk = batchGetSharedPublicKey k (pm_data m);
              (sv, w1) = (case getServerCipherDataCache (pm_taskID m) w of
                            Some sv \<Rightarrow> (sv, w) | None \<Rightarrow> insertServerCipherCache (pm_taskID m) w)
          in (ec_scan (set_server sv (appendServerCipherData (pm_seq m) sharedPk (ec_server w1 sv)) w1), []))"

definition handleEvaluateResponse :: "PSIMessage \<Rightarrow> 'a ecdh_scheme \<Rightarrow> 'a ecdh_scheme \<times> psi_out list" where
  "handleEvaluateResponse m w =
     (case getSubTaskCache (pm_taskID m) (pm_seq m) w of
        None \<Rightarrow> (w, [])
      | Some d \<Rightarrow> (ec_scan (set_data d (setClientCipherData (pm_data m) (ec_data w d)) w), []))"

definition onRecvSyncDataInfoMsg ::
  "(ts_act \<Rightarrow> bool) \<Rightarrow> PSIMessage \<Rightarrow> 'a ecdh_scheme \<Rightarrow> 'a ecdh_scheme \<times> psi_out list" where
  "onRecvSyncDataInfoMsg throws m w =
     (case getServerCipherDataCache (pm_taskID m) w of
        None \<Rightarrow> ecdh_onTaskError throws PSIRetCode_TaskNotFound (pm_from m) (pm_taskID m) (pm_resourceID m) w
      | Some sv \<Rightarrow>
          (ec_scan (set_server sv (setServerDataBatchCount (uint (pm_dataBatchCount m)) (ec_server w sv)) w), []))"

section \<open>The handshake\<close>

definition ECCCurve_SM2 :: int where "ECCCurve_SM2 = 1"
definition HashImplName_SM3 :: int where "HashImplName_SM3 = 2"

fun selectCryptoAlgorithm :: "int list \<Rightarrow> int set \<Rightarrow> int" where
  "selectCryptoAlgorithm [] local_algs = - 1"
| "selectCryptoAlgorithm (a # as) local_algs = (if a \<in> local_algs then a else selectCryptoAlgorithm as local_algs)"

text \<open>The configuration of a node: the algorithms it supports and whether the national ones are preferred.\<close>

record ecdh_config =
  cf_curves :: "int list"
  cf_hashList :: "int list"
  cf_smCrypto :: bool

definition select_curve :: "ecdh_config \<Rightarrow> int list \<Rightarrow> int" where
  "select_curve cf curves =
     (if cf_smCrypto cf \<and> ECCCurve_SM2 \<in> set curves \<and> ECCCurve_SM2 \<in> set (cf_curves cf) then ECCCurve_SM2
      else selectCryptoAlgorithm curves (set (cf_curves cf)))"

definition select_hash :: "ecdh_config \<Rightarrow> int list \<Rightarrow> int" where
  "select_hash cf hashes =
     (if cf_smCrypto cf \<and> HashImplName_SM3 \<in> set hashes \<and> HashImplName_SM3 \<in> set (cf_hashList cf) then HashImplName_SM3
      else selectCryptoAlgorithm hashes (set (cf_hashList cf)))"

definition resource_or :: "bytes \<Rightarrow> Task \<Rightarrow> bytes" where
  "resource_or d task = (case self_resource task of Some r \<Rightarrow> dr_resourceID r | None \<Rightarrow> d)"

text \<open>
  \<open>create\<close> is the crypto factory (it draws a private key). The acknowledgement of the client runs
  \<open>triggerDataBlind\<close> on the server, see \<open>onHandshakeRequest_acked\<close>.
\<close>

definition onHandshakeRequest ::
  "ecdh_config \<Rightarrow> (int \<Rightarrow> int \<Rightarrow> ECDHCrypto) \<Rightarrow> (ts_act \<Rightarrow> bool) \<Rightarrow> PSIMessage \<Rightarrow> 'a ecdh_scheme \<Rightarrow> 'a ecdh_scheme \<times> psi_out list" where
  "onHandshakeRequest cf create throws m w =
     (case psi_getTaskByID (pm_taskID m) w of
        None \<Rightarrow> ecdh_onTaskError throws PSIRetCode_TaskNotFound (pm_from m) (pm_taskID m) ''emptyResource'' w
      | Some a \<Rightarrow>
          let curve = select_curve cf (pm_curves m); hash = select_hash cf (pm_hashList m) in
          if curve \<noteq> - 1 \<and> hash \<noteq> - 1
          then let w1 = w\<lparr>ec_crypto := (ec_crypto w)(a := Some (create curve hash))\<rparr>
               in (w1, [generateAndSendPPCMessage (pm_from m) (pm_taskID m)
                          ((createPSIMessage HandshakeResponse)\<lparr>pm_curve := curve, pm_hashType := hash\<rparr>) 0 w1])
          else ecdh_onTaskError throws PSIRetCode_HandshakeFailed (pm_from m) (pm_taskID m)
                 (resource_or ''emptyResource'' (task_at w a)) w)"

definition onHandshakeRequest_acked :: "(ts_act \<Rightarrow> bool) \<Rightarrow> int \<Rightarrow> PSIMessage \<Rightarrow> taddr \<Rightarrow> 'a ecdh_scheme \<Rightarrow> 'a ecdh_scheme \<times> psi_out list" where
  "onHandshakeRequest_acked throws e m a w =
     (if e = 0 then blindData a w
      else ecdh_onTaskError throws e (pm_from m) (pm_taskID m) (resource_or ''emptyResource'' (task_at w a)) w)"

definition onHandshakeResponse ::
  "(int \<Rightarrow> int \<Rightarrow> ECDHCrypto) \<Rightarrow> (ts_act \<Rightarrow> bool) \<Rightarrow> PSIMessage \<Rightarrow> 'a ecdh_scheme \<Rightarrow> 'a ecdh_scheme \<times> psi_out list" where
  "onHandshakeResponse create throws m w =
     (case psi_getTaskByID (pm_taskID m) w of
        None \<Rightarrow> ecdh_onTaskError throws PSIRetCode_TaskNotFound (pm_from m) (pm_taskID m) ''emptyDataResource'' w
      | Some a \<Rightarrow>
          let s = psi_heap w a; task = ts_task s in
          if pm_curve m = - 1 \<or> pm_hashType m = - 1
          then ecdh_onTaskError throws PSIRetCode_HandshakeFailed (ts_peerID s) (tk_id task) (resource_or ''empty'' task) w
          else
            let w1 = w\<lparr>ec_crypto := (ec_crypto w)(a := Some (create (pm_curve m) (pm_hashType m)))\<rparr>;
                ack = psi_asyncSendResponse (pm_fromNode m) (tk_id task) (pm_uuid m)
                        ((createPSIMessage HandshakeSuccess)\<lparr>pm_errorCode := 0\<rparr>) 0 w1;
                (w2, outs) = blindData a w1;
                s2 = psi_heap w2 a
            in (if ts_sqlReader s then w2 else set_task a (s2\<lparr>ts_worker := True\<rparr>) w2, ack # outs))"

section \<open>Running a task\<close>

definition runPSI :: "ecdh_config \<Rightarrow> taddr \<Rightarrow> 'a ecdh_scheme \<Rightarrow> psi_out list" where
  "runPSI cf a w =
     NotifyTaskInfo (tk_id (task_at w a)) #
     (if pa_partyIndex (tk_selfParty (task_at w a)) = PartyType_Client
      then sendHandshakeRequest (cf_curves cf) (cf_hashList cf) a w else [])"

text \<open>
  \<open>initTaskState\<close>: \<open>outputFails\<close> says whether checking or loading the output throws, \<open>load\<close> is what
  loading the input gives: nothing when it throws (also for a resource that has not exactly one column),
  otherwise whether it is a database reader and the batches it will return.
\<close>

definition initTaskState ::
  "(ts_act \<Rightarrow> bool) \<Rightarrow> bool \<Rightarrow> (bool \<times> bytes list list) option \<Rightarrow> taddr \<Rightarrow> 'a ecdh_scheme \<Rightarrow> bool \<times> 'a ecdh_scheme \<times> psi_out list" where
  "initTaskState throws outputFails load a w =
     (let s = psi_heap w a; task = ts_task s; server = is_server task;
          w1 = (if \<not> server then snd (insertServerCipherCache (tk_id task) w)
                else if tk_syncResultToPeer task then set_task a (tryToGenerateDefaultOutputDesc s) w else w);
          checks = (\<not> server \<or> tk_syncResultToPeer task);
          fail = ecdh_onTaskError throws PSIRetCode_HandleTaskError (ts_peerID s) (tk_id task)
                   (resource_or ''emptyDataResource'' task) w1
      in if checks \<and> outputFails then (False, fail)
         else case load of
           None \<Rightarrow> (False, fail)
         | Some (sql, batches) \<Rightarrow>
             (True, (set_task a ((psi_heap w1 a)\<lparr>ts_reader := True, ts_sqlReader := sql\<rparr>) w1)
                      \<lparr>ec_reader := (ec_reader w1)(a := batches)\<rparr>, []))"

definition ecdh_asyncRunTask ::
  "ecdh_config \<Rightarrow> (ts_act \<Rightarrow> bool) \<Rightarrow> bool \<Rightarrow> (bool \<times> bytes list list) option \<Rightarrow> Task \<Rightarrow> 'a ecdh_scheme \<Rightarrow>
   'a ecdh_scheme \<times> psi_out list" where
  "ecdh_asyncRunTask cf throws outputFails load task w =
     (let partyIndex = pa_partyIndex (tk_selfParty task); a = psi_next w in
      if partyIndex \<noteq> PartyType_Client \<and> partyIndex \<noteq> PartyType_Server
      then (w, [TaskOut a (Answer \<lparr>tr_taskID = tk_id task, tr_error = Some PSIRetCode_TaskParamsError, tr_status = NoStatus\<rparr>)])
      else
        let w1 = snd (createTaskState task False False w);
            w2 = set_task a ((psi_heap w1 a)\<lparr>ts_finalizeHandler := True\<rparr>) w1;
            (e, w3, outs1) = (let (e, r) = lockResourceAndRecordTaskState throws (needLockResource partyIndex) a w2 in (e, finalizing r))
        in case e of
             Some c \<Rightarrow> (w3, outs1 @ [TaskOut a (Answer \<lparr>tr_taskID = tk_id task, tr_error = Some c, tr_status = NoStatus\<rparr>)])
           | None \<Rightarrow>
               let (p, w4, outs2) = (let (p, r) = checkAndSetPeerInfo throws False a w3 in (p, finalizing r)) in
               case p of
                 None \<Rightarrow> (w4, outs1 @ outs2)
               | Some peer \<Rightarrow>
                   let (ok, w5, outs3) = (let (ok, r) = checkDataResourceForSelf throws a (pa_id peer) (partyIndex \<noteq> PartyType_Server) w4
                                          in (ok, finalizing r)) in
                   if \<not> ok then (w5, outs1 @ outs2 @ outs3)
                   else
                     let w6 = set_task a ((psi_heap w5 a)\<lparr>ts_onSubTaskFinished := True\<rparr>) w5;
                         (ready, w7, outs4) = initTaskState throws outputFails load a w6
                     in (w7, outs1 @ outs2 @ outs3 @ outs4 @ (if ready then runPSI cf a w7 else [])))"

text \<open>\<open>handlePSIMsg\<close>: framework messages first, then those of the protocol.\<close>

definition handlePSIMsg ::
  "ecdh_config \<Rightarrow> (int \<Rightarrow> int \<Rightarrow> ECDHCrypto) \<Rightarrow> (ts_act \<Rightarrow> bool) \<Rightarrow> (taddr \<Rightarrow> u64) \<Rightarrow> PSIMessage \<Rightarrow> 'a ecdh_scheme \<Rightarrow>
   'a ecdh_scheme \<times> psi_out list" where
  "handlePSIMsg cf create throws pendingTime m w =
     (case checkPSIMsg m w of
        (False, outs) \<Rightarrow> (w, outs)
      | (True, _) \<Rightarrow>
          (case handlePSIFrameworkMsg (onHandshakeResponse create throws) (onHandshakeRequest cf create throws)
                  throws pendingTime m w of
             Some r \<Rightarrow> (if pm_packetType m = HandshakeResponse \<or> pm_packetType m = HandshakeRequest then r else finalizing r)
           | None \<Rightarrow>
               if pm_packetType m = EvaluateRequest then handleEvaluateRequest throws m w
               else if pm_packetType m = EvaluateResponse then handleEvaluateResponse m w
               else if pm_packetType m = ServerBlindedData then handleServerBlindData throws m w
               else if pm_packetType m = SyncDataBatchInfo then onRecvSyncDataInfoMsg throws m w
               else (w, [])))"

end
