(* ===== verification/EcdhRun.thy ===== *)
theory EcdhRun
  imports EcdhPSI "HOL-Library.Multiset"
begin

text \<open>
  A run of the ECDH-PSI client against an honest server, and its result. The client blinds its batches
  when its worker asks for it, receives the server's batches, their number and the answers to its own
  requests in any order and any number of times, and the thread pool runs the waiting jobs in any order.

  Shown: the invariant of such a run and that every event keeps it, and what a run never loses again. The
  results are in \<open>EcdhResult\<close>.
\<close>

section \<open>The setting\<close>

record ecdh_run =
  rn_task :: bytes
  rn_addr :: taddr
  rn_store :: saddr
  rn_client :: ECDHCrypto
  rn_server :: ECDHCrypto
  rn_clientData :: "bytes list list"
  rn_serverData :: "bytes list list"

definition seqof :: "nat \<Rightarrow> u32" where
  "seqof d = of_nat (d + 1)"

text \<open>A sequence number after the transport, which carries 16 bits of it (\<open>PPCMessage\<close>).\<close>

definition wire_seq :: "u32 \<Rightarrow> u32" where
  "wire_seq n = ucast (ucast n :: u16)"

definition server_batch :: "ecdh_run \<Rightarrow> nat \<Rightarrow> PSIMessage" where
  "server_batch R j = (blind_message True [] (rn_server R) (rn_serverData R ! j))
     \<lparr>pm_taskID := rn_task R, pm_seq := wire_seq (seqof j)\<rparr>"

definition server_count :: "ecdh_run \<Rightarrow> PSIMessage" where
  "server_count R = (batch_count_message [] (length (rn_serverData R)))\<lparr>pm_taskID := rn_task R\<rparr>"

definition client_cipher :: "ecdh_run \<Rightarrow> nat \<Rightarrow> bytes list" where
  "client_cipher R d = batchGetSharedPublicKey (rn_server R) (batchGetPublicKey (rn_client R) (rn_clientData R ! d))"

definition server_cipher :: "ecdh_run \<Rightarrow> nat \<Rightarrow> bytes list" where
  "server_cipher R j = batchGetSharedPublicKey (rn_client R) (batchGetPublicKey (rn_server R) (rn_serverData R ! j))"

definition response :: "ecdh_run \<Rightarrow> nat \<Rightarrow> PSIMessage" where
  "response R d = (createPSIMessage EvaluateResponse)
     \<lparr>pm_data := client_cipher R d, pm_taskID := rn_task R, pm_seq := wire_seq (seqof d)\<rparr>"

datatype client_event = Blind | ServerBatch nat | BatchCount | Response nat | Job nat

fun client_step :: "ecdh_run \<Rightarrow> client_event \<Rightarrow> ecdh \<Rightarrow> ecdh \<times> psi_out list" where
  "client_step R Blind w = blindData (rn_addr R) w"
| "client_step R (ServerBatch j) w =
     (if j < length (rn_serverData R) then handleServerBlindData (\<lambda>_. False) (server_batch R j) w else (w, []))"
| "client_step R BatchCount w = onRecvSyncDataInfoMsg (\<lambda>_. False) (server_count R) w"
| "client_step R (Response d) w =
     (if d < length (rn_clientData R) then handleEvaluateResponse (response R d) w else (w, []))"
| "client_step R (Job i) w = run_job (\<lambda>_. False) i w"

text \<open>The client just before its first batch: \<open>asyncRunTask\<close> filed the task and the handshake is over.\<close>

definition client_ready :: "ecdh_run \<Rightarrow> ecdh \<Rightarrow> bool" where
  "client_ready R w \<longleftrightarrow>
     (let s = psi_heap w (rn_addr R) in
      tk_id (ts_task s) = rn_task R \<and> \<not> is_server (ts_task s) \<and> \<not> tk_syncResultToPeer (ts_task s) \<and>
      ts_onSubTaskFinished s \<and> \<not> ts_sqlReader s \<and> ts_writer s = None \<and> ts_currentSeq s = 0 \<and> ts_seqList s = {} \<and>
      \<not> ts_finished s \<and>
      psi_getTaskByID (rn_task R) w = Some (rn_addr R) \<and> psi_started w \<and>
      ec_crypto w (rn_addr R) = Some (rn_client R) \<and> ec_reader w (rn_addr R) = rn_clientData R \<and>
      getServerCipherDataCache (rn_task R) w = Some (rn_store R) \<and>
      ec_server w (rn_store R) = new_ServerCipherDataCache \<and>
      ec_nextData w = 0 \<and> ec_taskCache w = [] \<and> ec_jobs w = [])"

text \<open>
  What is relied on of the elliptic curve library: on the points \<open>V\<close>, multiplication by the two keys
  stays in \<open>V\<close>, is injective and commutes; and no two data items share a point.
\<close>

definition point :: "ECDHCrypto \<Rightarrow> bytes \<Rightarrow> bytes" where
  "point k x = cb_hashToCurve (ek_cryptoBox k) (cb_hash (ek_cryptoBox k) x)"

definition dh_laws :: "ecdh_run \<Rightarrow> bytes set \<Rightarrow> bool" where
  "dh_laws R V \<longleftrightarrow>
     (let mul = cb_ecMultiply (ek_cryptoBox (rn_client R)); a = ek_privateKey (rn_client R); b = ek_privateKey (rn_server R);
          D = set (concat (rn_clientData R)) \<union> set (concat (rn_serverData R))
      in ek_cryptoBox (rn_server R) = ek_cryptoBox (rn_client R) \<and>
         (\<forall>p \<in> V. mul p a \<in> V \<and> mul p b \<in> V \<and> mul (mul p a) b = mul (mul p b) a) \<and>
         inj_on (\<lambda>p. mul p a) V \<and> inj_on (\<lambda>p. mul p b) V \<and>
         point (rn_client R) ` D \<subseteq> V \<and> inj_on (point (rn_client R)) D)"

definition batch_result :: "ecdh_run \<Rightarrow> nat \<Rightarrow> bytes list" where
  "batch_result R d = filter (\<lambda>x. x \<in> set (concat (rn_serverData R))) (rn_clientData R ! d)"

text \<open>The reference: the client's items that the server has, each as often as the client has it.\<close>

definition psi_reference :: "ecdh_run \<Rightarrow> bytes list" where
  "psi_reference R = filter (\<lambda>x. x \<in> set (concat (rn_serverData R))) (concat (rn_clientData R))"

section \<open>The doubly encrypted data\<close>

lemma intersect_loop_filter:
  assumes "\<And>i. i < length cs \<Longrightarrow> offset + i < length plain \<and> (cs ! i \<in> S \<longleftrightarrow> Q (plain ! (offset + i)))"
  shows "intersect_loop S cs plain offset acc = (acc @ filter Q (take (length cs) (drop offset plain)), False)"
  using assms
proof (induction cs arbitrary: offset acc)
  case (Cons c cs)
  have h: "offset < length plain" "c \<in> S \<longleftrightarrow> Q (plain ! offset)" using Cons.prems [of 0] by simp_all
  have IH: "intersect_loop S cs plain (offset + 1) acc' =
      (acc' @ filter Q (take (length cs) (drop (offset + 1) plain)), False)" for acc'
    by (rule Cons.IH) (use Cons.prems [of "Suc i" for i] in \<open>simp add: nth_Cons'\<close>)
  have "drop offset plain = plain ! offset # drop (offset + 1) plain"
    using h(1) by (simp add: Cons_nth_drop_Suc)
  then show ?case using h IH by simp
qed simp

lemma double_blind:
  assumes "dh_laws R V" and "x \<in> set (concat (rn_clientData R))" and "y \<in> set (concat (rn_serverData R))"
  defines "mul \<equiv> cb_ecMultiply (ek_cryptoBox (rn_client R))"
  shows "mul (mul (point (rn_client R) x) (ek_privateKey (rn_client R))) (ek_privateKey (rn_server R)) =
    mul (mul (point (rn_client R) y) (ek_privateKey (rn_server R))) (ek_privateKey (rn_client R)) \<longleftrightarrow> x = y"
proof -
  let ?a = "ek_privateKey (rn_client R)" and ?b = "ek_privateKey (rn_server R)" and ?P = "point (rn_client R)"
  let ?D = "set (concat (rn_clientData R)) \<union> set (concat (rn_serverData R))"
  have laws: "\<forall>p \<in> V. mul p ?a \<in> V \<and> mul p ?b \<in> V \<and> mul (mul p ?a) ?b = mul (mul p ?b) ?a"
    "inj_on (\<lambda>p. mul p ?b) V" "inj_on (\<lambda>p. mul p ?a) V" "?P ` ?D \<subseteq> V" "inj_on ?P ?D"
    using assms(1) unfolding dh_laws_def Let_def mul_def by blast+
  have V: "?P x \<in> V" "?P y \<in> V" using laws(4) assms(2,3) by blast+
  then have "mul (mul (?P y) ?b) ?a = mul (mul (?P y) ?a) ?b" "mul (?P x) ?a \<in> V" "mul (?P y) ?a \<in> V"
    using laws(1) by simp_all
  then have "mul (mul (?P x) ?a) ?b = mul (mul (?P y) ?b) ?a \<longleftrightarrow> ?P x = ?P y"
    using V inj_on_eq_iff [OF laws(2)] inj_on_eq_iff [OF laws(3)] by simp
  also have "\<dots> \<longleftrightarrow> x = y"
    using laws(5) assms(2,3) by (intro inj_on_eq_iff) blast+
  finally show ?thesis .
qed

lemma client_cipher_nth:
  assumes "d < length (rn_clientData R)" and "i < length (rn_clientData R ! d)" and "dh_laws R V"
  shows "client_cipher R d ! i \<in> (\<Union>j < length (rn_serverData R). set (server_cipher R j)) \<longleftrightarrow>
    rn_clientData R ! d ! i \<in> set (concat (rn_serverData R))"
proof -
  let ?mul = "cb_ecMultiply (ek_cryptoBox (rn_client R))"
  let ?a = "ek_privateKey (rn_client R)" and ?b = "ek_privateKey (rn_server R)" and ?P = "point (rn_client R)"
  let ?x = "rn_clientData R ! d ! i"
  have box: "ek_cryptoBox (rn_server R) = ek_cryptoBox (rn_client R)" using assms(3) by (simp add: dh_laws_def Let_def)
  have x: "?x \<in> set (concat (rn_clientData R))" using assms(1,2) by (force simp: in_set_conv_nth)
  have c: "client_cipher R d ! i = ?mul (?mul (?P ?x) ?a) ?b"
    using assms(2) by (simp add: client_cipher_def batchGetSharedPublicKey_def batchGetPublicKey_def box point_def)
  have sc: "set (server_cipher R j) = (\<lambda>y. ?mul (?mul (?P y) ?b) ?a) ` set (rn_serverData R ! j)" for j
    by (simp add: server_cipher_def batchGetSharedPublicKey_def batchGetPublicKey_def box point_def image_image)
  have "(\<Union>j < length (rn_serverData R). set (rn_serverData R ! j)) = set (concat (rn_serverData R))"
    unfolding set_concat by (metis (no_types) atLeast0LessThan image_image nth_image order_refl take_all set_conv_nth atLeast_upt list.set_map map_nth)
  then have "(\<Union>j < length (rn_serverData R). set (server_cipher R j)) =
      (\<lambda>y. ?mul (?mul (?P y) ?b) ?a) ` set (concat (rn_serverData R))"
    unfolding sc image_UN [symmetric] by (simp only:)
  moreover have "?mul (?mul (?P ?x) ?a) ?b \<in> (\<lambda>y. ?mul (?mul (?P y) ?b) ?a) ` set (concat (rn_serverData R)) \<longleftrightarrow>
      ?x \<in> set (concat (rn_serverData R))"
    using double_blind [OF assms(3) x] by blast
  ultimately show ?thesis unfolding c by (simp only:)
qed

section \<open>Sequence numbers\<close>

lemma seqof_inj:
  assumes "i < 2 ^ 16" and "j < 2 ^ 16"
  shows "seqof i = seqof j \<longleftrightarrow> i = j"
proof -
  have "unat (seqof i) = i + 1" "unat (seqof j) = j + 1"
    using assms by (simp_all only: seqof_def unsigned_of_nat) (simp_all add: take_bit_nat_eq_self)
  then show ?thesis by (metis add_right_cancel)
qed

lemma wire_seqof:
  assumes "d + 1 < 2 ^ 16"
  shows "wire_seq (seqof d) = seqof d"
proof -
  have "ucast (ucast (of_nat n :: u32) :: u16) = (of_nat n :: u32)" if "n < 2 ^ 16" for n
    using that by (simp add: unsigned_of_nat take_bit_nat_eq_self)
  then show ?thesis using assms by (simp add: wire_seq_def seqof_def del: of_nat_add of_nat_Suc)
qed

lemma inj_on_seqof: "J \<subseteq> {..<2 ^ 16} \<Longrightarrow> inj_on seqof J"
  by (rule inj_onI) (use seqof_inj in blast)

section \<open>The invariant\<close>

text \<open>The server's data: what arrived is a set \<open>J\<close> of its batches, complete when the count says so.\<close>

definition server_inv :: "ecdh_run \<Rightarrow> ServerCipherDataCache \<Rightarrow> bool" where
  "server_inv R c \<longleftrightarrow>
     (\<exists>J \<subseteq> {..<length (rn_serverData R)}.
        sc_seqList c = seqof ` J \<and> sc_cipherData c = (\<Union>j \<in> J. set (server_cipher R j)) \<and>
        (sc_batchCount c = - 1 \<or> sc_batchCount c = int (length (rn_serverData R))) \<and>
        (sc_loadFinished c \<longleftrightarrow> sc_batchCount c = int (length (rn_serverData R)) \<and> J = {..<length (rn_serverData R)}))"

definition data_inv :: "ecdh_run \<Rightarrow> nat \<Rightarrow> DataCache \<Rightarrow> bool" where
  "data_inv R d c \<longleftrightarrow> dc_taskState c = rn_addr R \<and> dc_seq c = seqof d \<and>
     dc_server c = Some (rn_store R) \<and> dc_plainData c = rn_clientData R ! d \<and>
     (dc_state c = Evaluating \<or> dc_state c = Finalized \<or> dc_state c = Synced) \<and>
     (dc_state c = Finalized \<longrightarrow> dc_clientCipherData c = client_cipher R d) \<and>
     (dc_state c \<noteq> Synced \<longrightarrow> dc_intersectionData c = [])"

text \<open>The table: one task, every batch at its own sequence number, the unfinished ones present.\<close>

definition cache_inv :: "bytes \<Rightarrow> nat \<Rightarrow> (daddr \<Rightarrow> DataCache) \<Rightarrow> (bytes, (u32, daddr) smap) smap \<Rightarrow> bool" where
  "cache_inv t k h ts \<longleftrightarrow>
     (\<exists>m. (ts = [(t, m)] \<or> ts = [] \<and> m = []) \<and> smap_ok m \<and> (\<forall>(seq, d) \<in> set m. d < k \<and> seq = seqof d) \<and>
          (\<forall>d < k. dc_state (h d) \<noteq> Synced \<longrightarrow> (seqof d, d) \<in> set m))"

definition written :: "TaskState \<Rightarrow> bytes list" where
  "written s = (case ts_writer s of Some ls \<Rightarrow> ls | None \<Rightarrow> [])"

definition task_inv :: "ecdh_run \<Rightarrow> nat \<Rightarrow> (daddr \<Rightarrow> DataCache) \<Rightarrow> TaskState \<Rightarrow> bool" where
  "task_inv R k h s \<longleftrightarrow> tk_id (ts_task s) = rn_task R \<and> \<not> is_server (ts_task s) \<and> \<not> tk_syncResultToPeer (ts_task s) \<and>
     ts_onSubTaskFinished s \<and> \<not> ts_sqlReader s \<and> ts_currentSeq s = of_nat k \<and>
     ts_seqList s = seqof ` {d. d < k \<and> dc_state (h d) \<noteq> Synced} \<and>
     mset (written s) = (\<Sum>d \<in> {d. d < k \<and> dc_state (h d) = Synced}. mset (batch_result R d)) \<and>
     (ts_finished s \<longrightarrow> k = length (rn_clientData R))"

definition run_inv0 :: "ecdh_run \<Rightarrow> ecdh \<Rightarrow> bool" where
  "run_inv0 R w \<longleftrightarrow>
     psi_getTaskByID (rn_task R) w = Some (rn_addr R) \<and> psi_started w \<and>
     ec_crypto w (rn_addr R) = Some (rn_client R) \<and>
     getServerCipherDataCache (rn_task R) w = Some (rn_store R) \<and>
     ec_nextData w \<le> length (rn_clientData R) \<and> ec_reader w (rn_addr R) = drop (ec_nextData w) (rn_clientData R) \<and>
     server_inv R (ec_server w (rn_store R)) \<and>
     (\<forall>d < ec_nextData w. data_inv R d (ec_data w d)) \<and>
     cache_inv (rn_task R) (ec_nextData w) (ec_data w) (ec_taskCache w) \<and>
     task_inv R (ec_nextData w) (ec_data w) (psi_heap w (rn_addr R)) \<and>
     (\<forall>d \<in> set (ec_jobs w). d < ec_nextData w)"

text \<open>A finalized batch is waiting in the pool as soon as all of the server's data is there.\<close>

definition jobs_ready :: "ecdh_run \<Rightarrow> ecdh \<Rightarrow> bool" where
  "jobs_ready R w \<longleftrightarrow> (sc_loadFinished (ec_server w (rn_store R)) \<longrightarrow>
     (\<forall>d < ec_nextData w. dc_state (ec_data w d) = Finalized \<longrightarrow> d \<in> set (ec_jobs w)))"

definition run_inv :: "ecdh_run \<Rightarrow> ecdh \<Rightarrow> bool" where
  "run_inv R w \<longleftrightarrow> run_inv0 R w \<and> jobs_ready R w"

lemma ready_inv:
  assumes "client_ready R w"
  shows "run_inv R w"
proof -
  have "server_inv R new_ServerCipherDataCache"
    unfolding server_inv_def by (intro exI [of _ "{}"]) (simp add: new_ServerCipherDataCache_def)
  with assms show ?thesis
    by (auto simp: client_ready_def run_inv_def run_inv0_def jobs_ready_def cache_inv_def task_inv_def written_def Let_def)
qed

subsection \<open>The scan\<close>

lemma scan_task_result:
  "fst (scan_task h m cap) = filter (\<lambda>(seq, d). dc_state (h d) \<noteq> Synced) m"
  "snd (snd (scan_task h m cap)) = map snd (filter (\<lambda>(seq, d). dc_state (h d) = Finalized) m)"
  by (induction h m cap rule: scan_task.induct) (auto simp: split_beta)

lemma scan_tasks_inv:
  assumes "cache_inv t k h ts"
  shows "cache_inv t k h (fst (scan_tasks h ts cap))"
    and "\<forall>d \<in> set (snd (snd (scan_tasks h ts cap))). d < k"
    and "\<And>d. d < k \<Longrightarrow> dc_state (h d) = Finalized \<Longrightarrow> d \<in> set (snd (snd (scan_tasks h ts cap)))"
proof -
  obtain m where m: "ts = [(t, m)] \<or> ts = [] \<and> m = []" "smap_ok m" "\<forall>(seq, d) \<in> set m. d < k \<and> seq = seqof d"
    "\<forall>d < k. dc_state (h d) \<noteq> Synced \<longrightarrow> (seqof d, d) \<in> set m"
    using assms unfolding cache_inv_def by blast
  let ?m = "filter (\<lambda>(seq, d). dc_state (h d) \<noteq> Synced) m"
  have r: "fst (scan_tasks h ts cap) = (if ?m = [] then [] else [(t, ?m)])"
    "snd (snd (scan_tasks h ts cap)) = map snd (filter (\<lambda>(seq, d). dc_state (h d) = Finalized) m)"
    using m(1) by (auto simp: split_beta Let_def scan_task_result)
  show "cache_inv t k h (fst (scan_tasks h ts cap))"
    unfolding cache_inv_def r by (rule exI [of _ ?m]) (use m in \<open>auto simp: smap_ok_filter\<close>)
  show "\<forall>d \<in> set (snd (snd (scan_tasks h ts cap))). d < k" using m(3) by (auto simp: r)
  show "d \<in> set (snd (snd (scan_tasks h ts cap)))" if "d < k" "dc_state (h d) = Finalized" for d
  proof -
    have "(seqof d, d) \<in> set m" using that m(4) by simp
    then show ?thesis using that(2) unfolding r by force
  qed
qed

lemma ec_scan_frame [simp]:
  "psi_heap (ec_scan w) = psi_heap w" "psi_pendingTasks (ec_scan w) = psi_pendingTasks w" "psi_started (ec_scan w) = psi_started w"
  "ec_server (ec_scan w) = ec_server w" "ec_data (ec_scan w) = ec_data w" "ec_nextData (ec_scan w) = ec_nextData w"
  "ec_serverDataStore (ec_scan w) = ec_serverDataStore w" "ec_crypto (ec_scan w) = ec_crypto w" "ec_reader (ec_scan w) = ec_reader w"
  "ec_taskCache (ec_scan w) = fst (scan_tasks (ec_data w) (ec_taskCache w) (ec_capacity w))"
  "ec_jobs (ec_scan w) = ec_jobs w @ snd (snd (scan_tasks (ec_data w) (ec_taskCache w) (ec_capacity w)))"
  by (simp_all add: ec_scan_def split_beta Let_def)

lemma scan_inv:
  assumes "run_inv0 R w"
  shows "run_inv R (ec_scan w)"
proof -
  have "cache_inv (rn_task R) (ec_nextData w) (ec_data w) (ec_taskCache w)" using assms by (simp add: run_inv0_def)
  note s = scan_tasks_inv [OF this, where cap = "ec_capacity w"]
  show ?thesis using assms s
    by (auto simp: run_inv_def run_inv0_def jobs_ready_def psi_getTaskByID_def getServerCipherDataCache_def)
qed

subsection \<open>What a run never loses again\<close>

definition progress :: "ecdh_run \<Rightarrow> ecdh \<Rightarrow> ecdh \<Rightarrow> bool" where
  "progress R w w' \<longleftrightarrow> ec_nextData w \<le> ec_nextData w' \<and>
     sc_seqList (ec_server w (rn_store R)) \<subseteq> sc_seqList (ec_server w' (rn_store R)) \<and>
     (sc_batchCount (ec_server w (rn_store R)) \<noteq> - 1 \<longrightarrow> sc_batchCount (ec_server w' (rn_store R)) \<noteq> - 1) \<and>
     (\<forall>d < ec_nextData w. dc_state (ec_data w d) \<noteq> Evaluating \<longrightarrow> dc_state (ec_data w' d) \<noteq> Evaluating) \<and>
     (ts_finished (psi_heap w (rn_addr R)) \<longrightarrow> ts_finished (psi_heap w' (rn_addr R)))"

lemma progress_refl [simp]: "progress R w w"
  by (simp add: progress_def)

lemma progress_trans: "progress R w1 w2 \<Longrightarrow> progress R w2 w3 \<Longrightarrow> progress R w1 w3"
  unfolding progress_def by (auto intro: order_trans less_le_trans)

lemma progress_scan [simp]: "progress R w (ec_scan w') \<longleftrightarrow> progress R w w'"
  by (simp add: progress_def)

lemma progress_server:
  "sc_seqList (ec_server w (rn_store R)) \<subseteq> sc_seqList c \<Longrightarrow>
   (sc_batchCount (ec_server w (rn_store R)) \<noteq> - 1 \<Longrightarrow> sc_batchCount c \<noteq> - 1) \<Longrightarrow> progress R w (set_server (rn_store R) c w)"
  by (simp add: progress_def set_server_def)

subsection \<open>The server's messages\<close>

lemma server_inv_count:
  assumes "server_inv R c" and "length (rn_serverData R) < 2 ^ 16"
  shows "server_inv R (setServerDataBatchCount (int (length (rn_serverData R))) c)"
proof -
  obtain J where J: "J \<subseteq> {..<length (rn_serverData R)}" "sc_seqList c = seqof ` J"
    "sc_cipherData c = (\<Union>j \<in> J. set (server_cipher R j))"
    "sc_batchCount c = - 1 \<or> sc_batchCount c = int (length (rn_serverData R))"
    "sc_loadFinished c \<longleftrightarrow> sc_batchCount c = int (length (rn_serverData R)) \<and> J = {..<length (rn_serverData R)}"
    using assms(1) unfolding server_inv_def by blast
  have "inj_on seqof J" using J(1) assms(2) by (intro inj_on_seqof) auto
  then have "card (seqof ` J) = card J" by (rule card_image)
  moreover have "card J = length (rn_serverData R) \<longleftrightarrow> J = {..<length (rn_serverData R)}"
    using J(1) card_subset_eq [of "{..<length (rn_serverData R)}" J] by auto
  ultimately show ?thesis
    unfolding server_inv_def by (intro exI [of _ J]) (use J in \<open>auto simp: setServerDataBatchCount_def Let_def\<close>)
qed

lemma server_inv_append:
  assumes "server_inv R c" and "length (rn_serverData R) < 2 ^ 16" and "j < length (rn_serverData R)"
  shows "server_inv R (appendServerCipherData (seqof j) (server_cipher R j) c)"
proof -
  obtain J where J: "J \<subseteq> {..<length (rn_serverData R)}" "sc_seqList c = seqof ` J"
    "sc_cipherData c = (\<Union>j \<in> J. set (server_cipher R j))"
    "sc_batchCount c = - 1 \<or> sc_batchCount c = int (length (rn_serverData R))"
    "sc_loadFinished c \<longleftrightarrow> sc_batchCount c = int (length (rn_serverData R)) \<and> J = {..<length (rn_serverData R)}"
    using assms(1) unfolding server_inv_def by blast
  show ?thesis
  proof (cases "seqof j \<in> sc_seqList c")
    case True
    with assms(1) show ?thesis by (simp add: appendServerCipherData_def)
  next
    case False
    let ?J = "insert j J"
    have sub: "?J \<subseteq> {..<length (rn_serverData R)}" using J(1) assms(3) by simp
    have "inj_on seqof ?J" using sub assms(2) by (intro inj_on_seqof) auto
    then have "card (seqof ` ?J) = card ?J" by (rule card_image)
    moreover have "card ?J = length (rn_serverData R) \<longleftrightarrow> ?J = {..<length (rn_serverData R)}"
      using sub card_subset_eq [of "{..<length (rn_serverData R)}" ?J] by auto
    moreover have "j \<notin> J" using False J(2) by blast
    then have "J \<noteq> {..<length (rn_serverData R)}" using assms(3) by blast
    ultimately show ?thesis
      unfolding server_inv_def
      by (intro exI [of _ ?J]) (use J sub False in \<open>auto simp: appendServerCipherData_def Let_def\<close>)
  qed
qed

lemma run_inv0_server:
  assumes "run_inv0 R w" and "server_inv R c"
  shows "run_inv0 R (set_server (rn_store R) c w)"
  using assms by (auto simp: run_inv0_def set_server_def psi_getTaskByID_def getServerCipherDataCache_def)

lemma inv_batch_count:
  assumes "run_inv0 R w" and "length (rn_serverData R) < 2 ^ 16"
  shows "run_inv R (fst (onRecvSyncDataInfoMsg throws (server_count R) w))"
proof -
  have u: "uint (of_nat (length (rn_serverData R)) :: u32) = int (length (rn_serverData R))"
    using assms(2) by (simp add: unsigned_of_nat take_bit_nat_eq_self)
  have "run_inv0 R (set_server (rn_store R) (setServerDataBatchCount (int (length (rn_serverData R))) (ec_server w (rn_store R))) w)"
    using assms by (intro run_inv0_server server_inv_count) (simp_all add: run_inv0_def)
  from scan_inv [OF this] assms(1) show ?thesis
    by (simp add: onRecvSyncDataInfoMsg_def server_count_def batch_count_message_def run_inv0_def u)
qed

lemma inv_server_batch:
  assumes "run_inv0 R w" and "length (rn_serverData R) < 2 ^ 16" and "j < length (rn_serverData R)"
  shows "run_inv R (fst (handleServerBlindData throws (server_batch R j) w))"
proof -
  have "run_inv0 R (set_server (rn_store R) (appendServerCipherData (seqof j) (server_cipher R j) (ec_server w (rn_store R))) w)"
    using assms by (intro run_inv0_server server_inv_append) (simp_all add: run_inv0_def)
  from scan_inv [OF this] assms(1) wire_seqof [of j] assms(2,3) show ?thesis
    by (simp add: handleServerBlindData_def checkAndObtainTaskState_def server_batch_def blind_message_def
        server_cipher_def run_inv0_def)
qed

subsection \<open>The answers to the client's requests\<close>

lemma cache_inv_data:
  "cache_inv t k h ts \<Longrightarrow> (\<And>d. d < k \<Longrightarrow> dc_state (h' d) \<noteq> Synced \<Longrightarrow> dc_state (h d) \<noteq> Synced) \<Longrightarrow> cache_inv t k h' ts"
  unfolding cache_inv_def by blast

lemma task_inv_data:
  assumes "task_inv R k h s" and "\<And>d. d < k \<Longrightarrow> dc_state (h' d) = Synced \<longleftrightarrow> dc_state (h d) = Synced"
  shows "task_inv R k h' s"
proof -
  have "{d. d < k \<and> dc_state (h' d) = Synced} = {d. d < k \<and> dc_state (h d) = Synced}"
    "{d. d < k \<and> dc_state (h' d) \<noteq> Synced} = {d. d < k \<and> dc_state (h d) \<noteq> Synced}"
    using assms(2) by auto
  then show ?thesis using assms(1) by (simp only: task_inv_def simp_thms) blast
qed

lemma sub_task_found:
  assumes "cache_inv t k h (ec_taskCache w)" and "getSubTaskCache t (seqof d) w = Some d'" and "k < 2 ^ 16" and "d < 2 ^ 16"
  shows "d' = d \<and> d < k"
proof -
  have "(seqof d, d') \<in> set (sub_tasks t w)" using assms(2) by (simp add: getSubTaskCache_def map_of_SomeD)
  then have "d' < k" "seqof d = seqof d'" using assms(1) by (auto simp: cache_inv_def sub_tasks_def split: if_splits)
  then show ?thesis using seqof_inj [of d d'] assms(3,4) by simp
qed

lemma inv_response:
  assumes "run_inv R w" and "length (rn_clientData R) < 2 ^ 16" and "d < length (rn_clientData R)"
  shows "run_inv R (fst (handleEvaluateResponse (response R d) w))"
proof (cases "getSubTaskCache (rn_task R) (seqof d) w")
  case None
  then show ?thesis using assms by (simp add: handleEvaluateResponse_def response_def wire_seqof)
next
  case (Some d')
  have i: "run_inv0 R w" using assms(1) by (simp add: run_inv_def)
  then have d: "d' = d" "d < ec_nextData w"
    using sub_task_found [OF _ Some, of "ec_nextData w" "ec_data w"] assms(2,3) by (simp_all add: run_inv0_def)
  let ?c = "setClientCipherData (client_cipher R d) (ec_data w d)"
  have c: "data_inv R d ?c" "dc_state ?c = Synced \<longleftrightarrow> dc_state (ec_data w d) = Synced"
    using i d(2) by (auto simp: run_inv0_def data_inv_def setClientCipherData_def)
  have same: "dc_state (((ec_data w)(d := ?c)) x) = Synced \<longleftrightarrow> dc_state (ec_data w x) = Synced" for x
    using c(2) by simp
  have "cache_inv (rn_task R) (ec_nextData w) ((ec_data w)(d := ?c)) (ec_taskCache w)"
    by (rule cache_inv_data [of _ _ "ec_data w"]) (use i same in \<open>auto simp: run_inv0_def\<close>)
  moreover have "task_inv R (ec_nextData w) ((ec_data w)(d := ?c)) (psi_heap w (rn_addr R))"
    by (rule task_inv_data [of _ _ "ec_data w"]) (use i same in \<open>auto simp: run_inv0_def\<close>)
  ultimately have "run_inv0 R (set_data d ?c w)"
    using i c(1) by (auto simp: run_inv0_def set_data_def psi_getTaskByID_def getServerCipherDataCache_def)
  from scan_inv [OF this] Some d(1) assms(2,3) show ?thesis
    by (simp add: handleEvaluateResponse_def response_def wire_seqof)
qed

subsection \<open>Blinding\<close>

lemma sub_tasks_set:
  assumes "cache_inv t k h (ec_taskCache w)"
  shows "smap_ok (sub_tasks t w)" and "\<forall>(seq, d) \<in> set (sub_tasks t w). d < k \<and> seq = seqof d"
    and "\<And>d. d < k \<Longrightarrow> dc_state (h d) \<noteq> Synced \<Longrightarrow> (seqof d, d) \<in> set (sub_tasks t w)"
    and "smap_put t m (ec_taskCache w) = [(t, m)]"
  using assms by (auto simp: cache_inv_def sub_tasks_def)

lemma sub_task_fresh:
  assumes "cache_inv t k h (ec_taskCache w)" and "k < 2 ^ 16"
  shows "map_of (sub_tasks t w) (seqof k) = None"
proof (rule ccontr)
  assume "map_of (sub_tasks t w) (seqof k) \<noteq> None"
  then obtain d where "getSubTaskCache t (seqof k) w = Some d" by (auto simp: getSubTaskCache_def)
  from sub_task_found [OF assms(1) this] assms(2) show False by simp
qed

lemma cache_inv_insert:
  assumes "cache_inv t k h (ec_taskCache w)" and "k < 2 ^ 16"
  shows "cache_inv t (k + 1) (h(k := c)) [(t, smap_put (seqof k) k (sub_tasks t w))]"
proof -
  note s = sub_tasks_set [OF assms(1)]
  have set_put: "set (smap_put (seqof k) k (sub_tasks t w)) = insert (seqof k, k) {p \<in> set (sub_tasks t w). fst p \<noteq> seqof k}"
    by (rule set_smap_put [OF s(1)])
  show ?thesis
    unfolding cache_inv_def
  proof (intro exI [of _ "smap_put (seqof k) k (sub_tasks t w)"] conjI allI impI)
    show "smap_ok (smap_put (seqof k) k (sub_tasks t w))" by (rule smap_ok_put [OF s(1)])
    show "\<forall>(seq, d) \<in> set (smap_put (seqof k) k (sub_tasks t w)). d < k + 1 \<and> seq = seqof d"
      using s(2) unfolding set_put by auto
    fix d assume d: "d < k + 1" "dc_state ((h(k := c)) d) \<noteq> Synced"
    show "(seqof d, d) \<in> set (smap_put (seqof k) k (sub_tasks t w))"
    proof (cases "d = k")
      case False
      then have "seqof d \<noteq> seqof k" using d(1) assms(2) seqof_inj [of d k] by simp
      with False d s(3) [of d] show ?thesis unfolding set_put by auto
    qed (simp add: set_put)
  qed simp
qed

lemma task_inv_insert:
  assumes "task_inv R k h s" and "dc_state c = Evaluating" and "\<not> ts_finished s"
  shows "task_inv R (k + 1) (h(k := c)) (snd (allocateSeq s))"
proof -
  have "{d. d < k + 1 \<and> dc_state ((h(k := c)) d) \<noteq> Synced} = insert k {d. d < k \<and> dc_state (h d) \<noteq> Synced}"
    "{d. d < k + 1 \<and> dc_state ((h(k := c)) d) = Synced} = {d. d < k \<and> dc_state (h d) = Synced}"
    using assms(2) by (auto simp: less_Suc_eq)
  moreover have "(of_nat k :: u32) + 1 = seqof k" by (simp add: seqof_def)
  moreover have "written (snd (allocateSeq s)) = written s" by (simp add: written_def allocateSeq_def Let_def)
  ultimately show ?thesis using assms(1,3)
    by (simp only: task_inv_def) (simp add: allocateSeq_def Let_def add.commute)
qed

definition blind_one :: "ecdh_run \<Rightarrow> ecdh \<Rightarrow> ecdh" where
  "blind_one R w =
     (let (seq, s) = allocateSeq (psi_heap w (rn_addr R));
          k = ec_nextData w
      in snd (insertSubTaskCache (rn_task R) seq (rn_addr R) (Some (rn_store R)) (rn_clientData R ! k)
           ((set_task (rn_addr R) s w)\<lparr>ec_reader := (ec_reader w)(rn_addr R := drop (k + 1) (rn_clientData R))\<rparr>)))"

lemma blind_one_fields:
  assumes "run_inv0 R w" and "ec_nextData w < length (rn_clientData R)" and "length (rn_clientData R) < 2 ^ 16"
  defines "k \<equiv> ec_nextData w"
  defines "c \<equiv> new_DataCache (rn_task R) (seqof k) (rn_addr R) (Some (rn_store R)) (rn_clientData R ! k)"
  shows "ec_data (blind_one R w) = (ec_data w)(k := c)" and "ec_nextData (blind_one R w) = k + 1"
    and "ec_taskCache (blind_one R w) = [(rn_task R, smap_put (seqof k) k (sub_tasks (rn_task R) w))]"
    and "psi_heap (blind_one R w) = (psi_heap w)(rn_addr R := snd (allocateSeq (psi_heap w (rn_addr R))))"
    and "ec_reader (blind_one R w) (rn_addr R) = drop (k + 1) (rn_clientData R)"
    and "ec_jobs (blind_one R w) = ec_jobs w" and "ec_server (blind_one R w) = ec_server w"
    and "ec_crypto (blind_one R w) = ec_crypto w" and "ec_serverDataStore (blind_one R w) = ec_serverDataStore w"
    and "psi_pendingTasks (blind_one R w) = psi_pendingTasks w" and "psi_started (blind_one R w) = psi_started w"
proof -
  have ci: "cache_inv (rn_task R) k (ec_data w) (ec_taskCache w)" and "ts_currentSeq (psi_heap w (rn_addr R)) = of_nat k"
    using assms(1) by (simp_all add: run_inv0_def task_inv_def k_def)
  then have seq: "fst (allocateSeq (psi_heap w (rn_addr R))) = seqof k"
    by (simp add: allocateSeq_def seqof_def Let_def)
  have "map_of (sub_tasks (rn_task R) w) (seqof k) = None"
    using sub_task_fresh [OF ci] assms(2,3) by (simp add: k_def)
  note f = this sub_tasks_set(4) [OF ci]
  have u: "sub_tasks (rn_task R) (w\<lparr>psi_heap := h, ec_reader := r\<rparr>) = sub_tasks (rn_task R) w" for h r
    by (simp add: sub_tasks_def)
  have b: "blind_one R w = set_data k c
      (w\<lparr>psi_heap := (psi_heap w)(rn_addr R := snd (allocateSeq (psi_heap w (rn_addr R)))),
         ec_nextData := k + 1, ec_capacity := ec_capacity w + dc_capacity c,
         ec_taskCache := [(rn_task R, smap_put (seqof k) k (sub_tasks (rn_task R) w))],
         ec_reader := (ec_reader w)(rn_addr R := drop (k + 1) (rn_clientData R))\<rparr>)"
    unfolding blind_one_def
    by (simp add: seq split_beta insertSubTaskCache_def set_task_def set_data_def u f c_def k_def [symmetric] Let_def)
  show "ec_data (blind_one R w) = (ec_data w)(k := c)" "ec_nextData (blind_one R w) = k + 1"
    "ec_taskCache (blind_one R w) = [(rn_task R, smap_put (seqof k) k (sub_tasks (rn_task R) w))]"
    "psi_heap (blind_one R w) = (psi_heap w)(rn_addr R := snd (allocateSeq (psi_heap w (rn_addr R))))"
    "ec_reader (blind_one R w) (rn_addr R) = drop (k + 1) (rn_clientData R)"
    "ec_jobs (blind_one R w) = ec_jobs w" "ec_server (blind_one R w) = ec_server w"
    "ec_crypto (blind_one R w) = ec_crypto w" "ec_serverDataStore (blind_one R w) = ec_serverDataStore w"
    "psi_pendingTasks (blind_one R w) = psi_pendingTasks w" "psi_started (blind_one R w) = psi_started w"
    unfolding b by (simp_all add: set_data_def)
qed

lemma inv_blind_one:
  assumes "run_inv R w" and "ec_nextData w < length (rn_clientData R)" and "length (rn_clientData R) < 2 ^ 16"
    and "\<not> ts_finished (psi_heap w (rn_addr R))"
  shows "run_inv R (blind_one R w)"
proof -
  have i: "run_inv0 R w" using assms(1) by (simp add: run_inv_def)
  note f = blind_one_fields [OF i assms(2,3)]
  let ?k = "ec_nextData w"
  let ?c = "new_DataCache (rn_task R) (seqof ?k) (rn_addr R) (Some (rn_store R)) (rn_clientData R ! ?k)"
  have c: "data_inv R ?k ?c" "dc_state ?c = Evaluating" by (simp_all add: data_inv_def new_DataCache_def)
  have "cache_inv (rn_task R) (?k + 1) ((ec_data w)(?k := ?c)) [(rn_task R, smap_put (seqof ?k) ?k (sub_tasks (rn_task R) w))]"
    using i assms(2,3) by (intro cache_inv_insert) (simp_all add: run_inv0_def)
  moreover have "task_inv R (?k + 1) ((ec_data w)(?k := ?c)) (snd (allocateSeq (psi_heap w (rn_addr R))))"
    using i c(2) assms(4) by (intro task_inv_insert) (simp_all add: run_inv0_def)
  ultimately show ?thesis using assms(1,2) c
    unfolding run_inv_def run_inv0_def jobs_ready_def psi_getTaskByID_def getServerCipherDataCache_def f
    by (auto simp: less_Suc_eq)
qed

lemma progress_blind_one:
  assumes "run_inv R w" and "ec_nextData w < length (rn_clientData R)" and "length (rn_clientData R) < 2 ^ 16"
  shows "progress R w (blind_one R w)"
  using blind_one_fields [of R w] assms by (simp add: progress_def run_inv_def allocateSeq_def Let_def)

lemma inv_set_finished:
  assumes "run_inv R w" and "ec_nextData w = length (rn_clientData R)"
  shows "run_inv R (set_task (rn_addr R) ((psi_heap w (rn_addr R))\<lparr>ts_finished := True\<rparr>) w)"
  using assms
  by (simp add: run_inv_def run_inv0_def jobs_ready_def task_inv_def written_def psi_getTaskByID_def getServerCipherDataCache_def)

lemma run_inv_task:
  assumes "run_inv R w"
  shows "psi_getTaskByID (rn_task R) w = Some (rn_addr R)" and "tk_id (ts_task (psi_heap w (rn_addr R))) = rn_task R"
    and "\<not> is_server (ts_task (psi_heap w (rn_addr R)))" and "\<not> ts_sqlReader (psi_heap w (rn_addr R))"
    and "psi_started w" and "ec_crypto w (rn_addr R) = Some (rn_client R)"
    and "getServerCipherDataCache (rn_task R) w = Some (rn_store R)"
  using assms by (simp_all add: run_inv_def run_inv0_def task_inv_def)

lemma inv_blind_loop:
  fixes res :: bytes
  assumes "run_inv R w" and "length (rn_clientData R) < 2 ^ 16"
  defines "loop \<equiv> blind_loop (rn_addr R) False res (Some (rn_store R))"
  shows "run_inv R (fst (loop (ec_reader w (rn_addr R)) n w)) \<and> progress R w (fst (loop (ec_reader w (rn_addr R)) n w))"
  using assms(1)
proof (induction "ec_reader w (rn_addr R)" arbitrary: w n)
  case Nil
  then have "ec_nextData w = length (rn_clientData R)" by (simp add: run_inv_def run_inv0_def)
  with Nil show ?case
    unfolding loop_def by (subst (1 2) blind_loop.simps) (simp add: Let_def inv_set_finished run_inv_task progress_def)
next
  case (Cons b bs)
  have i: "run_inv0 R w" using Cons.prems by (simp add: run_inv_def)
  then have r: "drop (ec_nextData w) (rn_clientData R) = b # bs" using Cons.hyps(2) by (simp add: run_inv0_def)
  then have k: "ec_nextData w < length (rn_clientData R)" by (metis drop_eq_Nil leI list.distinct(1))
  with r have b: "b = rn_clientData R ! ec_nextData w" "bs = drop (Suc (ec_nextData w)) (rn_clientData R)"
    by (metis Cons_nth_drop_Suc list.inject)+
  show ?case
  proof (cases "ec_isFull w \<or> ts_finished (psi_heap w (rn_addr R))")
    case True
    then show ?thesis using Cons.prems unfolding loop_def by (subst (1 2) blind_loop.simps) (simp add: Let_def run_inv_task)
  next
    case False
    have i1: "run_inv R (blind_one R w)" using Cons.prems k assms(2) False by (intro inv_blind_one) simp_all
    moreover have "bs = ec_reader (blind_one R w) (rn_addr R)" using blind_one_fields(5) [OF i k assms(2)] b(2) by simp
    ultimately have "run_inv R (fst (loop bs (n + 1) (blind_one R w)))" "progress R (blind_one R w) (fst (loop bs (n + 1) (blind_one R w)))"
      using Cons.hyps(1) by simp_all
    moreover have "fst (loop (ec_reader w (rn_addr R)) n w) = fst (loop bs (n + 1) (blind_one R w))"
      using False Cons.prems Cons.hyps(2) [symmetric] unfolding loop_def
      by (subst blind_loop.simps) (simp add: Let_def run_inv_task split_beta blind_one_def b [symmetric])
    ultimately show ?thesis using progress_trans [OF progress_blind_one [OF Cons.prems k assms(2)]] by simp
  qed
qed

lemma inv_blind:
  assumes "run_inv R w" and "length (rn_clientData R) < 2 ^ 16"
  shows "run_inv R (fst (blindData (rn_addr R) w)) \<and> progress R w (fst (blindData (rn_addr R) w))"
  using inv_blind_loop [OF assms] assms(1) run_inv_task [OF assms(1)]
  by (simp add: blindData_def Let_def split_beta)

subsection \<open>Jobs\<close>

lemma attempt_quiet [simp]: "attempt (\<lambda>_. False) as = (as, False)"
  by (induction as) simp_all

lemma store_quiet:
  "fst (ts_storePSIResult (\<lambda>_. False) data s) =
     s\<lparr>ts_task := ts_task (tryToGenerateDefaultOutputDesc s), ts_writer := Some (written s @ data)\<rparr>"
  "snd (snd (ts_storePSIResult (\<lambda>_. False) data s)) = False"
  by (simp_all add: ts_storePSIResult_def written_def tryToGenerateDefaultOutputDesc_def split_beta Let_def split: option.splits)

lemma default_output_task [simp]:
  "tk_id (ts_task (tryToGenerateDefaultOutputDesc s)) = tk_id (ts_task s)"
  "is_server (ts_task (tryToGenerateDefaultOutputDesc s)) = is_server (ts_task s)"
  "tk_syncResultToPeer (ts_task (tryToGenerateDefaultOutputDesc s)) = tk_syncResultToPeer (ts_task s)"
  by (simp_all add: tryToGenerateDefaultOutputDesc_def is_server_def Let_def)

lemma set_remove_nth: "i < length xs \<Longrightarrow> set xs = insert (xs ! i) (set (take i xs @ drop (i + 1) xs))"
  by (metis (no_types, lifting) Suc_eq_plus1 Un_insert_right id_take_nth_drop list.simps(15) set_append)

lemma task_inv_stored:
  assumes "task_inv R k h s" and "d < k" and "k < 2 ^ 16" and "dc_state (h d) \<noteq> Synced" and "dc_state c = Synced"
    and "ts_seqList s' = ts_seqList s - {seqof d}" and "written s' = written s @ batch_result R d"
    and "tk_id (ts_task s') = tk_id (ts_task s)" and "is_server (ts_task s') = is_server (ts_task s)"
    and "tk_syncResultToPeer (ts_task s') = tk_syncResultToPeer (ts_task s)"
    and "ts_onSubTaskFinished s' = ts_onSubTaskFinished s" and "ts_sqlReader s' = ts_sqlReader s"
    and "ts_currentSeq s' = ts_currentSeq s" and "ts_finished s' = ts_finished s"
  shows "task_inv R k (h(d := c)) s'"
proof -
  let ?open = "{x. x < k \<and> dc_state (h x) \<noteq> Synced}" and ?done = "{x. x < k \<and> dc_state (h x) = Synced}"
  have sets: "{x. x < k \<and> dc_state ((h(d := c)) x) \<noteq> Synced} = ?open - {d}"
    "{x. x < k \<and> dc_state ((h(d := c)) x) = Synced} = insert d ?done"
    using assms(2,5) by auto
  have "seqof ` (?open - {d}) = seqof ` ?open - {seqof d}"
  proof -
    have "?open \<subseteq> {..<2 ^ 16}" using assms(3) by auto
    from inj_on_image_set_diff [OF inj_on_seqof [OF this], of ?open "{d}"] assms(2,4) show ?thesis by simp
  qed
  moreover have "d \<notin> ?done" using assms(4) by simp
  ultimately show ?thesis using assms(1,6-14)
    unfolding task_inv_def sets by (simp add: add.commute)
qed

lemma set_data_simps [simp]:
  "psi_heap (set_data d c w) = psi_heap w" "ec_data (set_data d c w) = (ec_data w)(d := c)"
  "set_data d c (set_data d c' w) = set_data d c w" "set_task a s (set_task a s' w) = set_task a s w"
  by (simp_all add: set_data_def set_task_def)

text \<open>The state of a task after a batch with the lines \<open>found\<close> was stored.\<close>

definition stored_task :: "u32 \<Rightarrow> bytes list \<Rightarrow> TaskState \<Rightarrow> TaskState" where
  "stored_task seq found s = s\<lparr>ts_task := ts_task (tryToGenerateDefaultOutputDesc s), ts_writer := Some (written s @ found),
     ts_seqList := ts_seqList s - {seq}, ts_successCount := ts_successCount s + 1\<rparr>"

lemma store_fields:
  assumes "ec_data v d = c" and "dc_state c = Intersectioned" and "dc_taskState c = a"
    and "dc_seq c \<in> ts_seqList (psi_heap v a)" and "ts_onSubTaskFinished (psi_heap v a)"
    and "\<not> tk_syncResultToPeer (ts_task (psi_heap v a))"
  shows "fst (dc_storePSIResult (\<lambda>_. False) d v) = set_data d (c\<lparr>dc_state := Synced\<rparr>)
    (ec_scan (set_task a (stored_task (dc_seq c) (dc_intersectionData c) (psi_heap v a)) (set_data d (c\<lparr>dc_state := Stored\<rparr>) v)))"
proof -
  let ?s = "fst (ts_storePSIResult (\<lambda>_. False) (dc_intersectionData c) (psi_heap v a))"
  have er: "eraseFinishedTaskSeq (\<lambda>_. False) (dc_seq c) True ?s =
      (stored_task (dc_seq c) (dc_intersectionData c) (psi_heap v a), [Did SubTaskFinished])"
    using assms(4,5) by (simp add: eraseFinishedTaskSeq_def store_quiet stored_task_def Let_def)
  have "\<not> tk_syncResultToPeer (ts_task ?s)" using assms(6) by (simp add: store_quiet)
  then show ?thesis
    by (simp add: dc_storePSIResult_def assms(1-3) Let_def split_beta store_quiet(2) finish_sub_task_def er)
qed

text \<open>What the job of a finalized batch leaves behind once all of the server's data is there.\<close>

lemma job_fields:
  fixes w :: "'a ecdh_scheme" and d :: daddr and found :: "bytes list"
  defines "c \<equiv> ec_data w d" and "a \<equiv> dc_taskState (ec_data w d)"
  assumes "dc_state c = Finalized" and "dc_server c = Some sv" and "sc_loadFinished (ec_server w sv)"
    and "intersect_loop (sc_cipherData (ec_server w sv)) (dc_clientCipherData c) (dc_plainData c) 0
      (dc_intersectionData c) = (found, False)"
    and "dc_seq c \<in> ts_seqList (psi_heap w a)" and "ts_onSubTaskFinished (psi_heap w a)"
    and "\<not> tk_syncResultToPeer (ts_task (psi_heap w a))"
  shows "\<exists>cs cf. dc_state cs = Stored \<and> cf = c\<lparr>dc_state := Synced, dc_intersectionData := found\<rparr> \<and>
    fst (dc_tryToIntersectionAndStoreResult (\<lambda>_. False) d w) =
      set_data d cf (ec_scan (set_task a (stored_task (dc_seq c) found (psi_heap w a)) (set_data d cs w)))"
proof -
  let ?c = "c\<lparr>dc_state := Intersectioned, dc_intersectionData := found\<rparr>"
  have e: "dc_tryToIntersectionAndStoreResult (\<lambda>_. False) d w = dc_storePSIResult (\<lambda>_. False) d (set_data d ?c w)"
    using assms(3-6) by (simp add: dc_tryToIntersectionAndStoreResult_def c_def Let_def)
  have "fst (dc_storePSIResult (\<lambda>_. False) d (set_data d ?c w)) = set_data d (?c\<lparr>dc_state := Synced\<rparr>)
      (ec_scan (set_task a (stored_task (dc_seq c) found (psi_heap w a)) (set_data d (?c\<lparr>dc_state := Stored\<rparr>) w)))"
    using store_fields [of "set_data d ?c w" d ?c a] assms(7-9) by (simp add: c_def a_def)
  moreover have "?c\<lparr>dc_state := Synced\<rparr> = c\<lparr>dc_state := Synced, dc_intersectionData := found\<rparr>"
    by (rule DataCache.equality) simp_all
  ultimately show ?thesis unfolding e by (intro exI [of _ "?c\<lparr>dc_state := Stored\<rparr>"] exI) auto
qed

lemma found_result:
  assumes "dh_laws R V" and "d < length (rn_clientData R)" and "server_inv R c" and "sc_loadFinished c"
  shows "intersect_loop (sc_cipherData c) (client_cipher R d) (rn_clientData R ! d) 0 [] = (batch_result R d, False)"
proof -
  have len: "length (client_cipher R d) = length (rn_clientData R ! d)"
    by (simp add: client_cipher_def batchGetSharedPublicKey_def batchGetPublicKey_def)
  have "sc_cipherData c = (\<Union>j < length (rn_serverData R). set (server_cipher R j))"
    using assms(3,4) by (auto simp: server_inv_def)
  then have "intersect_loop (sc_cipherData c) (client_cipher R d) (rn_clientData R ! d) 0 [] =
      ([] @ filter (\<lambda>x. x \<in> set (concat (rn_serverData R))) (take (length (client_cipher R d)) (drop 0 (rn_clientData R ! d))), False)"
    using client_cipher_nth [OF assms(2) _ assms(1)] len by (intro intersect_loop_filter) simp
  then show ?thesis by (simp add: len batch_result_def)
qed

lemma inv_stored:
  assumes i: "run_inv R w" and "length (rn_clientData R) < 2 ^ 16" and d: "d < ec_nextData w"
    and "dc_state (ec_data w d) \<noteq> Synced" and cs: "dc_state cs = Stored"
    and cf: "data_inv R d cf" "dc_state cf = Synced"
    and jobs: "set js \<union> {d} = set (ec_jobs w)"
  shows "run_inv R (set_data d cf (ec_scan (set_task (rn_addr R)
    (stored_task (seqof d) (batch_result R d) (psi_heap w (rn_addr R))) (set_data d cs (w\<lparr>ec_jobs := js\<rparr>)))))"
proof -
  let ?k = "ec_nextData w" and ?h1 = "(ec_data w)(d := cs)" and ?h2 = "(ec_data w)(d := cf)"
  have i0: "run_inv0 R w" using i by (simp add: run_inv_def)
  then have k: "?k < 2 ^ 16" using assms(2) by (simp add: run_inv0_def)
  have "cache_inv (rn_task R) ?k ?h1 (ec_taskCache w)"
    by (rule cache_inv_data [of _ _ "ec_data w"]) (use i0 assms(4) in \<open>auto simp: run_inv0_def split: if_splits\<close>)
  note sc = scan_tasks_inv [OF this, where cap = "ec_capacity w"]
  have cache: "cache_inv (rn_task R) ?k ?h2 (fst (scan_tasks ?h1 (ec_taskCache w) (ec_capacity w)))"
    by (rule cache_inv_data [OF sc(1)]) (use cs cf(2) in \<open>auto split: if_splits\<close>)
  have task: "task_inv R ?k ?h2 (stored_task (seqof d) (batch_result R d) (psi_heap w (rn_addr R)))"
    by (rule task_inv_stored [of R ?k "ec_data w" "psi_heap w (rn_addr R)"])
       (use i0 d k assms(4) cf(2) in \<open>simp_all add: run_inv0_def stored_task_def written_def\<close>)
  have ready: "x \<in> set js" if "sc_loadFinished (ec_server w (rn_store R))" "x < ?k" "dc_state (?h2 x) = Finalized" for x
  proof -
    have "x \<noteq> d" using that(3) cf(2) by auto
    then show ?thesis using i that jobs by (auto simp: run_inv_def jobs_ready_def)
  qed
  have js: "\<forall>x \<in> set js. x < ?k" using i0 jobs by (auto simp: run_inv0_def)
  let ?w = "set_data d cf (ec_scan (set_task (rn_addr R)
    (stored_task (seqof d) (batch_result R d) (psi_heap w (rn_addr R))) (set_data d cs (w\<lparr>ec_jobs := js\<rparr>))))"
  have f: "ec_data ?w = ?h2" "ec_nextData ?w = ?k" "ec_server ?w = ec_server w" "ec_crypto ?w = ec_crypto w"
    "ec_reader ?w = ec_reader w" "ec_serverDataStore ?w = ec_serverDataStore w" "psi_pendingTasks ?w = psi_pendingTasks w"
    "psi_started ?w = psi_started w" "ec_taskCache ?w = fst (scan_tasks ?h1 (ec_taskCache w) (ec_capacity w))"
    "ec_jobs ?w = js @ snd (snd (scan_tasks ?h1 (ec_taskCache w) (ec_capacity w)))"
    "psi_heap ?w (rn_addr R) = stored_task (seqof d) (batch_result R d) (psi_heap w (rn_addr R))"
    by (simp_all add: set_data_def set_task_def)
  show ?thesis
    using i0 cache task ready js sc(2) cf(1)
    unfolding run_inv_def run_inv0_def jobs_ready_def psi_getTaskByID_def getServerCipherDataCache_def f by auto
qed

text \<open>The two outcomes of a job: nothing to do yet or any more, or the batch is stored.\<close>

definition job_done :: "ecdh_run \<Rightarrow> daddr \<Rightarrow> DataCache \<Rightarrow> ecdh \<Rightarrow> ecdh" where
  "job_done R d cs w = set_data d ((ec_data w d)\<lparr>dc_state := Synced, dc_intersectionData := batch_result R d\<rparr>)
     (ec_scan (set_task (rn_addr R) (stored_task (seqof d) (batch_result R d) (psi_heap w (rn_addr R))) (set_data d cs w)))"

definition job_due :: "ecdh_run \<Rightarrow> daddr \<Rightarrow> ecdh \<Rightarrow> bool" where
  "job_due R d w \<longleftrightarrow> dc_state (ec_data w d) = Finalized \<and> sc_loadFinished (ec_server w (rn_store R))"

lemma job_cases:
  assumes "run_inv R w" and "dh_laws R V" and "i < length (ec_jobs w)"
  obtains d js where "set (ec_jobs w) = insert d (set js)" and "length js < length (ec_jobs w)" and "d < ec_nextData w"
    and "\<not> job_due R d w" and "fst (run_job (\<lambda>_. False) i w) = w\<lparr>ec_jobs := js\<rparr>"
  | d js cs where "set (ec_jobs w) = insert d (set js)" and "d < ec_nextData w" and "job_due R d w" and "dc_state cs = Stored"
    and "fst (run_job (\<lambda>_. False) i w) = job_done R d cs (w\<lparr>ec_jobs := js\<rparr>)"
proof -
  define d where "d = ec_jobs w ! i"
  define js where "js = take i (ec_jobs w) @ drop (i + 1) (ec_jobs w)"
  have jobs: "set (ec_jobs w) = insert d (set js)" using set_remove_nth [OF assms(3)] by (simp add: d_def js_def)
  have len: "length js < length (ec_jobs w)" using assms(3) by (simp add: js_def)
  have i0: "run_inv0 R w" using assms(1) by (simp add: run_inv_def)
  then have d: "d < ec_nextData w" using jobs by (auto simp: run_inv0_def)
  then have di: "data_inv R d (ec_data w d)" using i0 by (simp add: run_inv0_def)
  let ?w = "w\<lparr>ec_jobs := js\<rparr>"
  have r: "fst (run_job (\<lambda>_. False) i w) = fst (dc_tryToIntersectionAndStoreResult (\<lambda>_. False) d ?w)"
    using assms(3) by (simp add: run_job_def d_def js_def)
  show ?thesis
  proof (cases "job_due R d w")
    case False
    then have "fst (dc_tryToIntersectionAndStoreResult (\<lambda>_. False) d ?w) = ?w"
      using di by (auto simp: dc_tryToIntersectionAndStoreResult_def Let_def data_inv_def job_due_def)
    with that(1) [OF jobs len d False] r show ?thesis by simp
  next
    case True
    then have fin: "dc_state (ec_data w d) = Finalized" "sc_loadFinished (ec_server w (rn_store R))" by (simp_all add: job_due_def)
    have "intersect_loop (sc_cipherData (ec_server w (rn_store R))) (dc_clientCipherData (ec_data w d))
        (dc_plainData (ec_data w d)) 0 (dc_intersectionData (ec_data w d)) = (batch_result R d, False)"
      using found_result [OF assms(2), of d "ec_server w (rn_store R)"] i0 d di fin by (simp add: run_inv0_def data_inv_def)
    moreover have "seqof d \<in> ts_seqList (psi_heap w (rn_addr R))" "ts_onSubTaskFinished (psi_heap w (rn_addr R))"
      "\<not> tk_syncResultToPeer (ts_task (psi_heap w (rn_addr R)))"
      using i0 d fin by (auto simp: run_inv0_def task_inv_def)
    ultimately obtain cs where c: "dc_state cs = Stored" "fst (dc_tryToIntersectionAndStoreResult (\<lambda>_. False) d ?w) = job_done R d cs ?w"
      using job_fields [of ?w d "rn_store R" "batch_result R d"] di fin by (auto simp: data_inv_def job_done_def)
    with that(2) [OF jobs d True c(1)] r show ?thesis by simp
  qed
qed

lemma inv_job:
  assumes "run_inv R w" and "length (rn_clientData R) < 2 ^ 16" and "dh_laws R V"
  shows "run_inv R (fst (run_job (\<lambda>_. False) i w))"
proof (cases "i < length (ec_jobs w)")
  case True
  from assms(1,3) True show ?thesis
  proof (cases rule: job_cases)
    case (1 d js)
    then show ?thesis using assms(1)
      by (auto simp: run_inv_def run_inv0_def jobs_ready_def job_due_def psi_getTaskByID_def getServerCipherDataCache_def)
  next
    case (2 d js cs)
    then have "data_inv R d (ec_data w d)" using assms(1) by (simp add: run_inv_def run_inv0_def)
    then have "run_inv R (job_done R d cs (w\<lparr>ec_jobs := js\<rparr>))"
      using inv_stored [OF assms(1,2) 2(2) _ 2(4), of "(ec_data w d)\<lparr>dc_state := Synced, dc_intersectionData := batch_result R d\<rparr>" js]
        2(1,3) by (simp add: data_inv_def job_done_def job_due_def)
    then show ?thesis using 2(5) by simp
  qed
qed (use assms(1) in \<open>simp add: run_job_def\<close>)

end
