(* ===== verification/EcdhResult.thy ===== *)
theory EcdhResult
  imports EcdhRun
begin

text \<open>
  The results on ECDH-PSI: whenever the task counts as finished, the lines written are the reference
  intersection; nothing else is ever written; once everything was delivered and the pool ran, the task is
  finished; the messages the runs assume of the server are those the model of the server sends. Then
  properties of single operations: the choice of the algorithms, the accounting of the cache, what a
  refused submission answers, what the 16-bit sequence numbers of the transport lose.
\<close>

section \<open>The result\<close>

lemma client_step_inv:
  assumes "run_inv R w" and "dh_laws R V" and "length (rn_clientData R) < 2 ^ 16" and "length (rn_serverData R) < 2 ^ 16"
  shows "run_inv R (fst (client_step R e w))"
proof (cases e)
  case (ServerBatch j)
  then show ?thesis using assms inv_server_batch [of R w j] by (simp add: run_inv_def)
next
  case BatchCount
  then show ?thesis using assms inv_batch_count [of R w] by (simp add: run_inv_def)
qed (use assms in \<open>simp_all add: inv_blind inv_response inv_job\<close>)

lemma client_run_inv:
  assumes "run_inv R w" and "dh_laws R V" and "length (rn_clientData R) < 2 ^ 16" and "length (rn_serverData R) < 2 ^ 16"
  shows "run_inv R (fst (run_steps (client_step R) es w))"
  by (rule run_steps_inv [where P = "run_inv R"]) (use assms client_step_inv in blast)+

lemma mset_filter_concat: "mset (filter Q (concat xs)) = (\<Sum>d < length xs. mset (filter Q (xs ! d)))"
proof (induction xs rule: rev_induct)
  case (snoc x xs)
  have "(\<Sum>d < length xs. mset (filter Q ((xs @ [x]) ! d))) = (\<Sum>d < length xs. mset (filter Q (xs ! d)))"
    by (rule sum.cong) (simp_all add: nth_append)
  with snoc show ?case by (simp add: nth_append)
qed simp

lemma mset_reference: "mset (psi_reference R) = (\<Sum>d < length (rn_clientData R). mset (batch_result R d))"
  by (simp only: psi_reference_def batch_result_def mset_filter_concat)

text \<open>
  (C2) The result of ECDH-PSI is the intersection. The client starts after the handshake with any data in
  any batches, fewer than 2^16 on either side; it blinds, receives the server's batches, their number
  and the answers in any order and any multiplicity, and runs the waiting jobs in any order. Whenever the
  task then counts as finished, the lines written are, as a multiset, exactly the client's items that the
  server has, provided the curve library satisfies the Diffie-Hellman laws on the points of the data.
\<close>

theorem ecdh_psi_correct:
  assumes "client_ready R w" and "dh_laws R V"
    and "length (rn_clientData R) < 2 ^ 16" and "length (rn_serverData R) < 2 ^ 16"
    and "finished (psi_heap (fst (run_steps (client_step R) es w)) (rn_addr R))"
  shows "mset (written (psi_heap (fst (run_steps (client_step R) es w)) (rn_addr R))) = mset (psi_reference R)"
proof -
  define w' where "w' = fst (run_steps (client_step R) es w)"
  let ?k = "ec_nextData w'"
  have "run_inv R w'" unfolding w'_def by (rule client_run_inv [OF ready_inv [OF assms(1)] assms(2-4)])
  then have t: "task_inv R ?k (ec_data w') (psi_heap w' (rn_addr R))" by (simp add: run_inv_def run_inv0_def)
  have f: "ts_finished (psi_heap w' (rn_addr R))" "ts_seqList (psi_heap w' (rn_addr R)) = {}"
    using assms(5) by (simp_all add: finished_def w'_def)
  with t have "?k = length (rn_clientData R)" "{d. d < ?k \<and> dc_state (ec_data w' d) \<noteq> Synced} = {}"
    by (simp_all add: task_inv_def)
  then have "{d. d < ?k \<and> dc_state (ec_data w' d) = Synced} = {..<length (rn_clientData R)}" by auto
  with t show ?thesis by (simp add: task_inv_def mset_reference w'_def)
qed

text \<open>
  (C14) Nothing wrong is ever written: at every moment of such a run, finished or not, the lines written
  are part of the reference intersection, with multiplicity.
\<close>

theorem ecdh_psi_sound:
  assumes "client_ready R w" and "dh_laws R V"
    and "length (rn_clientData R) < 2 ^ 16" and "length (rn_serverData R) < 2 ^ 16"
  shows "mset (written (psi_heap (fst (run_steps (client_step R) es w)) (rn_addr R))) \<subseteq># mset (psi_reference R)"
proof -
  define w' where "w' = fst (run_steps (client_step R) es w)"
  let ?k = "ec_nextData w'" and ?n = "length (rn_clientData R)"
  have "run_inv R w'" unfolding w'_def by (rule client_run_inv [OF ready_inv [OF assms(1)] assms(2-4)])
  then have t: "task_inv R ?k (ec_data w') (psi_heap w' (rn_addr R))" "?k \<le> ?n" by (simp_all add: run_inv_def run_inv0_def)
  let ?done = "{d. d < ?k \<and> dc_state (ec_data w' d) = Synced}"
  have "?done \<subseteq> {..<?n}" using t(2) by auto
  from sum.subset_diff [OF this, of "\<lambda>d. mset (batch_result R d)"]
  have "mset (psi_reference R) = (\<Sum>d \<in> {..<?n} - ?done. mset (batch_result R d)) + (\<Sum>d \<in> ?done. mset (batch_result R d))"
    by (simp add: mset_reference)
  with t(1) show ?thesis by (simp add: task_inv_def w'_def)
qed

section \<open>The run completes\<close>

lemma progress_append: "progress R w (set_server (rn_store R) (appendServerCipherData q xs (ec_server w (rn_store R))) w)"
  by (rule progress_server) (auto simp: appendServerCipherData_def Let_def)

lemma progress_count: "0 \<le> n \<Longrightarrow> progress R w (set_server (rn_store R) (setServerDataBatchCount n (ec_server w (rn_store R))) w)"
  by (rule progress_server) (auto simp: setServerDataBatchCount_def Let_def)

lemma progress_job_done:
  assumes "dc_state cs = Stored"
  shows "progress R w (job_done R d cs w)"
proof -
  have "ec_nextData (set_data d c v) = ec_nextData v" "ec_server (set_data d c v) = ec_server v" for c and v :: ecdh
    by (simp_all add: set_data_def)
  then show ?thesis by (auto simp: progress_def job_done_def stored_task_def)
qed

lemma progress_jobs [simp]: "progress R w (w\<lparr>ec_jobs := js\<rparr>)" "progress R (w\<lparr>ec_jobs := js\<rparr>) w' \<longleftrightarrow> progress R w w'"
  by (simp_all add: progress_def)

lemma server_batch_world:
  assumes "run_inv R w" and "j < length (rn_serverData R)" and "length (rn_serverData R) < 2 ^ 16"
  shows "fst (handleServerBlindData throws (server_batch R j) w) =
    ec_scan (set_server (rn_store R) (appendServerCipherData (seqof j) (server_cipher R j) (ec_server w (rn_store R))) w)"
  using assms run_inv_task [OF assms(1)] wire_seqof [of j]
  by (simp add: handleServerBlindData_def checkAndObtainTaskState_def server_batch_def blind_message_def server_cipher_def)

lemma count_world:
  assumes "run_inv R w" and "length (rn_serverData R) < 2 ^ 16"
  shows "fst (onRecvSyncDataInfoMsg throws (server_count R) w) =
    ec_scan (set_server (rn_store R) (setServerDataBatchCount (int (length (rn_serverData R))) (ec_server w (rn_store R))) w)"
proof -
  have "uint (of_nat (length (rn_serverData R)) :: u32) = int (length (rn_serverData R))"
    using assms(2) by (simp add: unsigned_of_nat take_bit_nat_eq_self)
  then show ?thesis using run_inv_task [OF assms(1)]
    by (simp add: onRecvSyncDataInfoMsg_def server_count_def batch_count_message_def)
qed

lemma client_step_progress:
  assumes "run_inv R w" and "dh_laws R V" and "length (rn_clientData R) < 2 ^ 16" and "length (rn_serverData R) < 2 ^ 16"
  shows "progress R w (fst (client_step R e w))"
proof (cases e)
  case Blind
  then show ?thesis using assms inv_blind [of R w] by simp
next
  case (ServerBatch j)
  then show ?thesis using assms by (simp add: server_batch_world progress_append)
next
  case BatchCount
  then show ?thesis using assms by (simp add: count_world progress_count)
next
  case (Response d)
  have "progress R w (set_data d' (setClientCipherData x (ec_data w d')) w)" for d' x
    by (simp add: progress_def set_data_def setClientCipherData_def)
  then show ?thesis using Response by (simp add: handleEvaluateResponse_def split: option.splits)
next
  case (Job i)
  show ?thesis
  proof (cases "i < length (ec_jobs w)")
    case True
    from assms(1,2) True show ?thesis
      by (cases rule: job_cases) (use Job progress_job_done [of _ R "w\<lparr>ec_jobs := js\<rparr>" for js] in \<open>simp_all\<close>)
  qed (use Job in \<open>simp add: run_job_def\<close>)
qed

text \<open>What a delivery leaves behind, provided the request it answers was sent.\<close>

fun arrived :: "ecdh_run \<Rightarrow> ecdh \<Rightarrow> client_event \<Rightarrow> bool" where
  "arrived R w (ServerBatch j) \<longleftrightarrow> seqof j \<in> sc_seqList (ec_server w (rn_store R))"
| "arrived R w BatchCount \<longleftrightarrow> sc_batchCount (ec_server w (rn_store R)) \<noteq> - 1"
| "arrived R w (Response d) \<longleftrightarrow> d < ec_nextData w \<and> dc_state (ec_data w d) \<noteq> Evaluating"
| "arrived R w _ \<longleftrightarrow> True"

lemma arrived_progress: "progress R w w' \<Longrightarrow> arrived R w e \<Longrightarrow> arrived R w' e"
  by (cases e) (auto simp: progress_def)

definition deliveries :: "ecdh_run \<Rightarrow> client_event set" where
  "deliveries R = insert BatchCount (ServerBatch ` {..<length (rn_serverData R)} \<union> Response ` {..<length (rn_clientData R)})"

lemma response_found:
  assumes "run_inv R w" and "d < ec_nextData w" and "dc_state (ec_data w d) = Evaluating"
  shows "getSubTaskCache (rn_task R) (seqof d) w = Some d"
proof -
  have "cache_inv (rn_task R) (ec_nextData w) (ec_data w) (ec_taskCache w)" using assms(1) by (simp add: run_inv_def run_inv0_def)
  from sub_tasks_set(1,3) [OF this] assms(2,3) show ?thesis
    by (simp add: getSubTaskCache_def smap_ok_distinct)
qed

lemma arrives:
  assumes "run_inv R w" and "e \<in> deliveries R" and "ts_finished (psi_heap w (rn_addr R))"
    and "length (rn_clientData R) < 2 ^ 16" and "length (rn_serverData R) < 2 ^ 16"
  shows "arrived R (fst (client_step R e w)) e"
proof -
  have k: "ec_nextData w = length (rn_clientData R)" using assms(1,3) by (simp add: run_inv_def run_inv0_def task_inv_def)
  consider j where "e = ServerBatch j" "j < length (rn_serverData R)" | "e = BatchCount"
    | d where "e = Response d" "d < length (rn_clientData R)"
    using assms(2) by (auto simp: deliveries_def)
  then show ?thesis
  proof cases
    case 1
    then show ?thesis using assms(1,5) by (simp add: server_batch_world set_server_def appendServerCipherData_def Let_def)
  next
    case 2
    then show ?thesis using assms(1,5) by (simp add: count_world set_server_def setServerDataBatchCount_def Let_def)
  next
    case 3
    show ?thesis
    proof (cases "dc_state (ec_data w d) = Evaluating")
      case True
      then have "getSubTaskCache (rn_task R) (seqof d) w = Some d" using response_found [OF assms(1)] 3 k by simp
      then show ?thesis using 3 k assms(4)
        by (simp add: handleEvaluateResponse_def response_def wire_seqof set_data_def setClientCipherData_def)
    next
      case False
      have "progress R w (fst (handleEvaluateResponse m w))" for m
        by (auto simp: handleEvaluateResponse_def progress_def set_data_def setClientCipherData_def split: option.splits)
      from arrived_progress [OF this, of e] False 3 k show ?thesis by simp
    qed
  qed
qed

lemma run_arrives:
  fixes es :: "client_event list"
  assumes "run_inv R w" and "ts_finished (psi_heap w (rn_addr R))" and "dh_laws R V"
    and "length (rn_clientData R) < 2 ^ 16" and "length (rn_serverData R) < 2 ^ 16"
  defines "w' \<equiv> fst (run_steps (client_step R) es w)"
  shows "ts_finished (psi_heap w' (rn_addr R)) \<and> progress R w w' \<and> (\<forall>e \<in> set es \<inter> deliveries R. arrived R w' e)"
  unfolding w'_def using assms(1,2)
proof (induction es arbitrary: w)
  case (Cons e es)
  let ?w = "fst (client_step R e w)"
  have i: "run_inv R ?w" by (rule client_step_inv [OF Cons.prems(1) assms(3-5)])
  have p: "progress R w ?w" by (rule client_step_progress [OF Cons.prems(1) assms(3-5)])
  then have f: "ts_finished (psi_heap ?w (rn_addr R))" using Cons.prems(2) by (simp add: progress_def)
  note IH = Cons.IH [OF i f]
  have "arrived R (fst (run_steps (client_step R) es ?w)) e" if "e \<in> deliveries R"
    using arrived_progress [of R ?w] IH arrives [OF Cons.prems(1) that Cons.prems(2) assms(4,5)] by blast
  then show ?case using IH progress_trans [OF p] by (auto simp: run_steps_Cons simp del: run_steps.simps client_step.simps)
qed simp

lemma empty_pool_finished:
  assumes "run_inv R w" and "ts_finished (psi_heap w (rn_addr R))" and "\<forall>e \<in> deliveries R. arrived R w e"
    and "ec_jobs w = []" and "length (rn_serverData R) < 2 ^ 16"
  shows "finished (psi_heap w (rn_addr R))"
proof -
  let ?n = "length (rn_serverData R)" and ?c = "ec_server w (rn_store R)"
  obtain J where J: "J \<subseteq> {..<?n}" "sc_seqList ?c = seqof ` J" "sc_batchCount ?c = - 1 \<or> sc_batchCount ?c = int ?n"
    "sc_loadFinished ?c \<longleftrightarrow> sc_batchCount ?c = int ?n \<and> J = {..<?n}"
    using assms(1) unfolding run_inv_def run_inv0_def server_inv_def by blast
  have "j \<in> J" if "j < ?n" for j
  proof -
    have "ServerBatch j \<in> deliveries R" using that by (simp add: deliveries_def)
    with assms(3) have "arrived R w (ServerBatch j)" by (rule bspec)
    then have "seqof j \<in> seqof ` J" using J(2) by simp
    then obtain j' where "j' \<in> J" "seqof j = seqof j'" by blast
    with J(1) that assms(5) seqof_inj [of j j'] show ?thesis by auto
  qed
  moreover have "sc_batchCount ?c \<noteq> - 1" using assms(3) by (auto simp: deliveries_def)
  ultimately have "sc_loadFinished ?c" using J by auto
  then have "dc_state (ec_data w d) \<noteq> Finalized" if "d < ec_nextData w" for d
    using assms(1,4) that by (auto simp: run_inv_def jobs_ready_def)
  moreover have k: "ec_nextData w = length (rn_clientData R)" using assms(1,2) by (simp add: run_inv_def run_inv0_def task_inv_def)
  moreover have "Response d \<in> deliveries R" if "d < ec_nextData w" for d using that k by (simp add: deliveries_def)
  then have "arrived R w (Response d)" if "d < ec_nextData w" for d using assms(3) that by blast
  then have "dc_state (ec_data w d) \<noteq> Evaluating" if "d < ec_nextData w" for d using that by simp
  moreover have "data_inv R d (ec_data w d)" if "d < ec_nextData w" for d
    using assms(1) that by (simp add: run_inv_def run_inv0_def)
  ultimately have "dc_state (ec_data w d) = Synced" if "d < ec_nextData w" for d
    using that unfolding data_inv_def by blast
  then show ?thesis using assms(1,2) by (auto simp: finished_def run_inv_def run_inv0_def task_inv_def)
qed

definition unsynced :: "ecdh \<Rightarrow> nat" where
  "unsynced w = card {d. d < ec_nextData w \<and> dc_state (ec_data w d) \<noteq> Synced}"

lemma job_shrinks:
  assumes "run_inv R w" and "dh_laws R V" and "ec_jobs w \<noteq> []"
  defines "w' \<equiv> fst (run_job (\<lambda>_. False) 0 w)"
  shows "unsynced w' < unsynced w \<or> unsynced w' = unsynced w \<and> length (ec_jobs w') < length (ec_jobs w)"
proof -
  have "0 < length (ec_jobs w)" using assms(3) by simp
  with assms(1,2) show ?thesis
  proof (cases rule: job_cases)
    case (1 d js)
    then show ?thesis by (simp add: w'_def unsynced_def)
  next
    case (2 d js cs)
    let ?open = "{x. x < ec_nextData w \<and> dc_state (ec_data w x) \<noteq> Synced}"
    have "ec_nextData (set_data d c v) = ec_nextData v" for c and v :: ecdh by (simp add: set_data_def)
    then have "{x. x < ec_nextData w' \<and> dc_state (ec_data w' x) \<noteq> Synced} = ?open - {d}"
      unfolding w'_def 2(5) job_done_def by auto
    moreover have "d \<in> ?open" using 2(2,3) by (simp add: job_due_def)
    then have "card (?open - {d}) < card ?open" by (intro card_Diff1_less) simp_all
    ultimately show ?thesis by (simp only: unsynced_def) simp
  qed
qed

lemma drain:
  assumes "run_inv R w" and "dh_laws R V" and "length (rn_clientData R) < 2 ^ 16" and "length (rn_serverData R) < 2 ^ 16"
  shows "\<exists>n. ec_jobs (fst (run_steps (client_step R) (replicate n (Job 0)) w)) = []"
  using assms(1)
proof (induction w rule: wf_induct_rule [OF wf_inv_image [OF wf_lex_prod [OF wf_less_than wf_less_than]],
      where f1 = "\<lambda>w. (unsynced w, length (ec_jobs w))"])
  case (1 w)
  show ?case
  proof (cases "ec_jobs w = []")
    case True
    then have "ec_jobs (fst (run_steps (client_step R) (replicate 0 (Job 0)) w)) = []" by simp
    then show ?thesis by blast
  next
    case False
    let ?w = "fst (client_step R (Job 0) w)"
    have "run_inv R ?w" by (rule client_step_inv [OF 1(2) assms(2-4)])
    moreover have "unsynced ?w < unsynced w \<or> unsynced ?w = unsynced w \<and> length (ec_jobs ?w) < length (ec_jobs w)"
      using job_shrinks [OF 1(2) assms(2) False] by simp
    ultimately obtain n where "ec_jobs (fst (run_steps (client_step R) (replicate n (Job 0)) ?w)) = []"
      using 1(1) [of ?w] by auto
    then have "ec_jobs (fst (run_steps (client_step R) (replicate (Suc n) (Job 0)) w)) = []"
      by (simp only: replicate_Suc run_steps_Cons fst_conv)
    then show ?thesis by blast
  qed
qed

lemma run_completes:
  assumes "client_ready R w" and "dh_laws R V"
    and "length (rn_clientData R) < 2 ^ 16" and "length (rn_serverData R) < 2 ^ 16"
    and "ts_finished (psi_heap (fst (run_steps (client_step R) es1 w)) (rn_addr R))" and "deliveries R \<subseteq> set es2"
  shows "\<exists>n. finished (psi_heap (fst (run_steps (client_step R) (es1 @ es2 @ replicate n (Job 0)) w)) (rn_addr R))"
proof -
  define w1 where "w1 = fst (run_steps (client_step R) es1 w)"
  define w2 where "w2 = fst (run_steps (client_step R) es2 w1)"
  have i1: "run_inv R w1" unfolding w1_def by (rule client_run_inv [OF ready_inv [OF assms(1)] assms(2-4)])
  then have i2: "run_inv R w2" unfolding w2_def by (rule client_run_inv [OF _ assms(2-4)])
  have a2: "ts_finished (psi_heap w2 (rn_addr R))" "\<forall>e \<in> deliveries R. arrived R w2 e"
    using run_arrives [OF i1 _ assms(2-4), of es2] assms(5,6) by (auto simp: w1_def w2_def)
  obtain n where n: "ec_jobs (fst (run_steps (client_step R) (replicate n (Job 0)) w2)) = []"
    using drain [OF i2 assms(2-4)] by blast
  define w3 where "w3 = fst (run_steps (client_step R) (replicate n (Job 0)) w2)"
  have i3: "run_inv R w3" unfolding w3_def by (rule client_run_inv [OF i2 assms(2-4)])
  have "ts_finished (psi_heap w3 (rn_addr R))" "progress R w2 w3"
    using run_arrives [OF i2 a2(1) assms(2-4), of "replicate n (Job 0)"] by (simp_all add: w3_def)
  then have "finished (psi_heap w3 (rn_addr R))"
    using empty_pool_finished [OF i3] a2(2) arrived_progress n assms(4) unfolding w3_def [symmetric] by blast
  then show ?thesis
    by (intro exI [of _ n]) (simp only: run_steps_append fst_conv w1_def w2_def w3_def)
qed

text \<open>
  (C3) ECDH-PSI completes. Once the client has read all of its data, deliver every batch of the server,
  their number and every answer at least once, in any order and mixed with anything else, and let the
  pool run: after finitely many jobs the task counts as finished (and then the previous property gives
  its result).
\<close>

theorem ecdh_psi_completes:
  assumes "client_ready R w" and "dh_laws R V"
    and "length (rn_clientData R) < 2 ^ 16" and "length (rn_serverData R) < 2 ^ 16"
    and "ts_finished (psi_heap (fst (run_steps (client_step R) es1 w)) (rn_addr R))" and "deliveries R \<subseteq> set es2"
  shows "\<exists>n. finished (psi_heap (fst (run_steps (client_step R) (es1 @ es2 @ replicate n (Job 0)) w)) (rn_addr R))"
  by (rule run_completes [OF assms])

section \<open>A concrete run\<close>

definition sample_crypto :: "bytes \<Rightarrow> ECDHCrypto" where
  "sample_crypto key = \<lparr>ek_privateKey = key,
     ek_cryptoBox = \<lparr>cb_hash = (\<lambda>x. x), cb_hashToCurve = (\<lambda>x. x), cb_ecMultiply = (\<lambda>p k. map (\<lambda>_. CHR ''0'') k @ p)\<rparr>\<rparr>"

definition sample_run :: ecdh_run where
  "sample_run = \<lparr>rn_task = ''t'', rn_addr = 0, rn_store = 0, rn_client = sample_crypto ''x'', rn_server = sample_crypto ''yy'',
     rn_clientData = [[''a'', ''b''], [''c'']], rn_serverData = [[''b''], [''c'', ''d'']]\<rparr>"

definition sample_client :: ecdh where
  "sample_client =
     \<lparr>psi_selfParty = ''A'', psi_selfEndPoint = ''n'', psi_agencies = [], psi_taskExpireTime = 5, psi_started = True,
      psi_heap = (\<lambda>_. (new_TaskState sample_task False False)\<lparr>ts_peerID := ''b'', ts_onSubTaskFinished := True, ts_reader := True\<rparr>),
      psi_next = 1, psi_pendingTasks = [(''t'', 0)], psi_processingDataResource = {}, psi_peerTasks = [], psi_msgQueue = [],
      ec_server = (\<lambda>_. new_ServerCipherDataCache), ec_nextServer = 1,
      ec_data = (\<lambda>_. new_DataCache [] 0 0 None []), ec_nextData = 0, ec_maxTaskCacheSize = 1024, ec_capacity = 0,
      ec_taskCache = [], ec_serverDataStore = [(''t'', 0)], ec_jobs = [],
      ec_crypto = (\<lambda>_. Some (sample_crypto ''x'')), ec_reader = (\<lambda>_. [[''a'', ''b''], [''c'']])\<rparr>"

lemma sample_laws: "dh_laws sample_run UNIV"
  by (auto simp: dh_laws_def sample_run_def sample_crypto_def point_def inj_on_def Let_def)

lemma sample_ready: "client_ready sample_run sample_client"
  by (simp add: client_ready_def sample_run_def sample_client_def new_TaskState_def sample_task_def sample_party_def
      is_server_def PartyType_Server_def psi_getTaskByID_def getServerCipherDataCache_def Let_def)

lemma sample_blinded: "ts_finished (psi_heap (fst (run_steps (client_step sample_run) [Blind] sample_client)) (rn_addr sample_run))"
  by (simp add: sample_run_def sample_client_def blindData_def blind_loop.simps new_TaskState_def sample_task_def
      sample_party_def is_server_def PartyType_Server_def self_resource_def ec_isFull_def psi_getTaskByID_def
      getServerCipherDataCache_def allocateSeq_def insertSubTaskCache_def sub_tasks_def set_data_def set_task_def
      new_DataCache_def batch_bytes_def Let_def)

lemma sample_deliveries:
  "deliveries sample_run \<subseteq> set [Response 1, ServerBatch 1, ServerBatch 1, BatchCount, Response 0, ServerBatch 0]"
  by (auto simp: deliveries_def sample_run_def)

lemma sample_bounds: "length (rn_clientData sample_run) < 2 ^ 16" "length (rn_serverData sample_run) < 2 ^ 16"
  by (simp_all add: sample_run_def)

lemma sample_reference: "psi_reference sample_run = [''b'', ''c'']"
  by (simp add: psi_reference_def sample_run_def)

theorem ecdh_psi_correct_witness:
  "\<exists>es. mset (written (psi_heap (fst (run_steps (client_step sample_run) es sample_client)) 0)) = {#''b'', ''c''#}"
proof -
  obtain n where "finished (psi_heap (fst (run_steps (client_step sample_run)
      ([Blind] @ [Response 1, ServerBatch 1, ServerBatch 1, BatchCount, Response 0, ServerBatch 0] @ replicate n (Job 0))
      sample_client)) (rn_addr sample_run))"
    using run_completes [OF sample_ready sample_laws sample_bounds sample_blinded sample_deliveries] by blast
  from ecdh_psi_correct [OF sample_ready sample_laws sample_bounds this] show ?thesis
    unfolding sample_reference by (auto simp: sample_run_def simp del: run_steps.simps)
qed

theorem ecdh_psi_sound_witness:
  "mset (written (psi_heap (fst (run_steps (client_step sample_run) [Blind, Response 0, ServerBatch 0] sample_client)) 0))
     \<subseteq># {#''b'', ''c''#}"
  using ecdh_psi_sound [OF sample_ready sample_laws sample_bounds, of "[Blind, Response 0, ServerBatch 0]"]
  unfolding sample_reference by (simp add: sample_run_def del: run_steps.simps)

theorem ecdh_psi_completes_witness:
  "\<exists>n. finished (psi_heap (fst (run_steps (client_step sample_run)
     ([Blind] @ [Response 1, ServerBatch 1, ServerBatch 1, BatchCount, Response 0, ServerBatch 0] @ replicate n (Job 0))
     sample_client)) (rn_addr sample_run))"
  by (rule ecdh_psi_completes [OF sample_ready sample_laws sample_bounds sample_blinded sample_deliveries])

section \<open>The server's side\<close>

text \<open>What a message carries: packet type, data, batch count and the sequence number as it arrives.\<close>

fun payload :: "psi_out \<Rightarrow> (u32 \<times> bytes list \<times> u32 \<times> u32) option" where
  "payload (SendPSI peer task m seq) = Some (pm_packetType m, pm_data m, pm_dataBatchCount m, wire_seq seq)"
| "payload _ = None"

definition content :: "PSIMessage \<Rightarrow> (u32 \<times> bytes list \<times> u32 \<times> u32) option" where
  "content m = Some (pm_packetType m, pm_data m, pm_dataBatchCount m, pm_seq m)"

definition server_ready :: "ecdh_run \<Rightarrow> taddr \<Rightarrow> ecdh \<Rightarrow> bool" where
  "server_ready R b v \<longleftrightarrow>
     (let s = psi_heap v b in
      tk_id (ts_task s) = rn_task R \<and> is_server (ts_task s) \<and> \<not> ts_sqlReader s \<and> ts_currentSeq s = 0 \<and> \<not> ts_finished s \<and>
      psi_getTaskByID (rn_task R) v = Some b \<and> psi_started v \<and>
      ec_crypto v b = Some (rn_server R) \<and> ec_reader v b = rn_serverData R)"

lemma payload_send [simp]:
  "payload (generateAndSendPPCMessage p t m q w) = Some (pm_packetType m, pm_data m, pm_dataBatchCount m, wire_seq q)"
  by (simp add: generateAndSendPPCMessage_def generatePPCMsg_def)

lemma server_blind_loop:
  assumes "psi_getTaskByID (tk_id (ts_task (psi_heap v b))) v \<noteq> None" and "psi_started v"
    and "\<not> ts_sqlReader (psi_heap v b)" and "\<not> ts_finished (psi_heap v b)"
    and "ts_currentSeq (psi_heap v b) = of_nat k" and "ec_crypto v b = Some ks"
  shows "map payload (fst (snd (blind_loop b True res sv bs n v))) =
      map (\<lambda>i. Some (ServerBlindedData, batchGetPublicKey ks (bs ! i), 0, wire_seq (seqof (k + i)))) [0..<length bs] \<and>
    snd (snd (blind_loop b True res sv bs n v)) = (n + length bs, False)"
  using assms
proof (induction bs arbitrary: k n v)
  case Nil
  then show ?case by (subst (1 2) blind_loop.simps) (simp add: Let_def)
next
  case (Cons x bs)
  let ?s = "snd (allocateSeq (psi_heap v b))"
  define v' where "v' = (set_task b ?s v)\<lparr>ec_reader := (ec_reader v)(b := bs)\<rparr>"
  have s: "ts_task ?s = ts_task (psi_heap v b)" "ts_sqlReader ?s = ts_sqlReader (psi_heap v b)"
    "ts_finished ?s = ts_finished (psi_heap v b)" "ts_currentSeq ?s = of_nat (Suc k)" "fst (allocateSeq (psi_heap v b)) = seqof k"
    using Cons.prems(5) by (simp_all add: allocateSeq_def seqof_def Let_def add.commute)
  have v': "psi_heap v' b = ?s" "psi_pendingTasks v' = psi_pendingTasks v" "psi_started v' = psi_started v" "ec_crypto v' = ec_crypto v"
    by (simp_all add: v'_def)
  note IH = Cons.IH [of v' "Suc k" "n + 1", unfolded v'(1) s]
  have IH': "map payload (fst (snd (blind_loop b True res sv bs (n + 1) v'))) =
      map (\<lambda>i. Some (ServerBlindedData, batchGetPublicKey ks (bs ! i), 0, wire_seq (seqof (Suc k + i)))) [0..<length bs] \<and>
    snd (snd (blind_loop b True res sv bs (n + 1) v')) = (n + 1 + length bs, False)"
    by (rule IH) (use Cons.prems v' in \<open>simp_all add: psi_getTaskByID_def\<close>)
  have step: "blind_loop b True res sv (x # bs) n v =
      (let r = blind_loop b True res sv bs (n + 1) v'
       in (fst r, generateAndSendPPCMessage (ts_peerID (psi_heap v b)) (tk_id (ts_task (psi_heap v b)))
             (blind_message True res ks x) (seqof k) v # fst (snd r), snd (snd r)))"
    using Cons.prems s(5) by (subst blind_loop.simps) (auto simp: Let_def split_beta v'_def prod_eq_iff)
  have "[0..<length (x # bs)] = 0 # map Suc [0..<length bs]" by (simp add: upt_conv_Cons map_Suc_upt del: upt_Suc)
  then show ?case using IH' unfolding step
    by (simp add: Let_def blind_message_def createPSIMessage_def comp_def)
qed

text \<open>
  (C22) The runs assume of the server exactly what it does: blinding on the server sends, batch after
  batch, the messages whose content is \<open>server_batch\<close>, then their number, and its answer to the request
  for a batch of the client has the content of \<open>response\<close>.
\<close>

theorem server_sends:
  assumes "server_ready R b v"
  shows "map payload (snd (blindData b v)) =
      map (content \<circ> server_batch R) [0..<length (rn_serverData R)] @ [content (server_count R)] \<and>
    (\<forall>d m. pm_taskID m = rn_task R \<and> pm_data m = batchGetPublicKey (rn_client R) (rn_clientData R ! d) \<and>
       pm_seq m = seqof d \<longrightarrow>
       map payload (snd (handleEvaluateRequest throws m v)) = [content (response R d)])"
proof -
  note r = assms [unfolded server_ready_def Let_def]
  have zero: "wire_seq 0 = 0" by (simp add: wire_seq_def)
  define res where "res = (case self_resource (ts_task (psi_heap v b)) of None \<Rightarrow> [] | Some r \<Rightarrow> dr_resourceID r)"
  define l where "l = blind_loop b True res (getServerCipherDataCache (rn_task R) v) (rn_serverData R) 0 v"
  have l: "map payload (fst (snd l)) = map (content \<circ> server_batch R) [0..<length (rn_serverData R)]"
    "snd (snd l) = (length (rn_serverData R), False)"
    using server_blind_loop [of v b 0 "rn_server R" res] r
    by (simp_all add: l_def content_def server_batch_def blind_message_def createPSIMessage_def comp_def)
  have "snd (blindData b v) = fst (snd l) @
      [generateAndSendPPCMessage (ts_peerID (psi_heap v b)) (rn_task R) (batch_count_message res (length (rn_serverData R))) 0 (fst l)]"
    using r l(2) unfolding blindData_def res_def [symmetric] l_def [symmetric]
    by (simp add: Let_def split_beta res_def [symmetric] l_def [symmetric])
  moreover have "content (server_count R) = Some (SyncDataBatchInfo, [], of_nat (length (rn_serverData R)), 0)"
    by (simp add: content_def server_count_def batch_count_message_def createPSIMessage_def)
  ultimately show ?thesis using l(1) r zero
    by (simp add: batch_count_message_def createPSIMessage_def handleEvaluateRequest_def checkAndObtainTaskState_def
        content_def response_def client_cipher_def)
qed

definition sample_server :: ecdh where
  "sample_server = sample_client
     \<lparr>psi_heap := (\<lambda>_. new_TaskState (sample_task\<lparr>tk_selfParty := sample_party ''b'' 1\<rparr>) False False),
      ec_crypto := (\<lambda>_. Some (sample_crypto ''yy'')), ec_reader := (\<lambda>_. [[''b''], [''c'', ''d'']])\<rparr>"

theorem server_sends_witness:
  "map payload (snd (blindData 0 sample_server)) =
     [content (server_batch sample_run 0), content (server_batch sample_run 1), content (server_count sample_run)]"
proof -
  have "server_ready sample_run 0 sample_server"
    by (simp add: server_ready_def sample_run_def sample_server_def sample_client_def new_TaskState_def sample_task_def
        sample_party_def is_server_def PartyType_Server_def psi_getTaskByID_def Let_def)
  from server_sends [OF this] have "map payload (snd (blindData 0 sample_server)) =
      map (content \<circ> server_batch sample_run) [0..<length (rn_serverData sample_run)] @ [content (server_count sample_run)]" by blast
  moreover have "[0..<length (rn_serverData sample_run)] = [0, 1]" by (simp add: sample_run_def upt_conv_Cons)
  ultimately show ?thesis by simp
qed

section \<open>The handshake\<close>

lemma cache_crypto [simp]:
  "ec_crypto (eraseCache t w) = ec_crypto w" "ec_crypto (snd (insertSubTaskCache t q a sv p w)) = ec_crypto w"
  by (auto simp: eraseCache_def eraseTaskCache_def insertSubTaskCache_def set_data_def Let_def split: option.splits)

lemma blind_loop_crypto: "ec_crypto (fst (blind_loop a srv res sv bs n w)) = ec_crypto w"
proof (induction bs arbitrary: n w)
  case Nil
  then show ?case by (subst blind_loop.simps) (simp add: Let_def)
next
  case (Cons b bs)
  then show ?case by (cases srv; subst blind_loop.simps; simp add: Let_def split_beta split: option.splits)
qed

lemma blindData_crypto [simp]: "ec_crypto (fst (blindData a w)) = ec_crypto w"
  by (simp add: blindData_def Let_def split_beta blind_loop_crypto)

lemma select_in: "selectCryptoAlgorithm as L \<noteq> - 1 \<Longrightarrow> selectCryptoAlgorithm as L \<in> set as \<inter> L"
  by (induction as L rule: selectCryptoAlgorithm.induct) (auto split: if_splits)

lemma select_none: "- 1 \<notin> set as \<Longrightarrow> selectCryptoAlgorithm as L = - 1 \<longleftrightarrow> set as \<inter> L = {}"
  by (induction as L rule: selectCryptoAlgorithm.induct) auto

lemma chosen_curve:
  "- 1 \<notin> set cs \<Longrightarrow> select_curve cf cs \<noteq> - 1 \<longleftrightarrow> set cs \<inter> set (cf_curves cf) \<noteq> {}"
  "select_curve cf cs \<noteq> - 1 \<Longrightarrow> select_curve cf cs \<in> set cs \<inter> set (cf_curves cf)"
  using select_in [of cs "set (cf_curves cf)"] select_none [of cs "set (cf_curves cf)"]
  by (auto simp: select_curve_def ECCCurve_SM2_def)

lemma chosen_hash:
  "- 1 \<notin> set hs \<Longrightarrow> select_hash cf hs \<noteq> - 1 \<longleftrightarrow> set hs \<inter> set (cf_hashList cf) \<noteq> {}"
  "select_hash cf hs \<noteq> - 1 \<Longrightarrow> select_hash cf hs \<in> set hs \<inter> set (cf_hashList cf)"
  using select_in [of hs "set (cf_hashList cf)"] select_none [of hs "set (cf_hashList cf)"]
  by (auto simp: select_hash_def HashImplName_SM3_def)

text \<open>
  (C24) The handshake agrees. When client and server share a curve and a hash algorithm, the server's
  answer to the client's request names one curve and one hash algorithm that both support, the server
  sets up exactly these, and a client that receives the answer for a pending task sets up exactly these
  too.
\<close>

theorem handshake_agrees:
  assumes "- 1 \<notin> set (cf_curves cc)" and "- 1 \<notin> set (cf_hashList cc)"
    and "set (cf_curves cc) \<inter> set (cf_curves cs) \<noteq> {}" and "set (cf_hashList cc) \<inter> set (cf_hashList cs) \<noteq> {}"
    and "sendHandshakeRequest (cf_curves cc) (cf_hashList cc) a w = [SendPSI peer t m q]"
    and "psi_getTaskByID t v = Some b" and "psi_getTaskByID t w = Some a" and "ts_peerID (psi_heap w a) \<noteq> []"
  shows "\<exists>curve \<in> set (cf_curves cc) \<inter> set (cf_curves cs). \<exists>hash \<in> set (cf_hashList cc) \<inter> set (cf_hashList cs). \<exists>m'.
    snd (onHandshakeRequest cs mk throws (m\<lparr>pm_taskID := t, pm_from := from1\<rparr>) v) = [SendPSI from1 t m' 0] \<and>
    ec_crypto (fst (onHandshakeRequest cs mk throws (m\<lparr>pm_taskID := t, pm_from := from1\<rparr>) v)) b = Some (mk curve hash) \<and>
    pm_curve m' = curve \<and> pm_hashType m' = hash \<and>
    ec_crypto (fst (onHandshakeResponse mk' throws (m'\<lparr>pm_taskID := t, pm_fromNode := node, pm_uuid := uuid\<rparr>) w)) a =
      Some (mk' curve hash)"
proof -
  let ?c = "select_curve cs (cf_curves cc)" and ?h = "select_hash cs (cf_hashList cc)"
  have n: "?c \<noteq> - 1" "?h \<noteq> - 1" using chosen_curve(1) [OF assms(1), of cs] chosen_hash(1) [OF assms(2), of cs] assms(3,4) by simp_all
  have i: "?c \<in> set (cf_curves cc) \<inter> set (cf_curves cs)" "?h \<in> set (cf_hashList cc) \<inter> set (cf_hashList cs)"
    using chosen_curve(2) [OF n(1)] chosen_hash(2) [OF n(2)] by blast+
  have m: "pm_curves m = cf_curves cc" "pm_hashList m = cf_hashList cc"
    using assms(5,8) by (auto simp: sendHandshakeRequest_def Let_def generateAndSendPPCMessage_def generatePPCMsg_def createPSIMessage_def)
  show ?thesis
    by (rule bexI [OF _ i(1)], rule bexI [OF _ i(2)])
       (use n m assms(6,7) in \<open>auto simp: onHandshakeRequest_def onHandshakeResponse_def generateAndSendPPCMessage_def
         generatePPCMsg_def createPSIMessage_def split_beta Let_def\<close>)
qed

theorem handshake_agrees_witness:
  "\<exists>curve \<in> {1, 2}. \<exists>hash \<in> {0}. \<exists>m'.
    snd (onHandshakeRequest \<lparr>cf_curves = [2, 1, 5], cf_hashList = [0], cf_smCrypto = True\<rparr> (\<lambda>_ _. sample_crypto ''yy'') (\<lambda>_. False)
      (((createPSIMessage HandshakeRequest)\<lparr>pm_taskID := ''t'', pm_from := ''A'', pm_partyID := ''A'', pm_curves := [1, 2], pm_hashList := [0]\<rparr>)
        \<lparr>pm_taskID := ''t'', pm_from := ''A''\<rparr>) sample_server) = [SendPSI ''A'' ''t'' m' 0] \<and> pm_curve m' = curve \<and> pm_hashType m' = hash"
proof -
  let ?cc = "\<lparr>cf_curves = [1, 2], cf_hashList = [0], cf_smCrypto = False\<rparr>"
  let ?cs = "\<lparr>cf_curves = [2, 1, 5], cf_hashList = [0], cf_smCrypto = True\<rparr>"
  let ?m = "(createPSIMessage HandshakeRequest)\<lparr>pm_taskID := ''t'', pm_from := ''A'', pm_partyID := ''A'', pm_curves := [1, 2], pm_hashList := [0]\<rparr>"
  have send: "sendHandshakeRequest (cf_curves ?cc) (cf_hashList ?cc) 0 sample_client = [SendPSI ''b'' ''t'' ?m 0]"
    by (simp add: sendHandshakeRequest_def sample_client_def new_TaskState_def sample_task_def generateAndSendPPCMessage_def
        generatePPCMsg_def createPSIMessage_def Let_def)
  have "psi_getTaskByID ''t'' sample_server = Some 0" "psi_getTaskByID ''t'' sample_client = Some 0"
    "ts_peerID (psi_heap sample_client 0) \<noteq> []"
    by (simp_all add: sample_server_def sample_client_def psi_getTaskByID_def)
  moreover have "- 1 \<notin> set (cf_curves ?cc)" "- 1 \<notin> set (cf_hashList ?cc)"
    "set (cf_curves ?cc) \<inter> set (cf_curves ?cs) \<noteq> {}" "set (cf_hashList ?cc) \<inter> set (cf_hashList ?cs) \<noteq> {}" by simp_all
  ultimately obtain curve hash m' where x: "curve \<in> set (cf_curves ?cc) \<inter> set (cf_curves ?cs)" "hash \<in> set (cf_hashList ?cc) \<inter> set (cf_hashList ?cs)"
    and y: "snd (onHandshakeRequest ?cs (\<lambda>_ _. sample_crypto ''yy'') (\<lambda>_. False) (?m\<lparr>pm_taskID := ''t'', pm_from := ''A''\<rparr>) sample_server) =
      [SendPSI ''A'' ''t'' m' 0]" "pm_curve m' = curve" "pm_hashType m' = hash"
    using handshake_agrees [OF _ _ _ _ send, where v = sample_server and b = 0 and throws = "\<lambda>_. False" and mk = "\<lambda>_ _. sample_crypto ''yy''"]
    by blast
  from x have "curve \<in> {1, 2}" "hash \<in> {0}" by auto
  with y show ?thesis by blast
qed

section \<open>Submissions\<close>

text \<open>
  A task submitted while a task with the same id is pending is answered twice with the same error:
  the framework calls the callback it takes out of the task state, and \<open>asyncRunTask\<close> calls the callback
  it was given once more.
\<close>

theorem duplicate_answered_twice:
  assumes "psi_getTaskByID (tk_id task) w = Some b" and "pa_partyIndex (tk_selfParty task) = PartyType_Client"
  shows "snd (ecdh_asyncRunTask cf throws outputFails load task w) =
    (let answer = TaskOut (psi_next w) (Answer \<lparr>tr_taskID = tk_id task, tr_error = Some PSIRetCode_TaskInProcessing, tr_status = NoStatus\<rparr>)
     in [answer, answer])"
  using assms
  by (simp add: ecdh_asyncRunTask_def createTaskState_def lockResourceAndRecordTaskState_def psi_getTaskByID_def
      new_TaskState_def finalizing_def Let_def split_beta)

theorem duplicate_answered_twice_witness:
  "length (snd (ecdh_asyncRunTask \<lparr>cf_curves = [], cf_hashList = [], cf_smCrypto = False\<rparr> (\<lambda>_. False) False None sample_task sample_client)) = 2"
proof -
  have "psi_getTaskByID (tk_id sample_task) sample_client = Some 0"
    by (simp add: sample_client_def psi_getTaskByID_def sample_task_def)
  moreover have "pa_partyIndex (tk_selfParty sample_task) = PartyType_Client"
    by (simp add: sample_task_def sample_party_def PartyType_Client_def)
  ultimately show ?thesis
    by (simp add: duplicate_answered_twice Let_def)
qed

section \<open>Sequence numbers of the transport\<close>

text \<open>
  The transport's 16-bit sequence numbers lose batches: of two batches of the server that are 65536
  apart, the one that arrives second is dropped as a repetition, with all of its data and without being
  counted. A server with more than 65535 batches can so never reach the announced number.
\<close>

theorem distant_batch_dropped:
  "appendServerCipherData (wire_seq (seqof (j + 65536))) ys (appendServerCipherData (wire_seq (seqof j)) xs c) =
   appendServerCipherData (wire_seq (seqof j)) xs c"
proof -
  have "(j + 65536 + 1) mod 65536 = (j + 1) mod 65536" using mod_add_self2 [of "j + 1" 65536] by (simp add: ac_simps)
  then have "ucast (seqof (j + 65536)) = (ucast (seqof j) :: u16)"
    by (simp only: seqof_def unsigned_of_nat word_of_nat_eq_iff take_bit_take_bit) (simp add: take_bit_eq_mod)
  then have "wire_seq (seqof (j + 65536)) = wire_seq (seqof j)" by (simp add: wire_seq_def)
  then show ?thesis by (simp add: appendServerCipherData_def Let_def)
qed

section \<open>A full cache\<close>

text \<open>
  A client whose cache takes one batch: it blinds the first one, receives its answer and all of the
  server's data, and the pool runs every job.
\<close>

definition small_cache_run :: ecdh where
  "small_cache_run = fst (run_steps (client_step sample_run)
     [Blind, Response 0, ServerBatch 0, ServerBatch 1, BatchCount, Job 0, Job 0, Job 0, Job 0]
     (sample_client\<lparr>ec_maxTaskCacheSize := 10\<rparr>))"

lemma small_cache_run_state:
  "ec_isFull small_cache_run \<and> ec_jobs small_cache_run = [] \<and> \<not> ts_finished (psi_heap small_cache_run 0) \<and>
   \<not> is_server (ts_task (psi_heap small_cache_run 0)) \<and> dc_state (ec_data small_cache_run 0) = Synced"
  unfolding small_cache_run_def
  by (simp add: sample_run_def sample_client_def blindData_def blind_loop.simps new_TaskState_def sample_task_def
      sample_party_def is_server_def PartyType_Server_def self_resource_def ec_isFull_def psi_getTaskByID_def
      getServerCipherDataCache_def allocateSeq_def insertSubTaskCache_def sub_tasks_def set_data_def set_task_def
      new_DataCache_def batch_bytes_def Let_def handleEvaluateResponse_def getSubTaskCache_def response_def wire_seq_def seqof_def
      client_cipher_def batchGetSharedPublicKey_def batchGetPublicKey_def sample_crypto_def createPSIMessage_def
      setClientCipherData_def ec_scan_def handleServerBlindData_def checkAndObtainTaskState_def server_batch_def
      blind_message_def appendServerCipherData_def new_ServerCipherDataCache_def set_server_def
      onRecvSyncDataInfoMsg_def server_count_def batch_count_message_def setServerDataBatchCount_def run_job_def
      dc_tryToIntersectionAndStoreResult_def dc_storePSIResult_def ts_storePSIResult_def tryToGenerateDefaultOutputDesc_def
      finish_sub_task_def eraseFinishedTaskSeq_def generateAndSendPPCMessage_def)

text \<open>
  A client can stop in the middle. The scan a finished batch triggers runs while the batch is still
  in state \<open>Stored\<close>, so the last batch to finish stays in the table and counted. When that alone fills
  the cache, as in this run, every later round of the worker finds the cache full and blinds nothing, no
  job and no message is outstanding, and the task never finishes although its only batch is done.
\<close>

theorem full_cache_stalls:
  "dc_state (ec_data small_cache_run 0) = Synced \<and> ec_jobs small_cache_run = [] \<and>
   \<not> finished (psi_heap small_cache_run 0) \<and>
   run_steps (client_step sample_run) (replicate n Blind) small_cache_run = (small_cache_run, [])"
proof -
  have "client_step sample_run Blind small_cache_run = (small_cache_run, [])"
    using small_cache_run_state by (simp add: blindData_def sample_run_def Let_def)
  then have "run_steps (client_step sample_run) (replicate n Blind) small_cache_run = (small_cache_run, [])"
    by (induction n) simp_all
  with small_cache_run_state show ?thesis by (simp add: finished_def)
qed

section \<open>The capacity of the cache\<close>

text \<open>
  The capacity counter of the client's cache is the sum of the capacities of the cached batches:
  scanning and erasing a task keep it so, and inserting a batch does as long as the sum stays below 2^64,
  so the counter never wraps around and the branches that reset it to zero are never needed.
\<close>

theorem cache_accounting:
  assumes "cap_inv w"
  shows "cap_inv (ec_scan w) \<and> cap_inv (eraseCache t w) \<and>
    (unat (ec_capacity w) + unat (dc_capacity (new_DataCache t q a sv p)) < 2 ^ 64 \<longrightarrow>
       cap_inv (snd (insertSubTaskCache t q a sv p w)))"
  using assms by (simp add: cap_inv_scan cap_inv_erase cap_inv_insert)

theorem cache_accounting_witness:
  "cap_inv sample_client \<and> cap_inv (snd (insertSubTaskCache ''t'' 1 0 None [''ab''] sample_client))"
proof -
  have c: "cap_inv sample_client" by (simp add: cap_inv_def sample_client_def)
  moreover have "unat (ec_capacity sample_client) + unat (dc_capacity (new_DataCache ''t'' 1 0 None [''ab''])) < 2 ^ 64"
    by (simp add: sample_client_def new_DataCache_def batch_bytes_def)
  ultimately show ?thesis using cache_accounting [OF c] by blast
qed

end
