(* ===== verification/MultiCache.thy ===== *)
theory MultiCache
  imports EcdhCache
begin

text \<open>
  The caches of multi-party ECDH-PSI
  (wedpr-computing/ppc-psi/src/ecdh-multi-psi/EcdhMultiCache.h and .cpp). The master collects the blinded
  items of the calculator and of the partners and keeps those that every one of them has; the calculator
  intersects what the master found with the master's own items.

  An \<open>int32_t\<close> index is an \<open>int\<close>, conversions to it go through \<open>i32\<close>. The bit of a peer is the C++
  expression \<open>1 << index\<close> of type \<open>int\<close>, extended to 64 bits; for an index of 32 or more C++ leaves the
  shift undefined, the definition has what an x86 processor does. \<open>dataIndex[i]\<close> is read without a check,
  so a message with fewer indexes than items is the failure \<open>OutOfBoundsRead\<close>.
\<close>

section \<open>The master's cache\<close>

record MasterCipherRef =
  mr_refInfo :: u64
  mr_refCount :: u16
  mr_dataIndex :: int

function count_bits :: "u64 \<Rightarrow> u16 \<Rightarrow> u16" where
  "count_bits ref c =
     (let c' = (if ref AND 1 \<noteq> 0 then c + 1 else c); ref' = drop_bit 1 ref
      in if ref' > 0 then count_bits ref' c' else c')"
  by pat_completeness auto

lemma half_less:
  assumes "0 < drop_bit 1 (w :: 'a::len word)"
  shows "unat (drop_bit 1 w) < unat w"
proof -
  have "unat (drop_bit 1 w) = unat w div 2" unfolding unat_drop_bit_eq by (simp add: drop_bit_eq_div)
  moreover have "w \<noteq> 0" using assms by auto
  ultimately show ?thesis by (simp add: unat_gt_0)
qed

termination count_bits
  by (relation "measure (\<lambda>(ref, c). unat ref)") (simp_all add: half_less [unfolded One_nat_def])

declare count_bits.simps [simp del]

definition resetRefCount :: "MasterCipherRef \<Rightarrow> MasterCipherRef" where
  "resetRefCount r = r\<lparr>mr_refCount := count_bits (mr_refInfo r) (mr_refCount r)\<rparr>"

definition updateDataIndex :: "int \<Rightarrow> MasterCipherRef \<Rightarrow> MasterCipherRef" where
  "updateDataIndex index r = (if index = - 1 then r else r\<lparr>mr_dataIndex := index\<rparr>)"

record MasterCache =
  mc_peerCount :: u16
  mc_peers :: "bytes list"
  mc_cacheState :: CacheState
  mc_intersecCipher :: "bytes list"
  mc_intersecCipherIndex :: "u32 list"
  mc_calculatorCipherSeqs :: "u32 set"
  mc_calculatorDataBatchCount :: u32
  mc_masterDataRef :: "(bytes, MasterCipherRef) smap"
  mc_partnerCipherSeqs :: "(bytes, u32 set) smap"
  mc_parternerDataCount :: "(bytes, u32) smap"
  mc_finishedPartners :: "bytes set"
  mc_peerMerged :: bool

definition new_MasterCache :: "Task \<Rightarrow> MasterCache" where
  "new_MasterCache task =
     \<lparr>mc_peerCount = of_nat (length (tk_peerParties task)), mc_peers = map fst (tk_peerParties task),
      mc_cacheState = Evaluating, mc_intersecCipher = [], mc_intersecCipherIndex = [],
      mc_calculatorCipherSeqs = {}, mc_calculatorDataBatchCount = 0, mc_masterDataRef = [],
      mc_partnerCipherSeqs = [], mc_parternerDataCount = [], mc_finishedPartners = {}, mc_peerMerged = False\<rparr>"

fun index_of :: "bytes list \<Rightarrow> bytes \<Rightarrow> nat option" where
  "index_of [] peer = None"
| "index_of (p # ps) peer = (if p = peer then Some 0 else map_option Suc (index_of ps peer))"

definition getPeerIndex :: "bytes \<Rightarrow> MasterCache \<Rightarrow> nat option" where
  "getPeerIndex peer c = index_of (mc_peers c) peer"

definition peer_bit :: "nat \<Rightarrow> u64" where
  "peer_bit i = scast (push_bit (i mod 32) 1 :: 32 word)"

definition updateMasterDataRef :: "nat \<Rightarrow> bytes \<Rightarrow> int \<Rightarrow> MasterCache \<Rightarrow> MasterCache" where
  "updateMasterDataRef peerIndex data dataIndex c =
     (let refs = mc_masterDataRef c in
      if \<not> mc_peerMerged c
      then case map_of refs data of
             None \<Rightarrow>
               c\<lparr>mc_masterDataRef := smap_put data
                   (updateDataIndex dataIndex \<lparr>mr_refInfo = 0 OR peer_bit peerIndex, mr_refCount = 0, mr_dataIndex = - 1\<rparr>) refs\<rparr>
           | Some r \<Rightarrow>
               c\<lparr>mc_masterDataRef := smap_put data
                   (updateDataIndex dataIndex (r\<lparr>mr_refInfo := mr_refInfo r OR peer_bit peerIndex\<rparr>)) refs\<rparr>
      else case map_of refs data of
             None \<Rightarrow> c
           | Some r \<Rightarrow>
               c\<lparr>mc_masterDataRef := smap_put data (updateDataIndex dataIndex (r\<lparr>mr_refCount := mr_refCount r + 1\<rparr>)) refs\<rparr>)"

definition mergeMasterCipher :: "nat \<Rightarrow> MasterCache \<Rightarrow> MasterCache" where
  "mergeMasterCipher peerIndex c =
     (if mc_peerMerged c \<or> mc_peerCount c = 1 then c
      else c\<lparr>mc_masterDataRef := smap_map (\<lambda>_. resetRefCount)
               (filter (\<lambda>(_, r). mr_refInfo r AND peer_bit peerIndex \<noteq> 0) (mc_masterDataRef c)),
             mc_peerMerged := True\<rparr>)"

text \<open>The loops over the items of a message.\<close>

fun add_indexed :: "nat \<Rightarrow> bytes list \<Rightarrow> int list \<Rightarrow> MasterCache \<Rightarrow> MasterCache res" where
  "add_indexed i [] idx c = Inr c"
| "add_indexed i (d # ds) [] c = Inl OutOfBoundsRead"
| "add_indexed i (d # ds) (x # xs) c = add_indexed i ds xs (updateMasterDataRef i d (i32 x) c)"

definition addCalculatorCipher ::
  "bytes \<Rightarrow> bytes list \<Rightarrow> int list \<Rightarrow> u32 \<Rightarrow> u32 \<Rightarrow> MasterCache \<Rightarrow> MasterCache res" where
  "addCalculatorCipher peer cipherData dataIndex seq dataBatchCount c =
     (case getPeerIndex peer c of
        None \<Rightarrow> Inr c
      | Some i \<Rightarrow>
          let c1 = c\<lparr>mc_calculatorCipherSeqs := insert seq (mc_calculatorCipherSeqs c)\<rparr>;
              c2 = (if dataBatchCount \<noteq> 0 then c1\<lparr>mc_calculatorDataBatchCount := dataBatchCount\<rparr> else c1)
          in rbind (add_indexed i cipherData dataIndex c2) (\<lambda>c3.
               Inr (if mc_calculatorDataBatchCount c3 > 0 \<and>
                       card (mc_calculatorCipherSeqs c3) = unat (mc_calculatorDataBatchCount c3)
                    then mergeMasterCipher i (c3\<lparr>mc_finishedPartners := insert peer (mc_finishedPartners c3)\<rparr>)
                    else c3)))"

definition seqs_of :: "bytes \<Rightarrow> MasterCache \<Rightarrow> u32 set" where
  "seqs_of peer c = (case map_of (mc_partnerCipherSeqs c) peer of Some q \<Rightarrow> q | None \<Rightarrow> {})"

definition addPartnerCipher :: "bytes \<Rightarrow> bytes list \<Rightarrow> u32 \<Rightarrow> u32 \<Rightarrow> MasterCache \<Rightarrow> MasterCache" where
  "addPartnerCipher peer cipherData seq parternerDataCount c =
     (case getPeerIndex peer c of
        None \<Rightarrow> c
      | Some i \<Rightarrow>
          let c1 = fold (\<lambda>d. updateMasterDataRef i d (- 1)) cipherData c;
              c2 = c1\<lparr>mc_partnerCipherSeqs := smap_put peer (insert seq (seqs_of peer c1)) (mc_partnerCipherSeqs c1)\<rparr>;
              c3 = (if parternerDataCount > 0 \<and> map_of (mc_parternerDataCount c2) peer = None
                    then c2\<lparr>mc_parternerDataCount := smap_put peer parternerDataCount (mc_parternerDataCount c2)\<rparr> else c2)
          in case map_of (mc_parternerDataCount c3) peer of
               None \<Rightarrow> c3
             | Some expectedCount \<Rightarrow>
                 if card (seqs_of peer c3) = unat expectedCount
                 then mergeMasterCipher i (c3\<lparr>mc_finishedPartners := insert peer (mc_finishedPartners c3)\<rparr>)
                 else c3)"

definition shouldIntersection :: "MasterCache \<Rightarrow> bool" where
  "shouldIntersection c \<longleftrightarrow> mc_cacheState c = Evaluating \<and>
     length (mc_peers c) = card (mc_finishedPartners c) \<and> (\<forall>p \<in> set (mc_peers c). p \<in> mc_finishedPartners c)"

definition in_every_set :: "MasterCache \<Rightarrow> MasterCipherRef \<Rightarrow> bool" where
  "in_every_set c r \<longleftrightarrow> mr_refCount r = mc_peerCount c \<and> mr_dataIndex r \<noteq> - 1"

definition tryToIntersection :: "MasterCache \<Rightarrow> bool \<times> MasterCache" where
  "tryToIntersection c =
     (if \<not> shouldIntersection c then (False, c)
      else let hits = filter (\<lambda>(_, r). in_every_set c r) (mc_masterDataRef c)
           in (True, c\<lparr>mc_intersecCipher := mc_intersecCipher c @ map fst hits,
                       mc_intersecCipherIndex := mc_intersecCipherIndex c @ map (\<lambda>(_, r). word_of_int (mr_dataIndex r)) hits,
                       mc_masterDataRef := [], mc_cacheState := Intersectioned\<rparr>))"

text \<open>The message with batch number \<open>b\<close> of the intersection, and all of them.\<close>

definition SEND_ENCRYPTED_INTERSECTION_SET_TO_CALCULATOR :: u32 where
  "SEND_ENCRYPTED_INTERSECTION_SET_TO_CALCULATOR = 5"

definition intersection_message :: "CryptoBox \<Rightarrow> bytes \<Rightarrow> Task \<Rightarrow> nat \<Rightarrow> nat \<Rightarrow> MasterCache \<Rightarrow> PSIMessage" where
  "intersection_message box randomKey task dataBatchSize b c =
     (let cipher = mc_intersecCipher c;
          startIndex = b * dataBatchSize; endIndex = min (startIndex + dataBatchSize) (length cipher);
          n = endIndex - startIndex
      in (createPSIMessage SEND_ENCRYPTED_INTERSECTION_SET_TO_CALCULATOR)
           \<lparr>pm_from := pa_id (tk_selfParty task),
            pm_data := map (\<lambda>x. cb_ecMultiply box x randomKey) (take n (drop startIndex cipher)),
            pm_dataIndex := map uint (take n (mc_intersecCipherIndex c)),
            pm_dataBatchCount := (if endIndex \<ge> length cipher then of_nat (b + 1) else 0)\<rparr>)"

definition intersection_batches :: "nat \<Rightarrow> MasterCache \<Rightarrow> nat" where
  "intersection_batches dataBatchSize c = max ((length (mc_intersecCipher c) + dataBatchSize - 1) div dataBatchSize) 1"

definition releaseIntersection :: "MasterCache \<Rightarrow> MasterCache" where
  "releaseIntersection c = c\<lparr>mc_intersecCipher := [], mc_intersecCipherIndex := []\<rparr>"

definition encryptIntersection ::
  "CryptoBox \<Rightarrow> bytes \<Rightarrow> bytes \<Rightarrow> Task \<Rightarrow> bytes list \<Rightarrow> nat \<Rightarrow> MasterCache \<Rightarrow> MasterCache \<times> psi_out list" where
  "encryptIntersection box randomKey self task calculators dataBatchSize c =
     (releaseIntersection c,
      concat (map (\<lambda>b. map (\<lambda>cal. SendPSI cal (tk_id task)
                             (generatePPCMsg self (intersection_message box randomKey task dataBatchSize b c)) (of_nat b)) calculators)
                  [0..<intersection_batches dataBatchSize c]))"

section \<open>The calculator's cache\<close>

record CipherRefDetail =
  cr_refCount :: u16
  cr_plainDataIndex :: int

definition updatePlainIndex :: "int \<Rightarrow> CipherRefDetail \<Rightarrow> CipherRefDetail" where
  "updatePlainIndex index r = (if index = - 1 then r else r\<lparr>cr_plainDataIndex := index\<rparr>)"

record CalculatorCache =
  cc_syncResult :: bool
  cc_cacheState :: CacheState
  cc_plainData :: "bytes list list"
  cc_cipherRef :: "(bytes, CipherRefDetail) smap"
  cc_receivedMasterCipher :: "u32 set"
  cc_masterDataBatchSize :: u32
  cc_receiveAllMasterCipher :: bool
  cc_receivedIntersections :: "u32 set"
  cc_receiveAllIntersection :: bool
  cc_intersectionBatchCount :: u32
  cc_intersectionResult :: "bytes list"

definition new_CalculatorCache :: "bool \<Rightarrow> CalculatorCache" where
  "new_CalculatorCache syncResult =
     \<lparr>cc_syncResult = syncResult, cc_cacheState = Evaluating, cc_plainData = [], cc_cipherRef = [],
      cc_receivedMasterCipher = {}, cc_masterDataBatchSize = 0, cc_receiveAllMasterCipher = False,
      cc_receivedIntersections = {}, cc_receiveAllIntersection = False, cc_intersectionBatchCount = 0,
      cc_intersectionResult = []\<rparr>"

definition appendPlainData :: "bytes list \<Rightarrow> CalculatorCache \<Rightarrow> CalculatorCache" where
  "appendPlainData batch c = c\<lparr>cc_plainData := cc_plainData c @ [batch]\<rparr>"

definition updateCipherRef :: "bytes \<Rightarrow> int \<Rightarrow> CalculatorCache \<Rightarrow> CalculatorCache" where
  "updateCipherRef data index c =
     (case map_of (cc_cipherRef c) data of
        None \<Rightarrow>
          if cc_receiveAllMasterCipher c \<or> cc_receiveAllIntersection c then c
          else c\<lparr>cc_cipherRef := smap_put data
                   (updatePlainIndex index \<lparr>cr_refCount = 1, cr_plainDataIndex = - 1\<rparr>) (cc_cipherRef c)\<rparr>
      | Some r \<Rightarrow>
          c\<lparr>cc_cipherRef := smap_put data
              (updatePlainIndex index (r\<lparr>cr_refCount := cr_refCount r + 1\<rparr>)) (cc_cipherRef c)\<rparr>)"

definition appendMasterCipher :: "bytes list \<Rightarrow> u32 \<Rightarrow> u32 \<Rightarrow> CalculatorCache \<Rightarrow> bool \<times> CalculatorCache" where
  "appendMasterCipher cipherData seq dataBatchSize c =
     (let c1 = c\<lparr>cc_receivedMasterCipher := insert seq (cc_receivedMasterCipher c)\<rparr>;
          c2 = fold (\<lambda>d. updateCipherRef d (- 1)) cipherData c1;
          c3 = (if cc_masterDataBatchSize c2 = 0 \<and> dataBatchSize > 0 then c2\<lparr>cc_masterDataBatchSize := dataBatchSize\<rparr> else c2);
          c4 = (if \<not> cc_receiveAllMasterCipher c3 \<and> card (cc_receivedMasterCipher c3) = unat (cc_masterDataBatchSize c3)
                then c3\<lparr>cc_receiveAllMasterCipher := True\<rparr> else c3)
      in (cc_receiveAllMasterCipher c4, c4))"

fun add_intersections :: "bytes list \<Rightarrow> int list \<Rightarrow> CalculatorCache \<Rightarrow> CalculatorCache res" where
  "add_intersections [] idx c = Inr c"
| "add_intersections (d # ds) [] c = Inl OutOfBoundsRead"
| "add_intersections (d # ds) (x # xs) c = add_intersections ds xs (updateCipherRef d (i32 x) c)"

definition addIntersectionCipher :: "bytes list \<Rightarrow> int list \<Rightarrow> u32 \<Rightarrow> u32 \<Rightarrow> CalculatorCache \<Rightarrow> CalculatorCache res" where
  "addIntersectionCipher cipherData dataIndex seq dataBatchCount c =
     rbind (add_intersections cipherData dataIndex c) (\<lambda>c1.
       let c2 = c1\<lparr>cc_receivedIntersections := insert seq (cc_receivedIntersections c1)\<rparr>;
           c3 = (if dataBatchCount > 0 then c2\<lparr>cc_intersectionBatchCount := dataBatchCount\<rparr> else c2)
       in Inr (if cc_intersectionBatchCount c3 > 0 \<and> card (cc_receivedIntersections c3) \<ge> unat (cc_intersectionBatchCount c3)
               then c3\<lparr>cc_receiveAllIntersection := True\<rparr> else c3))"

definition shouldFinalize :: "CalculatorCache \<Rightarrow> bool" where
  "shouldFinalize c \<longleftrightarrow> cc_cacheState c = Evaluating \<and> cc_receiveAllIntersection c \<and>
     card (cc_receivedMasterCipher c) \<noteq> 0 \<and> card (cc_receivedMasterCipher c) = unat (cc_masterDataBatchSize c)"

text \<open>
  \<open>getPlainDataByIndex\<close> takes a \<open>uint64_t\<close>, so a negative index becomes one beyond all data.
\<close>

fun plain_loop :: "bytes list list \<Rightarrow> nat \<Rightarrow> nat \<Rightarrow> bytes" where
  "plain_loop [] start index = []"
| "plain_loop (b # bs) start index =
     (if index \<ge> start \<and> index < start + length b then b ! (index - start) else plain_loop bs (start + length b) index)"

definition getPlainDataByIndex :: "int \<Rightarrow> CalculatorCache \<Rightarrow> bytes" where
  "getPlainDataByIndex index c = plain_loop (cc_plainData c) 0 (nat (index mod 2 ^ 64))"

fun finalize_loop :: "CalculatorCache \<Rightarrow> (bytes, CipherRefDetail) smap \<Rightarrow> bytes list \<Rightarrow> bytes list" where
  "finalize_loop c [] result = result"
| "finalize_loop c ((_, r) # refs) result =
     (if cr_refCount r < 2 then finalize_loop c refs result
      else
        let data = getPlainDataByIndex (cr_plainDataIndex r) c in
        finalize_loop c refs
          (if cr_plainDataIndex r > 0 then result @ [data]
           else if cr_plainDataIndex r = 0
           then (case result of [] \<Rightarrow> [data] | x # xs \<Rightarrow> (data # xs) @ [x])
           else result))"

definition releaseCipherCache :: "CalculatorCache \<Rightarrow> CalculatorCache" where
  "releaseCipherCache c = c\<lparr>cc_plainData := map (\<lambda>_. []) (cc_plainData c), cc_cipherRef := []\<rparr>"

definition SYNC_FINAL_RESULT_TO_ALL :: u32 where "SYNC_FINAL_RESULT_TO_ALL = 7"

definition syncIntersections :: "bytes \<Rightarrow> Task \<Rightarrow> CalculatorCache \<Rightarrow> psi_out list" where
  "syncIntersections self task c =
     (let m = (createPSIMessage SYNC_FINAL_RESULT_TO_ALL)\<lparr>pm_from := pa_id (tk_selfParty task)\<rparr>;
          m' = (if cc_syncResult c then m\<lparr>pm_data := cc_intersectionResult c, pm_version := 0\<rparr> else m\<lparr>pm_version := - 1\<rparr>)
      in map (\<lambda>p. SendPSI p (tk_id task) (generatePPCMsg self m') 0) (map fst (tk_peerParties task)))"

text \<open>
  \<open>tryToFinalize\<close>: whether it finalized (or threw while storing), the cache, the task state and the outputs.
\<close>

datatype finalize_result = NotYet | Done | Threw

definition tryToFinalize ::
  "(ts_act \<Rightarrow> bool) \<Rightarrow> bytes \<Rightarrow> taddr \<Rightarrow> TaskState \<Rightarrow> CalculatorCache \<Rightarrow> finalize_result \<times> CalculatorCache \<times> TaskState \<times> psi_out list" where
  "tryToFinalize throws self a s c =
     (if \<not> shouldFinalize c then (NotYet, c, s, [])
      else
        let c1 = releaseCipherCache (c\<lparr>cc_intersectionResult := finalize_loop c (cc_cipherRef c) (cc_intersectionResult c)\<rparr>);
            sync = syncIntersections self (ts_task s) c1;
            (s1, did, threw) = ts_storePSIResult throws (cc_intersectionResult c1) s
        in (if threw then Threw else Done,
            c1\<lparr>cc_cacheState := (if threw then StoreProgressing else Stored)\<rparr>,
            s1, sync @ map (TaskOut a \<circ> Did) did))"

end
