(* ===== verification/MultiTally.thy ===== *)
theory MultiTally
  imports MultiCache
begin

text \<open>
  What the two caches of multi-party ECDH-PSI have in common, as the interface \<open>tally\<close>: items arrive from
  sources, the cache counts for every item how many sources brought it, and once a source is complete the cache
  need not keep items that source does not have. The locale shows that, when every source brings an item at most
  once, an item counted as often as there are sources is one that all of them brought. It is interpreted on the
  master's cache, where the sources are the peers and the count is kept as a bit set until the first merge and as
  a number afterwards, and on the calculator's cache, where the sources are the master's data and the
  intersection.
\<close>

section \<open>The interface\<close>

definition exact :: "('s \<Rightarrow> 'k \<Rightarrow> nat option) \<Rightarrow> ('s \<Rightarrow> bool) \<Rightarrow> ('p \<times> 'k) set \<Rightarrow> 'p set \<Rightarrow> 's \<Rightarrow> bool" where
  "exact count closed D C s \<longleftrightarrow>
     (\<forall>k. case count s k of
            None \<Rightarrow> if closed s then \<exists>p \<in> C. (p, k) \<notin> D else \<forall>p. (p, k) \<notin> D
          | Some n \<Rightarrow> n = card {p. (p, k) \<in> D})"

locale tally =
  fixes put :: "'p \<Rightarrow> 'k \<Rightarrow> 'x \<Rightarrow> 's \<Rightarrow> 's"
    and close :: "'p \<Rightarrow> 's \<Rightarrow> 's"
    and count :: "'s \<Rightarrow> 'k \<Rightarrow> nat option"
    and closed :: "'s \<Rightarrow> bool"
    and source :: "'p \<Rightarrow> bool"
    and inv :: "('p \<times> 'k) set \<Rightarrow> 's \<Rightarrow> bool"
  assumes inv_finite: "inv D s \<Longrightarrow> finite {p. (p, k) \<in> D}"
    and inv_put: "inv D s \<Longrightarrow> source p \<Longrightarrow> (p, k) \<notin> D \<Longrightarrow> inv (insert (p, k) D) (put p k x s)"
    and count_put: "inv D s \<Longrightarrow> source p \<Longrightarrow> (p, k) \<notin> D \<Longrightarrow>
      count (put p k x s) k' =
        (if k' \<noteq> k then count s k'
         else case count s k of None \<Rightarrow> if closed s then None else Some 1 | Some n \<Rightarrow> Some (n + 1))"
    and closed_put: "closed (put p k x s) = closed s"
    and inv_close: "inv D s \<Longrightarrow> source p \<Longrightarrow> inv D (close p s)"
    and close_keeps: "inv D s \<Longrightarrow> source p \<Longrightarrow> (p, k) \<in> D \<or> \<not> closed (close p s) \<Longrightarrow> count (close p s) k = count s k"
    and close_drops: "inv D s \<Longrightarrow> source p \<Longrightarrow> count (close p s) k = count s k \<or> count (close p s) k = None"
    and closed_close: "closed s \<Longrightarrow> closed (close p s)"
begin

lemma exact_put:
  assumes "exact count closed D C s" and "inv D s" and "source p" and "(p, k) \<notin> D" and "p \<notin> C"
  shows "exact count closed (insert (p, k) D) C (put p k x s)"
  unfolding exact_def
proof
  fix k'
  have i: "case count s k' of None \<Rightarrow> if closed s then \<exists>p \<in> C. (p, k') \<notin> D else \<forall>p. (p, k') \<notin> D
      | Some n \<Rightarrow> n = card {p. (p, k') \<in> D}"
    using assms(1) by (simp add: exact_def)
  have s: "{q. (q, k) \<in> insert (p, k) D} = insert p {q. (q, k) \<in> D}" by auto
  have c: "card (insert p {q. (q, k) \<in> D}) = card {q. (q, k) \<in> D} + 1"
    using assms(4) inv_finite [OF assms(2)] by simp
  show "case count (put p k x s) k' of
      None \<Rightarrow> if closed (put p k x s) then \<exists>q \<in> C. (q, k') \<notin> insert (p, k) D else \<forall>q. (q, k') \<notin> insert (p, k) D
    | Some n \<Rightarrow> n = card {q. (q, k') \<in> insert (p, k) D}"
  proof (cases "k' = k")
    case False
    then show ?thesis
      using i by (simp add: count_put [OF assms(2-4)] closed_put split: option.splits)
  next
    case True
    show ?thesis
    proof (cases "count s k")
      case None
      then show ?thesis
        using i True assms(5) unfolding True s
        by (auto simp: count_put [OF assms(2-4)] closed_put split: if_splits)
    next
      case (Some n)
      then show ?thesis
        using i True unfolding True s c by (simp add: count_put [OF assms(2-4)])
    qed
  qed
qed

lemma exact_puts:
  assumes "exact count closed D C s" and "inv D s" and "source p" and "p \<notin> C"
    and "distinct (map fst kxs)" and "\<forall>k \<in> fst ` set kxs. (p, k) \<notin> D"
  defines "s' \<equiv> fold (\<lambda>(k, x). put p k x) kxs s"
  shows "exact count closed (D \<union> {p} \<times> fst ` set kxs) C s' \<and> inv (D \<union> {p} \<times> fst ` set kxs) s' \<and> closed s' = closed s"
  unfolding s'_def using assms(1,2,5,6)
proof (induction kxs arbitrary: D s)
  case (Cons kx kxs)
  obtain k x where kx: "kx = (k, x)" by (cases kx)
  have f: "(p, k) \<notin> D" using Cons.prems(4) kx by simp
  have "exact count closed (insert (p, k) D \<union> {p} \<times> fst ` set kxs) C (fold (\<lambda>(k, x). put p k x) kxs (put p k x s)) \<and>
      inv (insert (p, k) D \<union> {p} \<times> fst ` set kxs) (fold (\<lambda>(k, x). put p k x) kxs (put p k x s)) \<and>
      closed (fold (\<lambda>(k, x). put p k x) kxs (put p k x s)) = closed (put p k x s)"
    using Cons.prems kx by (intro Cons.IH exact_put inv_put assms(3,4) f) auto
  moreover have "insert (p, k) D \<union> {p} \<times> fst ` set kxs = D \<union> {p} \<times> fst ` set (kx # kxs)" by (auto simp: kx)
  ultimately show ?case by (simp add: kx closed_put)
qed simp

lemma exact_close:
  assumes "exact count closed D C s" and "inv D s" and "source p"
  shows "exact count closed D (insert p C) (close p s)"
  unfolding exact_def
proof
  fix k
  have i: "case count s k of None \<Rightarrow> if closed s then \<exists>p \<in> C. (p, k) \<notin> D else \<forall>p. (p, k) \<notin> D
      | Some n \<Rightarrow> n = card {p. (p, k) \<in> D}"
    using assms(1) by (simp add: exact_def)
  show "case count (close p s) k of
      None \<Rightarrow> if closed (close p s) then \<exists>q \<in> insert p C. (q, k) \<notin> D else \<forall>q. (q, k) \<notin> D
    | Some n \<Rightarrow> n = card {q. (q, k) \<in> D}"
  proof (cases "count (close p s) k")
    case (Some n)
    then have "count s k = Some n" using close_drops [OF assms(2,3), of k] by simp
    then show ?thesis using i Some by simp
  next
    case None
    show ?thesis
    proof (cases "closed (close p s) \<and> (p, k) \<notin> D")
      case True
      then show ?thesis using None by auto
    next
      case False
      then have c: "count s k = None" using close_keeps [OF assms(2,3), of k] None by auto
      with i False closed_close [of s p] show ?thesis by (auto simp: None split: if_splits)
    qed
  qed
qed

lemma in_all_sources:
  assumes "exact count closed D C s" and "finite S" and "S \<noteq> {}" and "C \<subseteq> S" and "D \<subseteq> S \<times> UNIV"
  shows "count s k = Some (card S) \<longleftrightarrow> (\<forall>p \<in> S. (p, k) \<in> D)"
proof -
  have i: "case count s k of None \<Rightarrow> if closed s then \<exists>p \<in> C. (p, k) \<notin> D else \<forall>p. (p, k) \<notin> D
      | Some n \<Rightarrow> n = card {p. (p, k) \<in> D}"
    using assms(1) by (simp add: exact_def)
  have sub: "{p. (p, k) \<in> D} \<subseteq> S" using assms(5) by auto
  show ?thesis
  proof (cases "count s k")
    case None
    then show ?thesis using i assms(3,4) by (auto split: if_splits)
  next
    case (Some n)
    have "card {p. (p, k) \<in> D} = card S \<longleftrightarrow> {p. (p, k) \<in> D} = S"
      using card_subset_eq [OF assms(2) sub] by auto
    with i Some sub show ?thesis by auto
  qed
qed

end

text \<open>
  Both tables also keep a position with an item, which only one of the sources brings; \<open>- 1\<close> stands for none. \<open>K\<close> are
  the items that source brought.
\<close>

definition index_table :: "('r \<Rightarrow> int) \<Rightarrow> ('k \<Rightarrow> int) \<Rightarrow> bool \<Rightarrow> 'k set \<Rightarrow> ('k \<times> 'r) list \<Rightarrow> bool" where
  "index_table idx pos closed K refs \<longleftrightarrow> (closed \<or> K \<subseteq> dom (map_of refs)) \<and>
     (\<forall>k r. map_of refs k = Some r \<longrightarrow> idx r = (if k \<in> K then pos k else - 1))"

locale indexed_table =
  fixes put :: "bool \<Rightarrow> 'k \<times> int \<Rightarrow> ('k \<times> 'r) list \<Rightarrow> ('k \<times> 'r) list"
    and idx :: "'r \<Rightarrow> int"
  assumes put_other: "k' \<noteq> k \<Longrightarrow> map_of (put closed (k, x) m) k' = map_of m k'"
    and put_new: "map_of m k = None \<Longrightarrow> map_option idx (map_of (put closed (k, x) m) k) = (if closed then None else Some x)"
    and put_old: "map_of m k = Some r \<Longrightarrow>
      map_option idx (map_of (put closed (k, x) m) k) = Some (if x = - 1 then idx r else x)"
begin

lemma index_put:
  assumes "index_table idx pos closed K m" and "x = (if s then pos k else - 1)" and "s \<Longrightarrow> pos k \<noteq> - 1"
  shows "index_table idx pos closed (if s then insert k K else K) (put closed (k, x) m)"
proof -
  let ?K = "if s then insert k K else K"
  have old: "idx r = (if k' \<in> K then pos k' else - 1)" if "map_of m k' = Some r" for k' r
    using assms(1) that by (auto simp: index_table_def)
  have new: "k \<notin> K" if "map_of m k = None" "\<not> closed" using assms(1) that by (auto simp: index_table_def)
  have "idx r = (if k' \<in> ?K then pos k' else - 1)" if r: "map_of (put closed (k, x) m) k' = Some r" for k' r
  proof (cases "k' = k")
    case False
    with r have "map_of m k' = Some r" by (simp add: put_other)
    from old [OF this] False show ?thesis by auto
  next
    case True
    show ?thesis
    proof (cases "map_of m k")
      case None
      with put_new [OF None, of closed x] r True new assms(2) show ?thesis by (auto split: if_splits)
    next
      case (Some r')
      with put_old [OF Some, of closed x] r True old [OF Some] assms(2,3) show ?thesis by (auto split: if_splits)
    qed
  qed
  moreover have "?K \<subseteq> dom (map_of (put closed (k, x) m))" if "\<not> closed"
  proof
    fix k' assume k': "k' \<in> ?K"
    show "k' \<in> dom (map_of (put closed (k, x) m))"
    proof (cases "k' = k")
      case False
      then show ?thesis using k' assms(1) that by (auto simp: put_other index_table_def domIff split: if_splits)
    next
      case True
      then show ?thesis
        using put_new [of m k closed x] put_old [of m k _ closed x] that by (cases "map_of m k") (auto simp: domIff)
    qed
  qed
  ultimately show ?thesis by (auto simp: index_table_def)
qed

lemma index_puts:
  assumes "index_table idx pos closed K m" and "\<forall>(k, x) \<in> set kxs. x = (if s then pos k else - 1)" and "\<forall>k. pos k \<noteq> - 1"
  shows "index_table idx pos closed (if s then K \<union> fst ` set kxs else K) (fold (put closed) kxs m)"
  using assms(1,2)
proof (induction kxs arbitrary: K m)
  case (Cons kx kxs)
  obtain k x where kx: "kx = (k, x)" by (cases kx)
  have "index_table idx pos closed (if s then insert k K else K) (put closed (k, x) m)"
    using Cons.prems kx assms(3) by (intro index_put) simp_all
  from Cons.IH [OF this] Cons.prems(2) show ?case by (cases s) (simp_all add: kx)
qed simp

end

section \<open>The master\<close>

abbreviation bits_of :: "u64 \<Rightarrow> nat set" where
  "bits_of r \<equiv> {j. bit r j}"

lemma finite_bits_of [simp]: "finite (bits_of r)"
  by (rule finite_subset [of _ "{..<64}"]) (auto dest: bit_imp_le_length)

lemma bits_of_zero: "bits_of r = {} \<longleftrightarrow> r = 0"
  by (auto intro: bit_word_eqI)

lemma card_bits_of_half: "card (bits_of r) = (if bit r 0 then 1 else 0) + card (bits_of (drop_bit 1 r))"
proof -
  have "bits_of r = (if bit r 0 then {0} else {}) \<union> Suc ` bits_of (drop_bit 1 r)"
  proof (rule set_eqI)
    fix j
    show "j \<in> bits_of r \<longleftrightarrow> j \<in> (if bit r 0 then {0} else {}) \<union> Suc ` bits_of (drop_bit 1 r)"
      by (cases j) (auto simp: bit_drop_bit_eq)
  qed
  moreover have "card (Suc ` bits_of (drop_bit 1 r)) = card (bits_of (drop_bit 1 r))" by (simp add: card_image)
  ultimately show ?thesis by (auto simp: card_insert_if)
qed

lemma count_bits_card: "count_bits r c = c + of_nat (card (bits_of r))"
proof (induction r c rule: count_bits.induct)
  case (1 r c)
  have b: "r AND 1 \<noteq> 0 \<longleftrightarrow> bit r 0" by (simp add: and_one_eq bit_0 odd_iff_mod_2_eq_one)
  show ?case
  proof (cases "0 < drop_bit 1 r")
    case True
    then show ?thesis
      using 1 [OF refl refl True] by (subst count_bits.simps) (simp add: b Let_def card_bits_of_half [of r])
  next
    case False
    then have "drop_bit 1 r = 0" by (simp add: word_gt_0)
    then have "bits_of (drop_bit 1 r) = {}" by (simp only: bits_of_zero)
    with False show ?thesis by (subst count_bits.simps) (simp add: b Let_def card_bits_of_half [of r])
  qed
qed

lemma bit_peer_bit: "i < 31 \<Longrightarrow> bit (peer_bit i) j \<longleftrightarrow> j = i"
  by (auto simp: peer_bit_def bit_simps)

lemma bits_of_peer_bit [simp]: "i < 31 \<Longrightarrow> bits_of (r OR peer_bit i) = insert i (bits_of r)"
  by (auto simp: bit_or_iff bit_peer_bit)

lemma bits_of_peer_bit_only [simp]: "i < 31 \<Longrightarrow> bits_of (peer_bit i) = {i}"
  by (auto simp: bit_peer_bit)

lemma has_peer_bit:
  assumes "i < 31"
  shows "r AND peer_bit i \<noteq> 0 \<longleftrightarrow> bit r i"
proof -
  have "bits_of (r AND peer_bit i) = (if bit r i then {i} else {})"
    using assms by (auto simp: bit_and_iff bit_peer_bit)
  then show ?thesis using bits_of_zero [of "r AND peer_bit i"] by (auto split: if_splits)
qed

definition mc_count :: "MasterCache \<Rightarrow> bytes \<Rightarrow> nat option" where
  "mc_count c k =
     map_option (\<lambda>r. if mc_peerMerged c then unat (mr_refCount r) else card (bits_of (mr_refInfo r))) (map_of (mc_masterDataRef c) k)"

definition mc_inv :: "(nat \<times> bytes) set \<Rightarrow> MasterCache \<Rightarrow> bool" where
  "mc_inv D c \<longleftrightarrow> smap_ok (mc_masterDataRef c) \<and> D \<subseteq> {..<31} \<times> UNIV \<and>
     (\<forall>k. case map_of (mc_masterDataRef c) k of
            None \<Rightarrow> mc_peerMerged c \<or> {p. (p, k) \<in> D} = {}
          | Some r \<Rightarrow>
              if mc_peerMerged c then unat (mr_refCount r) \<le> card {p. (p, k) \<in> D}
              else mr_refCount r = 0 \<and> bits_of (mr_refInfo r) = {p. (p, k) \<in> D})"

lemma mc_invD:
  assumes "mc_inv D c"
  shows "map_of (mc_masterDataRef c) k = None \<Longrightarrow> \<not> mc_peerMerged c \<Longrightarrow> {p. (p, k) \<in> D} = {}"
    and "map_of (mc_masterDataRef c) k = Some r \<Longrightarrow> mc_peerMerged c \<Longrightarrow> unat (mr_refCount r) \<le> card {p. (p, k) \<in> D}"
    and "map_of (mc_masterDataRef c) k = Some r \<Longrightarrow> \<not> mc_peerMerged c \<Longrightarrow>
      mr_refCount r = 0 \<and> bits_of (mr_refInfo r) = {p. (p, k) \<in> D}"
proof -
  have "case map_of (mc_masterDataRef c) k of None \<Rightarrow> mc_peerMerged c \<or> {p. (p, k) \<in> D} = {}
    | Some r \<Rightarrow> if mc_peerMerged c then unat (mr_refCount r) \<le> card {p. (p, k) \<in> D}
        else mr_refCount r = 0 \<and> bits_of (mr_refInfo r) = {p. (p, k) \<in> D}"
    using assms unfolding mc_inv_def by blast
  then show "map_of (mc_masterDataRef c) k = None \<Longrightarrow> \<not> mc_peerMerged c \<Longrightarrow> {p. (p, k) \<in> D} = {}"
    and "map_of (mc_masterDataRef c) k = Some r \<Longrightarrow> mc_peerMerged c \<Longrightarrow> unat (mr_refCount r) \<le> card {p. (p, k) \<in> D}"
    and "map_of (mc_masterDataRef c) k = Some r \<Longrightarrow> \<not> mc_peerMerged c \<Longrightarrow>
      mr_refCount r = 0 \<and> bits_of (mr_refInfo r) = {p. (p, k) \<in> D}"
    by simp_all
qed

lemma mc_inv_finite: "mc_inv D c \<Longrightarrow> finite {p. (p, k) \<in> D}"
  by (rule finite_subset [of _ "{..<31}"]) (auto simp: mc_inv_def)

lemma mc_inv_card:
  assumes "mc_inv D c"
  shows "card {p. (p, k) \<in> D} \<le> 31"
proof -
  have "{p. (p, k) \<in> D} \<subseteq> {..<31}" using assms by (auto simp: mc_inv_def)
  then show ?thesis using card_mono [of "{..<31}" "{p. (p, k) \<in> D}"] by simp
qed

lemma updateDataIndex_fields [simp]:
  "mr_refInfo (updateDataIndex x r) = mr_refInfo r" "mr_refCount (updateDataIndex x r) = mr_refCount r"
  by (simp_all add: updateDataIndex_def)

lemma unat_plus_1: "unat (c :: u16) \<le> 31 \<Longrightarrow> unat (c + 1) = unat c + 1"
  by (simp add: unat_word_ariths)

lemma updateMasterDataRef_merged [simp]: "mc_peerMerged (updateMasterDataRef i k x c) = mc_peerMerged c"
  by (simp add: updateMasterDataRef_def Let_def split: option.splits)

lemma updateMasterDataRef_other:
  "k' \<noteq> k \<Longrightarrow> map_of (mc_masterDataRef (updateMasterDataRef i k x c)) k' = map_of (mc_masterDataRef c) k'"
  by (simp add: updateMasterDataRef_def Let_def map_of_smap_put split: option.splits)

lemma updateMasterDataRef_same:
  "map_of (mc_masterDataRef (updateMasterDataRef i k x c)) k =
     (case map_of (mc_masterDataRef c) k of
        None \<Rightarrow>
          if mc_peerMerged c then None
          else Some (updateDataIndex x \<lparr>mr_refInfo = 0 OR peer_bit i, mr_refCount = 0, mr_dataIndex = - 1\<rparr>)
      | Some r \<Rightarrow>
          Some (updateDataIndex x (if mc_peerMerged c then r\<lparr>mr_refCount := mr_refCount r + 1\<rparr>
                                   else r\<lparr>mr_refInfo := mr_refInfo r OR peer_bit i\<rparr>)))"
  by (simp add: updateMasterDataRef_def Let_def map_of_smap_put split: option.splits)

lemma updateMasterDataRef_ok: "smap_ok (mc_masterDataRef c) \<Longrightarrow> smap_ok (mc_masterDataRef (updateMasterDataRef i k x c))"
  by (simp add: updateMasterDataRef_def Let_def smap_ok_put split: option.splits)

lemma insert_pair_at: "{q. (q, k) \<in> insert (p, k) D} = insert p {q. (q, k) \<in> D}"
  by auto

lemma mc_count_put:
  assumes "mc_inv D c" and "i < 31" and "(i, k) \<notin> D"
  shows "mc_count (updateMasterDataRef i k x c) k' =
    (if k' \<noteq> k then mc_count c k'
     else case mc_count c k of None \<Rightarrow> if mc_peerMerged c then None else Some 1 | Some n \<Rightarrow> Some (n + 1))"
proof (cases "k' = k")
  case True
  show ?thesis
  proof (cases "map_of (mc_masterDataRef c) k")
    case None
    then show ?thesis using True assms(2) by (simp add: mc_count_def updateMasterDataRef_same)
  next
    case (Some r)
    show ?thesis
    proof (cases "mc_peerMerged c")
      case merged: True
      then have "unat (mr_refCount r) \<le> 31"
        using mc_invD(2) [OF assms(1) Some] mc_inv_card [OF assms(1), of k] by linarith
      with merged Some True show ?thesis by (simp add: mc_count_def updateMasterDataRef_same unat_plus_1)
    next
      case False
      then have "i \<notin> bits_of (mr_refInfo r)" using mc_invD(3) [OF assms(1) Some] assms(3) by simp
      with False Some True assms(2) show ?thesis by (simp add: mc_count_def updateMasterDataRef_same)
    qed
  qed
qed (simp add: mc_count_def updateMasterDataRef_other)

lemma mc_inv_put:
  assumes "mc_inv D c" and "i < 31" and "(i, k) \<notin> D"
  shows "mc_inv (insert (i, k) D) (updateMasterDataRef i k x c)"
  unfolding mc_inv_def
proof (intro conjI allI)
  let ?c = "updateMasterDataRef i k x c"
  show "smap_ok (mc_masterDataRef ?c)" using assms(1) by (simp add: mc_inv_def updateMasterDataRef_ok)
  show "insert (i, k) D \<subseteq> {..<31} \<times> UNIV" using assms(1,2) by (simp add: mc_inv_def)
  have card: "card (insert i {p. (p, k) \<in> D}) = card {p. (p, k) \<in> D} + 1"
    using mc_inv_finite [OF assms(1)] assms(3) by simp
  fix k'
  show "case map_of (mc_masterDataRef ?c) k' of
      None \<Rightarrow> mc_peerMerged ?c \<or> {p. (p, k') \<in> insert (i, k) D} = {}
    | Some r \<Rightarrow> if mc_peerMerged ?c then unat (mr_refCount r) \<le> card {p. (p, k') \<in> insert (i, k) D}
        else mr_refCount r = 0 \<and> bits_of (mr_refInfo r) = {p. (p, k') \<in> insert (i, k) D}"
  proof (cases "k' = k")
    case False
    then have "{p. (p, k') \<in> insert (i, k) D} = {p. (p, k') \<in> D}" by auto
    then show ?thesis
      using assms(1) unfolding mc_inv_def by (simp only: updateMasterDataRef_other [OF False] updateMasterDataRef_merged)
  next
    case True
    show ?thesis
    proof (cases "map_of (mc_masterDataRef c) k")
      case None
      with mc_invD(1) [OF assms(1) None] assms(2) show ?thesis
        unfolding True insert_pair_at by (simp add: updateMasterDataRef_same)
    next
      case (Some r)
      show ?thesis
      proof (cases "mc_peerMerged c")
        case merged: True
        then have "unat (mr_refCount r) \<le> card {p. (p, k) \<in> D}" by (rule mc_invD(2) [OF assms(1) Some])
        moreover from this have "unat (mr_refCount r + 1) = unat (mr_refCount r) + 1"
          using mc_inv_card [OF assms(1), of k] by (intro unat_plus_1) linarith
        ultimately show ?thesis
          unfolding True insert_pair_at card using merged by (simp add: updateMasterDataRef_same Some)
      next
        case False
        with mc_invD(3) [OF assms(1) Some] assms(2) show ?thesis
          unfolding True insert_pair_at by (simp add: updateMasterDataRef_same Some)
      qed
    qed
  qed
qed

text \<open>The merge keeps exactly the items of the finished peer and turns their bit sets into numbers.\<close>

lemma map_of_filter_value:
  assumes "distinct (map fst m)"
  shows "map_of (filter (\<lambda>(_, v). P v) m) k = (case map_of m k of Some v \<Rightarrow> if P v then Some v else None | None \<Rightarrow> None)"
  using assms
  by (induction m) (auto simp: map_of_eq_None_iff split: option.splits dest: map_of_SomeD)

lemma merge_merges [simp]: "mc_peerMerged (mergeMasterCipher i c) \<longleftrightarrow> mc_peerMerged c \<or> mc_peerCount c \<noteq> 1"
  by (simp add: mergeMasterCipher_def)

lemma merge_refs:
  assumes "smap_ok (mc_masterDataRef c)" and "\<not> mc_peerMerged c" and "mc_peerCount c \<noteq> 1" and "i < 31"
  shows "map_of (mc_masterDataRef (mergeMasterCipher i c)) k =
    (case map_of (mc_masterDataRef c) k of
       Some r \<Rightarrow> if bit (mr_refInfo r) i then Some (resetRefCount r) else None | None \<Rightarrow> None)"
  using assms
  by (simp add: mergeMasterCipher_def map_of_filter_value smap_ok_distinct has_peer_bit split: option.splits)

lemma merge_ok: "smap_ok (mc_masterDataRef c) \<Longrightarrow> smap_ok (mc_masterDataRef (mergeMasterCipher i c))"
  by (simp add: mergeMasterCipher_def smap_ok_filter)

lemma reset_count:
  assumes "mr_refCount r = 0"
  shows "unat (mr_refCount (resetRefCount r)) = card (bits_of (mr_refInfo r))"
proof -
  have "bits_of (mr_refInfo r) \<subseteq> {..<64}" by (auto dest: bit_imp_le_length)
  then have "card (bits_of (mr_refInfo r)) \<le> 64" using card_mono [of "{..<64}" "bits_of (mr_refInfo r)"] by simp
  then show ?thesis
    using assms by (simp add: resetRefCount_def count_bits_card unsigned_of_nat take_bit_nat_eq_self)
qed

lemma mc_count_merge:
  assumes "mc_inv D c" and "i < 31"
  shows "mc_count (mergeMasterCipher i c) k =
    (if mc_peerMerged c \<or> mc_peerCount c = 1 \<or> (i, k) \<in> D then mc_count c k else None)"
proof (cases "mc_peerMerged c \<or> mc_peerCount c = 1")
  case True
  then have "mergeMasterCipher i c = c" by (simp add: mergeMasterCipher_def)
  then show ?thesis using True by auto
next
  case False
  have ok: "smap_ok (mc_masterDataRef c)" using assms(1) by (simp add: mc_inv_def)
  show ?thesis
  proof (cases "map_of (mc_masterDataRef c) k")
    case None
    then show ?thesis using False ok assms(2) by (simp add: mc_count_def merge_refs)
  next
    case (Some r)
    have r: "mr_refCount r = 0" "bits_of (mr_refInfo r) = {p. (p, k) \<in> D}"
      using mc_invD(3) [OF assms(1) Some] False by simp_all
    then have "bit (mr_refInfo r) i \<longleftrightarrow> (i, k) \<in> D" by auto
    then show ?thesis using False ok assms(2) Some reset_count [OF r(1)] by (simp add: mc_count_def merge_refs)
  qed
qed

lemma mc_inv_merge:
  assumes "mc_inv D c" and "i < 31"
  shows "mc_inv D (mergeMasterCipher i c)"
proof (cases "mc_peerMerged c \<or> mc_peerCount c = 1")
  case True
  then show ?thesis using assms(1) by (simp add: mergeMasterCipher_def)
next
  case False
  have ok: "smap_ok (mc_masterDataRef c)" "D \<subseteq> {..<31} \<times> UNIV" using assms(1) by (simp_all add: mc_inv_def)
  have "unat (mr_refCount r') \<le> card {p. (p, k) \<in> D}"
    if "map_of (mc_masterDataRef (mergeMasterCipher i c)) k = Some r'" for k r'
  proof -
    from that obtain r where "map_of (mc_masterDataRef c) k = Some r" "r' = resetRefCount r"
      using False ok assms(2) by (auto simp: merge_refs split: option.splits if_splits)
    then show ?thesis using mc_invD(3) [OF assms(1)] False reset_count by simp
  qed
  then show ?thesis unfolding mc_inv_def using ok False merge_ok by (auto split: option.splits)
qed

interpretation master_tally: tally updateMasterDataRef mergeMasterCipher mc_count mc_peerMerged "\<lambda>i. i < 31" mc_inv
proof unfold_locales
  fix D c k x k' and p :: nat
  assume i: "mc_inv D c"
  show "finite {p. (p, k) \<in> D}" by (rule mc_inv_finite [OF i])
  assume p: "p < 31"
  show "mc_inv D (mergeMasterCipher p c)" by (rule mc_inv_merge [OF i p])
  show "mc_count (mergeMasterCipher p c) k = mc_count c k \<or> mc_count (mergeMasterCipher p c) k = None"
    by (simp add: mc_count_merge [OF i p])
  show "mc_count (mergeMasterCipher p c) k = mc_count c k" if "(p, k) \<in> D \<or> \<not> mc_peerMerged (mergeMasterCipher p c)"
    using that by (auto simp: mc_count_merge [OF i p])
  assume f: "(p, k) \<notin> D"
  show "mc_inv (insert (p, k) D) (updateMasterDataRef p k x c)" by (rule mc_inv_put [OF i p f])
  show "mc_count (updateMasterDataRef p k x c) k' =
    (if k' \<noteq> k then mc_count c k'
     else case mc_count c k of None \<Rightarrow> if mc_peerMerged c then None else Some 1 | Some n \<Rightarrow> Some (n + 1))"
    by (rule mc_count_put [OF i p f])
qed simp_all

section \<open>The calculator\<close>

text \<open>The source \<open>True\<close> is the intersection the master sends, \<open>False\<close> are the master's own items.\<close>

definition cc_count :: "CalculatorCache \<Rightarrow> bytes \<Rightarrow> nat option" where
  "cc_count c k = map_option (unat \<circ> cr_refCount) (map_of (cc_cipherRef c) k)"

definition cc_closed :: "CalculatorCache \<Rightarrow> bool" where
  "cc_closed c \<longleftrightarrow> cc_receiveAllMasterCipher c \<or> cc_receiveAllIntersection c"

definition cc_put :: "bool \<Rightarrow> bytes \<Rightarrow> int \<Rightarrow> CalculatorCache \<Rightarrow> CalculatorCache" where
  "cc_put p k x c = updateCipherRef k x c"

definition cc_close :: "bool \<Rightarrow> CalculatorCache \<Rightarrow> CalculatorCache" where
  "cc_close p c = (if p then c\<lparr>cc_receiveAllIntersection := True\<rparr> else c\<lparr>cc_receiveAllMasterCipher := True\<rparr>)"

definition cc_inv :: "(bool \<times> bytes) set \<Rightarrow> CalculatorCache \<Rightarrow> bool" where
  "cc_inv D c \<longleftrightarrow> smap_ok (cc_cipherRef c) \<and>
     (\<forall>k r. map_of (cc_cipherRef c) k = Some r \<longrightarrow> unat (cr_refCount r) \<le> card {p. (p, k) \<in> D})"

lemma card_bool_le: "card (A :: bool set) \<le> 2"
  using card_mono [of UNIV A] by simp

lemma updatePlainIndex_count [simp]: "cr_refCount (updatePlainIndex x r) = cr_refCount r"
  by (simp add: updatePlainIndex_def)

lemma updateCipherRef_refs:
  "map_of (cc_cipherRef (updateCipherRef k x c)) k' =
     (if k' \<noteq> k then map_of (cc_cipherRef c) k'
      else case map_of (cc_cipherRef c) k of
             None \<Rightarrow> if cc_closed c then None else Some (updatePlainIndex x \<lparr>cr_refCount = 1, cr_plainDataIndex = - 1\<rparr>)
           | Some r \<Rightarrow> Some (updatePlainIndex x (r\<lparr>cr_refCount := cr_refCount r + 1\<rparr>)))"
  by (auto simp: updateCipherRef_def cc_closed_def map_of_smap_put split: option.splits)

lemma updateCipherRef_ok: "smap_ok (cc_cipherRef c) \<Longrightarrow> smap_ok (cc_cipherRef (updateCipherRef k x c))"
  by (simp add: updateCipherRef_def smap_ok_put split: option.splits)

lemma cc_inv_count:
  assumes "cc_inv D c" and "map_of (cc_cipherRef c) k = Some r"
  shows "unat (cr_refCount r + 1) = unat (cr_refCount r) + 1"
proof -
  have "unat (cr_refCount r) \<le> card {p. (p, k) \<in> D}" using assms by (simp add: cc_inv_def)
  then show ?thesis using card_bool_le [of "{p. (p, k) \<in> D}"] by (intro unat_plus_1) linarith
qed

interpretation calculator_tally: tally cc_put cc_close cc_count cc_closed "\<lambda>_. True" cc_inv
proof unfold_locales
  fix D c k x k' and p :: bool
  assume i: "cc_inv D c"
  show "finite {p. (p, k) \<in> D}" by simp
  show "cc_inv D (cc_close p c)" using i by (simp add: cc_inv_def cc_close_def)
  show "cc_count (cc_close p c) k = cc_count c k \<or> cc_count (cc_close p c) k = None"
    by (simp add: cc_count_def cc_close_def)
  show "cc_count (cc_close p c) k = cc_count c k" by (simp add: cc_count_def cc_close_def)
  assume f: "(p, k) \<notin> D"
  have card: "card (insert p {q. (q, k) \<in> D}) = card {q. (q, k) \<in> D} + 1" using f by simp
  show "cc_count (cc_put p k x c) k' =
    (if k' \<noteq> k then cc_count c k'
     else case cc_count c k of None \<Rightarrow> if cc_closed c then None else Some 1 | Some n \<Rightarrow> Some (n + 1))"
    using cc_inv_count [OF i] by (simp add: cc_count_def cc_put_def updateCipherRef_refs split: option.splits)
  have "unat (cr_refCount r) \<le> card {q. (q, k'') \<in> insert (p, k) D}"
    if r: "map_of (cc_cipherRef (cc_put p k x c)) k'' = Some r" for k'' r
  proof (cases "k'' = k")
    case False
    then have "{q. (q, k'') \<in> insert (p, k) D} = {q. (q, k'') \<in> D}" by auto
    with r i False show ?thesis by (simp add: cc_put_def updateCipherRef_refs cc_inv_def)
  next
    case True
    show ?thesis
    proof (cases "map_of (cc_cipherRef c) k")
      case None
      with r True show ?thesis unfolding True insert_pair_at card by (auto simp: cc_put_def updateCipherRef_refs split: if_splits)
    next
      case (Some r')
      with r True have "unat (cr_refCount r) = unat (cr_refCount r') + 1"
        using cc_inv_count [OF i Some] by (auto simp: cc_put_def updateCipherRef_refs)
      moreover have "unat (cr_refCount r') \<le> card {q. (q, k) \<in> D}" using i Some by (simp add: cc_inv_def)
      ultimately show ?thesis unfolding True insert_pair_at card by simp
    qed
  qed
  then show "cc_inv (insert (p, k) D) (cc_put p k x c)"
    using i updateCipherRef_ok by (simp add: cc_inv_def cc_put_def)
next
  fix p c k x
  show "cc_closed (cc_put p k x c) = cc_closed c"
    by (simp add: cc_closed_def cc_put_def updateCipherRef_def split: option.splits)
  show "cc_closed (cc_close p c)" if "cc_closed c" using that by (simp add: cc_closed_def cc_close_def)
qed

end
