(* ===== verification/MultiPSI.thy ===== *)
theory MultiPSI
  imports MultiCache
begin

text \<open>
  Multi-party ECDH-PSI: the three roles (wedpr-computing/ppc-psi/src/ecdh-multi-psi/core/EcdhMultiPSICalculator.cpp,
  EcdhMultiPSIMaster.cpp, EcdhMultiPSIPartner.cpp) and the service that owns them (EcdhMultiPSIImpl.cpp), with the
  table of pending tasks it inherits from \<open>TaskGuarder\<close>.

  The service's state is the record \<open>multi\<close>: the task states in a heap, the tables of pending tasks and of the
  three roles by task id, the queue of received messages and the jobs of the thread pool. A job is a value of
  \<open>mjob\<close>: blinding for a role object (named by its task state), or handling a message. The reader of a task
  is the list of the batches it will still return; a file reader says it is finished when none is left, a
  database reader always. Random scalars, what loading a reader or writer gives and whether memory is short are
  arguments. Exceptions of the crypto library and of the front are not modelled.
\<close>

section \<open>State\<close>

definition PartiesType_Calculator :: u16 where "PartiesType_Calculator = 0"
definition PartiesType_Partner :: u16 where "PartiesType_Partner = 1"
definition PartiesType_Master :: u16 where "PartiesType_Master = 2"

record Calculator =
  ca_taskState :: taddr
  ca_randomA :: bytes
  ca_calculatorParties :: "bytes list"
  ca_partnerParties :: "bytes list"
  ca_masterParties :: "bytes list"
  ca_cache :: CalculatorCache

record Partner =
  pt_taskState :: taddr
  pt_syncResult :: bool
  pt_calculatorParties :: "bytes list"
  pt_partnerParties :: "bytes list"
  pt_masterParties :: "bytes list"

record Master =
  ma_taskState :: taddr
  ma_syncResult :: bool
  ma_randomB :: bytes
  ma_calculatorParties :: "bytes list"
  ma_partnerParties :: "bytes list"
  ma_masterParties :: "bytes list"
  ma_cache :: MasterCache

datatype mjob = BlindCalculator taddr | BlindMaster taddr | HandleMessage PSIMessage

record multi =
  mu_selfParty :: bytes
  mu_box :: CryptoBox
  mu_dataBatchSize :: u32
  mu_heap :: "taddr \<Rightarrow> TaskState"
  mu_next :: taddr
  mu_reader :: "taddr \<Rightarrow> bytes list list"
  mu_pendingTasks :: "bytes \<rightharpoonup> taddr"
  mu_calculators :: "bytes \<rightharpoonup> Calculator"
  mu_partners :: "bytes \<rightharpoonup> Partner"
  mu_masters :: "bytes \<rightharpoonup> Master"
  mu_msgQueue :: "PPCMessage list"
  mu_jobs :: "mjob list"

definition set_mtask :: "taddr \<Rightarrow> TaskState \<Rightarrow> multi \<Rightarrow> multi" where
  "set_mtask a s w = w\<lparr>mu_heap := (mu_heap w)(a := s)\<rparr>"

definition mtask :: "multi \<Rightarrow> taddr \<Rightarrow> Task" where
  "mtask w a = ts_task (mu_heap w a)"

definition multi_send :: "bytes list \<Rightarrow> bytes \<Rightarrow> PSIMessage \<Rightarrow> u32 \<Rightarrow> multi \<Rightarrow> psi_out list" where
  "multi_send peers task m seq w = map (\<lambda>p. SendPSI p task (generatePPCMsg (mu_selfParty w) m) seq) peers"

section \<open>The task tables\<close>

definition findPendingTask :: "bytes \<Rightarrow> multi \<Rightarrow> taddr option" where
  "findPendingTask task w = mu_pendingTasks w task"

definition addPendingTask :: "taddr \<Rightarrow> multi \<Rightarrow> multi" where
  "addPendingTask a w = w\<lparr>mu_pendingTasks := umap_put (tk_id (mtask w a)) a (mu_pendingTasks w)\<rparr>"

definition guarder_removePendingTask :: "bytes \<Rightarrow> multi \<Rightarrow> multi" where
  "guarder_removePendingTask task w = w\<lparr>mu_pendingTasks := umap_erase task (mu_pendingTasks w)\<rparr>"

definition removeCalculator :: "bytes \<Rightarrow> multi \<Rightarrow> multi" where
  "removeCalculator task w = w\<lparr>mu_calculators := umap_erase task (mu_calculators w)\<rparr>"

definition removePartner :: "bytes \<Rightarrow> multi \<Rightarrow> multi" where
  "removePartner task w = w\<lparr>mu_partners := umap_erase task (mu_partners w)\<rparr>"

definition removeMaster :: "bytes \<Rightarrow> multi \<Rightarrow> multi" where
  "removeMaster task w = w\<lparr>mu_masters := umap_erase task (mu_masters w)\<rparr>"

definition remove_task :: "bytes \<Rightarrow> multi \<Rightarrow> multi" where
  "remove_task task w = guarder_removePendingTask task (removePartner task (removeMaster task (removeCalculator task w)))"

text \<open>The finalize handler that \<open>asyncRunTask\<close> registers runs where a task state's action \<open>Finalize\<close> says so.\<close>

fun multi_finalize :: "psi_out list \<Rightarrow> multi \<Rightarrow> multi" where
  "multi_finalize [] w = w"
| "multi_finalize (TaskOut a (Did Finalize) # outs) w = multi_finalize outs (remove_task (tk_id (mtask w a)) w)"
| "multi_finalize (x # outs) w = multi_finalize outs w"

definition task_does :: "taddr \<Rightarrow> TaskState \<times> ts_out list \<Rightarrow> multi \<Rightarrow> multi \<times> psi_out list" where
  "task_does a r w = (let outs = map (TaskOut a) (snd r) in (multi_finalize outs (set_mtask a (fst r) w), outs))"

definition multi_finish :: "(ts_act \<Rightarrow> bool) \<Rightarrow> taddr \<Rightarrow> multi \<Rightarrow> multi \<times> psi_out list" where
  "multi_finish throws a w = task_does a (onTaskFinished throws ((mu_heap w a)\<lparr>ts_finished := True\<rparr>)) w"

definition finish_with_error :: "(ts_act \<Rightarrow> bool) \<Rightarrow> int \<Rightarrow> bool \<Rightarrow> taddr \<Rightarrow> multi \<Rightarrow> multi \<times> psi_out list" where
  "finish_with_error throws code noticePeer a w =
     task_does a (onTaskFinished_result throws
       (Some \<lparr>tr_taskID = tk_id (mtask w a), tr_error = Some code, tr_status = NoStatus\<rparr>) noticePeer (mu_heap w a)) w"

definition role_onTaskError :: "(ts_act \<Rightarrow> bool) \<Rightarrow> taddr \<Rightarrow> multi \<Rightarrow> multi \<times> psi_out list" where
  "role_onTaskError throws a w = finish_with_error throws (- 12222) True a w"

definition onSelfError :: "(ts_act \<Rightarrow> bool) \<Rightarrow> bytes \<Rightarrow> int \<Rightarrow> bool \<Rightarrow> multi \<Rightarrow> multi \<times> psi_out list" where
  "onSelfError throws task code noticePeer w =
     (case findPendingTask task w of
        None \<Rightarrow> (w, [])
      | Some a \<Rightarrow> finish_with_error throws code noticePeer a w)"

text \<open>The callback every send of the roles carries, when the front reports a failure.\<close>

definition role_send_failed :: "taddr \<Rightarrow> multi \<Rightarrow> multi \<times> psi_out list" where
  "role_send_failed a w = task_does a (onTaskException (mu_heap w a)) w"

section \<open>Blinding\<close>

definition GENERATE_RANDOM_TO_PARTNER :: u32 where "GENERATE_RANDOM_TO_PARTNER = 1"
definition SEND_ENCRYPTED_SET_TO_MASTER_FROM_CALCULATOR :: u32 where "SEND_ENCRYPTED_SET_TO_MASTER_FROM_CALCULATOR = 2"
definition SEND_ENCRYPTED_SET_TO_MASTER_FROM_PARTNER :: u32 where "SEND_ENCRYPTED_SET_TO_MASTER_FROM_PARTNER = 3"
definition SEND_ENCRYPTED_SET_TO_CALCULATOR :: u32 where "SEND_ENCRYPTED_SET_TO_CALCULATOR = 4"
definition RETURN_ENCRYPTED_INTERSECTION_SET_FROM_CALCULATOR_TO_MASTER :: u32 where
  "RETURN_ENCRYPTED_INTERSECTION_SET_FROM_CALCULATOR_TO_MASTER = 6"

lemmas multi_packet_types = GENERATE_RANDOM_TO_PARTNER_def SEND_ENCRYPTED_SET_TO_MASTER_FROM_CALCULATOR_def
  SEND_ENCRYPTED_SET_TO_MASTER_FROM_PARTNER_def SEND_ENCRYPTED_SET_TO_CALCULATOR_def
  SEND_ENCRYPTED_INTERSECTION_SET_TO_CALCULATOR_def RETURN_ENCRYPTED_INTERSECTION_SET_FROM_CALCULATOR_TO_MASTER_def
  SYNC_FINAL_RESULT_TO_ALL_def

definition blind_item :: "CryptoBox \<Rightarrow> bytes \<Rightarrow> bytes \<Rightarrow> bytes" where
  "blind_item box key x = cb_ecMultiply box (cb_hashToCurve box (cb_hash box x)) key"

text \<open>
  The loop of the three \<open>blindData\<close> functions: \<open>mk\<close> builds the message of a batch from the offset of its
  first item, \<open>keep\<close> is what the role does with the plain data. The offset grows once for every receiver.
\<close>

fun multi_blind_loop ::
  "taddr \<Rightarrow> (nat \<Rightarrow> bytes list \<Rightarrow> PSIMessage) \<Rightarrow> (bytes list \<Rightarrow> multi \<Rightarrow> multi) \<Rightarrow> bytes list \<Rightarrow> bytes list list \<Rightarrow> nat \<Rightarrow> multi \<Rightarrow>
   multi \<times> psi_out list" where
  "multi_blind_loop a mk keep receivers batches dataOffset w =
     (let s = mu_heap w a in
      if ts_finished s \<or> ts_taskDone s then (w, [])
      else case batches of
        [] \<Rightarrow> (set_mtask a (s\<lparr>ts_finished := True\<rparr>) w, [])
      | batch # rest \<Rightarrow>
          let (seq, s1) = allocateSeq s;
              s2 = (if ts_sqlReader s then s1\<lparr>ts_finished := True\<rparr> else s1);
              w1 = keep batch ((set_mtask a s2 w)\<lparr>mu_reader := (mu_reader w)(a := rest)\<rparr>);
              m = (mk dataOffset batch)
                    \<lparr>pm_from := pa_id (tk_selfParty (ts_task s)),
                     pm_dataBatchCount := (if ts_sqlReader s \<or> rest = [] then of_nat (card (ts_seqList s2)) else 0)\<rparr>;
              outs = multi_send receivers (tk_id (ts_task s)) m seq w1
          in if ts_sqlReader s then (w1, outs)
             else let (w2, outs2) = multi_blind_loop a mk keep receivers rest (dataOffset + length receivers * length batch) w1
                  in (w2, outs @ outs2))"

declare multi_blind_loop.simps [simp del]

definition cal_message :: "CryptoBox \<Rightarrow> bytes \<Rightarrow> nat \<Rightarrow> bytes list \<Rightarrow> PSIMessage" where
  "cal_message box randA dataOffset batch =
     (createPSIMessage SEND_ENCRYPTED_SET_TO_MASTER_FROM_CALCULATOR)
       \<lparr>pm_data := map (blind_item box randA) batch, pm_dataIndex := map int [dataOffset..<dataOffset + length batch]\<rparr>"

definition set_calculator :: "bytes \<Rightarrow> Calculator \<Rightarrow> multi \<Rightarrow> multi" where
  "set_calculator task c w = w\<lparr>mu_calculators := umap_put task c (mu_calculators w)\<rparr>"

definition set_master :: "bytes \<Rightarrow> Master \<Rightarrow> multi \<Rightarrow> multi" where
  "set_master task m w = w\<lparr>mu_masters := umap_put task m (mu_masters w)\<rparr>"

definition keep_plain :: "bytes \<Rightarrow> bytes list \<Rightarrow> multi \<Rightarrow> multi" where
  "keep_plain task batch w =
     (case mu_calculators w task of
        None \<Rightarrow> w
      | Some c \<Rightarrow> set_calculator task (c\<lparr>ca_cache := appendPlainData batch (ca_cache c)\<rparr>) w)"

definition cal_blindData :: "bytes \<Rightarrow> Calculator \<Rightarrow> multi \<Rightarrow> multi \<times> psi_out list" where
  "cal_blindData task c w =
     multi_blind_loop (ca_taskState c) (cal_message (mu_box w) (ca_randomA c)) (keep_plain task)
       (ca_masterParties c) (mu_reader w (ca_taskState c)) 0 w"

definition master_message :: "CryptoBox \<Rightarrow> bytes \<Rightarrow> nat \<Rightarrow> bytes list \<Rightarrow> PSIMessage" where
  "master_message box randomB dataOffset batch =
     (createPSIMessage SEND_ENCRYPTED_SET_TO_CALCULATOR)\<lparr>pm_data := map (blind_item box randomB) batch\<rparr>"

definition master_blindData :: "Master \<Rightarrow> multi \<Rightarrow> multi \<times> psi_out list" where
  "master_blindData m w =
     multi_blind_loop (ma_taskState m) (master_message (mu_box w) (ma_randomB m)) (\<lambda>_ w. w)
       (ma_calculatorParties m) (mu_reader w (ma_taskState m)) 0 w"

definition partner_message :: "CryptoBox \<Rightarrow> bytes \<Rightarrow> nat \<Rightarrow> bytes list \<Rightarrow> PSIMessage" where
  "partner_message box randA dataOffset batch =
     (createPSIMessage SEND_ENCRYPTED_SET_TO_MASTER_FROM_PARTNER)\<lparr>pm_data := map (blind_item box randA) batch\<rparr>"

definition partner_onReceiveRandomA :: "bytes \<Rightarrow> Partner \<Rightarrow> multi \<Rightarrow> multi \<times> psi_out list" where
  "partner_onReceiveRandomA randA p w =
     multi_blind_loop (pt_taskState p) (partner_message (mu_box w) randA) (\<lambda>_ w. w)
       (pt_masterParties p) (mu_reader w (pt_taskState p)) 0 w"

section \<open>The calculator\<close>

definition cal_onReceiveIntersecCipher ::
  "(ts_act \<Rightarrow> bool) \<Rightarrow> PSIMessage \<Rightarrow> bytes \<Rightarrow> Calculator \<Rightarrow> multi \<Rightarrow> multi \<times> psi_out list" where
  "cal_onReceiveIntersecCipher throws m task c w =
     (case addIntersectionCipher (pm_data m) (pm_dataIndex m) (pm_seq m) (pm_dataBatchCount m) (ca_cache c) of
        Inl _ \<Rightarrow> (w, [NullDereference])
      | Inr cache \<Rightarrow>
          let a = ca_taskState c;
              (r, cache1, s, outs) = tryToFinalize throws (mu_selfParty w) a (mu_heap w a) cache;
              w1 = set_calculator task (c\<lparr>ca_cache := cache1\<rparr>) (set_mtask a s w);
              reply = multi_send (ca_masterParties c) task
                ((createPSIMessage RETURN_ENCRYPTED_INTERSECTION_SET_FROM_CALCULATOR_TO_MASTER)
                   \<lparr>pm_from := pa_id (tk_selfParty (ts_task s))\<rparr>) 0 w1
          in case r of
               NotYet \<Rightarrow> (w1, outs @ reply)
             | Threw \<Rightarrow> let (w2, outs2) = role_onTaskError throws a w1 in (w2, outs @ outs2)
             | Done \<Rightarrow> let (w2, outs2) = multi_finish throws a w1 in (w2, outs @ reply @ outs2))"

definition cal_onReceiveMasterCipher ::
  "(ts_act \<Rightarrow> bool) \<Rightarrow> PSIMessage \<Rightarrow> bytes \<Rightarrow> Calculator \<Rightarrow> multi \<Rightarrow> multi \<times> psi_out list" where
  "cal_onReceiveMasterCipher throws m task c w =
     (let a = ca_taskState c;
          encryptedCipher = map (\<lambda>x. cb_ecMultiply (mu_box w) x (ca_randomA c)) (pm_data m);
          (all, cache) = appendMasterCipher encryptedCipher (pm_seq m) (pm_dataBatchCount m) (ca_cache c)
      in if \<not> all then (set_calculator task (c\<lparr>ca_cache := cache\<rparr>) w, [])
         else
           let (r, cache1, s, outs) = tryToFinalize throws (mu_selfParty w) a (mu_heap w a) cache;
               w1 = set_calculator task (c\<lparr>ca_cache := cache1\<rparr>) (set_mtask a s w)
           in case r of
                NotYet \<Rightarrow> (w1, outs)
              | Threw \<Rightarrow> let (w2, outs2) = role_onTaskError throws a w1 in (w2, outs @ outs2)
              | Done \<Rightarrow> let (w2, outs2) = multi_finish throws a w1 in (w2, outs @ outs2))"

section \<open>The master\<close>

text \<open>What follows the arrival of data: try to intersect, and when that is done, encrypt and send.\<close>

definition master_continue :: "bytes \<Rightarrow> Master \<Rightarrow> MasterCache \<Rightarrow> multi \<Rightarrow> multi \<times> psi_out list" where
  "master_continue task m cache w =
     (case tryToIntersection cache of
        (False, cache1) \<Rightarrow> (set_master task (m\<lparr>ma_cache := cache1\<rparr>) w, [])
      | (True, cache1) \<Rightarrow>
          let (cache2, outs) = encryptIntersection (mu_box w) (ma_randomB m) (mu_selfParty w) (mtask w (ma_taskState m))
                (ma_calculatorParties m) (unat (mu_dataBatchSize w)) cache1
          in (set_master task (m\<lparr>ma_cache := cache2\<rparr>) w, outs))"

definition master_onReceiveCalCipher :: "PSIMessage \<Rightarrow> bytes \<Rightarrow> Master \<Rightarrow> multi \<Rightarrow> multi \<times> psi_out list" where
  "master_onReceiveCalCipher msg task m w =
     (case addCalculatorCipher (pm_from msg) (pm_data msg) (pm_dataIndex msg) (pm_seq msg) (pm_dataBatchCount msg) (ma_cache m) of
        Inl _ \<Rightarrow> (w, [NullDereference])
      | Inr cache \<Rightarrow> master_continue task m cache w)"

definition master_onReceiveCipherFromPartner :: "PSIMessage \<Rightarrow> bytes \<Rightarrow> Master \<Rightarrow> multi \<Rightarrow> multi \<times> psi_out list" where
  "master_onReceiveCipherFromPartner msg task m w =
     master_continue task m (addPartnerCipher (pm_from msg) (pm_data msg) (pm_seq msg) (pm_dataBatchCount msg) (ma_cache m)) w"

text \<open>
  The result from the calculator, at the master and at a partner. When storing throws, the exception leaves the
  handler, is logged, and the task is not finished.
\<close>

definition store_result :: "(ts_act \<Rightarrow> bool) \<Rightarrow> bool \<Rightarrow> taddr \<Rightarrow> PSIMessage \<Rightarrow> multi \<Rightarrow> multi \<times> psi_out list" where
  "store_result throws sync a msg w =
     (if \<not> sync then multi_finish throws a w
      else
        let (s, did, threw) = ts_storePSIResult throws (pm_data msg) (mu_heap w a);
            w1 = set_mtask a s w; outs = map (TaskOut a \<circ> Did) did
        in if threw then (w1, outs)
           else let (w2, outs2) = multi_finish throws a w1 in (w2, outs @ outs2))"

definition master_onReceivePSIResult :: "(ts_act \<Rightarrow> bool) \<Rightarrow> PSIMessage \<Rightarrow> Master \<Rightarrow> multi \<Rightarrow> multi \<times> psi_out list" where
  "master_onReceivePSIResult throws msg m w = store_result throws (ma_syncResult m) (ma_taskState m) msg w"

definition partner_onReceivePSIResult :: "(ts_act \<Rightarrow> bool) \<Rightarrow> PSIMessage \<Rightarrow> Partner \<Rightarrow> multi \<Rightarrow> multi \<times> psi_out list" where
  "partner_onReceivePSIResult throws msg p w = store_result throws (pt_syncResult p) (pt_taskState p) msg w"

section \<open>Messages\<close>

definition onReceivePSIResult :: "(ts_act \<Rightarrow> bool) \<Rightarrow> PSIMessage \<Rightarrow> multi \<Rightarrow> multi \<times> psi_out list" where
  "onReceivePSIResult throws msg w =
     (case mu_masters w (pm_taskID msg) of
        Some m \<Rightarrow> master_onReceivePSIResult throws msg m w
      | None \<Rightarrow>
          (case mu_partners w (pm_taskID msg) of
             Some p \<Rightarrow> partner_onReceivePSIResult throws msg p w
           | None \<Rightarrow> (w, [])))"

definition multi_onReceiveRandomA :: "PSIMessage \<Rightarrow> multi \<Rightarrow> multi \<times> psi_out list" where
  "multi_onReceiveRandomA msg w =
     (case mu_partners w (pm_taskID msg) of
        None \<Rightarrow> (w, [])
      | Some p \<Rightarrow> (case pm_data msg of [randA] \<Rightarrow> partner_onReceiveRandomA randA p w | _ \<Rightarrow> (w, [])))"

definition handlerPSIReceiveMessage :: "(ts_act \<Rightarrow> bool) \<Rightarrow> PSIMessage \<Rightarrow> multi \<Rightarrow> multi \<times> psi_out list" where
  "handlerPSIReceiveMessage throws msg w =
     (let task = pm_taskID msg; type = pm_packetType msg;
          calculator = (\<lambda>f. case mu_calculators w task of Some c \<Rightarrow> f c w | None \<Rightarrow> (w, []));
          master = (\<lambda>f. case mu_masters w task of Some m \<Rightarrow> f m w | None \<Rightarrow> (w, []))
      in if type = GENERATE_RANDOM_TO_PARTNER then multi_onReceiveRandomA msg w
         else if type = SEND_ENCRYPTED_SET_TO_MASTER_FROM_CALCULATOR then master (master_onReceiveCalCipher msg task)
         else if type = SEND_ENCRYPTED_SET_TO_MASTER_FROM_PARTNER then master (master_onReceiveCipherFromPartner msg task)
         else if type = SEND_ENCRYPTED_INTERSECTION_SET_TO_CALCULATOR then calculator (cal_onReceiveIntersecCipher throws msg task)
         else if type = SEND_ENCRYPTED_SET_TO_CALCULATOR then calculator (cal_onReceiveMasterCipher throws msg task)
         else if type = SYNC_FINAL_RESULT_TO_ALL then onReceivePSIResult throws msg w
         else (w, []))"

definition multi_onReceiveMessage :: "PPCMessage \<Rightarrow> multi \<Rightarrow> multi" where
  "multi_onReceiveMessage p w = w\<lparr>mu_msgQueue := mu_msgQueue w @ [p]\<rparr>"

definition CommonMessageType_ErrorNotification :: u8 where "CommonMessageType_ErrorNotification = 0xff"
definition CommonMessageType_PingPeer :: u8 where "CommonMessageType_PingPeer = 0xfe"

definition onReceivedErrorNotification :: "(ts_act \<Rightarrow> bool) \<Rightarrow> PPCMessage \<Rightarrow> multi \<Rightarrow> multi \<times> psi_out list" where
  "onReceivedErrorNotification throws p w =
     (case findPendingTask (ppc_taskID p) w of
        None \<Rightarrow> (w, [])
      | Some a \<Rightarrow> task_does a (onPeerNotifyFinish throws (mu_heap w a)) w)"

definition checkFinishedTask :: "multi \<Rightarrow> multi" where
  "checkFinishedTask w =
     (let finished = {t. case mu_pendingTasks w t of Some a \<Rightarrow> ts_taskDone (mu_heap w a) | None \<Rightarrow> False}
      in w\<lparr>mu_calculators := (\<lambda>t. if t \<in> finished then None else mu_calculators w t),
           mu_partners := (\<lambda>t. if t \<in> finished then None else mu_partners w t),
           mu_masters := (\<lambda>t. if t \<in> finished then None else mu_masters w t),
           mu_pendingTasks := (\<lambda>t. if t \<in> finished then None else mu_pendingTasks w t)\<rparr>)"

text \<open>
  A round of the worker. \<open>decode\<close> is the message factory; its exception on malformed data leaves the round, with the
  message taken from the queue.
\<close>

definition multi_executeWorker :: "(ts_act \<Rightarrow> bool) \<Rightarrow> (bytes \<Rightarrow> PSIMessage option) \<Rightarrow> multi \<Rightarrow> multi \<times> psi_out list" where
  "multi_executeWorker throws decode w0 =
     (let w = checkFinishedTask w0 in
      case mu_msgQueue w of
        [] \<Rightarrow> (w, [WaitSignal])
      | p # rest \<Rightarrow>
          let w1 = w\<lparr>mu_msgQueue := rest\<rparr> in
          if ppc_messageType p = CommonMessageType_ErrorNotification then onReceivedErrorNotification throws p w1
          else if ppc_messageType p = CommonMessageType_PingPeer then (w1, [])
          else case decode (ppc_data p) of
                 None \<Rightarrow> (w1, [])
               | Some m \<Rightarrow>
                   (w1\<lparr>mu_jobs := mu_jobs w1 @
                        [HandleMessage (m\<lparr>pm_from := ppc_sender p, pm_taskID := ppc_taskID p, pm_seq := ppc_seq p,
                                          pm_uuid := ppc_uuid p\<rparr>)]\<rparr>, []))"

section \<open>Running a task\<close>

definition parties_of_type :: "u16 \<Rightarrow> Task \<Rightarrow> bytes list" where
  "parties_of_type k task = map fst (filter (\<lambda>(_, p). pa_partyIndex p = k) (tk_peerParties task))"

definition sync_here :: "bytes \<Rightarrow> Task \<Rightarrow> bool" where
  "sync_here self task \<longleftrightarrow> tk_syncResultToPeer task \<and> self \<in> set (tk_receivers task)"

definition generateRandomA :: "bytes \<Rightarrow> Task \<Rightarrow> multi \<Rightarrow> psi_out list" where
  "generateRandomA randomValue task w =
     multi_send (parties_of_type PartiesType_Partner task) (tk_id task)
       ((createPSIMessage GENERATE_RANDOM_TO_PARTNER)
          \<lparr>pm_data := [randomValue], pm_dataBatchCount := of_nat (length randomValue), pm_from := pa_id (tk_selfParty task)\<rparr>) 0 w"

definition start_calculator :: "bytes \<Rightarrow> taddr \<Rightarrow> multi \<Rightarrow> multi \<times> psi_out list" where
  "start_calculator scalar a w =
     (let task = mtask w a;
          c = \<lparr>ca_taskState = a, ca_randomA = scalar, ca_calculatorParties = parties_of_type PartiesType_Calculator task,
               ca_partnerParties = parties_of_type PartiesType_Partner task,
               ca_masterParties = parties_of_type PartiesType_Master task,
               ca_cache = new_CalculatorCache (sync_here (mu_selfParty w) task)\<rparr>
      in (set_calculator (tk_id task) c (w\<lparr>mu_jobs := mu_jobs w @ [BlindCalculator a]\<rparr>), generateRandomA scalar task w))"

definition start_partner :: "taddr \<Rightarrow> multi \<Rightarrow> multi" where
  "start_partner a w =
     (let task = mtask w a
      in w\<lparr>mu_partners := umap_put (tk_id task)
             \<lparr>pt_taskState = a, pt_syncResult = sync_here (mu_selfParty w) task,
              pt_calculatorParties = parties_of_type PartiesType_Calculator task,
              pt_partnerParties = parties_of_type PartiesType_Partner task,
              pt_masterParties = parties_of_type PartiesType_Master task\<rparr> (mu_partners w)\<rparr>)"

definition start_master :: "bytes \<Rightarrow> taddr \<Rightarrow> multi \<Rightarrow> multi" where
  "start_master scalar a w =
     (let task = mtask w a
      in set_master (tk_id task)
           \<lparr>ma_taskState = a, ma_syncResult = sync_here (mu_selfParty w) task, ma_randomB = scalar,
            ma_calculatorParties = parties_of_type PartiesType_Calculator task,
            ma_partnerParties = parties_of_type PartiesType_Partner task,
            ma_masterParties = parties_of_type PartiesType_Master task, ma_cache = new_MasterCache task\<rparr>
           (w\<lparr>mu_jobs := mu_jobs w @ [BlindMaster a]\<rparr>))"

definition c_max_peer_size :: nat where "c_max_peer_size = 63"

text \<open>
  \<open>reader\<close> is what loading the input gives, an error code or the kind of reader and its batches, \<open>writer\<close> the error code
  when checking or loading the output throws. With raw data in the task the loader returns a null reader, which is
  dereferenced. A task over the peer limit is answered with an error, and the function goes on.
\<close>

definition open_writer :: "int option \<Rightarrow> taddr \<Rightarrow> multi \<Rightarrow> int + multi" where
  "open_writer writer a w =
     (case writer of Some e \<Rightarrow> Inl e | None \<Rightarrow> Inr (set_mtask a ((mu_heap w a)\<lparr>ts_writer := Some []\<rparr>) w))"

definition start_role :: "int option \<Rightarrow> bytes \<Rightarrow> taddr \<Rightarrow> multi \<Rightarrow> int + (multi \<times> psi_out list)" where
  "start_role writer scalar a w =
     (let task = mtask w a; role = pa_partyIndex (tk_selfParty task) in
      if role = PartiesType_Calculator
      then rbind (open_writer writer a w) (\<lambda>w1. Inr (start_calculator scalar a w1))
      else if role = PartiesType_Partner
      then rbind (if sync_here (mu_selfParty w) task then open_writer writer a w else Inr w) (\<lambda>w1. Inr (start_partner a w1, []))
      else if role = PartiesType_Master
      then rbind (if sync_here (mu_selfParty w) task then open_writer writer a w else Inr w) (\<lambda>w1. Inr (start_master scalar a w1, []))
      else Inl PSIRetCode_TaskParamsError)"

definition multi_asyncRunTask ::
  "(ts_act \<Rightarrow> bool) \<Rightarrow> bool \<Rightarrow> int + bool \<times> bytes list list \<Rightarrow> int option \<Rightarrow> bytes \<Rightarrow> Task \<Rightarrow> multi \<Rightarrow> multi \<times> psi_out list" where
  "multi_asyncRunTask throws lowMemory reader writer scalar task w =
     (let a = mu_next w;
          s = (new_TaskState task False True)\<lparr>ts_notifyPeerFinishHandler := True, ts_finalizeHandler := True\<rparr>;
          w1 = addPendingTask a ((set_mtask a s w)\<lparr>mu_next := a + 1\<rparr>)
      in if lowMemory then onSelfError throws (tk_id task) PSIRetCode_TaskParamsError True w1
         else
           let (w2, outs) = (if length (tk_peerParties task) > c_max_peer_size then onSelfError throws (tk_id task) (- 1) True w1
                             else (w1, []))
           in case pa_dataResource (tk_selfParty task) of
                None \<Rightarrow> (w2, outs @ [NullDereference])
              | Some r \<Rightarrow>
                  if dr_rawData r \<noteq> [] then (w2, outs @ [NullDereference])
                  else case reader of
                    Inl e \<Rightarrow> let (w3, outs3) = onSelfError throws (tk_id task) e True w2 in (w3, outs @ outs3)
                  | Inr (sql, batches) \<Rightarrow>
                      let w3 = (set_mtask a ((mu_heap w2 a)\<lparr>ts_reader := True, ts_sqlReader := sql\<rparr>) w2)
                                 \<lparr>mu_reader := (mu_reader w2)(a := batches)\<rparr>
                      in case start_role writer scalar a w3 of
                           Inl e \<Rightarrow> let (w4, outs4) = onSelfError throws (tk_id task) e True w3 in (w4, outs @ outs4)
                         | Inr (w4, outs4) \<Rightarrow> (w4, outs @ outs4 @ [NotifyTaskInfo (tk_id task)]))"

text \<open>A job of the thread pool; a blinding job finds its role object gone when the task was removed or replaced.\<close>

definition multi_run_job :: "(ts_act \<Rightarrow> bool) \<Rightarrow> nat \<Rightarrow> multi \<Rightarrow> multi \<times> psi_out list" where
  "multi_run_job throws i w =
     (if i \<ge> length (mu_jobs w) then (w, [])
      else
        let w1 = w\<lparr>mu_jobs := take i (mu_jobs w) @ drop (i + 1) (mu_jobs w)\<rparr> in
        case mu_jobs w ! i of
          HandleMessage m \<Rightarrow> handlerPSIReceiveMessage throws m w1
        | BlindCalculator a \<Rightarrow>
            (case mu_calculators w1 (tk_id (mtask w a)) of
               Some c \<Rightarrow> if ca_taskState c = a then cal_blindData (tk_id (mtask w a)) c w1 else (w1, [])
             | None \<Rightarrow> (w1, []))
        | BlindMaster a \<Rightarrow>
            (case mu_masters w1 (tk_id (mtask w a)) of
               Some m \<Rightarrow> if ma_taskState m = a then master_blindData m w1 else (w1, [])
             | None \<Rightarrow> (w1, [])))"

end
