(* ===== verification/MultiMaster.thy ===== *)
theory MultiMaster
  imports MultiTally MultiPSI EcdhRun
begin

text \<open>
  The master of multi-party ECDH-PSI: every peer's batches arrive once each, in any order, interleaved in any
  way. Shown: the master intersects exactly when the last batch is there, and what it then sends is the list of
  the items every peer has, in the order of the bytes, with the calculator's positions.
\<close>

section \<open>The setting\<close>

text \<open>The batches of blinded items every peer sends; \<open>mn_cal\<close> is the calculator among the peers.\<close>

record master_run =
  mn_peers :: "bytes list"
  mn_cal :: bytes
  mn_data :: "bytes \<Rightarrow> bytes list list"

definition good_run :: "master_run \<Rightarrow> bool" where
  "good_run R \<longleftrightarrow> distinct (mn_peers R) \<and> 2 \<le> length (mn_peers R) \<and> length (mn_peers R) \<le> 31 \<and>
     mn_cal R \<in> set (mn_peers R) \<and> length (concat (mn_data R (mn_cal R))) < 2 ^ 31 \<and>
     (\<forall>p \<in> set (mn_peers R). mn_data R p \<noteq> [] \<and> length (mn_data R p) < 2 ^ 16 \<and> distinct (concat (mn_data R p)))"

definition all_batches :: "master_run \<Rightarrow> (bytes \<times> nat) set" where
  "all_batches R = {(p, j). p \<in> set (mn_peers R) \<and> j < length (mn_data R p)}"

definition batch_offset :: "bytes list list \<Rightarrow> nat \<Rightarrow> nat" where
  "batch_offset batches j = length (concat (take j batches))"

definition batch_count :: "bytes list list \<Rightarrow> nat \<Rightarrow> u32" where
  "batch_count batches j = (if j + 1 = length batches then of_nat (length batches) else 0)"

definition cal_indexes :: "master_run \<Rightarrow> nat \<Rightarrow> int list" where
  "cal_indexes R j = (let off = batch_offset (mn_data R (mn_cal R)) j
                      in map int [off..<off + length (mn_data R (mn_cal R) ! j)])"

definition receive_batch :: "master_run \<Rightarrow> bytes \<times> nat \<Rightarrow> MasterCache \<Rightarrow> MasterCache res" where
  "receive_batch R e c =
     (let (p, j) = e; batches = mn_data R p in
      if p = mn_cal R then addCalculatorCipher p (batches ! j) (cal_indexes R j) (seqof j) (batch_count batches j) c
      else Inr (addPartnerCipher p (batches ! j) (seqof j) (batch_count batches j) c))"

definition position :: "'a list \<Rightarrow> 'a \<Rightarrow> nat" where
  "position xs x = length (takeWhile (\<lambda>y. y \<noteq> x) xs)"

section \<open>One batch\<close>

definition put_ref ::
  "bool \<Rightarrow> nat \<Rightarrow> bytes \<times> int \<Rightarrow> (bytes, MasterCipherRef) smap \<Rightarrow> (bytes, MasterCipherRef) smap" where
  "put_ref merged i kx refs =
     (let (k, x) = kx in
      case map_of refs k of
        None \<Rightarrow> if merged then refs
                else smap_put k (updateDataIndex x \<lparr>mr_refInfo = 0 OR peer_bit i, mr_refCount = 0, mr_dataIndex = - 1\<rparr>) refs
      | Some r \<Rightarrow> smap_put k (updateDataIndex x (if merged then r\<lparr>mr_refCount := mr_refCount r + 1\<rparr>
                                               else r\<lparr>mr_refInfo := mr_refInfo r OR peer_bit i\<rparr>)) refs)"

lemma updateMasterDataRef_put:
  "updateMasterDataRef i k x c = c\<lparr>mc_masterDataRef := put_ref (mc_peerMerged c) i (k, x) (mc_masterDataRef c)\<rparr>"
  by (simp add: updateMasterDataRef_def put_ref_def Let_def split: option.splits)

lemma fold_put_ref:
  "fold (\<lambda>(k, x). updateMasterDataRef i k x) kxs c =
     c\<lparr>mc_masterDataRef := fold (put_ref (mc_peerMerged c) i) kxs (mc_masterDataRef c)\<rparr>"
  by (induction kxs arbitrary: c) (simp_all add: split_beta updateMasterDataRef_put)

lemma add_indexed_fold:
  "length ds \<le> length xs \<Longrightarrow>
   add_indexed i ds xs c = Inr (fold (\<lambda>(k, x). updateMasterDataRef i k x) (zip ds (map i32 xs)) c)"
  by (induction i ds xs c rule: add_indexed.induct) simp_all

lemma fold_no_index:
  "fold (\<lambda>d. updateMasterDataRef i d (- 1)) ds c =
   fold (\<lambda>(k, x). updateMasterDataRef i k x) (map (\<lambda>d. (d, - 1)) ds) c"
  by (induction ds arbitrary: c) simp_all

text \<open>The items of a batch with their indexes, and the effect of the batch on the table of items.\<close>

definition items :: "master_run \<Rightarrow> bytes \<Rightarrow> nat \<Rightarrow> (bytes \<times> int) list" where
  "items R p j = (if p = mn_cal R then zip (mn_data R p ! j) (map i32 (cal_indexes R j))
                  else map (\<lambda>d. (d, - 1)) (mn_data R p ! j))"

lemma items_keys: "map fst (items R p j) = mn_data R p ! j"
  by (simp add: items_def cal_indexes_def Let_def comp_def)

text \<open>The cache after a batch of peer \<open>p\<close>, number \<open>i\<close>, before the check whether the peer is complete.\<close>

definition booked :: "master_run \<Rightarrow> bytes \<Rightarrow> nat \<Rightarrow> nat \<Rightarrow> MasterCache \<Rightarrow> MasterCache" where
  "booked R p j i c =
     (let n = batch_count (mn_data R p) j;
          refs = fold (put_ref (mc_peerMerged c) i) (items R p j) (mc_masterDataRef c)
      in if p = mn_cal R
         then c\<lparr>mc_calculatorCipherSeqs := insert (seqof j) (mc_calculatorCipherSeqs c),
                mc_calculatorDataBatchCount := (if n \<noteq> 0 then n else mc_calculatorDataBatchCount c),
                mc_masterDataRef := refs\<rparr>
         else c\<lparr>mc_partnerCipherSeqs := smap_put p (insert (seqof j) (seqs_of p c)) (mc_partnerCipherSeqs c),
                mc_parternerDataCount := (if n > 0 \<and> map_of (mc_parternerDataCount c) p = None
                                          then smap_put p n (mc_parternerDataCount c) else mc_parternerDataCount c),
                mc_masterDataRef := refs\<rparr>)"

definition expected :: "master_run \<Rightarrow> bytes \<Rightarrow> MasterCache \<Rightarrow> u32" where
  "expected R p c = (if p = mn_cal R then mc_calculatorDataBatchCount c
                     else case map_of (mc_parternerDataCount c) p of Some n \<Rightarrow> n | None \<Rightarrow> 0)"

definition seen_seqs :: "master_run \<Rightarrow> bytes \<Rightarrow> MasterCache \<Rightarrow> u32 set" where
  "seen_seqs R p c = (if p = mn_cal R then mc_calculatorCipherSeqs c else seqs_of p c)"

lemma seqs_of_put: "seqs_of p (c\<lparr>mc_partnerCipherSeqs := smap_put p q m, mc_parternerDataCount := n, mc_masterDataRef := r\<rparr>) = q"
  by (simp add: seqs_of_def map_of_smap_put)

lemma receive_booked:
  fixes R :: master_run and j :: nat
  assumes "getPeerIndex p c = Some i" and "\<forall>n. map_of (mc_parternerDataCount c) p = Some n \<longrightarrow> n > 0"
  defines "c1 \<equiv> booked R p j i c"
  shows "receive_batch R (p, j) c =
    Inr (if expected R p c1 > 0 \<and> card (seen_seqs R p c1) = unat (expected R p c1)
         then mergeMasterCipher i (c1\<lparr>mc_finishedPartners := insert p (mc_finishedPartners c1)\<rparr>) else c1)"
proof (cases "p = mn_cal R")
  case True
  have l: "length (mn_data R p ! j) \<le> length (cal_indexes R j)" by (simp add: cal_indexes_def Let_def True)
  show ?thesis
    using assms(1) True unfolding c1_def
    by (auto simp: receive_batch_def addCalculatorCipher_def add_indexed_fold [OF l [unfolded True]] fold_put_ref items_def
        booked_def expected_def seen_seqs_def Let_def)
next
  case False
  then show ?thesis
    using assms(1,2) unfolding c1_def
    by (cases c) (auto simp: receive_batch_def addPartnerCipher_def fold_no_index fold_put_ref items_def booked_def expected_def
        seen_seqs_def Let_def seqs_of_put seqs_of_def map_of_smap_put split: option.splits)
qed

section \<open>What has arrived\<close>

definition arrived_items :: "master_run \<Rightarrow> (bytes \<times> nat) set \<Rightarrow> (nat \<times> bytes) set" where
  "arrived_items R E = {(i, k). i < length (mn_peers R) \<and>
     (\<exists>j. (mn_peers R ! i, j) \<in> E \<and> k \<in> set (mn_data R (mn_peers R ! i) ! j))}"

definition complete :: "master_run \<Rightarrow> (bytes \<times> nat) set \<Rightarrow> bytes \<Rightarrow> bool" where
  "complete R E p \<longleftrightarrow> (\<forall>j < length (mn_data R p). (p, j) \<in> E)"

definition complete_peers :: "master_run \<Rightarrow> (bytes \<times> nat) set \<Rightarrow> nat set" where
  "complete_peers R E = {i. i < length (mn_peers R) \<and> complete R E (mn_peers R ! i)}"

definition cal_items :: "master_run \<Rightarrow> (bytes \<times> nat) set \<Rightarrow> bytes set" where
  "cal_items R E = (\<Union>j \<in> {j. (mn_cal R, j) \<in> E}. set (mn_data R (mn_cal R) ! j))"

definition cal_position :: "master_run \<Rightarrow> bytes \<Rightarrow> int" where
  "cal_position R k = int (position (concat (mn_data R (mn_cal R))) k)"

abbreviation index_inv :: "master_run \<Rightarrow> bool \<Rightarrow> bytes set \<Rightarrow> (bytes, MasterCipherRef) smap \<Rightarrow> bool" where
  "index_inv R \<equiv> index_table mr_dataIndex (cal_position R)"

definition refs_inv :: "master_run \<Rightarrow> (bytes \<times> nat) set \<Rightarrow> MasterCache \<Rightarrow> bool" where
  "refs_inv R E c \<longleftrightarrow> mc_inv (arrived_items R E) c \<and>
     exact mc_count mc_peerMerged (arrived_items R E) (complete_peers R E) c \<and>
     (mc_peerMerged c \<longleftrightarrow> complete_peers R E \<noteq> {}) \<and> index_inv R (mc_peerMerged c) (cal_items R E) (mc_masterDataRef c)"

lemma refs_inv_cong:
  "mc_masterDataRef c' = mc_masterDataRef c \<Longrightarrow> mc_peerMerged c' = mc_peerMerged c \<Longrightarrow> refs_inv R E c' = refs_inv R E c"
  by (simp only: refs_inv_def mc_inv_def exact_def mc_count_def)

subsection \<open>Positions\<close>

lemma position_nth:
  assumes "distinct xs" and "q < length xs"
  shows "position xs (xs ! q) = q"
proof -
  have "takeWhile (\<lambda>y. y \<noteq> xs ! q) xs = take q xs"
    using assms by (intro takeWhile_eq_take_P_nth) (auto simp: nth_eq_iff_index_eq)
  then show ?thesis using assms(2) by (simp add: position_def)
qed

lemma concat_nth_offset:
  "j < length bs \<Longrightarrow> q < length (bs ! j) \<Longrightarrow>
   batch_offset bs j + q < length (concat bs) \<and> concat bs ! (batch_offset bs j + q) = bs ! j ! q"
proof (induction bs arbitrary: j)
  case (Cons b bs)
  then show ?case by (cases j) (simp_all add: batch_offset_def nth_append add.assoc)
qed simp

lemma position_batch:
  "distinct (concat bs) \<Longrightarrow> j < length bs \<Longrightarrow> q < length (bs ! j) \<Longrightarrow>
   position (concat bs) (bs ! j ! q) = batch_offset bs j + q"
  using position_nth [of "concat bs" "batch_offset bs j + q"] concat_nth_offset [of j bs q] by simp

lemma distinct_batches_disjoint:
  fixes bs :: "bytes list list"
  assumes "distinct (concat bs)" and "j < length bs" and "j' < length bs" and "k \<in> set (bs ! j)" and "k \<in> set (bs ! j')"
  shows "j = j'"
proof (rule ccontr)
  assume ne: "j \<noteq> j'"
  obtain q q' where q: "q < length (bs ! j)" "bs ! j ! q = k" "q' < length (bs ! j')" "bs ! j' ! q' = k"
    using assms(4,5) by (auto simp: in_set_conv_nth)
  have off: "batch_offset bs (Suc m) = batch_offset bs m + length (bs ! m)" if "m < length bs" for m
    using that by (simp add: batch_offset_def take_Suc_conv_app_nth)
  have mono: "batch_offset bs m \<le> batch_offset bs (m + d)" for m d by (simp add: batch_offset_def take_add)
  have "batch_offset bs j + q = batch_offset bs j' + q'"
    using position_batch [OF assms(1,2) q(1)] position_batch [OF assms(1,3) q(3)] q(2,4) by simp
  then show False
    using off [OF assms(2)] off [OF assms(3)] ne q(1,3) mono [of "Suc j" "j' - Suc j"] mono [of "Suc j'" "j - Suc j'"]
    by (cases "j < j'") simp_all
qed

lemma items_index:
  assumes "good_run R" and "j < length (mn_data R p)" and "p \<in> set (mn_peers R)" and "(k, x) \<in> set (items R p j)"
  shows "x = (if p = mn_cal R then int (position (concat (mn_data R p)) k) else - 1)"
proof (cases "p = mn_cal R")
  case True
  let ?bs = "mn_data R p"
  from assms(4) True obtain q where q: "q < length (?bs ! j)" "k = ?bs ! j ! q"
    "x = i32 (int (batch_offset ?bs j + q))"
    by (auto simp: items_def cal_indexes_def Let_def set_zip)
  have d: "distinct (concat ?bs)" "length (concat ?bs) < 2 ^ 31" using assms(1,3) True by (auto simp: good_run_def)
  have "batch_offset ?bs j + q < 2 ^ 31" using concat_nth_offset [OF assms(2) q(1)] d(2) by linarith
  then have "x = int (batch_offset ?bs j + q)" unfolding q(3) by (intro i32_id) simp_all
  with position_batch [OF d(1) assms(2) q(1)] True q(2) show ?thesis by simp
qed (use assms(4) in \<open>auto simp: items_def\<close>)

interpretation master_index: indexed_table "\<lambda>merged. put_ref merged i" mr_dataIndex for i
  by unfold_locales (auto simp: put_ref_def map_of_smap_put updateDataIndex_def split: option.splits)

subsection \<open>A batch and the table of items\<close>

lemma arrived_insert:
  assumes "good_run R" and "i < length (mn_peers R)"
  shows "arrived_items R (insert (mn_peers R ! i, j) E) = arrived_items R E \<union> {i} \<times> set (mn_data R (mn_peers R ! i) ! j)"
  using assms by (auto simp: arrived_items_def good_run_def nth_eq_iff_index_eq)

lemma complete_insert:
  assumes "good_run R" and "i < length (mn_peers R)"
  shows "complete_peers R (insert (mn_peers R ! i, j) E) =
    (if complete R (insert (mn_peers R ! i, j) E) (mn_peers R ! i) then insert i (complete_peers R E) else complete_peers R E)"
proof -
  have "complete R (insert (mn_peers R ! i, j) E) (mn_peers R ! i') = complete R E (mn_peers R ! i')"
    if "i' < length (mn_peers R)" "i' \<noteq> i" for i'
    using that assms by (auto simp: complete_def good_run_def nth_eq_iff_index_eq)
  moreover have "complete R E p \<Longrightarrow> complete R (insert e E) p" for e p by (auto simp: complete_def)
  ultimately show ?thesis using assms(2) by (auto simp: complete_peers_def)
qed

lemma cal_items_insert:
  "cal_items R (insert (p, j) E) = (if p = mn_cal R then cal_items R E \<union> set (mn_data R p ! j) else cal_items R E)"
  by (auto simp: cal_items_def)

lemma fresh_items:
  assumes "good_run R" and "i < length (mn_peers R)" and "E \<subseteq> all_batches R" and "(mn_peers R ! i, j) \<in> all_batches R - E"
    and "k \<in> set (mn_data R (mn_peers R ! i) ! j)"
  shows "(i, k) \<notin> arrived_items R E"
proof
  assume "(i, k) \<in> arrived_items R E"
  then obtain j' where j': "(mn_peers R ! i, j') \<in> E" "k \<in> set (mn_data R (mn_peers R ! i) ! j')"
    by (auto simp: arrived_items_def)
  have "distinct (concat (mn_data R (mn_peers R ! i)))" using assms(1,2) by (auto simp: good_run_def)
  from distinct_batches_disjoint [OF this _ _ assms(5) j'(2)] assms(3,4) j'(1) show False by (auto simp: all_batches_def)
qed

lemma refs_batch:
  assumes "good_run R" and "i < length (mn_peers R)" and "E \<subseteq> all_batches R" and "(mn_peers R ! i, j) \<in> all_batches R - E"
    and inv: "refs_inv R E c" and count: "mc_peerCount c \<noteq> 1"
  defines "p \<equiv> mn_peers R ! i"
  defines "E' \<equiv> insert (p, j) E"
  defines "c1 \<equiv> c\<lparr>mc_masterDataRef := fold (put_ref (mc_peerMerged c) i) (items R p j) (mc_masterDataRef c)\<rparr>"
  shows "refs_inv R E' (if complete R E' p then mergeMasterCipher i c1 else c1)"
proof -
  let ?D = "arrived_items R E" and ?C = "complete_peers R E" and ?ks = "fst ` set (items R p j)"
  have i: "i < 31" using assms(1,2) by (simp add: good_run_def)
  have p: "p \<in> set (mn_peers R)" "j < length (mn_data R p)" "(p, j) \<notin> E" using assms(2,4) by (auto simp: p_def all_batches_def)
  have ks: "?ks = set (mn_data R p ! j)" by (metis items_keys image_set)
  have c1: "c1 = fold (\<lambda>(k, x). updateMasterDataRef i k x) (items R p j) c" by (simp add: c1_def fold_put_ref)
  have "i \<notin> ?C" using p by (auto simp: complete_peers_def complete_def p_def)
  moreover have "distinct (map fst (items R p j))"
    unfolding items_keys using p assms(1) by (auto simp: good_run_def distinct_concat_iff)
  moreover have "\<forall>k \<in> ?ks. (i, k) \<notin> ?D" using fresh_items [OF assms(1-4)] ks unfolding p_def by blast
  ultimately have put: "exact mc_count mc_peerMerged (?D \<union> {i} \<times> ?ks) ?C c1" "mc_inv (?D \<union> {i} \<times> ?ks) c1"
    "mc_peerMerged c1 = mc_peerMerged c"
    using master_tally.exact_puts [of ?D ?C c i "items R p j"] inv i unfolding c1 refs_inv_def by blast+
  have D: "?D \<union> {i} \<times> ?ks = arrived_items R E'" using arrived_insert [OF assms(1,2), of j E] unfolding E'_def ks by (simp flip: p_def)
  have "\<forall>(k, x) \<in> set (items R p j). x = (if p = mn_cal R then cal_position R k else - 1)"
    using items_index [OF assms(1) p(2,1)] by (cases "p = mn_cal R") (auto simp: cal_position_def)
  moreover have "index_inv R (mc_peerMerged c) (cal_items R E) (mc_masterDataRef c)" using inv unfolding refs_inv_def by blast
  ultimately have "index_inv R (mc_peerMerged c) (if p = mn_cal R then cal_items R E \<union> ?ks else cal_items R E)
      (fold (put_ref (mc_peerMerged c) i) (items R p j) (mc_masterDataRef c))"
    by (intro master_index.index_puts) (simp_all add: cal_position_def)
  moreover have "mc_masterDataRef c1 = fold (put_ref (mc_peerMerged c) i) (items R p j) (mc_masterDataRef c)" by (simp add: c1_def)
  ultimately have "index_inv R (mc_peerMerged c) (if p = mn_cal R then cal_items R E \<union> ?ks else cal_items R E) (mc_masterDataRef c1)"
    by (simp only:)
  then have index: "index_inv R (mc_peerMerged c) (cal_items R E') (mc_masterDataRef c1)"
    unfolding E'_def cal_items_insert ks .
  have C: "complete_peers R E' = (if complete R E' p then insert i ?C else ?C)"
    unfolding E'_def p_def by (rule complete_insert [OF assms(1,2)])
  show ?thesis
  proof (cases "complete R E' p")
    case False
    then show ?thesis using put index inv D C by (simp add: refs_inv_def)
  next
    case True
    have "mc_peerCount c1 \<noteq> 1" using count by (simp add: c1_def)
    then have m: "mc_peerMerged (mergeMasterCipher i c1)" by simp
    have "index_inv R True (cal_items R E') (mc_masterDataRef (mergeMasterCipher i c1))"
    proof (cases "mc_peerMerged c1")
      case merged: True
      then show ?thesis using index put(3) by (simp add: mergeMasterCipher_def index_table_def)
    next
      case False
      have ok: "smap_ok (mc_masterDataRef c1)" using put(2) by (simp add: mc_inv_def)
      show ?thesis
        using index unfolding index_table_def merge_refs [OF ok False \<open>mc_peerCount c1 \<noteq> 1\<close> i]
        by (auto simp: resetRefCount_def split: option.splits if_splits)
    qed
    with True put m D C master_tally.exact_close [OF put(1,2) i] master_tally.inv_close [OF put(2) i]
    show ?thesis by (simp add: refs_inv_def)
  qed
qed

section \<open>The whole cache\<close>

definition books_inv :: "master_run \<Rightarrow> (bytes \<times> nat) set \<Rightarrow> MasterCache \<Rightarrow> bool" where
  "books_inv R E c \<longleftrightarrow>
     mc_peers c = mn_peers R \<and> mc_peerCount c = of_nat (length (mn_peers R)) \<and> mc_cacheState c = Evaluating \<and>
     mc_intersecCipher c = [] \<and> mc_intersecCipherIndex c = [] \<and>
     mc_finishedPartners c = {p \<in> set (mn_peers R). complete R E p} \<and>
     (\<forall>p \<in> set (mn_peers R).
        seen_seqs R p c = seqof ` {j. (p, j) \<in> E} \<and>
        expected R p c = (if (p, length (mn_data R p) - 1) \<in> E then of_nat (length (mn_data R p)) else 0)) \<and>
     (\<forall>p n. map_of (mc_parternerDataCount c) p = Some n \<longrightarrow> n > 0)"

lemma index_of_nth: "distinct ps \<Longrightarrow> i < length ps \<Longrightarrow> index_of ps (ps ! i) = Some i"
proof (induction ps arbitrary: i)
  case (Cons p ps)
  then show ?case by (cases i) auto
qed simp

lemma batch_count_pos: "0 < length bs \<Longrightarrow> length bs < 2 ^ 16 \<Longrightarrow> batch_count bs j \<noteq> 0 \<longleftrightarrow> j + 1 = length bs"
proof -
  assume "0 < length bs" "length bs < 2 ^ 16"
  then have "unat (of_nat (length bs) :: u32) \<noteq> 0" by (simp add: unsigned_of_nat take_bit_nat_eq_self)
  then have "(of_nat (length bs) :: u32) \<noteq> 0" by (metis unat_0)
  then show ?thesis by (simp add: batch_count_def)
qed

lemma booked_simps [simp]:
  "mc_peers (booked R p j i c) = mc_peers c" "mc_peerCount (booked R p j i c) = mc_peerCount c"
  "mc_cacheState (booked R p j i c) = mc_cacheState c" "mc_intersecCipher (booked R p j i c) = mc_intersecCipher c"
  "mc_intersecCipherIndex (booked R p j i c) = mc_intersecCipherIndex c"
  "mc_finishedPartners (booked R p j i c) = mc_finishedPartners c" "mc_peerMerged (booked R p j i c) = mc_peerMerged c"
  "mc_masterDataRef (booked R p j i c) = fold (put_ref (mc_peerMerged c) i) (items R p j) (mc_masterDataRef c)"
  by (simp_all add: booked_def Let_def)

lemma merge_simps [simp]:
  "mc_peers (mergeMasterCipher i c) = mc_peers c" "mc_peerCount (mergeMasterCipher i c) = mc_peerCount c"
  "mc_cacheState (mergeMasterCipher i c) = mc_cacheState c" "mc_intersecCipher (mergeMasterCipher i c) = mc_intersecCipher c"
  "mc_intersecCipherIndex (mergeMasterCipher i c) = mc_intersecCipherIndex c"
  "mc_finishedPartners (mergeMasterCipher i c) = mc_finishedPartners c"
  "mc_parternerDataCount (mergeMasterCipher i c) = mc_parternerDataCount c"
  "seen_seqs R p (mergeMasterCipher i c) = seen_seqs R p c" "expected R p (mergeMasterCipher i c) = expected R p c"
  by (simp_all add: mergeMasterCipher_def seen_seqs_def expected_def seqs_of_def)

lemma finished_simps [simp]:
  "seen_seqs R q (c\<lparr>mc_finishedPartners := x\<rparr>) = seen_seqs R q c" "expected R q (c\<lparr>mc_finishedPartners := x\<rparr>) = expected R q c"
  by (simp_all add: seen_seqs_def expected_def seqs_of_def)

lemma seen_booked: "seen_seqs R q (booked R p j i c) = (if q = p then insert (seqof j) (seen_seqs R p c) else seen_seqs R q c)"
  by (auto simp: seen_seqs_def booked_def seqs_of_def Let_def map_of_smap_put)

lemma expected_booked:
  assumes "batch_count (mn_data R p) j \<noteq> 0 \<Longrightarrow> p \<noteq> mn_cal R \<Longrightarrow> map_of (mc_parternerDataCount c) p = None"
  shows "expected R q (booked R p j i c) =
    (if q = p \<and> batch_count (mn_data R p) j \<noteq> 0 then batch_count (mn_data R p) j else expected R q c)"
  using assms by (auto simp: expected_def booked_def Let_def map_of_smap_put word_gt_0)

lemma counts_booked:
  assumes "\<forall>q n. map_of (mc_parternerDataCount c) q = Some n \<longrightarrow> n > 0"
  shows "\<forall>q n. map_of (mc_parternerDataCount (booked R p j i c)) q = Some n \<longrightarrow> n > 0"
  using assms by (auto simp: booked_def Let_def map_of_smap_put)

lemma seqs_complete:
  assumes "good_run R" and "p \<in> set (mn_peers R)" and "E \<subseteq> all_batches R"
  defines "n \<equiv> (if (p, length (mn_data R p) - 1) \<in> E then of_nat (length (mn_data R p)) else 0 :: u32)"
  shows "n > 0 \<and> card (seqof ` {j. (p, j) \<in> E}) = unat n \<longleftrightarrow> complete R E p"
proof -
  let ?l = "length (mn_data R p)" and ?J = "{j. (p, j) \<in> E}"
  have l: "?l < 2 ^ 16" "0 < ?l" using assms(1,2) by (auto simp: good_run_def)
  have u: "unat (of_nat ?l :: u32) = ?l" using l(1) by (simp add: unsigned_of_nat take_bit_nat_eq_self)
  have J: "?J \<subseteq> {..<?l}" using assms(3) by (auto simp: all_batches_def)
  then have "card (seqof ` ?J) = card ?J" using l(1) by (intro card_image inj_on_seqof) auto
  moreover have "card ?J = ?l \<longleftrightarrow> ?J = {..<?l}" using card_subset_eq [OF finite_lessThan J] card_lessThan by metis
  moreover have "?J = {..<?l} \<longleftrightarrow> complete R E p" using J unfolding complete_def by blast
  ultimately have c: "card (seqof ` ?J) = ?l \<longleftrightarrow> complete R E p" by (simp only:)
  have pos: "(of_nat ?l :: u32) > 0" using l(2) unat_gt_0 [of "of_nat ?l :: u32"] unfolding u word_gt_0 by simp
  show ?thesis
  proof (cases "(p, ?l - 1) \<in> E")
    case True
    then have "n = of_nat ?l" by (simp add: n_def)
    then show ?thesis using c pos by (simp only: u simp_thms)
  next
    case False
    moreover have "?l - 1 < ?l" using l(2) by simp
    ultimately have "n = 0" "\<not> complete R E p" unfolding n_def complete_def by auto
    then show ?thesis by simp
  qed
qed

definition cache_ok :: "master_run \<Rightarrow> (bytes \<times> nat) set \<Rightarrow> MasterCache \<Rightarrow> bool" where
  "cache_ok R E c \<longleftrightarrow> books_inv R E c \<and> refs_inv R E c"

lemma books_booked:
  fixes i :: nat
  assumes "good_run R" and "E \<subseteq> all_batches R" and "(p, j) \<in> all_batches R - E" and "books_inv R E c"
  defines "E' \<equiv> insert (p, j) E" and "c1 \<equiv> booked R p j i c"
  shows "\<forall>q \<in> set (mn_peers R). seen_seqs R q c1 = seqof ` {j. (q, j) \<in> E'} \<and>
    expected R q c1 = (if (q, length (mn_data R q) - 1) \<in> E' then of_nat (length (mn_data R q)) else 0)"
proof
  fix q assume q: "q \<in> set (mn_peers R)"
  have p: "p \<in> set (mn_peers R)" "j < length (mn_data R p)" "(p, j) \<notin> E" using assms(3) by (auto simp: all_batches_def)
  have old: "seen_seqs R q' c = seqof ` {j. (q', j) \<in> E}"
    "expected R q' c = (if (q', length (mn_data R q') - 1) \<in> E then of_nat (length (mn_data R q')) else 0)"
    if "q' \<in> set (mn_peers R)" for q'
    using assms(4) that by (auto simp: books_inv_def)
  have l: "0 < length (mn_data R p)" "length (mn_data R p) < 2 ^ 16" using assms(1) p(1) by (auto simp: good_run_def)
  note n = batch_count_pos [OF l, of j]
  have none: "map_of (mc_parternerDataCount c) p = None" if "batch_count (mn_data R p) j \<noteq> 0" "p \<noteq> mn_cal R"
  proof (rule ccontr)
    assume "map_of (mc_parternerDataCount c) p \<noteq> None"
    then have "expected R p c > 0" using assms(4) that(2) by (auto simp: expected_def books_inv_def)
    moreover have "length (mn_data R p) - 1 = j" using n that(1) by simp
    then have "(p, length (mn_data R p) - 1) \<notin> E" using p(3) by simp
    ultimately show False using old(2) [OF p(1)] by simp
  qed
  have e: "expected R q (booked R p j i c) =
      (if q = p \<and> batch_count (mn_data R p) j \<noteq> 0 then batch_count (mn_data R p) j else expected R q c)"
    by (rule expected_booked) (rule none)
  have "seen_seqs R q c1 = seqof ` {j. (q, j) \<in> E'}"
    unfolding c1_def E'_def seen_booked using old(1) [OF q] by auto
  moreover have "expected R q c1 = (if (q, length (mn_data R q) - 1) \<in> E' then of_nat (length (mn_data R q)) else 0)"
  proof (cases "q = p \<and> j + 1 = length (mn_data R p)")
    case True
    then show ?thesis unfolding c1_def E'_def using e n by (auto simp: batch_count_def)
  next
    case False
    then have "(q, length (mn_data R q) - 1) = (p, j) \<Longrightarrow> False" using l by auto
    then show ?thesis unfolding c1_def E'_def using e n False old(2) [OF q] by auto
  qed
  ultimately show "seen_seqs R q c1 = seqof ` {j. (q, j) \<in> E'} \<and>
    expected R q c1 = (if (q, length (mn_data R q) - 1) \<in> E' then of_nat (length (mn_data R q)) else 0)" by blast
qed

lemma receive_batch_ok:
  assumes "good_run R" and "E \<subseteq> all_batches R" and "(p, j) \<in> all_batches R - E" and "cache_ok R E c"
  shows "\<exists>c'. receive_batch R (p, j) c = Inr c' \<and> cache_ok R (insert (p, j) E) c'"
proof -
  let ?E = "insert (p, j) E"
  have p: "p \<in> set (mn_peers R)" "?E \<subseteq> all_batches R" using assms(2,3) by (auto simp: all_batches_def)
  then obtain i where i: "i < length (mn_peers R)" "p = mn_peers R ! i" by (auto simp: in_set_conv_nth)
  have b: "books_inv R E c" and r: "refs_inv R E c" using assms(4) by (simp_all add: cache_ok_def)
  let ?c1 = "booked R p j i c"
  let ?c2 = "?c1\<lparr>mc_finishedPartners := insert p (mc_finishedPartners ?c1)\<rparr>"
  let ?c' = "if complete R ?E p then mergeMasterCipher i ?c2 else ?c1"
  have "getPeerIndex p c = Some i"
    using b i assms(1) by (simp add: getPeerIndex_def books_inv_def good_run_def index_of_nth)
  moreover have "\<forall>n. map_of (mc_parternerDataCount c) p = Some n \<longrightarrow> n > 0" using b by (simp add: books_inv_def)
  ultimately have recv: "receive_batch R (p, j) c =
    Inr (if expected R p ?c1 > 0 \<and> card (seen_seqs R p ?c1) = unat (expected R p ?c1) then mergeMasterCipher i ?c2 else ?c1)"
    by (rule receive_booked)
  note books = books_booked [OF assms(1-3) b, of i]
  have "expected R p ?c1 > 0 \<and> card (seen_seqs R p ?c1) = unat (expected R p ?c1) \<longleftrightarrow> complete R ?E p"
    using seqs_complete [OF assms(1) p] books p(1) by simp
  then have c': "receive_batch R (p, j) c = Inr ?c'" using recv by presburger
  have n: "mc_peerCount c \<noteq> 1"
  proof -
    have "unat (of_nat (length (mn_peers R)) :: u16) = length (mn_peers R)"
      using assms(1) by (simp add: good_run_def unsigned_of_nat take_bit_nat_eq_self)
    then have "unat (mc_peerCount c) \<noteq> 1" using b assms(1) by (auto simp: books_inv_def good_run_def)
    then show ?thesis by auto
  qed
  have fin: "{q \<in> set (mn_peers R). complete R ?E q} =
      (if complete R ?E p then insert p (mc_finishedPartners c) else mc_finishedPartners c)"
  proof -
    have "complete R ?E q = complete R E q" if "q \<noteq> p" for q using that by (auto simp: complete_def)
    moreover have "\<not> complete R E p" using assms(3) by (auto simp: complete_def all_batches_def)
    moreover have "mc_finishedPartners c = {q \<in> set (mn_peers R). complete R E q}" using b by (simp add: books_inv_def)
    ultimately have "q \<in> set (mn_peers R) \<and> complete R ?E q \<longleftrightarrow>
        q \<in> (if complete R ?E p then insert p (mc_finishedPartners c) else mc_finishedPartners c)" for q
      using p(1) by (cases "q = p") simp_all
    then show ?thesis by blast
  qed
  have "books_inv R ?E ?c'"
    unfolding books_inv_def fin using b books counts_booked [of c R p j i] by (simp add: books_inv_def)
  moreover have "refs_inv R ?E ?c'"
  proof -
    let ?d = "c\<lparr>mc_masterDataRef := fold (put_ref (mc_peerMerged c) i) (items R p j) (mc_masterDataRef c)\<rparr>"
    have "refs_inv R ?E (if complete R ?E p then mergeMasterCipher i ?d else ?d)"
      using refs_batch [OF assms(1) i(1) assms(2) _ r n, of j] assms(3) unfolding i(2) by blast
    moreover have "mc_masterDataRef ?c' = mc_masterDataRef (if complete R ?E p then mergeMasterCipher i ?d else ?d)"
      "mc_peerMerged ?c' = mc_peerMerged (if complete R ?E p then mergeMasterCipher i ?d else ?d)"
      by (simp_all add: mergeMasterCipher_def)
    ultimately show ?thesis using refs_inv_cong by blast
  qed
  ultimately show ?thesis using c' by (auto simp: cache_ok_def)
qed

section \<open>The intersection\<close>

text \<open>The reference: the items all peers have, as a sorted list, and their positions in the calculator's data.\<close>

definition common_items :: "master_run \<Rightarrow> bytes set" where
  "common_items R = (\<Inter>p \<in> set (mn_peers R). set (concat (mn_data R p)))"

definition reference_cipher :: "master_run \<Rightarrow> bytes list" where
  "reference_cipher R = sorted_list_of_set (common_items R)"

definition reference_index :: "master_run \<Rightarrow> nat list" where
  "reference_index R = map (position (concat (mn_data R (mn_cal R)))) (reference_cipher R)"

lemma in_concat_nth: "k \<in> set (concat bs) \<longleftrightarrow> (\<exists>j < length bs. k \<in> set (bs ! j))"
  unfolding set_concat UN_iff by (metis in_set_conv_nth)

lemma arrived_all:
  "i < length (mn_peers R) \<Longrightarrow> (i, k) \<in> arrived_items R (all_batches R) \<longleftrightarrow> k \<in> set (concat (mn_data R (mn_peers R ! i)))"
  unfolding in_concat_nth by (auto simp: arrived_items_def all_batches_def)

lemma common_arrived:
  "k \<in> common_items R \<longleftrightarrow> (\<forall>i \<in> {..<length (mn_peers R)}. (i, k) \<in> arrived_items R (all_batches R))"
  unfolding common_items_def INT_iff all_set_conv_all_nth using arrived_all [of _ R k] by (auto simp del: set_concat)

lemma refs_unat: "n < 2 ^ 16 \<Longrightarrow> (x :: u16) = of_nat n \<longleftrightarrow> unat x = n"
proof -
  assume n: "n < 2 ^ 16"
  have "unat (of_nat n :: u16) = n" using n by (simp add: unsigned_of_nat take_bit_nat_eq_self)
  then show ?thesis by (metis word_unat_eq_iff)
qed

lemma intersection_refs:
  assumes "good_run R" and "cache_ok R (all_batches R) c"
  shows "filter (\<lambda>(_, r). in_every_set c r) (mc_masterDataRef c) =
    map (\<lambda>k. (k, the (map_of (mc_masterDataRef c) k))) (reference_cipher R) \<and>
    (\<forall>k \<in> set (reference_cipher R). \<exists>r. map_of (mc_masterDataRef c) k = Some r \<and>
       mr_dataIndex r = int (position (concat (mn_data R (mn_cal R))) k))"
proof -
  let ?n = "length (mn_peers R)" and ?refs = "mc_masterDataRef c" and ?E = "all_batches R"
  let ?pos = "\<lambda>k. int (position (concat (mn_data R (mn_cal R))) k)"
  have r: "refs_inv R ?E c" and b: "books_inv R ?E c" using assms(2) by (simp_all add: cache_ok_def)
  have n: "2 \<le> ?n" "?n \<le> 31" "mn_cal R \<in> set (mn_peers R)" using assms(1) by (simp_all add: good_run_def)
  have all: "complete R ?E p" if "p \<in> set (mn_peers R)" for p using that by (simp add: complete_def all_batches_def)
  then have C: "complete_peers R ?E = {..<?n}" by (auto simp: complete_peers_def)
  have ne: "{..<?n} \<noteq> {}" using n(1) by (auto simp: lessThan_empty_iff)
  then have merged: "mc_peerMerged c" using r by (simp add: refs_inv_def C)
  have exact: "exact mc_count mc_peerMerged (arrived_items R ?E) {..<?n} c" using r by (simp add: refs_inv_def C)
  have ok: "smap_ok ?refs" using r by (simp add: refs_inv_def mc_inv_def)
  have D: "arrived_items R ?E \<subseteq> {..<?n} \<times> UNIV" by (auto simp: arrived_items_def)
  have count: "mc_count c k = Some ?n \<longleftrightarrow> k \<in> common_items R" for k
    using master_tally.in_all_sources [OF exact finite_lessThan ne order_refl D, of k] unfolding common_arrived by simp
  have hit: "in_every_set c r \<longleftrightarrow> k \<in> common_items R" "k \<in> common_items R \<Longrightarrow> mr_dataIndex r = ?pos k"
    if m: "map_of ?refs k = Some r" for k r
  proof -
    have k: "k \<in> cal_items R ?E" if "k \<in> common_items R"
      using that n(3) unfolding common_items_def cal_items_def all_batches_def by (auto simp: in_concat_nth simp del: set_concat)
    have x: "mr_dataIndex r = (if k \<in> cal_items R ?E then ?pos k else - 1)"
      using r m by (auto simp: refs_inv_def index_table_def cal_position_def)
    have "mr_refCount r = mc_peerCount c \<longleftrightarrow> k \<in> common_items R"
      using count [of k] m merged b n(2) refs_unat [of ?n "mr_refCount r"] by (simp add: mc_count_def books_inv_def)
    with x k show "in_every_set c r \<longleftrightarrow> k \<in> common_items R" "k \<in> common_items R \<Longrightarrow> mr_dataIndex r = ?pos k"
      by (auto simp: in_every_set_def)
  qed
  have dom: "k \<in> dom (map_of ?refs)" if "k \<in> common_items R" for k
    using count [of k] that by (auto simp: mc_count_def)
  let ?hits = "filter (\<lambda>(_, r). in_every_set c r) ?refs"
  have d: "distinct (map fst ?refs)" using ok by (rule smap_ok_distinct)
  have keys: "fst ` set ?hits = common_items R"
  proof (rule set_eqI)
    fix k
    have "k \<in> fst ` set ?hits \<longleftrightarrow> (\<exists>r. map_of ?refs k = Some r \<and> in_every_set c r)"
      using d by (force simp: image_iff)
    also have "\<dots> \<longleftrightarrow> k \<in> common_items R" using hit(1) dom by blast
    finally show "k \<in> fst ` set ?hits \<longleftrightarrow> k \<in> common_items R" .
  qed
  have "sorted_wrt (<) (map fst ?hits)" using smap_ok_filter [OF ok] by (simp add: smap_ok_def)
  then have cipher: "map fst ?hits = reference_cipher R"
    unfolding reference_cipher_def keys [symmetric]
    by (metis (no_types, lifting) list.set_map sorted_list_of_set.idem_if_sorted_distinct strict_sorted_iff)
  have "map (\<lambda>kr. (fst kr, the (map_of ?refs (fst kr)))) ?hits = ?hits"
    by (rule map_idI) (use d in auto)
  then have "?hits = map (\<lambda>k. (k, the (map_of ?refs k))) (map fst ?hits)" by (simp add: comp_def)
  moreover have "\<forall>k \<in> set (reference_cipher R). \<exists>r. map_of ?refs k = Some r \<and> mr_dataIndex r = ?pos k"
    using dom hit(2) keys cipher by (metis domD list.set_map)
  ultimately show ?thesis unfolding cipher by blast
qed

section \<open>The run\<close>

text \<open>A message that carries batch \<open>e\<close> of task \<open>task\<close> to the master.\<close>

definition carries :: "master_run \<Rightarrow> bytes \<Rightarrow> bytes \<times> nat \<Rightarrow> PSIMessage \<Rightarrow> bool" where
  "carries R task e m \<longleftrightarrow>
     (let (p, j) = e in
      pm_taskID m = task \<and> pm_from m = p \<and> pm_seq m = seqof j \<and> pm_data m = mn_data R p ! j \<and>
      pm_dataBatchCount m = batch_count (mn_data R p) j \<and>
      (if p = mn_cal R
       then pm_packetType m = SEND_ENCRYPTED_SET_TO_MASTER_FROM_CALCULATOR \<and> pm_dataIndex m = cal_indexes R j
       else pm_packetType m = SEND_ENCRYPTED_SET_TO_MASTER_FROM_PARTNER))"

lemma carries_receive:
  assumes "carries R task e m" and "mu_masters w task = Some M" and "receive_batch R e (ma_cache M) = Inr c"
  shows "handlerPSIReceiveMessage throws m w = master_continue task M c w"
proof -
  obtain p j where e: "e = (p, j)" by (cases e)
  show ?thesis
  proof (cases "p = mn_cal R")
    case True
    then have "pm_packetType m = SEND_ENCRYPTED_SET_TO_MASTER_FROM_CALCULATOR" "pm_taskID m = task"
      using assms(1) e by (simp_all add: carries_def)
    moreover have "master_onReceiveCalCipher m task M w = master_continue task M c w"
      using assms(1,3) e True by (simp add: master_onReceiveCalCipher_def carries_def receive_batch_def Let_def)
    ultimately show ?thesis using assms(2) by (simp add: handlerPSIReceiveMessage_def multi_packet_types Let_def)
  next
    case False
    then have "pm_packetType m = SEND_ENCRYPTED_SET_TO_MASTER_FROM_PARTNER" "pm_taskID m = task"
      using assms(1) e by (simp_all add: carries_def)
    moreover have "master_onReceiveCipherFromPartner m task M w = master_continue task M c w"
      using assms(1,3) e False by (simp add: master_onReceiveCipherFromPartner_def carries_def receive_batch_def Let_def)
    ultimately show ?thesis using assms(2) by (simp add: handlerPSIReceiveMessage_def multi_packet_types Let_def)
  qed
qed

lemma should_intersect:
  assumes "good_run R" and "E \<subseteq> all_batches R" and "books_inv R E c"
  shows "shouldIntersection c \<longleftrightarrow> E = all_batches R"
proof -
  have f: "mc_finishedPartners c = {p \<in> set (mn_peers R). complete R E p}" "mc_peers c = mn_peers R" "mc_cacheState c = Evaluating"
    using assms(3) by (simp_all add: books_inv_def)
  have d: "length (mn_peers R) = card (set (mn_peers R))" using assms(1) by (simp add: good_run_def distinct_card)
  have "(\<forall>p \<in> set (mn_peers R). complete R E p) \<longleftrightarrow> E = all_batches R"
    using assms(2) by (auto simp: complete_def all_batches_def)
  moreover have "(\<forall>p \<in> set (mn_peers R). complete R E p) \<Longrightarrow> {p \<in> set (mn_peers R). complete R E p} = set (mn_peers R)" by auto
  ultimately show ?thesis using f d by (auto simp: shouldIntersection_def)
qed

definition reference_cache :: "master_run \<Rightarrow> MasterCache" where
  "reference_cache R =
     \<lparr>mc_peerCount = of_nat (length (mn_peers R)), mc_peers = mn_peers R, mc_cacheState = Intersectioned,
      mc_intersecCipher = reference_cipher R, mc_intersecCipherIndex = map of_nat (reference_index R),
      mc_calculatorCipherSeqs = {}, mc_calculatorDataBatchCount = 0, mc_masterDataRef = [],
      mc_partnerCipherSeqs = [], mc_parternerDataCount = [], mc_finishedPartners = {}, mc_peerMerged = True\<rparr>"

lemma encrypt_cong:
  "mc_intersecCipher c = mc_intersecCipher c' \<Longrightarrow> mc_intersecCipherIndex c = mc_intersecCipherIndex c' \<Longrightarrow>
   snd (encryptIntersection box key self tk cals n c) = snd (encryptIntersection box key self tk cals n c')"
  by (simp add: encryptIntersection_def intersection_message_def intersection_batches_def)

lemma intersect_all:
  assumes "good_run R" and "cache_ok R (all_batches R) c"
  shows "\<exists>c'. tryToIntersection c = (True, c') \<and> mc_intersecCipher c' = reference_cipher R \<and>
    mc_intersecCipherIndex c' = map of_nat (reference_index R)"
proof -
  have b: "books_inv R (all_batches R) c" using assms(2) by (simp add: cache_ok_def)
  then have "shouldIntersection c" "mc_intersecCipher c = []" "mc_intersecCipherIndex c = []"
    using should_intersect [OF assms(1) order_refl] by (simp_all add: books_inv_def)
  moreover have "map (\<lambda>k. word_of_int (mr_dataIndex (the (map_of (mc_masterDataRef c) k)))) (reference_cipher R) =
      map (\<lambda>k. of_nat (position (concat (mn_data R (mn_cal R))) k) :: u32) (reference_cipher R)"
    using intersection_refs [OF assms] by (intro map_cong refl) auto
  ultimately show ?thesis
    using intersection_refs [OF assms] by (simp add: tryToIntersection_def reference_index_def comp_def)
qed

theorem master_intersects:
  assumes "good_run R" and "mu_masters w task = Some M" and "cache_ok R {} (ma_cache M)"
    and "distinct es" and "set es = all_batches R" and "list_all2 (carries R task) es ms"
  shows "snd (run_steps (handlerPSIReceiveMessage throws) ms w) =
    snd (encryptIntersection (mu_box w) (ma_randomB M) (mu_selfParty w) (mtask w (ma_taskState M))
           (ma_calculatorParties M) (unat (mu_dataBatchSize w)) (reference_cache R))"
proof -
  have "snd (run_steps (handlerPSIReceiveMessage throws) ms w) =
      snd (encryptIntersection (mu_box w) (ma_randomB M) (mu_selfParty w) (mtask w (ma_taskState M))
             (ma_calculatorParties M) (unat (mu_dataBatchSize w)) (reference_cache R))"
    if "mu_masters w task = Some M" "cache_ok R E (ma_cache M)" "distinct es" "set es = all_batches R - E" "es \<noteq> []"
      "E \<subseteq> all_batches R" "list_all2 (carries R task) es ms" for E es ms w M
    using that
  proof (induction es arbitrary: E ms w M)
    case (Cons e es)
    obtain p j where e: "e = (p, j)" by (cases e)
    obtain m ms' where ms: "ms = m # ms'" "carries R task e m" "list_all2 (carries R task) es ms'"
      using Cons.prems(7) by (auto simp: list_all2_Cons1)
    have new: "(p, j) \<in> all_batches R - E" using Cons.prems(4) e by auto
    obtain c where c: "receive_batch R e (ma_cache M) = Inr c" "cache_ok R (insert e E) c"
      using receive_batch_ok [OF assms(1) Cons.prems(6) new Cons.prems(2)] e by blast
    note h = carries_receive [OF ms(2) Cons.prems(1) c(1), of throws]
    have E': "insert e E \<subseteq> all_batches R" "set es = all_batches R - insert e E"
      using Cons.prems(3,4,6) new e by auto
    show ?case
    proof (cases "es = []")
      case True
      then have "insert e E = all_batches R" using E' by auto
      then obtain c' where "tryToIntersection c = (True, c')" "mc_intersecCipher c' = reference_cipher R"
        "mc_intersecCipherIndex c' = map of_nat (reference_index R)"
        using intersect_all [OF assms(1), of c] c(2) by auto
      moreover from this(2,3) have "snd (encryptIntersection box key self tk cals n c') =
          snd (encryptIntersection box key self tk cals n (reference_cache R))" for box key self tk cals n
        by (intro encrypt_cong) (simp_all add: reference_cache_def)
      ultimately show ?thesis
        using ms True h by (simp add: run_steps_Cons master_continue_def split_beta del: run_steps.simps(2))
    next
      case False
      then have "insert e E \<noteq> all_batches R" using E'(2) by auto
      then have "\<not> shouldIntersection c"
        using should_intersect [OF assms(1) E'(1)] c(2) by (simp add: cache_ok_def)
      then have s: "handlerPSIReceiveMessage throws m w = (set_master task (M\<lparr>ma_cache := c\<rparr>) w, [])"
        using h by (simp add: master_continue_def tryToIntersection_def)
      let ?w = "set_master task (M\<lparr>ma_cache := c\<rparr>) w"
      have "snd (run_steps (handlerPSIReceiveMessage throws) ms' ?w) =
          snd (encryptIntersection (mu_box ?w) (ma_randomB (M\<lparr>ma_cache := c\<rparr>)) (mu_selfParty ?w) (mtask ?w (ma_taskState (M\<lparr>ma_cache := c\<rparr>)))
             (ma_calculatorParties (M\<lparr>ma_cache := c\<rparr>)) (unat (mu_dataBatchSize ?w)) (reference_cache R))"
        using Cons.prems(3) E' False c(2) ms(3) by (intro Cons.IH [where E = "insert e E"]) (auto simp: set_master_def)
      then show ?thesis using ms(1) s by (simp add: run_steps_Cons set_master_def mtask_def del: run_steps.simps(2))
    qed
  qed simp
  moreover have "es \<noteq> []"
  proof -
    obtain p where "p \<in> set (mn_peers R)" "mn_data R p \<noteq> []" using assms(1) by (auto simp: good_run_def)
    then have "(p, 0) \<in> all_batches R" by (simp add: all_batches_def)
    then show ?thesis using assms(5) by auto
  qed
  ultimately show ?thesis using assms(2-6) by auto
qed

end
