(* ===== verification/MultiCalculator.thy ===== *)
theory MultiCalculator
  imports MultiMaster
begin

text \<open>
  The calculator of multi-party ECDH-PSI: the master's own items, which the calculator encrypts a second time,
  and the intersection the master found among its peers arrive once per batch and in any order. Shown: the
  calculator finalizes exactly when everything is there, and writes the lines whose items are in both, the first
  line of its file in front when it is among them.
\<close>

section \<open>The setting\<close>

text \<open>
  The master's batches as the calculator has them after its own encryption, the batches of the intersection with
  the positions the master sent, and the calculator's lines.
\<close>

record cal_run =
  cn_master :: "bytes list list"
  cn_inter :: "(bytes \<times> nat) list list"
  cn_plain :: "bytes list list"

definition good_cal :: "cal_run \<Rightarrow> bool" where
  "good_cal R \<longleftrightarrow> cn_master R \<noteq> [] \<and> length (cn_master R) < 2 ^ 16 \<and> distinct (concat (cn_master R)) \<and>
     cn_inter R \<noteq> [] \<and> length (cn_inter R) < 2 ^ 16 \<and> distinct (map fst (concat (cn_inter R))) \<and>
     length (concat (cn_plain R)) < 2 ^ 31 \<and> (\<forall>(k, x) \<in> set (concat (cn_inter R)). x < length (concat (cn_plain R)))"

text \<open>The two sources by number of batches; a batch is a source and a number.\<close>

definition keys_of :: "cal_run \<Rightarrow> bool \<times> nat \<Rightarrow> bytes list" where
  "keys_of R e = (if fst e then map fst (cn_inter R ! snd e) else cn_master R ! snd e)"

definition batches_of :: "cal_run \<Rightarrow> bool \<Rightarrow> nat" where
  "batches_of R s = (if s then length (cn_inter R) else length (cn_master R))"

definition cal_batches :: "cal_run \<Rightarrow> (bool \<times> nat) set" where
  "cal_batches R = {(s, j). j < batches_of R s}"

definition last_count :: "nat \<Rightarrow> nat \<Rightarrow> u32" where
  "last_count n j = (if j + 1 = n then of_nat n else 0)"

definition cal_receive :: "cal_run \<Rightarrow> bool \<times> nat \<Rightarrow> CalculatorCache \<Rightarrow> CalculatorCache res" where
  "cal_receive R e c =
     (let (s, j) = e; n = last_count (batches_of R s) j in
      if s then addIntersectionCipher (map fst (cn_inter R ! j)) (map (int \<circ> snd) (cn_inter R ! j)) (of_nat j) n c
      else Inr (snd (appendMasterCipher (cn_master R ! j) (seqof j) n c)))"

section \<open>One batch\<close>

definition put_cref :: "bool \<Rightarrow> bytes \<times> int \<Rightarrow> (bytes, CipherRefDetail) smap \<Rightarrow> (bytes, CipherRefDetail) smap" where
  "put_cref closed kx refs =
     (let (k, x) = kx in
      case map_of refs k of
        None \<Rightarrow> if closed then refs else smap_put k (updatePlainIndex x \<lparr>cr_refCount = 1, cr_plainDataIndex = - 1\<rparr>) refs
      | Some r \<Rightarrow> smap_put k (updatePlainIndex x (r\<lparr>cr_refCount := cr_refCount r + 1\<rparr>)) refs)"

lemma updateCipherRef_put: "updateCipherRef k x c = c\<lparr>cc_cipherRef := put_cref (cc_closed c) (k, x) (cc_cipherRef c)\<rparr>"
  by (simp add: updateCipherRef_def put_cref_def cc_closed_def Let_def split: option.splits)

lemma cc_closed_refs [simp]: "cc_closed (c\<lparr>cc_cipherRef := r\<rparr>) = cc_closed c"
  by (simp add: cc_closed_def)

lemma fold_put_cref:
  "fold (\<lambda>(k, x). cc_put s k x) kxs c = c\<lparr>cc_cipherRef := fold (put_cref (cc_closed c)) kxs (cc_cipherRef c)\<rparr>"
  by (induction kxs arbitrary: c) (simp_all add: split_beta cc_put_def updateCipherRef_put)

lemma add_intersections_fold:
  "length ds \<le> length xs \<Longrightarrow> add_intersections ds xs c = Inr (fold (\<lambda>(k, x). cc_put True k x) (zip ds (map i32 xs)) c)"
  by (induction ds xs c rule: add_intersections.induct) (simp_all add: cc_put_def)

lemma append_fold: "fold (\<lambda>d. updateCipherRef d (- 1)) ds c = fold (\<lambda>(k, x). cc_put False k x) (map (\<lambda>d. (d, - 1)) ds) c"
  by (induction ds arbitrary: c) (simp_all add: cc_put_def)

definition citems :: "cal_run \<Rightarrow> bool \<times> nat \<Rightarrow> (bytes \<times> int) list" where
  "citems R e = (if fst e then map (\<lambda>(k, x). (k, i32 (int x))) (cn_inter R ! snd e) else map (\<lambda>d. (d, - 1)) (cn_master R ! snd e))"

lemma citems_keys: "map fst (citems R e) = keys_of R e"
  by (auto simp: citems_def keys_of_def comp_def)

definition cbooked :: "cal_run \<Rightarrow> bool \<times> nat \<Rightarrow> CalculatorCache \<Rightarrow> CalculatorCache" where
  "cbooked R e c =
     (let (s, j) = e; n = last_count (batches_of R s) j; refs = fold (put_cref (cc_closed c)) (citems R e) (cc_cipherRef c)
      in if s then c\<lparr>cc_receivedIntersections := insert (of_nat j) (cc_receivedIntersections c),
                     cc_intersectionBatchCount := (if n > 0 then n else cc_intersectionBatchCount c), cc_cipherRef := refs\<rparr>
         else c\<lparr>cc_receivedMasterCipher := insert (seqof j) (cc_receivedMasterCipher c),
                cc_masterDataBatchSize := (if cc_masterDataBatchSize c = 0 \<and> n > 0 then n else cc_masterDataBatchSize c),
                cc_cipherRef := refs\<rparr>)"

definition cseqs :: "bool \<Rightarrow> CalculatorCache \<Rightarrow> u32 set" where
  "cseqs s c = (if s then cc_receivedIntersections c else cc_receivedMasterCipher c)"

definition ccount :: "bool \<Rightarrow> CalculatorCache \<Rightarrow> u32" where
  "ccount s c = (if s then cc_intersectionBatchCount c else cc_masterDataBatchSize c)"

definition call :: "bool \<Rightarrow> CalculatorCache \<Rightarrow> bool" where
  "call s c = (if s then cc_receiveAllIntersection c else cc_receiveAllMasterCipher c)"

lemma zip_fst_snd: "zip (map fst xs) (map (f \<circ> snd) xs) = map (\<lambda>(k, x). (k, f x)) xs"
  by (induction xs) auto

lemma cal_receive_inter:
  "cal_receive R (True, j) c =
     (let c1 = cbooked R (True, j) c
      in Inr (if ccount True c1 > 0 \<and> card (cseqs True c1) \<ge> unat (ccount True c1) then cc_close True c1 else c1))"
proof -
  have "zip (map fst (cn_inter R ! j)) (map i32 (map (int \<circ> snd) (cn_inter R ! j))) = citems R (True, j)"
    using zip_fst_snd [of "cn_inter R ! j" "i32 \<circ> int"] by (simp add: citems_def comp_def)
  then show ?thesis
    by (cases c) (auto simp: cal_receive_def addIntersectionCipher_def add_intersections_fold fold_put_cref cbooked_def ccount_def
        cseqs_def cc_close_def cc_closed_def Let_def)
qed

lemma cal_receive_master:
  "cal_receive R (False, j) c =
     (let c1 = cbooked R (False, j) c
      in Inr (if \<not> call False c1 \<and> card (cseqs False c1) = unat (ccount False c1) then cc_close False c1 else c1))"
proof -
  have "fold (\<lambda>d. updateCipherRef d (- 1)) (cn_master R ! j) c' =
      c'\<lparr>cc_cipherRef := fold (put_cref (cc_closed c')) (citems R (False, j)) (cc_cipherRef c')\<rparr>" for c'
    by (simp add: append_fold fold_put_cref citems_def)
  then show ?thesis
    by (cases c) (simp add: cal_receive_def appendMasterCipher_def cbooked_def ccount_def cseqs_def call_def cc_close_def cc_closed_def Let_def)
qed

section \<open>What has arrived\<close>

definition carrived :: "cal_run \<Rightarrow> (bool \<times> nat) set \<Rightarrow> (bool \<times> bytes) set" where
  "carrived R E = {(s, k). \<exists>j. (s, j) \<in> E \<and> k \<in> set (keys_of R (s, j))}"

definition ccomplete :: "cal_run \<Rightarrow> (bool \<times> nat) set \<Rightarrow> bool \<Rightarrow> bool" where
  "ccomplete R E s \<longleftrightarrow> (\<forall>j < batches_of R s. (s, j) \<in> E)"

definition inter_position :: "cal_run \<Rightarrow> bytes \<Rightarrow> int" where
  "inter_position R k = int (the (map_of (concat (cn_inter R)) k))"

abbreviation cindex_inv :: "cal_run \<Rightarrow> bool \<Rightarrow> bytes set \<Rightarrow> (bytes, CipherRefDetail) smap \<Rightarrow> bool" where
  "cindex_inv R \<equiv> index_table cr_plainDataIndex (inter_position R)"

definition cal_ok :: "cal_run \<Rightarrow> (bool \<times> nat) set \<Rightarrow> CalculatorCache \<Rightarrow> bool" where
  "cal_ok R E c \<longleftrightarrow>
     cc_inv (carrived R E) c \<and> exact cc_count cc_closed (carrived R E) {s. ccomplete R E s} c \<and>
     cindex_inv R (cc_closed c) {k. (True, k) \<in> carrived R E} (cc_cipherRef c) \<and>
     (\<forall>s. call s c = ccomplete R E s \<and> cseqs s c = (if s then of_nat else seqof) ` {j. (s, j) \<in> E} \<and>
          ccount s c = (if (s, batches_of R s - 1) \<in> E then of_nat (batches_of R s) else 0)) \<and>
     cc_cacheState c = Evaluating \<and> cc_intersectionResult c = [] \<and> cc_plainData c = cn_plain R"

lemma cal_batches_pos: "good_cal R \<Longrightarrow> 0 < batches_of R s \<and> batches_of R s < 2 ^ 16"
  by (simp add: good_cal_def batches_of_def)

lemma distinct_batch: "distinct (concat bs) \<Longrightarrow> j < length bs \<Longrightarrow> distinct (bs ! j)"
  by (simp add: distinct_concat_iff)

lemma keys_concat: "map fst (concat xs) = concat (map (map fst) xs)"
  by (simp add: map_concat)

lemma keys_distinct:
  assumes "good_cal R" and "(s, j) \<in> cal_batches R"
  shows "distinct (keys_of R (s, j))"
  using assms distinct_batch [of "map (map fst) (cn_inter R)" j] distinct_batch [of "cn_master R" j]
  by (cases s) (simp_all add: good_cal_def keys_of_def cal_batches_def batches_of_def keys_concat)

lemma keys_disjoint:
  assumes "good_cal R" and "(s, j) \<in> cal_batches R" and "(s, j') \<in> cal_batches R"
    and "k \<in> set (keys_of R (s, j))" and "k \<in> set (keys_of R (s, j'))"
  shows "j = j'"
proof (cases s)
  case True
  then show ?thesis
    using assms by (intro distinct_batches_disjoint [of "map (map fst) (cn_inter R)" j j' k])
      (auto simp: good_cal_def keys_of_def cal_batches_def batches_of_def keys_concat)
next
  case False
  then show ?thesis
    using assms by (intro distinct_batches_disjoint [of "cn_master R" j j' k])
      (auto simp: good_cal_def keys_of_def cal_batches_def batches_of_def)
qed

lemma citems_index:
  assumes "good_cal R" and "(s, j) \<in> cal_batches R" and "(k, x) \<in> set (citems R (s, j))"
  shows "x = (if s then inter_position R k else - 1)"
proof (cases s)
  case True
  then obtain y where y: "(k, y) \<in> set (cn_inter R ! j)" "x = i32 (int y)" using assms(3) by (auto simp: citems_def)
  then have m: "(k, y) \<in> set (concat (cn_inter R))"
    using assms(2) True unfolding in_concat_nth by (auto simp: cal_batches_def batches_of_def)
  then have "map_of (concat (cn_inter R)) k = Some y" using assms(1) by (simp add: good_cal_def del: set_concat)
  moreover have "y < 2 ^ 31" using m assms(1) by (force simp: good_cal_def simp del: set_concat)
  then have "x = int y" unfolding y(2) by (intro i32_id) simp_all
  ultimately show ?thesis using True by (simp add: inter_position_def)
qed (use assms(3) in \<open>auto simp: citems_def\<close>)

interpretation cal_index: indexed_table put_cref cr_plainDataIndex
  by unfold_locales (auto simp: put_cref_def map_of_smap_put updatePlainIndex_def split: option.splits)

subsection \<open>A batch and the books\<close>

lemma cbooked_simps [simp]:
  "cc_cacheState (cbooked R e c) = cc_cacheState c" "cc_intersectionResult (cbooked R e c) = cc_intersectionResult c"
  "cc_plainData (cbooked R e c) = cc_plainData c" "call s (cbooked R e c) = call s c" "cc_closed (cbooked R e c) = cc_closed c"
  "cc_cipherRef (cbooked R e c) = fold (put_cref (cc_closed c)) (citems R e) (cc_cipherRef c)"
  by (simp_all add: cbooked_def call_def cc_closed_def Let_def split_beta)

lemma cc_close_simps [simp]:
  "cc_cacheState (cc_close s c) = cc_cacheState c" "cc_intersectionResult (cc_close s c) = cc_intersectionResult c"
  "cc_plainData (cc_close s c) = cc_plainData c" "call s' (cc_close s c) = (s' = s \<or> call s' c)" "cc_closed (cc_close s c)"
  "cc_cipherRef (cc_close s c) = cc_cipherRef c" "cseqs s' (cc_close s c) = cseqs s' c" "ccount s' (cc_close s c) = ccount s' c"
  by (auto simp: cc_close_def call_def cc_closed_def cseqs_def ccount_def)

definition seq_number :: "bool \<Rightarrow> nat \<Rightarrow> u32" where
  "seq_number s = (if s then of_nat else seqof)"

lemma seq_number_inj: "J \<subseteq> {..<2 ^ 16} \<Longrightarrow> inj_on (seq_number s) J"
proof (cases s)
  case True
  assume J: "J \<subseteq> {..<2 ^ 16}"
  have "inj_on (of_nat :: nat \<Rightarrow> u32) J"
  proof (rule inj_onI)
    fix x y assume "x \<in> J" "y \<in> J" "(of_nat x :: u32) = of_nat y"
    then have "x < 2 ^ 16" "y < 2 ^ 16" "unat (of_nat x :: u32) = unat (of_nat y :: u32)" using J by auto
    then show "x = y" by (simp add: unsigned_of_nat take_bit_nat_eq_self)
  qed
  with True show ?thesis by (simp add: seq_number_def)
qed (simp add: seq_number_def inj_on_seqof)

lemma cseqs_booked: "cseqs s' (cbooked R (s, j) c) = (if s' = s then insert (seq_number s j) (cseqs s c) else cseqs s' c)"
  by (simp add: cseqs_def cbooked_def seq_number_def Let_def)

lemma ccount_booked:
  assumes "last_count (batches_of R s) j \<noteq> 0 \<Longrightarrow> ccount s c = 0"
  shows "ccount s' (cbooked R (s, j) c) = (if s' = s \<and> last_count (batches_of R s) j \<noteq> 0 then last_count (batches_of R s) j else ccount s' c)"
  using assms by (auto simp: ccount_def cbooked_def Let_def word_gt_0)

lemma last_count_pos: "0 < n \<Longrightarrow> n < 2 ^ 16 \<Longrightarrow> last_count n j \<noteq> 0 \<longleftrightarrow> j + 1 = n"
proof -
  have "last_count n j = batch_count (replicate n []) j" by (simp add: last_count_def batch_count_def)
  then show "0 < n \<Longrightarrow> n < 2 ^ 16 \<Longrightarrow> last_count n j \<noteq> 0 \<longleftrightarrow> j + 1 = n"
    using batch_count_pos [of "replicate n []" j] by simp
qed

lemma books_calculator:
  fixes R :: cal_run
  assumes "good_cal R" and "E \<subseteq> cal_batches R" and "(s, j) \<in> cal_batches R - E" and "cal_ok R E c"
  defines "E' \<equiv> insert (s, j) E" and "c1 \<equiv> cbooked R (s, j) c"
  shows "cseqs s' c1 = seq_number s' ` {j. (s', j) \<in> E'} \<and>
    ccount s' c1 = (if (s', batches_of R s' - 1) \<in> E' then of_nat (batches_of R s') else 0)"
proof -
  have old: "cseqs s' c = seq_number s' ` {j. (s', j) \<in> E}"
    "ccount s' c = (if (s', batches_of R s' - 1) \<in> E then of_nat (batches_of R s') else 0)" for s'
    using assms(4) by (simp_all add: cal_ok_def seq_number_def)
  have p: "(s, j) \<notin> E" using assms(3) by simp
  note l = cal_batches_pos [OF assms(1), of s]
  note n = last_count_pos [of "batches_of R s" j]
  have last: "batches_of R s - 1 = j" if "last_count (batches_of R s) j \<noteq> 0" using n l that by simp
  then have e: "ccount s' c1 = (if s' = s \<and> last_count (batches_of R s) j \<noteq> 0 then last_count (batches_of R s) j else ccount s' c)"
    unfolding c1_def using old(2) [of s] p by (intro ccount_booked) simp
  have "cseqs s' c1 = seq_number s' ` {j. (s', j) \<in> E'}"
    unfolding c1_def E'_def cseqs_booked using old(1) [of s'] by auto
  moreover have "ccount s' c1 = (if (s', batches_of R s' - 1) \<in> E' then of_nat (batches_of R s') else 0)"
  proof (cases "s' = s \<and> j + 1 = batches_of R s")
    case True
    then show ?thesis unfolding E'_def using e n l by (auto simp: last_count_def)
  next
    case False
    then have "(s', batches_of R s' - 1) = (s, j) \<Longrightarrow> False" using l by auto
    then show ?thesis unfolding E'_def using e n l False old(2) [of s'] by auto
  qed
  ultimately show ?thesis by blast
qed

lemma complete_count:
  fixes s :: bool
  assumes "good_cal R" and "E \<subseteq> cal_batches R"
  defines "n \<equiv> (if (s, batches_of R s - 1) \<in> E then of_nat (batches_of R s) else 0 :: u32)"
    and "q \<equiv> card (seq_number s ` {j. (s, j) \<in> E})"
  shows "(n > 0 \<and> q \<ge> unat n \<longleftrightarrow> ccomplete R E s) \<and> (q \<noteq> 0 \<longrightarrow> (q = unat n \<longleftrightarrow> ccomplete R E s)) \<and>
    (ccomplete R E s \<longrightarrow> q \<noteq> 0 \<and> q = unat n)"
proof -
  let ?l = "batches_of R s" and ?J = "{j. (s, j) \<in> E}"
  have l: "?l < 2 ^ 16" "0 < ?l" using cal_batches_pos [OF assms(1)] by simp_all
  have u: "unat (of_nat ?l :: u32) = ?l" using l(1) by (simp add: unsigned_of_nat take_bit_nat_eq_self)
  have J: "?J \<subseteq> {..<?l}" using assms(2) by (auto simp: cal_batches_def)
  then have q: "q = card ?J" unfolding q_def using l(1) by (intro card_image seq_number_inj) auto
  have "card ?J = ?l \<longleftrightarrow> ?J = {..<?l}" using card_subset_eq [OF finite_lessThan J] card_lessThan by metis
  moreover have "?J = {..<?l} \<longleftrightarrow> ccomplete R E s" using J unfolding ccomplete_def by blast
  ultimately have c: "q = ?l \<longleftrightarrow> ccomplete R E s" unfolding q by (simp only:)
  have le: "q \<le> ?l" unfolding q using card_mono [OF finite_lessThan J] by simp
  have pos: "(of_nat ?l :: u32) > 0" using l(2) unat_gt_0 [of "of_nat ?l :: u32"] unfolding u word_gt_0 by simp
  show ?thesis
  proof (cases "(s, ?l - 1) \<in> E")
    case True
    then have "n = of_nat ?l" by (simp add: n_def)
    then have "n > 0" "unat n = ?l" using pos u by simp_all
    then show ?thesis using c le l(2) by auto
  next
    case False
    moreover have "?l - 1 < ?l" using l(2) by simp
    ultimately have "n = 0" "\<not> ccomplete R E s" unfolding n_def ccomplete_def by auto
    then show ?thesis by simp
  qed
qed

lemma carrived_insert: "carrived R (insert (s, j) E) = carrived R E \<union> {s} \<times> set (keys_of R (s, j))"
  by (auto simp: carrived_def)

lemma tally_cong:
  assumes "cc_cipherRef c' = cc_cipherRef c" and "cc_closed c' = cc_closed c"
  shows "cc_inv D c' = cc_inv D c" "exact cc_count cc_closed D C c' = exact cc_count cc_closed D C c"
  using assms by (simp_all only: cc_inv_def exact_def cc_count_def)

lemma cal_receive_ok:
  assumes "good_cal R" and "E \<subseteq> cal_batches R" and "(s, j) \<in> cal_batches R - E" and "cal_ok R E c"
  shows "\<exists>c'. cal_receive R (s, j) c = Inr c' \<and> cal_ok R (insert (s, j) E) c'"
proof -
  let ?E = "insert (s, j) E" and ?c1 = "cbooked R (s, j) c" and ?ks = "set (keys_of R (s, j))"
  have e: "(s, j) \<in> cal_batches R" "(s, j) \<notin> E" "?E \<subseteq> cal_batches R" using assms(2,3) by auto
  have ok: "cc_inv (carrived R E) c" "exact cc_count cc_closed (carrived R E) {s. ccomplete R E s} c"
    "cindex_inv R (cc_closed c) {k. (True, k) \<in> carrived R E} (cc_cipherRef c)" "\<And>s. call s c = ccomplete R E s"
    using assms(4) unfolding cal_ok_def by blast+
  have ks: "fst ` set (citems R (s, j)) = ?ks" by (metis citems_keys image_set)
  have fresh: "\<forall>k \<in> fst ` set (citems R (s, j)). (s, k) \<notin> carrived R E"
    unfolding ks using keys_disjoint [OF assms(1) e(1)] e(2) assms(2) by (auto simp: carrived_def)
  have nc: "s \<notin> {s. ccomplete R E s}" using e(1,2) by (auto simp: ccomplete_def cal_batches_def)
  have dist: "distinct (map fst (citems R (s, j)))" unfolding citems_keys by (rule keys_distinct [OF assms(1) e(1)])
  let ?c0 = "fold (\<lambda>(k, x). cc_put s k x) (citems R (s, j)) c"
  have "cc_cipherRef ?c1 = cc_cipherRef ?c0" "cc_closed ?c1 = cc_closed ?c0" by (simp_all add: fold_put_cref)
  then have t: "exact cc_count cc_closed (carrived R ?E) {s. ccomplete R E s} ?c1" "cc_inv (carrived R ?E) ?c1"
    using calculator_tally.exact_puts [OF ok(2,1) TrueI nc dist fresh] tally_cong unfolding carrived_insert ks by blast+
  have "\<forall>(k, x) \<in> set (citems R (s, j)). x = (if s then inter_position R k else - 1)"
    using citems_index [OF assms(1) e(1)] by auto
  moreover have "\<forall>k. inter_position R k \<noteq> - 1" by (simp add: inter_position_def)
  ultimately have i: "cindex_inv R (cc_closed c) (if s then {k. (True, k) \<in> carrived R E} \<union> ?ks else {k. (True, k) \<in> carrived R E}) (cc_cipherRef ?c1)"
    using cal_index.index_puts [OF ok(3)] unfolding ks [symmetric] cbooked_simps by blast
  have K: "(if s then {k. (True, k) \<in> carrived R E} \<union> ?ks else {k. (True, k) \<in> carrived R E}) = {k. (True, k) \<in> carrived R ?E}"
    unfolding carrived_insert by auto
  note books = books_calculator [OF assms(1-4)]
  have q: "cseqs s ?c1 = seq_number s ` {j. (s, j) \<in> ?E}"
    "ccount s ?c1 = (if (s, batches_of R s - 1) \<in> ?E then of_nat (batches_of R s) else 0)" using books by blast+
  have fin: "finite {j. (s, j) \<in> ?E}"
    by (rule finite_subset [of _ "{..<batches_of R s}"]) (use e(3) in \<open>auto simp: cal_batches_def\<close>)
  have ne: "card (cseqs s ?c1) \<noteq> 0" unfolding q(1) using fin by auto
  note cc = complete_count [OF assms(1) e(3), of s, folded q]
  have recv: "cal_receive R (s, j) c = Inr (if ccomplete R ?E s then cc_close s ?c1 else ?c1)"
  proof (cases s)
    case True
    then have [simp]: "s = True" by simp
    show ?thesis using cc cal_receive_inter [of R j c] by (simp add: Let_def)
  next
    case False
    then have [simp]: "s = False" by simp
    have "\<not> call s ?c1" using ok(4) nc by simp
    then show ?thesis using cc ne cal_receive_master [of R j c] by (simp add: Let_def)
  qed
  have other: "ccomplete R ?E s' = ccomplete R E s'" if "s' \<noteq> s" for s' using that by (auto simp: ccomplete_def)
  have rest: "cc_cacheState c = Evaluating" "cc_intersectionResult c = []" "cc_plainData c = cn_plain R"
    using assms(4) by (simp_all add: cal_ok_def)
  have "cal_ok R ?E (if ccomplete R ?E s then cc_close s ?c1 else ?c1)"
  proof (cases "ccomplete R ?E s")
    case True
    have c: "ccomplete R ?E s' \<longleftrightarrow> s' = s \<or> ccomplete R E s'" for s' using True other [of s'] by blast
    then have C: "{s. ccomplete R ?E s} = insert s {s. ccomplete R E s}" by blast
    have "exact cc_count cc_closed (carrived R ?E) {s. ccomplete R ?E s} (cc_close s ?c1)"
      unfolding C by (rule calculator_tally.exact_close [OF t TrueI])
    moreover have "cc_inv (carrived R ?E) (cc_close s ?c1)" by (rule calculator_tally.inv_close [OF t(2) TrueI])
    moreover have "cindex_inv R True {k. (True, k) \<in> carrived R ?E} (cc_cipherRef ?c1)"
      using i unfolding K by (auto simp: index_table_def)
    moreover have "call s' (cc_close s ?c1) = ccomplete R ?E s'" for s' using c [of s'] ok(4) [of s'] by simp
    ultimately show ?thesis using True books rest unfolding cal_ok_def seq_number_def [symmetric] by simp
  next
    case False
    have "ccomplete R ?E s' = ccomplete R E s'" for s' using False other [of s'] nc by blast
    then have C: "{s. ccomplete R ?E s} = {s. ccomplete R E s}" by blast
    have "call s' ?c1 = ccomplete R ?E s'" for s' using C ok(4) [of s'] by auto
    then show ?thesis
      using False t i books rest unfolding K cal_ok_def seq_number_def [symmetric] C [symmetric] by simp
  qed
  with recv show ?thesis by blast
qed

section \<open>The result\<close>

text \<open>The reference: the lines at the positions of those items of the intersection that the master has too.\<close>

definition wanted :: "cal_run \<Rightarrow> (bytes \<times> nat) list" where
  "wanted R = filter (\<lambda>(k, x). k \<in> set (concat (cn_master R))) (concat (cn_inter R))"

definition reference_lines :: "cal_run \<Rightarrow> bytes list" where
  "reference_lines R = map (\<lambda>(k, x). concat (cn_plain R) ! x) (wanted R)"

lemma plain_loop_nth: "x < length (concat bs) \<Longrightarrow> plain_loop bs st (st + x) = concat bs ! x"
proof (induction bs arbitrary: st x)
  case (Cons b bs)
  show ?case
  proof (cases "x < length b")
    case False
    then have "plain_loop bs (st + length b) (st + length b + (x - length b)) = concat bs ! (x - length b)"
      using Cons.prems by (intro Cons.IH) simp
    with False show ?thesis by (simp add: nth_append)
  qed (simp add: nth_append)
qed simp

lemma getPlainDataByIndex_nth:
  "x < length (concat (cc_plainData c)) \<Longrightarrow> length (concat (cc_plainData c)) < 2 ^ 31 \<Longrightarrow>
   getPlainDataByIndex (int x) c = concat (cc_plainData c) ! x"
  using plain_loop_nth [of x "cc_plainData c" 0] by (simp add: getPlainDataByIndex_def del: length_concat)

lemma mset_swap_first: "mset (case result of [] \<Rightarrow> [d] | x # xs \<Rightarrow> (d # xs) @ [x]) = add_mset d (mset result)"
  by (cases result) simp_all

lemma finalize_loop_mset:
  "mset (finalize_loop c refs result) =
     mset result + mset (map (\<lambda>(_, r). getPlainDataByIndex (cr_plainDataIndex r) c)
                           (filter (\<lambda>(_, r). \<not> cr_refCount r < 2 \<and> cr_plainDataIndex r \<ge> 0) refs))"
  by (induction c refs result rule: finalize_loop.induct) (auto simp: Let_def mset_swap_first)

lemma finalize_loop_head:
  assumes "(result \<noteq> [] \<and> hd result = getPlainDataByIndex 0 c) \<or> (\<exists>(k, r) \<in> set refs. \<not> cr_refCount r < 2 \<and> cr_plainDataIndex r = 0)"
  shows "finalize_loop c refs result \<noteq> [] \<and> hd (finalize_loop c refs result) = getPlainDataByIndex 0 c"
  using assms
proof (induction c refs result rule: finalize_loop.induct)
  case (2 c k r refs result)
  show ?case
  proof (cases "cr_refCount r < 2")
    case True
    then show ?thesis using 2(1) [OF True] 2(3) by auto
  next
    case False
    let ?result = "if cr_plainDataIndex r > 0 then result @ [getPlainDataByIndex (cr_plainDataIndex r) c]
      else if cr_plainDataIndex r = 0
      then (case result of [] \<Rightarrow> [getPlainDataByIndex (cr_plainDataIndex r) c]
            | x # xs \<Rightarrow> (getPlainDataByIndex (cr_plainDataIndex r) c # xs) @ [x])
      else result"
    have "(?result \<noteq> [] \<and> hd ?result = getPlainDataByIndex 0 c) \<or> (\<exists>(k, r) \<in> set refs. \<not> cr_refCount r < 2 \<and> cr_plainDataIndex r = 0)"
      using 2(3) False by (cases result) auto
    from 2(2) [OF False refl this] False show ?thesis by (simp add: Let_def)
  qed
qed auto

lemma two_sources: "unat (c :: u16) \<le> 2 \<Longrightarrow> \<not> c < 2 \<longleftrightarrow> unat c = 2"
  by (auto simp: word_less_nat_alt)

lemma in_concat_fst: "k \<in> fst ` set (concat xs) \<longleftrightarrow> (\<exists>j < length xs. k \<in> fst ` set (xs ! j))"
proof -
  have "k \<in> fst ` set (concat xs) \<longleftrightarrow> k \<in> set (concat (map (map fst) xs))" by (simp only: keys_concat [symmetric] set_map)
  also have "\<dots> \<longleftrightarrow> (\<exists>j < length xs. k \<in> set (map (map fst) xs ! j))" unfolding in_concat_nth by simp
  also have "\<dots> \<longleftrightarrow> (\<exists>j < length xs. k \<in> fst ` set (xs ! j))" by (metis nth_map set_map)
  finally show ?thesis .
qed

lemma arrived_iff:
  "(s, k) \<in> carrived R (cal_batches R) \<longleftrightarrow> k \<in> (if s then fst ` set (concat (cn_inter R)) else set (concat (cn_master R)))"
  using in_concat_fst [of k "cn_inter R"] in_concat_nth [of k "cn_master R"]
  by (cases s) (auto simp: carrived_def cal_batches_def batches_of_def keys_of_def simp del: set_concat)

lemma table_has:
  assumes "good_cal R" and "cal_ok R (cal_batches R) c" and "k \<in> fst ` set (concat (cn_inter R)) \<inter> set (concat (cn_master R))"
  shows "map_of (cc_cipherRef c) k \<noteq> None"
proof -
  have ex: "exact cc_count cc_closed (carrived R (cal_batches R)) {s. ccomplete R (cal_batches R) s} c"
    using assms(2) by (simp add: cal_ok_def)
  have "(s, k) \<in> carrived R (cal_batches R)" for s using assms(3) unfolding arrived_iff by (cases s) auto
  then have "cc_count c k = Some (card (UNIV :: bool set))"
    using calculator_tally.in_all_sources [OF ex, of UNIV k] by auto
  then show ?thesis by (auto simp: cc_count_def)
qed

lemma hits_all:
  assumes "good_cal R" and "cal_ok R (cal_batches R) c" and "map_of (cc_cipherRef c) k = Some r"
  shows "\<not> cr_refCount r < 2 \<longleftrightarrow> k \<in> fst ` set (concat (cn_inter R)) \<inter> set (concat (cn_master R))"
    and "\<not> cr_refCount r < 2 \<Longrightarrow> cr_plainDataIndex r = inter_position R k"
proof -
  let ?E = "cal_batches R"
  have ok: "cc_inv (carrived R ?E) c" "exact cc_count cc_closed (carrived R ?E) {s. ccomplete R ?E s} c"
    "cindex_inv R (cc_closed c) {k. (True, k) \<in> carrived R ?E} (cc_cipherRef c)"
    using assms(2) by (simp_all add: cal_ok_def)
  note arr = arrived_iff [of _ _ R]
  have "unat (cr_refCount r) \<le> card {s. (s, k) \<in> carrived R ?E}" using ok(1) assms(3) by (simp add: cc_inv_def)
  then have le: "unat (cr_refCount r) \<le> 2" using card_bool_le [of "{s. (s, k) \<in> carrived R ?E}"] by linarith
  have "cc_count c k = Some (unat (cr_refCount r))" using assms(3) by (simp add: cc_count_def)
  moreover have "cc_count c k = Some (card (UNIV :: bool set)) \<longleftrightarrow> (\<forall>s \<in> UNIV. (s, k) \<in> carrived R ?E)"
    by (rule calculator_tally.in_all_sources [OF ok(2)]) auto
  ultimately have "unat (cr_refCount r) = 2 \<longleftrightarrow> (\<forall>s. (s, k) \<in> carrived R ?E)" by simp
  also have "\<dots> \<longleftrightarrow> k \<in> fst ` set (concat (cn_inter R)) \<inter> set (concat (cn_master R))"
    using arr [of True k] arr [of False k] by (metis (full_types) IntD1 IntD2 IntI)
  finally show iff: "\<not> cr_refCount r < 2 \<longleftrightarrow> k \<in> fst ` set (concat (cn_inter R)) \<inter> set (concat (cn_master R))"
    unfolding two_sources [OF le] .
  assume "\<not> cr_refCount r < 2"
  then have "(True, k) \<in> carrived R ?E" using iff arr [of True k] by simp
  then show "cr_plainDataIndex r = inter_position R k" using ok(3) assms(3) by (simp add: index_table_def)
qed

text \<open>The hits of the table are the items of the reference, with their positions.\<close>

definition hits :: "CalculatorCache \<Rightarrow> (bytes \<times> CipherRefDetail) list" where
  "hits c = filter (\<lambda>(_, r). \<not> cr_refCount r < 2) (cc_cipherRef c)"

lemma hits_wanted:
  assumes "good_cal R" and "cal_ok R (cal_batches R) c"
  shows "mset (map (\<lambda>(k, r). (k, cr_plainDataIndex r)) (hits c)) = mset (map (\<lambda>(k, x). (k, int x)) (wanted R))"
proof -
  let ?xs = "map (\<lambda>(k, r). (k, cr_plainDataIndex r)) (hits c)" and ?ys = "map (\<lambda>(k, x). (k, int x)) (wanted R)"
  let ?inter = "concat (cn_inter R)"
  have inv: "cc_inv (carrived R (cal_batches R)) c" and ex: "exact cc_count cc_closed (carrived R (cal_batches R)) {s. ccomplete R (cal_batches R) s} c"
    using assms(2) by (simp_all add: cal_ok_def)
  then have d: "distinct (map fst (cc_cipherRef c))" by (simp add: cc_inv_def smap_ok_distinct)
  have di: "distinct (map fst ?inter)" using assms(1) by (simp add: good_cal_def)
  have map_of_refs: "(k, r) \<in> set (cc_cipherRef c) \<longleftrightarrow> map_of (cc_cipherRef c) k = Some r" for k r
    using d by simp
  have map_of_inter: "(k, x) \<in> set ?inter \<longleftrightarrow> map_of ?inter k = Some x" for k x
    using di by (simp del: set_concat)
  have pos: "inter_position R k = int x" if "(k, x) \<in> set ?inter" for k x
    using that unfolding map_of_inter by (simp add: inter_position_def)
  have "distinct (map fst ?xs)" using d by (simp add: hits_def comp_def split_beta distinct_map_filter)
  moreover have "distinct (map fst ?ys)" using di by (simp add: wanted_def comp_def split_beta distinct_map_filter)
  moreover have "set ?xs = set ?ys"
  proof (rule set_eqI)
    fix e :: "bytes \<times> int"
    obtain k y where e: "e = (k, y)" by (cases e)
    have "e \<in> set ?xs \<longleftrightarrow> (\<exists>r. map_of (cc_cipherRef c) k = Some r \<and> \<not> cr_refCount r < 2 \<and> y = cr_plainDataIndex r)"
      unfolding hits_def e using map_of_refs by force
    also have "\<dots> \<longleftrightarrow> k \<in> fst ` set ?inter \<inter> set (concat (cn_master R)) \<and> y = inter_position R k"
    proof
      assume "k \<in> fst ` set ?inter \<inter> set (concat (cn_master R)) \<and> y = inter_position R k"
      moreover from this have "map_of (cc_cipherRef c) k \<noteq> None"
        using table_has [OF assms] by blast
      ultimately show "\<exists>r. map_of (cc_cipherRef c) k = Some r \<and> \<not> cr_refCount r < 2 \<and> y = cr_plainDataIndex r"
        using hits_all [OF assms] by (metis option.exhaust)
    qed (use hits_all [OF assms] in metis)
    also have "\<dots> \<longleftrightarrow> e \<in> set ?ys"
      unfolding e wanted_def using pos by (force simp del: set_concat)
    finally show "e \<in> set ?xs \<longleftrightarrow> e \<in> set ?ys" .
  qed
  ultimately show ?thesis using set_eq_iff_mset_eq_distinct [of ?xs ?ys] by (metis distinct_map)
qed

text \<open>What the loop of \<open>tryToFinalize\<close> collects.\<close>

lemma finalize_lines:
  assumes "good_cal R" and "cal_ok R (cal_batches R) c"
  shows "mset (finalize_loop c (cc_cipherRef c) []) = mset (reference_lines R)"
proof -
  let ?get = "\<lambda>(k :: bytes, i). getPlainDataByIndex i c" and ?idx = "\<lambda>(k :: bytes, r). (k, cr_plainDataIndex r)"
  have plain: "cc_plainData c = cn_plain R" using assms(2) by (simp add: cal_ok_def)
  have "\<forall>e \<in> set (map ?idx (hits c)). 0 \<le> snd e"
    unfolding mset_eq_setD [OF hits_wanted [OF assms]] by auto
  then have "filter (\<lambda>(_, r). \<not> cr_refCount r < 2 \<and> cr_plainDataIndex r \<ge> 0) (cc_cipherRef c) = hits c"
    unfolding hits_def by (intro filter_cong) auto
  then have "mset (finalize_loop c (cc_cipherRef c) []) = image_mset ?get (mset (map ?idx (hits c)))"
    unfolding finalize_loop_mset by (simp add: comp_def case_prod_unfold image_mset.compositionality flip: mset_map)
  also have "\<dots> = mset (map (\<lambda>(k, x). getPlainDataByIndex (int x) c) (wanted R))"
    unfolding hits_wanted [OF assms] by (simp add: comp_def case_prod_unfold image_mset.compositionality flip: mset_map)
  also have "map (\<lambda>(k, x). getPlainDataByIndex (int x) c) (wanted R) = reference_lines R"
    unfolding reference_lines_def
  proof (rule map_cong [OF refl], safe)
    fix k x assume "(k, x) \<in> set (wanted R)"
    then have "x < length (concat (cn_plain R))" "length (concat (cn_plain R)) < 2 ^ 31"
      using assms(1) by (auto simp: wanted_def good_cal_def simp del: set_concat length_concat)
    then show "getPlainDataByIndex (int x) c = concat (cn_plain R) ! x" using getPlainDataByIndex_nth [of x c] plain by simp
  qed
  finally show ?thesis .
qed

lemma finalize_header:
  assumes "good_cal R" and "cal_ok R (cal_batches R) c" and "(k, 0) \<in> set (wanted R)"
  shows "finalize_loop c (cc_cipherRef c) [] \<noteq> [] \<and> hd (finalize_loop c (cc_cipherRef c) []) = concat (cn_plain R) ! 0"
proof -
  have "(k, int 0) \<in> set (map (\<lambda>(k, x). (k, int x)) (wanted R))" using assms(3) by force
  then obtain r where "(k, r) \<in> set (hits c)" "cr_plainDataIndex r = 0"
    unfolding mset_eq_setD [OF hits_wanted [OF assms(1,2)], symmetric] by auto
  then have "\<exists>(k, r) \<in> set (cc_cipherRef c). \<not> cr_refCount r < 2 \<and> cr_plainDataIndex r = 0"
    by (auto simp: hits_def)
  moreover have "0 < length (concat (cn_plain R))" "length (concat (cn_plain R)) < 2 ^ 31" "cc_plainData c = cn_plain R"
    using assms by (auto simp: wanted_def good_cal_def cal_ok_def simp del: set_concat length_concat length_greater_0_conv)
  then have "getPlainDataByIndex 0 c = concat (cn_plain R) ! 0" using getPlainDataByIndex_nth [of 0 c] by simp
  ultimately show ?thesis using finalize_loop_head [of "[]" c "cc_cipherRef c"] by simp
qed

section \<open>The run\<close>

text \<open>A message that carries batch \<open>e\<close> of task \<open>task\<close>; the calculator encrypts the master's items with its key.\<close>

definition cal_carries :: "cal_run \<Rightarrow> CryptoBox \<Rightarrow> bytes \<Rightarrow> bytes \<Rightarrow> bool \<times> nat \<Rightarrow> PSIMessage \<Rightarrow> bool" where
  "cal_carries R box key task e m \<longleftrightarrow>
     (let (s, j) = e in
      pm_taskID m = task \<and> pm_seq m = seq_number s j \<and> pm_dataBatchCount m = last_count (batches_of R s) j \<and>
      (if s then pm_packetType m = SEND_ENCRYPTED_INTERSECTION_SET_TO_CALCULATOR \<and> pm_data m = map fst (cn_inter R ! j) \<and>
                 pm_dataIndex m = map (int \<circ> snd) (cn_inter R ! j)
       else pm_packetType m = SEND_ENCRYPTED_SET_TO_CALCULATOR \<and> map (\<lambda>x. cb_ecMultiply box x key) (pm_data m) = cn_master R ! j))"

lemma should_finalize:
  assumes "good_cal R" and "E \<subseteq> cal_batches R" and "cal_ok R E c"
  shows "shouldFinalize c \<longleftrightarrow> E = cal_batches R"
proof -
  have ok: "cc_cacheState c = Evaluating" "call True c = ccomplete R E True" "cseqs False c = seq_number False ` {j. (False, j) \<in> E}"
    "ccount False c = (if (False, batches_of R False - 1) \<in> E then of_nat (batches_of R False) else 0)"
    using assms(3) by (auto simp: cal_ok_def seq_number_def)
  have "(card (cseqs False c) \<noteq> 0 \<and> card (cseqs False c) = unat (ccount False c)) \<longleftrightarrow> ccomplete R E False"
    unfolding ok(3,4) using complete_count [OF assms(1,2), of False] by blast
  then have "shouldFinalize c \<longleftrightarrow> ccomplete R E True \<and> ccomplete R E False"
    using ok(1,2) by (auto simp: shouldFinalize_def call_def cseqs_def ccount_def)
  moreover have "(ccomplete R E True \<and> ccomplete R E False) \<longleftrightarrow> (\<forall>s. ccomplete R E s)" by (metis (full_types))
  moreover have "(\<forall>s. ccomplete R E s) \<longleftrightarrow> E = cal_batches R" using assms(2) by (auto simp: ccomplete_def cal_batches_def)
  ultimately show ?thesis by blast
qed

lemma set_mtask_same [simp]: "set_mtask a (mu_heap w a) w = w"
  by (simp add: set_mtask_def)

text \<open>A batch that is not the last one only changes the cache.\<close>

lemma cal_step:
  assumes "cal_carries R (mu_box w) (ca_randomA C) task (s, j) m" and "mu_calculators w task = Some C"
    and "cal_receive R (s, j) (ca_cache C) = Inr c" and "\<not> shouldFinalize c"
  shows "fst (handlerPSIReceiveMessage throws m w) = set_calculator task (C\<lparr>ca_cache := c\<rparr>) w \<and>
    filter (is_answer a) (snd (handlerPSIReceiveMessage throws m w)) = []"
proof (cases s)
  case True
  with assms show ?thesis
    by (simp add: handlerPSIReceiveMessage_def multi_packet_types cal_carries_def cal_onReceiveIntersecCipher_def cal_receive_def
        tryToFinalize_def seq_number_def multi_send_def filter_empty_conv Let_def)
next
  case False
  with assms show ?thesis
    by (auto simp: handlerPSIReceiveMessage_def multi_packet_types cal_carries_def cal_onReceiveMasterCipher_def cal_receive_def
        tryToFinalize_def seq_number_def Let_def split: prod.splits)
qed

text \<open>
  The task state of a calculator that can finish: nothing has failed, the output is open and empty, and the task has not
  been finished or removed.
\<close>

definition can_finish :: "bytes \<Rightarrow> TaskState \<Rightarrow> bool" where
  "can_finish task s \<longleftrightarrow> \<not> ts_taskDone s \<and> ts_writer s = Some [] \<and> ts_failedCount s = 0 \<and> ts_callback s \<and>
     ts_finalizeHandler s \<and> tk_id (ts_task s) = task"

lemma default_output [simp]:
  "ts_writer (tryToGenerateDefaultOutputDesc s) = ts_writer s" "ts_taskDone (tryToGenerateDefaultOutputDesc s) = ts_taskDone s"
  "ts_failedCount (tryToGenerateDefaultOutputDesc s) = ts_failedCount s" "ts_callback (tryToGenerateDefaultOutputDesc s) = ts_callback s"
  "ts_finalizeHandler (tryToGenerateDefaultOutputDesc s) = ts_finalizeHandler s"
  "tk_id (ts_task (tryToGenerateDefaultOutputDesc s)) = tk_id (ts_task s)"
  by (simp_all add: tryToGenerateDefaultOutputDesc_def Let_def split: option.splits)

lemma store_lines:
  assumes "can_finish task s"
  shows "\<exists>s' did. ts_storePSIResult (\<lambda>_. False) ls s = (s', did, False) \<and>
    \<not> ts_taskDone s' \<and> ts_writer s' = Some ls \<and> ts_failedCount s' = 0 \<and> ts_callback s' \<and> ts_finalizeHandler s' \<and> tk_id (ts_task s') = task"
  using assms by (simp add: can_finish_def ts_storePSIResult_def Let_def)

lemma finish_completes:
  fixes w :: multi
  assumes "\<not> ts_taskDone (mu_heap w a)" and "ts_writer (mu_heap w a) = Some ls" and "ts_failedCount (mu_heap w a) = 0"
    and "ts_callback (mu_heap w a)" and "ts_finalizeHandler (mu_heap w a)" and "tk_id (ts_task (mu_heap w a)) = task"
  defines "r \<equiv> multi_finish (\<lambda>_. False) a w"
  shows "written (mu_heap (fst r) a) = ls \<and> mu_calculators (fst r) task = None \<and> mu_pendingTasks (fst r) task = None \<and>
    filter (is_answer a) (snd r) = [TaskOut a (Answer \<lparr>tr_taskID = task, tr_error = None, tr_status = COMPLETED\<rparr>)]"
  using assms(1-6) unfolding r_def
  by (simp add: multi_finish_def task_does_def onTaskFinished_def set_mtask_def mtask_def remove_task_def removeCalculator_def
      removePartner_def removeMaster_def guarder_removePendingTask_def written_def Let_def)

text \<open>The last batch: the lines are written, the task is answered as completed and leaves the tables.\<close>

lemma cal_last:
  fixes C :: Calculator and w :: multi
  assumes "cal_carries R (mu_box w) (ca_randomA C) task (s, j) m" and "mu_calculators w task = Some C"
    and "cal_receive R (s, j) (ca_cache C) = Inr c" and "shouldFinalize c" and "cc_receiveAllMasterCipher c"
    and "can_finish task (mu_heap w (ca_taskState C))" and "cc_intersectionResult c = []"
  defines "a \<equiv> ca_taskState C" and "r \<equiv> handlerPSIReceiveMessage (\<lambda>_. False) m w"
  shows "written (mu_heap (fst r) a) = finalize_loop c (cc_cipherRef c) [] \<and> mu_calculators (fst r) task = None \<and>
    mu_pendingTasks (fst r) task = None \<and>
    filter (is_answer a) (snd r) = [TaskOut a (Answer \<lparr>tr_taskID = task, tr_error = None, tr_status = COMPLETED\<rparr>)]"
proof -
  let ?ls = "finalize_loop c (cc_cipherRef c) []"
  let ?c = "releaseCipherCache (c\<lparr>cc_intersectionResult := ?ls\<rparr>)"
  obtain s' did where st: "ts_storePSIResult (\<lambda>_. False) ?ls (mu_heap w a) = (s', did, False)" "\<not> ts_taskDone s'"
    "ts_writer s' = Some ?ls" "ts_failedCount s' = 0" "ts_callback s'" "ts_finalizeHandler s'" "tk_id (ts_task s') = task"
    using store_lines [OF assms(6)] unfolding a_def by blast
  have [simp]: "cc_intersectionResult ?c = ?ls" by (simp add: releaseCipherCache_def)
  have fz: "tryToFinalize (\<lambda>_. False) (mu_selfParty w) a (mu_heap w a) c =
      (Done, ?c\<lparr>cc_cacheState := Stored\<rparr>, s',
       syncIntersections (mu_selfParty w) (ts_task (mu_heap w a)) ?c @ map (TaskOut a \<circ> Did) did)"
    using assms(4,7) st(1) by (simp add: tryToFinalize_def Let_def)
  have quiet: "filter (is_answer a) (map (TaskOut a \<circ> Did) did) = []" "filter (is_answer a) (multi_send ps t x q v) = []"
    "filter (is_answer a) (syncIntersections self tk cc) = []" for ps t x q v self tk cc
    by (simp_all add: filter_empty_conv multi_send_def syncIntersections_def Let_def)
  define w1 where "w1 = set_calculator task (C\<lparr>ca_cache := ?c\<lparr>cc_cacheState := Stored\<rparr>\<rparr>) (set_mtask a s' w)"
  have "mu_heap w1 a = s'" by (simp add: w1_def set_calculator_def set_mtask_def)
  then have fin: "written (mu_heap (fst (multi_finish (\<lambda>_. False) a w1)) a) = ?ls"
    "mu_calculators (fst (multi_finish (\<lambda>_. False) a w1)) task = None"
    "mu_pendingTasks (fst (multi_finish (\<lambda>_. False) a w1)) task = None"
    "filter (is_answer a) (snd (multi_finish (\<lambda>_. False) a w1)) =
       [TaskOut a (Answer \<lparr>tr_taskID = task, tr_error = None, tr_status = COMPLETED\<rparr>)]"
    using finish_completes [of w1 a ?ls task] st by simp_all
  have "fst r = fst (multi_finish (\<lambda>_. False) a w1) \<and> filter (is_answer a) (snd r) = filter (is_answer a) (snd (multi_finish (\<lambda>_. False) a w1))"
  proof (cases s)
    case True
    then have "r = cal_onReceiveIntersecCipher (\<lambda>_. False) m task C w"
      unfolding r_def using assms(1,2) by (simp add: handlerPSIReceiveMessage_def multi_packet_types cal_carries_def Let_def)
    moreover have "addIntersectionCipher (pm_data m) (pm_dataIndex m) (pm_seq m) (pm_dataBatchCount m) (ca_cache C) = Inr c"
      using assms(1,3) True by (simp add: cal_carries_def cal_receive_def seq_number_def Let_def)
    ultimately show ?thesis
      using fz unfolding w1_def a_def
      by (simp add: cal_onReceiveIntersecCipher_def split_beta quiet [unfolded a_def] Let_def)
  next
    case False
    then have "r = cal_onReceiveMasterCipher (\<lambda>_. False) m task C w"
      unfolding r_def using assms(1,2) by (simp add: handlerPSIReceiveMessage_def multi_packet_types cal_carries_def Let_def)
    moreover have "appendMasterCipher (map (\<lambda>x. cb_ecMultiply (mu_box w) x (ca_randomA C)) (pm_data m)) (pm_seq m)
        (pm_dataBatchCount m) (ca_cache C) = (True, c)"
      using assms(1,3,5) False
      by (auto simp: cal_carries_def cal_receive_def seq_number_def appendMasterCipher_def Let_def)
    ultimately show ?thesis
      using fz unfolding w1_def a_def
      by (simp add: cal_onReceiveMasterCipher_def split_beta quiet [unfolded a_def] Let_def)
  qed
  with fin show ?thesis by simp
qed

lemma calculator_run:
  fixes C :: Calculator and w :: multi
  assumes "good_cal R" and "mu_calculators w task = Some C" and "cal_ok R E (ca_cache C)" and "E \<subseteq> cal_batches R"
    and "can_finish task (mu_heap w (ca_taskState C))"
    and "distinct es" and "set es = cal_batches R - E" and "es \<noteq> []"
    and "list_all2 (cal_carries R (mu_box w) (ca_randomA C) task) es ms"
  defines "a \<equiv> ca_taskState C" and "r \<equiv> run_steps (handlerPSIReceiveMessage (\<lambda>_. False)) ms w"
  shows "(\<exists>c. cal_ok R (cal_batches R) c \<and> written (mu_heap (fst r) a) = finalize_loop c (cc_cipherRef c) []) \<and>
    mu_calculators (fst r) task = None \<and> mu_pendingTasks (fst r) task = None \<and>
    filter (is_answer a) (snd r) = [TaskOut a (Answer \<lparr>tr_taskID = task, tr_error = None, tr_status = COMPLETED\<rparr>)]"
  using assms(2-9) unfolding a_def r_def
proof (induction es arbitrary: E ms w C)
  case (Cons e es)
  obtain s j where e: "e = (s, j)" by (cases e)
  obtain m ms' where ms: "ms = m # ms'" "cal_carries R (mu_box w) (ca_randomA C) task (s, j) m"
    "list_all2 (cal_carries R (mu_box w) (ca_randomA C) task) es ms'"
    using Cons.prems(8) e by (auto simp: list_all2_Cons1)
  have new: "(s, j) \<in> cal_batches R - E" using Cons.prems(6) e by auto
  obtain c where c: "cal_receive R (s, j) (ca_cache C) = Inr c" "cal_ok R (insert (s, j) E) c"
    using cal_receive_ok [OF assms(1) Cons.prems(3) new Cons.prems(2)] by blast
  have E': "insert (s, j) E \<subseteq> cal_batches R" "set es = cal_batches R - insert (s, j) E"
    using Cons.prems(3,5,6) new e by auto
  show ?case
  proof (cases "es = []")
    case True
    then have all: "insert (s, j) E = cal_batches R" using E' by auto
    then have "shouldFinalize c" using should_finalize [OF assms(1) E'(1) c(2)] by blast
    moreover have "call False c" "cc_intersectionResult c = []"
      using c(2) unfolding all cal_ok_def ccomplete_def cal_batches_def by auto
    then have "cc_receiveAllMasterCipher c" "cc_intersectionResult c = []" by (simp_all add: call_def)
    ultimately have fin: "written (mu_heap (fst (handlerPSIReceiveMessage (\<lambda>_. False) m w)) (ca_taskState C)) = finalize_loop c (cc_cipherRef c) [] \<and>
        mu_calculators (fst (handlerPSIReceiveMessage (\<lambda>_. False) m w)) task = None \<and>
        mu_pendingTasks (fst (handlerPSIReceiveMessage (\<lambda>_. False) m w)) task = None \<and>
        filter (is_answer (ca_taskState C)) (snd (handlerPSIReceiveMessage (\<lambda>_. False) m w)) =
          [TaskOut (ca_taskState C) (Answer \<lparr>tr_taskID = task, tr_error = None, tr_status = COMPLETED\<rparr>)]"
      using Cons.prems(4) by (intro cal_last [OF ms(2) Cons.prems(1) c(1)])
    have one: "run_steps (handlerPSIReceiveMessage (\<lambda>_. False)) ms w = handlerPSIReceiveMessage (\<lambda>_. False) m w"
      using True ms(1,3) by (simp add: split_beta)
    have "cal_ok R (cal_batches R) c" using c(2) unfolding all .
    then show ?thesis unfolding one using fin by metis
  next
    case False
    then have "insert (s, j) E \<noteq> cal_batches R" using E'(2) by (metis Diff_cancel set_empty)
    then have nf: "\<not> shouldFinalize c" using should_finalize [OF assms(1) E'(1) c(2)] by blast
    let ?C = "C\<lparr>ca_cache := c\<rparr>"
    let ?w = "set_calculator task ?C w"
    note st = cal_step [OF ms(2) Cons.prems(1) c(1) nf, of "\<lambda>_. False"]
    have [simp]: "mu_heap ?w = mu_heap w" "mu_box ?w = mu_box w" "mu_calculators ?w task = Some ?C"
      by (simp_all add: set_calculator_def)
    have "list_all2 (cal_carries R (mu_box ?w) (ca_randomA ?C) task) es ms'" using ms(3) by simp
    moreover have "can_finish task (mu_heap ?w (ca_taskState ?C))" using Cons.prems(4) by simp
    moreover have "cal_ok R (insert (s, j) E) (ca_cache ?C)" using c(2) by simp
    ultimately have "(\<exists>c. cal_ok R (cal_batches R) c \<and>
          written (mu_heap (fst (run_steps (handlerPSIReceiveMessage (\<lambda>_. False)) ms' ?w)) (ca_taskState ?C)) = finalize_loop c (cc_cipherRef c) []) \<and>
        mu_calculators (fst (run_steps (handlerPSIReceiveMessage (\<lambda>_. False)) ms' ?w)) task = None \<and>
        mu_pendingTasks (fst (run_steps (handlerPSIReceiveMessage (\<lambda>_. False)) ms' ?w)) task = None \<and>
        filter (is_answer (ca_taskState ?C)) (snd (run_steps (handlerPSIReceiveMessage (\<lambda>_. False)) ms' ?w)) =
          [TaskOut (ca_taskState ?C) (Answer \<lparr>tr_taskID = task, tr_error = None, tr_status = COMPLETED\<rparr>)]"
      using Cons.prems(5) E' False by (intro Cons.IH [where E = "insert (s, j) E"]) auto
    then show ?thesis
      using ms(1) st by (simp add: run_steps_Cons del: run_steps.simps(2))
  qed
qed simp

lemma new_cache_ok:
  assumes "good_cal R" and "cc_cipherRef c = []" and "cc_receivedMasterCipher c = {}" and "cc_masterDataBatchSize c = 0"
    and "\<not> cc_receiveAllMasterCipher c" and "cc_receivedIntersections c = {}" and "\<not> cc_receiveAllIntersection c"
    and "cc_intersectionBatchCount c = 0" and "cc_cacheState c = Evaluating" and "cc_intersectionResult c = []"
    and "cc_plainData c = cn_plain R"
  shows "cal_ok R {} c"
proof -
  have n: "\<not> ccomplete R {} s" for s using cal_batches_pos [OF assms(1), of s] by (auto simp: ccomplete_def)
  have "carrived R {} = {}" by (simp add: carrived_def)
  then show ?thesis
    using assms n by (simp add: cal_ok_def cc_inv_def exact_def cc_count_def cc_closed_def index_table_def call_def cseqs_def ccount_def smap_ok_def)
qed

text \<open>
  The calculator, from an empty cache: every batch of the master's items and of the intersection arrives once, in any
  order. Then the lines written are the reference, and the task was answered once, as completed.
\<close>

theorem calculator_finalizes:
  fixes C :: Calculator and w :: multi
  assumes "good_cal R" and "mu_calculators w task = Some C" and "cal_ok R {} (ca_cache C)"
    and "can_finish task (mu_heap w (ca_taskState C))"
    and "distinct es" and "set es = cal_batches R"
    and "list_all2 (cal_carries R (mu_box w) (ca_randomA C) task) es ms"
  defines "a \<equiv> ca_taskState C" and "r \<equiv> run_steps (handlerPSIReceiveMessage (\<lambda>_. False)) ms w"
  shows "mset (written (mu_heap (fst r) a)) = mset (reference_lines R) \<and>
    ((\<exists>k. (k, 0) \<in> set (wanted R)) \<longrightarrow> hd (written (mu_heap (fst r) a)) = concat (cn_plain R) ! 0) \<and>
    filter (is_answer a) (snd r) = [TaskOut a (Answer \<lparr>tr_taskID = task, tr_error = None, tr_status = COMPLETED\<rparr>)]"
proof -
  have "(True, 0) \<in> cal_batches R" using cal_batches_pos [OF assms(1), of True] by (simp add: cal_batches_def)
  then have ne: "es \<noteq> []" using assms(6) by auto
  have E: "set es = cal_batches R - {}" using assms(6) by simp
  from calculator_run [OF assms(1-3) empty_subsetI assms(4,5) E ne assms(7)]
  obtain c where c: "cal_ok R (cal_batches R) c" "written (mu_heap (fst r) a) = finalize_loop c (cc_cipherRef c) []"
    "filter (is_answer a) (snd r) = [TaskOut a (Answer \<lparr>tr_taskID = task, tr_error = None, tr_status = COMPLETED\<rparr>)]"
    unfolding a_def r_def by blast
  have "(\<exists>k. (k, 0) \<in> set (wanted R)) \<Longrightarrow> hd (written (mu_heap (fst r) a)) = concat (cn_plain R) ! 0"
    using finalize_header [OF assms(1) c(1)] unfolding c(2) by blast
  with finalize_lines [OF assms(1) c(1)] c(2,3) show ?thesis by simp
qed

end
