(* ===== verification/MultiResult.thy ===== *)
theory MultiResult
  imports MultiCalculator
begin

text \<open>
  Multi-party ECDH-PSI end to end: the services of the calculator, of the master and of the partners run their
  tasks, every message that is sent arrives once and in any order, and the calculator writes the items that all
  parties have.
\<close>

section \<open>Blinding\<close>

text \<open>What the loop of a \<open>blindData\<close> sends to a single receiver; \<open>k\<close> batches were sent before.\<close>

definition blind_output ::
  "(nat \<Rightarrow> bytes list \<Rightarrow> PSIMessage) \<Rightarrow> bytes \<Rightarrow> nat \<Rightarrow> nat \<Rightarrow> bytes list list \<Rightarrow> taddr \<Rightarrow> multi \<Rightarrow> psi_out list" where
  "blind_output mk r k off batches a w =
     map (\<lambda>j. SendPSI r (tk_id (mtask w a))
                (generatePPCMsg (mu_selfParty w)
                   ((mk (off + batch_offset batches j) (batches ! j))
                      \<lparr>pm_from := pa_id (tk_selfParty (mtask w a)),
                       pm_dataBatchCount := (if j + 1 = length batches then of_nat (k + length batches) else 0)\<rparr>))
                (seqof (k + j)))
         [0..<length batches]"

definition can_blind :: "nat \<Rightarrow> TaskState \<Rightarrow> bool" where
  "can_blind k s \<longleftrightarrow> \<not> ts_finished s \<and> \<not> ts_taskDone s \<and> \<not> ts_sqlReader s \<and> ts_currentSeq s = of_nat k \<and> ts_seqList s = seqof ` {..<k}"

definition blind_step :: "taddr \<Rightarrow> (bytes list \<Rightarrow> multi \<Rightarrow> multi) \<Rightarrow> bytes list \<Rightarrow> bytes list list \<Rightarrow> multi \<Rightarrow> multi" where
  "blind_step a keep batch rest w =
     keep batch ((set_mtask a (snd (allocateSeq (mu_heap w a))) w)\<lparr>mu_reader := (mu_reader w)(a := rest)\<rparr>)"

lemma can_blind_next:
  assumes "can_blind k s" and "k + 1 < 2 ^ 16"
  shows "can_blind (k + 1) (snd (allocateSeq s))" "fst (allocateSeq s) = seqof k"
    "card (ts_seqList (snd (allocateSeq s))) = k + 1"
proof -
  have q: "ts_seqList (snd (allocateSeq s)) = seqof ` {..<k + 1}"
    using assms(1) by (auto simp: can_blind_def allocateSeq_def Let_def seqof_def add.commute lessThan_Suc)
  then show "can_blind (k + 1) (snd (allocateSeq s))" "fst (allocateSeq s) = seqof k"
    using assms(1) by (simp_all add: can_blind_def allocateSeq_def Let_def seqof_def add.commute)
  show "card (ts_seqList (snd (allocateSeq s))) = k + 1"
    unfolding q using assms(2) by (subst card_image [OF inj_on_seqof]) auto
qed

lemma batch_offset_Cons [simp]: "batch_offset bs 0 = 0" "batch_offset (b # bs) (Suc j) = length b + batch_offset bs j"
  by (simp_all add: batch_offset_def)

lemma blind_output_Cons:
  "blind_output mk r k off (b # bs) a w =
     SendPSI r (tk_id (mtask w a))
       (generatePPCMsg (mu_selfParty w)
          ((mk off b)\<lparr>pm_from := pa_id (tk_selfParty (mtask w a)), pm_dataBatchCount := (if bs = [] then of_nat (k + 1) else 0)\<rparr>))
       (seqof k) # blind_output mk r (k + 1) (off + length b) bs a w"
proof -
  have "[0..<length (b # bs)] = 0 # map Suc [0..<length bs]" by (simp add: upt_conv_Cons map_Suc_upt del: upt_Suc)
  then show ?thesis by (simp add: blind_output_def comp_def add.assoc del: upt_Suc)
qed

lemma blind_loop_Cons:
  assumes "can_blind k (mu_heap w a)" and "k + 1 < 2 ^ 16" and "\<And>w. mu_selfParty (keep b w) = mu_selfParty w"
  shows "multi_blind_loop a mk keep [r] (b # bs) off w =
    (let (w2, outs) = multi_blind_loop a mk keep [r] bs (off + length b) (blind_step a keep b bs w)
     in (w2, SendPSI r (tk_id (mtask w a))
       (generatePPCMsg (mu_selfParty w)
          ((mk off b)\<lparr>pm_from := pa_id (tk_selfParty (mtask w a)), pm_dataBatchCount := (if bs = [] then of_nat (k + 1) else 0)\<rparr>))
       (seqof k) # outs))"
  using assms can_blind_next [OF assms(1,2)]
  by (subst multi_blind_loop.simps)
    (simp add: can_blind_def blind_step_def multi_send_def mtask_def set_mtask_def split_beta Let_def)

lemma blind_loop_Nil:
  "can_blind k (mu_heap w a) \<Longrightarrow>
   multi_blind_loop a mk keep [r] [] off w = (set_mtask a ((mu_heap w a)\<lparr>ts_finished := True\<rparr>) w, [])"
  by (subst multi_blind_loop.simps) (simp add: can_blind_def)

lemma blind_step_simps:
  assumes "\<And>w. mu_selfParty (keep b w) = mu_selfParty w" and "\<And>w. mu_heap (keep b w) = mu_heap w"
  shows "mu_selfParty (blind_step a keep b bs w) = mu_selfParty w" "mtask (blind_step a keep b bs w) x = mtask w x"
    "mu_heap (blind_step a keep b bs w) a = snd (allocateSeq (mu_heap w a))"
  using assms by (simp_all add: blind_step_def set_mtask_def mtask_def allocateSeq_def Let_def)

lemma blind_loop_run:
  assumes "can_blind k (mu_heap w a)" and "k + length batches < 2 ^ 16"
    and "\<And>b w. mu_selfParty (keep b w) = mu_selfParty w" and "\<And>b w. mu_heap (keep b w) = mu_heap w"
  shows "snd (multi_blind_loop a mk keep [r] batches off w) = blind_output mk r k off batches a w"
  using assms(1,2)
proof (induction batches arbitrary: k off w)
  case Nil
  then show ?case by (simp add: blind_loop_Nil blind_output_def)
next
  case (Cons b bs)
  have k: "k + 1 < 2 ^ 16" "(k + 1) + length bs < 2 ^ 16" using Cons.prems(2) by simp_all
  note st = blind_step_simps [of keep b, OF assms(3,4)]
  have "can_blind (k + 1) (mu_heap (blind_step a keep b bs w) a)"
    unfolding st(3) by (rule can_blind_next(1) [OF Cons.prems(1) k(1)])
  from Cons.IH [OF this k(2), of "off + length b"] show ?case
    unfolding blind_loop_Cons [OF Cons.prems(1) k(1) assms(3)] blind_output_Cons
    by (simp add: split_beta blind_output_def st)
qed

lemma blind_loop_inv:
  assumes "can_blind k (mu_heap w a)" and "k + length batches < 2 ^ 16"
    and "\<And>b w. mu_selfParty (keep b w) = mu_selfParty w" and "\<And>b w. mu_heap (keep b w) = mu_heap w"
    and step: "\<And>before b rest w. P before w \<Longrightarrow> P (before @ [b]) (blind_step a keep b rest w)"
    and last: "\<And>before w. P before w \<Longrightarrow> P before (set_mtask a ((mu_heap w a)\<lparr>ts_finished := True\<rparr>) w)"
    and "P before w"
  shows "P (before @ batches) (fst (multi_blind_loop a mk keep [r] batches off w))"
  using assms(1,2,7)
proof (induction batches arbitrary: k off w before)
  case Nil
  then show ?case by (simp add: blind_loop_Nil last)
next
  case (Cons b bs)
  have k: "k + 1 < 2 ^ 16" "(k + 1) + length bs < 2 ^ 16" using Cons.prems(2) by simp_all
  have "can_blind (k + 1) (mu_heap (blind_step a keep b bs w) a)"
    unfolding blind_step_simps(3) [of keep b, OF assms(3,4)] by (rule can_blind_next(1) [OF Cons.prems(1) k(1)])
  from Cons.IH [OF this k(2) step [OF Cons.prems(3)], of "off + length b"] show ?case
    unfolding blind_loop_Cons [OF Cons.prems(1) k(1) assms(3)] by (simp add: split_beta)
qed

lemma keep_plain_simps [simp]:
  "mu_selfParty (keep_plain task b w) = mu_selfParty w" "mu_heap (keep_plain task b w) = mu_heap w"
  "mu_box (keep_plain task b w) = mu_box w"
  by (simp_all add: keep_plain_def set_calculator_def split: option.splits)

lemma can_finish_allocate [simp]: "can_finish task (snd (allocateSeq s)) = can_finish task s"
  "can_finish task (s\<lparr>ts_finished := f\<rparr>) = can_finish task s"
  by (simp_all add: can_finish_def allocateSeq_def Let_def)

lemma cal_blind_state:
  fixes C :: Calculator and w :: multi
  assumes "mu_calculators w task = Some C" and "can_finish task (mu_heap w (ca_taskState C))" and "can_blind 0 (mu_heap w (ca_taskState C))"
    and "length (mu_reader w (ca_taskState C)) < 2 ^ 16" and "ca_masterParties C = [r]" and "cc_plainData (ca_cache C) = []"
  defines "a \<equiv> ca_taskState C" and "w' \<equiv> fst (cal_blindData task C w)"
  shows "mu_calculators w' task = Some (C\<lparr>ca_cache := (ca_cache C)\<lparr>cc_plainData := mu_reader w a\<rparr>\<rparr>) \<and>
    can_finish task (mu_heap w' a) \<and> mu_box w' = mu_box w"
proof -
  define P where "P before v \<longleftrightarrow>
      mu_calculators v task = Some (C\<lparr>ca_cache := (ca_cache C)\<lparr>cc_plainData := before\<rparr>\<rparr>) \<and> can_finish task (mu_heap v a) \<and> mu_box v = mu_box w"
    for before and v :: multi
  have "P ([] @ mu_reader w a) (fst (multi_blind_loop a (cal_message (mu_box w) (ca_randomA C)) (keep_plain task) [r] (mu_reader w a) 0 w))"
  proof (rule blind_loop_inv [where k = 0])
    fix before b rest v
    assume "P before v"
    then show "P (before @ [b]) (blind_step a (keep_plain task) b rest v)"
      by (simp add: P_def blind_step_def set_mtask_def keep_plain_def set_calculator_def appendPlainData_def)
  next
    fix before v
    assume "P before v"
    then show "P before (set_mtask a ((mu_heap v a)\<lparr>ts_finished := True\<rparr>) v)" by (simp add: P_def set_mtask_def)
  qed (use assms in \<open>simp_all add: P_def\<close>)
  then show ?thesis unfolding P_def w'_def cal_blindData_def assms(5) a_def by simp
qed

lemma master_blind_state:
  fixes M :: Master and w :: multi
  assumes "can_blind 0 (mu_heap w (ma_taskState M))" and "length (mu_reader w (ma_taskState M)) < 2 ^ 16" and "ma_calculatorParties M = [r]"
  defines "w' \<equiv> fst (master_blindData M w)"
  shows "mu_masters w' = mu_masters w \<and> mtask w' = mtask w \<and> mu_box w' = mu_box w \<and> mu_selfParty w' = mu_selfParty w \<and>
    mu_dataBatchSize w' = mu_dataBatchSize w"
proof -
  let ?a = "ma_taskState M"
  define P where "P before v \<longleftrightarrow> mu_masters v = mu_masters w \<and> mtask v = mtask w \<and> mu_box v = mu_box w \<and>
      mu_selfParty v = mu_selfParty w \<and> mu_dataBatchSize v = mu_dataBatchSize w" for before :: "bytes list list" and v :: multi
  have "P ([] @ mu_reader w ?a) (fst (multi_blind_loop ?a (master_message (mu_box w) (ma_randomB M)) (\<lambda>_ w. w) [r] (mu_reader w ?a) 0 w))"
  proof (rule blind_loop_inv [where k = 0])
    fix before b rest v
    assume "P before v"
    then show "P (before @ [b]) (blind_step ?a (\<lambda>_ w. w) b rest v)"
      by (auto simp: P_def blind_step_def set_mtask_def mtask_def allocateSeq_def fun_eq_iff Let_def)
  next
    fix before v
    assume "P before v"
    then show "P before (set_mtask ?a ((mu_heap v ?a)\<lparr>ts_finished := True\<rparr>) v)"
      by (auto simp: P_def set_mtask_def mtask_def fun_eq_iff)
  qed (use assms in \<open>simp_all add: P_def\<close>)
  then show ?thesis unfolding P_def w'_def master_blindData_def assms(3) by simp
qed

section \<open>The parties\<close>

text \<open>A calculator, a master, at least one partner; the two random scalars; the data of every party in batches.\<close>

record multi_net =
  nt_task :: bytes
  nt_cal :: bytes
  nt_master :: bytes
  nt_partners :: "bytes list"
  nt_box :: CryptoBox
  nt_a :: bytes
  nt_b :: bytes
  nt_data :: "bytes \<Rightarrow> bytes list list"

definition parties :: "multi_net \<Rightarrow> bytes list" where
  "parties N = nt_cal N # nt_master N # nt_partners N"

definition role_of :: "multi_net \<Rightarrow> bytes \<Rightarrow> u16" where
  "role_of N p = (if p = nt_cal N then PartiesType_Calculator else if p = nt_master N then PartiesType_Master else PartiesType_Partner)"

definition good_net :: "multi_net \<Rightarrow> bool" where
  "good_net N \<longleftrightarrow> distinct (parties N) \<and> nt_partners N \<noteq> [] \<and> length (nt_partners N) \<le> 30 \<and>
     length (concat (nt_data N (nt_cal N))) < 2 ^ 31 \<and>
     (\<forall>p \<in> set (parties N). nt_data N p \<noteq> [] \<and> length (nt_data N p) < 2 ^ 16 \<and> distinct (concat (nt_data N p)))"

text \<open>What a party is configured with, and its service: the task names the others with their roles.\<close>

definition party_ready :: "multi_net \<Rightarrow> bytes \<Rightarrow> Task \<Rightarrow> multi \<Rightarrow> bool" where
  "party_ready N self task w \<longleftrightarrow>
     mu_selfParty w = self \<and> mu_box w = nt_box N \<and> tk_id task = nt_task N \<and> pa_id (tk_selfParty task) = self \<and>
     pa_partyIndex (tk_selfParty task) = role_of N self \<and>
     (case pa_dataResource (tk_selfParty task) of None \<Rightarrow> False | Some r \<Rightarrow> dr_rawData r = []) \<and>
     distinct (map fst (tk_peerParties task)) \<and> set (map fst (tk_peerParties task)) = set (parties N) - {self} \<and>
     (\<forall>(p, r) \<in> set (tk_peerParties task). pa_partyIndex r = role_of N p)"

definition run_task :: "multi_net \<Rightarrow> bytes \<Rightarrow> Task \<Rightarrow> multi \<Rightarrow> multi \<times> psi_out list" where
  "run_task N self task w =
     multi_asyncRunTask (\<lambda>_. False) False (Inr (False, nt_data N self)) None (if self = nt_cal N then nt_a N else nt_b N) task w"

lemma roles_distinct: "PartiesType_Calculator \<noteq> PartiesType_Partner" "PartiesType_Calculator \<noteq> PartiesType_Master"
  "PartiesType_Partner \<noteq> PartiesType_Master"
  by (simp_all add: PartiesType_Calculator_def PartiesType_Partner_def PartiesType_Master_def)

lemma singleton_list:
  assumes "distinct xs" and "set xs = {x}"
  shows "xs = [x]"
proof -
  have "length xs = 1" using distinct_card [OF assms(1)] assms(2) by simp
  then obtain y where "xs = [y]" by (auto simp: length_Suc_conv)
  with assms(2) show ?thesis by simp
qed

lemma parties_of_type_set:
  assumes "party_ready N self task w"
  shows "set (parties_of_type k task) = {p \<in> set (parties N) - {self}. role_of N p = k}" "distinct (parties_of_type k task)"
proof -
  have r: "set (map fst (tk_peerParties task)) = set (parties N) - {self}" "distinct (map fst (tk_peerParties task))"
    "\<forall>(p, r) \<in> set (tk_peerParties task). pa_partyIndex r = role_of N p" using assms by (simp_all add: party_ready_def)
  have "set (parties_of_type k task) = {p \<in> set (map fst (tk_peerParties task)). role_of N p = k}"
    using r(3) by (force simp: parties_of_type_def)
  then show "set (parties_of_type k task) = {p \<in> set (parties N) - {self}. role_of N p = k}" unfolding r(1) .
  show "distinct (parties_of_type k task)" using r(2) by (simp add: parties_of_type_def distinct_map_filter)
qed

lemma role_of_iff:
  "role_of N p = PartiesType_Calculator \<longleftrightarrow> p = nt_cal N" "role_of N p = PartiesType_Master \<longleftrightarrow> p = nt_master N \<and> p \<noteq> nt_cal N"
  "role_of N p = PartiesType_Partner \<longleftrightarrow> p \<noteq> nt_cal N \<and> p \<noteq> nt_master N"
  using roles_distinct by (auto simp: role_of_def)

lemma the_master:
  assumes "good_net N" and "party_ready N self task w" and "self \<noteq> nt_master N"
  shows "parties_of_type PartiesType_Master task = [nt_master N]"
proof (rule singleton_list [OF parties_of_type_set(2) [OF assms(2)]])
  have "nt_master N \<noteq> nt_cal N" using assms(1) by (auto simp: good_net_def parties_def)
  then show "set (parties_of_type PartiesType_Master task) = {nt_master N}"
    unfolding parties_of_type_set(1) [OF assms(2)] role_of_iff using assms(3) by (auto simp: parties_def)
qed

lemma the_calculator:
  assumes "party_ready N self task w" and "self \<noteq> nt_cal N"
  shows "parties_of_type PartiesType_Calculator task = [nt_cal N]"
proof (rule singleton_list [OF parties_of_type_set(2) [OF assms(1)]])
  show "set (parties_of_type PartiesType_Calculator task) = {nt_cal N}"
    unfolding parties_of_type_set(1) [OF assms(1)] role_of_iff using assms(2) by (auto simp: parties_def)
qed

lemma peer_count:
  assumes "good_net N" and "party_ready N self task w" and "self \<in> set (parties N)"
  shows "length (tk_peerParties task) = length (nt_partners N) + 1"
proof -
  have "length (map fst (tk_peerParties task)) = card (set (parties N) - {self})"
    using assms(2) distinct_card [of "map fst (tk_peerParties task)"] by (simp add: party_ready_def)
  moreover have "card (set (parties N)) = length (nt_partners N) + 2"
    using assms(1) distinct_card [of "parties N"] by (simp add: good_net_def) (simp add: parties_def)
  ultimately show ?thesis using assms(3) by simp
qed

text \<open>What running the task leaves behind, role by role.\<close>

definition new_calculator :: "multi_net \<Rightarrow> Task \<Rightarrow> multi \<Rightarrow> Calculator" where
  "new_calculator N task w =
     \<lparr>ca_taskState = mu_next w, ca_randomA = nt_a N, ca_calculatorParties = parties_of_type PartiesType_Calculator task,
      ca_partnerParties = parties_of_type PartiesType_Partner task, ca_masterParties = parties_of_type PartiesType_Master task,
      ca_cache = new_CalculatorCache (sync_here (mu_selfParty w) task)\<rparr>"

definition new_master :: "multi_net \<Rightarrow> Task \<Rightarrow> multi \<Rightarrow> Master" where
  "new_master N task w =
     \<lparr>ma_taskState = mu_next w, ma_syncResult = sync_here (mu_selfParty w) task, ma_randomB = nt_b N,
      ma_calculatorParties = parties_of_type PartiesType_Calculator task,
      ma_partnerParties = parties_of_type PartiesType_Partner task,
      ma_masterParties = parties_of_type PartiesType_Master task, ma_cache = new_MasterCache task\<rparr>"

definition new_partner :: "Task \<Rightarrow> multi \<Rightarrow> Partner" where
  "new_partner task w =
     \<lparr>pt_taskState = mu_next w, pt_syncResult = sync_here (mu_selfParty w) task,
      pt_calculatorParties = parties_of_type PartiesType_Calculator task,
      pt_partnerParties = parties_of_type PartiesType_Partner task, pt_masterParties = parties_of_type PartiesType_Master task\<rparr>"

definition started_state :: "multi_net \<Rightarrow> bytes \<Rightarrow> Task \<Rightarrow> multi \<Rightarrow> multi \<Rightarrow> bool" where
  "started_state N self task w w' \<longleftrightarrow>
     mtask w' (mu_next w) = task \<and> can_blind 0 (mu_heap w' (mu_next w)) \<and> mu_reader w' (mu_next w) = nt_data N self \<and>
     mu_box w' = mu_box w \<and> mu_selfParty w' = mu_selfParty w \<and> mu_dataBatchSize w' = mu_dataBatchSize w"

lemma run_task_role:
  assumes "good_net N" and "party_ready N self task w" and "self \<in> set (parties N)"
  defines "a \<equiv> mu_next w"
  defines "w1 \<equiv> (set_mtask a ((new_TaskState task False True)\<lparr>ts_notifyPeerFinishHandler := True, ts_finalizeHandler := True,
        ts_reader := True, ts_sqlReader := False\<rparr>)
      (addPendingTask a ((set_mtask a ((new_TaskState task False True)\<lparr>ts_notifyPeerFinishHandler := True, ts_finalizeHandler := True\<rparr>) w)
        \<lparr>mu_next := a + 1\<rparr>)))\<lparr>mu_reader := (mu_reader w)(a := nt_data N self)\<rparr>"
  shows "run_task N self task w =
    (case start_role None (if self = nt_cal N then nt_a N else nt_b N) a w1 of
       Inl e \<Rightarrow> onSelfError (\<lambda>_. False) (tk_id task) e True w1
     | Inr (w2, outs) \<Rightarrow> (w2, outs @ [NotifyTaskInfo (tk_id task)]))"
proof -
  have n: "length (tk_peerParties task) \<le> c_max_peer_size"
    using peer_count [OF assms(1-3)] assms(1) by (simp add: good_net_def c_max_peer_size_def)
  obtain r where r: "pa_dataResource (tk_selfParty task) = Some r" "dr_rawData r = []"
    using assms(2) by (auto simp: party_ready_def split: option.splits)
  show ?thesis
    unfolding run_task_def multi_asyncRunTask_def w1_def a_def Let_def
    using n r by (simp add: split_beta addPendingTask_def set_mtask_def Let_def split: sum.splits)
qed

lemma run_calculator:
  fixes w :: multi
  assumes "good_net N" and "party_ready N (nt_cal N) task w"
  defines "r \<equiv> run_task N (nt_cal N) task w"
  shows "mu_calculators (fst r) (nt_task N) = Some (new_calculator N task w) \<and> started_state N (nt_cal N) task w (fst r) \<and>
    can_finish (nt_task N) (mu_heap (fst r) (mu_next w)) \<and> mu_jobs (fst r) = mu_jobs w @ [BlindCalculator (mu_next w)] \<and>
    snd r = generateRandomA (nt_a N) task w @ [NotifyTaskInfo (nt_task N)]"
proof -
  have i: "nt_cal N \<in> set (parties N)" by (simp add: parties_def)
  have t: "tk_id task = nt_task N" "pa_partyIndex (tk_selfParty task) = PartiesType_Calculator"
    using assms(2) by (simp_all add: party_ready_def role_of_def)
  show ?thesis
    unfolding r_def run_task_role [OF assms(1,2) i] using t
    by (simp add: start_role_def open_writer_def start_calculator_def new_calculator_def started_state_def can_finish_def can_blind_def
        set_calculator_def set_mtask_def mtask_def addPendingTask_def new_TaskState_def generateRandomA_def multi_send_def Let_def)
qed

lemma run_master:
  fixes w :: multi
  assumes "good_net N" and "party_ready N (nt_master N) task w"
  defines "r \<equiv> run_task N (nt_master N) task w"
  shows "mu_masters (fst r) (nt_task N) = Some (new_master N task w) \<and> started_state N (nt_master N) task w (fst r) \<and>
    mu_jobs (fst r) = mu_jobs w @ [BlindMaster (mu_next w)]"
proof -
  have i: "nt_master N \<in> set (parties N)" by (simp add: parties_def)
  have d: "nt_master N \<noteq> nt_cal N" using assms(1) by (auto simp: good_net_def parties_def)
  have t: "tk_id task = nt_task N" "pa_partyIndex (tk_selfParty task) = PartiesType_Master"
    using assms(2) d by (simp_all add: party_ready_def role_of_def)
  show ?thesis
    unfolding r_def run_task_role [OF assms(1,2) i] using t d roles_distinct
    by (simp add: start_role_def open_writer_def start_master_def new_master_def started_state_def can_blind_def
        set_master_def set_mtask_def mtask_def addPendingTask_def new_TaskState_def Let_def)
qed

lemma run_partner:
  fixes w :: multi
  assumes "good_net N" and "party_ready N p task w" and "p \<in> set (nt_partners N)"
  defines "r \<equiv> run_task N p task w"
  shows "mu_partners (fst r) (nt_task N) = Some (new_partner task w) \<and> started_state N p task w (fst r)"
proof -
  have i: "p \<in> set (parties N)" using assms(3) by (simp add: parties_def)
  have d: "p \<noteq> nt_cal N" "p \<noteq> nt_master N" using assms(1,3) by (auto simp: good_net_def parties_def)
  have t: "tk_id task = nt_task N" "pa_partyIndex (tk_selfParty task) = PartiesType_Partner"
    using assms(2) d by (simp_all add: party_ready_def role_of_def)
  show ?thesis
    unfolding r_def run_task_role [OF assms(1,2) i] using t d roles_distinct
    by (simp add: start_role_def open_writer_def start_partner_def new_partner_def started_state_def can_blind_def
        set_mtask_def mtask_def addPendingTask_def new_TaskState_def Let_def)
qed

section \<open>The protocol\<close>

text \<open>
  A message that was sent, as it arrives: the transport gives the sender, the task and 16 bits of the sequence number
  (the conversion in \<open>executeWorker\<close>).
\<close>

fun arrive :: "bytes \<Rightarrow> bytes \<Rightarrow> psi_out \<Rightarrow> PSIMessage list" where
  "arrive sender receiver (SendPSI p t m q) =
     (if p = receiver then [m\<lparr>pm_from := sender, pm_taskID := t, pm_seq := wire_seq q\<rparr>] else [])"
| "arrive sender receiver _ = []"

definition arrivals :: "bytes \<Rightarrow> bytes \<Rightarrow> psi_out list \<Rightarrow> PSIMessage list" where
  "arrivals sender receiver outs = concat (map (arrive sender receiver) outs)"

abbreviation handle :: "PSIMessage list \<Rightarrow> multi \<Rightarrow> multi \<times> psi_out list" where
  "handle \<equiv> run_steps (handlerPSIReceiveMessage (\<lambda>_. False))"

text \<open>
  Every party runs its task; the pool runs the blinding of the calculator and of the master, the partners blind when
  the random scalar arrives. Then the master handles what arrives at it in the order \<open>ms\<close>, and the calculator what
  arrives there.
\<close>

definition started :: "multi_net \<Rightarrow> (bytes \<Rightarrow> Task) \<Rightarrow> (bytes \<Rightarrow> multi) \<Rightarrow> bytes \<Rightarrow> multi \<times> psi_out list" where
  "started N ts ws p = run_task N p (ts p) (ws p)"

definition blinded :: "multi_net \<Rightarrow> (bytes \<Rightarrow> Task) \<Rightarrow> (bytes \<Rightarrow> multi) \<Rightarrow> bytes \<Rightarrow> multi \<times> psi_out list" where
  "blinded N ts ws p =
     (if p \<in> set (nt_partners N) then handle (arrivals (nt_cal N) p (snd (started N ts ws (nt_cal N)))) (fst (started N ts ws p))
      else multi_run_job (\<lambda>_. False) (length (mu_jobs (ws p))) (fst (started N ts ws p)))"

definition to_master :: "multi_net \<Rightarrow> (bytes \<Rightarrow> Task) \<Rightarrow> (bytes \<Rightarrow> multi) \<Rightarrow> PSIMessage list" where
  "to_master N ts ws = concat (map (\<lambda>p. arrivals p (nt_master N) (snd (blinded N ts ws p))) (nt_cal N # nt_partners N))"

definition intersected :: "multi_net \<Rightarrow> (bytes \<Rightarrow> Task) \<Rightarrow> (bytes \<Rightarrow> multi) \<Rightarrow> PSIMessage list \<Rightarrow> multi \<times> psi_out list" where
  "intersected N ts ws ms = handle ms (fst (blinded N ts ws (nt_master N)))"

definition to_calculator :: "multi_net \<Rightarrow> (bytes \<Rightarrow> Task) \<Rightarrow> (bytes \<Rightarrow> multi) \<Rightarrow> PSIMessage list \<Rightarrow> PSIMessage list" where
  "to_calculator N ts ws ms =
     arrivals (nt_master N) (nt_cal N) (snd (blinded N ts ws (nt_master N)) @ snd (intersected N ts ws ms))"

definition finalized :: "multi_net \<Rightarrow> (bytes \<Rightarrow> Task) \<Rightarrow> (bytes \<Rightarrow> multi) \<Rightarrow> PSIMessage list \<Rightarrow> multi \<times> psi_out list" where
  "finalized N ts ws ms = handle ms (fst (blinded N ts ws (nt_cal N)))"

definition all_ready :: "multi_net \<Rightarrow> (bytes \<Rightarrow> Task) \<Rightarrow> (bytes \<Rightarrow> multi) \<Rightarrow> bool" where
  "all_ready N ts ws \<longleftrightarrow> (\<forall>p \<in> set (parties N). party_ready N p (ts p) (ws p))"

text \<open>The run as the master sees it.\<close>

definition net_run :: "multi_net \<Rightarrow> Task \<Rightarrow> master_run" where
  "net_run N task = \<lparr>mn_peers = map fst (tk_peerParties task), mn_cal = nt_cal N,
                     mn_data = (\<lambda>p. map (map (blind_item (nt_box N) (nt_a N))) (nt_data N p))\<rparr>"

lemma batch_offset_map [simp]: "batch_offset (map (map f) bs) j = batch_offset bs j"
  by (simp add: batch_offset_def take_map map_concat [symmetric])

lemma generatePPCMsg_keeps [simp]:
  "pm_packetType (generatePPCMsg self m) = pm_packetType m" "pm_data (generatePPCMsg self m) = pm_data m"
  "pm_dataIndex (generatePPCMsg self m) = pm_dataIndex m" "pm_dataBatchCount (generatePPCMsg self m) = pm_dataBatchCount m"
  by (simp_all add: generatePPCMsg_def)

lemma arrivals_blind:
  "arrivals sender r (blind_output mk r k off batches a w) =
     map (\<lambda>j. (generatePPCMsg (mu_selfParty w)
                ((mk (off + batch_offset batches j) (batches ! j))
                   \<lparr>pm_from := pa_id (tk_selfParty (mtask w a)),
                    pm_dataBatchCount := (if j + 1 = length batches then of_nat (k + length batches) else 0)\<rparr>))
              \<lparr>pm_from := sender, pm_taskID := tk_id (mtask w a), pm_seq := wire_seq (seqof (k + j))\<rparr>)
         [0..<length batches]"
proof -
  have "concat (map (\<lambda>x. [f x]) xs) = map f xs" for f :: "nat \<Rightarrow> PSIMessage" and xs by (induction xs) simp_all
  then show ?thesis by (simp add: arrivals_def blind_output_def comp_def)
qed

subsection \<open>What the calculator and the partners send\<close>

lemma cal_blinded:
  fixes w :: multi
  assumes "good_net N" and "party_ready N (nt_cal N) (ts (nt_cal N)) (ws (nt_cal N))"
  defines "w \<equiv> ws (nt_cal N)" and "task \<equiv> ts (nt_cal N)" and "r \<equiv> blinded N ts ws (nt_cal N)"
  shows "mu_calculators (fst r) (nt_task N) =
      Some ((new_calculator N task w)\<lparr>ca_cache := (ca_cache (new_calculator N task w))\<lparr>cc_plainData := nt_data N (nt_cal N)\<rparr>\<rparr>) \<and>
    can_finish (nt_task N) (mu_heap (fst r) (mu_next w)) \<and> mu_box (fst r) = nt_box N \<and>
    list_all2 (carries (net_run N mt) (nt_task N)) (map (Pair (nt_cal N)) [0..<length (nt_data N (nt_cal N))])
      (arrivals (nt_cal N) (nt_master N) (snd r))"
proof -
  let ?a = "mu_next w" and ?C = "new_calculator N task w" and ?bs = "nt_data N (nt_cal N)"
  define w1 where "w1 = fst (run_task N (nt_cal N) task w)"
  define w2 where "w2 = w1\<lparr>mu_jobs := mu_jobs w\<rparr>"
  have d: "nt_cal N \<notin> set (nt_partners N)" "nt_master N \<noteq> nt_cal N" "length ?bs < 2 ^ 16" "?bs \<noteq> []"
    using assms(1) by (auto simp: good_net_def parties_def)
  have ready: "party_ready N (nt_cal N) task w" using assms(2) by (simp add: w_def task_def)
  have t: "tk_id task = nt_task N" "mu_box w = nt_box N" "mu_selfParty w = nt_cal N" using ready by (simp_all add: party_ready_def)
  have s: "mu_calculators w1 (nt_task N) = Some ?C" "started_state N (nt_cal N) task w w1"
    "can_finish (nt_task N) (mu_heap w1 ?a)" "mu_jobs w1 = mu_jobs w @ [BlindCalculator ?a]"
    using run_calculator [OF assms(1) ready] by (simp_all add: w1_def)
  then have r: "r = cal_blindData (nt_task N) ?C w2"
    using d(1) t(1) unfolding r_def blinded_def started_def multi_run_job_def w_def [symmetric] task_def [symmetric]
    by (simp add: w1_def [symmetric] w2_def nth_append started_state_def new_calculator_def mtask_def)
  have m: "ca_masterParties ?C = [nt_master N]" "ca_taskState ?C = ?a" "ca_randomA ?C = nt_a N" "cc_plainData (ca_cache ?C) = []"
    using the_master [OF assms(1) ready] d(2) by (simp_all add: new_calculator_def new_CalculatorCache_def)
  have w2: "mu_calculators w2 (nt_task N) = Some ?C" "can_finish (nt_task N) (mu_heap w2 ?a)" "can_blind 0 (mu_heap w2 ?a)"
    "mu_reader w2 ?a = ?bs" "mu_box w2 = nt_box N" "mtask w2 ?a = task"
    using s t by (simp_all add: w2_def started_state_def mtask_def)
  have "snd r = blind_output (cal_message (nt_box N) (nt_a N)) (nt_master N) 0 0 ?bs ?a w2"
    unfolding r cal_blindData_def m(1-3) w2(4,5)
    using d(3) w2(3) by (intro blind_loop_run) simp_all
  then have "list_all2 (carries (net_run N mt) (nt_task N)) (map (Pair (nt_cal N)) [0..<length ?bs]) (arrivals (nt_cal N) (nt_master N) (snd r))"
    using d(3) w2(6) t(1)
    by (auto simp: arrivals_blind list_all2_conv_all_nth carries_def net_run_def cal_message_def createPSIMessage_def wire_seqof
        batch_count_def cal_indexes_def Let_def)
  with cal_blind_state [of w2 "nt_task N" ?C "nt_master N"] w2 m d(3) show ?thesis unfolding r by simp
qed

lemma arrivals_random:
  assumes "good_net N" and "party_ready N (nt_cal N) task w" and "p \<in> set (nt_partners N)"
  shows "\<exists>m. arrivals (nt_cal N) p (generateRandomA rand task w @ [NotifyTaskInfo t]) = [m] \<and>
    pm_packetType m = GENERATE_RANDOM_TO_PARTNER \<and> pm_data m = [rand] \<and> pm_taskID m = nt_task N"
proof -
  have one: "distinct xs \<Longrightarrow> concat (map (\<lambda>x. if x = p then [f] else []) xs) = (if p \<in> set xs then [f] else [])"
    for f :: PSIMessage and xs
    by (induction xs) auto
  have "p \<noteq> nt_cal N" "p \<noteq> nt_master N" using assms(1,3) by (auto simp: good_net_def parties_def)
  then have "p \<in> set (parties_of_type PartiesType_Partner task)"
    unfolding parties_of_type_set(1) [OF assms(2)] role_of_iff using assms(3) by (simp add: parties_def)
  moreover have "tk_id task = nt_task N" using assms(2) by (simp add: party_ready_def)
  ultimately show ?thesis
    by (simp add: generateRandomA_def multi_send_def arrivals_def comp_def one [OF parties_of_type_set(2) [OF assms(2)]] createPSIMessage_def)
qed

lemma partner_blinded:
  fixes w :: multi
  assumes "good_net N" and "all_ready N ts ws" and "p \<in> set (nt_partners N)"
  shows "list_all2 (carries (net_run N mt) (nt_task N)) (map (Pair p) [0..<length (nt_data N p)])
    (arrivals p (nt_master N) (snd (blinded N ts ws p)))"
proof -
  let ?task = "ts p" and ?w = "ws p" and ?cal = "nt_cal N" and ?bs = "nt_data N p"
  let ?a = "mu_next ?w" and ?P = "new_partner ?task ?w"
  have ready: "party_ready N p ?task ?w" "party_ready N ?cal (ts ?cal) (ws ?cal)"
    using assms(2,3) by (auto simp: all_ready_def parties_def)
  have d: "p \<noteq> ?cal" "p \<noteq> nt_master N" "length ?bs < 2 ^ 16" using assms(1,3) by (auto simp: good_net_def parties_def)
  have t: "tk_id ?task = nt_task N" "mu_box ?w = nt_box N" using ready by (simp_all add: party_ready_def)
  define w1 where "w1 = fst (run_task N p ?task ?w)"
  have s: "mu_partners w1 (nt_task N) = Some ?P" "started_state N p ?task ?w w1"
    using run_partner [OF assms(1) ready(1) assms(3)] by (simp_all add: w1_def)
  obtain m where m: "arrivals ?cal p (snd (run_task N ?cal (ts ?cal) (ws ?cal))) = [m]"
    "pm_packetType m = GENERATE_RANDOM_TO_PARTNER" "pm_data m = [nt_a N]" "pm_taskID m = nt_task N"
    using arrivals_random [OF assms(1) ready(2) assms(3)] run_calculator [OF assms(1) ready(2)] by metis
  have "blinded N ts ws p = partner_onReceiveRandomA (nt_a N) ?P w1"
    using assms(3) m s(1)
    by (simp add: blinded_def started_def w1_def [symmetric] handlerPSIReceiveMessage_def multi_onReceiveRandomA_def split_beta)
  moreover have "pt_masterParties ?P = [nt_master N]" "pt_taskState ?P = ?a" "mu_reader w1 ?a = ?bs" "mu_box w1 = nt_box N"
    "can_blind 0 (mu_heap w1 ?a)" "mtask w1 ?a = ?task"
    using the_master [OF assms(1) ready(1)] d(2) s(2) t by (simp_all add: new_partner_def started_state_def)
  ultimately have "snd (blinded N ts ws p) = blind_output (partner_message (nt_box N) (nt_a N)) (nt_master N) 0 0 ?bs ?a w1"
    "mtask w1 ?a = ?task"
    using d(3) by (simp_all add: partner_onReceiveRandomA_def blind_loop_run)
  then show ?thesis
    using d t(1)
    by (auto simp: arrivals_blind list_all2_conv_all_nth carries_def net_run_def partner_message_def createPSIMessage_def wire_seqof
        batch_count_def Let_def)
qed

lemma list_all2_concat_map:
  "(\<And>p. p \<in> set ps \<Longrightarrow> list_all2 P (f p) (g p)) \<Longrightarrow> list_all2 P (concat (map f ps)) (concat (map g ps))"
  by (induction ps) (simp_all add: list_all2_appendI)

lemma to_master_carries:
  assumes "good_net N" and "all_ready N ts ws"
  shows "list_all2 (carries (net_run N mt) (nt_task N))
    (concat (map (\<lambda>p. map (Pair p) [0..<length (nt_data N p)]) (nt_cal N # nt_partners N))) (to_master N ts ws)"
proof -
  have "list_all2 (carries (net_run N mt) (nt_task N)) (map (Pair p) [0..<length (nt_data N p)])
      (arrivals p (nt_master N) (snd (blinded N ts ws p)))" if "p \<in> set (nt_cal N # nt_partners N)" for p
    using that cal_blinded [OF assms(1), of ts ws mt] partner_blinded [OF assms, of p mt] assms(2)
    by (auto simp: all_ready_def parties_def)
  then show ?thesis unfolding to_master_def by (intro list_all2_concat_map) blast
qed

section \<open>What is assumed of the curve\<close>

text \<open>
  On a set of points that contains the hashed items, multiplication by the two scalars commutes and is injective, and
  the items do not collide when they are hashed to the curve.
\<close>

definition net_items :: "multi_net \<Rightarrow> bytes set" where
  "net_items N = (\<Union>p \<in> set (parties N). set (concat (nt_data N p)))"

definition net_laws :: "multi_net \<Rightarrow> bytes set \<Rightarrow> bool" where
  "net_laws N V \<longleftrightarrow>
     (let mul = cb_ecMultiply (nt_box N); a = nt_a N; b = nt_b N; point = (\<lambda>x. cb_hashToCurve (nt_box N) (cb_hash (nt_box N) x))
      in (\<forall>p \<in> V. mul p a \<in> V \<and> mul p b \<in> V \<and> mul (mul p a) b = mul (mul p b) a) \<and>
         inj_on (\<lambda>p. mul p a) V \<and> inj_on (\<lambda>p. mul p b) V \<and> point ` net_items N \<subseteq> V \<and> inj_on point (net_items N))"

abbreviation blind_a :: "multi_net \<Rightarrow> bytes \<Rightarrow> bytes" where
  "blind_a N \<equiv> blind_item (nt_box N) (nt_a N)"

definition twice_ab :: "multi_net \<Rightarrow> bytes \<Rightarrow> bytes" where
  "twice_ab N x = cb_ecMultiply (nt_box N) (blind_a N x) (nt_b N)"

definition twice_ba :: "multi_net \<Rightarrow> bytes \<Rightarrow> bytes" where
  "twice_ba N x = cb_ecMultiply (nt_box N) (blind_item (nt_box N) (nt_b N) x) (nt_a N)"

lemma net_blind:
  assumes "net_laws N V"
  shows "inj_on (blind_a N) (net_items N)" "inj_on (twice_ab N) (net_items N)" "inj_on (twice_ba N) (net_items N)"
    "x \<in> net_items N \<Longrightarrow> twice_ba N x = twice_ab N x"
proof -
  let ?mul = "cb_ecMultiply (nt_box N)" and ?P = "\<lambda>x. cb_hashToCurve (nt_box N) (cb_hash (nt_box N) x)"
  have l: "\<And>p. p \<in> V \<Longrightarrow> ?mul p (nt_a N) \<in> V \<and> ?mul p (nt_b N) \<in> V \<and> ?mul (?mul p (nt_a N)) (nt_b N) = ?mul (?mul p (nt_b N)) (nt_a N)"
    "inj_on (\<lambda>p. ?mul p (nt_a N)) V" "inj_on (\<lambda>p. ?mul p (nt_b N)) V" "\<And>x. x \<in> net_items N \<Longrightarrow> ?P x \<in> V" "inj_on ?P (net_items N)"
    using assms unfolding net_laws_def Let_def by blast+
  show c: "x \<in> net_items N \<Longrightarrow> twice_ba N x = twice_ab N x" for x
    using l(1) l(4) by (simp add: twice_ab_def twice_ba_def blind_item_def)
  show "inj_on (blind_a N) (net_items N)"
    by (rule inj_onI) (metis blind_item_def inj_onD l(2) l(4) l(5))
  show ab: "inj_on (twice_ab N) (net_items N)"
    by (rule inj_onI) (metis (no_types, lifting) twice_ab_def blind_item_def inj_onD l(1) l(2) l(3) l(4) l(5))
  show "inj_on (twice_ba N) (net_items N)"
    by (rule inj_onI) (metis ab c inj_onD)
qed

lemma items_of_party: "p \<in> set (parties N) \<Longrightarrow> set (concat (nt_data N p)) \<subseteq> net_items N"
  by (auto simp: net_items_def)

lemma distinct_mapped:
  assumes "good_net N" and "p \<in> set (parties N)" and "inj_on f (net_items N)"
  shows "distinct (concat (map (map f) (nt_data N p)))"
proof -
  have "distinct (concat (nt_data N p))" using assms(1,2) by (simp add: good_net_def)
  then have "distinct (map f (concat (nt_data N p)))"
    using inj_on_subset [OF assms(3) items_of_party [OF assms(2)]] by (simp only: distinct_map)
  then show ?thesis by (simp only: map_concat)
qed

section \<open>The master's part\<close>

lemma net_run_good:
  assumes "good_net N" and "net_laws N V" and "party_ready N (nt_master N) task w"
  shows "good_run (net_run N task)"
proof -
  have p: "set (map fst (tk_peerParties task)) = set (parties N) - {nt_master N}" "distinct (map fst (tk_peerParties task))"
    using assms(3) by (simp_all add: party_ready_def)
  have n: "length (tk_peerParties task) = length (nt_partners N) + 1"
    by (rule peer_count [OF assms(1,3)]) (simp add: parties_def)
  have N: "nt_partners N \<noteq> []" "length (nt_partners N) \<le> 30" "nt_cal N \<noteq> nt_master N" "length (concat (nt_data N (nt_cal N))) < 2 ^ 31"
    using assms(1) by (auto simp: good_net_def parties_def)
  have "length (concat (map (map (blind_a N)) (nt_data N (nt_cal N)))) < 2 ^ 31"
    using N(4) by (simp add: map_concat [symmetric] del: length_concat)
  moreover have "2 \<le> length (tk_peerParties task)" using N(1) n by (cases "nt_partners N") simp_all
  moreover have "\<forall>p \<in> set (parties N). distinct (concat (map (map (blind_a N)) (nt_data N p)))"
    using distinct_mapped [OF assms(1) _ net_blind(1) [OF assms(2)]] by blast
  moreover have "nt_cal N \<in> set (map fst (tk_peerParties task))" unfolding p(1) using N(3) by (simp add: parties_def)
  moreover have "\<forall>p \<in> set (map fst (tk_peerParties task)). p \<in> set (parties N)" unfolding p(1) by blast
  moreover have "\<forall>p \<in> set (parties N). nt_data N p \<noteq> [] \<and> length (nt_data N p) < 2 ^ 16" using assms(1) by (simp add: good_net_def)
  ultimately show ?thesis
    unfolding good_run_def net_run_def using p(2) n N(2) by (simp del: set_map length_concat)
qed

lemma new_master_ok:
  assumes "good_run R" and "mn_peers R = map fst (tk_peerParties task)"
  shows "cache_ok R {} (new_MasterCache task)"
proof -
  have n: "\<not> complete R {} p" if "p \<in> set (mn_peers R)" for p using that assms(1) by (auto simp: complete_def good_run_def)
  then have "complete_peers R {} = {}" by (auto simp: complete_peers_def)
  moreover have "arrived_items R {} = {}" "cal_items R {} = {}" by (simp_all add: arrived_items_def cal_items_def)
  ultimately show ?thesis
    using assms(2) n by (auto simp: cache_ok_def refs_inv_def books_inv_def mc_inv_def exact_def mc_count_def index_table_def smap_ok_def
        seen_seqs_def expected_def seqs_of_def new_MasterCache_def)
qed

lemma all_batches_listed:
  assumes "good_net N" and "party_ready N (nt_master N) task w"
  defines "es \<equiv> concat (map (\<lambda>p. map (Pair p) [0..<length (nt_data N p)]) (nt_cal N # nt_partners N))"
  shows "distinct es \<and> set es = all_batches (net_run N task)"
proof
  have d: "distinct (nt_cal N # nt_partners N)" using assms(1) by (simp add: good_net_def parties_def)
  have "distinct ps \<Longrightarrow> distinct (concat (map (\<lambda>p. map (Pair p) [0..<length (nt_data N p)]) ps))" for ps :: "bytes list"
    by (induction ps) (auto simp: distinct_map inj_on_def)
  then show "distinct es" unfolding es_def using d by blast
  have "set (mn_peers (net_run N task)) = set (parties N) - {nt_master N}" using assms(2) by (simp add: party_ready_def net_run_def)
  also have "\<dots> = set (nt_cal N # nt_partners N)" using assms(1) by (auto simp: good_net_def parties_def)
  finally show "set es = all_batches (net_run N task)" unfolding all_batches_def es_def by (auto simp: net_run_def)
qed

definition common :: "multi_net \<Rightarrow> bytes set" where
  "common N = (\<Inter>p \<in> set (nt_cal N # nt_partners N). set (concat (nt_data N p)))"

lemma common_blinded:
  assumes "good_net N" and "net_laws N V" and "party_ready N (nt_master N) task w"
  shows "common_items (net_run N task) = blind_a N ` common N"
proof -
  have "set (mn_peers (net_run N task)) = set (parties N) - {nt_master N}" using assms(3) by (simp add: party_ready_def net_run_def)
  also have "\<dots> = set (nt_cal N # nt_partners N)" using assms(1) by (auto simp: good_net_def parties_def)
  finally have "common_items (net_run N task) = (\<Inter>p \<in> set (nt_cal N # nt_partners N). blind_a N ` set (concat (nt_data N p)))"
    unfolding common_items_def by (simp add: net_run_def map_concat [symmetric] image_UN)
  also have "\<dots> = blind_a N ` common N"
    unfolding common_def
    by (rule image_INT [symmetric, OF net_blind(1) [OF assms(2)]]) (auto simp: net_items_def parties_def)
  finally show ?thesis .
qed

lemma reference_facts:
  assumes "good_net N" and "net_laws N V" and "party_ready N (nt_master N) task w"
  defines "R \<equiv> net_run N task"
  shows "\<exists>ys. reference_cipher R = map (blind_a N) ys \<and> set ys = common N \<and> distinct ys \<and>
    reference_index R = map (position (concat (nt_data N (nt_cal N)))) ys \<and> length (reference_cipher R) = card (common N)"
proof -
  let ?f = "blind_a N" and ?xs = "concat (nt_data N (nt_cal N))"
  have fin: "finite (common N)" "common N \<subseteq> set ?xs" by (auto simp: common_def intro: finite_subset [of _ "set ?xs"])
  note inj = net_blind(1) [OF assms(2)]
  have sub: "set ?xs \<subseteq> net_items N" by (rule items_of_party) (simp add: parties_def)
  have plain: "concat (mn_data R (mn_cal R)) = map ?f ?xs" by (simp add: R_def net_run_def map_concat)
  have set: "set (reference_cipher R) = ?f ` common N" "distinct (reference_cipher R)"
    using fin(1) common_blinded [OF assms(1-3)] by (simp_all add: reference_cipher_def R_def)
  then have "reference_cipher R \<in> lists (?f ` common N)" by auto
  then obtain ys where ys: "reference_cipher R = map ?f ys" "set ys \<subseteq> common N" unfolding lists_image by auto
  have d: "distinct ys" using set(2) unfolding ys(1) by (simp add: distinct_map)
  have "set ys = common N"
  proof
    have "?f ` set ys = ?f ` common N" using set(1) ys(1) by simp
    then show "common N \<subseteq> set ys"
      using inj_on_image_eq_iff [OF inj, of "set ys" "common N"] ys(2) fin(2) sub by blast
  qed (rule ys(2))
  moreover have pos: "position (map ?f xs) (?f y) = position xs y" if "set xs \<subseteq> net_items N" "y \<in> net_items N" for xs y
    using that inj_on_eq_iff [OF inj, of _ y] by (induction xs) (auto simp: position_def)
  have "y \<in> net_items N" if "y \<in> set ys" for y using that ys(2) fin(2) sub by blast
  then have "reference_index R = map (position ?xs) ys"
    unfolding reference_index_def ys(1) plain using pos [OF sub] by simp
  moreover have "length (reference_cipher R) = card (common N)"
    using distinct_card [OF set(2)] set(1) card_image [of ?f "common N"] inj_on_subset [OF inj] fin(2) sub by (metis subset_trans)
  ultimately show ?thesis using ys(1) d by blast
qed

lemma position_less: "y \<in> set xs \<Longrightarrow> position xs y < length xs \<and> xs ! position xs y = y"
proof (induction xs)
  case (Cons x xs)
  then show ?case by (cases "x = y") (auto simp: position_def)
qed simp

text \<open>With at most one batch of common items, the master sends one message.\<close>

lemma one_message:
  fixes R :: master_run
  assumes "length (reference_cipher R) \<le> n" and "0 < n" and "\<forall>x \<in> set (reference_index R). x < 2 ^ 31"
  shows "arrivals sender cal (snd (encryptIntersection box key self tk [cal] n (reference_cache R))) =
    [(generatePPCMsg self ((createPSIMessage SEND_ENCRYPTED_INTERSECTION_SET_TO_CALCULATOR)
       \<lparr>pm_from := pa_id (tk_selfParty tk), pm_data := map (\<lambda>x. cb_ecMultiply box x key) (reference_cipher R),
        pm_dataIndex := map int (reference_index R), pm_dataBatchCount := 1\<rparr>))
       \<lparr>pm_from := sender, pm_taskID := tk_id tk, pm_seq := 0\<rparr>]"
proof -
  let ?l = "length (reference_cipher R)"
  have "(?l + n - 1) div n \<le> 1"
  proof -
    have "(?l + n - 1) div n \<le> (n + n - 1) div n" using assms(1) by (intro div_le_mono) simp
    also have "\<dots> < 2" using assms(2) by (simp add: div_less_iff_less_mult)
    finally show ?thesis by simp
  qed
  then have b: "intersection_batches n (reference_cache R) = 1" by (simp add: intersection_batches_def reference_cache_def)
  have "uint (of_nat x :: u32) = int x" if "x \<in> set (reference_index R)" for x
    using assms(3) that by (auto simp: unsigned_of_nat take_bit_nat_eq_self)
  then have i: "map (uint \<circ> (of_nat :: nat \<Rightarrow> u32)) (reference_index R) = map int (reference_index R)" by (intro map_cong) simp_all
  have l: "length (reference_index R) = ?l" by (simp add: reference_index_def)
  show ?thesis
    unfolding encryptIntersection_def b using assms(1) l
    by (simp add: i arrivals_def intersection_message_def reference_cache_def wire_seq_def min_def Let_def)
qed

lemma list_all2_reorder:
  assumes "list_all2 P xs ys" and "mset ys' = mset ys"
  shows "\<exists>xs'. list_all2 P xs' ys' \<and> mset xs' = mset xs"
proof -
  have "list_all2 (\<lambda>y x. P x y) ys xs" using assms(1) by (simp add: list_all2_conv_all_nth)
  from list_all2_reorder_left_invariance [OF this assms(2)] show ?thesis by (auto simp: list_all2_conv_all_nth)
qed

text \<open>The run as the calculator sees it.\<close>

definition net_cal :: "multi_net \<Rightarrow> Task \<Rightarrow> cal_run" where
  "net_cal N task =
     \<lparr>cn_master = map (map (twice_ba N)) (nt_data N (nt_master N)),
      cn_inter = [zip (map (\<lambda>k. cb_ecMultiply (nt_box N) k (nt_b N)) (reference_cipher (net_run N task))) (reference_index (net_run N task))],
      cn_plain = nt_data N (nt_cal N)\<rparr>"

lemma master_blinded:
  fixes w :: multi
  assumes "good_net N" and "party_ready N (nt_master N) (ts (nt_master N)) (ws (nt_master N))"
  defines "w \<equiv> ws (nt_master N)" and "task \<equiv> ts (nt_master N)" and "r \<equiv> blinded N ts ws (nt_master N)"
  shows "mu_masters (fst r) (nt_task N) = Some (new_master N task w) \<and> mu_box (fst r) = nt_box N \<and> mu_selfParty (fst r) = nt_master N \<and>
    mtask (fst r) (mu_next w) = task \<and> mu_dataBatchSize (fst r) = mu_dataBatchSize w \<and>
    list_all2 (cal_carries (net_cal N task) (nt_box N) (nt_a N) (nt_task N)) (map (Pair False) [0..<length (nt_data N (nt_master N))])
      (arrivals (nt_master N) (nt_cal N) (snd r))"
proof -
  let ?a = "mu_next w" and ?M = "new_master N task w" and ?bs = "nt_data N (nt_master N)"
  define w1 where "w1 = fst (run_task N (nt_master N) task w)"
  define w2 where "w2 = w1\<lparr>mu_jobs := mu_jobs w\<rparr>"
  have d: "nt_master N \<notin> set (nt_partners N)" "nt_master N \<noteq> nt_cal N" "length ?bs < 2 ^ 16" "?bs \<noteq> []"
    using assms(1) by (auto simp: good_net_def parties_def)
  have ready: "party_ready N (nt_master N) task w" using assms(2) by (simp add: w_def task_def)
  have t: "tk_id task = nt_task N" "mu_box w = nt_box N" "mu_selfParty w = nt_master N" using ready by (simp_all add: party_ready_def)
  have s: "mu_masters w1 (nt_task N) = Some ?M" "started_state N (nt_master N) task w w1" "mu_jobs w1 = mu_jobs w @ [BlindMaster ?a]"
    using run_master [OF assms(1) ready] by (simp_all add: w1_def)
  then have r: "r = master_blindData ?M w2"
    using d(1) t(1) unfolding r_def blinded_def started_def multi_run_job_def w_def [symmetric] task_def [symmetric]
    by (simp add: w1_def [symmetric] w2_def nth_append started_state_def new_master_def mtask_def)
  have m: "ma_calculatorParties ?M = [nt_cal N]" "ma_taskState ?M = ?a" "ma_randomB ?M = nt_b N"
    using the_calculator [OF ready d(2)] by (simp_all add: new_master_def)
  have w2: "mu_masters w2 (nt_task N) = Some ?M" "can_blind 0 (mu_heap w2 ?a)" "mu_reader w2 ?a = ?bs" "mu_box w2 = nt_box N"
    "mtask w2 ?a = task" "mu_selfParty w2 = nt_master N" "mu_dataBatchSize w2 = mu_dataBatchSize w"
    using s t by (simp_all add: w2_def started_state_def mtask_def)
  have "snd r = blind_output (master_message (nt_box N) (nt_b N)) (nt_cal N) 0 0 ?bs ?a w2"
    unfolding r master_blindData_def m(1-3) w2(3,4)
    using d(3) w2(2) by (intro blind_loop_run) simp_all
  then have "list_all2 (cal_carries (net_cal N task) (nt_box N) (nt_a N) (nt_task N)) (map (Pair False) [0..<length ?bs])
      (arrivals (nt_master N) (nt_cal N) (snd r))"
    using d(3) w2(5) t(1)
    by (auto simp: arrivals_blind list_all2_conv_all_nth cal_carries_def net_cal_def master_message_def createPSIMessage_def wire_seqof
        last_count_def batches_of_def seq_number_def twice_ba_def Let_def)
  with master_blind_state [of w2 ?M "nt_cal N"] w2 m d(3) show ?thesis unfolding r by simp
qed

lemma map_snd_zip_comp [simp]: "length xs = length ys \<Longrightarrow> map (f \<circ> snd) (zip xs ys) = map f ys"
  by (metis map_map map_snd_zip)

definition small_intersection :: "multi_net \<Rightarrow> multi \<Rightarrow> bool" where
  "small_intersection N w \<longleftrightarrow> 0 < unat (mu_dataBatchSize w) \<and> card (common N) \<le> unat (mu_dataBatchSize w)"

lemma to_calculator_carries:
  assumes "good_net N" and "net_laws N V" and "all_ready N ts ws" and "small_intersection N (ws (nt_master N))"
    and "mset ms = mset (to_master N ts ws)"
  defines "task \<equiv> ts (nt_master N)"
  shows "list_all2 (cal_carries (net_cal N task) (nt_box N) (nt_a N) (nt_task N))
    (map (Pair False) [0..<length (nt_data N (nt_master N))] @ [(True, 0)]) (to_calculator N ts ws ms)"
proof -
  let ?R = "net_run N task" and ?w = "ws (nt_master N)" and ?w1 = "fst (blinded N ts ws (nt_master N))"
  have ready: "party_ready N (nt_master N) task ?w" using assms(3) by (simp add: all_ready_def parties_def task_def)
  have "nt_master N \<noteq> nt_cal N" using assms(1) by (auto simp: good_net_def parties_def)
  note cals = the_calculator [OF ready this]
  note good = net_run_good [OF assms(1,2) ready]
  note mb = master_blinded [OF assms(1), of ts ws, folded task_def, OF ready]
  obtain es where es: "list_all2 (carries ?R (nt_task N)) es ms"
    "mset es = mset (concat (map (\<lambda>p. map (Pair p) [0..<length (nt_data N p)]) (nt_cal N # nt_partners N)))"
    using list_all2_reorder [OF to_master_carries [OF assms(1,3)] assms(5)] by blast
  have "distinct es" "set es = all_batches ?R"
    using all_batches_listed [OF assms(1) ready] mset_eq_imp_distinct_iff [OF es(2)] mset_eq_setD [OF es(2)] by simp_all
  moreover have "mu_masters ?w1 (nt_task N) = Some (new_master N task ?w)" using mb by simp
  moreover have "cache_ok ?R {} (ma_cache (new_master N task ?w))"
    using new_master_ok [OF good, of task] by (simp add: net_run_def new_master_def)
  ultimately have "snd (intersected N ts ws ms) =
      snd (encryptIntersection (nt_box N) (nt_b N) (nt_master N) task [nt_cal N] (unat (mu_dataBatchSize ?w)) (reference_cache ?R))"
    using master_intersects [OF good, of ?w1 "nt_task N" "new_master N task ?w" es ms "\<lambda>_. False"] es(1) mb cals
    by (simp add: intersected_def new_master_def)
  moreover obtain ys where ys: "length (reference_cipher ?R) = card (common N)" "set ys = common N"
    "reference_index ?R = map (position (concat (nt_data N (nt_cal N)))) ys"
    using reference_facts [OF assms(1,2) ready] by blast
  have "x < 2 ^ 31" if x: "x \<in> set (reference_index ?R)" for x
  proof -
    obtain y where "x = position (concat (nt_data N (nt_cal N))) y" "y \<in> common N" using x ys by auto
    then show ?thesis using position_less [of y "concat (nt_data N (nt_cal N))"] assms(1) by (auto simp: common_def good_net_def)
  qed
  moreover have "tk_id task = nt_task N" using ready by (simp add: party_ready_def)
  ultimately have "cal_carries (net_cal N task) (nt_box N) (nt_a N) (nt_task N) (True, 0)
      (hd (arrivals (nt_master N) (nt_cal N) (snd (intersected N ts ws ms)))) \<and>
      length (arrivals (nt_master N) (nt_cal N) (snd (intersected N ts ws ms))) = 1"
    using assms(4) ys(1)
    by (simp add: one_message small_intersection_def cal_carries_def net_cal_def createPSIMessage_def seq_number_def last_count_def
        batches_of_def reference_index_def)
  then have "list_all2 (cal_carries (net_cal N task) (nt_box N) (nt_a N) (nt_task N)) [(True, 0)]
      (arrivals (nt_master N) (nt_cal N) (snd (intersected N ts ws ms)))" by (auto simp: length_Suc_conv)
  moreover have "arrivals s r (xs @ ys) = arrivals s r xs @ arrivals s r ys" for s r xs ys by (simp add: arrivals_def)
  ultimately show ?thesis unfolding to_calculator_def using mb by (auto intro!: list_all2_appendI)
qed

section \<open>The calculator's part\<close>

text \<open>The reference: the calculator's items that the master and every partner have.\<close>

definition net_reference :: "multi_net \<Rightarrow> bytes list" where
  "net_reference N = filter (\<lambda>x. \<forall>p \<in> set (nt_master N # nt_partners N). x \<in> set (concat (nt_data N p))) (concat (nt_data N (nt_cal N)))"

lemma inter_net:
  assumes "good_net N" and "net_laws N V" and "party_ready N (nt_master N) task w"
  shows "\<exists>ys. concat (cn_inter (net_cal N task)) = map (\<lambda>y. (twice_ab N y, position (concat (nt_data N (nt_cal N))) y)) ys \<and>
    distinct ys \<and> set ys = common N"
proof -
  obtain ys where "reference_cipher (net_run N task) = map (blind_a N) ys" "set ys = common N" "distinct ys"
    "reference_index (net_run N task) = map (position (concat (nt_data N (nt_cal N)))) ys"
    using reference_facts [OF assms] by blast
  then show ?thesis
    by (intro exI [of _ ys]) (simp add: net_cal_def twice_ab_def zip_map_map zip_same_conv_map comp_def del: set_concat)
qed

lemma common_net: "common N \<subseteq> set (concat (nt_data N (nt_cal N)))" "common N \<subseteq> net_items N"
  by (auto simp: common_def net_items_def parties_def)

lemma batches_net: "set (map (Pair False) [0..<length (nt_data N (nt_master N))] @ [(True, 0)]) = cal_batches (net_cal N task)"
proof -
  have "batches_of (net_cal N task) s = (if s then 1 else length (nt_data N (nt_master N)))" for s
    by (simp add: batches_of_def net_cal_def)
  then show ?thesis by (auto simp: cal_batches_def split: if_splits)
qed

lemma net_cal_good:
  assumes "good_net N" and "net_laws N V" and "party_ready N (nt_master N) task w"
  shows "good_cal (net_cal N task)"
proof -
  obtain ys where ys: "concat (cn_inter (net_cal N task)) = map (\<lambda>y. (twice_ab N y, position (concat (nt_data N (nt_cal N))) y)) ys"
    "distinct ys" "set ys = common N"
    using inter_net [OF assms] by blast
  have "distinct (map (twice_ab N) ys)"
    using ys(2,3) inj_on_subset [OF net_blind(2) [OF assms(2)] common_net(2)] by (simp add: distinct_map)
  then have d: "distinct (map fst (concat (cn_inter (net_cal N task))))" unfolding ys(1) by (simp add: comp_def)
  have p: "\<forall>(k, x) \<in> set (concat (cn_inter (net_cal N task))). x < length (concat (nt_data N (nt_cal N)))"
    unfolding ys(1) using ys(3) common_net(1) [of N] position_less [of _ "concat (nt_data N (nt_cal N))"]
    by (auto simp del: set_concat length_concat)
  have m: "nt_master N \<in> set (parties N)" by (simp add: parties_def)
  have "distinct (concat (cn_master (net_cal N task)))"
    using distinct_mapped [OF assms(1) m net_blind(3) [OF assms(2)]] by (simp add: net_cal_def)
  moreover have "cn_master (net_cal N task) \<noteq> []" "length (cn_master (net_cal N task)) < 2 ^ 16"
    "length (cn_inter (net_cal N task)) = 1" "cn_plain (net_cal N task) = nt_data N (nt_cal N)"
    using assms(1) m by (simp_all add: net_cal_def good_net_def)
  moreover have "length (concat (nt_data N (nt_cal N))) < 2 ^ 31" using assms(1) by (simp add: good_net_def)
  ultimately show ?thesis
    unfolding good_cal_def using d p by (simp only:) (auto simp del: set_concat)
qed

lemma lines_net:
  assumes "good_net N" and "net_laws N V" and "party_ready N (nt_master N) task w"
  defines "xs \<equiv> concat (nt_data N (nt_cal N))"
  shows "mset (reference_lines (net_cal N task)) = mset (net_reference N)"
    and "xs \<noteq> [] \<Longrightarrow> hd xs \<in> set (net_reference N) \<Longrightarrow> \<exists>k. (k, 0) \<in> set (wanted (net_cal N task))"
proof -
  let ?R = "net_cal N task" and ?in = "\<lambda>y. y \<in> set (concat (nt_data N (nt_master N)))"
  obtain ys where ys: "concat (cn_inter ?R) = map (\<lambda>y. (twice_ab N y, position xs y)) ys" "distinct ys" "set ys = common N"
    using inter_net [OF assms(1-3)] unfolding xs_def by blast
  have "twice_ab N y \<in> set (concat (cn_master ?R)) \<longleftrightarrow> ?in y" if "y \<in> set ys" for y
  proof -
    have y: "y \<in> net_items N" using that ys(3) common_net(2) by blast
    have M: "set (concat (nt_data N (nt_master N))) \<subseteq> net_items N" by (rule items_of_party) (simp add: parties_def)
    have "set (concat (cn_master ?R)) = twice_ba N ` set (concat (nt_data N (nt_master N)))"
      by (simp only: net_cal_def cal_run.simps map_concat [symmetric] set_map)
    also have "\<dots> = twice_ab N ` set (concat (nt_data N (nt_master N)))"
      using M net_blind(4) [OF assms(2)] by (intro image_cong) auto
    finally show ?thesis using inj_on_image_mem_iff [OF net_blind(2) [OF assms(2)] y M] by simp
  qed
  then have same: "filter (\<lambda>y. twice_ab N y \<in> set (concat (cn_master ?R))) ys = filter ?in ys" by (intro filter_cong refl)
  have w: "wanted ?R = map (\<lambda>y. (twice_ab N y, position xs y)) (filter ?in ys)"
    unfolding wanted_def ys(1) filter_map same [symmetric] by (simp add: comp_def del: set_concat)
  have set: "set (filter ?in ys) = set (net_reference N)"
    using ys(3) by (auto simp: net_reference_def common_def simp del: set_concat)
  have plain: "concat (cn_plain ?R) = xs" by (simp add: net_cal_def xs_def)
  have "reference_lines ?R = map (\<lambda>y. xs ! position xs y) (filter ?in ys)"
    unfolding reference_lines_def w plain by (simp add: comp_def)
  also have "\<dots> = filter ?in ys"
    using position_less [of _ xs] ys(3) common_net(1) [of N] unfolding xs_def [symmetric] by (intro map_idI) auto
  finally have lines: "reference_lines ?R = filter ?in ys" .
  have "distinct (net_reference N)" using assms(1) by (simp add: net_reference_def good_net_def parties_def)
  then show "mset (reference_lines ?R) = mset (net_reference N)"
    using set_eq_iff_mset_eq_distinct [of "filter ?in ys" "net_reference N"] ys(2) set unfolding lines by simp
  assume "xs \<noteq> []" "hd xs \<in> set (net_reference N)"
  moreover have "position xs (hd xs) = 0" using \<open>xs \<noteq> []\<close> by (cases xs) (simp_all add: position_def)
  ultimately show "\<exists>k. (k, 0) \<in> set (wanted ?R)" unfolding w set [symmetric] set_map by force
qed

section \<open>The result\<close>

text \<open>
  (C8) Multi-party ECDH-PSI is correct under these conditions: a calculator, a master and one to thirty partners, no
  item twice in a party's data, some data and fewer than \<open>2 ^ 16\<close> batches of every party, every message delivered once
  and in any order at the master and at the calculator, and no more common items of the calculator and the partners
  than a batch holds. Then the calculator writes exactly the items all parties have, its own first line in front if that
  is among them, and answers its task once, as completed. The conditions are limits of the code: with an item twice or
  a common part of several batches it can write wrong lines (\<open>duplicate_counts_twice\<close>, \<open>batch_positions_repeat\<close>).
\<close>

theorem multi_psi_correct:
  assumes "good_net N" and "net_laws N V" and "all_ready N ts ws" and "small_intersection N (ws (nt_master N))"
    and "mset ms = mset (to_master N ts ws)" and "mset ms' = mset (to_calculator N ts ws ms)"
  defines "a \<equiv> mu_next (ws (nt_cal N))" and "r \<equiv> finalized N ts ws ms'" and "xs \<equiv> concat (nt_data N (nt_cal N))"
  shows "mset (written (mu_heap (fst r) a)) = mset (net_reference N) \<and>
    (xs \<noteq> [] \<and> hd xs \<in> set (net_reference N) \<longrightarrow> hd (written (mu_heap (fst r) a)) = hd xs) \<and>
    filter (is_answer a) (snd r) = [TaskOut a (Answer \<lparr>tr_taskID = nt_task N, tr_error = None, tr_status = COMPLETED\<rparr>)]"
proof -
  let ?task = "ts (nt_master N)" and ?w = "ws (nt_cal N)" and ?w1 = "fst (blinded N ts ws (nt_cal N))"
  let ?R = "net_cal N ?task"
  let ?C = "(new_calculator N (ts (nt_cal N)) ?w)\<lparr>ca_cache := (ca_cache (new_calculator N (ts (nt_cal N)) ?w))\<lparr>cc_plainData := nt_data N (nt_cal N)\<rparr>\<rparr>"
  have ready: "party_ready N (nt_master N) ?task (ws (nt_master N))" "party_ready N (nt_cal N) (ts (nt_cal N)) ?w"
    using assms(3) by (simp_all add: all_ready_def parties_def)
  note good = net_cal_good [OF assms(1,2) ready(1)]
  have c: "mu_calculators ?w1 (nt_task N) = Some ?C" "can_finish (nt_task N) (mu_heap ?w1 (mu_next ?w))" "mu_box ?w1 = nt_box N"
    using cal_blinded [of N ts ws, OF assms(1) ready(2)] by blast+
  have C: "ca_taskState ?C = a" "ca_randomA ?C = nt_a N" by (simp_all add: new_calculator_def a_def)
  have "cal_ok ?R {} (ca_cache ?C)"
    by (rule new_cache_ok [OF good]) (simp_all add: new_calculator_def new_CalculatorCache_def net_cal_def)
  moreover obtain es where es: "list_all2 (cal_carries ?R (nt_box N) (nt_a N) (nt_task N)) es ms'"
    "mset es = mset (map (Pair False) [0..<length (nt_data N (nt_master N))] @ [(True, 0)])"
    using list_all2_reorder [OF to_calculator_carries [OF assms(1-5)] assms(6)] by blast
  have "distinct (map (Pair False) [0..<length (nt_data N (nt_master N))] @ [(True, 0)])" by (auto simp: distinct_map inj_on_def)
  then have "distinct es" using mset_eq_imp_distinct_iff [OF es(2)] by blast
  moreover have "set es = cal_batches ?R"
    unfolding mset_eq_setD [OF es(2)] by (rule batches_net)
  moreover have "list_all2 (cal_carries ?R (mu_box ?w1) (ca_randomA ?C) (nt_task N)) es ms'" using es(1) c(3) C(2) by simp
  moreover have "can_finish (nt_task N) (mu_heap ?w1 (ca_taskState ?C))" using c(2) C(1) by (simp add: a_def)
  ultimately have fin: "mset (written (mu_heap (fst r) a)) = mset (reference_lines ?R)"
    "(\<exists>k. (k, 0) \<in> set (wanted ?R)) \<longrightarrow> hd (written (mu_heap (fst r) a)) = concat (cn_plain ?R) ! 0"
    "filter (is_answer a) (snd r) = [TaskOut a (Answer \<lparr>tr_taskID = nt_task N, tr_error = None, tr_status = COMPLETED\<rparr>)]"
    using calculator_finalizes [OF good c(1), of es ms'] unfolding r_def finalized_def C(1) [symmetric] by blast+
  have "hd (written (mu_heap (fst r) a)) = hd xs" if "xs \<noteq> []" "hd xs \<in> set (net_reference N)"
    using lines_net(2) [OF assms(1,2) ready(1)] that fin(2) unfolding xs_def by (simp add: net_cal_def hd_conv_nth)
  with fin(1,3) lines_net(1) [OF assms(1,2) ready(1)] show ?thesis by auto
qed

subsection \<open>A concrete run\<close>

definition sample_net :: multi_net where
  "sample_net = \<lparr>nt_task = ''t'', nt_cal = ''c'', nt_master = ''m'', nt_partners = [''p''],
     nt_box = \<lparr>cb_hash = (\<lambda>x. x), cb_hashToCurve = (\<lambda>x. x), cb_ecMultiply = (\<lambda>p k. map (\<lambda>_. CHR ''0'') k @ p)\<rparr>,
     nt_a = ''x'', nt_b = ''yy'',
     nt_data = (\<lambda>p. if p = ''c'' then [[''id'', ''1''], [''2'', ''3'']] else if p = ''m'' then [[''3'', ''id'', ''4'', ''2'']] else [[''2''], [''id'', ''5'']])\<rparr>"

definition multi_party :: "bytes \<Rightarrow> PartyResource" where
  "multi_party p = \<lparr>pa_id = p, pa_partyIndex = role_of sample_net p,
     pa_dataResource = Some \<lparr>dr_resourceID = p, dr_desc = None, dr_outputDesc = None, dr_rawData = []\<rparr>\<rparr>"

definition multi_task :: "bytes \<Rightarrow> Task" where
  "multi_task self = \<lparr>tk_id = ''t'', tk_selfParty = multi_party self,
     tk_peerParties = map (\<lambda>p. (p, multi_party p)) (filter (\<lambda>p. p \<noteq> self) [''c'', ''m'', ''p'']),
     tk_syncResultToPeer = False, tk_enableOutputExists = True, tk_receivers = [''c'']\<rparr>"

definition multi_world :: "bytes \<Rightarrow> multi" where
  "multi_world self = \<lparr>mu_selfParty = self, mu_box = nt_box sample_net, mu_dataBatchSize = 10,
     mu_heap = (\<lambda>_. new_TaskState (multi_task self) False True), mu_next = 0, mu_reader = (\<lambda>_. []), mu_pendingTasks = Map.empty,
     mu_calculators = Map.empty, mu_partners = Map.empty, mu_masters = Map.empty, mu_msgQueue = [], mu_jobs = []\<rparr>"

lemma sample_net_ready:
  "good_net sample_net" "net_laws sample_net UNIV" "all_ready sample_net multi_task multi_world"
  "small_intersection sample_net (multi_world (nt_master sample_net))"
proof -
  show "good_net sample_net" by (simp add: good_net_def sample_net_def parties_def)
  show "net_laws sample_net UNIV" by (simp add: net_laws_def sample_net_def inj_on_def Let_def)
  show "all_ready sample_net multi_task multi_world"
    by (simp add: all_ready_def party_ready_def multi_world_def multi_task_def multi_party_def parties_def) (auto simp: sample_net_def)
  have "common sample_net \<subseteq> set [''id'', ''2'']" by (auto simp: common_def sample_net_def)
  then have "card (common sample_net) \<le> card (set [''id'', ''2''])" by (intro card_mono) simp_all
  then show "small_intersection sample_net (multi_world (nt_master sample_net))"
    by (simp add: small_intersection_def multi_world_def)
qed

theorem multi_psi_correct_witness:
  "mset (written (mu_heap (fst (finalized sample_net multi_task multi_world
     (rev (to_calculator sample_net multi_task multi_world (rev (to_master sample_net multi_task multi_world)))))) 0)) =
   {#''id'', ''2''#}"
proof -
  have "net_reference sample_net = [''id'', ''2'']" by (simp add: net_reference_def sample_net_def)
  moreover have "mu_next (multi_world (nt_cal sample_net)) = 0" by (simp add: multi_world_def)
  ultimately show ?thesis
    using multi_psi_correct [OF sample_net_ready, of "rev (to_master sample_net multi_task multi_world)"
        "rev (to_calculator sample_net multi_task multi_world (rev (to_master sample_net multi_task multi_world)))"]
    by simp
qed

end
