(* ===== verification/MultiLimits.thy ===== *)
theory MultiLimits
  imports MultiResult
begin

text \<open>
  Where multi-party ECDH-PSI gives something else than the intersection, or nothing: a master with a single peer,
  an intersection of more than one batch, items that a party has twice, more than 31 peers, a task over the peer
  limit, an empty input, a result that cannot be stored.
\<close>

section \<open>A single peer\<close>

text \<open>What can happen to a master's cache before it intersects.\<close>

datatype cache_event =
    CalculatorBatch bytes "bytes list" "int list" u32 u32
  | PartnerBatch bytes "bytes list" u32 u32

fun cache_step :: "cache_event \<Rightarrow> MasterCache \<Rightarrow> MasterCache" where
  "cache_step (CalculatorBatch p ds idx q n) c = (case addCalculatorCipher p ds idx q n c of Inl _ \<Rightarrow> c | Inr c' \<Rightarrow> c')"
| "cache_step (PartnerBatch p ds q n) c = addPartnerCipher p ds q n c"

definition uncounted :: "MasterCache \<Rightarrow> bool" where
  "uncounted c \<longleftrightarrow> mc_peerCount c = 1 \<and> \<not> mc_peerMerged c \<and> mc_intersecCipher c = [] \<and>
     (\<forall>(k, r) \<in> set (mc_masterDataRef c). mr_refCount r = 0)"

lemma uncounted_put: "uncounted c \<Longrightarrow> uncounted (updateMasterDataRef i k x c)"
proof -
  assume u: "uncounted c"
  have "mr_refCount r = 0" if "(k', r) \<in> set (mc_masterDataRef (updateMasterDataRef i k x c))" for k' r
  proof -
    have "map_of (mc_masterDataRef c) k = Some r' \<Longrightarrow> mr_refCount r' = 0" for r'
      using u map_of_SomeD by (fastforce simp: uncounted_def)
    then show ?thesis
      using that u smap_put_subset by (fastforce simp: uncounted_def updateMasterDataRef_def Let_def split: option.splits)
  qed
  then show ?thesis
    using u by (auto simp: uncounted_def updateMasterDataRef_def Let_def split: option.splits)
qed

lemma uncounted_step: "uncounted c \<Longrightarrow> uncounted (cache_step e c)"
proof (cases e)
  case (CalculatorBatch p ds idx q n)
  assume u: "uncounted c"
  have add: "uncounted c \<Longrightarrow> add_indexed i ds idx c = Inr c' \<Longrightarrow> uncounted c'" for i c c'
    by (induction i ds idx c rule: add_indexed.induct) (auto intro: uncounted_put)
  show ?thesis
  proof (cases "getPeerIndex p c")
    case None
    then show ?thesis using CalculatorBatch u by (simp add: addCalculatorCipher_def)
  next
    case (Some i)
    let ?c1 = "c\<lparr>mc_calculatorCipherSeqs := insert q (mc_calculatorCipherSeqs c)\<rparr>"
    let ?c2 = "if n \<noteq> 0 then ?c1\<lparr>mc_calculatorDataBatchCount := n\<rparr> else ?c1"
    show ?thesis
    proof (cases "add_indexed i ds idx ?c2")
      case (Inl e')
      then show ?thesis using CalculatorBatch u Some by (simp add: addCalculatorCipher_def Let_def)
    next
      case (Inr c3)
      have "uncounted ?c2" using u by (simp add: uncounted_def)
      from add [OF this Inr] show ?thesis
        using CalculatorBatch Some Inr by (simp add: addCalculatorCipher_def mergeMasterCipher_def uncounted_def Let_def)
    qed
  qed
next
  case (PartnerBatch p ds q n)
  assume u: "uncounted c"
  have "uncounted c \<Longrightarrow> uncounted (fold (\<lambda>d. updateMasterDataRef i d (- 1)) ds c)" for i c
    by (induction ds arbitrary: c) (auto intro: uncounted_put)
  from this [OF u] show ?thesis
    using PartnerBatch u by (simp add: addPartnerCipher_def mergeMasterCipher_def uncounted_def Let_def split: option.splits)
qed

text \<open>
  (C39) A master with a single peer never finds anything: whatever batches arrive, the intersection is empty. The
  marks of the peers are only counted by the merge, which is skipped for one peer, and the intersection compares
  the count with the number of peers.
\<close>

theorem single_peer_empty:
  assumes "length (tk_peerParties task) = 1"
  shows "mc_intersecCipher (snd (tryToIntersection (fold cache_step es (new_MasterCache task)))) = []"
proof -
  have "uncounted c \<Longrightarrow> uncounted (fold cache_step es c)" for c by (induction es arbitrary: c) (simp_all add: uncounted_step)
  moreover have "uncounted (new_MasterCache task)" using assms by (simp add: uncounted_def new_MasterCache_def)
  ultimately have u: "uncounted (fold cache_step es (new_MasterCache task))" by blast
  then have "filter (\<lambda>(_, r). in_every_set (fold cache_step es (new_MasterCache task)) r)
      (mc_masterDataRef (fold cache_step es (new_MasterCache task))) = []"
    by (auto simp: uncounted_def in_every_set_def filter_empty_conv)
  then show ?thesis using u by (simp add: tryToIntersection_def uncounted_def Let_def)
qed

theorem single_peer_empty_witness:
  "mc_intersecCipher (snd (tryToIntersection (fold cache_step [CalculatorBatch ''b'' [''k''] [0] 1 1] (new_MasterCache sample_task)))) = []"
  by (rule single_peer_empty) (simp add: sample_task_def)

section \<open>An intersection of several batches\<close>

text \<open>
  Every message of the intersection carries the positions of the first batch: the positions are read from the
  start of the list, the items from the start of the batch.
\<close>

theorem batch_positions_repeat:
  "pm_dataIndex (intersection_message box key task n b c) =
     take (length (pm_data (intersection_message box key task n b c))) (pm_dataIndex (intersection_message box key task n 0 c))"
proof -
  let ?l = "length (mc_intersecCipher c)"
  define e where "e = min (b * n + n) ?l - b * n"
  have e: "e \<le> min n ?l" "e \<le> ?l - b * n" by (auto simp: e_def)
  have "pm_dataIndex (intersection_message box key task n b c) = map uint (take e (mc_intersecCipherIndex c))"
    "length (pm_data (intersection_message box key task n b c)) = e"
    using e(2) by (simp_all add: intersection_message_def createPSIMessage_def Let_def e_def)
  moreover have "pm_dataIndex (intersection_message box key task n 0 c) = map uint (take (min n ?l) (mc_intersecCipherIndex c))"
    by (simp add: intersection_message_def createPSIMessage_def Let_def)
  ultimately show ?thesis using e(1) by (simp add: take_map min_absorb1)
qed

section \<open>Items a party has twice\<close>

text \<open>
  Once a peer's items were merged, an item that one party sends twice counts as two parties.
\<close>

theorem duplicate_counts_twice:
  assumes "mc_peerMerged c" and "getPeerIndex p c = Some i" and "map_of (mc_masterDataRef c) k = Some r"
  shows "map_option mr_refCount (map_of (mc_masterDataRef (addPartnerCipher p [k, k] q 0 c)) k) = Some (mr_refCount r + 2)"
  using assms
  by (auto simp: addPartnerCipher_def updateMasterDataRef_def updateDataIndex_def mergeMasterCipher_def map_of_smap_put Let_def
      split: option.splits)

theorem duplicate_counts_twice_witness:
  "(let c = (new_MasterCache sample_task)\<lparr>mc_peers := [''a'', ''b'', ''c''], mc_peerCount := 3, mc_peerMerged := True,
              mc_masterDataRef := [(''k'', \<lparr>mr_refInfo = 1, mr_refCount = 1, mr_dataIndex = 0\<rparr>)]\<rparr>
    in map_option mr_refCount (map_of (mc_masterDataRef (addPartnerCipher ''b'' [''k'', ''k''] 1 0 c)) ''k'')) = Some 3"
  using duplicate_counts_twice [of "(new_MasterCache sample_task)\<lparr>mc_peers := [''a'', ''b'', ''c''], mc_peerCount := 3,
      mc_peerMerged := True, mc_masterDataRef := [(''k'', \<lparr>mr_refInfo = 1, mr_refCount = 1, mr_dataIndex = 0\<rparr>)]\<rparr>" "''b''" 1 "''k''"
      "\<lparr>mr_refInfo = 1, mr_refCount = 1, mr_dataIndex = 0\<rparr>" 1]
  by (simp add: getPeerIndex_def Let_def)

section \<open>More than 31 peers\<close>

text \<open>
  The mark of the peer with index 31 is extended with its sign: an item only that peer has counts as 33 peers.
  The mark of index 32 is the mark of index 0. The limit on the number of peers is 63.
\<close>

theorem many_peers_marks:
  "mr_refCount (resetRefCount (r\<lparr>mr_refInfo := peer_bit 31, mr_refCount := 0\<rparr>)) = 33 \<and> peer_bit 32 = peer_bit 0 \<and> c_max_peer_size = 63"
proof -
  have "bit (scast (push_bit i 1 :: 32 word) :: u64) j \<longleftrightarrow> j < 64 \<and> min 31 j = i" if "i < 32" for i j
    using that by (auto simp: bit_simps min_def)
  moreover have "(31 :: nat) mod 32 = 31" by simp
  ultimately have "bit (peer_bit 31) j \<longleftrightarrow> j < 64 \<and> min 31 j = 31" for j unfolding peer_bit_def by (simp only:)
  moreover have "min 31 j = (31 :: nat) \<longleftrightarrow> 31 \<le> j" for j by linarith
  ultimately have "bits_of (peer_bit 31) = {31..<64}" by (simp only: atLeastLessThan_def lessThan_def atLeast_def) blast
  then have "card (bits_of (peer_bit 31)) = 33" by simp
  then show ?thesis by (simp add: resetRefCount_def count_bits_card peer_bit_def c_max_peer_size_def)
qed

section \<open>A task over the limit\<close>

text \<open>
  A calculator's task with more than 63 peers is answered with an error and leaves the table of pending tasks,
  but the function goes on: the calculator is entered under the task's id and its blinding is queued, and nothing
  removes it, since finished tasks are looked for among the pending ones.
\<close>

theorem over_limit_starts:
  fixes w :: multi and scalar :: bytes and batches :: "bytes list list"
  assumes "length (tk_peerParties task) > 63" and "pa_partyIndex (tk_selfParty task) = PartiesType_Calculator"
    and "pa_dataResource (tk_selfParty task) = Some res" and "dr_rawData res = []"
  defines "r \<equiv> multi_asyncRunTask (\<lambda>_. False) False (Inr (False, batches)) None scalar task w"
  shows "TaskOut (mu_next w) (Answer \<lparr>tr_taskID = tk_id task, tr_error = Some (- 1), tr_status = FAILED\<rparr>) \<in> set (snd r) \<and>
    mu_pendingTasks (fst r) (tk_id task) = None \<and> mu_calculators (fst r) (tk_id task) \<noteq> None \<and>
    mu_calculators (checkFinishedTask (fst r)) (tk_id task) \<noteq> None"
proof -
  have "TaskOut (mu_next w) (Answer \<lparr>tr_taskID = tk_id task, tr_error = Some (- 1), tr_status = FAILED\<rparr>) \<in> set (snd r) \<and>
    mu_pendingTasks (fst r) (tk_id task) = None \<and> mu_calculators (fst r) (tk_id task) \<noteq> None"
    using assms(1-4) unfolding r_def multi_asyncRunTask_def
    by (simp add: c_max_peer_size_def onSelfError_def findPendingTask_def finish_with_error_def task_does_def set_mtask_def mtask_def
        addPendingTask_def onTaskFinished_result_def new_TaskState_def is_error_def remove_task_def removeCalculator_def removePartner_def
        removeMaster_def guarder_removePendingTask_def start_role_def open_writer_def start_calculator_def set_calculator_def
        ts_removeGeneratedOutputFile_def split_beta Let_def)
  then show ?thesis by (simp add: checkFinishedTask_def Let_def)
qed

theorem over_limit_starts_witness:
  "\<exists>r. mu_calculators (fst r) ''t'' \<noteq> None \<and> mu_pendingTasks (fst r) ''t'' = None \<and> (\<exists>task. length (tk_peerParties task) = 64 \<and>
     r = multi_asyncRunTask (\<lambda>_. False) False (Inr (False, [])) None ''k'' task (multi_world ''c''))"
proof -
  let ?task = "sample_task\<lparr>tk_peerParties := map (\<lambda>i. (replicate i CHR ''p'', sample_party ''p'' 1)) [0..<64]\<rparr>"
  have l: "length (tk_peerParties ?task) > 63" "length (tk_peerParties ?task) = 64" by simp_all
  have "pa_partyIndex (tk_selfParty ?task) = PartiesType_Calculator" "tk_id ?task = ''t''"
    by (simp_all add: sample_task_def sample_party_def PartiesType_Calculator_def)
  with over_limit_starts [where batches = "[]" and scalar = "''k''" and w = "multi_world ''c''", OF l(1) this(1)] l(2) show ?thesis
    by (intro exI [of _ "multi_asyncRunTask (\<lambda>_. False) False (Inr (False, [])) None ''k'' ?task (multi_world ''c'')"] conjI exI [of _ ?task])
      (simp_all add: sample_task_def sample_party_def)
qed

section \<open>An empty input\<close>

text \<open>
  A calculator whose input has no batch sends nothing, not even the number of its batches; the master goes on
  waiting for it.
\<close>

theorem empty_input_silent:
  assumes "ts_finished (mu_heap w a) = False" and "mu_reader w a = []" and "ca_taskState c = a"
  shows "snd (cal_blindData task c w) = [] \<and> mu_masters (fst (cal_blindData task c w)) = mu_masters w"
  using assms by (simp add: cal_blindData_def multi_blind_loop.simps set_mtask_def Let_def)

theorem empty_input_silent_witness:
  "snd (cal_blindData ''t'' (new_calculator sample_net (multi_task ''c'') (multi_world ''c'')) (multi_world ''c'')) = []"
  using empty_input_silent [of "multi_world ''c''" 0 "new_calculator sample_net (multi_task ''c'') (multi_world ''c'')" "''t''"]
  by (simp add: multi_world_def new_calculator_def new_TaskState_def)

section \<open>The result at a receiver\<close>

text \<open>
  A receiver writes the calculator's result and answers its task as completed; when writing it throws, the
  task is neither answered nor finished.
\<close>

theorem result_at_receiver:
  assumes "can_finish task (mu_heap w a)"
  shows "if throws (WriteLine (pm_data msg))
    then filter (is_answer a) (snd (store_result throws True a msg w)) = [] \<and> \<not> ts_taskDone (mu_heap (fst (store_result throws True a msg w)) a)
    else (\<forall>x. \<not> throws x) \<longrightarrow> written (mu_heap (fst (store_result throws True a msg w)) a) = pm_data msg \<and>
      filter (is_answer a) (snd (store_result throws True a msg w)) =
        [TaskOut a (Answer \<lparr>tr_taskID = task, tr_error = None, tr_status = COMPLETED\<rparr>)]"
proof (cases "throws (WriteLine (pm_data msg))")
  case True
  then show ?thesis
    using assms by (simp add: can_finish_def store_result_def ts_storePSIResult_def set_mtask_def filter_empty_conv Let_def)
next
  case False
  have "written (mu_heap (fst (store_result throws True a msg w)) a) = pm_data msg \<and>
      filter (is_answer a) (snd (store_result throws True a msg w)) =
        [TaskOut a (Answer \<lparr>tr_taskID = task, tr_error = None, tr_status = COMPLETED\<rparr>)]" if quiet: "\<forall>x. \<not> throws x"
  proof -
    have throws: "throws = (\<lambda>_. False)" using quiet by auto
    obtain s' did where st: "ts_storePSIResult (\<lambda>_. False) (pm_data msg) (mu_heap w a) = (s', did, False)" "\<not> ts_taskDone s'"
      "ts_writer s' = Some (pm_data msg)" "ts_failedCount s' = 0" "ts_callback s'" "ts_finalizeHandler s'" "tk_id (ts_task s') = task"
      using store_lines [OF assms] by blast
    have "filter (is_answer a) (map (TaskOut a \<circ> Did) did) = []" by (simp add: filter_empty_conv)
    then show ?thesis
      using finish_completes [of "set_mtask a s' w" a "pm_data msg" task] st(2-)
      by (simp add: throws store_result_def st(1) set_mtask_def split_beta Let_def)
  qed
  with False show ?thesis by simp
qed

theorem result_at_receiver_witness:
  "(let s = (new_TaskState (multi_task ''p'') False True)\<lparr>ts_finalizeHandler := True, ts_writer := Some []\<rparr>;
        m = (createPSIMessage SYNC_FINAL_RESULT_TO_ALL)\<lparr>pm_data := [''id'', ''2'']\<rparr>
    in written (mu_heap (fst (store_result (\<lambda>_. False) True 0 m (set_mtask 0 s (multi_world ''p'')))) 0)) = [''id'', ''2'']"
  using result_at_receiver [of "''t''" "set_mtask 0 ((new_TaskState (multi_task ''p'') False True)\<lparr>ts_finalizeHandler := True,
      ts_writer := Some []\<rparr>) (multi_world ''p'')" 0 "\<lambda>_. False" "(createPSIMessage SYNC_FINAL_RESULT_TO_ALL)\<lparr>pm_data := [''id'', ''2'']\<rparr>"]
  by (simp add: can_finish_def set_mtask_def new_TaskState_def multi_task_def Let_def)

end
