(* ===== verification/MurmurHash.thy ===== *)
theory MurmurHash
  imports Prelude
begin

text \<open>
  The hash of the cuckoo filter, \<open>BitMixMurmurHash\<close> (wedpr-crypto/ppc-crypto-core/src/hash/BitMixMurmurHash.h):
  mixing of integers, and the two hashes of byte strings, 32 and 64 bits. Words are read from memory in the byte
  order of the processor, little-endian here. Keys are shorter than \<open>2 ^ 31\<close> bytes, so that the lengths, which the
  code keeps in an \<open>int\<close>, do not wrap.

  Shown: mixing 64-bit integers is a bijection, and the hash of a byte string does not depend on the bytes after its
  last full block, unless their number is 1 or 9, because the cases of the \<open>switch\<close> end with \<open>break\<close>.
\<close>

section \<open>Integers\<close>

definition hash64N :: "u64 \<Rightarrow> u64" where
  "hash64N v0 =
     (let v1 = v0 XOR drop_bit 33 v0; v2 = v1 * 0xff51afd7ed558ccd;
          v3 = v2 XOR drop_bit 33 v2; v4 = v3 * 0xc4ceb9fe1a85ec53
      in v4 XOR drop_bit 33 v4)"

definition hash32N :: "u32 \<Rightarrow> u32" where
  "hash32N v0 =
     (let v1 = v0 XOR drop_bit 16 v0; v2 = v1 * 0x85ebca6b;
          v3 = v2 XOR drop_bit 13 v2; v4 = v3 * 0xc2b2ae35
      in v4 XOR drop_bit 16 v4)"

text \<open>\<open>fmix64\<close> is the same function as \<open>hash64N\<close>.\<close>

definition fmix64 :: "u64 \<Rightarrow> u64" where
  "fmix64 k0 =
     (let k1 = k0 XOR drop_bit 33 k0; k2 = k1 * 0xff51afd7ed558ccd;
          k3 = k2 XOR drop_bit 33 k2; k4 = k3 * 0xc4ceb9fe1a85ec53
      in k4 XOR drop_bit 33 k4)"

section \<open>Byte strings\<close>

definition le_word :: "bytes \<Rightarrow> 'a::len word" where
  "le_word bs = foldr (\<lambda>c w. push_bit 8 w OR of_char c) bs 0"

definition rotl32 :: "u32 \<Rightarrow> nat \<Rightarrow> u32" where
  "rotl32 x r = push_bit r x OR drop_bit (32 - r) x"

definition rotl64 :: "u64 \<Rightarrow> nat \<Rightarrow> u64" where
  "rotl64 x r = push_bit r x OR drop_bit (64 - r) x"

subsection \<open>32 bits\<close>

definition m32_c1 :: u32 where "m32_c1 = 0xcc9e2d51"
definition m32_c2 :: u32 where "m32_c2 = 0x1b873593"

definition scramble32 :: "u32 \<Rightarrow> u32" where
  "scramble32 k = rotl32 (k * m32_c1) 15 * m32_c2"

function blocks32 :: "bytes \<Rightarrow> u32 \<Rightarrow> u32" where
  "blocks32 data h =
     (if length data < 4 then h
      else let h' = rotl32 (h XOR scramble32 (le_word (take 4 data))) 13 * 5 + 0xe6546b64
           in blocks32 (drop 4 data) h')"
  by pat_completeness auto
termination by (relation "measure (\<lambda>(data, h). length data)") auto

declare blocks32.simps [simp del]

text \<open>
  The \<open>switch\<close> on the remaining bytes: the variable \<open>k\<close> and the hash after it. Only the case of one byte reaches
  the hash; in the others \<open>k\<close> is assigned and not used again.
\<close>

definition tail32 :: "bytes \<Rightarrow> u32 \<Rightarrow> u32 \<times> u32" where
  "tail32 t h =
     (let n = length t; byte = (\<lambda>i. of_char (t ! i)) in
      if n = 3 then (0 XOR push_bit 16 (byte 2), h)
      else if n = 2 then (0 XOR push_bit 8 (byte 1), h)
      else if n = 1 then (let k = scramble32 (0 XOR byte 0) in (k, h XOR k))
      else (0, h))"

definition hash32 :: "bytes \<Rightarrow> u32 \<Rightarrow> u32" where
  "hash32 key seed =
     (let l = length key div 4;
          h1 = snd (tail32 (drop (4 * l) key) (blocks32 key seed)) XOR of_nat (length key);
          h2 = (h1 XOR drop_bit 16 h1) * 0x85ebca6b;
          h3 = (h2 XOR drop_bit 13 h2) * 0xc2b2ae35
      in h3 XOR drop_bit 16 h3)"

subsection \<open>64 bits\<close>

definition m64_c1 :: u64 where "m64_c1 = 0x87c37b91114253d5"
definition m64_c2 :: u64 where "m64_c2 = 0x4cf5ad432745937f"

function blocks64 :: "bytes \<Rightarrow> u64 \<times> u64 \<Rightarrow> u64 \<times> u64" where
  "blocks64 data h =
     (if length data < 16 then h
      else
        let (h1, h2) = h;
            k1 = rotl64 (le_word (take 8 data) * m64_c1) 31 * m64_c2;
            h1' = (rotl64 (h1 XOR k1) 27 + h2) * 5 + 0x52dce729;
            k2 = rotl64 (le_word (take 8 (drop 8 data)) * m64_c2) 33 * m64_c1;
            h2' = (rotl64 (h2 XOR k2) 31 + h1') * 5 + 0x38495ab5
        in blocks64 (drop 16 data) (h1', h2'))"
  by pat_completeness auto
termination by (relation "measure (\<lambda>(data, h). length data)") auto

declare blocks64.simps [simp del]

text \<open>The variables \<open>k1\<close> and \<open>k2\<close> and the two halves of the hash after the \<open>switch\<close>.\<close>

definition tail64 :: "bytes \<Rightarrow> u64 \<times> u64 \<Rightarrow> (u64 \<times> u64) \<times> u64 \<times> u64" where
  "tail64 t h =
     (let n = length t; byte = (\<lambda>i. of_char (t ! i)); (h1, h2) = h in
      if n = 9 then (let k2 = rotl64 ((0 XOR byte 8) * m64_c2) 33 * m64_c1 in ((0, k2), h1, h2 XOR k2))
      else if n \<ge> 10 then ((0, 0 XOR push_bit (8 * (n - 9)) (byte (n - 1))), h1, h2)
      else if n = 1 then (let k1 = rotl64 ((0 XOR byte 0) * m64_c1) 31 * m64_c2 in ((k1, 0), h1 XOR k1, h2))
      else if n \<ge> 2 then ((0 XOR push_bit (8 * (n - 1)) (byte (n - 1)), 0), h1, h2)
      else ((0, 0), h1, h2))"

definition hash64 :: "bytes \<Rightarrow> u32 \<Rightarrow> u64" where
  "hash64 key seed =
     (let nblocks = length key div 16; len = of_nat (length key);
          (h1, h2) = snd (tail64 (drop (16 * nblocks) key) (blocks64 key (ucast seed, ucast seed)));
          a1 = (h1 XOR len) + (h2 XOR len); a2 = (h2 XOR len) + a1;
          b1 = fmix64 a1; b2 = fmix64 a2
      in b1 + b2)"

text \<open>\<open>hash\<close> by the type of the key; integers ignore the seed, whose default is 32.\<close>

definition hash_bytes :: "bytes \<Rightarrow> nat \<Rightarrow> u64" where
  "hash_bytes key hashBitsLen = (if hashBitsLen \<le> 32 then ucast (hash32 key 32) else hash64 key 32)"

definition hash_int :: "u64 \<Rightarrow> nat \<Rightarrow> u64" where
  "hash_int v hashBitsLen = (if hashBitsLen \<le> 32 then ucast (hash32N (ucast v)) else hash64N v)"

section \<open>Mixing is a bijection\<close>

lemma xor_shift_inj:
  assumes "LENGTH('a) \<le> 2 * n"
  shows "inj (\<lambda>v :: 'a::len word. v XOR drop_bit n v)"
proof (rule inj_on_inverseI)
  fix v :: "'a word"
  show "(v XOR drop_bit n v) XOR drop_bit n (v XOR drop_bit n v) = v"
    by (rule bit_word_eqI) (use assms in \<open>auto simp: bit_simps dest: bit_imp_le_length\<close>)
qed

lemma times_unit_inj: "c * d = 1 \<Longrightarrow> inj (\<lambda>v :: 'a::len word. v * c)"
  by (rule inj_on_inverseI [where g = "\<lambda>v. v * d"]) (simp add: mult.assoc)

lemma mix_constants:
  "(0xff51afd7ed558ccd :: u64) * 0x4f74430c22a54005 = 1" "(0xc4ceb9fe1a85ec53 :: u64) * 0x9cb4b2f8129337db = 1"
  by simp_all

text \<open>
  Mixing 64-bit integers loses nothing: different values have different hashes.
\<close>

theorem hash64N_bij: "bij hash64N"
proof -
  let ?s = "\<lambda>v :: u64. v XOR drop_bit 33 v"
  have "hash64N = ?s \<circ> (\<lambda>v. v * 0xc4ceb9fe1a85ec53) \<circ> ?s \<circ> (\<lambda>v. v * 0xff51afd7ed558ccd) \<circ> ?s"
    by (simp add: fun_eq_iff hash64N_def Let_def)
  moreover have s: "inj ?s" by (rule xor_shift_inj) simp
  have "inj (?s \<circ> (\<lambda>v. v * 0xc4ceb9fe1a85ec53) \<circ> ?s \<circ> (\<lambda>v. v * 0xff51afd7ed558ccd) \<circ> ?s)"
    by (intro inj_compose s times_unit_inj [OF mix_constants(1)] times_unit_inj [OF mix_constants(2)])
  ultimately have "inj hash64N" by (simp only:)
  then show ?thesis by (simp add: bij_def finite_UNIV_inj_surj)
qed

section \<open>The bytes after the last block\<close>

lemma blocks64_append:
  assumes "16 dvd length b" and "length t < 16"
  shows "blocks64 (b @ t) h = blocks64 b h"
  using assms
proof (induction b h rule: blocks64.induct)
  case (1 data h)
  show ?case
  proof (cases "length data < 16")
    case True
    then have "data = []" using 1(2) by (auto simp: dvd_def)
    then show ?thesis using 1(3) by (simp add: blocks64.simps)
  next
    case False
    moreover have "16 dvd length (drop 16 data)" using 1(2) False by (simp add: dvd_diff_nat)
    ultimately show ?thesis
      using 1(1) [OF False refl _ refl refl refl refl] 1(3)
      by (subst (1 2) blocks64.simps) (simp add: Let_def split_beta prod_eq_iff)
  qed
qed

lemma blocks32_append:
  assumes "4 dvd length b" and "length t < 4"
  shows "blocks32 (b @ t) h = blocks32 b h"
  using assms
proof (induction b h rule: blocks32.induct)
  case (1 data h)
  show ?case
  proof (cases "length data < 4")
    case True
    then have "data = []" using 1(2) by (auto simp: dvd_def)
    then show ?thesis using 1(3) by (simp add: blocks32.simps)
  next
    case False
    moreover have "4 dvd length (drop 4 data)" using 1(2) False by (simp add: dvd_diff_nat)
    ultimately show ?thesis
      using 1(1) [OF False refl] 1(3) by (subst (1 2) blocks32.simps) (simp add: Let_def)
  qed
qed

lemma hash64_append_tail:
  assumes "16 dvd length b" and "length t < 16" and "length t' = length t" and "length t \<noteq> 1" and "length t \<noteq> 9"
  shows "hash64 (b @ t) seed = hash64 (b @ t') seed"
proof -
  have d: "16 * ((length b + length t) div 16) = length b" using assms(1,2) by (auto simp: dvd_def)
  have "snd (tail64 t h) = h" "snd (tail64 t' h) = h" for h
    using assms(3-5) by (simp_all add: tail64_def Let_def split_beta)
  then show ?thesis
    using assms(1-3) d by (simp add: hash64_def blocks64_append Let_def)
qed

text \<open>
  The bytes after the last full block of 16 do not enter the 64-bit hash, unless there are 1 or 9 of them: two
  strings that differ only there have the same hash. In particular all strings of the same length from 2 to 8 have
  the same hash.
\<close>

theorem hash64_ignores_tail:
  assumes "16 dvd length b" and "length t < 16" and "length t' = length t" and "length t \<noteq> 1" and "length t \<noteq> 9"
  shows "hash64 (b @ t) seed = hash64 (b @ t') seed"
  using assms by (rule hash64_append_tail)

lemma hash32_ignores_tail:
  assumes "4 dvd length b" and "length t < 4" and "length t' = length t" and "length t \<noteq> 1"
  shows "hash32 (b @ t) seed = hash32 (b @ t') seed"
proof -
  have d: "4 * ((length b + length t) div 4) = length b" using assms(1,2) by (auto simp: dvd_def)
  have "snd (tail32 t h) = h" "snd (tail32 t' h) = h" for h
    using assms(3-4) by (simp_all add: tail32_def Let_def)
  then show ?thesis using assms(1-3) d by (simp add: hash32_def blocks32_append Let_def)
qed

theorem hash64_ignores_tail_witness: "hash64 ''alice'' 32 = hash64 ''bobby'' 32"
  using hash64_ignores_tail [of "[]" "''alice''" "''bobby''" 32] by simp

end
