(* ===== verification/CuckooFilter.thy ===== *)
theory CuckooFilter
  imports MurmurHash
begin

text \<open>
  The cuckoo filter (wedpr-helper/ppc-tools/src/cuckoo): its options (Common.h), the table of buckets with the trash
  bucket (HashTable.h, HashTable.cpp) and the filter on top of it (Cuckoofilter.h, instantiated as everywhere in the
  sources with \<open>BitMixMurmurHash\<close> and \<open>HashTable\<close>). Keys are byte strings.

  A bucket is a byte string that holds \<open>tagNumPerBucket\<close> tags of \<open>tagBits\<close> bits, 0 for a free place. The random
  choice of the tag to kick out is an argument, one number for every kick. What a serialised filter holds is the
  record \<open>archive\<close>; the boost archive that turns it into bytes is a parameter. The buckets the code makes have their
  full length, so no read is out of range (in \<open>getFingerPrint\<close> \<open>at\<close> would throw); deserialised data may break this.
\<close>

section \<open>Options\<close>

definition upperpower2 :: "u64 \<Rightarrow> u64" where
  "upperpower2 x =
     (let x0 = x - 1; x1 = x0 OR drop_bit 1 x0; x2 = x1 OR drop_bit 2 x1; x3 = x2 OR drop_bit 4 x2;
          x4 = x3 OR drop_bit 8 x3; x5 = x4 OR drop_bit 16 x4; x6 = x5 OR drop_bit 32 x5
      in x6 + 1)"

record CuckoofilterOption =
  op_capacity :: u64
  op_tagBits :: u8
  op_tagNumPerBucket :: u8
  op_maxKickOutCount :: u16
  op_trashBucketSize :: u64
  op_bucketCapacity :: u64

definition new_CuckoofilterOption :: CuckoofilterOption where
  "new_CuckoofilterOption = \<lparr>op_capacity = 0, op_tagBits = 64, op_tagNumPerBucket = 4, op_maxKickOutCount = 20,
     op_trashBucketSize = 10000, op_bucketCapacity = 0\<rparr>"

definition calculateBucketCapacity :: "CuckoofilterOption \<Rightarrow> CuckoofilterOption" where
  "calculateBucketCapacity opt = opt\<lparr>op_bucketCapacity := upperpower2 (max 1 (op_capacity opt div ucast (op_tagNumPerBucket opt)))\<rparr>"

datatype CuckooFilterResult = OverLoaded | OverMaxKickOff | Success

section \<open>The table\<close>

record HashTable =
  ht_option :: CuckoofilterOption
  ht_bytesPerBucket :: nat
  ht_bytesPerTag :: nat
  ht_buckets :: "(u32, bytes) smap"
  ht_trashBucket :: "u64 set"
  ht_capacity :: u64
  ht_occupiedCount :: int

definition initHashTableParams :: "HashTable \<Rightarrow> HashTable" where
  "initHashTableParams t =
     (let opt = ht_option t
      in t\<lparr>ht_bytesPerBucket := (unat (op_tagBits opt) * unat (op_tagNumPerBucket opt)) div 8,
           ht_bytesPerTag := unat (op_tagBits opt) div 8\<rparr>)"

definition new_HashTable :: "CuckoofilterOption \<Rightarrow> HashTable" where
  "new_HashTable opt =
     initHashTableParams \<lparr>ht_option = opt, ht_bytesPerBucket = 0, ht_bytesPerTag = 0, ht_buckets = [], ht_trashBucket = {},
       ht_capacity = 0, ht_occupiedCount = 0\<rparr>"

abbreviation tags_of :: "HashTable \<Rightarrow> nat" where
  "tags_of t \<equiv> unat (op_tagNumPerBucket (ht_option t))"

text \<open>The bytes of a tag, most significant first.\<close>

definition read_tag :: "nat \<Rightarrow> nat \<Rightarrow> bytes \<Rightarrow> u64" where
  "read_tag offset n bucket = fold (\<lambda>i fp. push_bit 8 fp OR of_char (bucket ! i)) [offset..<offset + n] 0"

fun write_tag :: "nat \<Rightarrow> nat \<Rightarrow> u64 \<Rightarrow> bytes \<Rightarrow> bytes" where
  "write_tag offset 0 fp bucket = bucket"
| "write_tag offset (Suc n) fp bucket =
     write_tag offset n (drop_bit 8 fp) (bucket[offset + n := char_of (unat (fp AND 0xff))])"

text \<open>The position is a \<open>uint64_t\<close>, the key of the buckets a \<open>uint32_t\<close>.\<close>

definition getFingerPrint :: "u64 \<Rightarrow> nat \<Rightarrow> HashTable \<Rightarrow> u64" where
  "getFingerPrint entry i t =
     (case map_of (ht_buckets t) (ucast entry) of
        None \<Rightarrow> 0
      | Some bucket \<Rightarrow> if bucket = [] then 0 else read_tag (i * ht_bytesPerTag t) (ht_bytesPerTag t) bucket)"

definition writeFingerPrint :: "u64 \<Rightarrow> nat \<Rightarrow> u64 \<Rightarrow> HashTable \<Rightarrow> HashTable" where
  "writeFingerPrint entry i fp t =
     (let bucket = (case map_of (ht_buckets t) (ucast entry) of None \<Rightarrow> [] | Some b \<Rightarrow> b);
          small = (length bucket \<le> ht_bytesPerBucket t);
          bucket1 = (if small then bucket @ replicate (ht_bytesPerBucket t - length bucket) (CHR 0x00) else bucket)
      in t\<lparr>ht_capacity := (if small then ht_capacity t + of_nat (ht_bytesPerBucket t) else ht_capacity t),
           ht_buckets := smap_put (ucast entry) (write_tag (i * ht_bytesPerTag t) (ht_bytesPerTag t) fp bucket1) (ht_buckets t)\<rparr>)"

text \<open>\<open>insert\<close>: whether it inserted, the kicked out tag (the argument \<open>old\<close> when none was), the table.\<close>

definition ht_insert :: "nat \<Rightarrow> u64 \<Rightarrow> u64 \<Rightarrow> u64 \<Rightarrow> bool \<Rightarrow> HashTable \<Rightarrow> bool \<times> u64 \<times> HashTable" where
  "ht_insert random pos fp old kickOut t =
     (case find (\<lambda>i. getFingerPrint pos i t = 0) [0..<tags_of t] of
        Some i \<Rightarrow> (True, old, (writeFingerPrint pos i fp t)\<lparr>ht_occupiedCount := ht_occupiedCount t + 1\<rparr>)
      | None \<Rightarrow>
          if kickOut
          then let i = random mod tags_of t in (True, getFingerPrint pos i t, writeFingerPrint pos i fp t)
          else (False, old, t))"

definition deleteFingerPrint :: "u64 \<Rightarrow> u64 \<Rightarrow> HashTable \<Rightarrow> bool \<times> HashTable" where
  "deleteFingerPrint pos fp t =
     (case find (\<lambda>i. getFingerPrint pos i t = fp) [0..<tags_of t] of
        Some i \<Rightarrow> (True, (writeFingerPrint pos i 0 t)\<lparr>ht_occupiedCount := max 0 (ht_occupiedCount t - 1)\<rparr>)
      | None \<Rightarrow> (False, t))"

definition ht_contains :: "u64 \<Rightarrow> u64 \<Rightarrow> u64 \<Rightarrow> HashTable \<Rightarrow> bool" where
  "ht_contains i1 i2 fp t \<longleftrightarrow>
     list_ex (\<lambda>i. getFingerPrint i1 i t = fp \<or> getFingerPrint i2 i t = fp) [0..<tags_of t] \<or> fp \<in> ht_trashBucket t"

definition ht_full :: "HashTable \<Rightarrow> bool" where
  "ht_full t \<longleftrightarrow> card (ht_trashBucket t) \<ge> unat (op_trashBucketSize (ht_option t))"

definition insertIntoTrash :: "u64 \<Rightarrow> HashTable \<Rightarrow> bool \<times> HashTable" where
  "insertIntoTrash fp t =
     (if fp \<in> ht_trashBucket t then (True, t)
      else if card (ht_trashBucket t) \<ge> unat (op_trashBucketSize (ht_option t)) then (False, t)
      else (True, t\<lparr>ht_trashBucket := insert fp (ht_trashBucket t)\<rparr>))"

definition deleteFromTrashBucket :: "u64 \<Rightarrow> HashTable \<Rightarrow> bool \<times> HashTable" where
  "deleteFromTrashBucket fp t =
     (if fp \<in> ht_trashBucket t then (True, t\<lparr>ht_trashBucket := ht_trashBucket t - {fp}\<rparr>) else (False, t))"

section \<open>The filter\<close>

record Cuckoofilter =
  cf_hashTable :: HashTable
  cf_hashBitsLen :: nat
  cf_totalTagSize :: u64

abbreviation cf_option :: "Cuckoofilter \<Rightarrow> CuckoofilterOption" where
  "cf_option f \<equiv> ht_option (cf_hashTable f)"

definition checkOption :: "CuckoofilterOption \<Rightarrow> exn option" where
  "checkOption opt =
     (if unat (op_tagBits opt) mod 8 \<noteq> 0 then Some (WeDPRException ''the tags size must be multiple of 8'')
      else if op_capacity opt = 0 then Some (WeDPRException ''the capacity must be larger than 0'')
      else if op_tagBits opt > 64 then Some (WeDPRException ''the tagBits must be no larger than 64'')
      else None)"

text \<open>The option is shared with the table, so what \<open>initCuckooFilter\<close> computes reaches it too.\<close>

definition initCuckooFilter :: "HashTable \<Rightarrow> Cuckoofilter res" where
  "initCuckooFilter t =
     (case checkOption (ht_option t) of
        Some e \<Rightarrow> Inl e
      | None \<Rightarrow>
          let opt = calculateBucketCapacity (ht_option t)
          in Inr \<lparr>cf_hashTable = t\<lparr>ht_option := opt\<rparr>, cf_hashBitsLen = (if op_tagBits opt \<le> 32 then 32 else 64),
                  cf_totalTagSize = op_bucketCapacity opt * ucast (op_tagNumPerBucket opt)\<rparr>)"

definition new_Cuckoofilter :: "CuckoofilterOption \<Rightarrow> Cuckoofilter res" where
  "new_Cuckoofilter opt = initCuckooFilter (new_HashTable opt)"

definition calculateFingerPrint :: "u64 \<Rightarrow> Cuckoofilter \<Rightarrow> u64" where
  "calculateFingerPrint h f =
     (let fp = drop_bit (cf_hashBitsLen f - unat (op_tagBits (cf_option f))) h in if fp = 0 then 1 else fp)"

definition index_mask :: "Cuckoofilter \<Rightarrow> u64" where
  "index_mask f = op_bucketCapacity (cf_option f) - 1"

definition other_index :: "Cuckoofilter \<Rightarrow> u64 \<Rightarrow> u64 \<Rightarrow> u64" where
  "other_index f i fp = i XOR (hash_int fp (cf_hashBitsLen f) AND index_mask f)"

definition calculateIndexAndFingerPrint :: "bytes \<Rightarrow> Cuckoofilter \<Rightarrow> u64 \<times> u64 \<times> u64" where
  "calculateIndexAndFingerPrint key f =
     (let h = hash_bytes key (cf_hashBitsLen f);
          i1 = h AND index_mask f;
          fp = calculateFingerPrint h f
      in (i1, other_index f i1 fp, fp))"

definition containsWithoutLock :: "bytes \<Rightarrow> Cuckoofilter \<Rightarrow> bool" where
  "containsWithoutLock key f = (let (i1, i2, fp) = calculateIndexAndFingerPrint key f in ht_contains i1 i2 fp (cf_hashTable f))"

definition set_table :: "HashTable \<Rightarrow> Cuckoofilter \<Rightarrow> Cuckoofilter" where
  "set_table t f = f\<lparr>cf_hashTable := t\<rparr>"

text \<open>The loop that kicks tags out; the first argument is the number of kicks left.\<close>

fun kick_loop :: "nat \<Rightarrow> (nat \<Rightarrow> nat) \<Rightarrow> u64 \<Rightarrow> u64 \<Rightarrow> Cuckoofilter \<Rightarrow> CuckooFilterResult \<times> Cuckoofilter" where
  "kick_loop 0 random index fp f = (OverMaxKickOff, set_table (snd (insertIntoTrash fp (cf_hashTable f))) f)"
| "kick_loop (Suc n) random index fp f =
     (let (_, old, t) = ht_insert (random n) index fp 0 True (cf_hashTable f); f1 = set_table t f
      in if old \<noteq> 0 then kick_loop n random (other_index f index old) old f1 else (Success, f1))"

definition insertWithoutLock :: "(nat \<Rightarrow> nat) \<Rightarrow> bytes \<Rightarrow> Cuckoofilter \<Rightarrow> CuckooFilterResult \<times> Cuckoofilter" where
  "insertWithoutLock random key f =
     (if ht_full (cf_hashTable f) then (OverLoaded, f)
      else
        let (i1, i2, fp) = calculateIndexAndFingerPrint key f;
            (ok1, _, t1) = ht_insert 0 i1 fp 0 False (cf_hashTable f)
        in if ok1 then (Success, set_table t1 f)
           else
             let (ok2, _, t2) = ht_insert 0 i2 fp 0 False (cf_hashTable f)
             in if ok2 then (Success, set_table t2 f)
                else kick_loop (unat (op_maxKickOutCount (cf_option f))) random i1 fp f)"

definition cf_insert :: "(nat \<Rightarrow> nat) \<Rightarrow> bytes \<Rightarrow> Cuckoofilter \<Rightarrow> CuckooFilterResult \<times> Cuckoofilter" where
  "cf_insert random key f = (if containsWithoutLock key f then (Success, f) else insertWithoutLock random key f)"

text \<open>The keys that stay in the batch, and the filter; \<open>batchInsert\<close> says whether none stay.\<close>

fun batch_loop :: "(nat \<Rightarrow> nat \<Rightarrow> nat) \<Rightarrow> bytes list \<Rightarrow> Cuckoofilter \<Rightarrow> bytes list \<times> Cuckoofilter" where
  "batch_loop random [] f = ([], f)"
| "batch_loop random (key # keys) f =
     (if containsWithoutLock key f then batch_loop random keys f
      else
        let (r, f1) = insertWithoutLock (random (length keys)) key f
        in case r of
             Success \<Rightarrow> batch_loop random keys f1
           | OverMaxKickOff \<Rightarrow> let (rest, f2) = batch_loop random keys f1 in (key # rest, f2)
           | OverLoaded \<Rightarrow> (key # keys, f1))"

definition batchInsert :: "(nat \<Rightarrow> nat \<Rightarrow> nat) \<Rightarrow> bytes list \<Rightarrow> Cuckoofilter \<Rightarrow> bool \<times> bytes list \<times> Cuckoofilter" where
  "batchInsert random keys f = (let (rest, f1) = batch_loop random keys f in (rest = [], rest, f1))"

definition batchContain :: "bytes list \<Rightarrow> Cuckoofilter \<Rightarrow> bool list" where
  "batchContain keys f = map (\<lambda>k. containsWithoutLock k f) keys"

definition batchIntersection :: "bytes list \<Rightarrow> bytes list \<Rightarrow> Cuckoofilter \<Rightarrow> bytes list" where
  "batchIntersection result keys f = result @ filter (\<lambda>k. containsWithoutLock k f) keys"

definition batchIntersectionAndGetPos :: "bytes list \<Rightarrow> Cuckoofilter \<Rightarrow> nat list" where
  "batchIntersectionAndGetPos keys f = filter (\<lambda>i. containsWithoutLock (keys ! i) f) [0..<length keys]"

definition deleteKeyWithoutLock :: "bytes \<Rightarrow> Cuckoofilter \<Rightarrow> bool \<times> Cuckoofilter" where
  "deleteKeyWithoutLock key f =
     (let (i1, i2, fp) = calculateIndexAndFingerPrint key f;
          (ok1, t1) = deleteFingerPrint i1 fp (cf_hashTable f)
      in if ok1 then (True, set_table t1 f)
         else
           let (ok2, t2) = deleteFingerPrint i2 fp (cf_hashTable f)
           in if ok2 then (True, set_table t2 f)
              else let (ok3, t3) = deleteFromTrashBucket fp (cf_hashTable f) in (ok3, set_table t3 f))"

fun batchDeleteKey :: "bytes list \<Rightarrow> Cuckoofilter \<Rightarrow> bool list \<times> Cuckoofilter" where
  "batchDeleteKey [] f = ([], f)"
| "batchDeleteKey (k # ks) f =
     (let (ok, f1) = deleteKeyWithoutLock k f; (oks, f2) = batchDeleteKey ks f1 in (ok # oks, f2))"

fun batchDeleteAndGetRemainKeys :: "bytes list \<Rightarrow> Cuckoofilter \<Rightarrow> bytes list \<times> Cuckoofilter" where
  "batchDeleteAndGetRemainKeys [] f = ([], f)"
| "batchDeleteAndGetRemainKeys (k # ks) f =
     (let (ok, f1) = deleteKeyWithoutLock k f; (rest, f2) = batchDeleteAndGetRemainKeys ks f1
      in (if ok then rest else k # rest, f2))"

section \<open>Serialisation\<close>

record archive =
  ar_capacity :: u64
  ar_tagBits :: u8
  ar_tagNumPerBucket :: u8
  ar_maxKickOutCount :: u16
  ar_buckets :: "(u32, bytes) smap"
  ar_trashBucket :: "u64 set"

definition ht_serialize :: "(archive \<Rightarrow> bytes) \<Rightarrow> HashTable \<Rightarrow> bytes" where
  "ht_serialize enc t =
     enc \<lparr>ar_capacity = op_capacity (ht_option t), ar_tagBits = op_tagBits (ht_option t),
          ar_tagNumPerBucket = op_tagNumPerBucket (ht_option t), ar_maxKickOutCount = op_maxKickOutCount (ht_option t),
          ar_buckets = ht_buckets t, ar_trashBucket = ht_trashBucket t\<rparr>"

definition ht_deserialize :: "(bytes \<Rightarrow> archive option) \<Rightarrow> bytes \<Rightarrow> HashTable res" where
  "ht_deserialize dec data =
     (case dec data of
        None \<Rightarrow> Inl (WeDPRException ''archive'')
      | Some a \<Rightarrow> Inr (initHashTableParams
          \<lparr>ht_option = new_CuckoofilterOption\<lparr>op_capacity := ar_capacity a, op_tagBits := ar_tagBits a,
                         op_tagNumPerBucket := ar_tagNumPerBucket a, op_maxKickOutCount := ar_maxKickOutCount a\<rparr>,
           ht_bytesPerBucket = 0, ht_bytesPerTag = 0, ht_buckets = ar_buckets a, ht_trashBucket = ar_trashBucket a,
           ht_capacity = of_nat (length data), ht_occupiedCount = 0\<rparr>))"

definition cf_serialize :: "(archive \<Rightarrow> bytes) \<Rightarrow> Cuckoofilter \<Rightarrow> bytes" where
  "cf_serialize enc f = ht_serialize enc (cf_hashTable f)"

definition cf_deserialize :: "(bytes \<Rightarrow> archive option) \<Rightarrow> bytes \<Rightarrow> Cuckoofilter res" where
  "cf_deserialize dec data = rbind (ht_deserialize dec data) initCuckooFilter"

end
