(* ===== verification/CuckooResult.thy ===== *)
theory CuckooResult
  imports CuckooFilter
begin

text \<open>
  The cuckoo filter has no false negatives: what was inserted is found, and stays found under later insertions, over
  any kicks. The table is used through the locale \<open>tag_array\<close>, an array of tags, which the byte strings of the
  buckets implement.
\<close>

section \<open>An array of tags\<close>

locale tag_array =
  fixes get :: "u64 \<Rightarrow> nat \<Rightarrow> 't \<Rightarrow> u64"
    and store_tag :: "u64 \<Rightarrow> nat \<Rightarrow> u64 \<Rightarrow> 't \<Rightarrow> 't"
    and ok :: "'t \<Rightarrow> bool"
    and places :: "'t \<Rightarrow> nat"
    and fits :: "'t \<Rightarrow> u64 \<Rightarrow> bool"
  assumes get_store: "ok t \<Longrightarrow> i < places t \<Longrightarrow> j < places t \<Longrightarrow> fits t fp \<Longrightarrow>
      get q j (store_tag p i fp t) = (if (ucast q :: u32) = ucast p \<and> j = i then fp else get q j t)"
    and ok_store: "ok t \<Longrightarrow> i < places t \<Longrightarrow> ok (store_tag p i fp t)"
    and places_store: "places (store_tag p i fp t) = places t"
    and fits_store: "fits (store_tag p i fp t) = fits t"
    and fits_get: "ok t \<Longrightarrow> i < places t \<Longrightarrow> fits t (get p i t)"
    and get_cong: "(ucast q :: u32) = ucast p \<Longrightarrow> get q i t = get p i t"
begin

definition holds :: "'t \<Rightarrow> u64 \<Rightarrow> u64 \<Rightarrow> bool" where
  "holds t p fp \<longleftrightarrow> (\<exists>i < places t. get p i t = fp)"

lemma holds_cong: "(ucast q :: u32) = ucast p \<Longrightarrow> holds t q fp = holds t p fp"
  by (simp add: holds_def get_cong [of q p])

lemma holds_written: "ok t \<Longrightarrow> i < places t \<Longrightarrow> fits t fp \<Longrightarrow> holds (store_tag p i fp t) p fp"
  by (auto simp: holds_def places_store get_store)

lemma holds_kept:
  assumes "ok t" and "i < places t" and "fits t fp" and "holds t q x"
  shows "holds (store_tag p i fp t) q x \<or> ((ucast q :: u32) = ucast p \<and> x = get p i t)"
proof -
  obtain j where j: "j < places t" "get q j t = x" using assms(4) by (auto simp: holds_def)
  show ?thesis
  proof (cases "(ucast q :: u32) = ucast p \<and> j = i")
    case True
    then show ?thesis using j(2) get_cong [of q p i t] by auto
  next
    case False
    then have "get q j (store_tag p i fp t) = x" using get_store [OF assms(1,2) j(1) assms(3), of q p] j(2) by auto
    then show ?thesis using j(1) by (auto simp: holds_def places_store)
  qed
qed

lemma holds_new:
  assumes "ok t" and "i < places t" and "fits t fp" and "holds (store_tag p i fp t) q x"
  shows "holds t q x \<or> ((ucast q :: u32) = ucast p \<and> x = fp)"
  using assms by (auto simp: holds_def places_store get_store split: if_splits)

end

section \<open>Tags as bytes\<close>

lemma read_tag_Suc: "read_tag off (Suc n) bucket = push_bit 8 (read_tag off n bucket) OR of_char (bucket ! (off + n))"
  by (simp add: read_tag_def)

lemma read_tag_0 [simp]: "read_tag off 0 bucket = 0"
  by (simp add: read_tag_def)

lemma read_tag_cong: "(\<And>i. i < n \<Longrightarrow> b ! (off + i) = b' ! (off + i)) \<Longrightarrow> read_tag off n b = read_tag off n b'"
  by (induction n) (simp_all add: read_tag_Suc)

lemma length_write_tag [simp]: "length (write_tag off n fp bucket) = length bucket"
  by (induction off n fp bucket rule: write_tag.induct) simp_all

lemma write_tag_other: "k < off \<or> off + n \<le> k \<Longrightarrow> write_tag off n fp bucket ! k = bucket ! k"
  by (induction off n fp bucket rule: write_tag.induct) auto

lemma and_ff: "(fp :: u64) AND 0xff = take_bit 8 fp"
  by (simp add: take_bit_eq_mask mask_eq_exp_minus_1)

lemma of_char_byte: "(of_char (char_of (unat (fp AND 0xff)) :: char) :: u64) = fp AND 0xff"
proof -
  have "fp AND 0xff = take_bit 8 fp" by (rule and_ff)
  moreover have "unat (take_bit 8 fp) = take_bit 8 (unat fp)" by (rule unsigned_take_bit_eq)
  ultimately have "unat (fp AND 0xff) = unat fp mod 2 ^ 8" by (simp only: take_bit_eq_mod)
  then have "unat (fp AND 0xff) < 256" by simp
  then have "(of_char (char_of (unat (fp AND 0xff)) :: char) :: nat) = unat (fp AND 0xff)" by simp
  then have "of_nat (of_char (char_of (unat (fp AND 0xff)) :: char)) = (of_nat (unat (fp AND 0xff)) :: u64)" by (rule arg_cong)
  then show ?thesis by (simp only: of_nat_of_char of_nat_unat ucast_id)
qed

lemma read_written: "off + n \<le> length bucket \<Longrightarrow> n \<le> 8 \<Longrightarrow> read_tag off n (write_tag off n fp bucket) = take_bit (8 * n) fp"
proof (induction off n fp bucket rule: write_tag.induct)
  case (2 off n fp bucket)
  let ?b = "bucket[off + n := char_of (unat (fp AND 0xff))]"
  have "read_tag off n (write_tag off n (drop_bit 8 fp) ?b) = take_bit (8 * n) (drop_bit 8 fp)"
    using 2 by simp
  moreover have "write_tag off n (drop_bit 8 fp) ?b ! (off + n) = char_of (unat (fp AND 0xff))"
    using 2(2) by (simp add: write_tag_other)
  ultimately have "read_tag off (Suc n) (write_tag off (Suc n) fp bucket) = push_bit 8 (take_bit (8 * n) (drop_bit 8 fp)) OR (fp AND 0xff)"
    by (simp add: read_tag_Suc of_char_byte)
  also have "\<dots> = take_bit (8 * Suc n) fp"
    by (rule bit_word_eqI) (auto simp: and_ff bit_simps)
  finally show ?case .
qed simp

lemma read_below: "read_tag off n bucket = take_bit (8 * n) (read_tag off n bucket)"
proof (induction n)
  case (Suc n)
  have "(of_char c :: u64) = take_bit 8 (of_char c)" for c
  proof -
    have "(of_char c :: u64) = of_nat (of_char c)" by (simp add: of_nat_of_char)
    moreover have "(of_char c :: nat) < 256" by (metis of_char_mod_256 mod_less_divisor zero_less_numeral)
    ultimately show ?thesis by (simp add: take_bit_of_nat take_bit_nat_eq_self)
  qed
  then have "bit (of_char c :: u64) k \<Longrightarrow> k < 8" for c k by (metis bit_take_bit_iff)
  moreover have "bit (read_tag off n bucket) k \<Longrightarrow> k < 8 * n" for k using Suc by (metis bit_take_bit_iff)
  ultimately show ?case
    by (intro bit_word_eqI) (force simp: bit_simps read_tag_Suc)
qed simp

section \<open>The table as an array of tags\<close>

definition table_ok :: "HashTable \<Rightarrow> bool" where
  "table_ok t \<longleftrightarrow>
     smap_ok (ht_buckets t) \<and> (\<forall>b \<in> snd ` set (ht_buckets t). length b = ht_bytesPerBucket t)
     \<and> ht_bytesPerBucket t = tags_of t * ht_bytesPerTag t \<and> 0 < ht_bytesPerTag t \<and> ht_bytesPerTag t \<le> 8 \<and> 0 < tags_of t
     \<and> finite (ht_trashBucket t)"

definition tag_fits :: "HashTable \<Rightarrow> u64 \<Rightarrow> bool" where
  "tag_fits t fp \<longleftrightarrow> take_bit (8 * ht_bytesPerTag t) fp = fp"

definition bucket_at :: "u64 \<Rightarrow> HashTable \<Rightarrow> bytes" where
  "bucket_at p t =
     (case map_of (ht_buckets t) (ucast p) of None \<Rightarrow> replicate (ht_bytesPerBucket t) (CHR 0x00) | Some b \<Rightarrow> b)"

lemma length_bucket_at: "table_ok t \<Longrightarrow> length (bucket_at p t) = ht_bytesPerBucket t"
  by (force simp: table_ok_def bucket_at_def dest: map_of_SomeD split: option.splits)

lemma place_in_bucket: "table_ok t \<Longrightarrow> i < tags_of t \<Longrightarrow> i * ht_bytesPerTag t + ht_bytesPerTag t \<le> ht_bytesPerBucket t"
proof -
  assume "table_ok t" and "i < tags_of t"
  then have "Suc i * ht_bytesPerTag t \<le> tags_of t * ht_bytesPerTag t" by (intro mult_le_mono1) simp
  then show ?thesis using \<open>table_ok t\<close> by (simp add: table_ok_def)
qed

lemma places_apart:
  fixes i j b k :: nat
  assumes "i \<noteq> j"
  shows "j * b + k < i * b \<or> i * b + b \<le> j * b + k \<or> b \<le> k"
proof (cases "i < j")
  case True
  then have "Suc i * b \<le> j * b" by (intro mult_le_mono1) simp
  then show ?thesis by simp
next
  case False
  then have "Suc j * b \<le> i * b" using assms by (intro mult_le_mono1) simp
  then show ?thesis by auto
qed

lemma read_zeros: "off + n \<le> m \<Longrightarrow> read_tag off n (replicate m (CHR 0x00)) = 0"
  by (induction n) (simp_all add: read_tag_Suc)

lemma get_bucket_at:
  assumes "table_ok t" and "i < tags_of t"
  shows "getFingerPrint p i t = read_tag (i * ht_bytesPerTag t) (ht_bytesPerTag t) (bucket_at p t)"
proof (cases "map_of (ht_buckets t) (ucast p)")
  case None
  then show ?thesis using place_in_bucket [OF assms] by (simp add: getFingerPrint_def bucket_at_def read_zeros)
next
  case (Some b)
  then have "length b = ht_bytesPerBucket t" using length_bucket_at [OF assms(1), of p] by (simp add: bucket_at_def)
  then have "b \<noteq> []" using assms by (auto simp: table_ok_def)
  then show ?thesis using Some by (simp add: getFingerPrint_def bucket_at_def)
qed

lemma write_bucket_at:
  assumes "table_ok t"
  shows "ht_buckets (writeFingerPrint p i fp t) =
    smap_put (ucast p) (write_tag (i * ht_bytesPerTag t) (ht_bytesPerTag t) fp (bucket_at p t)) (ht_buckets t)"
  using length_bucket_at [OF assms, of p] by (auto simp: writeFingerPrint_def bucket_at_def Let_def split: option.splits)

lemma write_keeps [simp]:
  "ht_option (writeFingerPrint p i fp t) = ht_option t"
  "ht_bytesPerBucket (writeFingerPrint p i fp t) = ht_bytesPerBucket t"
  "ht_bytesPerTag (writeFingerPrint p i fp t) = ht_bytesPerTag t"
  "ht_trashBucket (writeFingerPrint p i fp t) = ht_trashBucket t"
  "ht_occupiedCount (writeFingerPrint p i fp t) = ht_occupiedCount t"
  by (simp_all add: writeFingerPrint_def Let_def)

lemma write_table_ok: "table_ok t \<Longrightarrow> table_ok (writeFingerPrint p i fp t)"
  using smap_put_subset [of "ucast p" _ "ht_buckets t"] length_bucket_at [of t p]
  by (fastforce simp: table_ok_def write_bucket_at smap_ok_put)

lemma bucket_at_write:
  "table_ok t \<Longrightarrow> bucket_at q (writeFingerPrint p i fp t) =
    (if (ucast q :: u32) = ucast p then write_tag (i * ht_bytesPerTag t) (ht_bytesPerTag t) fp (bucket_at p t)
     else bucket_at q t)"
  by (simp add: bucket_at_def [of q] write_bucket_at map_of_smap_put split: option.split)

lemma read_write_place:
  assumes "table_ok t" and "i < tags_of t" and "tag_fits t fp"
  shows "read_tag (j * ht_bytesPerTag t) (ht_bytesPerTag t)
      (write_tag (i * ht_bytesPerTag t) (ht_bytesPerTag t) fp (bucket_at p t)) =
    (if j = i then fp else read_tag (j * ht_bytesPerTag t) (ht_bytesPerTag t) (bucket_at p t))"
proof (cases "j = i")
  case True
  then show ?thesis
    using assms place_in_bucket [OF assms(1,2)] length_bucket_at [OF assms(1), of p]
    by (simp add: read_written tag_fits_def table_ok_def)
next
  case False
  have "read_tag (j * ht_bytesPerTag t) (ht_bytesPerTag t)
      (write_tag (i * ht_bytesPerTag t) (ht_bytesPerTag t) fp (bucket_at p t)) =
    read_tag (j * ht_bytesPerTag t) (ht_bytesPerTag t) (bucket_at p t)"
    by (rule read_tag_cong, rule write_tag_other)
      (use places_apart [of i j "ht_bytesPerTag t"] False in force)
  then show ?thesis using False by simp
qed

interpretation tags: tag_array getFingerPrint writeFingerPrint table_ok tags_of tag_fits
proof
  fix t p q i j fp
  assume "table_ok t" and "i < tags_of t" and "j < tags_of t" and "tag_fits t fp"
  then show "getFingerPrint q j (writeFingerPrint p i fp t) = (if (ucast q :: u32) = ucast p \<and> j = i then fp else getFingerPrint q j t)"
    by (simp add: get_bucket_at write_table_ok bucket_at_write read_write_place) (simp add: bucket_at_def)
next
  fix t p i fp
  show "tags_of (writeFingerPrint p i fp t) = tags_of t" by simp
  show "tag_fits (writeFingerPrint p i fp t) = tag_fits t" by (simp add: tag_fits_def fun_eq_iff)
  assume "table_ok t" and "i < tags_of t"
  then show "table_ok (writeFingerPrint p i fp t)" by (simp add: write_table_ok)
  show "tag_fits t (getFingerPrint p i t)"
    using read_below [symmetric] \<open>table_ok t\<close> \<open>i < tags_of t\<close> by (simp add: tag_fits_def get_bucket_at)
qed (simp add: getFingerPrint_def)

section \<open>Inserting into the table\<close>

text \<open>What a table stores under a position and its alternative, the trash bucket included; 0 is a free place.\<close>

lemma ht_insert_options [simp]:
  "ht_option (snd (snd (ht_insert r p fp old kick t))) = ht_option t"
  "ht_bytesPerTag (snd (snd (ht_insert r p fp old kick t))) = ht_bytesPerTag t"
  "ht_trashBucket (snd (snd (ht_insert r p fp old kick t))) = ht_trashBucket t"
  by (simp_all add: ht_insert_def Let_def split: option.split)

lemma find_place: "find P [0..<n] = Some i \<Longrightarrow> i < n \<and> P i"
  by (auto simp: find_Some_iff)

lemma find_no_place: "find P [0..<n] = None \<Longrightarrow> i < n \<Longrightarrow> \<not> P i"
  by (auto simp: find_None_iff)

lemma get_count [simp]: "getFingerPrint p i (t\<lparr>ht_occupiedCount := c\<rparr>) = getFingerPrint p i t"
  by (simp add: getFingerPrint_def split: option.split)

lemma count_irrelevant [simp]:
  "table_ok (t\<lparr>ht_occupiedCount := c\<rparr>) = table_ok t"
  "tags.holds (t\<lparr>ht_occupiedCount := c\<rparr>) p fp = tags.holds t p fp"
  by (simp_all add: table_ok_def tags.holds_def)

text \<open>A tag is put at its position; the only other tag that may leave the table is the one handed back.\<close>

lemma ht_insert_effect:
  assumes t: "table_ok t" and fp: "tag_fits t fp" and ins: "ht_insert r p fp 0 kick t = (True, old, t1)"
  shows "table_ok t1" and "tags.holds t1 p fp" and "tag_fits t old"
    and "tags.holds t q x \<Longrightarrow> x \<noteq> 0 \<Longrightarrow> tags.holds t1 q x \<or> ((ucast q :: u32) = ucast p \<and> x = old)"
proof -
  obtain i where i: "i < tags_of t" and old: "old = getFingerPrint p i t"
    and t1: "t1 = writeFingerPrint p i fp t \<or> t1 = (writeFingerPrint p i fp t)\<lparr>ht_occupiedCount := ht_occupiedCount t + 1\<rparr>"
  proof (cases "find (\<lambda>i. getFingerPrint p i t = 0) [0..<tags_of t]")
    case (Some i)
    then show ?thesis using that [of i] ins find_place [OF Some] by (simp add: ht_insert_def)
  next
    case None
    then show ?thesis
      using that [of "r mod tags_of t"] ins t by (cases kick) (auto simp: ht_insert_def Let_def table_ok_def)
  qed
  show "table_ok t1" using t1 tags.ok_store [OF t i] by auto
  show "tags.holds t1 p fp" using t1 tags.holds_written [OF t i fp] by auto
  show "tag_fits t old" using tags.fits_get [OF t i] old by simp
  assume "tags.holds t q x" and "x \<noteq> 0"
  then show "tags.holds t1 q x \<or> ((ucast q :: u32) = ucast p \<and> x = old)"
    using tags.holds_kept [OF t i fp, of q x p] t1 old by auto
qed

section \<open>What the filter stores\<close>

definition stored :: "Cuckoofilter \<Rightarrow> u64 \<Rightarrow> u64 \<Rightarrow> bool" where
  "stored f i fp \<longleftrightarrow>
     tags.holds (cf_hashTable f) i fp \<or> tags.holds (cf_hashTable f) (other_index f i fp) fp \<or> fp \<in> ht_trashBucket (cf_hashTable f)"

definition cf_ok :: "Cuckoofilter \<Rightarrow> bool" where
  "cf_ok f \<longleftrightarrow>
     table_ok (cf_hashTable f) \<and> unat (op_tagBits (cf_option f)) = 8 * ht_bytesPerTag (cf_hashTable f)
     \<and> cf_hashBitsLen f = (if op_tagBits (cf_option f) \<le> 32 then 32 else 64)
     \<and> checkOption (cf_option f) = None \<and> calculateBucketCapacity (cf_option f) = cf_option f"

lemma other_index_self [simp]: "other_index f (other_index f i fp) fp = i"
  by (simp add: other_index_def ac_simps)

lemma ucast_xor: "(ucast (a XOR b :: u64) :: u32) = ucast a XOR ucast b"
  by (rule bit_word_eqI) (auto simp: bit_simps)

lemma other_index_cong: "(ucast i :: u32) = ucast j \<Longrightarrow> (ucast (other_index f i fp) :: u32) = ucast (other_index f j fp)"
  by (simp only: other_index_def ucast_xor)

lemma set_table_simps [simp]:
  "cf_hashTable (set_table t f) = t" "cf_hashBitsLen (set_table t f) = cf_hashBitsLen f" "set_table t (set_table u f) = set_table t f"
  by (simp_all add: set_table_def)

lemma other_index_table [simp]: "ht_option t = cf_option f \<Longrightarrow> other_index (set_table t f) i fp = other_index f i fp"
  by (simp add: other_index_def index_mask_def)

lemma stored_other: "stored f (other_index f i fp) fp = stored f i fp"
  by (auto simp: stored_def)

lemma stored_cong: "(ucast i :: u32) = ucast j \<Longrightarrow> stored f i fp = stored f j fp"
  using tags.holds_cong [of i j] tags.holds_cong [OF other_index_cong [of i j f fp]] by (simp add: stored_def)

lemma contains_stored:
  "containsWithoutLock key f =
    (let (i1, _, fp) = calculateIndexAndFingerPrint key f in stored f i1 fp)"
  by (auto simp: containsWithoutLock_def calculateIndexAndFingerPrint_def ht_contains_def stored_def tags.holds_def list_ex_iff Let_def)

lemma fingerprint_not_0: "calculateFingerPrint h f \<noteq> 0"
  by (simp add: calculateFingerPrint_def Let_def)

lemma drop_fits:
  fixes h :: u64
  assumes "take_bit l h = h" and "k \<le> l"
  shows "take_bit k (drop_bit (l - k) h) = drop_bit (l - k) h"
proof (rule bit_word_eqI)
  fix n
  have "bit h (l - k + n) \<Longrightarrow> l - k + n < l" using assms(1) by (metis bit_take_bit_iff)
  then show "bit (take_bit k (drop_bit (l - k) h)) n = bit (drop_bit (l - k) h) n"
    using assms(2) by (auto simp: bit_simps)
qed

lemma hash_bytes_fits: "l = 32 \<or> l = 64 \<Longrightarrow> take_bit l (hash_bytes key l) = hash_bytes key l"
  by (auto simp: hash_bytes_def intro!: bit_word_eqI) (auto simp: bit_simps dest: bit_imp_le_length)

lemma fingerprint_fits:
  assumes "cf_ok f"
  shows "tag_fits (cf_hashTable f) (calculateFingerPrint (hash_bytes key (cf_hashBitsLen f)) f)"
proof -
  let ?l = "cf_hashBitsLen f" and ?b = "unat (op_tagBits (cf_option f))"
  have "?b \<le> ?l" and l: "?l = 32 \<or> ?l = 64" and b: "?b = 8 * ht_bytesPerTag (cf_hashTable f)" "1 \<le> ?b"
    using assms by (auto simp: cf_ok_def table_ok_def word_le_nat_alt)
  then have "take_bit ?b (drop_bit (?l - ?b) (hash_bytes key ?l)) = drop_bit (?l - ?b) (hash_bytes key ?l)"
    by (intro drop_fits hash_bytes_fits)
  then show ?thesis using b by (simp add: tag_fits_def calculateFingerPrint_def Let_def take_bit_of_1)
qed

section \<open>Inserting loses nothing\<close>

text \<open>One filter stores at least what another does, with the same options.\<close>

definition extends :: "Cuckoofilter \<Rightarrow> Cuckoofilter \<Rightarrow> bool" where
  "extends f g \<longleftrightarrow>
     cf_ok g \<and> cf_option g = cf_option f \<and> cf_hashBitsLen g = cf_hashBitsLen f
     \<and> ht_bytesPerTag (cf_hashTable g) = ht_bytesPerTag (cf_hashTable f)
     \<and> (\<forall>i x. x \<noteq> 0 \<longrightarrow> stored f i x \<longrightarrow> stored g i x)"

lemma extends_refl: "cf_ok f \<Longrightarrow> extends f f"
  by (simp add: extends_def)

lemma extends_trans: "extends f g \<Longrightarrow> extends g h \<Longrightarrow> extends f h"
  by (simp add: extends_def)

lemma other_index_extends: "extends f g \<Longrightarrow> other_index g i x = other_index f i x"
  by (simp add: extends_def other_index_def index_mask_def)

lemma contains_extends:
  assumes "extends f g" and "containsWithoutLock key f"
  shows "containsWithoutLock key g"
proof -
  have "calculateIndexAndFingerPrint key g = calculateIndexAndFingerPrint key f"
    using assms(1) by (simp add: extends_def calculateIndexAndFingerPrint_def calculateFingerPrint_def other_index_def index_mask_def)
  then show ?thesis
    using assms fingerprint_not_0
    by (auto simp: contains_stored extends_def calculateIndexAndFingerPrint_def Let_def)
qed

lemma stored_moved:
  assumes "other_index h = other_index f" and "(ucast i :: u32) = ucast p \<or> (ucast (other_index f i x) :: u32) = ucast p"
  shows "stored h (other_index f p x) x = stored h i x"
  using assms stored_cong [of i p h x] stored_cong [of "other_index f i x" p h x] stored_other [of h i x] stored_other [of h p x]
  by auto

text \<open>A tag put into the table: whatever it kicks out is the only loss.\<close>

lemma put_tag:
  fixes t :: HashTable
  assumes f: "cf_ok f" and fp: "tag_fits (cf_hashTable f) fp" and ins: "ht_insert r p fp 0 kick (cf_hashTable f) = (True, old, t)"
  defines "g \<equiv> set_table t f"
  shows "cf_ok g" and "stored g p fp" and "tag_fits (cf_hashTable g) old" and "cf_option g = cf_option f"
    and "ht_trashBucket (cf_hashTable g) = ht_trashBucket (cf_hashTable f)"
    and "ht_bytesPerTag (cf_hashTable g) = ht_bytesPerTag (cf_hashTable f)"
    and "x \<noteq> 0 \<Longrightarrow> stored f i x \<Longrightarrow>
      stored g i x \<or> (x = old \<and> (\<forall>h. other_index h = other_index f \<longrightarrow> stored h (other_index f p x) x = stored h i x))"
proof -
  have t: "table_ok (cf_hashTable f)" using f by (simp add: cf_ok_def)
  note e = ht_insert_effect [OF t fp ins]
  have o [simp]: "ht_option t = cf_option f" "ht_trashBucket t = ht_trashBucket (cf_hashTable f)"
    "ht_bytesPerTag t = ht_bytesPerTag (cf_hashTable f)"
    using ht_insert_options [of r p fp 0 kick "cf_hashTable f"] ins by simp_all
  have oi: "other_index g = other_index f" by (simp add: g_def fun_eq_iff)
  show "cf_ok g" using f e(1) by (simp add: cf_ok_def g_def)
  show "stored g p fp" using e(2) by (simp add: stored_def g_def)
  show "tag_fits (cf_hashTable g) old" using e(3) by (simp add: g_def tag_fits_def)
  show "cf_option g = cf_option f" "ht_trashBucket (cf_hashTable g) = ht_trashBucket (cf_hashTable f)"
    "ht_bytesPerTag (cf_hashTable g) = ht_bytesPerTag (cf_hashTable f)" by (simp_all add: g_def)
  assume x: "x \<noteq> 0" and s: "stored f i x"
  have m: "stored h (other_index f p x) x = stored h i x"
    if "other_index h = other_index f" and "(ucast i :: u32) = ucast p \<or> (ucast (other_index f i x) :: u32) = ucast p" for h
    using that stored_moved [of h f i p x] by blast
  have sg: "stored g i x \<longleftrightarrow> tags.holds t i x \<or> tags.holds t (other_index f i x) x \<or> x \<in> ht_trashBucket (cf_hashTable f)"
    unfolding stored_def oi by (simp add: g_def)
  show "stored g i x \<or> (x = old \<and> (\<forall>h. other_index h = other_index f \<longrightarrow> stored h (other_index f p x) x = stored h i x))"
    using s [unfolded stored_def] sg e(4) [of i x] e(4) [of "other_index f i x" x] x m by blast
qed

lemma stored_trash:
  fixes fp :: u64
  assumes "cf_ok f" and "\<not> ht_full (cf_hashTable f)"
  defines "g \<equiv> set_table (snd (insertIntoTrash fp (cf_hashTable f))) f"
  shows "extends f g" and "stored g i fp"
  using assms by (auto simp: g_def insertIntoTrash_def ht_full_def extends_def cf_ok_def table_ok_def stored_def tags.holds_def
      getFingerPrint_def other_index_def index_mask_def split: option.split)

lemma kick_loop_stores:
  assumes "cf_ok f" and "tag_fits (cf_hashTable f) fp" and "fp \<noteq> 0" and "\<not> ht_full (cf_hashTable f)"
    and "kick_loop n random p fp f = (r, g)"
  shows "extends f g \<and> stored g p fp \<and> r \<noteq> OverLoaded"
  using assms
proof (induction n random p fp f arbitrary: r g rule: kick_loop.induct)
  case (1 random p fp f)
  then show ?case using stored_trash [of f] by auto
next
  case (2 n random p fp f)
  obtain res old t where ins: "ht_insert (random n) p fp 0 True (cf_hashTable f) = (res, old, t)" by (metis prod_cases3)
  then have "res" by (auto simp: ht_insert_def Let_def split: option.splits)
  let ?f = "set_table t f"
  note put = put_tag [OF 2(2,3) ins [unfolded \<open>res\<close> [THEN eqTrueI]]]
  show ?case
  proof (cases "old = 0")
    case True
    then have "r = Success" "g = ?f" using 2(6) ins by simp_all
    then show ?thesis using put True 2(2) by (auto simp: extends_def)
  next
    case False
    then have rec: "kick_loop n random (other_index f p old) old ?f = (r, g)" using 2(6) ins by simp
    have nf: "\<not> ht_full (cf_hashTable ?f)" using 2(5) put(4,5) by (simp add: ht_full_def)
    note ih = 2(1) [OF ins [symmetric] refl refl refl False put(1) put(3) False nf rec]
    then have g: "extends ?f g" "stored g (other_index f p old) old" "r \<noteq> OverLoaded" by simp_all
    have oi: "other_index g = other_index f" using other_index_extends [OF g(1)] put(4) by (simp add: fun_eq_iff)
    have "stored g i x" if "x \<noteq> 0" "stored f i x" for i x
      using put(7) [OF that] g that(1) oi by (auto simp: extends_def)
    then show ?thesis using g put 2(4) by (auto simp: extends_def)
  qed
qed

section \<open>No false negatives\<close>

lemma ht_insert_refused: "ht_insert r p fp old kick t = (False, x, t1) \<Longrightarrow> t1 = t"
  by (auto simp: ht_insert_def Let_def split: option.splits if_splits)

lemma put_extends:
  assumes f: "cf_ok f" and fp: "tag_fits (cf_hashTable f) fp" and ins: "ht_insert r p fp 0 False (cf_hashTable f) = (True, old, t)"
  shows "extends f (set_table t f) \<and> stored (set_table t f) p fp"
proof -
  have "old = 0" using ins by (auto simp: ht_insert_def split: option.splits)
  then show ?thesis using put_tag [OF f fp ins] by (auto simp: extends_def)
qed

lemma insertWithoutLock_stores:
  assumes f: "cf_ok f" and ins: "insertWithoutLock random key f = (r, g)"
  shows "extends f g" and "r \<noteq> OverLoaded \<Longrightarrow> containsWithoutLock key g" and "r = OverLoaded \<Longrightarrow> g = f \<and> ht_full (cf_hashTable f)"
proof -
  obtain i1 i2 fp where x: "calculateIndexAndFingerPrint key f = (i1, i2, fp)" by (metis prod_cases3)
  then have fp: "tag_fits (cf_hashTable f) fp" "fp \<noteq> 0" and i2: "i2 = other_index f i1 fp"
    using fingerprint_fits [OF f, of key] fingerprint_not_0 by (auto simp: calculateIndexAndFingerPrint_def Let_def)
  have x': "calculateIndexAndFingerPrint key g = (i1, i2, fp)" if "extends f g"
    using x that by (simp add: extends_def calculateIndexAndFingerPrint_def calculateFingerPrint_def other_index_def index_mask_def)
  have "extends f g \<and> (r \<noteq> OverLoaded \<longrightarrow> stored g i1 fp) \<and> (r = OverLoaded \<longrightarrow> g = f \<and> ht_full (cf_hashTable f))"
  proof (cases "ht_full (cf_hashTable f)")
    case True
    then show ?thesis using ins extends_refl [OF f] by (simp add: insertWithoutLock_def)
  next
    case False
    obtain a b c where one: "ht_insert 0 i1 fp 0 False (cf_hashTable f) = (a, b, c)" by (metis prod_cases3)
    obtain a' b' c' where two: "ht_insert 0 i2 fp 0 False (cf_hashTable f) = (a', b', c')" by (metis prod_cases3)
    consider "a" | "\<not> a" "a'" | "\<not> a" "\<not> a'" by blast
    then show ?thesis
    proof cases
      case 1
      then show ?thesis using ins False x one put_extends [OF f fp(1), of 0 i1] by (auto simp: insertWithoutLock_def)
    next
      case 2
      then have "extends f g \<and> stored g i2 fp" "r = Success"
        using ins False x one two put_extends [OF f fp(1), of 0 i2] by (auto simp: insertWithoutLock_def)
      then show ?thesis using stored_other [of g i1 fp] i2 other_index_extends [of f g] by auto
    next
      case 3
      then have "kick_loop (unat (op_maxKickOutCount (cf_option f))) random i1 fp f = (r, g)"
        using ins False x one two by (simp add: insertWithoutLock_def)
      then show ?thesis using kick_loop_stores [OF f fp False] by blast
    qed
  qed
  then show "extends f g" and "r \<noteq> OverLoaded \<Longrightarrow> containsWithoutLock key g" and "r = OverLoaded \<Longrightarrow> g = f \<and> ht_full (cf_hashTable f)"
    using x' by (auto simp: contains_stored)
qed

lemma batch_loop_stores:
  assumes "cf_ok f" and "batch_loop random keys f = (rest, g)"
  shows "extends f g \<and> set rest \<subseteq> set keys \<and> (\<forall>k \<in> set keys. k \<notin> set rest \<or> \<not> ht_full (cf_hashTable g) \<longrightarrow> containsWithoutLock k g)"
  using assms
proof (induction random keys f arbitrary: rest g rule: batch_loop.induct)
  case (1 random f)
  then show ?case by (simp add: extends_refl)
next
  case (2 random key keys f)
  show ?case
  proof (cases "containsWithoutLock key f")
    case True
    then have "batch_loop random keys f = (rest, g)" using 2(5) by simp
    from 2(1) [OF True 2(4) this] show ?thesis using contains_extends [OF _ True] by auto
  next
    case False
    obtain r f1 where ins: "insertWithoutLock (random (length keys)) key f = (r, f1)" by fastforce
    note st = insertWithoutLock_stores [OF 2(4) ins]
    have f1: "cf_ok f1" using st(1) by (simp add: extends_def)
    show ?thesis
    proof (cases r)
      case OverLoaded
      then show ?thesis using 2(5) False ins st by auto
    next
      case OverMaxKickOff
      obtain rest' where b: "batch_loop random keys f1 = (rest', g)" "rest = key # rest'"
        using 2(5) False ins OverMaxKickOff by (auto simp: Let_def split: prod.splits)
      from 2(2) [OF False ins [symmetric] refl OverMaxKickOff f1 b(1)] show ?thesis
        using b(2) st extends_trans [of f f1 g] contains_extends [of f1 g key] OverMaxKickOff by auto
    next
      case Success
      then have b: "batch_loop random keys f1 = (rest, g)" using 2(5) False ins by simp
      from 2(3) [OF False ins [symmetric] refl Success f1 b] show ?thesis
        using st extends_trans [of f f1 g] contains_extends [of f1 g key] Success by auto
    qed
  qed
qed

section \<open>The promises of the filter\<close>

lemma bytes_per_tag: "n mod 8 = 0 \<Longrightarrow> (n :: nat) * k div 8 = k * (n div 8)"
  by (metis div_mult_swap dvd_eq_mod_eq_0 mult.commute)

lemma new_table [simp]:
  "ht_option (new_HashTable opt) = opt" "ht_buckets (new_HashTable opt) = []" "ht_trashBucket (new_HashTable opt) = {}"
  "ht_bytesPerTag (new_HashTable opt) = unat (op_tagBits opt) div 8"
  "ht_bytesPerBucket (new_HashTable opt) = unat (op_tagBits opt) * unat (op_tagNumPerBucket opt) div 8"
  by (simp_all add: new_HashTable_def initHashTableParams_def Let_def)

lemma calculateBucketCapacity_simps [simp]:
  "op_tagBits (calculateBucketCapacity opt) = op_tagBits opt"
  "op_tagNumPerBucket (calculateBucketCapacity opt) = op_tagNumPerBucket opt"
  "checkOption (calculateBucketCapacity opt) = checkOption opt"
  "calculateBucketCapacity (calculateBucketCapacity opt) = calculateBucketCapacity opt"
  by (simp_all add: calculateBucketCapacity_def checkOption_def)

lemma checkOption_ok: "checkOption opt = None \<Longrightarrow> unat (op_tagBits opt) mod 8 = 0 \<and> unat (op_tagBits opt) \<le> 64"
  by (auto simp: checkOption_def word_le_nat_alt not_less split: if_splits)

lemma new_filter_ok:
  assumes "new_Cuckoofilter opt = Inr f" and "8 \<le> op_tagBits opt" and "0 < op_tagNumPerBucket opt"
  shows "cf_ok f"
proof -
  have c: "checkOption opt = None"
    and f: "cf_hashTable f = (new_HashTable opt)\<lparr>ht_option := calculateBucketCapacity opt\<rparr>"
      "cf_hashBitsLen f = (if op_tagBits opt \<le> 32 then 32 else 64)"
    using assms(1) by (auto simp: new_Cuckoofilter_def initCuckooFilter_def Let_def split: option.splits)
  let ?b = "unat (op_tagBits opt)"
  note m = checkOption_ok [OF c]
  have "8 \<le> ?b" "0 < unat (op_tagNumPerBucket opt)"
    using assms(2,3) by (simp_all add: word_le_nat_alt word_less_nat_alt)
  then have "0 < ?b div 8" "?b div 8 \<le> 8" "?b = 8 * (?b div 8)" using m by presburger+
  then show ?thesis
    using f c m \<open>0 < unat (op_tagNumPerBucket opt)\<close> bytes_per_tag [of ?b "unat (op_tagNumPerBucket opt)"]
    by (simp add: cf_ok_def table_ok_def)
qed

text \<open>
  (C13) Inserting a key loses nothing: unless the filter is over its limit and refuses, the key is found afterwards, even
  when the kicks ran out, and every key that was found before is found still.
\<close>

theorem cf_insert_keeps:
  assumes "cf_ok f" and "cf_insert random key f = (r, g)"
  shows "cf_ok g \<and> (r \<noteq> OverLoaded \<longrightarrow> containsWithoutLock key g) \<and> (\<forall>k. containsWithoutLock k f \<longrightarrow> containsWithoutLock k g)"
proof (cases "containsWithoutLock key f")
  case True
  then show ?thesis using assms by (auto simp: cf_insert_def)
next
  case False
  then have "insertWithoutLock random key f = (r, g)" using assms(2) by (simp add: cf_insert_def)
  note st = insertWithoutLock_stores [OF assms(1) this]
  then show ?thesis using contains_extends [OF st(1)] by (simp add: extends_def)
qed

text \<open>
  (C25) The intersection by the filter misses nothing: when a batch is put into a new filter and the trash bucket does not
  fill up, then every key of the batch that another list has is in the intersection of that list with the filter.
\<close>

theorem filter_intersection_complete:
  assumes "new_Cuckoofilter opt = Inr f" and "8 \<le> op_tagBits opt" and "0 < op_tagNumPerBucket opt"
    and "batchInsert random server f = (ok, rest, g)" and "\<not> ht_full (cf_hashTable g)"
  shows "set server \<inter> set client \<subseteq> set (batchIntersection [] client g)"
proof -
  have "batch_loop random server f = (rest, g)"
    using assms(4) by (auto simp: batchInsert_def Let_def split: prod.splits)
  from batch_loop_stores [OF new_filter_ok [OF assms(1-3)] this] show ?thesis
    using assms(5) by (auto simp: batchIntersection_def)
qed

section \<open>Keys the hash does not tell apart\<close>

lemma hash_bytes_tail:
  assumes "length k' = length k" and "take (16 * (length k div 16)) k' = take (16 * (length k div 16)) k"
    and "length k mod 16 \<noteq> 1" and "length k mod 16 \<noteq> 9"
  shows "hash64 k' seed = hash64 k seed"
proof -
  let ?n = "16 * (length k div 16)"
  have l: "length (take ?n k) = ?n" by simp
  have d: "length (drop ?n k) = length k mod 16" "length (drop ?n k') = length k mod 16"
    using assms(1) by (simp_all add: minus_mult_div_eq_mod)
  have "hash64 (take ?n k @ drop ?n k') seed = hash64 (take ?n k @ drop ?n k) seed"
    using hash64_append_tail [of "take ?n k" "drop ?n k'" "drop ?n k" seed] l d assms(3,4) by simp
  moreover have "k' = take ?n k @ drop ?n k'" using append_take_drop_id [of ?n k'] assms(2) by simp
  ultimately show ?thesis by simp
qed

text \<open>
  (C26) A filter with tags of more than 32 bits does not tell two keys of the same length apart when they differ only after
  their last block of 16 bytes, unless one or nine bytes follow it: all keys of eleven characters are in the filter as soon
  as one is.
\<close>

theorem same_length_keys_alike:
  assumes "cf_hashBitsLen f = 64" and "length k' = length k"
    and "take (16 * (length k div 16)) k' = take (16 * (length k div 16)) k" and "length k mod 16 \<noteq> 1" and "length k mod 16 \<noteq> 9"
  shows "containsWithoutLock k' f = containsWithoutLock k f"
  using hash_bytes_tail [OF assms(2-5), of 32] assms(1)
  by (simp add: containsWithoutLock_def calculateIndexAndFingerPrint_def hash_bytes_def)

section \<open>Serialisation\<close>

definition ht_archive :: "HashTable \<Rightarrow> archive" where
  "ht_archive t =
     \<lparr>ar_capacity = op_capacity (ht_option t), ar_tagBits = op_tagBits (ht_option t),
      ar_tagNumPerBucket = op_tagNumPerBucket (ht_option t), ar_maxKickOutCount = op_maxKickOutCount (ht_option t),
      ar_buckets = ht_buckets t, ar_trashBucket = ht_trashBucket t\<rparr>"

lemma ht_deserialize_serialize:
  assumes "unat (op_tagBits (ht_option t)) = 8 * ht_bytesPerTag t" and "ht_bytesPerBucket t = tags_of t * ht_bytesPerTag t"
    and "dec (enc (ht_archive t)) = Some (ht_archive t)"
  shows "ht_deserialize dec (ht_serialize enc t) =
    Inr (t\<lparr>ht_option := (ht_option t)\<lparr>op_trashBucketSize := 10000, op_bucketCapacity := 0\<rparr>,
           ht_capacity := of_nat (length (ht_serialize enc t)), ht_occupiedCount := 0\<rparr>)"
proof -
  obtain opt bb bt bs tr c n where t: "t = \<lparr>ht_option = opt, ht_bytesPerBucket = bb, ht_bytesPerTag = bt, ht_buckets = bs,
    ht_trashBucket = tr, ht_capacity = c, ht_occupiedCount = n\<rparr>" by (cases t)
  have "8 * bt * k div 8 = k * bt" for k by simp
  then show ?thesis
    using assms unfolding t
    by (cases opt) (simp add: ht_deserialize_def ht_serialize_def ht_archive_def initHashTableParams_def new_CuckoofilterOption_def Let_def)
qed

text \<open>
  (C27) A filter that was serialised and read back answers for every key as the original; what it does not keep is the limit
  of the trash bucket, which falls back to 10000, and the count of occupied places, which starts at 0.
\<close>

theorem cf_serialize_roundtrip:
  assumes "cf_ok f" and "dec (enc (ht_archive (cf_hashTable f))) = Some (ht_archive (cf_hashTable f))"
  shows "\<exists>g. cf_deserialize dec (cf_serialize enc f) = Inr g \<and> cf_ok g
    \<and> (\<forall>key. containsWithoutLock key g = containsWithoutLock key f)
    \<and> op_trashBucketSize (cf_option g) = 10000 \<and> ht_occupiedCount (cf_hashTable g) = 0"
proof -
  let ?t = "cf_hashTable f" and ?o = "(cf_option f)\<lparr>op_trashBucketSize := 10000\<rparr>"
  define t where "t = ?t\<lparr>ht_option := ?o, ht_capacity := of_nat (length (cf_serialize enc f)), ht_occupiedCount := 0\<rparr>"
  have tags: "unat (op_tagBits (cf_option f)) = 8 * ht_bytesPerTag ?t" "ht_bytesPerBucket ?t = tags_of ?t * ht_bytesPerTag ?t"
    using assms(1) by (auto simp: cf_ok_def table_ok_def)
  have chk: "checkOption (cf_option f) = None" and cap: "calculateBucketCapacity (cf_option f) = cf_option f"
    using assms(1) by (auto simp: cf_ok_def)
  have u: "ht_deserialize dec (cf_serialize enc f) = Inr (t\<lparr>ht_option := ?o\<lparr>op_bucketCapacity := 0\<rparr>\<rparr>)"
    using ht_deserialize_serialize [of ?t dec enc, OF tags assms(2)] by (simp add: t_def cf_serialize_def)
  moreover have "checkOption (?o\<lparr>op_bucketCapacity := 0\<rparr>) = None" using chk by (simp add: checkOption_def split: if_splits)
  moreover have "calculateBucketCapacity (?o\<lparr>op_bucketCapacity := 0\<rparr>) = ?o"
    using cap by (cases "cf_option f") (simp add: calculateBucketCapacity_def)
  ultimately have "cf_deserialize dec (cf_serialize enc f) =
    Inr \<lparr>cf_hashTable = t, cf_hashBitsLen = (if op_tagBits (ht_option t) \<le> 32 then 32 else 64),
      cf_totalTagSize = op_bucketCapacity (ht_option t) * ucast (op_tagNumPerBucket (ht_option t))\<rparr>"
    by (simp add: cf_deserialize_def initCuckooFilter_def Let_def t_def)
  then obtain g where g: "cf_deserialize dec (cf_serialize enc f) = Inr g" "cf_hashTable g = t"
    "cf_hashBitsLen g = (if op_tagBits (ht_option t) \<le> 32 then 32 else 64)"
    by simp
  have same: "getFingerPrint p i t = getFingerPrint p i ?t" for p i
    by (simp add: t_def getFingerPrint_def split: option.split)
  have "checkOption ?o = None" using chk by (simp add: checkOption_def split: if_splits)
  moreover have "calculateBucketCapacity ?o = ?o" using cap by (cases "cf_option f") (simp add: calculateBucketCapacity_def)
  ultimately have "cf_ok g" using assms(1) g(2,3) by (simp add: cf_ok_def table_ok_def t_def)
  moreover have "containsWithoutLock key g = containsWithoutLock key f" for key
    using assms(1) g(2,3) same
    by (simp add: containsWithoutLock_def calculateIndexAndFingerPrint_def calculateFingerPrint_def other_index_def index_mask_def
        ht_contains_def cf_ok_def t_def)
  ultimately show ?thesis using g by (auto simp: t_def)
qed

section \<open>Samples\<close>

definition sample_option :: CuckoofilterOption where
  "sample_option = new_CuckoofilterOption\<lparr>op_capacity := 8, op_tagBits := 16\<rparr>"

definition sample_filter :: Cuckoofilter where
  "sample_filter =
     (case new_Cuckoofilter sample_option of Inr f \<Rightarrow> f
      | Inl e \<Rightarrow> \<lparr>cf_hashTable = new_HashTable sample_option, cf_hashBitsLen = 0, cf_totalTagSize = 0\<rparr>)"

lemma sample_filter_new: "new_Cuckoofilter sample_option = Inr sample_filter"
  by (simp add: sample_filter_def sample_option_def new_Cuckoofilter_def initCuckooFilter_def new_HashTable_def
      initHashTableParams_def new_CuckoofilterOption_def checkOption_def Let_def)

lemma sample_filter_ok: "cf_ok sample_filter"
  by (rule new_filter_ok [OF sample_filter_new]) (simp_all add: sample_option_def new_CuckoofilterOption_def)

lemma first_key:
  assumes "ht_buckets (cf_hashTable f) = []" and "ht_trashBucket (cf_hashTable f) = {}" and "0 < tags_of (cf_hashTable f)"
    and "0 < op_trashBucketSize (cf_option f)"
  shows "batchInsert random [key] f =
    (True, [], snd (insertWithoutLock (random 0) key f)) \<and> \<not> ht_full (cf_hashTable (snd (insertWithoutLock (random 0) key f)))"
proof -
  have g: "getFingerPrint p i (cf_hashTable f) = 0" for p i using assms(1) by (simp add: getFingerPrint_def)
  obtain i1 i2 fp where x: "calculateIndexAndFingerPrint key f = (i1, i2, fp)" by (metis prod_cases3)
  then have "fp \<noteq> 0" using fingerprint_not_0 by (auto simp: calculateIndexAndFingerPrint_def Let_def)
  then have "\<not> containsWithoutLock key f" using x g assms(2) by (simp add: containsWithoutLock_def ht_contains_def list_ex_iff)
  moreover have "\<not> ht_full (cf_hashTable f)" using assms(2,4) by (simp add: ht_full_def word_less_nat_alt unat_gt_0)
  moreover have "find (\<lambda>i. getFingerPrint p i (cf_hashTable f) = 0) [0..<tags_of (cf_hashTable f)] = Some 0" for p
    using assms(3) g by (simp add: upt_conv_Cons)
  ultimately show ?thesis
    using x by (simp add: batchInsert_def insertWithoutLock_def ht_insert_def ht_full_def)
qed

lemma sample_filter_table:
  "ht_buckets (cf_hashTable sample_filter) = []" "ht_trashBucket (cf_hashTable sample_filter) = {}"
  "op_tagNumPerBucket (cf_option sample_filter) = 4" "op_trashBucketSize (cf_option sample_filter) = 10000"
  by (simp_all add: sample_filter_def sample_option_def new_Cuckoofilter_def initCuckooFilter_def new_HashTable_def
      initHashTableParams_def new_CuckoofilterOption_def checkOption_def calculateBucketCapacity_def Let_def)

text \<open>The filter with one key.\<close>

definition sample_stored :: Cuckoofilter where
  "sample_stored = snd (insertWithoutLock (\<lambda>_. 0) ''alice'' sample_filter)"

lemma sample_batch:
  "batchInsert (\<lambda>_ _. 0) [''alice''] sample_filter = (True, [], sample_stored)" "\<not> ht_full (cf_hashTable sample_stored)"
  using first_key [of sample_filter "\<lambda>_ _. 0" "''alice''"] sample_filter_table by (simp_all add: sample_stored_def)

theorem cf_insert_keeps_witness: "\<exists>r g. cf_insert (\<lambda>_. 0) ''alice'' sample_filter = (r, g) \<and> cf_ok g"
  using cf_insert_keeps [OF sample_filter_ok, of "\<lambda>_. 0" "''alice''"] by (metis surj_pair)

theorem filter_intersection_complete_witness: "''alice'' \<in> set (batchIntersection [] [''carol'', ''alice''] sample_stored)"
  using filter_intersection_complete [OF sample_filter_new _ _ sample_batch(1) sample_batch(2), of "[''carol'', ''alice'']"]
  by (simp add: sample_option_def new_CuckoofilterOption_def)

text \<open>A filter with tags of the default 64 bits does not tell two telephone numbers apart.\<close>

definition default_filter :: Cuckoofilter where
  "default_filter = \<lparr>cf_hashTable = new_HashTable new_CuckoofilterOption, cf_hashBitsLen = 64, cf_totalTagSize = 4\<rparr>"

theorem same_length_keys_alike_witness:
  "containsWithoutLock ''13800000001'' (snd (insertWithoutLock (\<lambda>_. 0) ''13911111111'' default_filter)) =
   containsWithoutLock ''13911111111'' (snd (insertWithoutLock (\<lambda>_. 0) ''13911111111'' default_filter))"
proof (rule same_length_keys_alike)
  have "cf_hashBitsLen (snd (kick_loop n r i fp f)) = cf_hashBitsLen f" for n r i fp f
    by (induction n r i fp f rule: kick_loop.induct) (auto simp: Let_def split: prod.split)
  then show "cf_hashBitsLen (snd (insertWithoutLock (\<lambda>_. 0) ''13911111111'' default_filter)) = 64"
    by (simp add: insertWithoutLock_def default_filter_def Let_def split: prod.split)
qed simp_all

theorem cf_serialize_roundtrip_witness:
  "\<exists>g. cf_deserialize (\<lambda>_. Some (ht_archive (cf_hashTable sample_stored))) (cf_serialize (\<lambda>_. ''x'') sample_stored) = Inr g
    \<and> containsWithoutLock ''alice'' g = containsWithoutLock ''alice'' sample_stored"
proof -
  have "cf_ok sample_stored"
    using insertWithoutLock_stores(1) [OF sample_filter_ok surjective_pairing, of "\<lambda>_. 0" "''alice''"]
    by (simp add: sample_stored_def extends_def)
  from cf_serialize_roundtrip [OF this, of "\<lambda>_. Some (ht_archive (cf_hashTable sample_stored))" "\<lambda>_. ''x''"] show ?thesis
    by blast
qed

end
