(* ===== verification/CuckooDelete.thy ===== *)
theory CuckooDelete
  imports CuckooResult
begin

text \<open>
  Deleting from the cuckoo filter, and its number of buckets. A deletion succeeds exactly when the key is found, empties
  exactly one place that held the key's tag, and does not touch keys with another fingerprint; a key with the same hash is
  lost with it. The number of buckets is the least
  power of two above the capacity by the tags of a bucket.
\<close>

section \<open>Deleting\<close>

lemma deleteFingerPrint_effect:
  assumes t: "table_ok t" and del: "deleteFingerPrint p fp t = (b, t1)"
  shows "b = tags.holds t p fp" and "\<not> b \<Longrightarrow> t1 = t" and "table_ok t1" and "ht_option t1 = ht_option t"
    and "ht_bytesPerTag t1 = ht_bytesPerTag t" and "ht_trashBucket t1 = ht_trashBucket t"
    and "x \<noteq> fp \<Longrightarrow> x \<noteq> 0 \<Longrightarrow> tags.holds t1 q x = tags.holds t q x"
proof -
  have "b = tags.holds t p fp \<and> (\<not> b \<longrightarrow> t1 = t) \<and> table_ok t1 \<and> ht_option t1 = ht_option t
    \<and> ht_bytesPerTag t1 = ht_bytesPerTag t \<and> ht_trashBucket t1 = ht_trashBucket t
    \<and> (x \<noteq> fp \<longrightarrow> x \<noteq> 0 \<longrightarrow> tags.holds t1 q x = tags.holds t q x)" for x q
  proof (cases "find (\<lambda>i. getFingerPrint p i t = fp) [0..<tags_of t]")
    case None
    then show ?thesis using del t find_no_place [OF None] by (auto simp: deleteFingerPrint_def tags.holds_def)
  next
    case (Some i)
    then have i: "i < tags_of t" "getFingerPrint p i t = fp" using find_place by auto
    have zero: "tag_fits t 0" by (simp add: tag_fits_def)
    have "b" "t1 = (writeFingerPrint p i 0 t)\<lparr>ht_occupiedCount := max 0 (ht_occupiedCount t - 1)\<rparr>"
      using del Some by (simp_all add: deleteFingerPrint_def)
    then show ?thesis
      using i t tags.ok_store [OF t i(1), of p 0] tags.holds_kept [OF t i(1) zero, of q x p] tags.holds_new [OF t i(1) zero, of p q x]
      by (auto simp: tags.holds_def [of t p])
  qed
  then show "b = tags.holds t p fp" and "\<not> b \<Longrightarrow> t1 = t" and "table_ok t1" and "ht_option t1 = ht_option t"
    and "ht_bytesPerTag t1 = ht_bytesPerTag t" and "ht_trashBucket t1 = ht_trashBucket t"
    and "x \<noteq> fp \<Longrightarrow> x \<noteq> 0 \<Longrightarrow> tags.holds t1 q x = tags.holds t q x" by blast+
qed

text \<open>The fingerprint of a key.\<close>

definition fingerprint_of :: "bytes \<Rightarrow> Cuckoofilter \<Rightarrow> u64" where
  "fingerprint_of key f = calculateFingerPrint (hash_bytes key (cf_hashBitsLen f)) f"

lemma fingerprint_of_not_0: "fingerprint_of key f \<noteq> 0"
  by (simp add: fingerprint_of_def fingerprint_not_0)

lemma contains_fingerprint:
  "containsWithoutLock key f = stored f (hash_bytes key (cf_hashBitsLen f) AND index_mask f) (fingerprint_of key f)"
  by (simp add: contains_stored calculateIndexAndFingerPrint_def fingerprint_of_def Let_def)

lemma fingerprint_of_table: "ht_option t = cf_option f \<Longrightarrow> fingerprint_of key (set_table t f) = fingerprint_of key f"
  by (simp add: fingerprint_of_def calculateFingerPrint_def)

lemma index_mask_table: "ht_option t = cf_option f \<Longrightarrow> index_mask (set_table t f) = index_mask f"
  by (simp add: index_mask_def)

lemma get_trash [simp]: "getFingerPrint p i (t\<lparr>ht_trashBucket := s\<rparr>) = getFingerPrint p i t"
  by (simp add: getFingerPrint_def split: option.split)

lemma set_table_delete:
  assumes "cf_ok f" and "table_ok t" and "ht_option t = cf_option f" and "ht_bytesPerTag t = ht_bytesPerTag (cf_hashTable f)"
    and "\<And>q x. x \<noteq> fp \<Longrightarrow> x \<noteq> 0 \<Longrightarrow> tags.holds t q x = tags.holds (cf_hashTable f) q x"
    and "ht_trashBucket t \<union> {fp} = ht_trashBucket (cf_hashTable f) \<union> {fp}"
  shows "cf_ok (set_table t f) \<and>
    (\<forall>k. fingerprint_of k f \<noteq> fp \<longrightarrow> containsWithoutLock k (set_table t f) = containsWithoutLock k f)"
proof -
  have "containsWithoutLock k (set_table t f) = containsWithoutLock k f" if "fingerprint_of k f \<noteq> fp" for k
    using that assms(3,5,6) fingerprint_of_not_0 [of k f]
    by (auto simp: contains_fingerprint fingerprint_of_table index_mask_table stored_def)
  moreover have "cf_ok (set_table t f)" using assms(1-4) by (simp add: cf_ok_def)
  ultimately show ?thesis by blast
qed

lemma delete_keeps_others:
  assumes "cf_ok f" and "deleteKeyWithoutLock key f = (b, g)"
  shows "(b \<longleftrightarrow> containsWithoutLock key f) \<and> cf_ok g
    \<and> (\<forall>k. fingerprint_of k f \<noteq> fingerprint_of key f \<longrightarrow> containsWithoutLock k g = containsWithoutLock k f)"
proof -
  let ?t = "cf_hashTable f"
  obtain i1 i2 fp where x: "calculateIndexAndFingerPrint key f = (i1, i2, fp)" by (metis prod_cases3)
  then have fp: "fp = fingerprint_of key f" and i2: "i2 = other_index f i1 fp"
    by (auto simp: calculateIndexAndFingerPrint_def fingerprint_of_def Let_def)
  have t: "table_ok ?t" using assms(1) by (simp add: cf_ok_def)
  obtain b1 t1 where one: "deleteFingerPrint i1 fp ?t = (b1, t1)" by fastforce
  obtain b2 t2 where two: "deleteFingerPrint i2 fp ?t = (b2, t2)" by fastforce
  note e1 = deleteFingerPrint_effect [OF t one] and e2 = deleteFingerPrint_effect [OF t two]
  have found: "containsWithoutLock key f \<longleftrightarrow> b1 \<or> b2 \<or> fp \<in> ht_trashBucket ?t"
    using x i2 e1(1) e2(1) by (simp add: contains_stored stored_def)
  consider "b1" | "\<not> b1" "b2" | "\<not> b1" "\<not> b2" by blast
  then show ?thesis
  proof cases
    case 1
    then have "b" "g = set_table t1 f" using assms(2) x one by (simp_all add: deleteKeyWithoutLock_def)
    then show ?thesis using 1 found set_table_delete [OF assms(1) e1(3,4,5,7), of fp] e1(6) fp by simp
  next
    case 2
    then have "b" "g = set_table t2 f" using assms(2) x one two by (simp_all add: deleteKeyWithoutLock_def)
    then show ?thesis using 2 found set_table_delete [OF assms(1) e2(3,4,5,7), of fp] e2(6) fp by simp
  next
    case 3
    then have "(b, g) = (let (ok, t3) = deleteFromTrashBucket fp ?t in (ok, set_table t3 f))"
      using assms(2) x one two by (simp add: deleteKeyWithoutLock_def)
    then have "b = (fp \<in> ht_trashBucket ?t)" and g: "g = set_table (?t\<lparr>ht_trashBucket := ht_trashBucket ?t - {fp}\<rparr>) f"
      by (auto simp: deleteFromTrashBucket_def split: if_splits)
    moreover have "table_ok (?t\<lparr>ht_trashBucket := ht_trashBucket ?t - {fp}\<rparr>)" using t by (simp add: table_ok_def)
    moreover have "tags.holds (?t\<lparr>ht_trashBucket := ht_trashBucket ?t - {fp}\<rparr>) q x = tags.holds ?t q x" for q x
      by (simp add: tags.holds_def)
    ultimately show ?thesis
      using 3 found fp set_table_delete [OF assms(1), of "?t\<lparr>ht_trashBucket := ht_trashBucket ?t - {fp}\<rparr>" fp] by auto
  qed
qed

lemma delete_found: "cf_ok f \<Longrightarrow> deleteKeyWithoutLock key f = (b, g) \<Longrightarrow> b = containsWithoutLock key f"
  using delete_keeps_others by blast

text \<open>
  What a deletion removes. A place of the table is a bucket, whose key is the 32-bit position, and an index in it. \<open>emptied\<close>:
  the place is empty afterwards, every other place and the trash bucket are as before, and one place less counts as occupied.
\<close>

definition emptied :: "u64 \<Rightarrow> nat \<Rightarrow> HashTable \<Rightarrow> HashTable \<Rightarrow> bool" where
  "emptied p i t t' \<longleftrightarrow> getFingerPrint p i t' = 0 \<and>
     (\<forall>q j. j < tags_of t \<and> ((ucast q :: u32) \<noteq> ucast p \<or> j \<noteq> i) \<longrightarrow> getFingerPrint q j t' = getFingerPrint q j t) \<and>
     ht_trashBucket t' = ht_trashBucket t \<and> ht_occupiedCount t' = max 0 (ht_occupiedCount t - 1)"

lemma get_occupied: "getFingerPrint q j (t\<lparr>ht_occupiedCount := c\<rparr>) = getFingerPrint q j t"
  by (simp add: getFingerPrint_def split: option.split)

lemma deleteFingerPrint_empties:
  assumes t: "table_ok t" and del: "deleteFingerPrint p fp t = (True, t1)"
  shows "\<exists>i < tags_of t. getFingerPrint p i t = fp \<and> emptied p i t t1"
proof -
  obtain i where f: "find (\<lambda>i. getFingerPrint p i t = fp) [0..<tags_of t] = Some i"
    using del by (auto simp: deleteFingerPrint_def split: option.splits)
  have i: "i < tags_of t" "getFingerPrint p i t = fp" using find_place [OF f] by simp_all
  have t1: "t1 = (writeFingerPrint p i 0 t)\<lparr>ht_occupiedCount := max 0 (ht_occupiedCount t - 1)\<rparr>"
    using del f by (simp add: deleteFingerPrint_def)
  have zero: "tag_fits t 0" by (simp add: tag_fits_def)
  have "getFingerPrint q j t1 = (if (ucast q :: u32) = ucast p \<and> j = i then 0 else getFingerPrint q j t)" if "j < tags_of t" for q j
    using tags.get_store [OF t i(1) that zero, of q p] by (simp add: t1 get_occupied)
  moreover have "ht_trashBucket t1 = ht_trashBucket t" by (rule deleteFingerPrint_effect(6) [OF t del])
  moreover have "ht_occupiedCount t1 = max 0 (ht_occupiedCount t - 1)" by (simp add: t1)
  ultimately show ?thesis using i by (auto simp: emptied_def)
qed

lemma delete_removes:
  assumes ok: "cf_ok f" and del: "deleteKeyWithoutLock key f = (b, g)"
    and ix: "calculateIndexAndFingerPrint key f = (i1, i2, fp)"
  shows "if b
    then (\<exists>p i. p \<in> {i1, i2} \<and> i < tags_of (cf_hashTable f) \<and> getFingerPrint p i (cf_hashTable f) = fp \<and>
            emptied p i (cf_hashTable f) (cf_hashTable g)) \<or>
         (fp \<in> ht_trashBucket (cf_hashTable f) \<and>
            g = set_table ((cf_hashTable f)\<lparr>ht_trashBucket := ht_trashBucket (cf_hashTable f) - {fp}\<rparr>) f)
    else g = f"
proof -
  let ?t = "cf_hashTable f"
  have t: "table_ok ?t" using ok by (simp add: cf_ok_def)
  obtain b1 t1 where one: "deleteFingerPrint i1 fp ?t = (b1, t1)" by fastforce
  obtain b2 t2 where two: "deleteFingerPrint i2 fp ?t = (b2, t2)" by fastforce
  consider "b1" | "\<not> b1" "b2" | "\<not> b1" "\<not> b2" by blast
  then show ?thesis
  proof cases
    case 1
    then have "b" "cf_hashTable g = t1" using del ix one by (auto simp: deleteKeyWithoutLock_def)
    then show ?thesis using deleteFingerPrint_empties [OF t, of i1 fp t1] one 1 by auto
  next
    case 2
    then have "b" "cf_hashTable g = t2" using del ix one two by (auto simp: deleteKeyWithoutLock_def)
    then show ?thesis using deleteFingerPrint_empties [OF t, of i2 fp t2] two 2 by auto
  next
    case 3
    then have "(b, g) = (let (ok, t3) = deleteFromTrashBucket fp ?t in (ok, set_table t3 f))"
      using del ix one two by (simp add: deleteKeyWithoutLock_def)
    then show ?thesis by (auto simp: deleteFromTrashBucket_def set_table_def split: if_splits)
  qed
qed

text \<open>
  (C36) A deletion says whether the key was found. If it was, exactly one tag of the key is removed: either one place of the
  key's two buckets that held the key's fingerprint is emptied, every other place and the trash bucket unchanged, or the
  fingerprint is taken out of the trash bucket and nothing else changes. If it was not found, the filter is unchanged. In
  either case the filter stays well-formed and keys with another fingerprint are found afterwards exactly when they were
  found before.
\<close>

theorem delete_key_effect:
  assumes "cf_ok f" and "deleteKeyWithoutLock key f = (b, g)" and "calculateIndexAndFingerPrint key f = (i1, i2, fp)"
  shows "(b \<longleftrightarrow> containsWithoutLock key f) \<and> cf_ok g
    \<and> (if b
       then (\<exists>p i. p \<in> {i1, i2} \<and> i < tags_of (cf_hashTable f) \<and> getFingerPrint p i (cf_hashTable f) = fp \<and>
               emptied p i (cf_hashTable f) (cf_hashTable g)) \<or>
            (fp \<in> ht_trashBucket (cf_hashTable f) \<and>
               g = set_table ((cf_hashTable f)\<lparr>ht_trashBucket := ht_trashBucket (cf_hashTable f) - {fp}\<rparr>) f)
       else g = f)
    \<and> (\<forall>k. fingerprint_of k f \<noteq> fingerprint_of key f \<longrightarrow> containsWithoutLock k g = containsWithoutLock k f)"
  using delete_keeps_others [OF assms(1,2)] delete_removes [OF assms] by blast

section \<open>The number of buckets\<close>

lemma smear_step:
  fixes x y :: u64
  assumes "\<And>n. bit y n \<longleftrightarrow> (\<exists>j < k. bit x (n + j))"
  shows "bit (y OR drop_bit k y) n \<longleftrightarrow> (\<exists>j < 2 * k. bit x (n + j))"
proof -
  have "(\<exists>j < 2 * k. bit x (n + j)) \<longleftrightarrow> (\<exists>j < k. bit x (n + j)) \<or> (\<exists>j < k. bit x (k + n + j))"
  proof
    assume "\<exists>j < 2 * k. bit x (n + j)"
    then obtain j where j: "j < 2 * k" "bit x (n + j)" by blast
    then have "j < k \<or> (j - k < k \<and> bit x (k + n + (j - k)))" by (cases "j < k") (auto simp: add.commute add.left_commute)
    then show "(\<exists>j < k. bit x (n + j)) \<or> (\<exists>j < k. bit x (k + n + j))" using j by blast
  next
    assume "(\<exists>j < k. bit x (n + j)) \<or> (\<exists>j < k. bit x (k + n + j))"
    then show "\<exists>j < 2 * k. bit x (n + j)"
    proof
      assume "\<exists>j < k. bit x (n + j)"
      then obtain j where "j < k" "bit x (n + j)" by blast
      then show ?thesis by (intro exI [of _ j]) simp
    next
      assume "\<exists>j < k. bit x (k + n + j)"
      then obtain j where "j < k" "bit x (n + (k + j))" by (auto simp: ac_simps)
      then show ?thesis by (intro exI [of _ "k + j"]) simp
    qed
  qed
  then show ?thesis using assms by (auto simp: bit_simps)
qed

lemma upperpower2_bits:
  obtains y where "upperpower2 x = y + 1" and "\<And>n. bit y n \<longleftrightarrow> (\<exists>j < 64. bit (x - 1) (n + j))"
proof -
  define x0 where "x0 = x - 1"
  define x1 where "x1 = x0 OR drop_bit 1 x0"
  define x2 where "x2 = x1 OR drop_bit 2 x1"
  define x3 where "x3 = x2 OR drop_bit 4 x2"
  define x4 where "x4 = x3 OR drop_bit 8 x3"
  define x5 where "x5 = x4 OR drop_bit 16 x4"
  define x6 where "x6 = x5 OR drop_bit 32 x5"
  have s1: "bit x1 n \<longleftrightarrow> (\<exists>j < 2. bit x0 (n + j))" for n
    unfolding x1_def using smear_step [of x0 1 x0] by simp
  have s2: "bit x2 n \<longleftrightarrow> (\<exists>j < 4. bit x0 (n + j))" for n unfolding x2_def using smear_step [OF s1] by simp
  have s3: "bit x3 n \<longleftrightarrow> (\<exists>j < 8. bit x0 (n + j))" for n unfolding x3_def using smear_step [OF s2] by simp
  have s4: "bit x4 n \<longleftrightarrow> (\<exists>j < 16. bit x0 (n + j))" for n unfolding x4_def using smear_step [OF s3] by simp
  have s5: "bit x5 n \<longleftrightarrow> (\<exists>j < 32. bit x0 (n + j))" for n unfolding x5_def using smear_step [OF s4] by simp
  have s6: "bit x6 n \<longleftrightarrow> (\<exists>j < 64. bit x0 (n + j))" for n unfolding x6_def using smear_step [OF s5] by simp
  moreover have "upperpower2 x = x6 + 1"
    unfolding upperpower2_def Let_def x6_def x5_def x4_def x3_def x2_def x1_def x0_def ..
  ultimately show thesis using that x0_def by blast
qed

lemma top_bit:
  fixes x :: u64
  assumes "x \<noteq> 0"
  obtains m where "m < 64" and "bit x m" and "\<And>j. bit x j \<Longrightarrow> j \<le> m"
proof -
  let ?B = "{j. bit x j}"
  have "?B \<subseteq> {..<64}" by (auto dest: bit_imp_le_length)
  then have f: "finite ?B" using finite_subset by blast
  have "?B \<noteq> {}" using assms bit_eqI [of x 0] by auto
  then have "Max ?B \<in> ?B" using f by (rule Max_in [rotated])
  moreover have "j \<le> Max ?B" if "bit x j" for j using f that by simp
  ultimately show thesis using that [of "Max ?B"] \<open>?B \<subseteq> {..<64}\<close> by auto
qed

lemma word_below_power:
  fixes x :: u64
  assumes "\<And>j. bit x j \<Longrightarrow> j < k"
  shows "unat x < 2 ^ k"
proof -
  have "x = take_bit k x" using assms by (intro bit_word_eqI) (auto simp: bit_simps)
  then have "unat x = take_bit k (unat x)" by (metis unsigned_take_bit_eq)
  then show ?thesis by (metis take_bit_nat_less_exp)
qed

lemma power_below_word:
  fixes x :: u64
  assumes "bit x m"
  shows "2 ^ m \<le> unat x"
proof (rule ccontr)
  assume "\<not> 2 ^ m \<le> unat x"
  then have "take_bit m (unat x) = unat x" by (simp add: take_bit_nat_eq_self)
  moreover have "bit (unat x) m" using assms by (simp add: bit_unsigned_iff)
  ultimately show False by (metis bit_take_bit_iff less_irrefl)
qed

text \<open>
  (C37) The number of buckets is the least power of two that is not below its argument, for arguments up to
  \<open>2 ^ 63\<close>.
\<close>

theorem upperpower2_least:
  assumes "0 < x" and "x \<le> 2 ^ 63"
  shows "\<exists>k < 64. upperpower2 x = 2 ^ k \<and> unat x \<le> 2 ^ k \<and> (\<forall>j. unat x \<le> 2 ^ j \<longrightarrow> k \<le> j)"
proof -
  obtain y where y: "upperpower2 x = y + 1" "\<And>n. bit y n \<longleftrightarrow> (\<exists>j < 64. bit (x - 1) (n + j))" by (rule upperpower2_bits) blast
  have "unat (x - 1) = unat x - 1" using assms(1) by (intro unat_minus_one) auto
  moreover have "0 < unat x" using assms(1) by (simp add: word_less_nat_alt)
  ultimately have x: "unat x = unat (x - 1) + 1" by simp
  show ?thesis
  proof (cases "x - 1 = 0")
    case True
    then have "y = 0" using y(2) by (intro bit_word_eqI) simp
    then show ?thesis using y(1) x True by (intro exI [of _ 0]) simp
  next
    case False
    then obtain m where m: "m < 64" "bit (x - 1) m" "\<And>j. bit (x - 1) j \<Longrightarrow> j \<le> m"
      by (rule top_bit) (rule that)
    have below: "2 ^ m \<le> unat (x - 1)" using m(2) by (rule power_below_word)
    have "unat x \<le> 2 ^ 63" using assms(2) by (simp add: word_le_nat_alt)
    then have "(2 :: nat) ^ m < 2 ^ 63" using below x by linarith
    then have "m < 63" by (rule power_less_imp_less_exp [rotated]) simp
    have yb: "bit y n \<longleftrightarrow> n \<le> m" for n
    proof
      assume "n \<le> m"
      then show "bit y n" using m(1,2) y(2) [of n] by (metis le_add_diff_inverse diff_le_self le_less_trans)
    next
      assume "bit y n"
      then show "n \<le> m" using m(3) y(2) by fastforce
    qed
    have "y = mask (Suc m)"
      by (rule bit_word_eqI) (use yb m(1) in \<open>simp add: bit_mask_iff less_Suc_eq_le\<close>)
    then have "upperpower2 x = 2 ^ Suc m" using y(1) by (simp add: mask_eq_exp_minus_1)
    moreover have "unat x \<le> 2 ^ Suc m"
      using word_below_power [of "x - 1" "Suc m"] m(3) x by (simp add: less_Suc_eq_le)
    moreover have "Suc m \<le> j" if "unat x \<le> 2 ^ j" for j
    proof -
      have "(2 :: nat) ^ m < 2 ^ j" using below x that by linarith
      then show ?thesis by (simp add: power_strict_increasing_iff)
    qed
    ultimately show ?thesis using \<open>m < 63\<close> by (intro exI [of _ "Suc m"]) simp
  qed
qed

theorem upperpower2_least_witness: "\<exists>k < 64. upperpower2 1000 = 2 ^ k"
  using upperpower2_least [of 1000] by auto

text \<open>A key that was inserted is found and removed.\<close>

theorem delete_key_effect_witness:
  "fst (deleteKeyWithoutLock ''alice'' sample_stored) \<and> cf_ok (snd (deleteKeyWithoutLock ''alice'' sample_stored)) \<and>
    cf_hashTable (snd (deleteKeyWithoutLock ''alice'' sample_stored)) \<noteq> cf_hashTable sample_stored"
proof -
  obtain b g where d: "deleteKeyWithoutLock ''alice'' sample_stored = (b, g)" by fastforce
  obtain i1 i2 fp where x: "calculateIndexAndFingerPrint ''alice'' sample_stored = (i1, i2, fp)" by (metis prod_cases3)
  then have "fp \<noteq> 0" using fingerprint_of_not_0 [of "''alice''" sample_stored]
    by (auto simp: calculateIndexAndFingerPrint_def fingerprint_of_def Let_def)
  have l: "batch_loop (\<lambda>_ _. 0) [''alice''] sample_filter = ([], sample_stored)"
    using sample_batch(1) by (auto simp: batchInsert_def Let_def split: prod.splits)
  have found: "containsWithoutLock ''alice'' sample_stored" and ok: "cf_ok sample_stored"
    using batch_loop_stores [OF sample_filter_ok l] by (simp_all add: extends_def)
  note e = delete_key_effect [OF ok d x]
  have ne: "t\<lparr>ht_trashBucket := ht_trashBucket t - {fp}\<rparr> \<noteq> t" if "fp \<in> ht_trashBucket t" for t
  proof
    assume eq: "t\<lparr>ht_trashBucket := ht_trashBucket t - {fp}\<rparr> = t"
    have "ht_trashBucket t - {fp} = ht_trashBucket t" using arg_cong [where f = ht_trashBucket, OF eq] by (simp del: Diff_empty)
    with that show False by blast
  qed
  have "cf_hashTable g \<noteq> cf_hashTable sample_stored"
    using e found \<open>fp \<noteq> 0\<close> ne [of "cf_hashTable sample_stored"] by (auto simp: emptied_def)
  then show ?thesis using e found d by simp
qed

end
