(* ===== verification/RaFilters.thy ===== *)
theory RaFilters
  imports CuckooDelete PSIFramework
begin

text \<open>
  The filters of the unbalanced RA2018-PSI (wedpr-computing/ppc-psi/src/ra2018-psi/core): what is known of a filter
  (CuckooFilterInfo.h), the filters a client has received for a resource (CuckooFilterState.h), the cache of received
  filters (CuckooFiltersCache), the supply of filters during data preprocessing (CuckoofilterAllocator), and the
  preprocessing itself with the server's evaluation (RA2018PSIServer; \<open>offlineFullEvaluate\<close>, \<open>evaluateAndInsert\<close>,
  \<open>evaluateAndDelete\<close> of RA2018PSIImpl.cpp; wedpr-crypto/ppc-crypto/src/oprf/RA2018Oprf.h).

  The storage (an SQL table and files) is outside: what a load gives is an argument, a store is an output, and the
  callback of a store is an event of its own. A filter that a cache or a request shares is a value here, because nothing
  but the dirty mark changes after it is shared. Loops that run until \<open>stop\<close> is called carry the number of rounds they
  get before that.
\<close>

section \<open>Filters and what is known of them\<close>

record CuckooFilterInfo =
  fi_filterID :: int
  fi_hash :: bytes
  fi_cuckooFilter :: "Cuckoofilter option"
  fi_cuckooFilterData :: bytes
  fi_dirty :: bool

definition new_CuckooFilterInfo :: "int \<Rightarrow> bytes \<Rightarrow> Cuckoofilter option \<Rightarrow> CuckooFilterInfo" where
  "new_CuckooFilterInfo filterID hash f =
     \<lparr>fi_filterID = filterID, fi_hash = hash, fi_cuckooFilter = f, fi_cuckooFilterData = [], fi_dirty = False\<rparr>"

definition CuckooFilterInfoComparator :: "CuckooFilterInfo \<Rightarrow> CuckooFilterInfo \<Rightarrow> bool" where
  "CuckooFilterInfoComparator l r =
     (if fi_filterID l = fi_filterID r then fi_hash l < fi_hash r else fi_filterID l < fi_filterID r)"

text \<open>The filters received for a resource; the set of sequence numbers holds \<open>int32_t\<close> values.\<close>

record CuckooFilterState =
  fs_cuckooFilterSize :: int
  fs_cuckooFilterInfos :: "(int, CuckooFilterInfo) smap"
  fs_receivedCuckooFilter :: "int set"

definition new_CuckooFilterState :: CuckooFilterState where
  "new_CuckooFilterState = \<lparr>fs_cuckooFilterSize = 0, fs_cuckooFilterInfos = [], fs_receivedCuckooFilter = {}\<rparr>"

definition fetchFinish :: "CuckooFilterState \<Rightarrow> bool" where
  "fetchFinish s \<longleftrightarrow> fs_cuckooFilterSize s \<noteq> - 1 \<and> int (card (fs_receivedCuckooFilter s)) = fs_cuckooFilterSize s"

definition decreaseCuckooFilterSize :: "int \<Rightarrow> CuckooFilterState \<Rightarrow> CuckooFilterState" where
  "decreaseCuckooFilterSize n s = s\<lparr>fs_cuckooFilterSize := fs_cuckooFilterSize s - n\<rparr>"

definition init_filter_state :: "CuckooFilterState \<Rightarrow> CuckooFilterState" where
  "init_filter_state s = s\<lparr>fs_receivedCuckooFilter := {}, fs_cuckooFilterSize := - 1\<rparr>"

definition appendCuckooFilterInfo :: "u32 \<Rightarrow> CuckooFilterInfo \<Rightarrow> CuckooFilterState \<Rightarrow> CuckooFilterState" where
  "appendCuckooFilterInfo seq i s =
     (let s1 = s\<lparr>fs_receivedCuckooFilter := insert (sint seq) (fs_receivedCuckooFilter s)\<rparr>;
          known = (case map_of (fs_cuckooFilterInfos s1) (fi_filterID i) of Some j \<Rightarrow> fi_hash j = fi_hash i | None \<Rightarrow> False)
      in if known then s1
         else s1\<lparr>fs_cuckooFilterInfos := smap_put (fi_filterID i) i (fs_cuckooFilterInfos s1)\<rparr>)"

definition setCuckooFilterSize :: "int \<Rightarrow> CuckooFilterState \<Rightarrow> CuckooFilterState" where
  "setCuckooFilterSize n s = s\<lparr>fs_cuckooFilterSize := n\<rparr>"

section \<open>The cache of filters\<close>

text \<open>Entries have their filter: they were received with it or loaded from the storage and deserialised.\<close>

record CuckooFiltersCache =
  fc_maxCapacity :: u64
  fc_capacity :: u64
  fc_resourceQueue :: "(bytes \<times> int) list"
  fc_filters :: "(bytes, (int, CuckooFilterInfo) smap) smap"

datatype fc_out = FlushFilter bytes int CuckooFilterInfo

definition new_CuckooFiltersCache :: "u64 \<Rightarrow> CuckooFiltersCache" where
  "new_CuckooFiltersCache maxCapacity = \<lparr>fc_maxCapacity = maxCapacity, fc_capacity = 0, fc_resourceQueue = [], fc_filters = []\<rparr>"

definition filter_bytes :: "CuckooFilterInfo \<Rightarrow> u64" where
  "filter_bytes i = (case fi_cuckooFilter i of Some f \<Rightarrow> ht_capacity (cf_hashTable f) | None \<Rightarrow> 0)"

definition filters_of :: "bytes \<Rightarrow> CuckooFiltersCache \<Rightarrow> (int, CuckooFilterInfo) smap" where
  "filters_of r c = (case map_of (fc_filters c) r of Some m \<Rightarrow> m | None \<Rightarrow> [])"

definition fc_flush :: "bytes \<Rightarrow> int \<Rightarrow> CuckooFilterInfo \<Rightarrow> fc_out list" where
  "fc_flush r filterID i = (if \<not> fi_dirty i then [] else [FlushFilter r filterID i])"

text \<open>The loop of \<open>evict\<close>; reading the back of the empty queue is undefined.\<close>

fun evict_loop :: "(bytes \<times> int) list \<Rightarrow> CuckooFiltersCache \<Rightarrow> (CuckooFiltersCache \<times> fc_out list) res" where
  "evict_loop [] c = (if fc_capacity c > fc_maxCapacity c then Inl OutOfBoundsRead else Inr (c\<lparr>fc_resourceQueue := []\<rparr>, []))"
| "evict_loop (x # q) c =
     (if fc_capacity c > fc_maxCapacity c
      then
        let (r, k) = last (x # q) in
        case map_of (filters_of r c) k of
          None \<Rightarrow> evict_loop q c
        | Some i \<Rightarrow>
            rbind (evict_loop q (c\<lparr>fc_filters := smap_put r (smap_erase k (filters_of r c)) (fc_filters c),
                                     fc_capacity := fc_capacity c - filter_bytes i\<rparr>))
                  (\<lambda>(c1, outs). Inr (c1, fc_flush r k i @ outs))
      else Inr (c\<lparr>fc_resourceQueue := x # q\<rparr>, []))"

definition fc_evict :: "CuckooFiltersCache \<Rightarrow> (bool \<times> CuckooFiltersCache \<times> fc_out list) res" where
  "fc_evict c =
     (if fc_capacity c \<le> fc_maxCapacity c then Inr (False, c, [])
      else rbind (evict_loop (fc_resourceQueue c) c) (\<lambda>(c1, outs). Inr (True, c1, outs)))"

definition fc_put :: "bytes \<Rightarrow> int \<Rightarrow> CuckooFilterInfo \<Rightarrow> CuckooFiltersCache \<Rightarrow> CuckooFiltersCache" where
  "fc_put r k i c = c\<lparr>fc_filters := smap_put r (smap_put k i (filters_of r c)) (fc_filters c)\<rparr>"

definition insertWithoutEvict :: "bytes \<Rightarrow> CuckooFilterInfo \<Rightarrow> CuckooFiltersCache \<Rightarrow> CuckooFiltersCache \<times> fc_out list" where
  "insertWithoutEvict r i c =
     (let k = fi_filterID i; dirty = i\<lparr>fi_dirty := True\<rparr> in
      case map_of (filters_of r c) k of
        Some current \<Rightarrow>
          if fi_hash i = fi_hash current then (c, [])
          else ((fc_put r k dirty c)\<lparr>fc_capacity := fc_capacity c - filter_bytes current + filter_bytes i\<rparr>, fc_flush r k dirty)
      | None \<Rightarrow>
          ((fc_put r k dirty c)\<lparr>fc_resourceQueue := fc_resourceQueue c @ [(r, k)], fc_capacity := fc_capacity c + filter_bytes i\<rparr>,
           fc_flush r k dirty))"

definition fc_insert :: "bytes \<Rightarrow> CuckooFilterInfo \<Rightarrow> CuckooFiltersCache \<Rightarrow> (bool \<times> CuckooFiltersCache \<times> fc_out list) res" where
  "fc_insert r i c =
     (let (c1, outs1) = insertWithoutEvict r i c
      in rbind (fc_evict c1) (\<lambda>(full, c2, outs2). Inr (full, c2, outs1 @ outs2)))"

text \<open>\<open>load\<close> is what the storage gives: nothing when the filter is missing or loading throws.\<close>

definition loadCuckooFilterFromStorage ::
  "(bytes \<Rightarrow> int \<Rightarrow> CuckooFilterInfo option) \<Rightarrow> bytes \<Rightarrow> int \<Rightarrow> CuckooFiltersCache \<Rightarrow> CuckooFilterInfo option \<times> CuckooFiltersCache" where
  "loadCuckooFilterFromStorage load r k c =
     (case load r k of
        None \<Rightarrow> (None, c)
      | Some i \<Rightarrow>
          (case map_of (filters_of r c) k of
             Some j \<Rightarrow> (Some j, c)
           | None \<Rightarrow>
               let i1 = i\<lparr>fi_filterID := k\<rparr>
               in (Some i1, (fc_put r k i1 c)\<lparr>fc_resourceQueue := fc_resourceQueue c @ [(r, k)],
                                               fc_capacity := fc_capacity c + filter_bytes i1\<rparr>)))"

definition queryWithoutEvict ::
  "(bytes \<Rightarrow> int \<Rightarrow> CuckooFilterInfo option) \<Rightarrow> bytes \<Rightarrow> int \<Rightarrow> CuckooFiltersCache \<Rightarrow> CuckooFilterInfo option \<times> CuckooFiltersCache" where
  "queryWithoutEvict load r k c =
     (case map_of (filters_of r c) k of Some i \<Rightarrow> (Some i, c) | None \<Rightarrow> loadCuckooFilterFromStorage load r k c)"

definition fc_query ::
  "(bytes \<Rightarrow> int \<Rightarrow> CuckooFilterInfo option) \<Rightarrow> bytes \<Rightarrow> int \<Rightarrow> CuckooFiltersCache \<Rightarrow>
   (CuckooFilterInfo option \<times> CuckooFiltersCache \<times> fc_out list) res" where
  "fc_query load r k c =
     (let (i, c1) = queryWithoutEvict load r k c
      in rbind (fc_evict c1) (\<lambda>(_, c2, outs). Inr (i, c2, outs)))"

definition fc_flushAll :: "CuckooFiltersCache \<Rightarrow> fc_out list" where
  "fc_flushAll c = concat (map (\<lambda>(r, m). concat (map (\<lambda>(k, i). fc_flush r k i) m)) (fc_filters c))"

section \<open>The supply of filters\<close>

datatype store_out =
    StoreInsert bytes Cuckoofilter
  | StoreUpdate bytes CuckooFilterInfo
  | Preprocessed "int option"

record CuckoofilterAllocator =
  al_resourceID :: bytes
  al_reusableFilters :: "CuckooFilterInfo list"
  al_current :: "(CuckooFilterInfo \<times> Cuckoofilter) option"
  al_total :: int
  al_failed :: int
  al_flush :: bool

definition new_CuckoofilterAllocator :: "bytes \<Rightarrow> CuckooFilterInfo list \<Rightarrow> CuckoofilterAllocator" where
  "new_CuckoofilterAllocator r reusable =
     \<lparr>al_resourceID = r, al_reusableFilters = reusable, al_current = None, al_total = 0, al_failed = 0, al_flush = False\<rparr>"

definition saveOverLoadedCuckooFilter :: "bool \<Rightarrow> CuckoofilterAllocator \<Rightarrow> CuckoofilterAllocator \<times> store_out list" where
  "saveOverLoadedCuckooFilter flush a =
     (case al_current a of
        None \<Rightarrow> (a, if al_flush a then [Preprocessed None] else [])
      | Some (i, f) \<Rightarrow>
          (a\<lparr>al_total := al_total a + 1, al_flush := al_flush a \<or> flush, al_current := None\<rparr>,
           [if fi_filterID i = - 1 then StoreInsert (al_resourceID a) f
            else StoreUpdate (al_resourceID a) (i\<lparr>fi_cuckooFilter := Some f\<rparr>)]))"

text \<open>The callback of a store.\<close>

definition saved_callback :: "bool \<Rightarrow> CuckoofilterAllocator \<Rightarrow> CuckoofilterAllocator \<times> store_out list" where
  "saved_callback failed a =
     (let a1 = a\<lparr>al_total := al_total a - 1, al_failed := (if failed then al_failed a + 1 else al_failed a)\<rparr> in
      (a1, if al_total a1 > 0 then []
           else if \<not> al_flush a1 then []
           else if al_failed a1 \<noteq> 0 then [Preprocessed (Some (- 1))]
           else [Preprocessed None]))"

definition al_flush_all :: "CuckoofilterAllocator \<Rightarrow> CuckoofilterAllocator \<times> store_out list" where
  "al_flush_all a = saveOverLoadedCuckooFilter True a"

text \<open>The loop that loads a reusable filter, the last first; nothing is loaded when the filter is gone.\<close>

fun load_reusable ::
  "(int \<Rightarrow> (CuckooFilterInfo \<times> Cuckoofilter) option) \<Rightarrow> CuckooFilterInfo list \<Rightarrow> (CuckooFilterInfo \<times> Cuckoofilter) option \<times> CuckooFilterInfo list" where
  "load_reusable load [] = (None, [])"
| "load_reusable load (i # rest) =
     (case load (fi_filterID i) of Some x \<Rightarrow> (Some x, rest) | None \<Rightarrow> load_reusable load rest)"

definition al_allocate ::
  "CuckoofilterOption \<Rightarrow> (int \<Rightarrow> (CuckooFilterInfo \<times> Cuckoofilter) option) \<Rightarrow> CuckoofilterAllocator \<Rightarrow>
   (Cuckoofilter \<times> CuckoofilterAllocator \<times> store_out list) res" where
  "al_allocate opt load a =
     (let (a1, outs, done1) = (case al_current a of
            None \<Rightarrow> (a, [], None)
          | Some (i, f) \<Rightarrow>
              if \<not> ht_full (cf_hashTable f) then (a, [], Some f)
              else let (a1, outs) = saveOverLoadedCuckooFilter False a in (a1, outs, None))
      in case done1 of
           Some f \<Rightarrow> Inr (f, a1, outs)
         | None \<Rightarrow>
             let (loaded, rest) = load_reusable load (rev (al_reusableFilters a1));
                 a2 = a1\<lparr>al_reusableFilters := rev rest, al_current := loaded\<rparr>
             in (case loaded of
                   Some (i, f) \<Rightarrow> Inr (f, a2, outs)
                 | None \<Rightarrow>
                     rbind (new_Cuckoofilter opt)
                       (\<lambda>f. Inr (f, a2\<lparr>al_current := Some (new_CuckooFilterInfo (- 1) [] None, f)\<rparr>, outs))))"

definition set_current :: "Cuckoofilter \<Rightarrow> CuckoofilterAllocator \<Rightarrow> CuckoofilterAllocator" where
  "set_current f a = a\<lparr>al_current := map_option (\<lambda>(i, _). (i, f)) (al_current a)\<rparr>"

section \<open>Evaluation\<close>

record CryptoBoxOprf =
  op_hash :: "bytes \<Rightarrow> bytes"
  op_hashToCurve :: "bytes \<Rightarrow> bytes"
  op_ecMultiply :: "bytes \<Rightarrow> bytes \<Rightarrow> bytes"
  op_scalarInvert :: "bytes \<Rightarrow> bytes"

definition oprf_blind :: "CryptoBoxOprf \<Rightarrow> bytes list \<Rightarrow> bytes \<Rightarrow> bytes list" where
  "oprf_blind b plain key = map (\<lambda>x. op_ecMultiply b (op_hashToCurve b (op_hash b x)) key) plain"

definition oprf_finalize :: "CryptoBoxOprf \<Rightarrow> bytes list \<Rightarrow> bytes \<Rightarrow> bytes list" where
  "oprf_finalize b evaluated invKey = map (\<lambda>x. op_ecMultiply b x invKey) evaluated"

definition oprf_fullEvaluate :: "CryptoBoxOprf \<Rightarrow> bytes \<Rightarrow> bytes list \<Rightarrow> bytes list" where
  "oprf_fullEvaluate b key input = map (\<lambda>x. op_ecMultiply b (op_hashToCurve b (op_hash b x)) key) input"

definition oprf_evaluate :: "CryptoBoxOprf \<Rightarrow> bytes \<Rightarrow> bytes list \<Rightarrow> bytes list" where
  "oprf_evaluate b key blinded = map (\<lambda>x. op_ecMultiply b x key) blinded"

section \<open>Data preprocessing\<close>

text \<open>A \<open>std::set\<close> of evaluated items.\<close>

definition set_of_items :: "bytes list \<Rightarrow> bytes list" where
  "set_of_items xs = sort (remdups xs)"

text \<open>The inner loop: the keys that were not inserted when it was stopped, and the allocator.\<close>

type_synonym kicks = "nat \<Rightarrow> nat \<Rightarrow> nat"

fun insert_rounds ::
  "nat \<Rightarrow> kicks \<Rightarrow> CuckoofilterOption \<Rightarrow> (int \<Rightarrow> (CuckooFilterInfo \<times> Cuckoofilter) option) \<Rightarrow> bytes list \<Rightarrow>
   CuckoofilterAllocator \<Rightarrow> (bytes list \<times> CuckoofilterAllocator \<times> store_out list) res" where
  "insert_rounds 0 random opt load keys a = Inr (keys, a, [])"
| "insert_rounds (Suc n) random opt load keys a =
     rbind (al_allocate opt load a) (\<lambda>(f, a1, outs1).
       let (ok, rest, g) = batchInsert random keys f; a2 = set_current g a1
       in if ok then Inr (rest, a2, outs1)
          else rbind (insert_rounds n random opt load rest a2) (\<lambda>(rest', a3, outs2). Inr (rest', a3, outs1 @ outs2)))"

fun insert_batches ::
  "nat \<Rightarrow> kicks \<Rightarrow> CuckoofilterOption \<Rightarrow> (int \<Rightarrow> (CuckooFilterInfo \<times> Cuckoofilter) option) \<Rightarrow> CryptoBoxOprf \<Rightarrow> bytes \<Rightarrow> bool \<Rightarrow>
   bytes list list \<Rightarrow> CuckoofilterAllocator \<Rightarrow> (CuckoofilterAllocator \<times> store_out list) res" where
  "insert_batches n random opt load b key sqlReader [] a = Inr (a, [])"
| "insert_batches n random opt load b key sqlReader (d # ds) a =
     rbind (insert_rounds n random opt load (set_of_items (oprf_fullEvaluate b key d)) a) (\<lambda>(_, a1, outs1).
       if sqlReader then Inr (a1, outs1)
       else rbind (insert_batches n random opt load b key sqlReader ds a1) (\<lambda>(a2, outs2). Inr (a2, outs1 @ outs2)))"

definition evaluateAndInsert ::
  "nat \<Rightarrow> kicks \<Rightarrow> CuckoofilterOption \<Rightarrow> (int \<Rightarrow> (CuckooFilterInfo \<times> Cuckoofilter) option) \<Rightarrow> CryptoBoxOprf \<Rightarrow> bytes \<Rightarrow> bool \<Rightarrow>
   bytes list list \<Rightarrow> bytes \<Rightarrow> CuckooFilterInfo list \<Rightarrow> (CuckoofilterAllocator \<times> store_out list) res" where
  "evaluateAndInsert n random opt load b key sqlReader batches r reusable =
     rbind (insert_batches n random opt load b key sqlReader batches (new_CuckoofilterAllocator r reusable)) (\<lambda>(a, outs1).
       let (a1, outs2) = al_flush_all a in Inr (a1, outs1 @ outs2))"

text \<open>
  Deletion. The callbacks share a count of stores to wait for; it starts as the number of filters and is set to the
  number of stores started when a store is made that empties the list of items or is for the last filter.
\<close>

record DeleteState =
  ds_totalStoreCount :: int
  ds_calledCount :: int
  ds_failed :: int

fun delete_loop ::
  "(int \<Rightarrow> Cuckoofilter option) \<Rightarrow> bytes \<Rightarrow> nat \<Rightarrow> nat \<Rightarrow> CuckooFilterInfo list \<Rightarrow> int \<Rightarrow> bytes list \<Rightarrow> DeleteState \<Rightarrow>
   bytes list \<times> DeleteState \<times> store_out list" where
  "delete_loop load r n i [] storeCount items s = (items, s, [])"
| "delete_loop load r n i (info # infos) storeCount items s =
     (case load (fi_filterID info) of
        None \<Rightarrow> delete_loop load r n (i + 1) infos storeCount items s
      | Some f \<Rightarrow>
          let (remain, g) = batchDeleteAndGetRemainKeys items f in
          if length remain < length items
          then
            let c = storeCount + 1;
                s1 = (if remain = [] \<or> i + 1 = n then s\<lparr>ds_totalStoreCount := c\<rparr> else s);
                out1 = StoreUpdate r (new_CuckooFilterInfo (fi_filterID info) (fi_hash info) (Some g))
            in if remain = [] then ([], s1, [out1])
               else let (items', s2, outs) = delete_loop load r n (i + 1) infos c remain s1 in (items', s2, out1 # outs)
          else if remain = [] then ([], s, [])
          else delete_loop load r n (i + 1) infos storeCount remain s)"

definition evaluateAndDelete ::
  "(int \<Rightarrow> Cuckoofilter option) \<Rightarrow> CryptoBoxOprf \<Rightarrow> bytes \<Rightarrow> bytes \<Rightarrow> bytes list \<Rightarrow> CuckooFilterInfo list \<Rightarrow>
   bytes list \<times> DeleteState \<times> store_out list" where
  "evaluateAndDelete load b key r batch infos =
     delete_loop load r (length infos) 0 infos 0 (oprf_fullEvaluate b key batch)
       \<lparr>ds_totalStoreCount = int (length infos), ds_calledCount = 0, ds_failed = 0\<rparr>"

definition deleted_callback :: "bool \<Rightarrow> DeleteState \<Rightarrow> DeleteState \<times> store_out list" where
  "deleted_callback failed s =
     (let s1 = s\<lparr>ds_calledCount := ds_calledCount s + 1, ds_failed := (if failed then ds_failed s + 1 else ds_failed s)\<rparr> in
      (s1, if ds_calledCount s1 \<noteq> ds_totalStoreCount s1 then []
           else if ds_failed s1 = 0 then [Preprocessed None]
           else [Preprocessed (Some (- 1))]))"

end
