(* ===== verification/RaPSI.thy ===== *)
theory RaPSI
  imports RaFilters EcdhCache
begin

text \<open>
  The protocol of RA2018-PSI (wedpr-computing/ppc-psi/src/ra2018-psi): one batch of the client's data
  (core/RA2018PSIClientCache), the table of batches (core/RA2018PSIClient), the handlers of both sides and the running of
  tasks (RA2018PSIImpl), on the framework and the filters.

  The state \<open>ra\<close> extends the framework's. Batches are shared between the table and waiting jobs and live in a heap. The
  filters received for a resource are one object that is made once and never replaced, so a batch refers to it by the
  resource, or to nothing when it did not exist yet. Jobs of the thread pools wait in one list and are run in any order.
  Random private keys, what the reader returns, what the storage gives, and which calls throw are arguments.
\<close>

definition RA_CuckooFilterRequest :: u32 where "RA_CuckooFilterRequest = 100"
definition RA_CuckooFilterResponse :: u32 where "RA_CuckooFilterResponse = 101"
definition RA_EvaluateRequest :: u32 where "RA_EvaluateRequest = 102"
definition RA_EvaluateResponse :: u32 where "RA_EvaluateResponse = 103"
definition RA_MissingCuckooFilterRequest :: u32 where "RA_MissingCuckooFilterRequest = 104"
definition RA_MissingCuckooFilterResponse :: u32 where "RA_MissingCuckooFilterResponse = 105"

lemmas ra_packets = RA_CuckooFilterRequest_def RA_CuckooFilterResponse_def RA_EvaluateRequest_def RA_EvaluateResponse_def
  RA_MissingCuckooFilterRequest_def RA_MissingCuckooFilterResponse_def

definition RA_DATA_PREPROCESSING :: int where "RA_DATA_PREPROCESSING = 0"
definition RA_RUN_PSI :: int where "RA_RUN_PSI = 1"

definition RA_UnsupportedCommand :: int where "RA_UnsupportedCommand = - 1007"
definition RA_LoadCuckooFilterDataError :: int where "RA_LoadCuckooFilterDataError = - 1008"
definition RA_UnsupportedPartyType :: int where "RA_UnsupportedPartyType = - 1013"
definition RA_NotOfflineFullEvaluated :: int where "RA_NotOfflineFullEvaluated = - 1016"
definition RA_syncCuckooFilterError :: int where "RA_syncCuckooFilterError = - 1018"
definition RA_Disabled :: int where "RA_Disabled = - 1022"

text \<open>A message, with the fields \<open>RA2018FilterMessage\<close> adds.\<close>

record ra_msg =
  rm_psi :: PSIMessage
  rm_filterInfo :: "CuckooFilterInfo list"
  rm_cuckooFilterSize :: int

definition createRA2018FilterMessage :: "u32 \<Rightarrow> ra_msg" where
  "createRA2018FilterMessage packetType = \<lparr>rm_psi = createPSIMessage packetType, rm_filterInfo = [], rm_cuckooFilterSize = 0\<rparr>"

text \<open>
  A filter inside a message is bytes: those that were loaded, or the filter serialised. On arrival bytes become a filter
  again.
\<close>

definition encode_info :: "(archive \<Rightarrow> bytes) \<Rightarrow> CuckooFilterInfo \<Rightarrow> int \<times> bytes \<times> bytes" where
  "encode_info enc i =
     (fi_filterID i, fi_hash i,
      if fi_cuckooFilterData i = [] then (case fi_cuckooFilter i of Some f \<Rightarrow> cf_serialize enc f | None \<Rightarrow> [])
      else fi_cuckooFilterData i)"

definition decode_info :: "(bytes \<Rightarrow> archive option) \<Rightarrow> int \<times> bytes \<times> bytes \<Rightarrow> CuckooFilterInfo res" where
  "decode_info dec x =
     (let (filterID, hash, data) = x
      in if data = [] then Inr (new_CuckooFilterInfo filterID hash None)
         else rbind (cf_deserialize dec data) (\<lambda>f. Inr (new_CuckooFilterInfo filterID hash (Some f))))"

type_synonym caddr = nat

record RA2018PSIClientCache =
  rc_taskID :: bytes
  rc_taskState :: taddr
  rc_filterState :: "bytes option"
  rc_seq :: u32
  rc_plainData :: "bytes list"
  rc_finalizedData :: "bytes list"
  rc_intersectionData :: "bytes list"
  rc_state :: CacheState
  rc_privateKey :: bytes

datatype ra_job =
    SyncFilterJob bytes bytes bytes
  | BlindJob bytes taddr
  | ComputeJob caddr
  | CommitJob caddr
  | MessageJob ra_msg

datatype preprocessing = NoPreprocessing | Inserting CuckoofilterAllocator | Deleting DeleteState

datatype ra_out =
    Psi psi_out
  | SendRa bytes bytes ra_msg u32
  | CacheOut fc_out
  | StoreOut store_out
  | EraseTaskInfo bytes
  | EmptyQueue

record ra = psi +
  ra_disabled :: bool
  ra_waitResult :: bool
  ra_oprf :: CryptoBoxOprf
  ra_privateKey :: bytes
  ra_filterOption :: CuckoofilterOption
  ra_cache :: "caddr \<Rightarrow> RA2018PSIClientCache"
  ra_nextCache :: caddr
  ra_caches :: "(bytes, (u32, caddr) smap) smap"
  ra_capacity :: u64
  ra_maxCacheSize :: u64
  ra_states :: "(bytes, CuckooFilterState) smap"
  ra_filters :: CuckooFiltersCache
  ra_jobs :: "ra_job list"
  ra_reader :: "taddr \<Rightarrow> bytes list list"
  ra_preprocessing :: "taddr \<Rightarrow> preprocessing"

definition ra_send :: "bytes \<Rightarrow> bytes \<Rightarrow> ra_msg \<Rightarrow> u32 \<Rightarrow> 'a ra_scheme \<Rightarrow> ra_out" where
  "ra_send peer task m seq w = SendRa peer task (m\<lparr>rm_psi := generatePPCMsg (psi_selfParty w) (rm_psi m)\<rparr>) seq"

section \<open>One batch\<close>

definition new_RA2018PSIClientCache ::
  "bytes option \<Rightarrow> bytes \<Rightarrow> taddr \<Rightarrow> u32 \<Rightarrow> bytes list \<Rightarrow> bytes \<Rightarrow> RA2018PSIClientCache" where
  "new_RA2018PSIClientCache filterState task a seq plain key =
     \<lparr>rc_taskID = task, rc_taskState = a, rc_filterState = filterState, rc_seq = seq, rc_plainData = plain,
      rc_finalizedData = [], rc_intersectionData = [], rc_state = Evaluating, rc_privateKey = key\<rparr>"

definition rc_blind :: "CryptoBoxOprf \<Rightarrow> RA2018PSIClientCache \<Rightarrow> bytes list" where
  "rc_blind b c = oprf_blind b (rc_plainData c) (rc_privateKey c)"

definition rc_finalize :: "CryptoBoxOprf \<Rightarrow> bytes list \<Rightarrow> RA2018PSIClientCache \<Rightarrow> RA2018PSIClientCache" where
  "rc_finalize b evaluated c =
     (if rc_state c \<noteq> Evaluating then c
      else if length evaluated \<noteq> length (rc_plainData c) then c
      else c\<lparr>rc_finalizedData := oprf_finalize b evaluated (op_scalarInvert b (rc_privateKey c)), rc_state := Finalized\<rparr>)"

text \<open>A filter in the state has its filter; the search stops at the first hit.\<close>

definition in_filters :: "CuckooFilterState \<Rightarrow> bytes \<Rightarrow> bool" where
  "in_filters s key \<longleftrightarrow>
     list_ex (\<lambda>(_, i). case fi_cuckooFilter i of Some f \<Rightarrow> containsWithoutLock key f | None \<Rightarrow> False) (fs_cuckooFilterInfos s)"

definition intersect_items :: "CuckooFilterState \<Rightarrow> bytes list \<Rightarrow> bytes list \<Rightarrow> bytes list" where
  "intersect_items s finalized plain = map snd (filter (\<lambda>(key, _). in_filters s key) (zip finalized plain))"

section \<open>The table of batches\<close>

definition set_cache :: "caddr \<Rightarrow> RA2018PSIClientCache \<Rightarrow> 'a ra_scheme \<Rightarrow> 'a ra_scheme" where
  "set_cache d c w = w\<lparr>ra_cache := (ra_cache w)(d := c)\<rparr>"

definition add_jobs :: "ra_job list \<Rightarrow> 'a ra_scheme \<Rightarrow> 'a ra_scheme" where
  "add_jobs js w = w\<lparr>ra_jobs := ra_jobs w @ js\<rparr>"

definition ra_isFull :: "'a ra_scheme \<Rightarrow> bool" where
  "ra_isFull w \<longleftrightarrow> ra_capacity w \<ge> ra_maxCacheSize w"

definition caches_of :: "bytes \<Rightarrow> 'a ra_scheme \<Rightarrow> (u32, caddr) smap" where
  "caches_of task w = (case map_of (ra_caches w) task of Some m \<Rightarrow> m | None \<Rightarrow> [])"

definition rcl_cache :: "bytes \<Rightarrow> u32 \<Rightarrow> 'a ra_scheme \<Rightarrow> caddr option" where
  "rcl_cache task seq w = map_of (caches_of task w) seq"

definition rcl_eraseTaskCache :: "bytes \<Rightarrow> 'a ra_scheme \<Rightarrow> 'a ra_scheme" where
  "rcl_eraseTaskCache task w = w\<lparr>ra_caches := smap_erase task (ra_caches w)\<rparr>"

definition loadCuckooFilterState :: "bytes \<Rightarrow> bool \<Rightarrow> 'a ra_scheme \<Rightarrow> CuckooFilterState option \<times> 'a ra_scheme" where
  "loadCuckooFilterState r create w =
     (case map_of (ra_states w) r of
        Some s \<Rightarrow> (Some s, w)
      | None \<Rightarrow>
          if \<not> create then (None, w)
          else (Some new_CuckooFilterState, w\<lparr>ra_states := smap_put r new_CuckooFilterState (ra_states w)\<rparr>))"

definition set_filter_state :: "bytes \<Rightarrow> CuckooFilterState \<Rightarrow> 'a ra_scheme \<Rightarrow> 'a ra_scheme" where
  "set_filter_state r s w = w\<lparr>ra_states := smap_put r s (ra_states w)\<rparr>"

definition rcl_insertCache ::
  "bytes \<Rightarrow> bytes \<Rightarrow> taddr \<Rightarrow> u32 \<Rightarrow> bytes list \<Rightarrow> bytes \<Rightarrow> 'a ra_scheme \<Rightarrow> (bool \<times> caddr option) \<times> 'a ra_scheme" where
  "rcl_insertCache r task a seq plain key w =
     (if ra_isFull w then ((False, None), w)
      else case rcl_cache task seq w of
        Some d \<Rightarrow> ((False, Some d), w)
      | None \<Rightarrow>
          let d = ra_nextCache w;
              filterState = (if fst (loadCuckooFilterState r False w) = None then None else Some r)
          in ((True, Some d),
              set_cache d (new_RA2018PSIClientCache filterState task a seq plain key)
                (w\<lparr>ra_nextCache := d + 1, ra_capacity := ra_capacity w + batch_bytes plain,
                   ra_caches := smap_put task (smap_put seq d (caches_of task w)) (ra_caches w)\<rparr>)))"

text \<open>
  \<open>checkAndStoreInterSectionResult\<close>: a batch that was intersected gets a job to commit it and its bytes are released;
  one that was synced is dropped; a task without batches is dropped.
\<close>

definition release_bytes_of :: "bytes list \<Rightarrow> u64 \<Rightarrow> u64" where
  "release_bytes_of plain cap = (if batch_bytes plain > cap then 0 else cap - batch_bytes plain)"

fun store_task :: "(caddr \<Rightarrow> RA2018PSIClientCache) \<Rightarrow> (u32, caddr) smap \<Rightarrow> u64 \<Rightarrow> (u32, caddr) smap \<times> u64 \<times> ra_job list" where
  "store_task h [] cap = ([], cap, [])"
| "store_task h ((seq, d) # m) cap =
     (let st = rc_state (h d);
          cap1 = (if st = Intersectioned then release_bytes_of (rc_plainData (h d)) cap else cap);
          (m', cap', jobs) = store_task h m cap1
      in (if st = Synced then m' else (seq, d) # m', cap', (if st = Intersectioned then CommitJob d # jobs else jobs)))"

fun store_tasks ::
  "(caddr \<Rightarrow> RA2018PSIClientCache) \<Rightarrow> (bytes, (u32, caddr) smap) smap \<Rightarrow> u64 \<Rightarrow>
   (bytes, (u32, caddr) smap) smap \<times> u64 \<times> ra_job list" where
  "store_tasks h [] cap = ([], cap, [])"
| "store_tasks h ((task, m) # ts) cap =
     (let (m', cap1, jobs1) = store_task h m cap; (ts', cap2, jobs2) = store_tasks h ts cap1
      in (if m' = [] then ts' else (task, m') # ts', cap2, jobs1 @ jobs2))"

definition checkAndStoreInterSectionResult :: "'a ra_scheme \<Rightarrow> 'a ra_scheme" where
  "checkAndStoreInterSectionResult w =
     (let (ts, cap, jobs) = store_tasks (ra_cache w) (ra_caches w) (ra_capacity w)
      in add_jobs jobs (w\<lparr>ra_capacity := cap, ra_caches := ts\<rparr>))"

definition rcl_computeIntersection :: "'a ra_scheme \<Rightarrow> 'a ra_scheme" where
  "rcl_computeIntersection w =
     add_jobs (map (ComputeJob \<circ> snd)
       (filter (\<lambda>(_, d). rc_state (ra_cache w d) = Finalized \<or> rc_state (ra_cache w d) = Intersectioned)
         (concat (map snd (ra_caches w))))) w"

section \<open>Intersecting and storing a batch\<close>

text \<open>The finalize handler of a task drops its batches and withdraws the task at the front.\<close>

fun ra_finalize :: "psi_out list \<Rightarrow> 'a ra_scheme \<Rightarrow> 'a ra_scheme \<times> ra_out list" where
  "ra_finalize [] w = (w, [])"
| "ra_finalize (x # outs) w =
     (let (w1, o1) = (case x of
            TaskOut a (Did Finalize) \<Rightarrow> (rcl_eraseTaskCache (tk_id (task_at w a)) w, [Psi x, EraseTaskInfo (tk_id (task_at w a))])
          | _ \<Rightarrow> (w, [Psi x]));
          (w2, o2) = ra_finalize outs w1
      in (w2, o1 @ o2))"

definition ra_finalizing :: "'a ra_scheme \<times> psi_out list \<Rightarrow> 'a ra_scheme \<times> ra_out list" where
  "ra_finalizing r = ra_finalize (snd r) (fst r)"

definition ra_onTaskError ::
  "(ts_act \<Rightarrow> bool) \<Rightarrow> int \<Rightarrow> bytes \<Rightarrow> bytes \<Rightarrow> bytes \<Rightarrow> 'a ra_scheme \<Rightarrow> 'a ra_scheme \<times> ra_out list" where
  "ra_onTaskError throws e peer task resource w = ra_finalizing (onTaskError throws (Some e) peer task resource w)"

definition ra_cancelTask :: "(ts_act \<Rightarrow> bool) \<Rightarrow> int \<Rightarrow> bytes \<Rightarrow> 'a ra_scheme \<Rightarrow> 'a ra_scheme \<times> ra_out list" where
  "ra_cancelTask throws e task w = ra_finalizing (cancelTask throws e task w)"

definition rc_computeIntersection :: "caddr \<Rightarrow> 'a ra_scheme \<Rightarrow> 'a ra_scheme \<times> ra_out list" where
  "rc_computeIntersection d w =
     (let c = ra_cache w d in
      if rc_state c \<noteq> Finalized then (w, [])
      else case rc_filterState c of
        None \<Rightarrow> (w, [Psi NullDereference])
      | Some r \<Rightarrow>
          (case map_of (ra_states w) r of
             None \<Rightarrow> (w, [Psi NullDereference])
           | Some s \<Rightarrow>
               if \<not> fetchFinish s then (w, [])
               else (set_cache d (c\<lparr>rc_intersectionData := rc_intersectionData c @ intersect_items s (rc_finalizedData c) (rc_plainData c),
                                    rc_state := Intersectioned\<rparr>) w, [])))"

definition ra_finish_sub_task :: "u32 \<Rightarrow> bool \<Rightarrow> taddr \<Rightarrow> 'a ra_scheme \<Rightarrow> 'a ra_scheme \<times> ra_out list" where
  "ra_finish_sub_task seq success a w =
     (let (s, outs) = eraseFinishedTaskSeq (\<lambda>_. False) seq success (psi_heap w a);
          w1 = set_task a s w
      in (if Did SubTaskFinished \<in> set outs then checkAndStoreInterSectionResult w1 else w1, map (Psi \<circ> TaskOut a) outs))"

text \<open>
  \<open>storePSIResult\<close>; the last component says whether it threw. The synchronised result is answered by the peer, see
  \<open>rc_sync_response\<close>.
\<close>

definition rc_storePSIResult :: "(ts_act \<Rightarrow> bool) \<Rightarrow> caddr \<Rightarrow> 'a ra_scheme \<Rightarrow> 'a ra_scheme \<times> ra_out list \<times> bool" where
  "rc_storePSIResult throws d w =
     (let c = ra_cache w d; a = rc_taskState c in
      if rc_state c \<noteq> Intersectioned then (w, [], False)
      else
        let w1 = set_cache d (c\<lparr>rc_state := StoreProgressing\<rparr>) w;
            (s, did, threw) = ts_storePSIResult throws (rc_intersectionData c) (psi_heap w1 a);
            w2 = set_task a s w1;
            outs = map (Psi \<circ> TaskOut a \<circ> Did) did
        in if threw then (w2, outs, True)
           else if \<not> tk_syncResultToPeer (ts_task s)
           then let (w3, outs') = ra_finish_sub_task (rc_seq c) True a (set_cache d (c\<lparr>rc_state := Synced\<rparr>) w2)
                in (w3, outs @ outs', False)
           else (set_cache d (c\<lparr>rc_state := Syncing, rc_finalizedData := [], rc_intersectionData := []\<rparr>) w2,
                 outs @ [Psi (generateAndSendPPCMessage (ts_peerID s) (tk_id (ts_task s))
                   ((createPSIMessage PSIResultSyncMsg)\<lparr>pm_data := rc_intersectionData c\<rparr>) (rc_seq c) w2)], False))"

definition rc_sync_response :: "caddr \<Rightarrow> 'a ra_scheme \<Rightarrow> 'a ra_scheme \<times> ra_out list" where
  "rc_sync_response d w =
     (let c = ra_cache w d in ra_finish_sub_task (rc_seq c) True (rc_taskState c) (set_cache d (c\<lparr>rc_state := Synced\<rparr>) w))"

definition commitPSIResult :: "(ts_act \<Rightarrow> bool) \<Rightarrow> caddr \<Rightarrow> 'a ra_scheme \<Rightarrow> 'a ra_scheme \<times> ra_out list" where
  "commitPSIResult throws d w =
     (let (w1, outs, threw) = rc_storePSIResult throws d w; c = ra_cache w d
      in if threw then let (w2, outs2) = ra_finish_sub_task (rc_seq c) False (rc_taskState c) w1 in (w2, outs @ outs2)
         else (w1, outs))"

section \<open>Blinding\<close>

definition evaluate_request :: "bytes \<Rightarrow> bytes list \<Rightarrow> ra_msg" where
  "evaluate_request resource blinded =
     (createRA2018FilterMessage RA_EvaluateRequest)
       \<lparr>rm_psi := (createPSIMessage RA_EvaluateRequest)\<lparr>pm_resourceID := resource, pm_data := blinded\<rparr>\<rparr>"

text \<open>
  The loop of the job of \<open>blindData\<close> over the batches still to be read; \<open>draw\<close> gives the private key of a batch. A batch
  that finds the cache full has been read and has its sequence number, and is dropped.
\<close>

fun ra_blind_loop ::
  "(ts_act \<Rightarrow> bool) \<Rightarrow> (u32 \<Rightarrow> bytes) \<Rightarrow> bytes \<Rightarrow> taddr \<Rightarrow> bytes list list \<Rightarrow> 'a ra_scheme \<Rightarrow> 'a ra_scheme \<times> ra_out list" where
  "ra_blind_loop throws draw r a [] w = (set_task a ((psi_heap w a)\<lparr>ts_finished := True\<rparr>) w, [])"
| "ra_blind_loop throws draw r a (batch # rest) w =
     (let s = psi_heap w a; task = ts_task s; (seq, s1) = allocateSeq s;
          s2 = (if ts_sqlReader s then s1\<lparr>ts_finished := True\<rparr> else s1);
          w1 = (set_task a s2 w)\<lparr>ra_reader := (ra_reader w)(a := rest)\<rparr>;
          ((fresh, found), w2) = rcl_insertCache r (tk_id task) a seq batch (draw seq) w1
      in case found of
           None \<Rightarrow> (w2, [])
         | Some d \<Rightarrow>
             if \<not> fresh then ra_onTaskError throws PSIRetCode_TaskInProcessing (ts_peerID s) (tk_id task) r w2
             else
               let own = (case self_resource task of Some x \<Rightarrow> dr_resourceID x | None \<Rightarrow> []);
                   out = ra_send (ts_peerID s) (tk_id task) (evaluate_request own (rc_blind (ra_oprf w2) (ra_cache w2 d))) seq w2
               in if \<not> ts_sqlReader s \<and> psi_started w2
                  then let (w3, outs) = ra_blind_loop throws draw r a rest w2 in (w3, out # outs)
                  else (w2, [out]))"

definition run_blind ::
  "(ts_act \<Rightarrow> bool) \<Rightarrow> (u32 \<Rightarrow> bytes) \<Rightarrow> bytes \<Rightarrow> taddr \<Rightarrow> 'a ra_scheme \<Rightarrow> 'a ra_scheme \<times> ra_out list" where
  "run_blind throws draw r a w =
     (if psi_getTaskByID (tk_id (task_at w a)) w = None then (w, [])
      else if ts_finished (psi_heap w a) then (w, [])
      else ra_blind_loop throws draw r a (ra_reader w a) w)"

definition ra_blindData :: "bytes \<Rightarrow> taddr \<Rightarrow> 'a ra_scheme \<Rightarrow> bool \<times> 'a ra_scheme" where
  "ra_blindData r a w = (if ra_isFull w then (False, w) else (True, add_jobs [BlindJob r a] w))"

section \<open>The client's messages\<close>

definition ra_handleEvaluateResponse :: "PSIMessage \<Rightarrow> 'a ra_scheme \<Rightarrow> 'a ra_scheme \<times> ra_out list" where
  "ra_handleEvaluateResponse m w =
     (case rcl_cache (pm_taskID m) (pm_seq m) w of
        None \<Rightarrow> (w, [])
      | Some d \<Rightarrow>
          let w1 = set_cache d (rc_finalize (ra_oprf w) (pm_data m) (ra_cache w d)) w;
              (w2, outs) = rc_computeIntersection d w1
          in (checkAndStoreInterSectionResult w2, outs))"

definition requestCuckooFilters ::
  "bytes \<Rightarrow> bytes \<Rightarrow> bytes \<Rightarrow> CuckooFilterInfo list \<Rightarrow> u32 \<Rightarrow> int \<Rightarrow> u32 \<Rightarrow> 'a ra_scheme \<Rightarrow> ra_out" where
  "requestCuckooFilters peer task r infos packetType n seq w =
     ra_send peer task
       \<lparr>rm_psi = (createPSIMessage packetType)\<lparr>pm_partyID := psi_selfParty w, pm_resourceID := r\<rparr>,
        rm_filterInfo = infos, rm_cuckooFilterSize = n\<rparr> seq w"

text \<open>\<open>listed\<close> is the table of filters of a resource, nothing when reading it throws.\<close>

definition syncCuckooFilter ::
  "(ts_act \<Rightarrow> bool) \<Rightarrow> (bytes \<Rightarrow> CuckooFilterInfo list option) \<Rightarrow> bytes \<Rightarrow> bytes \<Rightarrow> bytes \<Rightarrow> 'a ra_scheme \<Rightarrow> 'a ra_scheme \<times> ra_out list" where
  "syncCuckooFilter throws listed peer task r w =
     (let (s, w1) = loadCuckooFilterState r True w;
          w2 = (case s of Some s1 \<Rightarrow> set_filter_state r (init_filter_state s1) w1 | None \<Rightarrow> w1)
      in case listed r of
           None \<Rightarrow> ra_onTaskError throws RA_syncCuckooFilterError peer task r w2
         | Some infos \<Rightarrow> (w2, [requestCuckooFilters peer task r infos RA_CuckooFilterRequest 0 0 w2]))"

definition ra_append :: "bytes \<Rightarrow> u32 \<Rightarrow> CuckooFilterInfo \<Rightarrow> 'a ra_scheme \<Rightarrow> 'a ra_scheme" where
  "ra_append r seq i w =
     (case map_of (ra_states w) r of Some s \<Rightarrow> set_filter_state r (appendCuckooFilterInfo seq i s) w | None \<Rightarrow> w)"

definition handleCuckooFilterResponseItem ::
  "(ts_act \<Rightarrow> bool) \<Rightarrow> (bytes \<Rightarrow> int \<Rightarrow> CuckooFilterInfo option) \<Rightarrow> ra_msg \<Rightarrow> CuckooFilterInfo \<Rightarrow> 'a ra_scheme \<Rightarrow>
   'a ra_scheme \<times> ra_out list" where
  "handleCuckooFilterResponseItem throws load m i w =
     (let p = rm_psi m; r = pm_resourceID p in
      case map_of (ra_states w) r of
        None \<Rightarrow> ra_cancelTask throws RA_LoadCuckooFilterDataError (pm_taskID p) w
      | Some s \<Rightarrow>
          if fi_cuckooFilter i \<noteq> None
          then (case fc_insert r i (ra_filters w) of
                  Inl _ \<Rightarrow> (w, [EmptyQueue])
                | Inr (_, c, outs) \<Rightarrow> (ra_append r (pm_seq p) i (w\<lparr>ra_filters := c\<rparr>), map CacheOut outs))
          else (case fc_query load r (fi_filterID i) (ra_filters w) of
                  Inl _ \<Rightarrow> (w, [EmptyQueue])
                | Inr (Some j, c, outs) \<Rightarrow> (ra_append r (pm_seq p) j (w\<lparr>ra_filters := c\<rparr>), map CacheOut outs)
                | Inr (None, c, outs) \<Rightarrow>
                    let w1 = w\<lparr>ra_filters := c\<rparr> in
                    if pm_packetType p \<noteq> RA_MissingCuckooFilterResponse
                    then (w1, map CacheOut outs @
                       [requestCuckooFilters (pm_from p) (pm_taskID p) r [i] RA_MissingCuckooFilterRequest
                          (rm_cuckooFilterSize m) (pm_seq p) w1])
                    else (set_filter_state r (decreaseCuckooFilterSize 1 s) w1, map CacheOut outs)))"

fun response_items ::
  "(ts_act \<Rightarrow> bool) \<Rightarrow> (bytes \<Rightarrow> int \<Rightarrow> CuckooFilterInfo option) \<Rightarrow> ra_msg \<Rightarrow> CuckooFilterInfo list \<Rightarrow> 'a ra_scheme \<Rightarrow>
   'a ra_scheme \<times> ra_out list" where
  "response_items throws load m [] w = (w, [])"
| "response_items throws load m (i # is) w =
     (let (w1, o1) = handleCuckooFilterResponseItem throws load m i w; (w2, o2) = response_items throws load m is w1
      in (w2, o1 @ o2))"

definition handleCuckooFilterResponse ::
  "(ts_act \<Rightarrow> bool) \<Rightarrow> (bytes \<Rightarrow> int \<Rightarrow> CuckooFilterInfo option) \<Rightarrow> ra_msg \<Rightarrow> 'a ra_scheme \<Rightarrow> 'a ra_scheme \<times> ra_out list" where
  "handleCuckooFilterResponse throws load m w =
     (let r = pm_resourceID (rm_psi m);
          w1 = (case map_of (ra_states w) r of
                  Some s \<Rightarrow> set_filter_state r (setCuckooFilterSize (rm_cuckooFilterSize m) s) w | None \<Rightarrow> w);
          (w2, outs) = response_items throws load m (rm_filterInfo m) w1
      in (checkAndStoreInterSectionResult (rcl_computeIntersection w2), outs))"

section \<open>The server's messages\<close>

definition same_filter :: "CuckooFilterInfo \<Rightarrow> CuckooFilterInfo \<Rightarrow> bool" where
  "same_filter i j \<longleftrightarrow> \<not> CuckooFilterInfoComparator i j \<and> \<not> CuckooFilterInfoComparator j i"

text \<open>The filters the client has unchanged, in its order, and the remaining ones.\<close>

fun hit_filters :: "CuckooFilterInfo list \<Rightarrow> CuckooFilterInfo list \<Rightarrow> CuckooFilterInfo list \<times> CuckooFilterInfo list" where
  "hit_filters [] local_infos = ([], local_infos)"
| "hit_filters (i # is) local_infos =
     (case find (same_filter i) local_infos of
        None \<Rightarrow> hit_filters is local_infos
      | Some j \<Rightarrow> let (hits, rest) = hit_filters is (filter (\<lambda>k. \<not> same_filter j k) local_infos) in (j # hits, rest))"

definition responses_of :: "(bytes \<Rightarrow> int \<Rightarrow> bytes) \<Rightarrow> bytes \<Rightarrow> CuckooFilterInfo list \<Rightarrow> CuckooFilterInfo list \<Rightarrow> CuckooFilterInfo list" where
  "responses_of loadData r asked local_infos =
     (let (hits, missed) = hit_filters asked local_infos
      in hits @ filter (\<lambda>i. fi_cuckooFilterData i \<noteq> [])
                  (map (\<lambda>i. i\<lparr>fi_cuckooFilterData := loadData r (fi_filterID i)\<rparr>) missed))"

definition responseCuckooFilter :: "u32 \<Rightarrow> PSIMessage \<Rightarrow> CuckooFilterInfo \<Rightarrow> int \<Rightarrow> u32 \<Rightarrow> 'a ra_scheme \<Rightarrow> ra_out" where
  "responseCuckooFilter packetType m i n seq w =
     ra_send (pm_from m) (pm_taskID m)
       \<lparr>rm_psi = (createPSIMessage packetType)\<lparr>pm_resourceID := pm_resourceID m, pm_partyID := psi_selfParty w\<rparr>,
        rm_filterInfo = [i], rm_cuckooFilterSize = i32 n\<rparr> seq w"

definition handleCuckooFilterRequest ::
  "(ts_act \<Rightarrow> bool) \<Rightarrow> (bytes \<Rightarrow> CuckooFilterInfo list option) \<Rightarrow> (bytes \<Rightarrow> int \<Rightarrow> bytes) \<Rightarrow> ra_msg \<Rightarrow> 'a ra_scheme \<Rightarrow>
   'a ra_scheme \<times> ra_out list" where
  "handleCuckooFilterRequest throws listed loadData m w =
     (let p = rm_psi m; r = pm_resourceID p in
      case listed r of
        None \<Rightarrow> ra_onTaskError throws (- 1023) (pm_from p) (pm_taskID p) ''emptyDataResource'' w
      | Some [] \<Rightarrow> ra_onTaskError throws RA_NotOfflineFullEvaluated (pm_from p) (pm_taskID p) r w
      | Some infos \<Rightarrow>
          let responses = responses_of loadData r (rm_filterInfo m) infos
          in (w, map (\<lambda>k. responseCuckooFilter RA_CuckooFilterResponse p (responses ! k) (int (length responses)) (of_nat (k + 1)) w)
                   [0..<length responses]))"

definition handleMissedCuckooFilterRequest ::
  "(bytes \<Rightarrow> int \<Rightarrow> bytes) \<Rightarrow> ra_msg \<Rightarrow> 'a ra_scheme \<Rightarrow> 'a ra_scheme \<times> ra_out list" where
  "handleMissedCuckooFilterRequest loadData m w =
     (w, map (\<lambda>i. responseCuckooFilter RA_MissingCuckooFilterResponse (rm_psi m)
                    (i\<lparr>fi_cuckooFilterData := loadData (pm_resourceID (rm_psi m)) (fi_filterID i)\<rparr>)
                    (rm_cuckooFilterSize m) (pm_seq (rm_psi m)) w) (rm_filterInfo m))"

definition ra_handleEvaluateRequest :: "PSIMessage \<Rightarrow> 'a ra_scheme \<Rightarrow> 'a ra_scheme \<times> ra_out list" where
  "ra_handleEvaluateRequest m w =
     (w, [ra_send (pm_from m) (pm_taskID m)
            ((createRA2018FilterMessage RA_EvaluateResponse)
               \<lparr>rm_psi := (createPSIMessage RA_EvaluateResponse)
                  \<lparr>pm_data := oprf_evaluate (ra_oprf w) (ra_privateKey w) (pm_data m),
                   pm_resourceID := pm_resourceID m, pm_partyID := psi_selfParty w\<rparr>\<rparr>) (pm_seq m) w])"

section \<open>Jobs\<close>

text \<open>What the storage of a node gives: the listed filters of a resource, a filter, the bytes of a filter.\<close>

record ra_storage =
  st_listed :: "bytes \<Rightarrow> CuckooFilterInfo list option"
  st_load :: "bytes \<Rightarrow> int \<Rightarrow> CuckooFilterInfo option"
  st_loadData :: "bytes \<Rightarrow> int \<Rightarrow> bytes"

definition run_message :: "(ts_act \<Rightarrow> bool) \<Rightarrow> ra_storage \<Rightarrow> ra_msg \<Rightarrow> 'a ra_scheme \<Rightarrow> 'a ra_scheme \<times> ra_out list" where
  "run_message throws st m w =
     (let t = pm_packetType (rm_psi m) in
      if t = RA_CuckooFilterRequest then handleCuckooFilterRequest throws (st_listed st) (st_loadData st) m w
      else if t = RA_MissingCuckooFilterRequest then handleMissedCuckooFilterRequest (st_loadData st) m w
      else if t = RA_MissingCuckooFilterResponse \<or> t = RA_CuckooFilterResponse
      then handleCuckooFilterResponse throws (st_load st) m w
      else if t = RA_EvaluateRequest then ra_handleEvaluateRequest (rm_psi m) w
      else if t = RA_EvaluateResponse then ra_handleEvaluateResponse (rm_psi m) w
      else (w, []))"

definition ra_run_job ::
  "(ts_act \<Rightarrow> bool) \<Rightarrow> ra_storage \<Rightarrow> (u32 \<Rightarrow> bytes) \<Rightarrow> ra_job \<Rightarrow> 'a ra_scheme \<Rightarrow> 'a ra_scheme \<times> ra_out list" where
  "ra_run_job throws st draw j w =
     (case j of
        SyncFilterJob peer task r \<Rightarrow> syncCuckooFilter throws (st_listed st) peer task r w
      | BlindJob r a \<Rightarrow> run_blind throws draw r a w
      | ComputeJob d \<Rightarrow> let (w1, outs) = rc_computeIntersection d w in (checkAndStoreInterSectionResult w1, outs)
      | CommitJob d \<Rightarrow> commitPSIResult throws d w
      | MessageJob m \<Rightarrow> run_message throws st m w)"

text \<open>The pool runs the \<open>i\<close>-th waiting job.\<close>

definition ra_pool ::
  "(ts_act \<Rightarrow> bool) \<Rightarrow> ra_storage \<Rightarrow> (u32 \<Rightarrow> bytes) \<Rightarrow> nat \<Rightarrow> 'a ra_scheme \<Rightarrow> 'a ra_scheme \<times> ra_out list" where
  "ra_pool throws st draw i w =
     (if i < length (ra_jobs w)
      then ra_run_job throws st draw (ra_jobs w ! i) (w\<lparr>ra_jobs := take i (ra_jobs w) @ drop (i + 1) (ra_jobs w)\<rparr>)
      else (w, []))"

text \<open>
  \<open>handlePSIMsg\<close>. The handshake handlers throw, which leaves the state as it is.
\<close>

definition ra_handlePSIMsg ::
  "(ts_act \<Rightarrow> bool) \<Rightarrow> (taddr \<Rightarrow> u64) \<Rightarrow> ra_msg \<Rightarrow> 'a ra_scheme \<Rightarrow> 'a ra_scheme \<times> ra_out list" where
  "ra_handlePSIMsg throws pendingTime m w =
     (let framework = handlePSIFrameworkMsg (\<lambda>_ v. (v, [])) (\<lambda>_ v. (v, [])) throws pendingTime (rm_psi m) w in
      if ra_disabled w then (case framework of Some r \<Rightarrow> ra_finalizing r | None \<Rightarrow> (w, []))
      else case checkPSIMsg (rm_psi m) w of
        (False, outs) \<Rightarrow> (w, map Psi outs)
      | (True, _) \<Rightarrow>
          (case framework of Some r \<Rightarrow> ra_finalizing r | None \<Rightarrow> (add_jobs [MessageJob m] w, [])))"

section \<open>Data preprocessing\<close>

definition direct_answer :: "taddr \<Rightarrow> int option \<Rightarrow> 'a ra_scheme \<Rightarrow> ra_out" where
  "direct_answer a e w = Psi (TaskOut a (Answer \<lparr>tr_taskID = tk_id (task_at w a), tr_error = e, tr_status = NoStatus\<rparr>))"

definition resource_of :: "taddr \<Rightarrow> 'a ra_scheme \<Rightarrow> bytes" where
  "resource_of a w = (case self_resource (task_at w a) of Some r \<Rightarrow> dr_resourceID r | None \<Rightarrow> ''empty'')"

text \<open>
  The end of the preprocessing of a task: the callback \<open>offlineFullEvaluate\<close> gets. An error is logged; the answer has
  none. \<open>after_preprocessing\<close> calls it for every such output.
\<close>

definition on_preprocessed :: "taddr \<Rightarrow> int option \<Rightarrow> 'a ra_scheme \<Rightarrow> 'a ra_scheme \<times> ra_out list" where
  "on_preprocessed a e w =
     (let w1 = removePendingTask (tk_id (task_at w a)) (removeLockingResource (resource_of a w) w)
      in (w1, if ra_waitResult w then [direct_answer a None w] else []))"

fun after_preprocessing :: "taddr \<Rightarrow> store_out list \<Rightarrow> 'a ra_scheme \<Rightarrow> 'a ra_scheme \<times> ra_out list" where
  "after_preprocessing a [] w = (w, [])"
| "after_preprocessing a (x # xs) w =
     (let (w1, o1) = (case x of Preprocessed e \<Rightarrow> on_preprocessed a e w | _ \<Rightarrow> (w, [StoreOut x]));
          (w2, o2) = after_preprocessing a xs w1
      in (w2, o1 @ o2))"

definition set_preprocessing :: "taddr \<Rightarrow> preprocessing \<Rightarrow> 'a ra_scheme \<Rightarrow> 'a ra_scheme" where
  "set_preprocessing a p w = w\<lparr>ra_preprocessing := (ra_preprocessing w)(a := p)\<rparr>"

text \<open>
  The job of the offline worker: \<open>rounds\<close> is how often the insertion loop may go round before \<open>stop\<close>; \<open>loadFilter\<close> what
  loading a filter of the resource gives. The failure of the job answers and cancels. Deletion evaluates the first batch
  without asking whether there is one.
\<close>

definition offline_failed :: "(ts_act \<Rightarrow> bool) \<Rightarrow> taddr \<Rightarrow> bool \<Rightarrow> 'a ra_scheme \<Rightarrow> 'a ra_scheme \<times> ra_out list" where
  "offline_failed throws a answer w =
     (let (w1, outs) = ra_cancelTask throws (- 1) (tk_id (task_at w a)) w
      in (w1, (if answer then [direct_answer a (Some (- 1)) w] else []) @ outs))"

definition offlineFullEvaluate ::
  "(ts_act \<Rightarrow> bool) \<Rightarrow> nat \<Rightarrow> kicks \<Rightarrow> (int \<Rightarrow> (CuckooFilterInfo \<times> Cuckoofilter) option) \<Rightarrow> CuckooFilterInfo list \<Rightarrow> int \<Rightarrow> bool \<Rightarrow>
   bytes list list \<Rightarrow> taddr \<Rightarrow> 'a ra_scheme \<Rightarrow> 'a ra_scheme \<times> ra_out list" where
  "offlineFullEvaluate throws rounds random loadFilter infos operation sqlReader batches a w =
     (let r = resource_of a w in
      if operation = 0
      then (case evaluateAndInsert rounds random (ra_filterOption w) loadFilter (ra_oprf w) (ra_privateKey w) sqlReader batches r infos of
              Inl _ \<Rightarrow> offline_failed throws a (ra_waitResult w) w
            | Inr (al, outs) \<Rightarrow> after_preprocessing a outs (set_preprocessing a (Inserting al) w))
      else if operation = 1
      then (case batches of
              [] \<Rightarrow> (w, [Psi NullDereference])
            | batch # _ \<Rightarrow>
                let (rest, ds, outs) = evaluateAndDelete (\<lambda>k. map_option snd (loadFilter k)) (ra_oprf w) (ra_privateKey w) r batch infos
                in after_preprocessing a outs (set_preprocessing a (Deleting ds) w))
      else on_preprocessed a (Some (- 1)) w)"

text \<open>A store of the preprocessing of a task has ended.\<close>

definition store_ended :: "taddr \<Rightarrow> bool \<Rightarrow> 'a ra_scheme \<Rightarrow> 'a ra_scheme \<times> ra_out list" where
  "store_ended a failed w =
     (case ra_preprocessing w a of
        NoPreprocessing \<Rightarrow> (w, [])
      | Inserting al \<Rightarrow> let (al', outs) = saved_callback failed al in after_preprocessing a outs (set_preprocessing a (Inserting al') w)
      | Deleting ds \<Rightarrow> let (ds', outs) = deleted_callback failed ds in after_preprocessing a outs (set_preprocessing a (Deleting ds') w))"

text \<open>\<open>asyncRunDataProcessing\<close> up to the job; \<open>loads\<close> says whether the data could be opened.\<close>

definition asyncRunDataProcessing :: "(ts_act \<Rightarrow> bool) \<Rightarrow> bool \<Rightarrow> taddr \<Rightarrow> 'a ra_scheme \<Rightarrow> bool \<times> 'a ra_scheme \<times> ra_out list" where
  "asyncRunDataProcessing throws loads a w =
     (if \<not> loads then (False, offline_failed throws a True w)
      else (True, w, if \<not> ra_waitResult w then [direct_answer a None w] else []))"

section \<open>Running a task\<close>

definition ra_needLockResource :: "int \<Rightarrow> u16 \<Rightarrow> bool" where
  "ra_needLockResource command partyIndex \<longleftrightarrow> \<not> (command = RA_RUN_PSI \<and> partyIndex = PartyType_Server)"

definition ra_peer_resource :: "PartyResource \<Rightarrow> bytes" where
  "ra_peer_resource p = (case pa_dataResource p of Some r \<Rightarrow> dr_resourceID r | None \<Rightarrow> [])"

text \<open>
  \<open>outputFails\<close> is the code that checking or opening the output throws, if it does, \<open>load\<close> what opening the input throws
  or gives; what is thrown reaches \<open>asyncRunTask\<close>, which cancels the task.
\<close>

definition ra_run_failed :: "(ts_act \<Rightarrow> bool) \<Rightarrow> int \<Rightarrow> taddr \<Rightarrow> 'a ra_scheme \<Rightarrow> 'a ra_scheme \<times> ra_out list" where
  "ra_run_failed throws e a w = ra_onTaskError throws e (ts_peerID (psi_heap w a)) (tk_id (task_at w a)) (resource_of a w) w"

definition runClientPSI ::
  "(ts_act \<Rightarrow> bool) \<Rightarrow> int option \<Rightarrow> int + (bool \<times> bytes list list) \<Rightarrow> taddr \<Rightarrow> 'a ra_scheme \<Rightarrow> 'a ra_scheme \<times> ra_out list" where
  "runClientPSI throws outputFails load a w0 =
     (let (p, w1, outs1) = (let (p, r) = checkAndSetPeerInfo throws True a w0 in (p, ra_finalizing r)) in
      case p of
        None \<Rightarrow> (w1, outs1)
      | Some peer \<Rightarrow>
          let (ok, w2, outs2) = (let (ok, r) = checkDataResourceForSelf throws a (pa_id peer) True w1 in (ok, ra_finalizing r)) in
          if \<not> ok then (w2, outs1 @ outs2)
          else case (case outputFails of Some e \<Rightarrow> Inl e | None \<Rightarrow> load) of
            Inl e \<Rightarrow> (let (w3, outs3) = ra_run_failed throws e a w2 in (w3, outs1 @ outs2 @ outs3))
          | Inr (sql, batches) \<Rightarrow>
              let w3 = (set_task a ((psi_heap w2 a)\<lparr>ts_reader := True, ts_sqlReader := sql\<rparr>) w2)
                         \<lparr>ra_reader := (ra_reader w2)(a := batches)\<rparr>;
                  w4 = add_jobs [SyncFilterJob (pa_id peer) (tk_id (task_at w3 a)) (ra_peer_resource peer)] w3;
                  w5 = snd (ra_blindData (ra_peer_resource peer) a w4);
                  w6 = (if sql then w5 else set_task a ((psi_heap w5 a)\<lparr>ts_worker := True\<rparr>) w5)
              in (w6, outs1 @ outs2))"

definition ra_runPSI ::
  "(ts_act \<Rightarrow> bool) \<Rightarrow> int option \<Rightarrow> int + (bool \<times> bytes list list) \<Rightarrow> taddr \<Rightarrow> 'a ra_scheme \<Rightarrow> 'a ra_scheme \<times> ra_out list" where
  "ra_runPSI throws outputFails load a w =
     (let task = task_at w a; note1 = Psi (NotifyTaskInfo (tk_id task)); party = pa_partyIndex (tk_selfParty task) in
      if party = PartyType_Client
      then let (w1, outs) = runClientPSI throws outputFails load a w in (w1, note1 # outs)
      else if party = PartyType_Server
      then
        let (p, w1, outs1) = (let (p, r) = checkAndSetPeerInfo throws False a w in (p, ra_finalizing r)) in
        case p of
          None \<Rightarrow> (w1, note1 # outs1)
        | Some peer \<Rightarrow>
            if \<not> tk_syncResultToPeer task then (w1, note1 # outs1)
            else
              let w2 = set_task a (tryToGenerateDefaultOutputDesc (psi_heap w1 a)) w1 in
              (case outputFails of
                 Some e \<Rightarrow> (let (w3, outs2) = ra_run_failed throws e a w2 in (w3, note1 # outs1 @ outs2))
               | None \<Rightarrow> (w2, note1 # outs1))
      else let (w1, outs) = ra_cancelTask throws RA_UnsupportedPartyType (tk_id task) w in (w1, note1 # outs))"

text \<open>The worker of a client's task, called by the framework's loop.\<close>

definition ra_worker :: "taddr \<Rightarrow> 'a ra_scheme \<Rightarrow> 'a ra_scheme" where
  "ra_worker a w = (case tk_peerParties (task_at w a) of [(_, peer)] \<Rightarrow> snd (ra_blindData (ra_peer_resource peer) a w) | _ \<Rightarrow> w)"

text \<open>
  \<open>param\<close> is the parsed parameter of the task, command and operation, or the exception that parsing throws to the
  caller. The last component of the result is whether a preprocessing job was enqueued.
\<close>

definition ra_asyncRunTask ::
  "(ts_act \<Rightarrow> bool) \<Rightarrow> int option \<Rightarrow> int + (bool \<times> bytes list list) \<Rightarrow> (int \<times> int) res \<Rightarrow> Task \<Rightarrow> 'a ra_scheme \<Rightarrow>
   ('a ra_scheme \<times> ra_out list \<times> bool) res" where
  "ra_asyncRunTask throws outputFails load param task w =
     (let a = psi_next w in
      if ra_disabled w
      then Inr (w, [Psi (NotifyTaskInfo (tk_id task))] @
             concat (map (\<lambda>(_, p). map Psi (notifyTaskResult (Some RA_Disabled) (pa_id p) (tk_id task) ''emptyResource'' w)) (tk_peerParties task)) @
             [Psi (TaskOut a (Answer \<lparr>tr_taskID = tk_id task, tr_error = Some RA_Disabled, tr_status = NoStatus\<rparr>)),
              EraseTaskInfo (tk_id task)], False)
      else rbind param (\<lambda>(command, operation).
        let w1 = snd (createTaskState task False False w);
            w2 = set_task a ((psi_heap w1 a)\<lparr>ts_finalizeHandler := True\<rparr>) w1;
            (e, w3, outs1) =
              (let (e, r) = lockResourceAndRecordTaskState throws
                              (ra_needLockResource command (pa_partyIndex (tk_selfParty task))) a w2
               in (e, ra_finalizing r))
        in case e of
             Some c \<Rightarrow>
               Inr (w3, outs1 @ [Psi (TaskOut a (Answer \<lparr>tr_taskID = tk_id task, tr_error = Some c, tr_status = NoStatus\<rparr>))], False)
           | None \<Rightarrow>
               let w4 = set_task a ((psi_heap w3 a)\<lparr>ts_onSubTaskFinished := True\<rparr>) w3 in
               if command = RA_DATA_PREPROCESSING
               then let (job, w5, outs2) = asyncRunDataProcessing throws (case load of Inl _ \<Rightarrow> False | Inr _ \<Rightarrow> True) a w4 in Inr (w5, outs1 @ outs2, job)
               else if command = RA_RUN_PSI
               then let (w5, outs2) = ra_runPSI throws outputFails load a w4 in Inr (w5, outs1 @ outs2, False)
               else let (w5, outs2) = ra_run_failed throws RA_UnsupportedCommand a w4 in Inr (w5, outs1 @ outs2, False)))"

end
