(* ===== verification/RaOffline.thy ===== *)
theory RaOffline
  imports RaFilters
begin

text \<open>
  The data preprocessing of RA2018-PSI: with enough rounds the insertion loop puts every evaluated item into a filter that
  is stored. Where the preprocessing never answers, and what the eviction of the filter cache takes.
\<close>

section \<open>Inserting\<close>

lemma batch_loop_length: "length (fst (batch_loop random keys f)) \<le> length keys"
  by (induction random keys f rule: batch_loop.induct)
    (auto simp: Let_def split: prod.split CuckooFilterResult.split intro: le_SucI)

text \<open>A new filter is empty and takes at least the first key.\<close>

lemma new_filter_table:
  assumes "new_Cuckoofilter opt = Inr f"
  shows "ht_buckets (cf_hashTable f) = []" "ht_trashBucket (cf_hashTable f) = {}"
    "op_tagNumPerBucket (cf_option f) = op_tagNumPerBucket opt" "op_trashBucketSize (cf_option f) = op_trashBucketSize opt"
  using assms by (auto simp: new_Cuckoofilter_def initCuckooFilter_def Let_def calculateBucketCapacity_def split: option.splits)

definition usable :: "CuckoofilterOption \<Rightarrow> bool" where
  "usable opt \<longleftrightarrow> checkOption opt = None \<and> 8 \<le> op_tagBits opt \<and> 0 < op_tagNumPerBucket opt \<and> 0 < op_trashBucketSize opt"

lemma usable_new:
  assumes "usable opt"
  obtains f where "new_Cuckoofilter opt = Inr f" and "cf_ok f" and "\<not> ht_full (cf_hashTable f)"
proof -
  obtain f where f: "new_Cuckoofilter opt = Inr f"
    using assms by (auto simp: usable_def new_Cuckoofilter_def initCuckooFilter_def Let_def)
  moreover have "cf_ok f" using new_filter_ok [OF f] assms by (simp add: usable_def)
  moreover have "\<not> ht_full (cf_hashTable f)"
    using new_filter_table [OF f] assms by (simp add: ht_full_def usable_def word_less_nat_alt)
  ultimately show thesis by (rule that)
qed

lemma new_filter_takes:
  assumes "usable opt" and "new_Cuckoofilter opt = Inr f"
  shows "length (fst (batch_loop random (k # ks) f)) \<le> length ks"
proof -
  note t = new_filter_table [OF assms(2)]
  have "batchInsert (\<lambda>_. random (length ks)) [k] f = (True, [], snd (insertWithoutLock (random (length ks)) k f))"
    using first_key [of f "\<lambda>_. random (length ks)" k] t assms(1) by (simp add: usable_def word_less_nat_alt)
  then have "containsWithoutLock k f \<or> fst (insertWithoutLock (random (length ks)) k f) = Success"
    by (auto simp: batchInsert_def Let_def split: if_splits prod.splits CuckooFilterResult.splits)
  then show ?thesis
    using batch_loop_length [of random ks] by (auto simp: split_beta)
qed

text \<open>
  An allocator at work: its filter is well-formed, and so is every filter that loading gives. An item is \<open>placed\<close> when a
  stored filter or the current one has it.
\<close>

definition loads_ok :: "(int \<Rightarrow> (CuckooFilterInfo \<times> Cuckoofilter) option) \<Rightarrow> bool" where
  "loads_ok load \<longleftrightarrow> (\<forall>k i f. load k = Some (i, f) \<longrightarrow> cf_ok f)"

definition al_ok :: "CuckoofilterAllocator \<Rightarrow> bool" where
  "al_ok a \<longleftrightarrow> (case al_current a of None \<Rightarrow> True | Some (_, f) \<Rightarrow> cf_ok f)"

fun stored_filter :: "store_out \<Rightarrow> Cuckoofilter option" where
  "stored_filter (StoreInsert r f) = Some f"
| "stored_filter (StoreUpdate r i) = fi_cuckooFilter i"
| "stored_filter (Preprocessed e) = None"

definition in_store :: "bytes \<Rightarrow> store_out list \<Rightarrow> bool" where
  "in_store key outs \<longleftrightarrow> (\<exists>x \<in> set outs. \<exists>f. stored_filter x = Some f \<and> containsWithoutLock key f)"

definition in_current :: "bytes \<Rightarrow> CuckoofilterAllocator \<Rightarrow> bool" where
  "in_current key a \<longleftrightarrow> (case al_current a of None \<Rightarrow> False | Some (_, f) \<Rightarrow> containsWithoutLock key f)"

definition placed :: "bytes \<Rightarrow> CuckoofilterAllocator \<Rightarrow> store_out list \<Rightarrow> bool" where
  "placed key a outs \<longleftrightarrow> in_store key outs \<or> in_current key a"

lemma in_store_append [simp]: "in_store k (xs @ ys) \<longleftrightarrow> in_store k xs \<or> in_store k ys"
  by (auto simp: in_store_def)

lemma in_store_Nil [simp]: "\<not> in_store k []"
  by (simp add: in_store_def)

lemma save_places:
  "saveOverLoadedCuckooFilter flush a = (a', outs) \<Longrightarrow> in_current k a \<Longrightarrow> in_store k outs"
  by (auto simp: saveOverLoadedCuckooFilter_def in_current_def in_store_def split: option.splits)

lemma load_reusable_ok:
  "loads_ok load \<Longrightarrow> load_reusable load is = (x, rest) \<Longrightarrow>
   (case x of None \<Rightarrow> rest = [] | Some (_, f) \<Rightarrow> cf_ok f \<and> length rest < length is)"
proof (induction load "is" rule: load_reusable.induct)
  case (2 load i rest')
  then show ?case by (cases "load (fi_filterID i)") (auto simp: loads_ok_def split: option.splits)
qed simp

text \<open>The current filter, when it is not full, stays; otherwise the next one is loaded or new.\<close>

definition al_waiting :: "CuckoofilterAllocator \<Rightarrow> bool" where
  "al_waiting a \<longleftrightarrow> (case al_current a of None \<Rightarrow> True | Some (_, f) \<Rightarrow> ht_full (cf_hashTable f))"

lemma allocate_current:
  assumes "\<not> al_waiting a"
  obtains i f where "al_current a = Some (i, f)" and "\<not> ht_full (cf_hashTable f)" and "al_allocate opt load a = Inr (f, a, [])"
  using assms by (auto simp: al_waiting_def al_allocate_def split: option.splits)

lemma allocate_next:
  assumes u: "usable opt" and l: "loads_ok load" and w: "al_waiting a"
  obtains f i a1 outs where "al_allocate opt load a = Inr (f, a1, outs)" and "cf_ok f" and "al_current a1 = Some (i, f)"
    and "\<And>k. in_current k a \<Longrightarrow> in_store k outs"
    and "length (al_reusableFilters a1) < length (al_reusableFilters a) \<or> (new_Cuckoofilter opt = Inr f \<and> al_reusableFilters a1 = [])"
proof -
  obtain b outs where b: "(case al_current a of None \<Rightarrow> (a, [], None)
      | Some (i, f) \<Rightarrow> if \<not> ht_full (cf_hashTable f) then (a, [], Some f)
          else let (a1, outs) = saveOverLoadedCuckooFilter False a in (a1, outs, None)) = (b, outs, None)"
    and r: "al_reusableFilters b = al_reusableFilters a" and s: "\<And>k. in_current k a \<Longrightarrow> in_store k outs"
  proof (cases "al_current a")
    case None
    then show ?thesis by (intro that [of a "[]"]) (simp_all add: in_current_def)
  next
    case (Some x)
    obtain b outs where b: "saveOverLoadedCuckooFilter False a = (b, outs)" by fastforce
    then have "al_reusableFilters b = al_reusableFilters a"
      by (auto simp: saveOverLoadedCuckooFilter_def split: option.splits)
    then show ?thesis
      using Some w b save_places [OF b] by (intro that [of b outs]) (auto simp: al_waiting_def split: prod.splits)
  qed
  obtain x rest where x: "load_reusable load (rev (al_reusableFilters b)) = (x, rest)" by fastforce
  note lr = load_reusable_ok [OF l x]
  show thesis
  proof (cases x)
    case None
    obtain f where f: "new_Cuckoofilter opt = Inr f" "cf_ok f" using usable_new [OF u] by blast
    then show thesis
      using lr None b x s by (intro that) (auto simp: al_allocate_def)
  next
    case (Some y)
    obtain i f where y: "y = (i, f)" by fastforce
    then show thesis
      using lr Some b x s r
      by (intro that [of f "b\<lparr>al_reusableFilters := rev rest, al_current := Some (i, f)\<rparr>" outs i])
        (auto simp: al_allocate_def)
  qed
qed

lemma all_contained: "\<forall>k \<in> set keys. containsWithoutLock k f \<Longrightarrow> batch_loop random keys f = ([], f)"
  by (induction keys) simp_all

text \<open>How many rounds a list of keys may need.\<close>

definition enough_rounds :: "nat \<Rightarrow> bytes list \<Rightarrow> CuckoofilterAllocator \<Rightarrow> bool" where
  "enough_rounds n keys a \<longleftrightarrow>
     (if al_waiting a then length keys + length (al_reusableFilters a) + 1 \<le> n
      else if \<forall>k \<in> set keys. in_current k a then 1 \<le> n
      else length keys + length (al_reusableFilters a) + 2 \<le> n)"

text \<open>One round with the filter \<open>f\<close>: nothing of it is lost, and the keys that are left need fewer rounds.\<close>

lemma one_round:
  assumes f: "cf_ok f" and cur: "al_current a1 = Some (i, f)" and b: "batchInsert random keys f = (ok, rest, g)"
  shows "ok = (rest = [])" and "al_ok (set_current g a1)" and "in_current k a1 \<Longrightarrow> in_current k (set_current g a1)"
    and "k \<in> set keys \<Longrightarrow> k \<in> set rest \<or> in_current k (set_current g a1)" and "length rest \<le> length keys"
    and "\<not> al_waiting (set_current g a1) \<Longrightarrow> \<forall>k \<in> set rest. in_current k (set_current g a1)"
proof -
  have l: "batch_loop random keys f = (rest, g)" and ok: "ok = (rest = [])"
    using b by (auto simp: batchInsert_def Let_def split: prod.splits)
  note st = batch_loop_stores [OF f l]
  have c: "al_current (set_current g a1) = Some (i, g)" by (simp add: set_current_def cur)
  show "ok = (rest = [])" by (rule ok)
  show "al_ok (set_current g a1)" using st c by (simp add: al_ok_def extends_def)
  show "in_current k a1 \<Longrightarrow> in_current k (set_current g a1)"
    using st c cur contains_extends [of f g k] by (simp add: in_current_def)
  show "k \<in> set keys \<Longrightarrow> k \<in> set rest \<or> in_current k (set_current g a1)" using st c by (auto simp: in_current_def)
  show "length rest \<le> length keys" using batch_loop_length [of random keys f] l by simp
  show "\<not> al_waiting (set_current g a1) \<Longrightarrow> \<forall>k \<in> set rest. in_current k (set_current g a1)"
    using st c by (auto simp: in_current_def al_waiting_def)
qed

lemma rounds_place:
  assumes u: "usable opt" and l: "loads_ok load" and "al_ok a" and "enough_rounds n keys a"
  shows "\<exists>a' outs. insert_rounds n random opt load keys a = Inr ([], a', outs) \<and> al_ok a'
    \<and> (\<forall>k. k \<in> set keys \<or> in_current k a \<longrightarrow> placed k a' outs)"
  using assms(3,4)
proof (induction n arbitrary: keys a)
  case 0
  then show ?case by (simp add: enough_rounds_def split: if_splits)
next
  case (Suc n)
  obtain i f a1 outs1 where al: "al_allocate opt load a = Inr (f, a1, outs1)" "al_current a1 = Some (i, f)" "cf_ok f"
    and kept: "\<And>k. in_current k a \<Longrightarrow> in_store k outs1 \<or> in_current k a1"
    and fewer: "al_waiting a \<longrightarrow> length (al_reusableFilters a1) < length (al_reusableFilters a)
      \<or> (new_Cuckoofilter opt = Inr f \<and> al_reusableFilters a1 = [])" "\<not> al_waiting a \<longrightarrow> a1 = a"
  proof (cases "al_waiting a")
    case True
    then show ?thesis using allocate_next [OF u l True] that by metis
  next
    case False
    then obtain i f where "al_current a = Some (i, f)" "al_allocate opt load a = Inr (f, a, [])" by (rule allocate_current)
    then show ?thesis using that [of f a "[]" i] Suc.prems(1) False by (simp add: al_ok_def)
  qed
  obtain ok rest g where b: "batchInsert random keys f = (ok, rest, g)" by (metis prod_cases3)
  let ?a = "set_current g a1"
  note r = one_round [OF al(3,2) b]
  have re: "al_reusableFilters ?a = al_reusableFilters a1" by (simp add: set_current_def)
  have step: "insert_rounds (Suc n) random opt load keys a =
      (if ok then Inr (rest, ?a, outs1)
       else rbind (insert_rounds n random opt load rest ?a) (\<lambda>(rest', a3, outs2). Inr (rest', a3, outs1 @ outs2)))"
    using al b by simp
  show ?case
  proof (cases "rest = []")
    case True
    then have "ok" using r(1) by simp
    then have "insert_rounds (Suc n) random opt load keys a = Inr ([], ?a, outs1)" using step True by simp
    moreover have "placed k ?a outs1" if "k \<in> set keys \<or> in_current k a" for k
      using that kept [of k] r(3) [of k] r(4) [of k] True by (auto simp: placed_def)
    ultimately show ?thesis using r(2) by blast
  next
    case False
    have less: "length rest + length (al_reusableFilters a1) < length keys + length (al_reusableFilters a)" if "al_waiting a"
    proof -
      have "length rest < length keys" if "new_Cuckoofilter opt = Inr f"
      proof (cases keys)
        case Nil
        then show ?thesis using b False by (simp add: batchInsert_def)
      next
        case (Cons x xs)
        have "fst (batch_loop random keys f) = rest" using b by (simp add: batchInsert_def Let_def split_beta)
        then show ?thesis using new_filter_takes [OF u that, of random x xs] Cons by (simp del: batch_loop.simps)
      qed
      then show ?thesis using fewer(1) r(5) that by fastforce
    qed
    have "\<not> (\<forall>k \<in> set keys. in_current k a)" if "\<not> al_waiting a"
    proof
      assume "\<forall>k \<in> set keys. in_current k a"
      then have "batch_loop random keys f = ([], f)"
        using fewer(2) that al(2) by (intro all_contained) (simp add: in_current_def)
      then show False using b False by (simp add: batchInsert_def)
    qed
    then have "enough_rounds n rest ?a"
      using Suc.prems(2) less fewer(2) r(5,6) re False
      by (cases rest) (auto simp: enough_rounds_def split: if_splits)
    from Suc.IH [OF r(2) this] obtain a' outs2 where ih: "insert_rounds n random opt load rest ?a = Inr ([], a', outs2)" "al_ok a'"
      "\<And>k. k \<in> set rest \<or> in_current k ?a \<Longrightarrow> placed k a' outs2" by blast
    then have "insert_rounds (Suc n) random opt load keys a = Inr ([], a', outs1 @ outs2)" using step r(1) False by simp
    moreover have "placed k a' (outs1 @ outs2)" if "k \<in> set keys \<or> in_current k a" for k
      using that kept [of k] r(3) [of k] r(4) [of k] ih(3) [of k] by (auto simp: placed_def)
    ultimately show ?thesis using ih(2) by blast
  qed
qed

section \<open>The whole preprocessing\<close>

lemma allocate_reusable:
  assumes "loads_ok load" and "al_allocate opt load a = Inr (f, a1, outs)"
  shows "length (al_reusableFilters a1) \<le> length (al_reusableFilters a)"
proof -
  have "length (snd (load_reusable load is)) \<le> length is" for "is"
    by (induction load "is" rule: load_reusable.induct) (auto split: option.split intro: le_SucI)
  from this [of "rev (al_reusableFilters a)"] show ?thesis
    using assms(2) by (auto simp: al_allocate_def saveOverLoadedCuckooFilter_def Let_def rbind_eq_Inr split: option.splits if_splits prod.splits)
qed

lemma reusable_rounds:
  assumes "loads_ok load"
  shows "insert_rounds n random opt load keys a = Inr (rest, a', outs) \<Longrightarrow> length (al_reusableFilters a') \<le> length (al_reusableFilters a)"
proof (induction n arbitrary: keys a outs)
  case (Suc n)
  from Suc.prems obtain f a1 outs1 where al: "al_allocate opt load a = Inr (f, a1, outs1)"
    and rec: "(let (ok, rest1, g) = batchInsert random keys f; a2 = set_current g a1
       in if ok then Inr (rest1, a2, outs1)
          else rbind (insert_rounds n random opt load rest1 a2) (\<lambda>(rest', a3, outs2). Inr (rest', a3, outs1 @ outs2))) = Inr (rest, a', outs)"
    by (auto simp: rbind_eq_Inr)
  have "length (al_reusableFilters a1) \<le> length (al_reusableFilters a)"
    by (rule allocate_reusable [OF assms al])
  then show ?case
    using rec Suc.IH by (force simp: Let_def set_current_def rbind_eq_Inr split: prod.splits if_splits)
qed simp


lemma batches_place:
  assumes u: "usable opt" and l: "loads_ok load" and "al_ok a"
    and "\<And>d. d \<in> set batches \<Longrightarrow> length d + length (al_reusableFilters a) + 2 \<le> n"
  shows "\<exists>a' outs. insert_batches n random opt load b key False batches a = Inr (a', outs) \<and> al_ok a'
    \<and> (\<forall>k. (\<exists>d \<in> set batches. k \<in> set (oprf_fullEvaluate b key d)) \<or> in_current k a \<longrightarrow> placed k a' outs)"
  using assms(3,4)
proof (induction batches arbitrary: a)
  case (Cons d ds)
  let ?keys = "set_of_items (oprf_fullEvaluate b key d)"
  have "length ?keys \<le> length d" by (simp add: set_of_items_def oprf_fullEvaluate_def length_remdups_leq [THEN order_trans])
  then have "enough_rounds n ?keys a" using Cons.prems(2) [of d] by (auto simp: enough_rounds_def)
  from rounds_place [OF u l Cons.prems(1) this, of random] obtain a1 outs1 where
    one: "insert_rounds n random opt load ?keys a = Inr ([], a1, outs1)" "al_ok a1"
      "\<And>k. k \<in> set ?keys \<or> in_current k a \<Longrightarrow> placed k a1 outs1" by blast
  have "length (al_reusableFilters a1) \<le> length (al_reusableFilters a)" by (rule reusable_rounds [OF l one(1)])
  then have "\<And>d. d \<in> set ds \<Longrightarrow> length d + length (al_reusableFilters a1) + 2 \<le> n" using Cons.prems(2) by fastforce
  from Cons.IH [OF one(2) this] obtain a2 outs2 where
    two: "insert_batches n random opt load b key False ds a1 = Inr (a2, outs2)" "al_ok a2"
      "\<And>k. (\<exists>d \<in> set ds. k \<in> set (oprf_fullEvaluate b key d)) \<or> in_current k a1 \<Longrightarrow> placed k a2 outs2" by blast
  have "placed k a2 (outs1 @ outs2)" if "(\<exists>d' \<in> set (d # ds). k \<in> set (oprf_fullEvaluate b key d')) \<or> in_current k a" for k
  proof -
    have "(k \<in> set ?keys \<or> in_current k a) \<or> (\<exists>d \<in> set ds. k \<in> set (oprf_fullEvaluate b key d))"
      using that by (auto simp: set_of_items_def)
    then show ?thesis using one(3) [of k] two(3) [of k] by (auto simp: placed_def)
  qed
  then show ?case using one(1) two(1,2) by simp
qed (simp add: placed_def)

lemma preprocess_stores:
  assumes "usable opt" and "loads_ok load" and "\<And>d. d \<in> set batches \<Longrightarrow> length d + length reusable + 2 \<le> n"
  shows "\<exists>a outs. evaluateAndInsert n random opt load b key False batches r reusable = Inr (a, outs)
    \<and> (\<forall>d \<in> set batches. \<forall>k \<in> set (oprf_fullEvaluate b key d). in_store k outs)"
proof -
  let ?a = "new_CuckoofilterAllocator r reusable"
  have "al_ok ?a" by (simp add: al_ok_def new_CuckoofilterAllocator_def)
  moreover have "\<And>d. d \<in> set batches \<Longrightarrow> length d + length (al_reusableFilters ?a) + 2 \<le> n"
    using assms(3) by (simp add: new_CuckoofilterAllocator_def)
  ultimately obtain a outs where a: "insert_batches n random opt load b key False batches ?a = Inr (a, outs)"
    "\<And>k. \<exists>d \<in> set batches. k \<in> set (oprf_fullEvaluate b key d) \<Longrightarrow> placed k a outs"
    using batches_place [OF assms(1,2), of ?a batches n random b key] by blast
  obtain a' outs' where f: "al_flush_all a = (a', outs')" by fastforce
  then have "evaluateAndInsert n random opt load b key False batches r reusable = Inr (a', outs @ outs')"
    using a(1) by (simp add: evaluateAndInsert_def)
  moreover have "in_store k (outs @ outs')" if "d \<in> set batches" "k \<in> set (oprf_fullEvaluate b key d)" for d k
    using a(2) [of k] that save_places [of True a a' outs' k] f by (auto simp: placed_def al_flush_all_def)
  ultimately show ?thesis by blast
qed

text \<open>
  (C23) Preprocessing puts every evaluated item of every batch into a filter that is stored, when the loop gets as many
  rounds for a batch as it has items and there are reusable filters, and two more.
\<close>

theorem preprocessing_complete:
  assumes "usable opt" and "loads_ok load" and "\<And>d. d \<in> set batches \<Longrightarrow> length d + length reusable + 2 \<le> n"
  shows "\<exists>a outs. evaluateAndInsert n random opt load b key False batches r reusable = Inr (a, outs)
    \<and> (\<forall>d \<in> set batches. \<forall>k \<in> set (oprf_fullEvaluate b key d). in_store k outs)"
  by (rule preprocess_stores [OF assms])

text \<open>A sample: reversing is the action of one key, the other keys do nothing.\<close>

definition sample_box :: CryptoBoxOprf where
  "sample_box = \<lparr>op_hash = (\<lambda>x. x), op_hashToCurve = (\<lambda>x. x), op_ecMultiply = (\<lambda>p k. if k = ''-'' then rev p else p), op_scalarInvert = (\<lambda>k. k)\<rparr>"

lemma sample_usable: "usable sample_option"
  by (simp add: usable_def sample_option_def new_CuckoofilterOption_def checkOption_def)

lemma sample_preprocessing:
  "\<exists>a. evaluateAndInsert 3 (\<lambda>_ _. 0) sample_option (\<lambda>_. None) sample_box ''-'' False [[''ecila'']] ''r'' [] =
     Inr (a, [StoreInsert ''r'' sample_stored])"
proof -
  have "set_of_items (oprf_fullEvaluate sample_box ''-'' [''ecila'']) = [''alice'']"
    by (simp add: set_of_items_def oprf_fullEvaluate_def sample_box_def)
  then show ?thesis
    by (simp add: evaluateAndInsert_def new_CuckoofilterAllocator_def al_allocate_def sample_filter_new sample_batch set_current_def
        al_flush_all_def saveOverLoadedCuckooFilter_def new_CuckooFilterInfo_def numeral_3_eq_3)
qed

theorem preprocessing_complete_witness:
  "\<exists>a outs. evaluateAndInsert 3 (\<lambda>_ _. 0) sample_option (\<lambda>_. None) sample_box ''-'' False [[''ecila'']] ''r'' [] = Inr (a, outs)
    \<and> in_store ''alice'' outs"
proof -
  obtain a outs where "evaluateAndInsert 3 (\<lambda>_ _. 0) sample_option (\<lambda>_. None) sample_box ''-'' False [[''ecila'']] ''r'' [] = Inr (a, outs)"
    "\<forall>d \<in> set [[''ecila'']]. \<forall>k \<in> set (oprf_fullEvaluate sample_box ''-'' d). in_store k outs"
    using preprocessing_complete [OF sample_usable, of "\<lambda>_. None" "[[''ecila'']]" "[]" 3 "\<lambda>_ _. 0" sample_box "''-''" "''r''"]
    by (auto simp: loads_ok_def)
  then show ?thesis by (simp add: oprf_fullEvaluate_def sample_box_def)
qed

text \<open>Without data no filter is taken, and flushing does nothing: no store is started, and there is no answer.\<close>

lemma insert_no_data:
  "evaluateAndInsert n random opt load b key sql [] r reusable = Inr (new_CuckoofilterAllocator r reusable, [])"
  by (simp add: evaluateAndInsert_def al_flush_all_def saveOverLoadedCuckooFilter_def new_CuckoofilterAllocator_def)

section \<open>Deleting\<close>

lemma delete_missing_key:
  assumes "cf_ok f" and "\<not> containsWithoutLock k f"
  shows "deleteKeyWithoutLock k f = (False, f)"
proof -
  obtain b g where d: "deleteKeyWithoutLock k f = (b, g)" by fastforce
  then have "\<not> b" using delete_found [OF assms(1) d] assms(2) by simp
  moreover have "set_table (cf_hashTable f) f = f" by (simp add: set_table_def)
  ultimately show ?thesis
    using d by (auto simp: deleteKeyWithoutLock_def Let_def deleteFromTrashBucket_def deleteFingerPrint_def split: prod.splits if_splits option.splits)
qed

lemma delete_missing_keys:
  "cf_ok f \<Longrightarrow> \<forall>k \<in> set keys. \<not> containsWithoutLock k f \<Longrightarrow> batchDeleteAndGetRemainKeys keys f = (keys, f)"
  by (induction keys) (simp_all add: delete_missing_key)

text \<open>Items that no filter has: no filter is updated, so no callback comes, and the count of stores waits for all of them.\<close>

lemma delete_no_store:
  assumes "\<And>i f. i \<in> set infos \<Longrightarrow> load (fi_filterID i) = Some f \<Longrightarrow> cf_ok f \<and> (\<forall>k \<in> set items. \<not> containsWithoutLock k f)"
  shows "delete_loop load r n j infos c items s = (items, s, [])"
  using assms
proof (induction infos arbitrary: j)
  case (Cons i infos)
  have ih: "delete_loop load r n j infos c items s = (items, s, [])" for j
    by (rule Cons.IH) (use Cons.prems in auto)
  show ?case
  proof (cases "load (fi_filterID i)")
    case (Some f)
    then have "batchDeleteAndGetRemainKeys items f = (items, f)" using Cons.prems [of i f] by (intro delete_missing_keys) simp_all
    then show ?thesis using Some ih by simp
  qed (simp add: ih)
qed simp

section \<open>The cache of filters\<close>

lemma filters_of_put: "filters_of q (c\<lparr>fc_filters := smap_put r m (fc_filters c)\<rparr>) = (if q = r then m else filters_of q c)"
  by (simp add: filters_of_def map_of_smap_put)

lemma evict_stops: "fc_capacity c \<le> fc_maxCapacity c \<Longrightarrow> evict_loop q c = Inr (c\<lparr>fc_resourceQueue := q\<rparr>, [])"
  by (cases q) (simp_all add: leD)

lemma insert_new_filter:
  assumes "fc_capacity c \<le> fc_maxCapacity c" and "map_of (filters_of r c) (fi_filterID i) = None"
  shows "\<exists>full c' outs. fc_insert r i c = Inr (full, c', outs) \<and> fc_capacity c' \<le> fc_maxCapacity c'
    \<and> (full = (fc_capacity c + filter_bytes i > fc_maxCapacity c))
    \<and> map_of (filters_of r c') (fi_filterID i) = (if full then None else Some (i\<lparr>fi_dirty := True\<rparr>))
    \<and> fc_resourceQueue c' = (if full then tl (fc_resourceQueue c @ [(r, fi_filterID i)]) else fc_resourceQueue c @ [(r, fi_filterID i)])
    \<and> set (filters_of r c') \<subseteq> insert (fi_filterID i, i\<lparr>fi_dirty := True\<rparr>) (set (filters_of r c))"
proof -
  let ?k = "fi_filterID i" and ?i = "i\<lparr>fi_dirty := True\<rparr>"
  let ?q = "fc_resourceQueue c @ [(r, ?k)]"
  define c1 where "c1 = (fc_put r ?k ?i c)\<lparr>fc_resourceQueue := ?q, fc_capacity := fc_capacity c + filter_bytes i\<rparr>"
  have ins: "insertWithoutEvict r i c = (c1, fc_flush r ?k ?i)"
    using assms(2) by (simp add: insertWithoutEvict_def c1_def Let_def)
  have f1: "filters_of r c1 = smap_put ?k ?i (filters_of r c)" by (simp add: c1_def fc_put_def filters_of_def map_of_smap_put)
  show ?thesis
  proof (cases "fc_capacity c + filter_bytes i > fc_maxCapacity c")
    case False
    then have "fc_insert r i c = Inr (False, c1, fc_flush r ?k ?i)" by (simp add: fc_insert_def ins fc_evict_def c1_def fc_put_def not_less)
    then show ?thesis using False f1 smap_put_subset [of ?k ?i "filters_of r c"]
      by (intro exI [of _ False]) (simp add: c1_def fc_put_def map_of_smap_put not_less)
  next
    case True
    let ?c2 = "c1\<lparr>fc_filters := smap_put r (smap_erase ?k (filters_of r c1)) (fc_filters c1), fc_capacity := fc_capacity c1 - filter_bytes ?i\<rparr>"
    obtain x q where q: "?q = x # q" by (cases ?q) auto
    have cap: "fc_capacity c1 > fc_maxCapacity c1" "fc_capacity ?c2 = fc_capacity c" "fc_maxCapacity ?c2 = fc_maxCapacity c"
      using True by (simp_all add: c1_def fc_put_def filter_bytes_def)
    have hit: "map_of (filters_of r c1) ?k = Some ?i" using f1 by (simp add: map_of_smap_put)
    have stop: "evict_loop q ?c2 = Inr (?c2\<lparr>fc_resourceQueue := q\<rparr>, [])"
      using cap(2,3) assms(1) by (intro evict_stops) simp
    have lst: "last (x # q) = (r, ?k)" using q by (metis last_snoc)
    have qc: "fc_resourceQueue c1 = x # q" using q by (simp add: c1_def)
    have "evict_loop (x # q) c1 = Inr (?c2\<lparr>fc_resourceQueue := q\<rparr>, fc_flush r ?k ?i)"
      using cap(1) lst hit stop by simp
    then have "fc_insert r i c = Inr (True, ?c2\<lparr>fc_resourceQueue := q\<rparr>, fc_flush r ?k ?i @ fc_flush r ?k ?i)"
      using cap(1) by (simp add: fc_insert_def ins fc_evict_def qc not_le [symmetric] del: evict_loop.simps)
    moreover have "map_of (filters_of r (?c2\<lparr>fc_resourceQueue := q\<rparr>)) ?k = None"
      by (simp add: filters_of_def map_of_smap_put map_of_smap_erase)
    moreover have "set (filters_of r (?c2\<lparr>fc_resourceQueue := q\<rparr>)) \<subseteq> insert (?k, ?i) (set (filters_of r c))"
      using smap_put_subset [of ?k ?i "filters_of r c"] f1 by (auto simp: filters_of_def map_of_smap_put smap_erase_def)
    moreover have "tl ?q = q" using q by simp
    ultimately show ?thesis using True cap(2,3) assms(1) by (intro exI [of _ True]) simp
  qed
qed

text \<open>
  (C35) Eviction takes the newest filter: when a new filter does not fit beside the others, it is the new one that leaves
  the cache, and it is the oldest that loses its place in the queue. The cache is back at its limit after that.
\<close>

theorem evict_takes_newest:
  assumes "fc_capacity c \<le> fc_maxCapacity c" and "map_of (filters_of r c) (fi_filterID i) = None"
  shows "\<exists>full c' outs. fc_insert r i c = Inr (full, c', outs) \<and> fc_capacity c' \<le> fc_maxCapacity c'
    \<and> (full = (fc_capacity c + filter_bytes i > fc_maxCapacity c))
    \<and> map_of (filters_of r c') (fi_filterID i) = (if full then None else Some (i\<lparr>fi_dirty := True\<rparr>))
    \<and> fc_resourceQueue c' = (if full then tl (fc_resourceQueue c @ [(r, fi_filterID i)]) else fc_resourceQueue c @ [(r, fi_filterID i)])"
  using insert_new_filter [OF assms] by blast

theorem evict_takes_newest_witness:
  "\<exists>full c' outs. fc_insert ''r'' (new_CuckooFilterInfo 7 ''h'' (Some sample_stored)) (new_CuckooFiltersCache 100) = Inr (full, c', outs)
    \<and> fc_capacity c' \<le> fc_maxCapacity c'"
  using evict_takes_newest [of "new_CuckooFiltersCache 100" "''r''" "new_CuckooFilterInfo 7 ''h'' (Some sample_stored)"]
  by (auto simp: new_CuckooFiltersCache_def filters_of_def)

text \<open>When no entry of the queue is in the cache any more, eviction reads the back of the empty queue.\<close>

lemma evict_off_queue:
  "\<forall>(r, k) \<in> set q. map_of (filters_of r c) k = None \<Longrightarrow> fc_capacity c > fc_maxCapacity c \<Longrightarrow> evict_loop q c = Inl OutOfBoundsRead"
proof (induction q arbitrary: c)
  case (Cons x q)
  obtain r k where l: "last (x # q) = (r, k)" by fastforce
  then have "map_of (filters_of r c) k = None" using Cons.prems(1) last_in_set [of "x # q"] by force
  then show ?case using Cons l by simp
qed simp

end
