(* ===== verification/RaRun.thy ===== *)
theory RaRun
  imports RaPSI RaOffline EcdhResult
begin

text \<open>
  A run of the RA2018-PSI client against an honest server. The client's worker asks for blinding, the server's filters and
  the answers to the client's requests arrive in any order and any number of times, and the pool runs the waiting jobs in
  any order. The run starts after the job that asks for the filters: before it the client has no object for them.

  Shown: the invariant of such a run and that every event keeps it.
\<close>

section \<open>The setting\<close>

record ra_run =
  rr_task :: bytes
  rr_addr :: taddr
  rr_resource :: bytes
  rr_data :: "bytes list list"
  rr_filters :: "CuckooFilterInfo list"
  rr_box :: CryptoBoxOprf
  rr_key :: bytes
  rr_draw :: "u32 \<Rightarrow> bytes"

text \<open>
  A message with a filter holds the filter as the client decodes it. Storage and wire reset the count of occupied
  places and the trash limit of the server's filter and keep every lookup, and the client only looks keys up.
\<close>

definition filter_msg :: "ra_run \<Rightarrow> nat \<Rightarrow> ra_msg" where
  "filter_msg R k =
     \<lparr>rm_psi = (createPSIMessage RA_CuckooFilterResponse)
        \<lparr>pm_resourceID := rr_resource R, pm_taskID := rr_task R, pm_seq := wire_seq (seqof k)\<rparr>,
      rm_filterInfo = [rr_filters R ! k], rm_cuckooFilterSize = int (length (rr_filters R))\<rparr>"

definition evaluated_msg :: "ra_run \<Rightarrow> nat \<Rightarrow> ra_msg" where
  "evaluated_msg R d =
     (createRA2018FilterMessage RA_EvaluateResponse)
       \<lparr>rm_psi := (createPSIMessage RA_EvaluateResponse)
          \<lparr>pm_data := oprf_evaluate (rr_box R) (rr_key R) (oprf_blind (rr_box R) (rr_data R ! d) (rr_draw R (seqof d))),
           pm_taskID := rr_task R, pm_seq := wire_seq (seqof d)\<rparr>\<rparr>"

datatype ra_event = FilterArrives nat | EvaluatedArrives nat | Worker | Pool nat

fun ra_step :: "ra_run \<Rightarrow> ra_storage \<Rightarrow> ra_event \<Rightarrow> ra \<Rightarrow> ra \<times> ra_out list" where
  "ra_step R st (FilterArrives k) w =
     (if k < length (rr_filters R) then ra_handlePSIMsg (\<lambda>_. False) (\<lambda>_. 0) (filter_msg R k) w else (w, []))"
| "ra_step R st (EvaluatedArrives d) w =
     (if d < length (rr_data R) then ra_handlePSIMsg (\<lambda>_. False) (\<lambda>_. 0) (evaluated_msg R d) w else (w, []))"
| "ra_step R st Worker w = (ra_worker (rr_addr R) w, [])"
| "ra_step R st (Pool i) w = ra_pool (\<lambda>_. False) st (rr_draw R) i w"

text \<open>The evaluation of an item by the server alone, and the items that a filter of the server has.\<close>

definition ra_value :: "ra_run \<Rightarrow> bytes \<Rightarrow> bytes" where
  "ra_value R x = op_ecMultiply (rr_box R) (op_hashToCurve (rr_box R) (op_hash (rr_box R) x)) (rr_key R)"

definition ra_hit :: "ra_run \<Rightarrow> bytes \<Rightarrow> bool" where
  "ra_hit R x \<longleftrightarrow> (\<exists>i \<in> set (rr_filters R). \<exists>f. fi_cuckooFilter i = Some f \<and> containsWithoutLock (ra_value R x) f)"

definition ra_batch :: "ra_run \<Rightarrow> nat \<Rightarrow> bytes list" where
  "ra_batch R d = filter (ra_hit R) (rr_data R ! d)"

definition data_bytes :: "ra_run \<Rightarrow> nat \<Rightarrow> nat" where
  "data_bytes R k = (\<Sum>d < k. sum_list (map length (rr_data R ! d)))"

text \<open>
  What is relied on of the curve: multiplying by a key's inverse undoes multiplying by the key, also around the server's.
  The filters have different numbers and have arrived with their contents.
\<close>

definition unblinds :: "ra_run \<Rightarrow> bool" where
  "unblinds R \<longleftrightarrow>
     (let mul = op_ecMultiply (rr_box R) in
      \<forall>d < length (rr_data R). \<forall>x \<in> set (rr_data R ! d).
        let p = op_hashToCurve (rr_box R) (op_hash (rr_box R) x); k = rr_draw R (seqof d)
        in mul (mul (mul p k) (rr_key R)) (op_scalarInvert (rr_box R) k) = mul p (rr_key R))"

definition ra_setting :: "ra_run \<Rightarrow> bool" where
  "ra_setting R \<longleftrightarrow> unblinds R \<and> length (rr_data R) + 1 < 2 ^ 16 \<and> length (rr_filters R) + 1 < 2 ^ 16 \<and>
     distinct (map fi_filterID (rr_filters R)) \<and> (\<forall>i \<in> set (rr_filters R). fi_cuckooFilter i \<noteq> None)"

section \<open>The invariant\<close>

definition peer_ok :: "ra_run \<Rightarrow> Task \<Rightarrow> bool" where
  "peer_ok R t \<longleftrightarrow> (\<exists>g p. tk_peerParties t = [(g, p)] \<and> ra_peer_resource p = rr_resource R)"

definition ra_task_inv :: "ra_run \<Rightarrow> nat \<Rightarrow> (caddr \<Rightarrow> RA2018PSIClientCache) \<Rightarrow> TaskState \<Rightarrow> bool" where
  "ra_task_inv R k h s \<longleftrightarrow>
     tk_id (ts_task s) = rr_task R \<and> \<not> tk_syncResultToPeer (ts_task s) \<and> peer_ok R (ts_task s) \<and> ts_onSubTaskFinished s \<and>
     \<not> ts_sqlReader s \<and> ts_currentSeq s = of_nat k \<and>
     ts_seqList s = seqof ` {d. d < k \<and> rc_state (h d) \<noteq> Synced} \<and>
     mset (written s) = (\<Sum>d \<in> {d. d < k \<and> rc_state (h d) = Synced}. mset (ra_batch R d)) \<and>
     (ts_finished s \<longrightarrow> k = length (rr_data R))"

definition ra_cache_ok :: "ra_run \<Rightarrow> nat \<Rightarrow> RA2018PSIClientCache \<Rightarrow> bool" where
  "ra_cache_ok R d c \<longleftrightarrow>
     rc_taskState c = rr_addr R \<and> rc_filterState c = Some (rr_resource R) \<and> rc_seq c = seqof d \<and>
     rc_plainData c = rr_data R ! d \<and> rc_privateKey c = rr_draw R (seqof d) \<and>
     (case rc_state c of
        Evaluating \<Rightarrow> rc_intersectionData c = []
      | Finalized \<Rightarrow> rc_finalizedData c = map (ra_value R) (rr_data R ! d) \<and> rc_intersectionData c = []
      | Intersectioned \<Rightarrow> rc_intersectionData c = ra_batch R d
      | Synced \<Rightarrow> True
      | _ \<Rightarrow> False)"

definition ra_table_ok :: "nat \<Rightarrow> (bytes, (u32, caddr) smap) smap \<Rightarrow> bool" where
  "ra_table_ok k ts \<longleftrightarrow> (\<forall>(t, m) \<in> set ts. \<forall>(q, d) \<in> set m. d < k \<and> q = seqof d)"

definition received_ok :: "ra_run \<Rightarrow> CuckooFilterState \<Rightarrow> bool" where
  "received_ok R s \<longleftrightarrow>
     (fs_cuckooFilterSize s = - 1 \<or> fs_cuckooFilterSize s = int (length (rr_filters R))) \<and>
     fs_receivedCuckooFilter s \<subseteq> (\<lambda>k. int (k + 1)) ` {..<length (rr_filters R)} \<and>
     (\<forall>k < length (rr_filters R). int (k + 1) \<in> fs_receivedCuckooFilter s \<longrightarrow>
        (fi_filterID (rr_filters R ! k), rr_filters R ! k) \<in> set (fs_cuckooFilterInfos s)) \<and>
     (\<forall>(q, i) \<in> set (fs_cuckooFilterInfos s). i \<in> set (rr_filters R) \<and> q = fi_filterID i) \<and>
     smap_ok (fs_cuckooFilterInfos s)"

definition filter_cache_ok :: "ra_run \<Rightarrow> CuckooFiltersCache \<Rightarrow> bool" where
  "filter_cache_ok R c \<longleftrightarrow>
     fc_capacity c \<le> fc_maxCapacity c \<and>
     (\<forall>(q, i) \<in> set (filters_of (rr_resource R) c). \<exists>j \<in> set (rr_filters R). q = fi_filterID j \<and> fi_hash i = fi_hash j)"

fun ra_job_ok :: "ra_run \<Rightarrow> nat \<Rightarrow> ra_job \<Rightarrow> bool" where
  "ra_job_ok R k (SyncFilterJob p t r) = False"
| "ra_job_ok R k (BlindJob r a) = (r = rr_resource R \<and> a = rr_addr R)"
| "ra_job_ok R k (ComputeJob d) = (d < k)"
| "ra_job_ok R k (CommitJob d) = (d < k)"
| "ra_job_ok R k (MessageJob m) =
     ((\<exists>j < length (rr_filters R). m = filter_msg R j) \<or> (\<exists>d < length (rr_data R). m = evaluated_msg R d))"

definition ra_inv :: "ra_run \<Rightarrow> ra \<Rightarrow> bool" where
  "ra_inv R w \<longleftrightarrow>
     (let k = ra_nextCache w in
      k \<le> length (rr_data R) \<and> ra_task_inv R k (ra_cache w) (psi_heap w (rr_addr R)) \<and>
      (\<forall>d < k. ra_cache_ok R d (ra_cache w d)) \<and> ra_table_ok k (ra_caches w) \<and>
      ra_reader w (rr_addr R) = drop k (rr_data R) \<and> ra_oprf w = rr_box R \<and>
      unat (ra_capacity w) \<le> data_bytes R k \<and> data_bytes R (length (rr_data R)) < unat (ra_maxCacheSize w) \<and>
      (\<exists>s. map_of (ra_states w) (rr_resource R) = Some s \<and> received_ok R s) \<and>
      filter_cache_ok R (ra_filters w) \<and> (\<forall>j \<in> set (ra_jobs w). ra_job_ok R k j))"

text \<open>The client just after it asked for the filters.\<close>

definition ra_ready :: "ra_run \<Rightarrow> ra \<Rightarrow> bool" where
  "ra_ready R w \<longleftrightarrow>
     (let s = psi_heap w (rr_addr R) in
      tk_id (ts_task s) = rr_task R \<and> \<not> tk_syncResultToPeer (ts_task s) \<and> peer_ok R (ts_task s) \<and> ts_onSubTaskFinished s \<and>
      \<not> ts_sqlReader s \<and> ts_currentSeq s = 0 \<and> ts_seqList s = {} \<and> ts_writer s = None \<and> \<not> ts_finished s \<and>
      ra_nextCache w = 0 \<and> ra_caches w = [] \<and> ra_capacity w = 0 \<and> data_bytes R (length (rr_data R)) < unat (ra_maxCacheSize w) \<and>
      ra_reader w (rr_addr R) = rr_data R \<and> ra_oprf w = rr_box R \<and>
      map_of (ra_states w) (rr_resource R) = Some (init_filter_state new_CuckooFilterState) \<and>
      fc_capacity (ra_filters w) \<le> fc_maxCapacity (ra_filters w) \<and> filters_of (rr_resource R) (ra_filters w) = [] \<and>
      set (ra_jobs w) \<subseteq> {BlindJob (rr_resource R) (rr_addr R)})"

lemma ra_ready_inv: "ra_ready R w \<Longrightarrow> ra_inv R w"
  by (auto simp: ra_ready_def ra_inv_def Let_def ra_task_inv_def written_def ra_table_ok_def data_bytes_def received_ok_def
      init_filter_state_def new_CuckooFilterState_def filter_cache_ok_def)

section \<open>Storing finished batches\<close>

lemma release_less: "unat (release_bytes_of plain cap) \<le> unat cap"
  by (auto simp: release_bytes_of_def not_less unat_sub)

lemma store_task_result:
  "store_task h m cap = (m', cap', jobs) \<Longrightarrow>
   set m' \<subseteq> set m \<and> unat cap' \<le> unat cap \<and> (\<forall>j \<in> set jobs. \<exists>(q, d) \<in> set m. j = CommitJob d)"
proof (induction h m cap arbitrary: m' cap' jobs rule: store_task.induct)
  case (2 h seq d m cap)
  let ?cap = "if rc_state (h d) = Intersectioned then release_bytes_of (rc_plainData (h d)) cap else cap"
  obtain m1 cap1 jobs1 where r: "store_task h m ?cap = (m1, cap1, jobs1)" by (metis prod_cases3)
  have "unat ?cap \<le> unat cap" by (simp add: release_less)
  then show ?case using 2(1) [OF refl refl r] 2(2) r by (fastforce simp: Let_def split: if_splits)
qed simp

lemma store_tasks_result:
  "store_tasks h ts cap = (ts', cap', jobs) \<Longrightarrow> ra_table_ok k ts \<Longrightarrow>
   ra_table_ok k ts' \<and> unat cap' \<le> unat cap \<and> (\<forall>j \<in> set jobs. \<exists>d < k. j = CommitJob d)"
proof (induction h ts cap arbitrary: ts' cap' jobs rule: store_tasks.induct)
  case (2 h t m ts cap)
  obtain m1 cap1 jobs1 where a: "store_task h m cap = (m1, cap1, jobs1)" by (metis prod_cases3)
  obtain ts1 cap2 jobs2 where b: "store_tasks h ts cap1 = (ts1, cap2, jobs2)" by (metis prod_cases3)
  have res: "ts' = (if m1 = [] then ts1 else (t, m1) # ts1)" "cap' = cap2" "jobs = jobs1 @ jobs2"
    using 2(2) a b by simp_all
  have t: "\<forall>(q, d) \<in> set m. d < k \<and> q = seqof d" "ra_table_ok k ts" using 2(3) by (simp_all add: ra_table_ok_def)
  note s = store_task_result [OF a] and ih = 2(1) [OF a [symmetric] refl refl b t(2)]
  have "\<forall>(q, d) \<in> set m1. d < k \<and> q = seqof d" using s t(1) by blast
  then have "ra_table_ok k ts'" using ih res(1) by (auto simp: ra_table_ok_def)
  moreover have "\<forall>j \<in> set jobs1. \<exists>d < k. j = CommitJob d" using s t(1) by fastforce
  ultimately show ?case using s ih res(2,3) by auto
qed simp

lemma ra_frame [simp]:
  "psi_heap (add_jobs js w) = psi_heap w" "ra_cache (add_jobs js w) = ra_cache w" "ra_nextCache (add_jobs js w) = ra_nextCache w"
  "ra_caches (add_jobs js w) = ra_caches w" "ra_capacity (add_jobs js w) = ra_capacity w"
  "ra_maxCacheSize (add_jobs js w) = ra_maxCacheSize w" "ra_states (add_jobs js w) = ra_states w"
  "ra_filters (add_jobs js w) = ra_filters w" "ra_jobs (add_jobs js w) = ra_jobs w @ js" "ra_reader (add_jobs js w) = ra_reader w"
  "ra_oprf (add_jobs js w) = ra_oprf w"
  "psi_heap (set_cache d c w) = psi_heap w" "ra_cache (set_cache d c w) = (ra_cache w)(d := c)"
  "ra_nextCache (set_cache d c w) = ra_nextCache w" "ra_caches (set_cache d c w) = ra_caches w"
  "ra_capacity (set_cache d c w) = ra_capacity w" "ra_maxCacheSize (set_cache d c w) = ra_maxCacheSize w"
  "ra_states (set_cache d c w) = ra_states w" "ra_filters (set_cache d c w) = ra_filters w" "ra_jobs (set_cache d c w) = ra_jobs w"
  "ra_reader (set_cache d c w) = ra_reader w" "ra_oprf (set_cache d c w) = ra_oprf w"
  by (simp_all add: add_jobs_def set_cache_def)

lemma ra_set_task [simp]:
  "ra_cache (set_task a s w) = ra_cache w" "ra_nextCache (set_task a s w) = ra_nextCache w" "ra_caches (set_task a s w) = ra_caches w"
  "ra_capacity (set_task a s w) = ra_capacity w" "ra_maxCacheSize (set_task a s w) = ra_maxCacheSize w"
  "ra_states (set_task a s w) = ra_states w" "ra_filters (set_task a s w) = ra_filters w" "ra_jobs (set_task a s w) = ra_jobs w"
  "ra_reader (set_task a s w) = ra_reader w" "ra_oprf (set_task a s w) = ra_oprf w"
  by (simp_all add: set_task_def)

lemma inv_store:
  assumes "ra_inv R w"
  shows "ra_inv R (checkAndStoreInterSectionResult w)"
proof -
  obtain ts cap jobs where r: "store_tasks (ra_cache w) (ra_caches w) (ra_capacity w) = (ts, cap, jobs)" by (metis prod_cases3)
  have "ra_table_ok (ra_nextCache w) (ra_caches w)" using assms by (simp add: ra_inv_def Let_def)
  note s = store_tasks_result [OF r this]
  then have "\<forall>j \<in> set jobs. ra_job_ok R (ra_nextCache w) j" by auto
  then show ?thesis
    using assms s r by (auto simp: ra_inv_def Let_def checkAndStoreInterSectionResult_def)
qed

text \<open>What the batches' table and the task need of the batches: which of them are synced.\<close>

lemma ra_task_inv_data:
  assumes "ra_task_inv R k h s" and "\<And>d. d < k \<Longrightarrow> rc_state (h' d) = Synced \<longleftrightarrow> rc_state (h d) = Synced"
  shows "ra_task_inv R k h' s"
proof -
  have "{d. d < k \<and> rc_state (h' d) = Synced} = {d. d < k \<and> rc_state (h d) = Synced}"
    "{d. d < k \<and> rc_state (h' d) \<noteq> Synced} = {d. d < k \<and> rc_state (h d) \<noteq> Synced}"
    using assms(2) by blast+
  then show ?thesis using assms(1) by (simp add: ra_task_inv_def)
qed

lemma inv_set_cache:
  assumes "ra_inv R w" and "d < ra_nextCache w" and "ra_cache_ok R d c" and "rc_state c = Synced \<longleftrightarrow> rc_state (ra_cache w d) = Synced"
  shows "ra_inv R (set_cache d c w)"
proof -
  have "ra_task_inv R (ra_nextCache w) ((ra_cache w)(d := c)) (psi_heap w (rr_addr R))"
    by (rule ra_task_inv_data [of R _ "ra_cache w"]) (use assms in \<open>auto simp: ra_inv_def Let_def\<close>)
  then show ?thesis using assms by (simp add: ra_inv_def Let_def)
qed

section \<open>Intersecting\<close>

lemma card_all: "J \<subseteq> (\<lambda>k. int (k + 1)) ` {..<n} \<Longrightarrow> int (card J) = int n \<Longrightarrow> J = (\<lambda>k. int (k + 1)) ` {..<n}"
proof -
  assume a: "J \<subseteq> (\<lambda>k. int (k + 1)) ` {..<n}" "int (card J) = int n"
  have "card ((\<lambda>k. int (k + 1)) ` {..<n}) = n" by (subst card_image) (auto intro: inj_onI)
  with a show ?thesis by (intro card_subset_eq) auto
qed

text \<open>When the filters count as fetched, they are all there, and searching them is searching the server's.\<close>

lemma fetched_filters:
  assumes "received_ok R s" and "fetchFinish s"
  shows "in_filters s (ra_value R x) \<longleftrightarrow> ra_hit R x"
proof -
  have "fs_receivedCuckooFilter s = (\<lambda>k. int (k + 1)) ` {..<length (rr_filters R)}"
    using assms by (intro card_all) (auto simp: received_ok_def fetchFinish_def)
  then have "\<forall>k < length (rr_filters R). (fi_filterID (rr_filters R ! k), rr_filters R ! k) \<in> set (fs_cuckooFilterInfos s)"
    using assms(1) by (simp add: received_ok_def)
  then have all: "\<forall>i \<in> set (rr_filters R). (fi_filterID i, i) \<in> set (fs_cuckooFilterInfos s)" by (metis in_set_conv_nth)
  have found: "(case i of Some f \<Rightarrow> containsWithoutLock (ra_value R x) f | None \<Rightarrow> False) \<longleftrightarrow>
      (\<exists>f. i = Some f \<and> containsWithoutLock (ra_value R x) f)" for i
    by (cases i) auto
  have "in_filters s (ra_value R x) \<longleftrightarrow>
      (\<exists>(q, i) \<in> set (fs_cuckooFilterInfos s). \<exists>f. fi_cuckooFilter i = Some f \<and> containsWithoutLock (ra_value R x) f)"
    by (simp add: in_filters_def list_ex_iff case_prod_beta found)
  also have "\<dots> \<longleftrightarrow> ra_hit R x"
    using all assms(1) by (fastforce simp: ra_hit_def received_ok_def)
  finally show ?thesis .
qed

lemma intersect_fetched:
  assumes "received_ok R s" and "fetchFinish s"
  shows "intersect_items s (map (ra_value R) xs) xs = filter (ra_hit R) xs"
  using fetched_filters [OF assms] by (induction xs) (simp_all add: intersect_items_def)

lemma inv_compute:
  assumes "ra_inv R w" and "d < ra_nextCache w"
  shows "ra_inv R (fst (rc_computeIntersection d w))" and "snd (rc_computeIntersection d w) = []"
proof -
  let ?c = "ra_cache w d"
  have c: "ra_cache_ok R d ?c" using assms by (simp add: ra_inv_def Let_def)
  obtain s where s: "map_of (ra_states w) (rr_resource R) = Some s" "received_ok R s"
    using assms(1) by (auto simp: ra_inv_def Let_def)
  have f: "rc_filterState ?c = Some (rr_resource R)" using c by (simp add: ra_cache_ok_def)
  show "snd (rc_computeIntersection d w) = []" using s f by (simp add: rc_computeIntersection_def Let_def)
  show "ra_inv R (fst (rc_computeIntersection d w))"
  proof (cases "rc_state ?c = Finalized \<and> fetchFinish s")
    case True
    then have "rc_intersectionData ?c @ intersect_items s (rc_finalizedData ?c) (rc_plainData ?c) = ra_batch R d"
      using c intersect_fetched [OF s(2)] by (simp add: ra_cache_ok_def ra_batch_def)
    then have "fst (rc_computeIntersection d w) = set_cache d (?c\<lparr>rc_intersectionData := ra_batch R d, rc_state := Intersectioned\<rparr>) w"
      using True s f by (simp add: rc_computeIntersection_def Let_def)
    moreover have "ra_inv R \<dots>"
      by (rule inv_set_cache [OF assms]) (use c True in \<open>simp_all add: ra_cache_ok_def\<close>)
    ultimately show ?thesis by simp
  next
    case False
    then show ?thesis using assms(1) s f by (auto simp: rc_computeIntersection_def Let_def)
  qed
qed

section \<open>Answers of the server\<close>

lemma finalize_value:
  assumes "unblinds R" and "d < length (rr_data R)"
  shows "oprf_finalize (rr_box R) (oprf_evaluate (rr_box R) (rr_key R) (oprf_blind (rr_box R) (rr_data R ! d) (rr_draw R (seqof d))))
    (op_scalarInvert (rr_box R) (rr_draw R (seqof d))) = map (ra_value R) (rr_data R ! d)"
  using assms by (simp add: oprf_finalize_def oprf_evaluate_def oprf_blind_def ra_value_def unblinds_def Let_def)

lemma finalized_ok:
  assumes "ra_cache_ok R d c" and "unblinds R" and "d < length (rr_data R)"
  defines "c' \<equiv> rc_finalize (rr_box R) (pm_data (rm_psi (evaluated_msg R d))) c"
  shows "ra_cache_ok R d c' \<and> (rc_state c' = Synced \<longleftrightarrow> rc_state c = Synced)"
proof (cases "rc_state c = Evaluating \<and> length (pm_data (rm_psi (evaluated_msg R d))) = length (rc_plainData c)")
  case True
  then show ?thesis using assms(1) finalize_value [OF assms(2,3)] by (simp add: c'_def rc_finalize_def ra_cache_ok_def evaluated_msg_def)
next
  case False
  then have "c' = c" by (auto simp: c'_def rc_finalize_def)
  then show ?thesis using assms(1) by simp
qed

lemma cache_found:
  assumes "ra_table_ok k (ra_caches w)" and "rcl_cache t (seqof d) w = Some d'" and "k < 2 ^ 16" and "d < 2 ^ 16"
  shows "d' = d \<and> d < k"
proof -
  obtain m where "(t, m) \<in> set (ra_caches w)" "(seqof d, d') \<in> set m"
    using assms(2) by (auto simp: rcl_cache_def caches_of_def dest: map_of_SomeD split: option.splits)
  then have "d' < k" "seqof d = seqof d'" using assms(1) by (force simp: ra_table_ok_def)+
  then show ?thesis using seqof_inj [of d d'] assms(3,4) by simp
qed

lemma inv_evaluated:
  assumes "ra_inv R w" and "ra_setting R" and "d < length (rr_data R)"
  shows "ra_inv R (fst (ra_handleEvaluateResponse (rm_psi (evaluated_msg R d)) w))"
proof -
  let ?m = "rm_psi (evaluated_msg R d)"
  have m: "pm_taskID ?m = rr_task R" "pm_seq ?m = seqof d"
    using assms(2,3) wire_seqof [of d] by (simp_all add: evaluated_msg_def ra_setting_def)
  have k: "ra_nextCache w \<le> length (rr_data R)" "ra_table_ok (ra_nextCache w) (ra_caches w)" "ra_oprf w = rr_box R"
    using assms(1) by (simp_all add: ra_inv_def Let_def)
  show ?thesis
  proof (cases "rcl_cache (rr_task R) (seqof d) w")
    case None
    then show ?thesis using assms(1) m by (simp add: ra_handleEvaluateResponse_def)
  next
    case (Some d')
    have d: "d' = d" "d < ra_nextCache w"
      using cache_found [OF k(2) Some] assms(2,3) k(1) by (simp_all add: ra_setting_def)
    let ?c = "rc_finalize (ra_oprf w) (pm_data ?m) (ra_cache w d)"
    have c: "ra_cache_ok R d (ra_cache w d)" using assms(1) d(2) by (simp add: ra_inv_def Let_def)
    have "unblinds R" using assms(2) by (simp add: ra_setting_def)
    from finalized_ok [OF c this assms(3)]
    have "ra_cache_ok R d ?c \<and> (rc_state ?c = Synced \<longleftrightarrow> rc_state (ra_cache w d) = Synced)" by (simp add: k(3))
    then have "ra_inv R (set_cache d ?c w)" by (intro inv_set_cache [OF assms(1) d(2)]) simp_all
    from inv_store [OF inv_compute(1) [OF this]] show ?thesis
      using Some m d by (simp add: ra_handleEvaluateResponse_def Let_def split_beta)
  qed
qed

section \<open>Filters of the server\<close>

lemma sint_seqof: "k + 1 < 2 ^ 16 \<Longrightarrow> sint (seqof k) = int (k + 1)"
proof -
  assume "k + 1 < 2 ^ 16"
  then have "unat (seqof k) = k + 1" by (simp_all only: seqof_def unsigned_of_nat) (simp add: take_bit_nat_eq_self)
  then have "uint (seqof k) = int (k + 1)" by (metis uint_nat)
  moreover have "sint (seqof k) = signed_take_bit 31 (uint (seqof k))" by (simp add: sint_uint)
  ultimately show ?thesis using \<open>k + 1 < 2 ^ 16\<close> by (simp add: signed_take_bit_int_eq_self)
qed

lemma same_number:
  assumes "distinct (map fi_filterID (rr_filters R))" and "i \<in> set (rr_filters R)" and "j \<in> set (rr_filters R)" and "fi_filterID i = fi_filterID j"
  shows "i = j"
  using assms by (simp add: distinct_map inj_on_def)

lemma received_size: "received_ok R s \<Longrightarrow> received_ok R (setCuckooFilterSize (int (length (rr_filters R))) s)"
  by (simp add: received_ok_def setCuckooFilterSize_def)

lemma received_append:
  assumes "received_ok R s" and "ra_setting R" and "k < length (rr_filters R)"
  shows "received_ok R (appendCuckooFilterInfo (seqof k) (rr_filters R ! k) s)"
proof -
  let ?i = "rr_filters R ! k" and ?m = "fs_cuckooFilterInfos s"
  have i: "?i \<in> set (rr_filters R)" using assms(3) by simp
  have d: "distinct (map fi_filterID (rr_filters R))" and q: "sint (seqof k) = int (k + 1)"
    using assms(2,3) sint_seqof [of k] by (simp_all add: ra_setting_def)
  have m: "\<forall>(q, j) \<in> set ?m. j \<in> set (rr_filters R) \<and> q = fi_filterID j" "smap_ok ?m" using assms(1) by (simp_all add: received_ok_def)
  define m' where "m' = fs_cuckooFilterInfos (appendCuckooFilterInfo (seqof k) ?i s)"
  have "set m' = insert (fi_filterID ?i, ?i) (set ?m) \<and> smap_ok m'"
  proof (cases "map_of ?m (fi_filterID ?i)")
    case None
    then have "{p \<in> set ?m. fst p \<noteq> fi_filterID ?i} = set ?m" by (force simp: map_of_eq_None_iff)
    then show ?thesis using None m(2) set_smap_put [OF m(2)]
      by (simp add: m'_def appendCuckooFilterInfo_def Let_def smap_ok_put)
  next
    case (Some j)
    then have "(fi_filterID ?i, j) \<in> set ?m" by (rule map_of_SomeD)
    with m(1) have "j \<in> set (rr_filters R)" "fi_filterID ?i = fi_filterID j" by blast+
    then have "j = ?i" using same_number [OF d] i by metis
    then show ?thesis using Some m(2) \<open>(fi_filterID ?i, j) \<in> set ?m\<close>
      by (simp add: m'_def appendCuckooFilterInfo_def Let_def insert_absorb)
  qed
  moreover have "fs_receivedCuckooFilter (appendCuckooFilterInfo (seqof k) ?i s) = insert (int (k + 1)) (fs_receivedCuckooFilter s)"
    "fs_cuckooFilterSize (appendCuckooFilterInfo (seqof k) ?i s) = fs_cuckooFilterSize s"
    using q by (simp_all add: appendCuckooFilterInfo_def Let_def)
  ultimately show ?thesis using assms(1,3) i unfolding received_ok_def m'_def by auto
qed

text \<open>The cache of filters takes a filter of the server, whatever it had.\<close>

lemma filter_cached:
  assumes "filter_cache_ok R c" and "ra_setting R" and "i \<in> set (rr_filters R)"
  shows "\<exists>full c' outs. fc_insert (rr_resource R) i c = Inr (full, c', outs) \<and> filter_cache_ok R c'"
proof (cases "map_of (filters_of (rr_resource R) c) (fi_filterID i)")
  case None
  have cap: "fc_capacity c \<le> fc_maxCapacity c" using assms(1) by (simp add: filter_cache_ok_def)

  obtain full c' outs where f: "fc_insert (rr_resource R) i c = Inr (full, c', outs)" "fc_capacity c' \<le> fc_maxCapacity c'"
    "set (filters_of (rr_resource R) c') \<subseteq> insert (fi_filterID i, i\<lparr>fi_dirty := True\<rparr>) (set (filters_of (rr_resource R) c))"
    using insert_new_filter [OF cap None] by blast
  then have "filter_cache_ok R c'" using assms(1,3) unfolding filter_cache_ok_def by fastforce
  then show ?thesis using f(1) by blast
next
  case (Some j)
  then have "(fi_filterID i, j) \<in> set (filters_of (rr_resource R) c)" by (rule map_of_SomeD)
  then obtain j' where j: "j' \<in> set (rr_filters R)" "fi_filterID i = fi_filterID j'" "fi_hash j = fi_hash j'"
    using assms(1) unfolding filter_cache_ok_def by blast
  moreover have "distinct (map fi_filterID (rr_filters R))" using assms(2) by (simp add: ra_setting_def)
  ultimately have "j' = i" using same_number assms(3) by metis
  then have "insertWithoutEvict (rr_resource R) i c = (c, [])" using Some j(3) by (simp add: insertWithoutEvict_def)
  then show ?thesis using assms(1)
    by (intro exI [of _ False] exI [of _ c] exI [of _ "[]"]) (simp add: fc_insert_def fc_evict_def filter_cache_ok_def)
qed

lemma inv_filter_state:
  assumes "ra_inv R w" and "received_ok R s" and "filter_cache_ok R c"
  shows "ra_inv R (set_filter_state (rr_resource R) s (w\<lparr>ra_filters := c\<rparr>))" and "ra_inv R (set_filter_state (rr_resource R) s w)"
  using assms by (auto simp: ra_inv_def Let_def set_filter_state_def map_of_smap_put)

lemma inv_request_intersections: "ra_inv R w \<Longrightarrow> ra_inv R (rcl_computeIntersection w)"
proof -
  assume i: "ra_inv R w"
  then have "ra_table_ok (ra_nextCache w) (ra_caches w)" by (simp add: ra_inv_def Let_def)
  then have "d < ra_nextCache w" if "(t, m) \<in> set (ra_caches w)" "(q, d) \<in> set m" for t m q d
    using that by (force simp: ra_table_ok_def)
  then show ?thesis using i by (auto simp: ra_inv_def Let_def rcl_computeIntersection_def)
qed

definition filter_world :: "ra_run \<Rightarrow> nat \<Rightarrow> CuckooFilterState \<Rightarrow> CuckooFiltersCache \<Rightarrow> ra \<Rightarrow> ra" where
  "filter_world R k s c w =
     (let s1 = setCuckooFilterSize (int (length (rr_filters R))) s
      in set_filter_state (rr_resource R) (appendCuckooFilterInfo (seqof k) (rr_filters R ! k) s1)
           ((set_filter_state (rr_resource R) s1 w)\<lparr>ra_filters := c\<rparr>))"

lemma filter_arrives:
  assumes "ra_inv R w" and "ra_setting R" and "k < length (rr_filters R)"
  obtains s c where "map_of (ra_states w) (rr_resource R) = Some s" and "ra_inv R (filter_world R k s c w)"
    and "fst (handleCuckooFilterResponse throws load (filter_msg R k) w) =
      checkAndStoreInterSectionResult (rcl_computeIntersection (filter_world R k s c w))"
proof -
  let ?m = "filter_msg R k" and ?i = "rr_filters R ! k"
  have i: "?i \<in> set (rr_filters R)" using assms(3) by simp
  have m: "pm_resourceID (rm_psi ?m) = rr_resource R" "pm_seq (rm_psi ?m) = seqof k" "rm_filterInfo ?m = [?i]"
    "rm_cuckooFilterSize ?m = int (length (rr_filters R))"
    using wire_seqof [of k] assms(2,3) by (simp_all add: filter_msg_def ra_setting_def)
  obtain s where s: "map_of (ra_states w) (rr_resource R) = Some s" "received_ok R s"
    using assms(1) by (auto simp: ra_inv_def Let_def)
  let ?s1 = "setCuckooFilterSize (int (length (rr_filters R))) s"
  let ?w1 = "set_filter_state (rr_resource R) ?s1 w"
  have w1: "map_of (ra_states ?w1) (rr_resource R) = Some ?s1" "ra_filters ?w1 = ra_filters w"
    by (simp_all add: set_filter_state_def map_of_smap_put)
  have f: "filter_cache_ok R (ra_filters w)" using assms(1) by (simp add: ra_inv_def Let_def)
  then obtain full c' outs where c: "fc_insert (rr_resource R) ?i (ra_filters w) = Inr (full, c', outs)" "filter_cache_ok R c'"
    using filter_cached [OF _ assms(2) i] by blast
  have "fi_cuckooFilter ?i \<noteq> None" using assms(2) i by (simp add: ra_setting_def)
  then have "response_items throws load ?m [?i] ?w1 = (filter_world R k s c' w, map CacheOut outs)"
    using m c(1) w1 by (simp add: handleCuckooFilterResponseItem_def ra_append_def filter_world_def Let_def)
  moreover have "ra_inv R (filter_world R k s c' w)" unfolding filter_world_def Let_def
    by (intro inv_filter_state(1) inv_filter_state(2) [OF assms(1) _ f] received_append received_size c(2) assms s(2))
  ultimately show thesis
    using m s(1) by (intro that [of s c']) (simp_all add: handleCuckooFilterResponse_def Let_def del: response_items.simps)
qed

lemma inv_filter:
  assumes "ra_inv R w" and "ra_setting R" and "k < length (rr_filters R)"
  shows "ra_inv R (fst (handleCuckooFilterResponse throws load (filter_msg R k) w))"
proof -
  obtain s c where "ra_inv R (filter_world R k s c w)" "fst (handleCuckooFilterResponse throws load (filter_msg R k) w) =
      checkAndStoreInterSectionResult (rcl_computeIntersection (filter_world R k s c w))"
    using filter_arrives [OF assms] by metis
  then show ?thesis by (simp add: inv_store inv_request_intersections)
qed

section \<open>Blinding\<close>

lemma ra_job_ok_mono: "ra_job_ok R k j \<Longrightarrow> k \<le> k' \<Longrightarrow> ra_job_ok R k' j"
  by (cases j) auto

lemma insert_next:
  "rcl_insertCache r t a q plain key w = ((True, found), w2) \<Longrightarrow> ra_nextCache w2 = ra_nextCache w + 1 \<and> psi_heap w2 = psi_heap w"
  by (auto simp: rcl_insertCache_def Let_def split: if_splits option.splits)

lemma batch_bytes_le: "unat (c + batch_bytes xs) \<le> unat c + sum_list (map length xs)"
proof -
  have "unat (batch_bytes xs) \<le> sum_list (map length xs)" by (simp add: batch_bytes_def unsigned_of_nat take_bit_nat_less_eq_self)
  moreover have "unat (c + batch_bytes xs) \<le> unat c + unat (batch_bytes xs)" by (simp add: unat_word_ariths)
  ultimately show ?thesis by linarith
qed

lemma data_bytes_mono: "m \<le> n \<Longrightarrow> data_bytes R m \<le> data_bytes R n"
  unfolding data_bytes_def by (rule sum_mono2) auto

lemma ra_task_inv_insert:
  assumes "ra_task_inv R k h s" and "rc_state c = Evaluating" and "\<not> ts_finished s"
  shows "ra_task_inv R (k + 1) (h(k := c)) (snd (allocateSeq s))"
proof -
  have "{d. d < k + 1 \<and> rc_state ((h(k := c)) d) \<noteq> Synced} = insert k {d. d < k \<and> rc_state (h d) \<noteq> Synced}"
    "{d. d < k + 1 \<and> rc_state ((h(k := c)) d) = Synced} = {d. d < k \<and> rc_state (h d) = Synced}"
    using assms(2) by (auto simp: less_Suc_eq)
  then show ?thesis using assms
    by (simp add: ra_task_inv_def allocateSeq_def Let_def written_def seqof_def add.commute)
qed

lemma ra_table_insert:
  assumes "ra_table_ok k ts" and "m = (case map_of ts t of Some x \<Rightarrow> x | None \<Rightarrow> [])"
  shows "ra_table_ok (k + 1) (smap_put t (smap_put (seqof k) k m) ts)"
proof -
  have m: "\<forall>(q, d) \<in> set m. d < k \<and> q = seqof d"
    using assms by (auto simp: ra_table_ok_def dest!: map_of_SomeD split: option.splits)
  have "\<forall>(q, d) \<in> set (smap_put (seqof k) k m). d < k + 1 \<and> q = seqof d"
    using m smap_put_subset [of "seqof k" k m] by fastforce
  moreover have "\<forall>(t, m) \<in> set ts. \<forall>(q, d) \<in> set m. d < k + 1 \<and> q = seqof d" using assms(1) by (fastforce simp: ra_table_ok_def)
  ultimately show ?thesis using smap_put_subset [of t "smap_put (seqof k) k m" ts] unfolding ra_table_ok_def by blast
qed

text \<open>A batch that is read gets its place: the cache has room, and its sequence number is new.\<close>

lemma inv_insert:
  fixes w :: ra
  assumes "ra_inv R w" and "ra_setting R" and "ra_nextCache w < length (rr_data R)" and "\<not> ts_finished (psi_heap w (rr_addr R))"
  defines "k \<equiv> ra_nextCache w"
  defines "w1 \<equiv> (set_task (rr_addr R) (snd (allocateSeq (psi_heap w (rr_addr R)))) w)
    \<lparr>ra_reader := (ra_reader w)(rr_addr R := drop (k + 1) (rr_data R))\<rparr>"
  shows "\<exists>w2. rcl_insertCache (rr_resource R) (rr_task R) (rr_addr R) (seqof k) (rr_data R ! k) (rr_draw R (seqof k)) w1 = ((True, Some k), w2)
    \<and> ra_inv R w2"
proof -
  have i: "ra_task_inv R k (ra_cache w) (psi_heap w (rr_addr R))" "\<forall>d < k. ra_cache_ok R d (ra_cache w d)" "ra_table_ok k (ra_caches w)"
    "unat (ra_capacity w) \<le> data_bytes R k" "data_bytes R (length (rr_data R)) < unat (ra_maxCacheSize w)"
    using assms(1) by (simp_all add: ra_inv_def Let_def k_def)
  obtain s where s: "map_of (ra_states w) (rr_resource R) = Some s" "received_ok R s"
    using assms(1) by (auto simp: ra_inv_def Let_def)
  have k: "k < length (rr_data R)" "k < 2 ^ 16" using assms(2,3) by (simp_all add: ra_setting_def k_def)
  have "unat (ra_capacity w) < unat (ra_maxCacheSize w)"
    using i(4,5) data_bytes_mono [of k "length (rr_data R)" R] k(1) by simp
  then have room: "\<not> ra_isFull w1" by (simp add: ra_isFull_def w1_def word_le_nat_alt)
  have new: "rcl_cache (rr_task R) (seqof k) w1 = None"
  proof (rule ccontr)
    assume "rcl_cache (rr_task R) (seqof k) w1 \<noteq> None"
    then obtain d where "rcl_cache (rr_task R) (seqof k) w = Some d" by (auto simp: w1_def rcl_cache_def caches_of_def)
    from cache_found [OF i(3) this k(2) k(2)] show False by simp
  qed
  have st: "fst (loadCuckooFilterState (rr_resource R) False w1) = Some s"
    using s by (simp add: loadCuckooFilterState_def w1_def)
  let ?c = "new_RA2018PSIClientCache (Some (rr_resource R)) (rr_task R) (rr_addr R) (seqof k) (rr_data R ! k) (rr_draw R (seqof k))"
  define w2 where "w2 = set_cache k ?c (w1\<lparr>ra_nextCache := k + 1, ra_capacity := ra_capacity w1 + batch_bytes (rr_data R ! k),
    ra_caches := smap_put (rr_task R) (smap_put (seqof k) k (caches_of (rr_task R) w1)) (ra_caches w1)\<rparr>)"
  have "rcl_insertCache (rr_resource R) (rr_task R) (rr_addr R) (seqof k) (rr_data R ! k) (rr_draw R (seqof k)) w1 = ((True, Some k), w2)"
    using room new st by (simp add: rcl_insertCache_def w2_def Let_def) (simp add: w1_def k_def)
  moreover have "ra_inv R w2"
  proof -
    have "ra_task_inv R (k + 1) ((ra_cache w)(k := ?c)) (snd (allocateSeq (psi_heap w (rr_addr R))))"
      by (rule ra_task_inv_insert [OF i(1) _ assms(4)]) (simp add: new_RA2018PSIClientCache_def)
    moreover have "ra_table_ok (k + 1) (smap_put (rr_task R) (smap_put (seqof k) k (caches_of (rr_task R) w1)) (ra_caches w))"
      by (rule ra_table_insert [OF i(3)]) (simp add: w1_def caches_of_def)
    moreover have "ra_cache_ok R d (((ra_cache w)(k := ?c)) d)" if "d < k + 1" for d
      using that i(2) by (cases "d = k") (simp_all add: ra_cache_ok_def new_RA2018PSIClientCache_def)
    moreover have "unat (ra_capacity w + batch_bytes (rr_data R ! k)) \<le> data_bytes R (k + 1)"
      using i(4) batch_bytes_le [of "ra_capacity w" "rr_data R ! k"] by (simp add: data_bytes_def)
    moreover have "\<forall>j \<in> set (ra_jobs w). ra_job_ok R (k + 1) j"
      using assms(1) unfolding ra_inv_def Let_def k_def [symmetric] by (auto intro: ra_job_ok_mono)
    ultimately show ?thesis using assms(1) k(1) s
      by (simp add: ra_inv_def Let_def w2_def w1_def k_def)
  qed
  ultimately show ?thesis by blast
qed

lemma inv_finished:
  assumes "ra_inv R w" and "ra_nextCache w = length (rr_data R)"
  shows "ra_inv R (set_task (rr_addr R) ((psi_heap w (rr_addr R))\<lparr>ts_finished := True\<rparr>) w)"
  using assms by (simp add: ra_inv_def Let_def ra_task_inv_def written_def)

lemma inv_blind_loop_ra:
  fixes w :: ra
  assumes "ra_inv R w" and "ra_setting R" and "\<not> ts_finished (psi_heap w (rr_addr R))" and "batches = drop (ra_nextCache w) (rr_data R)"
  shows "ra_inv R (fst (ra_blind_loop throws (rr_draw R) (rr_resource R) (rr_addr R) batches w))"
  using assms
proof (induction batches arbitrary: w)
  case Nil
  then have "ra_nextCache w = length (rr_data R)" by (simp add: ra_inv_def Let_def)
  then show ?case using inv_finished Nil.prems(1) by simp
next
  case (Cons batch rest)
  let ?k = "ra_nextCache w" and ?s = "psi_heap w (rr_addr R)"
  have k: "?k < length (rr_data R)" using Cons.prems(4) by (metis drop_eq_Nil linorder_not_le list.distinct(1))
  then have b: "batch = rr_data R ! ?k" "rest = drop (?k + 1) (rr_data R)" using Cons.prems(4) by (simp_all add: Cons_nth_drop_Suc [symmetric])
  have t: "tk_id (ts_task ?s) = rr_task R" "\<not> ts_sqlReader ?s" "ts_currentSeq ?s = of_nat ?k"
    using Cons.prems(1) by (simp_all add: ra_inv_def Let_def ra_task_inv_def)
  have q: "fst (allocateSeq ?s) = seqof ?k" using t(3) by (simp add: allocateSeq_def Let_def seqof_def add.commute)
  obtain w2 where w2: "rcl_insertCache (rr_resource R) (rr_task R) (rr_addr R) (seqof ?k) (rr_data R ! ?k) (rr_draw R (seqof ?k))
      ((set_task (rr_addr R) (snd (allocateSeq ?s)) w)\<lparr>ra_reader := (ra_reader w)(rr_addr R := drop (?k + 1) (rr_data R))\<rparr>)
      = ((True, Some ?k), w2)" "ra_inv R w2"
    using inv_insert [OF Cons.prems(1,2) k Cons.prems(3)] by blast
  note ins = insert_next [OF w2(1)]
  have "ra_inv R (fst (ra_blind_loop throws (rr_draw R) (rr_resource R) (rr_addr R) rest w2))"
    by (rule Cons.IH [OF w2(2) Cons.prems(2)]) (use ins Cons.prems(3) b in \<open>simp_all add: allocateSeq_def Let_def\<close>)
  then show ?case
    using w2 t q b by (simp add: split_beta Let_def)
qed

lemma filter_msg_type [simp]:
  "pm_packetType (rm_psi (filter_msg R k)) = RA_CuckooFilterResponse" "pm_packetType (rm_psi (evaluated_msg R d)) = RA_EvaluateResponse"
  by (simp_all add: filter_msg_def evaluated_msg_def createPSIMessage_def)

section \<open>Committing\<close>

lemma ra_task_inv_stored:
  assumes "ra_task_inv R k h s" and "d < k" and "k < 2 ^ 16" and "rc_state (h d) \<noteq> Synced" and "rc_state c = Synced"
    and "ts_seqList s' = ts_seqList s - {seqof d}" and "written s' = written s @ ra_batch R d"
    and "tk_id (ts_task s') = tk_id (ts_task s)" and "tk_peerParties (ts_task s') = tk_peerParties (ts_task s)"
    and "tk_syncResultToPeer (ts_task s') = tk_syncResultToPeer (ts_task s)"
    and "ts_onSubTaskFinished s' = ts_onSubTaskFinished s" and "ts_sqlReader s' = ts_sqlReader s"
    and "ts_currentSeq s' = ts_currentSeq s" and "ts_finished s' = ts_finished s"
  shows "ra_task_inv R k (h(d := c)) s'"
proof -
  let ?open = "{x. x < k \<and> rc_state (h x) \<noteq> Synced}" and ?done = "{x. x < k \<and> rc_state (h x) = Synced}"
  have sets: "{x. x < k \<and> rc_state ((h(d := c)) x) \<noteq> Synced} = ?open - {d}"
    "{x. x < k \<and> rc_state ((h(d := c)) x) = Synced} = insert d ?done"
    using assms(2,5) by auto
  have "?open \<subseteq> {..<2 ^ 16}" using assms(3) by auto
  then have "seqof ` (?open - {d}) = seqof ` ?open - {seqof d}"
    using inj_on_image_set_diff [OF inj_on_seqof, of ?open ?open "{d}"] assms(2,4) by simp
  moreover have "d \<notin> ?done" using assms(4) by simp
  ultimately show ?thesis using assms(1,6-14)
    unfolding ra_task_inv_def sets peer_ok_def by (simp add: add.commute)
qed

lemma default_output_peers [simp]: "tk_peerParties (ts_task (tryToGenerateDefaultOutputDesc s)) = tk_peerParties (ts_task s)"
  by (simp add: tryToGenerateDefaultOutputDesc_def Let_def)

text \<open>A batch that is stored counts as synced at once; the task gets its lines and loses its sequence number.\<close>

lemma commit_fields:
  fixes w :: ra
  assumes "ra_cache w d = c" and "rc_state c = Intersectioned" and "rc_taskState c = a" and "rc_seq c \<in> ts_seqList (psi_heap w a)"
    and "ts_onSubTaskFinished (psi_heap w a)" and "\<not> tk_syncResultToPeer (ts_task (psi_heap w a))"
  defines "s1 \<equiv> fst (ts_storePSIResult (\<lambda>_. False) (rc_intersectionData c) (psi_heap w a))"
  shows "fst (commitPSIResult (\<lambda>_. False) d w) = checkAndStoreInterSectionResult (set_cache d (c\<lparr>rc_state := Synced\<rparr>)
    (set_task a (s1\<lparr>ts_seqList := ts_seqList (psi_heap w a) - {rc_seq c}, ts_successCount := ts_successCount (psi_heap w a) + 1\<rparr>) w))"
proof -
  have over: "set_task a x (set_cache d y (set_task a z (set_cache d u w))) = set_cache d y (set_task a x w)" for x y z u
    by (simp add: set_task_def set_cache_def)
  have "ts_seqList s1 = ts_seqList (psi_heap w a)" "ts_onSubTaskFinished s1" "ts_successCount s1 = ts_successCount (psi_heap w a)"
    "\<not> tk_syncResultToPeer (ts_task s1)"
    using assms(5,6) by (simp_all add: s1_def store_quiet tryToGenerateDefaultOutputDesc_def Let_def)
  then show ?thesis using assms(1-4) store_quiet(2) [of "rc_intersectionData c" "psi_heap w a"]
    by (simp add: commitPSIResult_def rc_storePSIResult_def ra_finish_sub_task_def eraseFinishedTaskSeq_def split_beta Let_def
        s1_def [symmetric] over)
qed

lemma inv_commit:
  fixes w :: ra
  assumes "ra_inv R w" and "ra_setting R" and "d < ra_nextCache w"
  shows "ra_inv R (fst (commitPSIResult (\<lambda>_. False) d w))"
proof (cases "rc_state (ra_cache w d) = Intersectioned")
  case False
  then show ?thesis using assms(1) by (simp add: commitPSIResult_def rc_storePSIResult_def Let_def)
next
  case True
  let ?c = "ra_cache w d" and ?k = "ra_nextCache w" and ?s = "psi_heap w (rr_addr R)"
  have i: "ra_task_inv R ?k (ra_cache w) ?s" "ra_cache_ok R d ?c" "?k \<le> length (rr_data R)"
    using assms(1,3) by (simp_all add: ra_inv_def Let_def)
  have c: "rc_taskState ?c = rr_addr R" "rc_seq ?c = seqof d" "rc_intersectionData ?c = ra_batch R d"
    using i(2) True by (simp_all add: ra_cache_ok_def)
  have t: "seqof d \<in> ts_seqList ?s" "ts_onSubTaskFinished ?s" "\<not> tk_syncResultToPeer (ts_task ?s)"
    using i(1) True assms(3) by (auto simp: ra_task_inv_def)
  define s1 where "s1 = fst (ts_storePSIResult (\<lambda>_. False) (ra_batch R d) ?s)"
  define s' where "s' = s1\<lparr>ts_seqList := ts_seqList ?s - {seqof d}, ts_successCount := ts_successCount ?s + 1\<rparr>"
  have "?k < 2 ^ 16" using assms(2) i(3) by (simp add: ra_setting_def)
  then have "ra_task_inv R ?k ((ra_cache w)(d := ?c\<lparr>rc_state := Synced\<rparr>)) s'"
    by (rule ra_task_inv_stored [OF i(1) assms(3)])
       (use True in \<open>simp_all add: s'_def s1_def store_quiet written_def tryToGenerateDefaultOutputDesc_def Let_def\<close>)
  moreover have "ra_cache_ok R d (?c\<lparr>rc_state := Synced\<rparr>)" using i(2) by (simp add: ra_cache_ok_def)
  ultimately have "ra_inv R (set_cache d (?c\<lparr>rc_state := Synced\<rparr>) (set_task (rr_addr R) s' w))"
    using assms(1,3) by (simp add: ra_inv_def Let_def)
  then show ?thesis
    using commit_fields [of w d ?c "rr_addr R"] True c t inv_store by (simp add: s'_def s1_def)
qed

section \<open>The steps\<close>

lemma inv_jobs:
  assumes "ra_inv R w" and "set js \<subseteq> set (ra_jobs w) \<union> {j. ra_job_ok R (ra_nextCache w) j}"
  shows "ra_inv R (w\<lparr>ra_jobs := js\<rparr>)"
  using assms by (auto simp: ra_inv_def Let_def)

lemma inv_message:
  fixes w :: ra
  assumes "ra_inv R w" and "\<And>k. ra_job_ok R k (MessageJob m)"
    and "pm_packetType (rm_psi m) = RA_CuckooFilterResponse \<or> pm_packetType (rm_psi m) = RA_EvaluateResponse"
  shows "ra_inv R (fst (ra_handlePSIMsg throws pendingTime m w))"
proof -
  have "handlePSIFrameworkMsg f g throws pendingTime (rm_psi m) w = None" for f g
    using assms(3) by (auto simp: handlePSIFrameworkMsg_def packet_types ra_packets)
  moreover have "ra_inv R (add_jobs [MessageJob m] w)" using inv_jobs [OF assms(1), of "ra_jobs w @ [MessageJob m]"] assms(2)
    by (auto simp: add_jobs_def)
  ultimately show ?thesis using assms(1) by (simp add: ra_handlePSIMsg_def Let_def split: prod.splits bool.splits)
qed

lemma inv_worker:
  fixes w :: ra
  assumes "ra_inv R w"
  shows "ra_inv R (ra_worker (rr_addr R) w)"
proof -
  obtain g p where p: "tk_peerParties (task_at w (rr_addr R)) = [(g, p)]" "ra_peer_resource p = rr_resource R"
    using assms by (auto simp: ra_inv_def Let_def ra_task_inv_def peer_ok_def task_at_def)
  show ?thesis using assms p inv_jobs [OF assms, of "ra_jobs w @ [BlindJob (rr_resource R) (rr_addr R)]"]
    by (auto simp: ra_worker_def ra_blindData_def add_jobs_def)
qed

lemma inv_run_job:
  fixes w :: ra
  assumes "ra_inv R w" and "ra_setting R" and "ra_job_ok R (ra_nextCache w) j"
  shows "ra_inv R (fst (ra_run_job (\<lambda>_. False) st (rr_draw R) j w))"
proof (cases j)
  case (BlindJob r a)
  have "ra_reader w (rr_addr R) = drop (ra_nextCache w) (rr_data R)" using assms(1) by (simp add: ra_inv_def Let_def)
  then show ?thesis using BlindJob assms inv_blind_loop_ra [OF assms(1,2)]
    by (simp add: ra_run_job_def run_blind_def)
next
  case (ComputeJob d)
  then show ?thesis using inv_store [OF inv_compute(1) [OF assms(1)]] assms(3) by (simp add: ra_run_job_def split_beta Let_def)
next
  case (CommitJob d)
  then show ?thesis using inv_commit [OF assms(1,2)] assms(3) by (simp add: ra_run_job_def)
next
  case (MessageJob m)
  then consider k where "k < length (rr_filters R)" "m = filter_msg R k" | d where "d < length (rr_data R)" "m = evaluated_msg R d"
    using assms(3) by auto
  then show ?thesis
  proof cases
    case 1
    then show ?thesis using MessageJob inv_filter [OF assms(1,2) 1(1)] by (simp add: ra_run_job_def run_message_def filter_msg_type ra_packets)
  next
    case 2
    then show ?thesis using MessageJob inv_evaluated [OF assms(1,2) 2(1)] by (simp add: ra_run_job_def run_message_def filter_msg_type ra_packets)
  qed
qed (use assms(3) in simp)

lemma ra_step_inv:
  assumes "ra_inv R w" and "ra_setting R"
  shows "ra_inv R (fst (ra_step R st e w))"
proof (cases e)
  case (Pool i)
  show ?thesis
  proof (cases "i < length (ra_jobs w)")
    case True
    let ?w = "w\<lparr>ra_jobs := take i (ra_jobs w) @ drop (i + 1) (ra_jobs w)\<rparr>"
    have "set (take i (ra_jobs w) @ drop (i + 1) (ra_jobs w)) \<subseteq> set (ra_jobs w)" using set_remove_nth [OF True] by blast
    then have "ra_inv R ?w" by (intro inv_jobs [OF assms(1)]) blast
    moreover have "ra_job_ok R (ra_nextCache ?w) (ra_jobs w ! i)" using assms(1) True by (simp add: ra_inv_def Let_def)
    ultimately show ?thesis using Pool True inv_run_job [of R ?w] assms(2) by (simp add: ra_pool_def)
  qed (use assms(1) Pool in \<open>simp add: ra_pool_def\<close>)
qed (use assms in \<open>auto simp: inv_worker filter_msg_type intro!: inv_message\<close>)

lemma ra_run_inv:
  assumes "ra_inv R w" and "ra_setting R"
  shows "ra_inv R (fst (run_steps (ra_step R st) es w))"
  by (rule run_steps_inv [where P = "ra_inv R"]) (use assms ra_step_inv in blast)+

end
