(* ===== verification/RaResult.thy ===== *)
theory RaResult
  imports RaRun
begin

text \<open>
  The result of RA2018-PSI: what a finished task has written, that a task finishes once everything has arrived and the
  waiting jobs have run, and, with the preprocessing, that every common item is found.
\<close>

section \<open>The result\<close>

lemma ra_result:
  assumes "ra_inv R w" and "finished (psi_heap w (rr_addr R))"
  shows "mset (written (psi_heap w (rr_addr R))) = mset (filter (ra_hit R) (concat (rr_data R)))"
proof -
  let ?k = "ra_nextCache w" and ?n = "length (rr_data R)"
  have t: "ra_task_inv R ?k (ra_cache w) (psi_heap w (rr_addr R))" using assms(1) by (simp add: ra_inv_def Let_def)
  then have "?k = ?n" "{d. d < ?k \<and> rc_state (ra_cache w d) \<noteq> Synced} = {}"
    using assms(2) by (simp_all add: ra_task_inv_def finished_def)
  then have "{d. d < ?k \<and> rc_state (ra_cache w d) = Synced} = {..<?n}" by auto
  with t show ?thesis by (simp add: ra_task_inv_def mset_filter_concat ra_batch_def del: mset_filter)
qed

text \<open>
  (C10) The result of RA2018-PSI. The client blinds its batches, and the server's filters and answers arrive in any order
  and any multiplicity, while the pool runs the waiting jobs in any order. Whenever the task then counts as finished, the
  lines written are, as a multiset, the client's items whose evaluation by the server is in a filter of the server.
\<close>

theorem ra_psi_correct:
  assumes "ra_setting R" and "ra_ready R w"
    and "finished (psi_heap (fst (run_steps (ra_step R st) es w)) (rr_addr R))"
  shows "mset (written (psi_heap (fst (run_steps (ra_step R st) es w)) (rr_addr R))) = mset (filter (ra_hit R) (concat (rr_data R)))"
  by (rule ra_result [OF ra_run_inv [OF ra_ready_inv [OF assms(2)] assms(1)] assms(3)])

section \<open>What is waiting is due\<close>

definition listed :: "ra_run \<Rightarrow> ra \<Rightarrow> bool" where
  "listed R w \<longleftrightarrow> psi_getTaskByID (rr_task R) w \<noteq> None \<and> psi_started w \<and> \<not> ra_disabled w \<and>
     (\<forall>d < ra_nextCache w. rc_state (ra_cache w d) \<noteq> Synced \<longrightarrow> rcl_cache (rr_task R) (seqof d) w = Some d)"

definition commits_due :: "ra \<Rightarrow> bool" where
  "commits_due w \<longleftrightarrow> (\<forall>d < ra_nextCache w. rc_state (ra_cache w d) = Intersectioned \<longrightarrow> CommitJob d \<in> set (ra_jobs w))"

definition fetched :: "ra_run \<Rightarrow> ra \<Rightarrow> bool" where
  "fetched R w \<longleftrightarrow> (case map_of (ra_states w) (rr_resource R) of Some s \<Rightarrow> fetchFinish s | None \<Rightarrow> False)"

definition computes_due :: "ra_run \<Rightarrow> ra \<Rightarrow> bool" where
  "computes_due R w \<longleftrightarrow>
     (fetched R w \<longrightarrow> (\<forall>d < ra_nextCache w. rc_state (ra_cache w d) = Finalized \<longrightarrow> ComputeJob d \<in> set (ra_jobs w)))"

definition ra_live :: "ra_run \<Rightarrow> ra \<Rightarrow> bool" where
  "ra_live R w \<longleftrightarrow> listed R w \<and> commits_due w \<and> computes_due R w"

lemma store_task_keeps:
  "store_task h m cap = (m', cap', jobs) \<Longrightarrow> map_of m q = Some d \<Longrightarrow> rc_state (h d) \<noteq> Synced \<Longrightarrow>
   map_of m' q = Some d \<and> (rc_state (h d) = Intersectioned \<longrightarrow> CommitJob d \<in> set jobs) \<and> (\<forall>j \<in> set jobs. \<exists>d. j = CommitJob d)"
proof (induction h m cap arbitrary: m' cap' jobs rule: store_task.induct)
  case (2 h seq x m cap)
  let ?cap = "if rc_state (h x) = Intersectioned then release_bytes_of (rc_plainData (h x)) cap else cap"
  obtain m1 cap1 jobs1 where r: "store_task h m ?cap = (m1, cap1, jobs1)" by (metis prod_cases3)
  have res: "m' = (if rc_state (h x) = Synced then m1 else (seq, x) # m1)"
    "jobs = (if rc_state (h x) = Intersectioned then CommitJob x # jobs1 else jobs1)"
    using 2(2) r by (simp_all add: Let_def)
  have c: "\<forall>j \<in> set jobs1. \<exists>d. j = CommitJob d" using store_task_result [OF r] by blast
  show ?case
  proof (cases "q = seq")
    case True
    then have "x = d" using 2(3) by simp
    then show ?thesis using True res c 2(4) by auto
  next
    case False
    then show ?thesis using 2(1) [OF refl refl r] 2(3,4) res c by auto
  qed
qed simp

lemma store_tasks_keeps:
  "store_tasks h ts cap = (ts', cap', jobs) \<Longrightarrow> map_of ts t = Some m \<Longrightarrow> map_of m q = Some d \<Longrightarrow> rc_state (h d) \<noteq> Synced \<Longrightarrow>
   (\<exists>m'. map_of ts' t = Some m' \<and> map_of m' q = Some d) \<and> (rc_state (h d) = Intersectioned \<longrightarrow> CommitJob d \<in> set jobs)"
proof (induction h ts cap arbitrary: ts' cap' jobs rule: store_tasks.induct)
  case (2 h t1 m1 ts cap)
  obtain m2 cap1 jobs1 where a: "store_task h m1 cap = (m2, cap1, jobs1)" by (metis prod_cases3)
  obtain ts1 cap2 jobs2 where b: "store_tasks h ts cap1 = (ts1, cap2, jobs2)" by (metis prod_cases3)
  have res: "ts' = (if m2 = [] then ts1 else (t1, m2) # ts1)" "jobs = jobs1 @ jobs2" using 2(2) a b by simp_all
  show ?case
  proof (cases "t = t1")
    case True
    then have "m1 = m" using 2(3) by simp
    from store_task_keeps [OF a [unfolded this] 2(4,5)] show ?thesis using True res by auto
  next
    case False
    then show ?thesis using 2(1) [OF a [symmetric] refl refl b] 2(3-5) res by auto
  qed
qed simp

lemma store_tasks_jobs: "store_tasks h ts cap = (ts', cap', jobs) \<Longrightarrow> \<forall>j \<in> set jobs. \<exists>d. j = CommitJob d"
proof (induction h ts cap arbitrary: ts' cap' jobs rule: store_tasks.induct)
  case (2 h t m ts cap)
  obtain m1 cap1 jobs1 where a: "store_task h m cap = (m1, cap1, jobs1)" by (metis prod_cases3)
  obtain ts1 cap2 jobs2 where b: "store_tasks h ts cap1 = (ts1, cap2, jobs2)" by (metis prod_cases3)
  show ?case using 2(1) [OF a [symmetric] refl refl b] store_task_result [OF a] 2(2) a b by fastforce
qed simp

lemma store_frame [simp]:
  "psi_heap (checkAndStoreInterSectionResult w) = psi_heap w" "ra_cache (checkAndStoreInterSectionResult w) = ra_cache w"
  "ra_nextCache (checkAndStoreInterSectionResult w) = ra_nextCache w" "ra_states (checkAndStoreInterSectionResult w) = ra_states w"
  "psi_getTaskByID t (checkAndStoreInterSectionResult w) = psi_getTaskByID t w" "psi_started (checkAndStoreInterSectionResult w) = psi_started w"
  "ra_disabled (checkAndStoreInterSectionResult w) = ra_disabled w"
  by (simp_all add: checkAndStoreInterSectionResult_def add_jobs_def psi_getTaskByID_def split_beta Let_def)

lemma store_jobs: "\<exists>js. ra_jobs (checkAndStoreInterSectionResult w) = ra_jobs w @ map CommitJob js"
proof -
  obtain ts cap jobs where r: "store_tasks (ra_cache w) (ra_caches w) (ra_capacity w) = (ts, cap, jobs)" by (metis prod_cases3)
  have "\<exists>js. jobs = map CommitJob js"
    using store_tasks_jobs [OF r] by (intro ex_map_conv [THEN iffD2]) blast
  then show ?thesis using r by (auto simp: checkAndStoreInterSectionResult_def)
qed

text \<open>The pass over the table lists a job for every intersected batch and keeps every batch that is not synced.\<close>

lemma live_store:
  assumes "listed R w" and "computes_due R w"
  shows "ra_live R (checkAndStoreInterSectionResult w)"
proof -
  obtain ts cap jobs where r: "store_tasks (ra_cache w) (ra_caches w) (ra_capacity w) = (ts, cap, jobs)" by (metis prod_cases3)
  let ?w = "checkAndStoreInterSectionResult w"
  have w: "ra_caches ?w = ts" "ra_jobs ?w = ra_jobs w @ jobs" using r by (simp_all add: checkAndStoreInterSectionResult_def)
  have "rcl_cache (rr_task R) (seqof d) ?w = Some d \<and> (rc_state (ra_cache w d) = Intersectioned \<longrightarrow> CommitJob d \<in> set jobs)"
    if "d < ra_nextCache w" "rc_state (ra_cache w d) \<noteq> Synced" for d
  proof -
    have "rcl_cache (rr_task R) (seqof d) w = Some d" using assms(1) that by (simp add: listed_def)
    then obtain m where "map_of (ra_caches w) (rr_task R) = Some m" "map_of m (seqof d) = Some d"
      by (auto simp: rcl_cache_def caches_of_def split: option.splits)
    from store_tasks_keeps [OF r this that(2)] show ?thesis using w(1) by (auto simp: rcl_cache_def caches_of_def)
  qed
  then show ?thesis using assms w(2) by (auto simp: ra_live_def listed_def commits_due_def computes_due_def fetched_def)
qed

section \<open>Every step keeps it and loses nothing\<close>

definition got :: "ra_run \<Rightarrow> ra \<Rightarrow> CuckooFilterState" where
  "got R w = (case map_of (ra_states w) (rr_resource R) of Some s \<Rightarrow> s | None \<Rightarrow> new_CuckooFilterState)"

definition ra_moved :: "ra_run \<Rightarrow> ra \<Rightarrow> ra \<Rightarrow> bool" where
  "ra_moved R w w' \<longleftrightarrow>
     ra_nextCache w \<le> ra_nextCache w' \<and>
     (\<forall>d < ra_nextCache w. (rc_state (ra_cache w' d) = Evaluating \<longrightarrow> rc_state (ra_cache w d) = Evaluating) \<and>
        (rc_state (ra_cache w d) = Synced \<longrightarrow> rc_state (ra_cache w' d) = Synced)) \<and>
     (ts_finished (psi_heap w (rr_addr R)) \<longrightarrow> ts_finished (psi_heap w' (rr_addr R))) \<and>
     fs_receivedCuckooFilter (got R w) \<subseteq> fs_receivedCuckooFilter (got R w') \<and>
     (fs_cuckooFilterSize (got R w) \<noteq> - 1 \<longrightarrow> fs_cuckooFilterSize (got R w') \<noteq> - 1)"

lemma moved_refl [simp]: "ra_moved R w w"
  by (simp add: ra_moved_def)

lemma moved_trans: "ra_moved R w1 w2 \<Longrightarrow> ra_moved R w2 w3 \<Longrightarrow> ra_moved R w1 w3"
  unfolding ra_moved_def by (meson order_trans less_le_trans)

lemma moved_store [simp]: "ra_moved R w (checkAndStoreInterSectionResult w') \<longleftrightarrow> ra_moved R w w'"
  by (simp add: ra_moved_def got_def)

lemma moved_jobs [simp]:
  "ra_moved R (w\<lparr>ra_jobs := js\<rparr>) w' \<longleftrightarrow> ra_moved R w w'" "ra_moved R w (w'\<lparr>ra_jobs := js\<rparr>) \<longleftrightarrow> ra_moved R w w'"
  "ra_moved R w (add_jobs js w') \<longleftrightarrow> ra_moved R w w'"
  by (simp_all add: ra_moved_def got_def add_jobs_def)

lemma frame_pending [simp]:
  "psi_getTaskByID t (set_cache d c w) = psi_getTaskByID t w" "psi_started (set_cache d c w) = psi_started w"
  "ra_disabled (set_cache d c w) = ra_disabled w" "psi_getTaskByID t (add_jobs js w) = psi_getTaskByID t w"
  "psi_started (add_jobs js w) = psi_started w" "ra_disabled (add_jobs js w) = ra_disabled w"
  "psi_getTaskByID t (set_task a s w) = psi_getTaskByID t w" "psi_started (set_task a s w) = psi_started w"
  "ra_disabled (set_task a s w) = ra_disabled w" "psi_getTaskByID t (w\<lparr>ra_jobs := js\<rparr>) = psi_getTaskByID t w"
  "psi_getTaskByID t (w\<lparr>ra_filters := fc\<rparr>) = psi_getTaskByID t w"
  "psi_getTaskByID t (set_filter_state r s1 w) = psi_getTaskByID t w" "psi_started (set_filter_state r s1 w) = psi_started w"
  "ra_disabled (set_filter_state r s1 w) = ra_disabled w"
  by (simp_all add: set_cache_def add_jobs_def set_task_def set_filter_state_def psi_getTaskByID_def)

lemma rcl_cache_frame [simp]:
  "rcl_cache t q (set_cache d c w) = rcl_cache t q w" "rcl_cache t q (add_jobs js w) = rcl_cache t q w"
  "rcl_cache t q (set_task a s w) = rcl_cache t q w" "rcl_cache t q (w\<lparr>ra_jobs := js\<rparr>) = rcl_cache t q w"
  "rcl_cache t q (w\<lparr>ra_filters := fc\<rparr>) = rcl_cache t q w" "rcl_cache t q (set_filter_state r s1 w) = rcl_cache t q w"
  by (simp_all add: rcl_cache_def caches_of_def set_filter_state_def)

lemma listed_set_cache:
  "listed R w \<Longrightarrow> rc_state c = Synced \<or> rc_state (ra_cache w d) \<noteq> Synced \<Longrightarrow> listed R (set_cache d c w)"
  by (auto simp: listed_def)

lemma moved_set_cache:
  "rc_state c \<noteq> Evaluating \<or> rc_state (ra_cache w d) = Evaluating \<Longrightarrow> rc_state (ra_cache w d) = Synced \<longrightarrow> rc_state c = Synced \<Longrightarrow>
   ra_moved R w (set_cache d c w)"
  by (auto simp: ra_moved_def got_def)

text \<open>A job is taken from the pool: only its own batch may not be due any more.\<close>

lemma live_take:
  assumes "ra_live R w" and "set (ra_jobs w) \<subseteq> insert j (set js)"
  shows "listed R (w\<lparr>ra_jobs := js\<rparr>)" and "(\<And>d. j \<noteq> CommitJob d) \<Longrightarrow> commits_due (w\<lparr>ra_jobs := js\<rparr>)"
    and "(\<And>d. j \<noteq> ComputeJob d) \<Longrightarrow> computes_due R (w\<lparr>ra_jobs := js\<rparr>)"
  using assms by (auto simp: ra_live_def listed_def commits_due_def computes_due_def fetched_def) (metis insertE subsetD)+

lemma live_add: "ra_live R w \<Longrightarrow> ra_live R (add_jobs js w)"
  by (auto simp: ra_live_def listed_def commits_due_def computes_due_def fetched_def)

text \<open>Intersecting a batch: it is done when the filters are there.\<close>

lemma compute_cases:
  assumes "ra_inv R w" and "d < ra_nextCache w"
  obtains "\<not> (rc_state (ra_cache w d) = Finalized \<and> fetched R w)" and "fst (rc_computeIntersection d w) = w"
  | c where "rc_state (ra_cache w d) = Finalized" and "rc_state c = Intersectioned" and "fst (rc_computeIntersection d w) = set_cache d c w"
proof -
  obtain s where s: "map_of (ra_states w) (rr_resource R) = Some s" using assms(1) by (auto simp: ra_inv_def Let_def)
  have f: "rc_filterState (ra_cache w d) = Some (rr_resource R)" using assms by (simp add: ra_inv_def Let_def ra_cache_ok_def)
  show thesis
  proof (cases "rc_state (ra_cache w d) = Finalized \<and> fetched R w")
    case True
    then show ?thesis using s f by (intro that(2)) (auto simp: rc_computeIntersection_def fetched_def Let_def)
  next
    case False
    then show ?thesis using s f by (intro that(1)) (auto simp: rc_computeIntersection_def fetched_def Let_def)
  qed
qed

lemma compute_live:
  assumes "ra_inv R w" and "d < ra_nextCache w" and "listed R w"
    and "\<And>x. fetched R w \<Longrightarrow> x < ra_nextCache w \<Longrightarrow> x \<noteq> d \<Longrightarrow> rc_state (ra_cache w x) = Finalized \<Longrightarrow> ComputeJob x \<in> set (ra_jobs w)"
  defines "w' \<equiv> fst (rc_computeIntersection d w)"
  shows "ra_live R (checkAndStoreInterSectionResult w')" and "ra_moved R w w'" and "ra_jobs w' = ra_jobs w"
proof -
  from assms(1,2) have "listed R w' \<and> computes_due R w' \<and> ra_moved R w w' \<and> ra_jobs w' = ra_jobs w"
  proof (cases rule: compute_cases)
    case 1
    then show ?thesis using assms(3,4) by (auto simp: w'_def computes_due_def)
  next
    case (2 c)
    then have "fetched R w' = fetched R w" by (simp add: w'_def fetched_def)
    then show ?thesis using 2 assms(4) listed_set_cache [OF assms(3), of c d] moved_set_cache [of c w d R]
      by (auto simp: w'_def computes_due_def)
  qed
  then show "ra_live R (checkAndStoreInterSectionResult w')" and "ra_moved R w w'" and "ra_jobs w' = ra_jobs w"
    using live_store by blast+
qed

lemma take_compute:
  fixes draw st
  assumes "ra_live R w" and "set (ra_jobs w) \<subseteq> insert (ComputeJob d) (set js)" and "ra_inv R (w\<lparr>ra_jobs := js\<rparr>)" and "d < ra_nextCache w"
  defines "w' \<equiv> fst (ra_run_job (\<lambda>_. False) st draw (ComputeJob d) (w\<lparr>ra_jobs := js\<rparr>))"
  shows "ra_live R w' \<and> ra_moved R w w' \<and> (\<exists>ds. ra_jobs w' = js @ map CommitJob ds)"
proof -
  let ?w = "w\<lparr>ra_jobs := js\<rparr>"
  have d: "d < ra_nextCache ?w" using assms(4) by simp
  have due: "ComputeJob x \<in> set (ra_jobs ?w)"
    if "fetched R ?w" "x < ra_nextCache ?w" "x \<noteq> d" "rc_state (ra_cache ?w x) = Finalized" for x
    using assms(1,2) that by (auto simp: ra_live_def computes_due_def fetched_def)
  note c = compute_live [OF assms(3) d live_take(1) [OF assms(1,2)] due]
  have "\<exists>ds. ra_jobs (checkAndStoreInterSectionResult (fst (rc_computeIntersection d ?w))) = js @ map CommitJob ds"
    using store_jobs [of "fst (rc_computeIntersection d ?w)"] c(3) by simp
  then show ?thesis using c(1,2) by (simp add: w'_def ra_run_job_def split_beta Let_def)
qed

lemma take_evaluated:
  fixes draw st
  assumes "ra_live R w" and "set (ra_jobs w) \<subseteq> insert (MessageJob (evaluated_msg R d)) (set js)" and "ra_inv R (w\<lparr>ra_jobs := js\<rparr>)"
    and "ra_setting R" and "d < length (rr_data R)"
  defines "w' \<equiv> fst (ra_run_job (\<lambda>_. False) st draw (MessageJob (evaluated_msg R d)) (w\<lparr>ra_jobs := js\<rparr>))"
  shows "ra_live R w' \<and> ra_moved R w w' \<and> (\<exists>ds. ra_jobs w' = js @ map CommitJob ds)
    \<and> (d < ra_nextCache w \<longrightarrow> rc_state (ra_cache w' d) \<noteq> Evaluating)"
proof -
  let ?w = "w\<lparr>ra_jobs := js\<rparr>" and ?m = "rm_psi (evaluated_msg R d)"
  have m: "pm_taskID ?m = rr_task R" "pm_seq ?m = seqof d" "length (pm_data ?m) = length (rr_data R ! d)"
    using assms(4,5) wire_seqof [of d] by (simp_all add: evaluated_msg_def ra_setting_def oprf_evaluate_def oprf_blind_def)
  have w': "w' = fst (ra_handleEvaluateResponse ?m ?w)"
    by (simp add: w'_def ra_run_job_def run_message_def ra_packets)
  have l: "listed R ?w" "commits_due ?w" "computes_due R ?w" using live_take [OF assms(1,2)] by simp_all
  show ?thesis
  proof (cases "rcl_cache (rr_task R) (seqof d) ?w")
    case None
    then have "w' = ?w" using m by (simp add: w' ra_handleEvaluateResponse_def)
    moreover have "rc_state (ra_cache w d) = Synced" if "d < ra_nextCache w" using l(1) None that by (auto simp: listed_def)
    ultimately show ?thesis using l by (auto simp: ra_live_def)
  next
    case (Some x)
    have k: "ra_nextCache w \<le> length (rr_data R)" "ra_table_ok (ra_nextCache w) (ra_caches ?w)" "ra_oprf w = rr_box R"
      using assms(3) by (simp_all add: ra_inv_def Let_def)
    have d: "x = d" "d < ra_nextCache w" using cache_found [OF k(2) Some] assms(4,5) k(1) by (simp_all add: ra_setting_def)
    let ?c = "rc_finalize (ra_oprf ?w) (pm_data ?m) (ra_cache ?w d)"
    define v where "v = set_cache d ?c ?w"
    have c: "ra_cache_ok R d (ra_cache w d)" using assms(3) d by (simp add: ra_inv_def Let_def)
    have st: "rc_state ?c \<noteq> Evaluating" "rc_state (ra_cache w d) \<noteq> Evaluating \<Longrightarrow> ?c = ra_cache w d" "rc_state ?c = Synced \<longleftrightarrow> rc_state (ra_cache w d) = Synced"
      using c m(3) by (simp_all add: rc_finalize_def ra_cache_ok_def)
    have "unblinds R" using assms(4) by (simp add: ra_setting_def)
    from finalized_ok [OF c this assms(5)] have "ra_cache_ok R d ?c" by (simp add: k(3))
    then have v: "ra_inv R v" unfolding v_def using st(3) d by (intro inv_set_cache [OF assms(3)]) simp_all
    have lv: "listed R v" unfolding v_def using st(3) by (intro listed_set_cache [OF l(1)]) auto
    have mv: "ra_moved R ?w v" unfolding v_def using st by (intro moved_set_cache) auto
    have due: "ComputeJob y \<in> set (ra_jobs v)"
      if "fetched R v" "y < ra_nextCache v" "y \<noteq> d" "rc_state (ra_cache v y) = Finalized" for y
      using l(3) that by (simp add: v_def computes_due_def fetched_def)
    have dv: "d < ra_nextCache v" using d by (simp add: v_def)
    note r = compute_live [OF v dv lv due]
    have w2: "w' = checkAndStoreInterSectionResult (fst (rc_computeIntersection d v))"
      using Some d m by (simp add: w' ra_handleEvaluateResponse_def v_def Let_def split_beta)
    have mw: "ra_moved R w w'" unfolding w2 moved_store by (rule moved_trans [OF mv [unfolded moved_jobs] r(2)])
    moreover have "rc_state (ra_cache w' d) \<noteq> Evaluating"
      using r(2) st(1) dv unfolding w2 by (auto simp: ra_moved_def v_def)
    moreover have "\<exists>ds. ra_jobs w' = js @ map CommitJob ds"
      using store_jobs [of "fst (rc_computeIntersection d v)"] r(3) by (simp add: w2 v_def)
    moreover have "ra_live R w'" unfolding w2 by (rule r(1))
    ultimately show ?thesis by blast
  qed
qed

text \<open>All finalized batches get a job when a filter arrives.\<close>

lemma requests_due:
  assumes "listed R w"
  shows "computes_due R (rcl_computeIntersection w)" and "listed R (rcl_computeIntersection w)"
proof -
  have "ComputeJob d \<in> set (ra_jobs (rcl_computeIntersection w))" if "d < ra_nextCache w" "rc_state (ra_cache w d) = Finalized" for d
  proof -
    have "rcl_cache (rr_task R) (seqof d) w = Some d" using assms that by (simp add: listed_def)
    then obtain m where "(rr_task R, m) \<in> set (ra_caches w)" "(seqof d, d) \<in> set m"
      by (auto simp: rcl_cache_def caches_of_def dest: map_of_SomeD split: option.splits)
    then have "(seqof d, d) \<in> set (concat (map snd (ra_caches w)))" by force
    then show ?thesis using that(2) by (force simp: rcl_computeIntersection_def)
  qed
  then show "computes_due R (rcl_computeIntersection w)" by (simp add: computes_due_def rcl_computeIntersection_def)
  show "listed R (rcl_computeIntersection w)" using assms by (simp add: listed_def rcl_computeIntersection_def)
qed

lemma request_jobs: "\<exists>cs. ra_jobs (rcl_computeIntersection w) = ra_jobs w @ map ComputeJob cs"
  unfolding rcl_computeIntersection_def ra_frame map_map [symmetric] by blast

lemma take_filter:
  fixes draw st
  assumes "ra_live R w" and "set (ra_jobs w) \<subseteq> insert (MessageJob (filter_msg R k)) (set js)" and "ra_inv R (w\<lparr>ra_jobs := js\<rparr>)"
    and "ra_setting R" and "k < length (rr_filters R)"
  defines "w' \<equiv> fst (ra_run_job (\<lambda>_. False) st draw (MessageJob (filter_msg R k)) (w\<lparr>ra_jobs := js\<rparr>))"
  shows "ra_live R w' \<and> ra_moved R w w' \<and> (\<exists>cs ds. ra_jobs w' = js @ map ComputeJob cs @ map CommitJob ds)
    \<and> int (k + 1) \<in> fs_receivedCuckooFilter (got R w') \<and> fs_cuckooFilterSize (got R w') \<noteq> - 1"
proof -
  let ?w = "w\<lparr>ra_jobs := js\<rparr>"
  obtain s c where s: "map_of (ra_states ?w) (rr_resource R) = Some s"
    and e: "fst (handleCuckooFilterResponse (\<lambda>_. False) (st_load st) (filter_msg R k) ?w) =
      checkAndStoreInterSectionResult (rcl_computeIntersection (filter_world R k s c ?w))"
    using filter_arrives [OF assms(3-5)] by metis
  define v where "v = filter_world R k s c ?w"
  have w': "w' = checkAndStoreInterSectionResult (rcl_computeIntersection v)"
    unfolding v_def e [symmetric] by (simp add: w'_def ra_run_job_def run_message_def ra_packets)
  have same: "ra_nextCache v = ra_nextCache w" "ra_cache v = ra_cache w" "psi_heap v = psi_heap w" "ra_jobs v = js"
    "rcl_cache t q v = rcl_cache t q w" "psi_getTaskByID t v = psi_getTaskByID t w" "psi_started v = psi_started w"
    "ra_disabled v = ra_disabled w" for t q
    by (simp_all add: v_def filter_world_def set_filter_state_def rcl_cache_def caches_of_def psi_getTaskByID_def Let_def)
  have "listed R v" using live_take(1) [OF assms(1,2)] same by (simp add: listed_def)
  from live_store [OF requests_due(2,1) [OF this]] have live: "ra_live R w'" by (simp add: w')
  have "got R w = s" using s by (simp add: got_def)
  moreover have "got R v = appendCuckooFilterInfo (seqof k) (rr_filters R ! k) (setCuckooFilterSize (int (length (rr_filters R))) s)"
    by (simp add: got_def v_def filter_world_def set_filter_state_def map_of_smap_put Let_def)
  moreover have "sint (seqof k) = int (k + 1)" using assms(4,5) by (intro sint_seqof) (simp add: ra_setting_def)
  ultimately have g: "fs_receivedCuckooFilter (got R v) = insert (int (k + 1)) (fs_receivedCuckooFilter (got R w))"
    "fs_cuckooFilterSize (got R v) = int (length (rr_filters R))"
    by (simp_all add: appendCuckooFilterInfo_def setCuckooFilterSize_def Let_def)
  have "ra_moved R w v" using same g by (auto simp: ra_moved_def)
  then have "ra_moved R w w'" by (simp add: w' rcl_computeIntersection_def)
  moreover have "got R w' = got R v" by (simp add: got_def w' rcl_computeIntersection_def)
  moreover have "\<exists>cs ds. ra_jobs w' = js @ map ComputeJob cs @ map CommitJob ds"
  proof -
    obtain ds where "ra_jobs w' = ra_jobs (rcl_computeIntersection v) @ map CommitJob ds" unfolding w' using store_jobs by blast
    moreover obtain cs where "ra_jobs (rcl_computeIntersection v) = js @ map ComputeJob cs"
      using request_jobs [of v] same(4) by auto
    ultimately show ?thesis by (metis append_assoc)
  qed
  ultimately show ?thesis using live g by simp
qed

lemma take_commit:
  fixes draw st
  assumes "ra_live R w" and "set (ra_jobs w) \<subseteq> insert (CommitJob d) (set js)" and "ra_inv R (w\<lparr>ra_jobs := js\<rparr>)" and "d < ra_nextCache w"
  defines "w' \<equiv> fst (ra_run_job (\<lambda>_. False) st draw (CommitJob d) (w\<lparr>ra_jobs := js\<rparr>))"
  shows "ra_live R w' \<and> ra_moved R w w' \<and> ra_nextCache w' = ra_nextCache w
    \<and> (ra_jobs w' = js \<or> rc_state (ra_cache w d) \<noteq> Synced \<and> rc_state (ra_cache w' d) = Synced \<and> (\<exists>ds. ra_jobs w' = js @ map CommitJob ds))"
proof (cases "rc_state (ra_cache w d) = Intersectioned")
  case False
  then have w': "w' = w\<lparr>ra_jobs := js\<rparr>" by (simp add: w'_def ra_run_job_def commitPSIResult_def rc_storePSIResult_def Let_def)
  have "commits_due (w\<lparr>ra_jobs := js\<rparr>)" using assms(1,2) False by (auto simp: ra_live_def commits_due_def)
  then have "ra_live R w'" using live_take(1,3) [OF assms(1,2)] by (simp add: w' ra_live_def)
  then show ?thesis by (simp add: w')
next
  case True
  let ?w = "w\<lparr>ra_jobs := js\<rparr>" and ?c = "ra_cache w d"
  have t: "ra_task_inv R (ra_nextCache w) (ra_cache w) (psi_heap w (rr_addr R))" "ra_cache_ok R d ?c"
    using assms(3,4) by (simp_all add: ra_inv_def Let_def)
  define s1 where "s1 = fst (ts_storePSIResult (\<lambda>_. False) (rc_intersectionData ?c) (psi_heap w (rr_addr R)))"
  define s2 where "s2 = s1\<lparr>ts_seqList := ts_seqList (psi_heap w (rr_addr R)) - {rc_seq ?c}, ts_successCount := ts_successCount (psi_heap w (rr_addr R)) + 1\<rparr>"
  define v where "v = set_cache d (?c\<lparr>rc_state := Synced\<rparr>) (set_task (rr_addr R) s2 ?w)"
  have w': "w' = checkAndStoreInterSectionResult v"
    using commit_fields [of ?w d ?c "rr_addr R"] t True assms(4)
    by (simp add: w'_def ra_run_job_def v_def s2_def s1_def ra_cache_ok_def ra_task_inv_def)
  have l: "listed R ?w" "computes_due R ?w" using live_take(1,3) [OF assms(1,2)] by simp_all
  have "listed R (set_task (rr_addr R) s2 ?w)" using l(1) by (simp add: listed_def)
  then have lv: "listed R v" unfolding v_def by (intro listed_set_cache) simp_all
  have "computes_due R v" using l(2) by (simp add: v_def computes_due_def fetched_def)
  from live_store [OF lv this] have live: "ra_live R w'" by (simp add: w')
  have "ts_finished s2 = ts_finished (psi_heap w (rr_addr R))" by (simp add: s2_def s1_def store_quiet tryToGenerateDefaultOutputDesc_def Let_def)
  then have "ra_moved R w v" using True by (auto simp: v_def ra_moved_def got_def)
  moreover have "\<exists>ds. ra_jobs w' = js @ map CommitJob ds" using store_jobs [of v] by (simp add: w' v_def)
  moreover have "ra_nextCache w' = ra_nextCache w" "rc_state (ra_cache w' d) = Synced" by (simp_all add: w' v_def)
  ultimately show ?thesis using live True by (simp add: w')
qed

text \<open>Blinding adds batches that wait for their answers.\<close>

lemma insert_fields:
  assumes "rcl_insertCache r t a q plain key w = ((True, Some d), w2)"
  shows "d = ra_nextCache w" and "ra_nextCache w2 = d + 1" and "psi_heap w2 = psi_heap w"
    and "\<exists>c. rc_state c = Evaluating \<and> ra_cache w2 = (ra_cache w)(d := c)"
    and "ra_states w2 = ra_states w" and "ra_jobs w2 = ra_jobs w" and "psi_getTaskByID t' w2 = psi_getTaskByID t' w"
    and "psi_started w2 = psi_started w" and "ra_disabled w2 = ra_disabled w"
    and "rcl_cache t q' w2 = (if q' = q then Some d else rcl_cache t q' w)"
proof -
  obtain fs where w: "d = ra_nextCache w" "w2 = set_cache d (new_RA2018PSIClientCache fs t a q plain key)
      (w\<lparr>ra_nextCache := d + 1, ra_capacity := ra_capacity w + batch_bytes plain,
         ra_caches := smap_put t (smap_put q d (caches_of t w)) (ra_caches w)\<rparr>)"
    using assms by (auto simp: rcl_insertCache_def Let_def split: if_splits option.splits)
  show "\<exists>c. rc_state c = Evaluating \<and> ra_cache w2 = (ra_cache w)(d := c)"
    by (intro exI [of _ "new_RA2018PSIClientCache fs t a q plain key"]) (simp add: w(2) new_RA2018PSIClientCache_def)
  show "rcl_cache t q' w2 = (if q' = q then Some d else rcl_cache t q' w)"
    by (simp add: w(2) rcl_cache_def caches_of_def map_of_smap_put)
  show "psi_getTaskByID t' w2 = psi_getTaskByID t' w" by (simp add: w(2) psi_getTaskByID_def set_cache_def)
qed (use assms in \<open>auto simp: rcl_insertCache_def set_cache_def Let_def split: if_splits option.splits\<close>)

lemma live_insert:
  fixes w :: ra
  assumes "ra_live R w" and "rcl_insertCache r (rr_task R) a (seqof k) plain key w = ((True, Some k), w2)" and "k < 2 ^ 16"
  shows "ra_live R w2" and "(\<forall>d < ra_nextCache w. ra_cache w2 d = ra_cache w d)"
proof -
  note f = insert_fields [OF assms(2)]
  obtain c where c: "rc_state c = Evaluating" "ra_cache w2 = (ra_cache w)(k := c)" using f(4) by blast
  show same: "\<forall>d < ra_nextCache w. ra_cache w2 d = ra_cache w d" using c(2) f(1) by simp
  have "rcl_cache (rr_task R) (seqof d) w2 = Some d" if "d < k + 1" "rc_state (ra_cache w2 d) \<noteq> Synced" for d
  proof (cases "d = k")
    case False
    then have "seqof d \<noteq> seqof k" using that(1) assms(3) seqof_inj [of d k] by simp
    then show ?thesis using False that assms(1) f(1,10) c(2) by (simp add: ra_live_def listed_def)
  qed (use f(10) in simp)
  then have "listed R w2" using assms(1) f(2,7-9) by (simp add: ra_live_def listed_def)
  moreover have "commits_due w2" "computes_due R w2"
    using assms(1) f(1,2,5,6) c by (auto simp: ra_live_def commits_due_def computes_due_def fetched_def less_Suc_eq)
  ultimately show "ra_live R w2" by (simp add: ra_live_def)
qed

lemma live_blind_loop:
  fixes w :: ra and throws
  assumes "ra_inv R w" and "ra_setting R" and "\<not> ts_finished (psi_heap w (rr_addr R))" and "batches = drop (ra_nextCache w) (rr_data R)"
    and "ra_live R w"
  defines "w' v bs \<equiv> fst (ra_blind_loop throws (rr_draw R) (rr_resource R) (rr_addr R) bs v)"
  shows "ra_live R (w' w batches)"
  using assms(1-5)
proof (induction batches arbitrary: w)
  case Nil
  then show ?case by (simp add: w'_def ra_live_def listed_def commits_due_def computes_due_def fetched_def)
next
  case (Cons batch rest)
  let ?k = "ra_nextCache w" and ?s = "psi_heap w (rr_addr R)"
  have k: "?k < length (rr_data R)" using Cons.prems(4) by (metis drop_eq_Nil linorder_not_le list.distinct(1))
  then have b: "batch = rr_data R ! ?k" "rest = drop (?k + 1) (rr_data R)" using Cons.prems(4) by (simp_all add: Cons_nth_drop_Suc [symmetric])
  have t: "tk_id (ts_task ?s) = rr_task R" "\<not> ts_sqlReader ?s" "ts_currentSeq ?s = of_nat ?k"
    using Cons.prems(1) by (simp_all add: ra_inv_def Let_def ra_task_inv_def)
  have q: "fst (allocateSeq ?s) = seqof ?k" using t(3) by (simp add: allocateSeq_def Let_def seqof_def add.commute)
  define w1 where "w1 = (set_task (rr_addr R) (snd (allocateSeq ?s)) w)\<lparr>ra_reader := (ra_reader w)(rr_addr R := drop (?k + 1) (rr_data R))\<rparr>"
  obtain w2 where w2: "rcl_insertCache (rr_resource R) (rr_task R) (rr_addr R) (seqof ?k) (rr_data R ! ?k) (rr_draw R (seqof ?k)) w1
      = ((True, Some ?k), w2)" "ra_inv R w2"
    using inv_insert [OF Cons.prems(1,2) k Cons.prems(3)] unfolding w1_def by blast
  have "ra_live R w1" using Cons.prems(5)
    by (simp add: w1_def ra_live_def listed_def commits_due_def computes_due_def fetched_def rcl_cache_def caches_of_def psi_getTaskByID_def set_task_def)
  then have l2: "ra_live R w2" using live_insert(1) [OF _ w2(1)] k Cons.prems(2) by (simp add: ra_setting_def)
  note ins = insert_fields [OF w2(1)]
  have "ra_live R (w' w2 rest)"
    by (rule Cons.IH [OF w2(2) Cons.prems(2) _ _ l2]) (use ins(1-3) Cons.prems(3) b in \<open>simp_all add: w1_def allocateSeq_def Let_def\<close>)
  then show ?case
    using w2(1) t q b l2 unfolding w'_def by (simp add: w1_def split_beta Let_def)
qed

lemma live_worker: "ra_live R w \<Longrightarrow> ra_live R (ra_worker a w)"
  by (auto simp: ra_worker_def ra_blindData_def live_add split: list.splits)

lemma moved_worker: "ra_moved R w (ra_worker a w)"
  by (auto simp: ra_worker_def ra_blindData_def split: list.splits)

lemma message_added:
  assumes "ra_live R w" and "\<And>k. ra_job_ok R k (MessageJob m)" and "pm_taskID (rm_psi m) = rr_task R"
    and "pm_packetType (rm_psi m) = RA_CuckooFilterResponse \<or> pm_packetType (rm_psi m) = RA_EvaluateResponse"
  shows "fst (ra_handlePSIMsg throws pendingTime m w) = add_jobs [MessageJob m] w"
proof -
  have "handlePSIFrameworkMsg f g throws pendingTime (rm_psi m) w = None" for f g
    using assms(4) by (auto simp: handlePSIFrameworkMsg_def packet_types ra_packets)
  then show ?thesis using assms(1,3) by (auto simp: ra_handlePSIMsg_def checkPSIMsg_def Let_def ra_live_def listed_def)
qed

section \<open>Every step\<close>

lemma rest_jobs: "i < length xs \<Longrightarrow> set xs \<subseteq> insert (xs ! i) (set (take i xs @ drop (i + 1) xs))"
  using set_remove_nth by fastforce

lemma count_rest:
  assumes "i < length xs"
  shows "length (filter P xs) = (if P (xs ! i) then 1 else 0) + length (filter P (take i xs @ drop (i + 1) xs))"
  using assms by (subst (1) id_take_nth_drop [OF assms]) simp

lemma live_blind_job:
  fixes w :: ra
  assumes "ra_inv R w" and "ra_setting R" and "ra_live R w" and "ra_job_ok R k (BlindJob r a)"
  shows "ra_live R (fst (ra_run_job throws st (rr_draw R) (BlindJob r a) w))"
    and "ts_finished (psi_heap w (rr_addr R)) \<Longrightarrow> fst (ra_run_job throws st (rr_draw R) (BlindJob r a) w) = w"
proof -
  have "ra_reader w (rr_addr R) = drop (ra_nextCache w) (rr_data R)" using assms(1) by (simp add: ra_inv_def Let_def)
  then show "ra_live R (fst (ra_run_job throws st (rr_draw R) (BlindJob r a) w))"
    using live_blind_loop [OF assms(1,2) _ _ assms(3)] assms(3,4) by (simp add: ra_run_job_def run_blind_def)
  show "ts_finished (psi_heap w (rr_addr R)) \<Longrightarrow> fst (ra_run_job throws st (rr_draw R) (BlindJob r a) w) = w"
    using assms(4) by (simp add: ra_run_job_def run_blind_def)
qed

text \<open>The messages that must arrive; one that waits in the pool counts as arrived.\<close>

definition ra_deliveries :: "ra_run \<Rightarrow> ra_event set" where
  "ra_deliveries R = FilterArrives ` {..<length (rr_filters R)} \<union> EvaluatedArrives ` {..<length (rr_data R)}"

fun ra_arrived :: "ra_run \<Rightarrow> ra \<Rightarrow> ra_event \<Rightarrow> bool" where
  "ra_arrived R w (FilterArrives k) \<longleftrightarrow> MessageJob (filter_msg R k) \<in> set (ra_jobs w) \<or>
     int (k + 1) \<in> fs_receivedCuckooFilter (got R w) \<and> fs_cuckooFilterSize (got R w) \<noteq> - 1"
| "ra_arrived R w (EvaluatedArrives d) \<longleftrightarrow> MessageJob (evaluated_msg R d) \<in> set (ra_jobs w) \<or> rc_state (ra_cache w d) \<noteq> Evaluating"
| "ra_arrived R w _ \<longleftrightarrow> True"

definition is_message :: "ra_job \<Rightarrow> bool" where "is_message j \<longleftrightarrow> (\<exists>m. j = MessageJob m)"
definition is_commit :: "ra_job \<Rightarrow> bool" where "is_commit j \<longleftrightarrow> (\<exists>d. j = CommitJob d)"

definition ra_weight :: "ra \<Rightarrow> nat \<times> nat \<times> nat \<times> nat" where
  "ra_weight w =
     (card {d. d < ra_nextCache w \<and> rc_state (ra_cache w d) \<noteq> Synced}, length (filter is_message (ra_jobs w)),
      length (filter (\<lambda>j. \<not> is_message j \<and> \<not> is_commit j) (ra_jobs w)), length (filter is_commit (ra_jobs w)))"

definition lighter :: "(ra \<times> ra) set" where
  "lighter = inv_image (less_than <*lex*> less_than <*lex*> less_than <*lex*> less_than) ra_weight"

lemma wf_lighter: "wf lighter"
  by (simp add: lighter_def wf_inv_image wf_lex_prod)

lemma kinds [simp]:
  "is_message (MessageJob m)" "\<not> is_message (CommitJob d)" "\<not> is_message (ComputeJob d)" "\<not> is_message (BlindJob r a)"
  "is_commit (CommitJob d)" "\<not> is_commit (MessageJob m)" "\<not> is_commit (ComputeJob d)" "\<not> is_commit (BlindJob r a)"
  by (simp_all add: is_message_def is_commit_def)

lemma kinds_map [simp]:
  "filter is_message (map CommitJob ds) = []" "filter is_message (map ComputeJob ds) = []"
  "filter (\<lambda>j. \<not> is_message j \<and> \<not> is_commit j) (map CommitJob ds) = []"
  by (simp_all add: filter_map comp_def)

lemma unsynced_le:
  assumes "ra_moved R w w'" and "ra_nextCache w' = ra_nextCache w"
  shows "{d. d < ra_nextCache w' \<and> rc_state (ra_cache w' d) \<noteq> Synced} \<subseteq> {d. d < ra_nextCache w \<and> rc_state (ra_cache w d) \<noteq> Synced}"
  using assms by (auto simp: ra_moved_def)

text \<open>What running a job does once all batches were read.\<close>

lemma pool_step:
  fixes st
  assumes "ra_inv R w" and "ra_setting R" and "ra_live R w" and "ts_finished (psi_heap w (rr_addr R))" and "i < length (ra_jobs w)"
  defines "w' \<equiv> fst (ra_pool (\<lambda>_. False) st (rr_draw R) i w)"
  defines "js \<equiv> take i (ra_jobs w) @ drop (i + 1) (ra_jobs w)"
  shows "ra_live R w' \<and> ra_moved R w w' \<and> set js \<subseteq> set (ra_jobs w')
    \<and> (\<forall>e. ra_arrived R w e \<and> (e \<in> ra_deliveries R) \<longrightarrow> ra_arrived R w' e) \<and> (w', w) \<in> lighter"
proof -
  let ?j = "ra_jobs w ! i" and ?w = "w\<lparr>ra_jobs := js\<rparr>"
  have sub: "set (ra_jobs w) \<subseteq> insert ?j (set js)" "set js \<subseteq> set (ra_jobs w)"
    using rest_jobs [OF assms(5)] set_remove_nth [OF assms(5)] by (auto simp: js_def)
  have w': "w' = fst (ra_run_job (\<lambda>_. False) st (rr_draw R) ?j ?w)" using assms(5) by (simp add: w'_def ra_pool_def js_def)
  have inv: "ra_inv R ?w" using sub(2) by (intro inv_jobs [OF assms(1)]) blast
  have ok: "ra_job_ok R (ra_nextCache w) ?j" using assms(1,5) by (simp add: ra_inv_def Let_def)
  have k: "ra_nextCache w = length (rr_data R)" using assms(1,4) by (simp add: ra_inv_def ra_task_inv_def Let_def)
  have "ra_inv R w'" unfolding w' using inv_run_job [OF inv assms(2)] ok by simp
  then have k': "ra_nextCache w' = ra_nextCache w" if "ra_moved R w w'"
    using that k assms(4) by (simp add: ra_inv_def ra_task_inv_def Let_def ra_moved_def)
  note n = count_rest [OF assms(5), folded js_def]
  have fa: "ra_arrived R w' (FilterArrives x)" if "x < length (rr_filters R)" "?j = MessageJob (filter_msg R x)" for x
    unfolding w' that(2) ra_arrived.simps
    by (rule disjI2, rule take_filter [OF assms(3) sub(1) [unfolded that(2)] inv assms(2) that(1),
        THEN conjunct2, THEN conjunct2, THEN conjunct2])
  have ea: "ra_arrived R w' (EvaluatedArrives d)" if "d < length (rr_data R)" "?j = MessageJob (evaluated_msg R d)" for d
    unfolding w' that(2) ra_arrived.simps
    by (rule disjI2, rule take_evaluated [OF assms(3) sub(1) [unfolded that(2)] inv assms(2) that(1),
        THEN conjunct2, THEN conjunct2, THEN conjunct2, THEN mp]) (use that(1) k in simp)
  have stays: "\<forall>e. ra_arrived R w e \<and> e \<in> ra_deliveries R \<longrightarrow> ra_arrived R w' e" if "ra_moved R w w'" "set js \<subseteq> set (ra_jobs w')"
  proof (intro allI impI, elim conjE)
    fix e assume e: "ra_arrived R w e" "e \<in> ra_deliveries R"
    then show "ra_arrived R w' e"
    proof (cases e)
      case (FilterArrives x)
      then show ?thesis using e that sub(1) fa [of x] by (auto simp: ra_moved_def ra_deliveries_def)
    next
      case (EvaluatedArrives d)
      then have d: "d < length (rr_data R)" using e(2) by (auto simp: ra_deliveries_def)
      have m: "rc_state (ra_cache w' d) \<noteq> Evaluating" if "rc_state (ra_cache w d) \<noteq> Evaluating"
        using \<open>ra_moved R w w'\<close> that d k by (simp add: ra_moved_def) blast
      consider "?j = MessageJob (evaluated_msg R d)" | "MessageJob (evaluated_msg R d) \<in> set js" | "rc_state (ra_cache w d) \<noteq> Evaluating"
        using e(1) subsetD [OF sub(1), of "MessageJob (evaluated_msg R d)"] by (fastforce simp: EvaluatedArrives)
      then show ?thesis
      proof cases
        case 1
        then show ?thesis using ea [OF d] EvaluatedArrives by simp
      next
        case 2
        then show ?thesis using that(2) unfolding EvaluatedArrives ra_arrived.simps by blast
      qed (simp add: EvaluatedArrives m)
    qed simp_all
  qed
  have smaller: "(w', w) \<in> lighter"
    if "ra_moved R w w'" "ra_jobs w' = js @ map ComputeJob cs @ map CommitJob ds"
      "is_message ?j \<or> cs = [] \<and> \<not> is_commit ?j \<or> cs = [] \<and> ds = []" for cs ds
  proof -
    have "card {d. d < ra_nextCache w' \<and> rc_state (ra_cache w' d) \<noteq> Synced} \<le> card {d. d < ra_nextCache w \<and> rc_state (ra_cache w d) \<noteq> Synced}"
      by (intro card_mono unsynced_le [OF that(1) k' [OF that(1)]]) simp
    then show ?thesis using that(2,3) n [of is_message] n [of is_commit] n [of "\<lambda>j. \<not> is_message j \<and> \<not> is_commit j"]
      by (auto simp: lighter_def ra_weight_def is_message_def is_commit_def)
  qed
  show ?thesis
  proof (cases ?j)
    case (BlindJob r a)
    have "ra_live R ?w" using live_take [OF assms(3) sub(1)] BlindJob by (simp add: ra_live_def)
    then have "w' = ?w" using live_blind_job(2) [OF inv assms(2)] ok assms(4) BlindJob by (simp add: w')
    moreover have "(w', w) \<in> lighter" by (rule smaller [of "[]" "[]"]) (simp_all add: \<open>w' = ?w\<close>)
    ultimately show ?thesis using \<open>ra_live R ?w\<close> stays BlindJob by simp
  next
    case (ComputeJob d)
    obtain ds where r: "ra_live R w'" "ra_moved R w w'" "ra_jobs w' = js @ map CommitJob ds"
      using take_compute [OF assms(3) sub(1) [unfolded ComputeJob] inv, of st "rr_draw R"] ok unfolding w' ComputeJob by auto
    moreover have "(w', w) \<in> lighter" by (rule smaller [of "[]" ds]) (use r ComputeJob in simp_all)
    ultimately show ?thesis using stays ComputeJob by simp
  next
    case (MessageJob m)
    then consider x where "x < length (rr_filters R)" "?j = MessageJob (filter_msg R x)"
      | d where "d < length (rr_data R)" "?j = MessageJob (evaluated_msg R d)"
      using ok by auto
    then show ?thesis
    proof cases
      case 1
      obtain cs ds where r: "ra_live R w'" "ra_moved R w w'" "ra_jobs w' = js @ map ComputeJob cs @ map CommitJob ds"
        using take_filter [OF assms(3) sub(1) [unfolded 1(2)] inv assms(2) 1(1), of st "rr_draw R"] unfolding w' 1(2) by blast
      have "(w', w) \<in> lighter" by (rule smaller [OF r(2,3)]) (use 1 in simp)
      then show ?thesis using r stays by simp
    next
      case 2
      obtain ds where r: "ra_live R w'" "ra_moved R w w'" "ra_jobs w' = js @ map CommitJob ds"
        using take_evaluated [OF assms(3) sub(1) [unfolded 2(2)] inv assms(2) 2(1), of st "rr_draw R"] unfolding w' 2(2) by blast
      have "(w', w) \<in> lighter" by (rule smaller [of "[]" ds]) (use r 2 in simp_all)
      then show ?thesis using r stays by simp
    qed
  next
    case (CommitJob d)
    have r: "ra_live R w'" "ra_moved R w w'" "ra_nextCache w' = ra_nextCache w" "ra_jobs w' = js \<or>
      rc_state (ra_cache w d) \<noteq> Synced \<and> rc_state (ra_cache w' d) = Synced \<and> (\<exists>ds. ra_jobs w' = js @ map CommitJob ds)"
      using take_commit [OF assms(3) sub(1) [unfolded CommitJob] inv, of st "rr_draw R"] ok unfolding w' CommitJob by auto
    have "(w', w) \<in> lighter"
    proof (cases "ra_jobs w' = js")
      case True
      then show ?thesis using r(2) by (intro smaller [of "[]" "[]"]) simp_all
    next
      case False
      then have "d \<in> {d. d < ra_nextCache w \<and> rc_state (ra_cache w d) \<noteq> Synced}" "d \<notin> {d. d < ra_nextCache w' \<and> rc_state (ra_cache w' d) \<noteq> Synced}"
        using r(4) ok CommitJob by auto
      then have "{d. d < ra_nextCache w' \<and> rc_state (ra_cache w' d) \<noteq> Synced} \<subset> {d. d < ra_nextCache w \<and> rc_state (ra_cache w d) \<noteq> Synced}"
        using unsynced_le [OF r(2,3)] by blast
      then show ?thesis by (auto simp: lighter_def ra_weight_def intro: psubset_card_mono)
    qed
    moreover have "set js \<subseteq> set (ra_jobs w')" using r(4) by auto
    ultimately show ?thesis using r(1,2) stays CommitJob by simp
  qed (use ok in simp)
qed

lemma take_live:
  assumes "ra_inv R w" and "ra_setting R" and "ra_live R w" and "i < length (ra_jobs w)"
  shows "ra_live R (fst (ra_pool (\<lambda>_. False) st (rr_draw R) i w))"
proof -
  define js where "js = take i (ra_jobs w) @ drop (i + 1) (ra_jobs w)"
  let ?j = "ra_jobs w ! i" and ?w = "w\<lparr>ra_jobs := js\<rparr>"
  have sub: "set (ra_jobs w) \<subseteq> insert ?j (set js)" "set js \<subseteq> set (ra_jobs w)"
    using rest_jobs [OF assms(4)] set_remove_nth [OF assms(4)] by (auto simp: js_def)
  have w': "fst (ra_pool (\<lambda>_. False) st (rr_draw R) i w) = fst (ra_run_job (\<lambda>_. False) st (rr_draw R) ?j ?w)"
    using assms(4) by (simp add: ra_pool_def js_def)
  have inv: "ra_inv R ?w" using sub(2) by (intro inv_jobs [OF assms(1)]) blast
  have ok: "ra_job_ok R (ra_nextCache w) ?j" using assms(1,4) by (simp add: ra_inv_def Let_def)
  show ?thesis
  proof (cases ?j)
    case (BlindJob r a)
    have "ra_live R ?w" using live_take [OF assms(3) sub(1)] BlindJob by (simp add: ra_live_def)
    from live_blind_job(1) [OF inv assms(2) this] ok show ?thesis unfolding w' BlindJob by blast
  next
    case (ComputeJob d)
    show ?thesis using take_compute [OF assms(3) sub(1) [unfolded ComputeJob] inv] ok unfolding w' ComputeJob ra_job_ok.simps by blast
  next
    case (CommitJob d)
    show ?thesis using take_commit [OF assms(3) sub(1) [unfolded CommitJob] inv] ok unfolding w' CommitJob ra_job_ok.simps by blast
  next
    case (MessageJob m)
    then consider x where "x < length (rr_filters R)" "?j = MessageJob (filter_msg R x)"
      | d where "d < length (rr_data R)" "?j = MessageJob (evaluated_msg R d)"
      using ok by auto
    then show ?thesis
    proof cases
      case 1
      show ?thesis unfolding w' 1(2) by (rule take_filter [OF assms(3) sub(1) [unfolded 1(2)] inv assms(2) 1(1), THEN conjunct1])
    next
      case 2
      show ?thesis unfolding w' 2(2) by (rule take_evaluated [OF assms(3) sub(1) [unfolded 2(2)] inv assms(2) 2(1), THEN conjunct1])
    qed
  qed (use ok in simp)
qed

lemma delivered:
  assumes "ra_live R w"
  shows "k < length (rr_filters R) \<Longrightarrow> fst (ra_step R st (FilterArrives k) w) = add_jobs [MessageJob (filter_msg R k)] w"
    and "d < length (rr_data R) \<Longrightarrow> fst (ra_step R st (EvaluatedArrives d) w) = add_jobs [MessageJob (evaluated_msg R d)] w"
proof -
  have t: "pm_taskID (rm_psi (filter_msg R k)) = rr_task R" "pm_taskID (rm_psi (evaluated_msg R d)) = rr_task R"
    by (simp_all add: filter_msg_def evaluated_msg_def)
  show "fst (ra_step R st (FilterArrives k) w) = add_jobs [MessageJob (filter_msg R k)] w" if "k < length (rr_filters R)"
    using that message_added [OF assms _ t(1)] by auto
  show "fst (ra_step R st (EvaluatedArrives d) w) = add_jobs [MessageJob (evaluated_msg R d)] w" if "d < length (rr_data R)"
    using that message_added [OF assms _ t(2)] by auto
qed

lemma ra_step_live:
  assumes "ra_inv R w" and "ra_setting R" and "ra_live R w"
  shows "ra_live R (fst (ra_step R st e w))"
proof (cases e)
  case (FilterArrives k)
  show ?thesis
    by (cases "k < length (rr_filters R)") (use FilterArrives delivered(1) [OF assms(3)] live_add [OF assms(3)] assms(3) in simp_all)
next
  case (EvaluatedArrives d)
  show ?thesis
    by (cases "d < length (rr_data R)") (use EvaluatedArrives delivered(2) [OF assms(3)] live_add [OF assms(3)] assms(3) in simp_all)
next
  case Worker
  then show ?thesis using live_worker [OF assms(3)] by simp
next
  case (Pool i)
  show ?thesis by (cases "i < length (ra_jobs w)") (use Pool take_live [OF assms] assms(3) in \<open>simp_all add: ra_pool_def\<close>)
qed

text \<open>Once all batches were read, an event loses nothing that has arrived, and a delivery arrives.\<close>

lemma arrived_add: "ra_arrived R w e \<Longrightarrow> ra_arrived R (add_jobs js w) e"
  by (cases e) (auto simp: got_def)

lemma ra_step_arrives:
  fixes x st
  assumes "ra_inv R w" and "ra_setting R" and "ra_live R w" and "ts_finished (psi_heap w (rr_addr R))"
  defines "w' \<equiv> fst (ra_step R st x w)"
  shows "ts_finished (psi_heap w' (rr_addr R)) \<and> (\<forall>e \<in> ra_deliveries R. ra_arrived R w e \<or> e = x \<longrightarrow> ra_arrived R w' e)"
proof (cases x)
  case (FilterArrives k)
  show ?thesis
  proof (cases "k < length (rr_filters R)")
    case True
    then have "w' = add_jobs [MessageJob (filter_msg R k)] w" using FilterArrives delivered(1) [OF assms(3)] unfolding w'_def by blast
    then show ?thesis using assms(4) FilterArrives by (auto simp: arrived_add)
  qed (use FilterArrives assms(4) in \<open>auto simp: w'_def ra_deliveries_def\<close>)
next
  case (EvaluatedArrives d)
  show ?thesis
  proof (cases "d < length (rr_data R)")
    case True
    then have "w' = add_jobs [MessageJob (evaluated_msg R d)] w" using EvaluatedArrives delivered(2) [OF assms(3)] unfolding w'_def by blast
    then show ?thesis using assms(4) EvaluatedArrives by (auto simp: arrived_add)
  qed (use EvaluatedArrives assms(4) in \<open>auto simp: w'_def ra_deliveries_def\<close>)
next
  case Worker
  have "w' = w \<or> w' = add_jobs [BlindJob (ra_peer_resource p) (rr_addr R)] w" if "tk_peerParties (task_at w (rr_addr R)) = [(g, p)]" for g p
    using that by (simp add: w'_def Worker ra_worker_def ra_blindData_def)
  moreover obtain g p where "tk_peerParties (task_at w (rr_addr R)) = [(g, p)]"
    using assms(1) by (auto simp: ra_inv_def Let_def ra_task_inv_def peer_ok_def task_at_def)
  ultimately consider "w' = w" | g p where "w' = add_jobs [BlindJob (ra_peer_resource p) (rr_addr R)] w" by blast
  then show ?thesis by cases (use assms(4) Worker in \<open>auto simp: ra_deliveries_def arrived_add\<close>)
next
  case (Pool i)
  show ?thesis
  proof (cases "i < length (ra_jobs w)")
    case True
    have "w' = fst (ra_pool (\<lambda>_. False) st (rr_draw R) i w)" by (simp add: w'_def Pool)
    note p = pool_step [OF assms(1-4) True, of st, folded this]
    then show ?thesis using assms(4) Pool by (auto simp: ra_moved_def ra_deliveries_def)
  qed (use Pool assms(4) in \<open>auto simp: w'_def ra_pool_def ra_deliveries_def\<close>)
qed

definition underway :: "ra_run \<Rightarrow> ra \<Rightarrow> bool" where
  "underway R w \<longleftrightarrow> ra_inv R w \<and> ra_live R w"

lemma underway_step: "ra_setting R \<Longrightarrow> underway R w \<Longrightarrow> underway R (fst (ra_step R st e w))"
  by (simp add: underway_def ra_step_inv ra_step_live del: ra_step.simps)

lemma underway_run: "ra_setting R \<Longrightarrow> underway R w \<Longrightarrow> underway R (fst (run_steps (ra_step R st) es w))"
  by (rule run_steps_inv [where P = "underway R"]) (use underway_step in blast)+

lemma ra_run_arrives:
  fixes st
  assumes "ra_setting R" and "underway R w" and "ts_finished (psi_heap w (rr_addr R))"
  defines "w' v es \<equiv> fst (run_steps (ra_step R st) es v)"
  shows "ts_finished (psi_heap (w' w es) (rr_addr R)) \<and>
    (\<forall>e \<in> ra_deliveries R. ra_arrived R w e \<or> e \<in> set es \<longrightarrow> ra_arrived R (w' w es) e)"
  using assms(2,3)
proof (induction es arbitrary: w)
  case (Cons x es)
  let ?w = "fst (ra_step R st x w)"
  have u: "underway R ?w" by (rule underway_step [OF assms(1) Cons.prems(1)])
  note s = ra_step_arrives [OF _ assms(1) _ Cons.prems(2), of st x]
  have s: "ts_finished (psi_heap ?w (rr_addr R))" "\<forall>e \<in> ra_deliveries R. ra_arrived R w e \<or> e = x \<longrightarrow> ra_arrived R ?w e"
    using s Cons.prems(1) unfolding underway_def by blast+
  have "w' w (x # es) = w' ?w es" by (simp add: w'_def run_steps_Cons del: run_steps.simps ra_step.simps)
  then show ?case using Cons.IH [OF u s(1)] s(2) by auto
qed (simp add: w'_def)

lemma ra_drain:
  assumes "ra_setting R" and "underway R w" and "ts_finished (psi_heap w (rr_addr R))"
  shows "\<exists>n. ra_jobs (fst (run_steps (ra_step R st) (replicate n (Pool 0)) w)) = []"
  using assms(2,3)
proof (induction w rule: wf_induct_rule [OF wf_lighter])
  case (1 w)
  show ?case
  proof (cases "ra_jobs w = []")
    case True
    then have "ra_jobs (fst (run_steps (ra_step R st) (replicate 0 (Pool 0)) w)) = []" by simp
    then show ?thesis by blast
  next
    case False
    let ?w = "fst (ra_step R st (Pool 0) w)"
    have u: "underway R ?w" by (rule underway_step [OF assms(1) 1(2)])
    have "ts_finished (psi_heap ?w (rr_addr R))" using ra_step_arrives [OF _ assms(1) _ 1(3)] 1(2) unfolding underway_def by blast
    moreover have "(?w, w) \<in> lighter" using pool_step [OF _ assms(1) _ 1(3), of 0 st] 1(2) False by (simp add: underway_def)
    ultimately obtain n where "ra_jobs (fst (run_steps (ra_step R st) (replicate n (Pool 0)) ?w)) = []"
      using 1(1) [OF _ u] by blast
    then have "ra_jobs (fst (run_steps (ra_step R st) (replicate (Suc n) (Pool 0)) w)) = []"
      by (simp only: replicate_Suc run_steps_Cons fst_conv)
    then show ?thesis by blast
  qed
qed

text \<open>With nothing waiting and everything arrived, every batch is written.\<close>

lemma idle_finished:
  assumes "underway R w" and "ts_finished (psi_heap w (rr_addr R))" and "ra_jobs w = []" and "rr_filters R \<noteq> []"
    and "\<forall>e \<in> ra_deliveries R. ra_arrived R w e"
  shows "finished (psi_heap w (rr_addr R))"
proof -
  let ?n = "length (rr_filters R)" and ?k = "ra_nextCache w"
  have i: "ra_inv R w" "ra_live R w" using assms(1) by (simp_all add: underway_def)
  obtain s where s: "map_of (ra_states w) (rr_resource R) = Some s" "received_ok R s" using i(1) by (auto simp: ra_inv_def Let_def)
  have t: "ra_task_inv R ?k (ra_cache w) (psi_heap w (rr_addr R))" "\<And>d. d < ?k \<Longrightarrow> ra_cache_ok R d (ra_cache w d)"
    using i(1) by (simp_all add: ra_inv_def Let_def)
  have k: "?k = length (rr_data R)" using t(1) assms(2) by (simp add: ra_task_inv_def)
  have got: "got R w = s" using s(1) by (simp add: got_def)
  have f: "int (x + 1) \<in> fs_receivedCuckooFilter s \<and> fs_cuckooFilterSize s \<noteq> - 1" if "x < ?n" for x
  proof -
    have "FilterArrives x \<in> ra_deliveries R" using that by (simp add: ra_deliveries_def)
    with assms(5) have "ra_arrived R w (FilterArrives x)" by (rule bspec)
    then show ?thesis using assms(3) got by simp
  qed
  have "fs_cuckooFilterSize s = int ?n" using f [of 0] s(2) assms(4) by (auto simp: received_ok_def)
  moreover have "fs_receivedCuckooFilter s = (\<lambda>x. int (x + 1)) ` {..<?n}" using f s(2) by (auto simp: received_ok_def)
  moreover have "card ((\<lambda>x. int (x + 1)) ` {..<?n}) = ?n" by (subst card_image) (auto intro: inj_onI)
  ultimately have "fetched R w" using s(1) by (simp add: fetched_def fetchFinish_def)
  then have "rc_state (ra_cache w d) \<noteq> Finalized \<and> rc_state (ra_cache w d) \<noteq> Intersectioned" if "d < ?k" for d
    using that i(2) assms(3) by (auto simp: ra_live_def commits_due_def computes_due_def)
  moreover have "rc_state (ra_cache w d) \<noteq> Evaluating" if "d < ?k" for d
  proof -
    have "EvaluatedArrives d \<in> ra_deliveries R" using that k by (simp add: ra_deliveries_def)
    with assms(5) have "ra_arrived R w (EvaluatedArrives d)" by (rule bspec)
    then show ?thesis using assms(3) by simp
  qed
  ultimately have "rc_state (ra_cache w d) = Synced" if "d < ?k" for d
    using that t(2) [OF that] by (cases "rc_state (ra_cache w d)") (auto simp: ra_cache_ok_def)
  then show ?thesis using t(1) assms(2) by (auto simp: finished_def ra_task_inv_def)
qed

section \<open>The run completes\<close>

lemma ready_underway:
  assumes "ra_ready R w" and "psi_getTaskByID (rr_task R) w \<noteq> None" and "psi_started w" and "\<not> ra_disabled w"
  shows "underway R w"
proof -
  have "ra_nextCache w = 0" using assms(1) by (simp add: ra_ready_def Let_def)
  then have "ra_live R w" using assms by (simp add: ra_live_def listed_def commits_due_def computes_due_def)
  then show ?thesis by (simp add: underway_def ra_ready_inv [OF assms(1)])
qed

lemma ra_completes:
  assumes "ra_setting R" and "ra_ready R w" and "psi_getTaskByID (rr_task R) w \<noteq> None" and "psi_started w" and "\<not> ra_disabled w"
    and "rr_filters R \<noteq> []" and "ts_finished (psi_heap (fst (run_steps (ra_step R st) es1 w)) (rr_addr R))"
    and "ra_deliveries R \<subseteq> set es2"
  shows "\<exists>n. finished (psi_heap (fst (run_steps (ra_step R st) (es1 @ es2 @ replicate n (Pool 0)) w)) (rr_addr R))"
proof -
  define w1 where "w1 = fst (run_steps (ra_step R st) es1 w)"
  define w2 where "w2 = fst (run_steps (ra_step R st) es2 w1)"
  have u1: "underway R w1" unfolding w1_def by (rule underway_run [OF assms(1) ready_underway [OF assms(2-5)]])
  then have u2: "underway R w2" unfolding w2_def by (rule underway_run [OF assms(1)])
  have a2: "ts_finished (psi_heap w2 (rr_addr R))" "\<forall>e \<in> ra_deliveries R. ra_arrived R w2 e"
    using ra_run_arrives [OF assms(1) u1, of st es2] assms(7,8) by (auto simp: w1_def w2_def)
  obtain n where n: "ra_jobs (fst (run_steps (ra_step R st) (replicate n (Pool 0)) w2)) = []"
    using ra_drain [OF assms(1) u2 a2(1)] by blast
  define w3 where "w3 = fst (run_steps (ra_step R st) (replicate n (Pool 0)) w2)"
  have u3: "underway R w3" unfolding w3_def by (rule underway_run [OF assms(1) u2])
  have a3: "ts_finished (psi_heap w3 (rr_addr R))" "\<forall>e \<in> ra_deliveries R. ra_arrived R w3 e"
    using ra_run_arrives [OF assms(1) u2 a2(1), of st "replicate n (Pool 0)"] a2(2) by (auto simp: w3_def)
  have "finished (psi_heap w3 (rr_addr R))"
    by (rule idle_finished [OF u3 a3(1) _ assms(6) a3(2)]) (use n in \<open>simp add: w3_def\<close>)
  moreover have "fst (run_steps (ra_step R st) (es1 @ es2 @ replicate n (Pool 0)) w) = w3"
    by (simp add: w3_def w2_def w1_def run_steps_append del: ra_step.simps)
  ultimately show ?thesis by metis
qed

text \<open>
  (C11) A run of RA2018-PSI finishes: when the client has read all its batches, every filter and every answer is delivered,
  in any order and between any other events, and then the pool runs, after finitely many jobs the task counts as
  finished. The cache of batches is assumed to have room for the data; a batch that finds it full is lost.
\<close>

theorem ra_psi_completes:
  assumes "ra_setting R" and "ra_ready R w" and "psi_getTaskByID (rr_task R) w \<noteq> None" and "psi_started w" and "\<not> ra_disabled w"
    and "rr_filters R \<noteq> []" and "ts_finished (psi_heap (fst (run_steps (ra_step R st) es1 w)) (rr_addr R))"
    and "ra_deliveries R \<subseteq> set es2"
  shows "\<exists>n. finished (psi_heap (fst (run_steps (ra_step R st) (es1 @ es2 @ replicate n (Pool 0)) w)) (rr_addr R))"
  by (rule ra_completes [OF assms])

section \<open>With the preprocessing\<close>

text \<open>
  (C9) Preprocessing and protocol together find every common item. The server's data was preprocessed under its key, and
  every filter that was stored is among those the client receives. Then in a finished run each item of the client that
  the server's data has is written as often as the client has it; only items that a filter takes for one of the server's
  can be written besides.
\<close>

theorem ra_psi_complete:
  assumes "usable opt" and "loads_ok load" and "\<And>d. d \<in> set batches \<Longrightarrow> length d + length reusable + 2 \<le> n"
    and "evaluateAndInsert n random opt load (rr_box R) (rr_key R) False batches r reusable = Inr (a, outs)"
    and "\<And>x f. x \<in> set outs \<Longrightarrow> stored_filter x = Some f \<Longrightarrow> \<exists>i \<in> set (rr_filters R). fi_cuckooFilter i = Some f"
    and "ra_setting R" and "ra_ready R w" and "finished (psi_heap (fst (run_steps (ra_step R st) es w)) (rr_addr R))"
    and "x \<in> set (concat batches)"
  shows "count (mset (written (psi_heap (fst (run_steps (ra_step R st) es w)) (rr_addr R)))) x = count (mset (concat (rr_data R))) x"
proof -
  have res: "mset (written (psi_heap (fst (run_steps (ra_step R st) es w)) (rr_addr R))) = filter_mset (ra_hit R) (mset (concat (rr_data R)))"
    using ra_result [OF ra_run_inv [OF ra_ready_inv [OF assms(7)] assms(6)] assms(8)] by (simp only: mset_filter)
  obtain d where d: "d \<in> set batches" "x \<in> set d" using assms(9) by auto
  have "\<forall>d \<in> set batches. \<forall>k \<in> set (oprf_fullEvaluate (rr_box R) (rr_key R) d). in_store k outs"
    using preprocess_stores [where batches = batches and random = random and b = "rr_box R" and key = "rr_key R" and r = r, OF assms(1-3)]
      assms(4) by auto
  then have "in_store (ra_value R x) outs" using d by (simp add: oprf_fullEvaluate_def ra_value_def)
  then have "ra_hit R x" using assms(5) by (fastforce simp: in_store_def ra_hit_def)
  then show ?thesis unfolding res by simp
qed

section \<open>A concrete run\<close>

definition sample_ra :: ra_run where
  "sample_ra = \<lparr>rr_task = ''t'', rr_addr = 0, rr_resource = ''r'', rr_data = [[''ecila'', ''x''], [''y'']],
     rr_filters = [new_CuckooFilterInfo 1 ''h'' (Some sample_stored)], rr_box = sample_box, rr_key = ''-'', rr_draw = (\<lambda>_. ''-'')\<rparr>"

definition sample_server_party :: PartyResource where
  "sample_server_party = (sample_party ''b'' 1)\<lparr>pa_dataResource := Some \<lparr>dr_resourceID = ''r'', dr_desc = None, dr_outputDesc = None, dr_rawData = []\<rparr>\<rparr>"

definition sample_ra_client :: ra where
  "sample_ra_client =
     \<lparr>psi_selfParty = ''A'', psi_selfEndPoint = ''n'', psi_agencies = [], psi_taskExpireTime = 5, psi_started = True,
      psi_heap = (\<lambda>_. (new_TaskState (sample_task\<lparr>tk_peerParties := [(''b'', sample_server_party)]\<rparr>) False False)
        \<lparr>ts_peerID := ''b'', ts_onSubTaskFinished := True, ts_reader := True\<rparr>),
      psi_next = 1, psi_pendingTasks = [(''t'', 0)], psi_processingDataResource = {}, psi_peerTasks = [], psi_msgQueue = [],
      ra_disabled = False, ra_waitResult = False, ra_oprf = sample_box, ra_privateKey = [], ra_filterOption = sample_option,
      ra_cache = (\<lambda>_. new_RA2018PSIClientCache None [] 0 0 [] []), ra_nextCache = 0, ra_caches = [], ra_capacity = 0,
      ra_maxCacheSize = 1024, ra_states = [(''r'', init_filter_state new_CuckooFilterState)],
      ra_filters = new_CuckooFiltersCache 100, ra_jobs = [BlindJob ''r'' 0], ra_reader = (\<lambda>_. [[''ecila'', ''x''], [''y'']]),
      ra_preprocessing = (\<lambda>_. NoPreprocessing)\<rparr>"

definition sample_storage :: ra_storage where
  "sample_storage = \<lparr>st_listed = (\<lambda>_. Some []), st_load = (\<lambda>_ _. None), st_loadData = (\<lambda>_ _. [])\<rparr>"

lemma sample_setting: "ra_setting sample_ra"
  by (simp add: ra_setting_def sample_ra_def unblinds_def sample_box_def new_CuckooFilterInfo_def Let_def)

lemma sample_ra_ready: "ra_ready sample_ra sample_ra_client"
proof -
  have "{..<Suc (Suc 0)} = {0, 1}" by auto
  then show ?thesis by (simp add: ra_ready_def sample_ra_def sample_ra_client_def new_TaskState_def sample_task_def peer_ok_def ra_peer_resource_def
      sample_server_party_def data_bytes_def new_CuckooFiltersCache_def filters_of_def Let_def)
qed

lemma sample_ra_state:
  "psi_getTaskByID (rr_task sample_ra) sample_ra_client \<noteq> None" "psi_started sample_ra_client" "\<not> ra_disabled sample_ra_client"
  "rr_filters sample_ra \<noteq> []"
  by (simp_all add: sample_ra_def sample_ra_client_def psi_getTaskByID_def)

lemma sample_ra_blinded:
  "ts_finished (psi_heap (fst (run_steps (ra_step sample_ra sample_storage) [Pool 0] sample_ra_client)) (rr_addr sample_ra))"
  by (simp add: sample_ra_def sample_ra_client_def ra_pool_def ra_run_job_def run_blind_def psi_getTaskByID_def task_at_def
      new_TaskState_def sample_task_def allocateSeq_def rcl_insertCache_def ra_isFull_def rcl_cache_def caches_of_def
      loadCuckooFilterState_def set_cache_def set_task_def batch_bytes_def Let_def)

definition sample_arrivals :: "ra_event list" where
  "sample_arrivals = [EvaluatedArrives 1, Pool 0, FilterArrives 0, FilterArrives 0, EvaluatedArrives 0]"

lemma sample_ra_deliveries: "ra_deliveries sample_ra \<subseteq> set sample_arrivals"
  by (auto simp: ra_deliveries_def sample_ra_def sample_arrivals_def)

theorem ra_psi_completes_witness:
  "\<exists>n. finished (psi_heap (fst (run_steps (ra_step sample_ra sample_storage) ([Pool 0] @ sample_arrivals @ replicate n (Pool 0))
     sample_ra_client)) (rr_addr sample_ra))"
  by (rule ra_psi_completes [OF sample_setting sample_ra_ready sample_ra_state sample_ra_blinded sample_ra_deliveries])

definition sample_written :: "nat \<Rightarrow> bytes list" where
  "sample_written n = written (psi_heap (fst (run_steps (ra_step sample_ra sample_storage)
     ([Pool 0] @ sample_arrivals @ replicate n (Pool 0)) sample_ra_client)) (rr_addr sample_ra))"

theorem ra_psi_correct_witness:
  "\<exists>n. mset (sample_written n) = mset (filter (ra_hit sample_ra) [''ecila'', ''x'', ''y''])"
proof -
  obtain n where "finished (psi_heap (fst (run_steps (ra_step sample_ra sample_storage) ([Pool 0] @ sample_arrivals @ replicate n (Pool 0))
      sample_ra_client)) (rr_addr sample_ra))"
    using ra_completes [OF sample_setting sample_ra_ready sample_ra_state sample_ra_blinded sample_ra_deliveries] by blast
  note r = ra_psi_correct [OF sample_setting sample_ra_ready this]
  have "concat (rr_data sample_ra) = [''ecila'', ''x'', ''y'']" by (simp add: sample_ra_def)
  with r show ?thesis unfolding sample_written_def by metis
qed

theorem ra_psi_complete_witness: "\<exists>n. count (mset (sample_written n)) ''ecila'' = 1"
proof -
  obtain n where f: "finished (psi_heap (fst (run_steps (ra_step sample_ra sample_storage) ([Pool 0] @ sample_arrivals @ replicate n (Pool 0))
      sample_ra_client)) (rr_addr sample_ra))"
    using ra_completes [OF sample_setting sample_ra_ready sample_ra_state sample_ra_blinded sample_ra_deliveries] by blast
  obtain a where a: "evaluateAndInsert 3 (\<lambda>_ _. 0) sample_option (\<lambda>_. None) (rr_box sample_ra) (rr_key sample_ra) False [[''ecila'']] ''r'' [] =
      Inr (a, [StoreInsert ''r'' sample_stored])"
    using sample_preprocessing by (auto simp: sample_ra_def)
  have "loads_ok (\<lambda>_. None)" by (simp add: loads_ok_def)
  from ra_psi_complete [OF sample_usable this _ a _ sample_setting sample_ra_ready f, of "''ecila''"]
  have "count (mset (sample_written n)) ''ecila'' = count (mset (concat (rr_data sample_ra))) ''ecila''"
    unfolding sample_written_def by (simp add: sample_ra_def new_CuckooFilterInfo_def del: run_steps.simps)
  moreover have "count (mset (concat (rr_data sample_ra))) ''ecila'' = 1" by (simp add: sample_ra_def)
  ultimately show ?thesis by metis
qed

end
