(* ===== verification/Spec2Isabelle.thy ===== *)
theory Spec2Isabelle
  imports PPCMessage Gateway Front EcdhResult MultiLimits RaResult
begin

text \<open>
  WeDPR-Component lets the parties of several agencies compute on their joint data. Its C++ code is
  modelled here from the wire up to three private set intersection protocols.

  \<^bold>\<open>The program.\<close> Every agency runs a gateway (cpp/wedpr-transport/ppc-gateway) and, behind it, nodes with a
  front (cpp/wedpr-transport/ppc-front). Gateways are joined by websocket sessions; a distance-vector
  router finds a way between gateways that have no session. Gateways tell each other which nodes and
  topics they serve. A front frames what an algorithm sends, matches answers to requests by trace id, and
  hands incoming messages to the handler of their topic or component; for an algorithm the handler is a
  channel per task that brings messages and receive calls together. On top of the front the PSI framework
  (cpp/wedpr-computing/ppc-psi) admits tasks, keeps them pending, drives them from a worker thread, watches
  the peers, and answers the submitter. On this framework run ECDH-PSI for two parties, its variant for many
  parties with a calculator, a master and partners, and the unbalanced RA2018-PSI, whose server puts its evaluated
  data into cuckoo filters (cpp/wedpr-helper/ppc-tools/src/cuckoo) ahead of time.

  \<^bold>\<open>Theories and sources\<close> (paths under src/cpp).
  \<^item> \<open>Prelude\<close>: failures as \<open>error + 'a\<close>, 32-bit arithmetic, and the interfaces that several components share, as
    locales: \<open>key_store\<close> (a map), \<open>seq_gate\<close> (only a newer sequence number passes), \<open>holding_store\<close> (what is
    held under a key is given out once), \<open>one_shot\<close> (a registered function is called at most once). Each is
    interpreted on the model of every component that has such a part.
  \<^item> \<open>NetBuffer\<close> (wedpr-helper/ppc-utilities/Utilities.h), \<open>FrontPayload\<close>
    (wedpr-protocol/protocol/src/v1/MessagePayloadImpl), \<open>MessageCodec\<close> (MessageHeaderImpl, MessageImpl of the
    same directory), \<open>PPCMessage\<close> (wedpr-protocol/protocol/src/PPCMessage): the message formats. Reads past the
    end of a buffer, which the code does not check, are \<open>Inl\<close> values. The locale \<open>field_codec\<close> states what an
    encoder and its decoder owe each other.
  \<^item> \<open>RouterTable\<close>, \<open>RouterManager\<close>, \<open>P2PService\<close> (ppc-gateway/p2p): routing table, its exchange between
    neighbours, sessions, forwarding. Distances are 32-bit words, so the wrap-around of an announced distance
    is part of the model.
  \<^item> \<open>GatewayNodeInfo\<close> (also wedpr-protocol/protobuf/src/NodeInfoImpl), \<open>LocalRouter\<close>, \<open>PeerRouter\<close>, \<open>Gateway\<close>
    (ppc-gateway/gateway): who is behind which gateway, delivery inside the agency, holding of messages for
    topics not yet registered, selection of gateways, retry, the status exchange.
  \<^item> \<open>Channel\<close>, \<open>CallbackManager\<close>, \<open>Front\<close> (ppc-front): channels, callbacks, the two front classes with the
    closures they install, and node discovery.
  \<^item> \<open>PSITask\<close> (psi-framework/TaskState, TaskGuarder; ppc-framework/protocol/Task.h), \<open>PSIFramework\<close>
    (psi-framework/PSIFramework, PSIConfig.h): one task's life, and the framework's tables, worker and messages.
  \<^item> \<open>EcdhCache\<close>, \<open>EcdhPSI\<close> (ecdh-psi): the caches with the jobs they post to the thread pool, and the protocol
    handlers. \<open>EcdhRun\<close> and \<open>EcdhResult\<close> hold the runs of a client against an honest server and the results.
  \<^item> \<open>MultiPSI\<close>, \<open>MultiCache\<close>, \<open>MultiTally\<close>, \<open>MultiCalculator\<close>, \<open>MultiMaster\<close> (ecdh-multi-psi): the messages and the
    three roles, the caches with their reference counts, what the counts mean, and the two roles that compute.
    \<open>MultiResult\<close> runs a calculator, a master and any number of partners together, \<open>MultiLimits\<close> shows where the
    protocol stops giving the intersection.
  \<^item> \<open>MurmurHash\<close> (ppc-crypto-core/src/hash/BitMixMurmurHash.h), \<open>CuckooFilter\<close> (ppc-tools/src/cuckoo): the hash and
    the filter. \<open>CuckooResult\<close> has the locale \<open>tag_array\<close> (reading and writing a tag in a bucket) and what insertion
    and serialisation keep, \<open>CuckooDelete\<close> what deletion takes.
  \<^item> \<open>RaFilters\<close>, \<open>RaPSI\<close> (ra2018-psi; ppc-crypto/src/oprf/RA2018Oprf): the filters on both sides with the
    preprocessing, and the protocol. \<open>RaOffline\<close> holds what the preprocessing and the cache of filters do, \<open>RaRun\<close>
    the runs of a client against an honest server, \<open>RaResult\<close> their results.
  \<^item> \<open>StandIn\<close>: concrete serialisers, for witnesses only.

  \<^bold>\<open>State and effects.\<close> A class is a record, an object that several owners share is an address in a heap (a
  list of records), a handler is a function from the state to the new state and the list of what it did
  besides (messages, callbacks, timers, storage calls, jobs). Timers, threads and incoming messages are events;
  theorems quantify over all sequences of them. A handler and a job of the thread pool are atomic steps: the
  code runs them under the lock of the object they change. Functions that are stored or passed on are
  datatypes that name them. Loops are structural recursion or \<open>function\<close> with a measure.

  \<^bold>\<open>Parameters\<close> are code outside the sources: the tars and protobuf readers and writers, the websocket layer
  (what a send answered is an argument), UUIDs, \<open>rand\<close>, the clock, which storage call throws, the batches the
  reader returns, and the cryptographic operations in \<open>CryptoBox\<close>. What the theorems need of them (a reader
  inverts its writer; multiplication by one's secret commutes with the peer's and is injective) is a
  hypothesis, and the witnesses discharge it.

  \<^bold>\<open>What is shown.\<close>
  \<^item> Formats: what is encoded decodes to the same, for every layer and end to end, but for the optional fields of
    packets that do not carry them; where 16-bit lengths make this fail, the theorem says how.
  \<^item> Routing: a distance update follows the distance-vector rule, a lost neighbour takes exactly its routes
    along, routes lead to neighbours in every reachable state, forwarding ends (a hop count of at most 10), and a
    message, encoded and decoded on every hop, arrives when the tables along a route name each other.
  \<^item> Gateway: the peer table refines the table of last announcements, the status exchange makes the nodes of
    one gateway routable at the other, held messages are delivered once, every message is answered once.
  \<^item> Front: requests, responses, timeouts; callbacks and channel handlers are called at most once, a message and
    the receive call for it meet in either order.
  \<^item> Tasks: admission, the accounting of sub-tasks, at most one answer on the regular paths, and over every
    sequence of framework events and operations on the tasks' states that a task is pending or answered once, never
    both, apart from the answers its exceptions give in addition, which are counted.
  \<^item> ECDH-PSI: for every order and repetition of messages and every schedule of the jobs, what is written is part
    of the intersection, is the intersection when the task counts as finished, and after finitely many jobs it
    is finished. The intersection is computed by a reference function on the two inputs.
  \<^item> ECDH-PSI of many parties: when master and calculator have computed, the lines are the items that all parties
    have. With one partner too few, duplicates in one party's data, or no data the code does something else, and the
    theorems of \<open>MultiLimits\<close> say what.
  \<^item> Cuckoo filter: a key that was inserted is found, also after later insertions, kicks and serialisation; a
    deletion removes exactly one tag of the key and touches no key with another fingerprint; the hash ignores most
    bytes of short keys.
  \<^item> RA2018-PSI: preprocessing puts every evaluated item into a filter that is stored. For every order and repetition
    of messages and every schedule of the jobs, a finished task has written the client's items that a filter takes for
    the server's, among them every common item, and once everything has arrived finitely many jobs finish it.

  \<^bold>\<open>Bounds.\<close> The ECDH-PSI theorems assume fewer than \<open>2 ^ 16\<close> batches, because the front carries 16 bits of a
  sequence number (\<open>distant_batch_dropped\<close> shows what happens beyond), and that the cache never fills up
  (\<open>full_cache_stalls\<close>). The theorem on many parties assumes 2 to 31 peers of the master, distinct items within a
  party, fewer than \<open>2 ^ 16\<close> batches, a common part of at most one batch of the calculator's messages, and that the
  blinding jobs run before messages are handled. The RA2018-PSI theorems start when the client has asked for the
  filters, and assume fewer than \<open>2 ^ 16 - 1\<close> batches and filters, filters with different numbers, and a batch cache
  larger than the data. The insertion loop of the preprocessing runs until \<open>stop\<close> is called; its model gets a number of
  rounds, and as many as a batch has items and there are reusable filters, plus two, are enough
  (\<open>preprocessing_complete\<close>). Kicks in a filter end after the number in its options, 20 unless configured. The accounting of sub-tasks assumes fewer than \<open>2 ^ 32\<close> events.

  \<^bold>\<open>Not modelled.\<close> Storage, data loading, configuration, start-up, the RPC and HTTP servers and the generated
  bindings: I/O and wiring. The wrappers of OpenSSL, libsodium, SEAL and IPP: calls into libraries; labelled
  PSI is mostly such calls. The MPC and CEM services run external programs. Of the protocols, ECDH-Conn-PSI (a variant
  of the two-party protocol with one exchange), the big-data variant driven from Java, CM2020-PSI and the
  oblivious-transfer based retrieval (ppc-pir) are left out: the last two are arithmetic of matrices and transfers in
  the crypto library with a thin protocol around it.
\<close>

section \<open>From algorithm to algorithm\<close>

text \<open>
  (C1) An algorithm's message reaches the algorithm of the other party. \<open>Front::asyncSendMessage\<close> of
  one node sends a \<open>PPCMessage\<close>; the gateway turns what the front hands over into a \<open>Message\<close>. At the
  receiving node, where the message's task and algorithm type are registered for channels and the task
  waits in \<open>asyncReceiveMessage\<close> for that message type and sequence number, the front unpacks the
  message, dispatches it by component, the channel manager finds the task's channel and the waiting
  handler is called with the message: same types, task, data and header, the trace id, the sender's
  agency and node. The sequence number has to fit into the 16 bits of the front's frame.
\<close>

theorem ppc_message_reaches_task:
  fixes tr agency :: bytes and F G :: Front and p :: PPCMessage and mgr :: PPCChannelManager
  assumes sizes: "length tr < 2 ^ 16" "length tr + length (ppc_data p) + length (ppc_header p) + 8 < 2 ^ 31"
    and seq: "unat (ppc_seq p) < 2 ^ 16"
    and no_topic: "getHandlerByTopic (ppc_taskID p) (fi_callbacks (fr_front G)) = None"
    and free: "map_of (cb_msgHandlers (fi_callbacks (fr_front G)))
                 (to_string (unat (algorithm_type (ppc_taskType p) (ppc_algorithmType p)))) = None"
    and chan: "cm_channels mgr (ppc_taskID p) = Some a"
    and waits: "ch_handlers (cm_store mgr ! a) (messageKey (ppc_messageType p) (ppc_seq p)) = Some h"
  defines "G' \<equiv> registerMsgHandlerForChannel (ppc_taskType p) (ppc_algorithmType p) G"
  shows "\<exists>F' req m m' d q.
    fr_asyncSendMessage tr dstAgency p timeout callback resp F = (F', [req]) \<and>
    gateway_message agency req = Inr m \<and>
    fi_onReceiveMessage moved_first m NoCallback (fr_front G') = (fr_front G', [Cb (CallDispatcher d m')], None) \<and>
    snd (run_dispatcher junk d m') = [ToChannelManager q] \<and>
    snd (cm_onMessageArrived q mgr) = [HandlerCall h (Some q)] \<and>
    same_ppc q p \<and> ppc_seq q = ppc_seq p \<and> ppc_uuid q = tr \<and>
    ppc_sender q = agency \<and> ppc_senderNode q = fi_nodeID (fr_front F)"
proof -
  let ?f = "request_frame tr (sint (ppc_seq p)) (fst (PPCMessage_encode p))"
  let ?ri = "new_MessageOptionalHeader\<lparr>oh_dstInst := dstAgency, oh_topic := ppc_taskID p,
      oh_componentType := to_string (unat (algorithm_type (ppc_taskType p) (ppc_algorithmType p))),
      oh_srcNode := fi_nodeID (fr_front F)\<rparr>"
  have "known_route ROUTE_THROUGH_TOPIC" by (simp add: known_route_def)
  from gateway_message_known [OF this, of agency ?ri tr "fst (MessagePayload_encode ?f [])" "uint timeout" "DoneSend tr callback"]
  obtain m where m: "gateway_message agency (ToGateway ROUTE_THROUGH_TOPIC ?ri tr
      (fst (MessagePayload_encode ?f [])) (uint timeout) (DoneSend tr callback)) = Inr m"
    "msg_payload m = Some (fst (MessagePayload_encode ?f []))"
    "mh_optionalField (msg_header m) = ?ri\<lparr>oh_srcInst := agency\<rparr>" by blast
  have l: "length tr + length (fst (PPCMessage_encode p)) < 2 ^ 31" using sizes(2) by (simp add: ppc_encode_length)
  let ?d = "PpcHandler (algorithm_type (ppc_taskType p) (ppc_algorithmType p)) ChannelHandler"
  have "getHandlerByTopic (ppc_taskID p) (fi_callbacks (fr_front G')) = None"
    using no_topic by (simp add: G'_def registerMsgHandlerForChannel_def fr_registerMessageHandler_def
        registerComponent_def fi_registerMessageHandler_def cb_registerMessageHandler_def getHandlerByTopic_def Let_def)
  then have recv: "fi_onReceiveMessage moved_first m NoCallback (fr_front G') =
      (fr_front G', [Cb (CallDispatcher ?d (unpacked m ?f))], None)"
    using receive_request [OF m(2) sizes(1) l] m(3) registered_component [OF free]
    by (simp add: cb_onReceiveMessage_def G'_def registerMsgHandlerForChannel_def)
  let ?q = "fst (decodePPCMessage junk (unpacked m ?f))"
  have dl: "length (ppc_data p) + length (ppc_header p) + 8 < 2 ^ 31" using sizes(2) by simp
  have q: "same_ppc ?q p" "ppc_seq ?q = ppc_seq p" "ppc_uuid ?q = tr" "ppc_sender ?q = agency"
    "ppc_senderNode ?q = fi_nodeID (fr_front F)"
    using decode_dispatched [OF dl, of m junk tr "sint (ppc_seq p)"] m(3) seq
    by (simp_all add: Let_def seq_cut seq_small)
  have arr: "snd (cm_onMessageArrived ?q mgr) = [HandlerCall h (Some ?q)]"
    using chan waits q(1,2)
    by (simp add: cm_onMessageArrived_def same_ppc_def arrive_handler)
  show ?thesis
    by (intro exI conjI, rule fr_send, rule m(1), rule recv, rule run_channel_dispatcher, rule arr)
      (rule q)+
qed

theorem ppc_message_reaches_task_witness:
  defines "p \<equiv> (new_PPCMessage False)\<lparr>ppc_taskID := ''job'', ppc_messageType := 3, ppc_seq := 7, ppc_data := ''x''\<rparr>"
    and "F \<equiv> new_Front (new_FrontImpl (new_NodeInfo ''a'' []))"
    and "G \<equiv> new_Front (new_FrontImpl (new_NodeInfo ''b'' []))"
    and "mgr \<equiv> fst (cm_receive 0 3 7 (Some 5) (fst (snd (buildChannelForTask ''job'' new_PPCChannelManager))))"
  shows "\<exists>F' req m m' d q.
    fr_asyncSendMessage ''t'' ''B'' p 0 None None F = (F', [req]) \<and> gateway_message ''A'' req = Inr m \<and>
    fi_onReceiveMessage True m NoCallback (fr_front (registerMsgHandlerForChannel 0 0 G)) =
      (fr_front (registerMsgHandlerForChannel 0 0 G), [Cb (CallDispatcher d m')], None) \<and>
    snd (run_dispatcher False d m') = [ToChannelManager q] \<and>
    snd (cm_onMessageArrived q mgr) = [HandlerCall 5 (Some q)] \<and> ppc_data q = ''x''"
proof -
  have p: "ppc_taskType p = 0" "ppc_algorithmType p = 0" "ppc_taskID p = ''job''" "ppc_messageType p = 3"
    "ppc_seq p = 7" "ppc_data p = ''x''" "ppc_header p = []"
    by (simp_all add: p_def new_PPCMessage_def)
  have sizes: "length ''t'' < 2 ^ 16" "length ''t'' + length (ppc_data p) + length (ppc_header p) + 8 < 2 ^ 31"
    and seq: "unat (ppc_seq p) < 2 ^ 16" by (simp_all add: p)
  have G: "fi_callbacks (fr_front G) = new_CallbackManager" by (simp add: G_def new_Front_def new_FrontImpl_def)
  have none: "getHandlerByTopic (ppc_taskID p) (fi_callbacks (fr_front G)) = None"
    "map_of (cb_msgHandlers (fi_callbacks (fr_front G)))
       (to_string (unat (algorithm_type (ppc_taskType p) (ppc_algorithmType p)))) = None"
    by (simp_all add: G new_CallbackManager_def getHandlerByTopic_def)
  have "buildChannelForTask ''job'' new_PPCChannelManager =
      (0, \<lparr>cm_store = [new_PPCChannel], cm_channels = [''job'' \<mapsto> 0], cm_holdingMessages = Map.empty\<rparr>, [])"
    by (simp add: buildChannelForTask_def new_PPCChannelManager_def)
  then have mgr: "cm_channels mgr (ppc_taskID p) = Some 0"
    "ch_handlers (cm_store mgr ! 0) (messageKey (ppc_messageType p) (ppc_seq p)) = Some 5"
    by (simp_all add: mgr_def cm_receive_def p receive_no_message new_PPCChannel_def)
  from ppc_message_reaches_task [OF sizes seq none mgr, of "''B''" 0 None None F "''A''" True False]
  show ?thesis unfolding p(1,2,6) same_ppc_def by blast
qed

end
